(* ===== verification/HC_Prelude.thy ===== *)
theory HC_Prelude
  imports Main "HOL-Library.Word" "HOL-Library.Monad_Syntax"
begin

text \<open>
  Shared vocabulary of the development: the fixed-width integer types of
  \<^verbatim>\<open>include/htypes.h\<close>, bounds-checked access to C arrays, the compiler helpers of
  \<^verbatim>\<open>include/compiler.h\<close> (find-first-set, rounding, alignment), and the generic lemmas on
  lists, options and words that the component theories use.

  Conventions. A C array is a list; an access outside it is undefined behaviour and is the
  value \<open>None\<close> of the option type, so that a theorem of the form \<open>f x = Some y\<close> also states
  that \<open>f\<close> stays inside its arrays. Sizes and positions that cannot wrap in the code are
  \<open>nat\<close>; register values and bit patterns are words.
\<close>

unbundle bit_operations_syntax

type_synonym u8 = "8 word"
type_synonym u16 = "16 word"
type_synonym u32 = "32 word"
type_synonym u64 = "64 word"

named_theorems hc_defs \<open>definitions that component proofs unfold\<close>
named_theorems hc_inv \<open>preservation of component invariants\<close>

section \<open>Arrays\<close>

definition aread :: "'a list \<Rightarrow> nat \<Rightarrow> 'a option" where
  "aread xs i = (if i < length xs then Some (xs ! i) else None)"

definition awrite :: "'a list \<Rightarrow> nat \<Rightarrow> 'a \<Rightarrow> 'a list option" where
  "awrite xs i v = (if i < length xs then Some (xs[i := v]) else None)"

lemma aread_eq_Some [simp]: "aread xs i = Some v \<longleftrightarrow> i < length xs \<and> xs ! i = v"
  by (auto simp: aread_def)

lemma awrite_eq_Some [simp]: "awrite xs i v = Some ys \<longleftrightarrow> i < length xs \<and> ys = xs[i := v]"
  by (auto simp: awrite_def)

lemma aread_eq_None [simp]: "aread xs i = None \<longleftrightarrow> length xs \<le> i"
  by (auto simp: aread_def)

lemma awrite_eq_None [simp]: "awrite xs i v = None \<longleftrightarrow> length xs \<le> i"
  by (auto simp: awrite_def)

lemma aread_in [simp]: "i < length xs \<Longrightarrow> aread xs i = Some (xs ! i)"
  by simp

lemma awrite_in [simp]: "i < length xs \<Longrightarrow> awrite xs i v = Some (xs[i := v])"
  by simp

section \<open>Bits of words\<close>

lemma block_div_mod [simp]:
  "k < 64 \<Longrightarrow> (64 * q + k) div 64 = (q::nat)" "k < 64 \<Longrightarrow> (64 * q + k) mod 64 = (k::nat)"
  by simp_all

text \<open>\<open>__builtin_ffsl\<close>: one plus the index of the lowest set bit, 0 for the zero word.\<close>

definition builtin_ffsl :: "u64 \<Rightarrow> nat" where
  "builtin_ffsl w = (case List.find (bit w) [0..<64] of None \<Rightarrow> 0 | Some i \<Rightarrow> i + 1)"

text \<open>\<open>__ffsl\<close> of \<^verbatim>\<open>include/compiler.h\<close>; an \<^verbatim>\<open>int\<close>, -1 for the zero word.\<close>

definition ffsl :: "u64 \<Rightarrow> int" where
  "ffsl w = int (builtin_ffsl w) - 1"

lemma word_nonzero_bit: "w \<noteq> 0 \<longleftrightarrow> (\<exists>i < LENGTH('a). bit w i)" for w :: "'a::len word"
  by (auto simp: bit_word_eqI bit_eq_iff)

lemma find_upt_Some:
  "List.find P [a..<b] = Some i \<longleftrightarrow> a \<le> i \<and> i < b \<and> P i \<and> (\<forall>j. a \<le> j \<longrightarrow> j < i \<longrightarrow> \<not> P j)"
  for a b i :: nat
proof -
  have "List.find P [a..<b] = Some i \<longleftrightarrow>
      (\<exists>k < b - a. P (a + k) \<and> i = a + k \<and> (\<forall>j < k. \<not> P (a + j)))"
    by (auto simp: find_Some_iff)
  also have "\<dots> \<longleftrightarrow> a \<le> i \<and> i < b \<and> P i \<and> (\<forall>j. a \<le> j \<longrightarrow> j < i \<longrightarrow> \<not> P j)"
  proof (intro iffI; elim exE conjE)
    fix k assume "k < b - a" "P (a + k)" "i = a + k" "\<forall>j < k. \<not> P (a + j)"
    then show "a \<le> i \<and> i < b \<and> P i \<and> (\<forall>j. a \<le> j \<longrightarrow> j < i \<longrightarrow> \<not> P j)"
      by (metis add.commute add_less_cancel_left le_add1 le_add_diff_inverse less_diff_conv)
  next
    assume "a \<le> i" "i < b" "P i" "\<forall>j. a \<le> j \<longrightarrow> j < i \<longrightarrow> \<not> P j"
    then show "\<exists>k < b - a. P (a + k) \<and> i = a + k \<and> (\<forall>j < k. \<not> P (a + j))"
      by (intro exI [of _ "i - a"]) auto
  qed
  finally show ?thesis .
qed

lemma ffsl_nonzero:
  assumes "w \<noteq> 0"
  obtains i where "ffsl w = int i" "i < 64" "bit w i" "\<And>j. j < i \<Longrightarrow> \<not> bit w j"
proof -
  have "List.find (bit w) [0..<64] \<noteq> None"
    using assms by (auto simp: find_None_iff word_nonzero_bit)
  then obtain i where i: "List.find (bit w) [0..<64] = Some i" by auto
  then have "i < 64" "bit w i" "\<And>j. j < i \<Longrightarrow> \<not> bit w j"
    by (auto simp: find_upt_Some)
  moreover have "ffsl w = int i" using i by (simp add: ffsl_def builtin_ffsl_def)
  ultimately show thesis by (rule that[rotated])
qed

lemma unat_of_nat_small: "n < 2 ^ LENGTH('a) \<Longrightarrow> unat (of_nat n :: 'a::len word) = n"
  by (simp add: unat_of_nat take_bit_nat_eq_self)

lemma uint_of_nat_small: "n < 2 ^ LENGTH('a) \<Longrightarrow> uint (of_nat n :: 'a::len word) = int n"
  by (simp add: uint_nat unat_of_nat_small)

lemma sint_of_nat_small: "n < 2 ^ 31 \<Longrightarrow> sint (of_nat n :: u32) = int n"
  by (simp add: sint_uint uint_nat unat_of_nat take_bit_nat_eq_self signed_take_bit_int_eq_self)

lemma drop_bit_and_not_mask [simp]:
  "drop_bit n (x AND NOT (mask n)) = drop_bit n (x :: 'a::len word)"
  by (rule bit_word_eqI) (auto simp: bit_simps dest: bit_imp_le_length)

lemma unat_drop_bit_div: "unat (drop_bit k x) = unat x div 2 ^ k" for x :: "'a::len word"
  by (simp only: unat_drop_bit_eq) (simp add: drop_bit_eq_div)

lemma unat_push_bit_small: "unat x * 2 ^ k < 2 ^ LENGTH('a) \<Longrightarrow> unat (push_bit k x) = unat x * 2 ^ k" for x :: "'a::len word"
  by (simp only: unsigned_push_bit_eq push_bit_nat_def take_bit_nat_eq_self)

lemma unat_and_not_mask: "k \<le> LENGTH('a) \<Longrightarrow> unat (x AND NOT (mask k)) = unat x div 2 ^ k * 2 ^ k" for x :: "'a::len word"
proof -
  assume "k \<le> LENGTH('a)"
  have e: "x AND NOT (mask k) = push_bit k (drop_bit k x)" by (rule bit_word_eqI) (auto simp: bit_simps)
  have "unat x div 2 ^ k * 2 ^ k \<le> unat x" by simp
  also have "unat x < 2 ^ LENGTH('a)" by (rule unsigned_less)
  finally have "unat (drop_bit k x) * 2 ^ k < 2 ^ LENGTH('a)" by (simp add: unat_drop_bit_div)
  then show ?thesis unfolding e by (subst unat_push_bit_small) (simp_all add: unat_drop_bit_div)
qed

lemma unat_and_mask: "unat (x AND mask k) = unat x mod 2 ^ k" for x :: "'a::len word"
proof -
  have "x AND mask k = take_bit k x" by (simp add: take_bit_eq_mask)
  then show ?thesis by (simp only: unsigned_take_bit_eq) (simp add: take_bit_eq_mod)
qed

lemma pow2_less: "(2::nat) ^ a < 2 ^ b \<Longrightarrow> a < b"
  using power_less_imp_less_exp [of "2::nat" a b] by simp

section \<open>Alignment\<close>

text \<open>
  \<open>ALIGN_MASK(v, m)\<close> is \<open>(v + m) & ~m\<close>; on naturals the complement mask is written as the
  removal of the masked bits.
\<close>

definition ALIGN_MASK :: "nat \<Rightarrow> nat \<Rightarrow> nat" where
  "ALIGN_MASK v m = (v + m) - ((v + m) AND m)"

lemma nat_and_le: "(x::nat) AND m \<le> m"
proof -
  have "int x AND int m \<le> int m" by (rule AND_upper2) simp
  then show ?thesis by (simp flip: of_nat_and_eq)
qed

lemma ALIGN_MASK_ge: "v \<le> ALIGN_MASK v m"
  using nat_and_le [of "v + m" m] by (simp add: ALIGN_MASK_def)

lemma ALIGN_MASK_0 [simp]: "ALIGN_MASK v 0 = v"
  by (simp add: ALIGN_MASK_def)

lemma ALIGN_MASK_pow2: "ALIGN_MASK v (2 ^ k - 1) = (v + (2 ^ k - 1)) div 2 ^ k * 2 ^ k"
proof -
  have "x AND (2 ^ k - 1) = x mod 2 ^ k" for x :: nat
    by (metis mask_eq_exp_minus_1 take_bit_eq_mask take_bit_eq_mod)
  then show ?thesis by (simp add: ALIGN_MASK_def minus_mod_eq_div_mult)
qed

end
