(* ===== verification/Bitmap.thy ===== *)
theory Bitmap
  imports HC_Prelude
begin

text \<open>
  \<^verbatim>\<open>src/core/bitmap.c\<close>: bit arrays of 64-bit words, the search for the next set or clear
  bit, and the first-fit search for a free aligned area. Every access to the array is
  bounds checked by \<open>aread\<close>/\<open>awrite\<close>; a C \<^verbatim>\<open>int\<close> bit number is an \<^typ>\<open>int\<close> and is
  converted to \<^verbatim>\<open>unsigned long\<close> by the division by \<^verbatim>\<open>BITS_PER_UINT64\<close>, as in C.
\<close>

type_synonym bitmap = "u64 list"

section \<open>Model\<close>

subsection \<open>Single bits and ranges\<close>

definition ulong_of_int :: "int \<Rightarrow> nat" where
  "ulong_of_int n = nat (n mod 2 ^ 64)"

definition bm_set_bit :: "bitmap \<Rightarrow> int \<Rightarrow> bitmap option" where
  "bm_set_bit bm n = do {
     w \<leftarrow> aread bm (ulong_of_int n div 64);
     awrite bm (ulong_of_int n div 64) (w OR push_bit (ulong_of_int n mod 64) 1) }"

definition bm_clear_bit :: "bitmap \<Rightarrow> int \<Rightarrow> bitmap option" where
  "bm_clear_bit bm n = do {
     w \<leftarrow> aread bm (ulong_of_int n div 64);
     awrite bm (ulong_of_int n div 64) (w AND NOT (push_bit (ulong_of_int n mod 64) 1)) }"

definition int_ok :: "int \<Rightarrow> bool" where
  "int_ok n \<longleftrightarrow> - (2 ^ 31) \<le> n \<and> n < 2 ^ 31"

function bits_loop :: "(bitmap \<Rightarrow> int \<Rightarrow> bitmap option) \<Rightarrow> bitmap \<Rightarrow> int \<Rightarrow> int \<Rightarrow> bitmap option" where
  "bits_loop f bm i e = (if i < e then f bm i \<bind> (\<lambda>bm'. bits_loop f bm' (i + 1) e) else Some bm)"
  by pat_completeness auto
termination
  by (relation "measure (\<lambda>(f, bm, i, e). nat (e - i))") auto

declare bits_loop.simps [simp del]

text \<open>The loop bound \<open>start + cnt\<close> is an \<^verbatim>\<open>int\<close> sum; its overflow is undefined.\<close>

definition set_bits :: "bitmap \<Rightarrow> int \<Rightarrow> int \<Rightarrow> bitmap option" where
  "set_bits bm start cnt =
     (if int_ok (start + cnt) then bits_loop bm_set_bit bm start (start + cnt) else None)"

definition clear_bits :: "bitmap \<Rightarrow> int \<Rightarrow> int \<Rightarrow> bitmap option" where
  "clear_bits bm start cnt =
     (if int_ok (start + cnt) then bits_loop bm_clear_bit bm start (start + cnt) else None)"

text \<open>\<open>is_bit_set\<close> returns the masked 64-bit word through an \<^verbatim>\<open>int\<close>: the upper half is lost.\<close>

definition is_bit_set :: "bitmap \<Rightarrow> int \<Rightarrow> int option" where
  "is_bit_set bm n = do {
     w \<leftarrow> aread bm (ulong_of_int n div 64);
     Some (sint (ucast (w AND push_bit (ulong_of_int n mod 64) 1) :: u32)) }"

subsection \<open>Searching\<close>

function find_next_bit_loop :: "bitmap \<Rightarrow> nat \<Rightarrow> nat \<Rightarrow> u64 \<Rightarrow> u64 \<Rightarrow> nat option" where
  "find_next_bit_loop addr nbits start invert tmp =
     (if tmp = 0 then
        (let start' = start + 64 in
         if nbits \<le> start' then Some nbits
         else aread addr (start' div 64) \<bind>
                (\<lambda>w. find_next_bit_loop addr nbits start' invert (w XOR invert)))
      else Some (if start + nat (ffsl tmp) < nbits then start + nat (ffsl tmp) else nbits))"
  by pat_completeness auto
termination
  by (relation "measure (\<lambda>(addr, nbits, start, invert, tmp). nbits - start)") auto

declare find_next_bit_loop.simps [simp del]

definition find_next_bit_inv :: "bitmap \<Rightarrow> nat \<Rightarrow> nat \<Rightarrow> u64 \<Rightarrow> nat option" where
  "find_next_bit_inv addr nbits start invert =
     (if nbits \<le> start then Some nbits
      else do {
        w \<leftarrow> aread addr (start div 64);
        find_next_bit_loop addr nbits (start - start mod 64) invert
          ((w XOR invert) AND push_bit (start mod 64) (- 1)) })"

definition find_next_bit :: "bitmap \<Rightarrow> nat \<Rightarrow> nat \<Rightarrow> nat option" where
  "find_next_bit addr sz offset = find_next_bit_inv addr sz offset 0"

definition find_next_zero_bit :: "bitmap \<Rightarrow> nat \<Rightarrow> nat \<Rightarrow> nat option" where
  "find_next_zero_bit bm sz start = find_next_bit_inv bm sz start (- 1)"

section \<open>Bits as a predicate\<close>

definition bm_test :: "bitmap \<Rightarrow> nat \<Rightarrow> bool" where
  "bm_test bm i = bit (bm ! (i div 64)) (i mod 64)"

lemma ulong_of_int_id [simp]: "0 \<le> n \<Longrightarrow> n < 2 ^ 64 \<Longrightarrow> ulong_of_int n = nat n"
  by (simp add: ulong_of_int_def)

lemma div_mod_eq_iff: "i = j \<longleftrightarrow> i div 64 = j div 64 \<and> i mod 64 = j mod (64::nat)"
  by (metis div_mult_mod_eq)

lemma bit_push_1: "bit (push_bit k 1 :: u64) i \<longleftrightarrow> i = k \<and> k < 64"
  by (auto simp: bit_simps)

text \<open>What a single-bit update does: it stays in the array and stores \<open>v\<close> in bit \<open>i\<close> only.\<close>

definition stores_bit :: "(bitmap \<Rightarrow> int \<Rightarrow> bitmap option) \<Rightarrow> bool \<Rightarrow> bool" where
  "stores_bit f v \<longleftrightarrow> (\<forall>bm i. i < 64 * length bm \<longrightarrow> i < 2 ^ 64 \<longrightarrow>
     (\<exists>bm'. f bm (int i) = Some bm' \<and> length bm' = length bm \<and>
        (\<forall>j. bm_test bm' j = (if j = i then v else bm_test bm j))))"

lemma bm_update_test:
  assumes "i < 64 * length bm" "\<And>k. k < 64 \<Longrightarrow> bit w k = (if k = i mod 64 then v else bit (bm ! (i div 64)) k)"
  shows "i div 64 < length bm"
    "bm_test (bm[i div 64 := w]) j = (if j = i then v else bm_test bm j)"
proof -
  show lt: "i div 64 < length bm"
    using assms(1) by (simp add: less_mult_imp_div_less mult.commute)
  show "bm_test (bm[i div 64 := w]) j = (if j = i then v else bm_test bm j)"
  proof (cases "j div 64 = i div 64")
    case True
    then have "j = i \<longleftrightarrow> j mod 64 = i mod 64" by (metis div_mod_eq_iff)
    with True lt assms(2) show ?thesis by (simp add: bm_test_def)
  next
    case False
    then show ?thesis by (auto simp: bm_test_def)
  qed
qed

lemma stores_bit_set: "stores_bit bm_set_bit True"
  unfolding stores_bit_def
proof (intro allI impI)
  fix bm :: bitmap and i :: nat assume i: "i < 64 * length bm" "i < 2 ^ 64"
  let ?w = "bm ! (i div 64) OR push_bit (i mod 64) 1"
  note u = bm_update_test [OF i(1), of ?w True]
  show "\<exists>bm'. bm_set_bit bm (int i) = Some bm' \<and> length bm' = length bm \<and>
      (\<forall>j. bm_test bm' j = (if j = i then True else bm_test bm j))"
    by (rule exI [of _ "bm[i div 64 := ?w]"]) (use i u in \<open>auto simp: bm_set_bit_def bit_simps\<close>)
qed

lemma stores_bit_clear: "stores_bit bm_clear_bit False"
  unfolding stores_bit_def
proof (intro allI impI)
  fix bm :: bitmap and i :: nat assume i: "i < 64 * length bm" "i < 2 ^ 64"
  let ?w = "bm ! (i div 64) AND NOT (push_bit (i mod 64) 1)"
  note u = bm_update_test [OF i(1), of ?w False]
  show "\<exists>bm'. bm_clear_bit bm (int i) = Some bm' \<and> length bm' = length bm \<and>
      (\<forall>j. bm_test bm' j = (if j = i then False else bm_test bm j))"
    by (rule exI [of _ "bm[i div 64 := ?w]"]) (use i u in \<open>auto simp: bm_clear_bit_def bit_simps\<close>)
qed

lemma bits_loop_stores:
  assumes f: "stores_bit f v" and "e \<le> 64 * length bm" "e < 2 ^ 64"
  shows "\<exists>bm'. bits_loop f bm (int i) (int e) = Some bm' \<and> length bm' = length bm \<and>
    (\<forall>j. bm_test bm' j = (if i \<le> j \<and> j < e then v else bm_test bm j))"
  using assms(2,3)
proof (induction "e - i" arbitrary: i bm)
  case 0
  then show ?case by (auto simp: bits_loop.simps [of _ bm])
next
  case (Suc k)
  then have lt: "i < e" "i < 64 * length bm" "i < 2 ^ 64" and k: "k = e - Suc i" by auto
  from f [unfolded stores_bit_def, rule_format, OF lt(2,3)] obtain bm1 where
    b1: "f bm (int i) = Some bm1" "length bm1 = length bm"
      "\<forall>j. bm_test bm1 j = (if j = i then v else bm_test bm j)" by blast
  from Suc.hyps(1) [OF k, of bm1] Suc.prems b1(2) obtain bm2 where
    b2: "bits_loop f bm1 (int (Suc i)) (int e) = Some bm2" "length bm2 = length bm"
      "\<forall>j. bm_test bm2 j = (if Suc i \<le> j \<and> j < e then v else bm_test bm1 j)" by auto
  have "bits_loop f bm (int i) (int e) = Some bm2"
    using lt(1) b1(1) b2(1) by (subst bits_loop.simps) (simp add: add.commute)
  with b1(3) b2 lt(1) show ?case by (auto simp: Suc_le_eq)
qed

lemma set_bits_Some:
  assumes "start + cnt \<le> 64 * length bm" "start + cnt < 2 ^ 31"
  shows "\<exists>bm'. set_bits bm (int start) (int cnt) = Some bm' \<and> length bm' = length bm \<and>
    (\<forall>j. bm_test bm' j = (if start \<le> j \<and> j < start + cnt then True else bm_test bm j))"
  using bits_loop_stores [OF stores_bit_set assms(1), of start] assms(2)
  by (auto simp: set_bits_def int_ok_def)

lemma clear_bits_Some:
  assumes "start + cnt \<le> 64 * length bm" "start + cnt < 2 ^ 31"
  shows "\<exists>bm'. clear_bits bm (int start) (int cnt) = Some bm' \<and> length bm' = length bm \<and>
    (\<forall>j. bm_test bm' j = (if start \<le> j \<and> j < start + cnt then False else bm_test bm j))"
  using bits_loop_stores [OF stores_bit_clear assms(1), of start] assms(2)
  by (auto simp: clear_bits_def int_ok_def)

section \<open>Correctness of the search\<close>

definition next_spec :: "(nat \<Rightarrow> bool) \<Rightarrow> nat \<Rightarrow> nat \<Rightarrow> nat \<Rightarrow> bool" where
  "next_spec P nbits start r \<longleftrightarrow>
     (\<forall>j. start \<le> j \<and> j < r \<and> j < nbits \<longrightarrow> \<not> P j) \<and> r \<le> nbits \<and>
     (start \<le> nbits \<longrightarrow> start \<le> r) \<and> (r < nbits \<longrightarrow> P r)"

lemma next_spec_unique:
  assumes "next_spec P n s r" "next_spec P n s r'" "s \<le> n"
  shows "r = r'"
  using assms by (auto simp: next_spec_def intro: linorder_less_linear [of r r', THEN disjE])

definition inv_test :: "bitmap \<Rightarrow> u64 \<Rightarrow> nat \<Rightarrow> bool" where
  "inv_test bm invert i = bit (bm ! (i div 64) XOR invert) (i mod 64)"

lemma block_split:
  assumes "64 dvd (s::nat)" "s \<le> j" "j < s + 64"
  obtains k where "j = s + k" "k < 64" "j div 64 = s div 64" "j mod 64 = k"
proof -
  obtain q where q: "s = 64 * q" using assms(1) by auto
  obtain k where k: "j = s + k" using assms(2) by (auto simp: le_iff_add)
  with assms(3) have "k < 64" by simp
  with q k that [of k] show thesis by simp
qed

lemma find_next_bit_loop_correct:
  assumes "64 dvd s" "s < nbits" "nbits \<le> 64 * length addr"
    and "\<And>k. k < 64 \<Longrightarrow> bit tmp k \<longleftrightarrow> inv_test addr invert (s + k) \<and> start \<le> s + k"
    and "\<And>j. start \<le> j \<Longrightarrow> j < s \<Longrightarrow> \<not> inv_test addr invert j"
    and "start < s + 64" "start < nbits"
  shows "\<exists>r. find_next_bit_loop addr nbits s invert tmp = Some r \<and>
           next_spec (inv_test addr invert) nbits start r"
  using assms
proof (induction addr nbits s invert tmp rule: find_next_bit_loop.induct)
  case (1 addr nbits s invert tmp)
  note prems = "1.prems"
  show ?case
  proof (cases "tmp = 0")
    case True
    have clear: "\<not> inv_test addr invert j" if "start \<le> j" "j < s + 64" for j
    proof (cases "j < s")
      case False
      with that prems(1) obtain k where "j = s + k" "k < 64" by (metis block_split not_le)
      with prems(4) [of k] True that show ?thesis by simp
    qed (use prems(5) that in auto)
    show ?thesis
    proof (cases "nbits \<le> s + 64")
      case True
      with \<open>tmp = 0\<close> clear prems show ?thesis
        by (subst find_next_bit_loop.simps) (auto simp: next_spec_def)
    next
      case False
      have lt: "(s + 64) div 64 < length addr" using False prems(3) by auto
      have dvd: "64 dvd s + 64" using prems(1) by simp
      have t: "bit (addr ! ((s + 64) div 64) XOR invert) k \<longleftrightarrow>
          inv_test addr invert (s + 64 + k) \<and> start \<le> s + 64 + k" if "k < 64" for k
      proof -
        obtain q where q: "s = 64 * q" using prems(1) by auto
        have eq: "s + 64 + k = 64 * Suc q + k" using q by simp
        have "(s + 64 + k) div 64 = (s + 64) div 64" "(s + 64 + k) mod 64 = k"
          unfolding eq block_div_mod [OF that] using q by simp_all
        with prems(6) show ?thesis by (auto simp: inv_test_def)
      qed
      have "\<exists>r. find_next_bit_loop addr nbits (s + 64) invert
               (addr ! ((s + 64) div 64) XOR invert) = Some r \<and>
             next_spec (inv_test addr invert) nbits start r"
        by (rule "1.IH" [OF True refl]) (use False lt dvd t clear prems in auto)
      with True False lt show ?thesis by (subst find_next_bit_loop.simps) (simp add: Let_def)
    qed
  next
    case False
    then obtain k where k: "ffsl tmp = int k" "k < 64" "bit tmp k" "\<And>j. j < k \<Longrightarrow> \<not> bit tmp j"
      by (rule ffsl_nonzero) blast
    have clear: "\<not> inv_test addr invert j" if "start \<le> j" "j < s + k" for j
    proof (cases "j < s")
      case False
      with that k(2) obtain i where "j = s + i" "i < k"
        by (metis add_less_cancel_left le_Suc_ex not_le)
      with k prems(4) [of i] that show ?thesis by simp
    qed (use prems(5) that in auto)
    from False k(1) have eq: "find_next_bit_loop addr nbits s invert tmp =
        Some (if s + k < nbits then s + k else nbits)"
      by (subst find_next_bit_loop.simps) simp
    have "inv_test addr invert (s + k)" "start \<le> s + k" using prems(4) [OF k(2)] k(3) by auto
    with eq clear prems show ?thesis by (auto simp: next_spec_def)
  qed
qed

lemma find_next_bit_inv_correct:
  assumes "nbits \<le> 64 * length addr"
  shows "\<exists>r. find_next_bit_inv addr nbits start invert = Some r \<and>
           next_spec (inv_test addr invert) nbits start r"
proof (cases "nbits \<le> start")
  case True
  then show ?thesis by (auto simp: find_next_bit_inv_def next_spec_def)
next
  case False
  define s where "s = start - start mod 64"
  define q where "q = start div 64"
  have s: "s = 64 * q" "start = s + start mod 64"
    by (simp_all add: s_def q_def minus_mod_eq_mult_div)
  have lt: "q < length addr" using False assms by (auto simp: q_def)
  have "\<exists>r. find_next_bit_loop addr nbits s invert
         ((addr ! q XOR invert) AND push_bit (start mod 64) (- 1)) = Some r \<and>
       next_spec (inv_test addr invert) nbits start r"
  proof (rule find_next_bit_loop_correct)
    fix k :: nat assume "k < 64"
    then show "bit ((addr ! q XOR invert) AND push_bit (start mod 64) (- 1)) k \<longleftrightarrow>
        inv_test addr invert (s + k) \<and> start \<le> s + k"
      using s by (auto simp: inv_test_def bit_simps)
  qed (use s False assms in \<open>auto\<close>)
  with lt False show ?thesis by (simp add: find_next_bit_inv_def s_def q_def)
qed

lemma inv_test_0: "inv_test bm 0 = bm_test bm"
  by (simp add: inv_test_def bm_test_def fun_eq_iff)

lemma inv_test_minus1: "inv_test bm (- 1) i \<longleftrightarrow> \<not> bm_test bm i"
  by (simp add: inv_test_def bm_test_def bit_simps)

lemma find_next_bit_correct:
  assumes "nbits \<le> 64 * length bm"
  obtains r where "find_next_bit bm nbits start = Some r" "next_spec (bm_test bm) nbits start r"
  using find_next_bit_inv_correct [OF assms, of start 0] that
  by (auto simp: find_next_bit_def inv_test_0)

lemma find_next_zero_bit_correct:
  assumes "nbits \<le> 64 * length bm"
  obtains r where "find_next_zero_bit bm nbits start = Some r"
    "next_spec (\<lambda>i. \<not> bm_test bm i) nbits start r"
  using find_next_bit_inv_correct [OF assms, of start "- 1"] that
  by (auto simp: find_next_zero_bit_def inv_test_minus1 [abs_def])

section \<open>The search for a free area\<close>

lemma find_next_bit_loop_ge:
  assumes "find_next_bit_loop addr nbits s invert tmp = Some r"
    and "\<And>k. k < 64 \<Longrightarrow> bit tmp k \<Longrightarrow> start \<le> s + k" "start \<le> s + 64" "start \<le> nbits"
  shows "start \<le> r"
  using assms
proof (induction addr nbits s invert tmp rule: find_next_bit_loop.induct)
  case (1 addr nbits s invert tmp)
  show ?case
  proof (cases "tmp = 0")
    case True
    with "1.prems" show ?thesis
      by (subst (asm) find_next_bit_loop.simps)
         (auto simp: Let_def split: if_splits bind_splits intro!: "1.IH" [OF True refl])
  next
    case False
    then obtain k where "ffsl tmp = int k" "k < 64" "bit tmp k" by (rule ffsl_nonzero) blast
    with "1.prems" False show ?thesis
      by (subst (asm) find_next_bit_loop.simps) (auto split: if_splits)
  qed
qed

lemma find_next_bit_inv_ge:
  assumes "find_next_bit_inv addr nbits start invert = Some r" "start \<le> nbits"
  shows "start \<le> r"
proof (cases "nbits \<le> start")
  case True
  with assms show ?thesis by (simp add: find_next_bit_inv_def)
next
  case False
  have "start - start mod 64 + 64 \<ge> start" by (simp add: minus_mod_eq_mult_div [symmetric] le_diff_conv)
  then have "start \<le> start - start mod 64 + 64" .
  moreover have "start \<le> start - start mod 64 + k" if "start mod 64 \<le> k" for k
    using that by simp
  ultimately show ?thesis
    using assms False
    by (auto simp: find_next_bit_inv_def bit_simps split: bind_splits elim!: find_next_bit_loop_ge)
qed

lemma align_off_ge: "z \<le> ALIGN_MASK (z + off) m - off"
  using ALIGN_MASK_ge [of "z + off" m] by simp

function bitmap_find_next_zero_area_off ::
    "bitmap \<Rightarrow> nat \<Rightarrow> nat \<Rightarrow> nat \<Rightarrow> nat \<Rightarrow> nat \<Rightarrow> nat option" where
  "bitmap_find_next_zero_area_off bm sz start nr align_mask align_offset =
     find_next_zero_bit bm sz start \<bind> (\<lambda>z.
       (let index = ALIGN_MASK (z + align_offset) align_mask - align_offset; e = index + nr in
        if sz < e then Some e
        else find_next_bit bm e index \<bind> (\<lambda>i.
          if i < e then bitmap_find_next_zero_area_off bm sz (i + 1) nr align_mask align_offset
          else Some index)))"
  by pat_completeness auto

termination
proof (relation "measure (\<lambda>(bm, sz, start, nr, m, off). sz - start)", goal_cases)
  case 1
  show ?case by simp
next
  case (2 bm sz start nr m off z index e i)
  from 2(2) align_off_ge have zi: "z \<le> index" by simp
  have "index \<le> i"
    using 2(5,6) find_next_bit_inv_ge [of bm e index 0 i] by (auto simp: find_next_bit_def 2(3))
  have "start < sz"
  proof (rule ccontr)
    assume "\<not> start < sz"
    then have "z = sz" using 2(1) by (auto simp: find_next_zero_bit_def find_next_bit_inv_def)
    with zi \<open>index \<le> i\<close> 2 show False by auto
  qed
  then have "start \<le> z" using 2(1) find_next_bit_inv_ge by (simp add: find_next_zero_bit_def)
  with zi \<open>index \<le> i\<close> \<open>start < sz\<close> show ?case by simp
qed

declare bitmap_find_next_zero_area_off.simps [simp del]

definition bitmap_find_next_zero_area :: "bitmap \<Rightarrow> nat \<Rightarrow> nat \<Rightarrow> nat \<Rightarrow> nat \<Rightarrow> nat option" where
  "bitmap_find_next_zero_area bm sz start nr align_mask =
     bitmap_find_next_zero_area_off bm sz start nr align_mask 0"

text \<open>\<open>init_bitmap\<close> clears \<open>len\<close> bytes; its callers pass the size of the whole array.\<close>

definition init_bitmap :: "bitmap \<Rightarrow> nat \<Rightarrow> bitmap option" where
  "init_bitmap bm len =
     (if len = 8 * length bm then Some (replicate (length bm) 0) else None)"

text \<open>An aligned free area of \<open>nr\<close> bits inside the first \<open>sz\<close> bits.\<close>

definition free_area :: "bitmap \<Rightarrow> nat \<Rightarrow> nat \<Rightarrow> nat \<Rightarrow> nat \<Rightarrow> bool" where
  "free_area bm sz nr m a \<longleftrightarrow>
     ALIGN_MASK a m = a \<and> a + nr \<le> sz \<and> (\<forall>j. a \<le> j \<and> j < a + nr \<longrightarrow> \<not> bm_test bm j)"

lemma ALIGN_MASK_mono_pow2: "v \<le> w \<Longrightarrow> ALIGN_MASK v (2 ^ k - 1) \<le> ALIGN_MASK w (2 ^ k - 1)"
  unfolding ALIGN_MASK_pow2 by (intro mult_le_mono1 div_le_mono) simp

lemma ALIGN_MASK_idem_pow2: "ALIGN_MASK (ALIGN_MASK v (2 ^ k - 1)) (2 ^ k - 1) = ALIGN_MASK v (2 ^ k - 1)"
proof -
  have "(q * 2 ^ k + (2 ^ k - 1)) div 2 ^ k = (q::nat)" for q
    by (subst div_mult_self3) simp_all
  then show ?thesis unfolding ALIGN_MASK_pow2 by simp
qed

text \<open>First fit: \<open>r\<close> is the least aligned free area from \<open>start\<close>, or past the end (by less than
  the alignment and the size asked for) if there is none.\<close>

definition first_fit :: "bitmap \<Rightarrow> nat \<Rightarrow> nat \<Rightarrow> nat \<Rightarrow> nat \<Rightarrow> nat \<Rightarrow> bool" where
  "first_fit bm sz nr m start r \<longleftrightarrow>
    (if r + nr \<le> sz
     then free_area bm sz nr m r \<and> start \<le> r \<and>
          (\<forall>a. start \<le> a \<and> a < r \<longrightarrow> \<not> free_area bm sz nr m a)
     else sz < r \<and> r \<le> ALIGN_MASK sz m + nr \<and> (\<forall>a. start \<le> a \<longrightarrow> \<not> free_area bm sz nr m a))"

lemma first_fit_skip:
  assumes "first_fit bm sz nr m s' r" "start \<le> s'"
    and "\<And>a. start \<le> a \<Longrightarrow> free_area bm sz nr m a \<Longrightarrow> s' \<le> a"
  shows "first_fit bm sz nr m start r"
proof (cases "r + nr \<le> sz")
  case True
  with assms(1) have r: "free_area bm sz nr m r" "s' \<le> r"
    "\<And>a. s' \<le> a \<Longrightarrow> a < r \<Longrightarrow> \<not> free_area bm sz nr m a" by (auto simp: first_fit_def)
  have "\<not> free_area bm sz nr m a" if "start \<le> a" "a < r" for a
    using assms(3) [OF that(1)] r(3) [OF _ that(2)] by blast
  with True r assms(2) show ?thesis by (simp add: first_fit_def)
next
  case False
  with assms(1) have r: "sz < r" "r \<le> ALIGN_MASK sz m + nr" "\<And>a. s' \<le> a \<Longrightarrow> \<not> free_area bm sz nr m a"
    by (auto simp: first_fit_def)
  have "\<not> free_area bm sz nr m a" if "start \<le> a" for a
    using assms(3) [OF that] r(3) by blast
  with False r show ?thesis by (simp add: first_fit_def)
qed

lemma zero_area_step:
  assumes "find_next_zero_bit bm sz start = Some z"
  shows "bitmap_find_next_zero_area_off bm sz start nr m 0 =
    (if sz < ALIGN_MASK z m + nr then Some (ALIGN_MASK z m + nr)
     else find_next_bit bm (ALIGN_MASK z m + nr) (ALIGN_MASK z m) \<bind> (\<lambda>i.
       if i < ALIGN_MASK z m + nr then bitmap_find_next_zero_area_off bm sz (i + 1) nr m 0
       else Some (ALIGN_MASK z m)))"
  using assms by (subst bitmap_find_next_zero_area_off.simps) (simp add: Let_def)

lemma free_area_after:
  assumes "next_spec (\<lambda>i. \<not> bm_test bm i) sz start z" "m = 2 ^ k - 1" "0 < nr"
    and "start \<le> a" "free_area bm sz nr m a"
  shows "ALIGN_MASK z m \<le> a"
proof -
  have "\<not> bm_test bm a" "a < sz" using assms(3,5) by (auto simp: free_area_def)
  with assms(1,4) have "z \<le> a" unfolding next_spec_def by (metis leI)
  then have "ALIGN_MASK z m \<le> ALIGN_MASK a m"
    unfolding assms(2) by (rule ALIGN_MASK_mono_pow2)
  with assms(5) show ?thesis by (simp add: free_area_def)
qed

lemma zero_area_first_fit:
  assumes "sz \<le> 64 * length bm" "0 < nr" and m: "m = 2 ^ k - 1"
  shows "\<exists>r. bitmap_find_next_zero_area_off bm sz start nr m 0 = Some r \<and>
           first_fit bm sz nr m start r"
proof (induction "sz - start" arbitrary: start rule: less_induct)
  case less
  obtain z where z: "find_next_zero_bit bm sz start = Some z"
    "next_spec (\<lambda>i. \<not> bm_test bm i) sz start z" by (rule find_next_zero_bit_correct [OF assms(1)])
  define index where "index = ALIGN_MASK z m"
  have zi: "z \<le> index" and al: "ALIGN_MASK index m = index"
    by (simp add: index_def ALIGN_MASK_ge) (simp only: index_def m ALIGN_MASK_idem_pow2)
  note after = free_area_after [OF z(2) m assms(2), folded index_def]
  note step = zero_area_step [OF z(1), of nr m, folded index_def]
  show ?case
  proof (cases "sz < index + nr")
    case True
    have "\<not> free_area bm sz nr m a" if "start \<le> a" for a
      using after [OF that] True by (auto simp: free_area_def)
    moreover have "index \<le> ALIGN_MASK sz m"
      using z(2) unfolding index_def m by (intro ALIGN_MASK_mono_pow2) (simp add: next_spec_def)
    ultimately show ?thesis using True by (simp add: step first_fit_def)
  next
    case False
    then have "index + nr \<le> 64 * length bm" using assms(1) by simp
    then obtain i where i: "find_next_bit bm (index + nr) index = Some i"
      "next_spec (bm_test bm) (index + nr) index i" by (rule find_next_bit_correct)
    have "start \<le> sz" using z zi False assms(2)
      by (auto simp: find_next_zero_bit_def find_next_bit_inv_def split: if_splits)
    with z(2) zi have le: "start \<le> index" by (simp add: next_spec_def)
    show ?thesis
    proof (cases "i < index + nr")
      case True
      with i(2) have it: "bm_test bm i" "index \<le> i" by (auto simp: next_spec_def)
      have "sz - (i + 1) < sz - start" using le it(2) True False by simp
      from less [OF this] obtain r where
        r: "bitmap_find_next_zero_area_off bm sz (i + 1) nr m 0 = Some r"
           "first_fit bm sz nr m (i + 1) r" by blast
      have skip: "i + 1 \<le> a" if "start \<le> a" "free_area bm sz nr m a" for a
      proof -
        have "\<not> (a \<le> i \<and> i < a + nr)" using that(2) it(1) by (auto simp: free_area_def)
        with after [OF that] True show ?thesis by linarith
      qed
      have "first_fit bm sz nr m start r"
        by (rule first_fit_skip [OF r(2) _ skip]) (use le it in auto)
      with r(1) False True i(1) show ?thesis by (simp add: step)
    next
      case F: False
      then have "free_area bm sz nr m index"
        using i(2) False al by (auto simp: free_area_def next_spec_def)
      moreover have "\<not> free_area bm sz nr m a" if "start \<le> a" "a < index" for a
        using after [OF that(1)] that(2) by auto
      ultimately show ?thesis using False F i(1) le by (simp add: step first_fit_def)
    qed
  qed
qed

section \<open>The contract the allocators rely on\<close>

text \<open>
  What the page allocator and the kernel virtual-address allocator use of a bit array: marking
  and clearing a range inside the capacity succeed and change exactly that range.
\<close>

locale bit_store =
  fixes test :: "'m \<Rightarrow> nat \<Rightarrow> bool"
    and cap :: "'m \<Rightarrow> nat"
    and mark :: "'m \<Rightarrow> nat \<Rightarrow> nat \<Rightarrow> 'm option"
    and unmark :: "'m \<Rightarrow> nat \<Rightarrow> nat \<Rightarrow> 'm option"
  assumes mark_ok: "a + n \<le> cap m \<Longrightarrow> \<exists>m'. mark m a n = Some m' \<and> cap m' = cap m \<and>
      (\<forall>j. test m' j = (if a \<le> j \<and> j < a + n then True else test m j))"
    and unmark_ok: "a + n \<le> cap m \<Longrightarrow> \<exists>m'. unmark m a n = Some m' \<and> cap m' = cap m \<and>
      (\<forall>j. test m' j = (if a \<le> j \<and> j < a + n then False else test m j))"
begin

lemma mark_unmark:
  assumes "a + n \<le> cap m" "\<And>j. a \<le> j \<Longrightarrow> j < a + n \<Longrightarrow> \<not> test m j"
  shows "\<exists>m1 m2. mark m a n = Some m1 \<and> unmark m1 a n = Some m2 \<and> test m2 = test m"
proof -
  from mark_ok [OF assms(1)] obtain m1 where m1: "mark m a n = Some m1" "cap m1 = cap m"
    "\<forall>j. test m1 j = (if a \<le> j \<and> j < a + n then True else test m j)" by blast
  from unmark_ok [of a n m1] assms(1) m1(2) obtain m2 where m2: "unmark m1 a n = Some m2"
    "\<forall>j. test m2 j = (if a \<le> j \<and> j < a + n then False else test m1 j)" by auto
  have "test m2 = test m" using assms(2) m1(3) m2(2) by (auto simp: fun_eq_iff)
  with m1(1) m2(1) show ?thesis by blast
qed

lemma mark_other:
  assumes "a + n \<le> cap m" "mark m a n = Some m'" "j < a \<or> a + n \<le> j"
  shows "test m' j = test m j"
  using mark_ok [OF assms(1)] assms(2,3) by auto

end

definition bm_cap :: "bitmap \<Rightarrow> nat" where
  "bm_cap bm = min (64 * length bm) (2 ^ 31 - 1)"

interpretation bits: bit_store bm_test bm_cap
  "\<lambda>bm a n. set_bits bm (int a) (int n)" "\<lambda>bm a n. clear_bits bm (int a) (int n)"
proof (unfold_locales, goal_cases)
  case (1 a n m)
  then show ?case using set_bits_Some [of a n m] by (auto simp: bm_cap_def)
next
  case (2 a n m)
  then show ?case using clear_bits_Some [of a n m] by (auto simp: bm_cap_def)
qed

section \<open>Properties\<close>



text \<open>
  Marking a clear range and clearing it again restores every bit of the array, and neither
  loop leaves the array.
\<close>

theorem set_clear_bits_roundtrip:
  assumes "a + n \<le> 64 * length bm" "a + n < 2 ^ 31"
    and "\<And>j. a \<le> j \<Longrightarrow> j < a + n \<Longrightarrow> \<not> bm_test bm j"
  shows "\<exists>bm1 bm2. set_bits bm (int a) (int n) = Some bm1 \<and>
           clear_bits bm1 (int a) (int n) = Some bm2 \<and> bm_test bm2 = bm_test bm"
  by (rule bits.mark_unmark) (use assms in \<open>auto simp: bm_cap_def\<close>)

theorem set_clear_bits_roundtrip_witness:
  "\<exists>bm1 bm2. set_bits [0, 0] (int 60) (int 8) = Some bm1 \<and>
     clear_bits bm1 (int 60) (int 8) = Some bm2 \<and> bm_test bm2 = bm_test [0, 0]"
proof -
  have "\<not> bm_test [0, 0] j" if "60 \<le> j" "j < 60 + 8" for j
  proof -
    have "j div 64 = 0 \<or> j div 64 = 1" using that by auto
    then show ?thesis by (auto simp: bm_test_def)
  qed
  then show ?thesis using set_clear_bits_roundtrip [of 60 8 "[0, 0]"] by simp
qed

text \<open>
  \<open>is_bit_set\<close> reports a set bit only in the lower half of a word: its \<^verbatim>\<open>int\<close> result drops
  bits 32 to 63, so a set bit there reads as clear.
\<close>

theorem is_bit_set_lower_half:
  assumes "i < 64 * length bm" "i < 2 ^ 31"
  shows "\<exists>r. is_bit_set bm (int i) = Some r \<and> (r \<noteq> 0 \<longleftrightarrow> bm_test bm i \<and> i mod 64 < 32)"
proof -
  have "i div 64 < length bm" using assms(1) by (simp add: less_mult_imp_div_less mult.commute)
  moreover have "sint (ucast (w AND push_bit k 1 :: u64) :: u32) \<noteq> 0 \<longleftrightarrow> bit w k \<and> k < 32"
    for w and k :: nat
  proof -
    have "sint (ucast (w AND push_bit k 1 :: u64) :: u32) \<noteq> 0 \<longleftrightarrow>
        (ucast (w AND push_bit k 1 :: u64) :: u32) \<noteq> 0" by (simp add: signed_eq_0_iff)
    then show ?thesis by (auto simp: word_nonzero_bit bit_simps)
  qed
  ultimately show ?thesis using assms(2) by (simp add: is_bit_set_def bm_test_def)
qed

theorem is_bit_set_lower_half_witness:
  "bm_test [0x100000000] 32 \<and> is_bit_set [0x100000000] (int 32) = Some 0"
  using is_bit_set_lower_half [of 32 "[0x100000000]"] by (auto simp: bm_test_def)

end
