(* ===== verification/Page_Alloc.thy ===== *)
theory Page_Alloc
  imports Bitmap
begin

text \<open>
  \<^verbatim>\<open>src/core/page_alloc.c\<close> (the physical page allocator), the page-pool part of
  \<^verbatim>\<open>src/core/kmalloc.c\<close> and the kernel virtual-address allocator of
  \<^verbatim>\<open>src/core/ioremap.c\<close>. The state of each is its bitmap; the spin locks around the
  critical sections are not part of the state, every operation here is one critical section.

  The linker symbol \<^verbatim>\<open>_hyper_end\<close> is the parameter \<open>hyper_end\<close> of the address conversions.
\<close>

section \<open>The page allocator\<close>

definition TOTAL_PAGES :: nat where
  "TOTAL_PAGES = 1024 * 1024"

text \<open>Conversion of an unsigned value to \<^verbatim>\<open>int\<close>, modulo \<open>2^32\<close>.\<close>

definition int32 :: "int \<Rightarrow> int" where
  "int32 n = signed_take_bit 31 n"

definition alloc_pages_cnt :: "bitmap \<Rightarrow> int \<Rightarrow> (int \<times> bitmap) option" where
  "alloc_pages_cnt bm cnt = do {
     s \<leftarrow> bitmap_find_next_zero_area bm TOTAL_PAGES 0 (nat (cnt mod 2 ^ 32)) 1;
     (let start = int32 (int s) in
      if int TOTAL_PAGES \<le> start then Some (int TOTAL_PAGES, bm)
      else do { bm' \<leftarrow> set_bits bm start cnt; Some (start, bm') }) }"

definition free_pages_cnt :: "bitmap \<Rightarrow> int \<Rightarrow> int \<Rightarrow> bitmap option" where
  "free_pages_cnt bm pfn cnt = clear_bits bm pfn cnt"

text \<open>\<open>1ul << order\<close>, converted to \<^verbatim>\<open>int\<close>; a shift by 64 or more, or by a negative amount, is undefined.\<close>

definition shift_count :: "int \<Rightarrow> int option" where
  "shift_count order = (if 0 \<le> order \<and> order < 64 then Some (int32 (2 ^ nat order)) else None)"

definition alloc_pages :: "bitmap \<Rightarrow> int \<Rightarrow> (int \<times> bitmap) option" where
  "alloc_pages bm order = shift_count order \<bind> alloc_pages_cnt bm"

definition alloc_one_page :: "bitmap \<Rightarrow> (int \<times> bitmap) option" where
  "alloc_one_page bm = alloc_pages_cnt bm 1"

definition free_one_page :: "bitmap \<Rightarrow> int \<Rightarrow> bitmap option" where
  "free_one_page bm pfn = free_pages_cnt bm pfn 1"

definition free_pages :: "bitmap \<Rightarrow> int \<Rightarrow> int \<Rightarrow> bitmap option" where
  "free_pages bm pfn order = shift_count order \<bind> free_pages_cnt bm pfn"

definition init_page_allocator :: "bitmap \<Rightarrow> bitmap option" where
  "init_page_allocator bm = init_bitmap bm (8 * length bm)"

subsection \<open>Direct-map addresses\<close>

definition PAGE_PHYS_OFFSET :: "u64 \<Rightarrow> u64" where
  "PAGE_PHYS_OFFSET hyper_end =
     (hyper_end + push_bit 20 1 + push_bit 20 2 - 1) AND NOT (push_bit 20 2 - 1)"

definition PAGE_VIRT_OFFSET :: u64 where
  "PAGE_VIRT_OFFSET = push_bit 32 0xF0"

definition vir_to_phy :: "u64 \<Rightarrow> u64 \<Rightarrow> u64" where
  "vir_to_phy hyper_end v =
     (if v < PAGE_VIRT_OFFSET then v else (v - PAGE_VIRT_OFFSET) + PAGE_PHYS_OFFSET hyper_end)"

definition phy_to_vir :: "u64 \<Rightarrow> u64 \<Rightarrow> u64" where
  "phy_to_vir hyper_end v =
     (if v < PAGE_PHYS_OFFSET hyper_end then v
      else (v - PAGE_PHYS_OFFSET hyper_end) + PAGE_VIRT_OFFSET)"

text \<open>
  \<open>PAGE_VIR\<close> and \<open>PAGE_PHY\<close> shift the \<^verbatim>\<open>int\<close> page number left by 12; the compiler keeps the low
  32 bits of the product.
\<close>

definition PAGE_VIR :: "int \<Rightarrow> u64" where
  "PAGE_VIR pfn = (if pfn < 0 then 0 else PAGE_VIRT_OFFSET + word_of_int (int32 (pfn * 4096)))"

definition PAGE_PHY :: "u64 \<Rightarrow> int \<Rightarrow> u64" where
  "PAGE_PHY hyper_end pfn =
     (if pfn < 0 then 0 else PAGE_PHYS_OFFSET hyper_end + word_of_int (int32 (pfn * 4096)))"

definition VIR_TO_FN :: "u64 \<Rightarrow> int" where
  "VIR_TO_FN addr =
     (if addr < PAGE_VIRT_OFFSET then -1 else int32 (uint (drop_bit 12 (addr - PAGE_VIRT_OFFSET))))"

definition PHY_TO_FN :: "u64 \<Rightarrow> u64 \<Rightarrow> int" where
  "PHY_TO_FN hyper_end addr =
     (if addr < PAGE_PHYS_OFFSET hyper_end then -1
      else int32 (uint (drop_bit 12 (addr - PAGE_PHYS_OFFSET hyper_end))))"

subsection \<open>Page pools for the kernel heap\<close>

definition round_page :: "u64 \<Rightarrow> u64" where
  "round_page sz = (sz + 4096 - 1) AND NOT (4096 - 1)"

definition alloc_mem_pool :: "bitmap \<Rightarrow> u64 \<Rightarrow> (u64 \<times> bitmap) option" where
  "alloc_mem_pool bm sz = do {
     (fpn, bm') \<leftarrow> alloc_pages_cnt bm (int32 (uint (drop_bit 12 (round_page sz))));
     Some (if fpn < 0 then 0 else PAGE_VIR fpn, bm') }"

definition free_mem_pool :: "bitmap \<Rightarrow> u64 \<Rightarrow> u64 \<Rightarrow> bitmap option" where
  "free_mem_pool bm ptr sz =
     (let pfn = VIR_TO_FN ptr; n = int32 (uint (drop_bit 12 sz)) in
      if pfn < 0 \<or> n \<le> 0 then Some bm else free_pages bm pfn n)"

definition KMALLOC_HEAP_SIZE :: u64 where
  "KMALLOC_HEAP_SIZE = 0x1000000"

text \<open>\<open>fini_kmalloc\<close> tests the heap pointer for being null before it releases the pool.\<close>

definition fini_kmalloc :: "bitmap \<Rightarrow> u64 \<Rightarrow> bitmap option" where
  "fini_kmalloc bm g_kmalloc_heap =
     (if g_kmalloc_heap = 0 then free_mem_pool bm g_kmalloc_heap KMALLOC_HEAP_SIZE else Some bm)"

section \<open>Kernel virtual addresses\<close>

record bitmap_t =
  bt_data :: bitmap
  bt_start :: u64
  bt_ele_size :: int
  bt_bit_nr :: nat

text \<open>
  \<open>create_bitmap\<close> clears 4567 bytes of the words \<open>fresh\<close> that \<open>kmalloc\<close> returned, whatever
  their number: 570 whole words and the low seven bytes of the next one.
\<close>

definition memset_4567 :: "bitmap \<Rightarrow> bitmap option" where
  "memset_4567 ws =
     (if 571 \<le> length ws
      then Some (replicate 570 0 @ (ws ! 570 AND push_bit 56 0xff) # drop 571 ws) else None)"

definition create_bitmap :: "bitmap \<Rightarrow> u64 \<Rightarrow> int \<Rightarrow> int \<Rightarrow> bitmap_t option" where
  "create_bitmap fresh start ele_size bit_nr = do {
     d \<leftarrow> memset_4567 fresh;
     Some \<lparr>bt_data = d, bt_start = start, bt_ele_size = ele_size, bt_bit_nr = nat bit_nr\<rparr> }"

definition round_up :: "u64 \<Rightarrow> u64 \<Rightarrow> u64" where
  "round_up v q = ((v - 1) OR (q - 1)) + 1"

definition page_count :: "u64 \<Rightarrow> nat" where
  "page_count sz = unat (drop_bit 12 (round_up sz 4096))"

definition bitmap_alloc_range :: "bitmap_t \<Rightarrow> u64 \<Rightarrow> (u64 \<times> bitmap_t) option" where
  "bitmap_alloc_range bt sz = do {
     idx \<leftarrow> bitmap_find_next_zero_area (bt_data bt) (bt_bit_nr bt) 0 (page_count sz mod 2 ^ 32) 0;
     d \<leftarrow> set_bits (bt_data bt) (int32 (int idx)) (int32 (int (page_count sz)));
     Some (bt_start bt + of_nat idx * of_int (bt_ele_size bt), bt\<lparr>bt_data := d\<rparr>) }"

definition bitmap_free_range :: "bitmap_t \<Rightarrow> u64 \<Rightarrow> u64 \<Rightarrow> bitmap_t option" where
  "bitmap_free_range bt start sz =
     (let idx = int32 (uint ((start - bt_start bt) div of_int (bt_ele_size bt))) in do {
       d \<leftarrow> clear_bits (bt_data bt) idx (int32 (int (page_count sz)));
       Some (bt\<lparr>bt_data := d\<rparr>) })"

definition KMAP_VIRT_START :: u64 where
  "KMAP_VIRT_START = push_bit 32 0xE0"

definition KMAP_VIRT_END :: u64 where
  "KMAP_VIRT_END = push_bit 16 0xE01000"

definition init_kmap :: "bitmap \<Rightarrow> bitmap_t option" where
  "init_kmap fresh =
     create_bitmap fresh KMAP_VIRT_START 4096
       (int32 (uint (drop_bit 12 (KMAP_VIRT_END - KMAP_VIRT_START))))"

section \<open>The allocator as a contract\<close>

text \<open>
  What the users of an allocator of frames rely on: a successful allocation returns a range that
  was not owned and is owned afterwards, a failed one changes nothing, and freeing releases
  exactly the range.
\<close>

locale frame_allocator =
  fixes alloc :: "'s \<Rightarrow> nat \<Rightarrow> (nat option \<times> 's) option"
    and free :: "'s \<Rightarrow> nat \<Rightarrow> nat \<Rightarrow> 's option"
    and owned :: "'s \<Rightarrow> nat set"
    and ok :: "'s \<Rightarrow> bool"
    and total :: nat
  assumes alloc_ok: "ok s \<Longrightarrow> 0 < n \<Longrightarrow> n \<le> total \<Longrightarrow> \<exists>r s'. alloc s n = Some (r, s') \<and> ok s' \<and>
      (case r of None \<Rightarrow> owned s' = owned s
       | Some a \<Rightarrow> a + n \<le> total \<and> {a..<a + n} \<inter> owned s = {} \<and> owned s' = owned s \<union> {a..<a + n})"
    and free_ok: "ok s \<Longrightarrow> a + n \<le> total \<Longrightarrow>
      \<exists>s'. free s a n = Some s' \<and> ok s' \<and> owned s' = owned s - {a..<a + n}"

text \<open>A client: a list of requests, each an allocation or the release of the \<open>i\<close>-th live area.\<close>

datatype request = Get nat | Put nat

fun pool_run :: "('s \<Rightarrow> nat \<Rightarrow> (nat option \<times> 's) option) \<Rightarrow> ('s \<Rightarrow> nat \<Rightarrow> nat \<Rightarrow> 's option) \<Rightarrow>
    request list \<Rightarrow> 's \<Rightarrow> (nat \<times> nat) list \<Rightarrow> ('s \<times> (nat \<times> nat) list) option" where
  "pool_run alloc free [] s live = Some (s, live)"
| "pool_run alloc free (Get n # rs) s live =
     alloc s n \<bind> (\<lambda>(r, s'). pool_run alloc free rs s'
       (case r of None \<Rightarrow> live | Some a \<Rightarrow> (a, n) # live))"
| "pool_run alloc free (Put i # rs) s live =
     (if i < length live
      then free s (fst (live ! i)) (snd (live ! i)) \<bind> (\<lambda>s'.
             pool_run alloc free rs s' (take i live @ drop (Suc i) live))
      else pool_run alloc free rs s live)"

definition area :: "nat \<times> nat \<Rightarrow> nat set" where
  "area p = {fst p ..< fst p + snd p}"

fun disjoint_areas :: "(nat \<times> nat) list \<Rightarrow> bool" where
  "disjoint_areas [] \<longleftrightarrow> True"
| "disjoint_areas (p # ps) \<longleftrightarrow> (\<forall>q \<in> set ps. area p \<inter> area q = {}) \<and> disjoint_areas ps"

lemma disjoint_areas_remove:
  "disjoint_areas ps \<Longrightarrow> i < length ps \<Longrightarrow>
     disjoint_areas (take i ps @ drop (Suc i) ps) \<and>
     \<Union> (area ` set (take i ps @ drop (Suc i) ps)) = \<Union> (area ` set ps) - area (ps ! i)"
proof (induction ps arbitrary: i)
  case (Cons p ps)
  show ?case
  proof (cases i)
    case 0
    with Cons.prems show ?thesis by auto
  next
    case (Suc k)
    with Cons.prems have d: "\<forall>q \<in> set ps. area p \<inter> area q = {}" "disjoint_areas ps" and k: "k < length ps"
      by auto
    have sub: "set (take k ps @ drop (Suc k) ps) \<subseteq> set ps"
      by (auto dest: in_set_takeD in_set_dropD)
    have "area p \<inter> area (ps ! k) = {}" using d(1) k by simp
    with Cons.IH [OF d(2) k] Suc d(1) sub show ?thesis
      by auto
  qed
qed simp

context frame_allocator
begin

lemma pool_run_inv:
  assumes "ok s" "disjoint_areas live" "\<Union> (area ` set live) \<subseteq> owned s"
    and "\<forall>p \<in> set live. fst p + snd p \<le> total" "\<forall>r \<in> set rs. \<forall>n. r = Get n \<longrightarrow> 0 < n \<and> n \<le> total"
  shows "\<exists>s' live'. pool_run alloc free rs s live = Some (s', live') \<and> ok s' \<and>
    disjoint_areas live' \<and> owned s' - \<Union> (area ` set live') = owned s - \<Union> (area ` set live) \<and>
    \<Union> (area ` set live') \<subseteq> owned s'"
  using assms
proof (induction rs arbitrary: s live)
  case (Cons r rs)
  show ?case
  proof (cases r)
    case (Get n)
    with Cons.prems have n: "0 < n" "n \<le> total" by auto
    from alloc_ok [OF Cons.prems(1) n] obtain q s1 where
      a: "alloc s n = Some (q, s1)" "ok s1"
        "case q of None \<Rightarrow> owned s1 = owned s
         | Some a \<Rightarrow> a + n \<le> total \<and> {a..<a + n} \<inter> owned s = {} \<and> owned s1 = owned s \<union> {a..<a + n}"
      by blast
    show ?thesis
    proof (cases q)
      case None
      with Get a Cons.IH [of s1 live] Cons.prems show ?thesis by auto
    next
      case (Some x)
      with a(3) have x: "x + n \<le> total" "{x..<x + n} \<inter> owned s = {}"
        "owned s1 = owned s \<union> {x..<x + n}" by auto
      have "disjoint_areas ((x, n) # live)"
        using Cons.prems(2,3) x(2) by (fastforce simp: area_def [of "(x, n)"])
      moreover have "\<Union> (area ` set ((x, n) # live)) \<subseteq> owned s1"
        using x(3) Cons.prems(3) by (auto simp: area_def [of "(x, n)"])
      ultimately obtain s' live' where
        "pool_run alloc free rs s1 ((x, n) # live) = Some (s', live')" "ok s'" "disjoint_areas live'"
        "owned s' - \<Union> (area ` set live') = owned s1 - \<Union> (area ` set ((x, n) # live))"
        "\<Union> (area ` set live') \<subseteq> owned s'"
        using Cons.IH [of s1 "(x, n) # live"] a(2) x(1) Cons.prems by auto
      moreover have "owned s1 - \<Union> (area ` set ((x, n) # live)) = owned s - \<Union> (area ` set live)"
        using x Cons.prems(3) by (auto simp: area_def [of "(x, n)"])
      ultimately show ?thesis using Get a Some by auto
    qed
  next
    case (Put i)
    show ?thesis
    proof (cases "i < length live")
      case True
      obtain b m where bm: "live ! i = (b, m)" by (cases "live ! i")
      with True Cons.prems(4) have "b + m \<le> total" by (metis fst_conv nth_mem snd_conv)
      from free_ok [OF Cons.prems(1) this] obtain s1 where
        f: "free s b m = Some s1" "ok s1" "owned s1 = owned s - area (live ! i)"
        by (auto simp: area_def bm)
      note rem = disjoint_areas_remove [OF Cons.prems(2) True]
      have in_live: "area (live ! i) \<subseteq> \<Union> (area ` set live)"
        using nth_mem [OF True] by blast
      have "\<exists>s' live'. pool_run alloc free rs s1 (take i live @ drop (Suc i) live) = Some (s', live') \<and>
          ok s' \<and> disjoint_areas live' \<and> owned s' - \<Union> (area ` set live') =
            owned s1 - \<Union> (area ` set (take i live @ drop (Suc i) live)) \<and>
          \<Union> (area ` set live') \<subseteq> owned s'"
        by (rule Cons.IH)
           (use f rem Cons.prems in \<open>auto dest!: in_set_takeD in_set_dropD\<close>)
      moreover have "owned s1 - \<Union> (area ` set (take i live @ drop (Suc i) live)) =
          owned s - \<Union> (area ` set live)"
        using f(3) rem in_live by auto
      ultimately show ?thesis using Put True f bm by auto
    next
      case False
      with Put Cons show ?thesis by auto
    qed
  qed
qed auto

end


section \<open>The page allocator meets the contract\<close>

definition pages_ok :: "bitmap \<Rightarrow> bool" where
  "pages_ok bm \<longleftrightarrow> length bm = 16384"

definition pages_owned :: "bitmap \<Rightarrow> nat set" where
  "pages_owned bm = {j. j < TOTAL_PAGES \<and> bm_test bm j}"

lemma int32_id [simp]: "- (2 ^ 31) \<le> n \<Longrightarrow> n < 2 ^ 31 \<Longrightarrow> int32 n = n"
  by (simp add: int32_def signed_take_bit_int_eq_self)

lemma ALIGN_MASK_total: "ALIGN_MASK TOTAL_PAGES 1 = TOTAL_PAGES"
  using ALIGN_MASK_pow2 [of TOTAL_PAGES 1] by (simp add: TOTAL_PAGES_def)

text \<open>The outcome of an allocation of \<open>n\<close> pages, on the success and the failure branch.\<close>

lemma alloc_pages_cnt_cases:
  assumes "pages_ok bm" "0 < n" "n \<le> TOTAL_PAGES"
  shows "(\<exists>a bm'. alloc_pages_cnt bm (int n) = Some (int a, bm') \<and> a + n \<le> TOTAL_PAGES \<and>
            pages_ok bm' \<and> free_area bm TOTAL_PAGES n 1 a \<and>
            (\<forall>b < a. \<not> free_area bm TOTAL_PAGES n 1 b) \<and>
            (\<forall>j. bm_test bm' j \<longleftrightarrow> (a \<le> j \<and> j < a + n) \<or> bm_test bm j)) \<or>
         (alloc_pages_cnt bm (int n) = Some (int TOTAL_PAGES, bm) \<and>
            (\<forall>b. \<not> free_area bm TOTAL_PAGES n 1 b))"
proof -
  have len: "TOTAL_PAGES \<le> 64 * length bm" using assms(1) by (simp add: pages_ok_def TOTAL_PAGES_def)
  obtain r where r: "bitmap_find_next_zero_area bm TOTAL_PAGES 0 n 1 = Some r"
    "first_fit bm TOTAL_PAGES n 1 0 r"
    using zero_area_first_fit [OF len assms(2), of 1 1 0] by (auto simp: bitmap_find_next_zero_area_def)
  have m: "nat (int n mod 2 ^ 32) = n" using assms(3) by (simp add: TOTAL_PAGES_def)
  show ?thesis
  proof (cases "r + n \<le> TOTAL_PAGES")
    case True
    with r(2) have f: "free_area bm TOTAL_PAGES n 1 r" "\<forall>b < r. \<not> free_area bm TOTAL_PAGES n 1 b"
      by (auto simp: first_fit_def)
    obtain bm' where "set_bits bm (int r) (int n) = Some bm'" "length bm' = length bm"
      "\<forall>j. bm_test bm' j = (if r \<le> j \<and> j < r + n then True else bm_test bm j)"
      using set_bits_Some [of r n bm] True len by (auto simp: TOTAL_PAGES_def)
    moreover have "int32 (int r) = int r" using True by (simp add: TOTAL_PAGES_def)
    ultimately show ?thesis using r(1) True f assms(1,2) m
      by (auto simp: alloc_pages_cnt_def pages_ok_def)
  next
    case False
    with r(2) have f: "TOTAL_PAGES < r" "r \<le> TOTAL_PAGES + n" "\<forall>b. \<not> free_area bm TOTAL_PAGES n 1 b"
      using ALIGN_MASK_total by (auto simp: first_fit_def)
    moreover have "int32 (int r) = int r" using f(2) assms(3) by (simp add: TOTAL_PAGES_def)
    ultimately show ?thesis using r(1) m by (auto simp: alloc_pages_cnt_def)
  qed
qed

definition page_alloc_op :: "bitmap \<Rightarrow> nat \<Rightarrow> (nat option \<times> bitmap) option" where
  "page_alloc_op bm n = map_option (\<lambda>(r, bm').
     (if r < int TOTAL_PAGES then Some (nat r) else None, bm')) (alloc_pages_cnt bm (int n))"

definition page_free_op :: "bitmap \<Rightarrow> nat \<Rightarrow> nat \<Rightarrow> bitmap option" where
  "page_free_op bm a n = free_pages_cnt bm (int a) (int n)"

interpretation pages: frame_allocator page_alloc_op page_free_op pages_owned pages_ok TOTAL_PAGES
proof (unfold_locales, goal_cases)
  case (1 bm n)
  show ?case using alloc_pages_cnt_cases [OF 1]
  proof (elim disjE exE conjE)
    fix a bm' assume a: "alloc_pages_cnt bm (int n) = Some (int a, bm')" "a + n \<le> TOTAL_PAGES"
      "pages_ok bm'" "free_area bm TOTAL_PAGES n 1 a"
      "\<forall>j. bm_test bm' j \<longleftrightarrow> (a \<le> j \<and> j < a + n) \<or> bm_test bm j"
    then have "page_alloc_op bm n = Some (Some a, bm')" using \<open>0 < n\<close> by (simp add: page_alloc_op_def)
    with a show ?case by (auto simp: pages_owned_def free_area_def)
  next
    assume "alloc_pages_cnt bm (int n) = Some (int TOTAL_PAGES, bm)"
    then show ?case using 1 by (simp add: page_alloc_op_def)
  qed
next
  case (2 bm a n)
  then have "a + n \<le> 64 * length bm" "a + n < 2 ^ 31" by (simp_all add: pages_ok_def TOTAL_PAGES_def)
  from clear_bits_Some [OF this] 2 show ?case
    by (auto simp: page_free_op_def free_pages_cnt_def pages_ok_def pages_owned_def)
qed

section \<open>Properties\<close>

text \<open>
  The page allocator. For every request of at least one page: either it returns the lowest
  even page number at which the pages are free, and marks exactly those pages, or it returns
  \<open>TOTAL_PAGES\<close>, changes nothing, and no aligned free run of that length exists.
\<close>

theorem alloc_pages_cnt_correct:
  assumes "length bm = 16384" "0 < n" "n \<le> TOTAL_PAGES"
  shows "\<exists>a bm'. alloc_pages_cnt bm (int n) = Some (int a, bm') \<and>
    (if a < TOTAL_PAGES
     then even a \<and> a + n \<le> TOTAL_PAGES \<and> (\<forall>j. a \<le> j \<and> j < a + n \<longrightarrow> \<not> bm_test bm j) \<and>
          (\<forall>j. bm_test bm' j \<longleftrightarrow> (a \<le> j \<and> j < a + n) \<or> bm_test bm j) \<and>
          (\<forall>b < a. \<not> free_area bm TOTAL_PAGES n 1 b)
     else a = TOTAL_PAGES \<and> bm' = bm \<and> (\<forall>b. \<not> free_area bm TOTAL_PAGES n 1 b))"
proof -
  have even: "even a" if "free_area bm TOTAL_PAGES n 1 a" for a
  proof -
    have "ALIGN_MASK a 1 = a" using that by (simp add: free_area_def)
    moreover have "even (ALIGN_MASK a 1)" using ALIGN_MASK_pow2 [of a 1] by simp
    ultimately show ?thesis by simp
  qed
  have "pages_ok bm" using assms(1) by (simp add: pages_ok_def)
  from alloc_pages_cnt_cases [OF this assms(2,3)] show ?thesis
  proof (elim disjE exE conjE)
    fix a bm' assume "alloc_pages_cnt bm (int n) = Some (int a, bm')" "a + n \<le> TOTAL_PAGES"
      "free_area bm TOTAL_PAGES n 1 a" "\<forall>b < a. \<not> free_area bm TOTAL_PAGES n 1 b"
      "\<forall>j. bm_test bm' j \<longleftrightarrow> (a \<le> j \<and> j < a + n) \<or> bm_test bm j"
    with assms(2) even show ?thesis
      by (intro exI [of _ a] exI [of _ bm']) (auto simp: free_area_def)
  qed (auto intro!: exI [of _ TOTAL_PAGES])
qed

theorem alloc_pages_cnt_correct_witness:
  "\<exists>a bm'. alloc_pages_cnt (replicate 16384 0) (int 3) = Some (int a, bm') \<and>
    (if a < TOTAL_PAGES
     then even a \<and> a + 3 \<le> TOTAL_PAGES \<and> (\<forall>j. a \<le> j \<and> j < a + 3 \<longrightarrow> \<not> bm_test (replicate 16384 0) j) \<and>
          (\<forall>j. bm_test bm' j \<longleftrightarrow> (a \<le> j \<and> j < a + 3) \<or> bm_test (replicate 16384 0) j) \<and>
          (\<forall>b < a. \<not> free_area (replicate 16384 0) TOTAL_PAGES 3 1 b)
     else a = TOTAL_PAGES \<and> bm' = replicate 16384 0 \<and>
          (\<forall>b. \<not> free_area (replicate 16384 0) TOTAL_PAGES 3 1 b))"
  by (rule alloc_pages_cnt_correct) (simp_all add: TOTAL_PAGES_def)

text \<open>
  C9. No page is handed out twice: after any sequence of allocations and releases of live areas
  from the empty allocator, no operation has failed, the live areas are pairwise disjoint, and the
  pages marked in the bitmap are exactly those of the live areas.
\<close>

theorem page_pool_disjoint:
  assumes "\<forall>r \<in> set rs. \<forall>n. r = Get n \<longrightarrow> 0 < n \<and> n \<le> TOTAL_PAGES"
    and "init_page_allocator bm = Some bm0" "length bm = 16384"
  shows "\<exists>bm' live. pool_run page_alloc_op page_free_op rs bm0 [] = Some (bm', live) \<and>
           disjoint_areas live \<and> pages_owned bm' = \<Union> (area ` set live)"
proof -
  have "pages_ok bm0" "pages_owned bm0 = {}"
    using assms(2,3) by (auto simp: init_page_allocator_def init_bitmap_def pages_ok_def
        pages_owned_def bm_test_def TOTAL_PAGES_def less_mult_imp_div_less)
  with pages.pool_run_inv [of bm0 "[]" rs] assms(1) show ?thesis by fastforce
qed

theorem page_pool_disjoint_witness:
  "\<exists>bm' live. pool_run page_alloc_op page_free_op [Get 3, Get 1, Put 0, Get 2] (replicate 16384 0) [] =
       Some (bm', live) \<and> disjoint_areas live \<and> pages_owned bm' = \<Union> (area ` set live)"
  by (rule page_pool_disjoint [of _ "replicate 16384 0"])
     (auto simp: init_page_allocator_def init_bitmap_def TOTAL_PAGES_def)

lemma PAGE_VIR_low: "p < 2 ^ 19 \<Longrightarrow> PAGE_VIR (int p) = PAGE_VIRT_OFFSET + of_nat (p * 4096)"
  by (simp add: PAGE_VIR_def)

lemma PAGE_PHY_low: "p < 2 ^ 19 \<Longrightarrow> PAGE_PHY h (int p) = PAGE_PHYS_OFFSET h + of_nat (p * 4096)"
  by (simp add: PAGE_PHY_def)

lemma word_offset_back:
  fixes b :: u64
  assumes "p < 2 ^ 19" "unat b + 2 ^ 31 < 2 ^ 64"
  shows "\<not> b + of_nat (p * 4096) < b" "drop_bit 12 (b + of_nat (p * 4096) - b) = of_nat p"
    "unat (of_nat p :: u64) = p"
proof -
  have o: "unat (of_nat (p * 4096) :: u64) = p * 4096"
    using assms(1) by (intro unat_of_nat_small) simp
  then have "unat (b + of_nat (p * 4096)) = unat b + p * 4096"
    using assms by (subst unat_add_lem [THEN iffD1]) auto
  then show "\<not> b + of_nat (p * 4096) < b" by (simp add: word_less_nat_alt)
  show u: "unat (of_nat p :: u64) = p" using assms(1) by (intro unat_of_nat_small) simp
  show "drop_bit 12 (b + of_nat (p * 4096) - b) = of_nat p"
    using o u by (simp only: word_unat_eq_iff add_diff_cancel_left' unat_drop_bit_div) simp
qed

text \<open>
  Page numbers and direct-map addresses. For the first half of the pool (the page numbers
  whose byte offset fits a C \<^verbatim>\<open>int\<close>) the conversions between page numbers, virtual and physical
  addresses are mutually inverse; for the second half \<open>PAGE_VIR\<close> leaves the direct map and
  \<open>VIR_TO_FN\<close> rejects its own result.
\<close>

theorem page_address_roundtrip:
  assumes "p < 2 ^ 20" "unat (PAGE_PHYS_OFFSET h) + 2 ^ 31 < 2 ^ 64"
  shows "if p < 2 ^ 19
    then VIR_TO_FN (PAGE_VIR (int p)) = int p \<and> PHY_TO_FN h (PAGE_PHY h (int p)) = int p \<and>
         vir_to_phy h (PAGE_VIR (int p)) = PAGE_PHY h (int p) \<and>
         phy_to_vir h (PAGE_PHY h (int p)) = PAGE_VIR (int p)
    else VIR_TO_FN (PAGE_VIR (int p)) = - 1"
proof (cases "p < 2 ^ 19")
  case True
  have v: "unat PAGE_VIRT_OFFSET + 2 ^ 31 < 2 ^ 64" by (simp add: PAGE_VIRT_OFFSET_def)
  note V = word_offset_back [OF True v] and P = word_offset_back [OF True assms(2)]
  have i: "int32 (uint (of_nat p :: u64)) = int p"
    using True V(3) by (simp add: uint_nat)
  show ?thesis
    using True V P i
    by (simp add: PAGE_VIR_low PAGE_PHY_low VIR_TO_FN_def PHY_TO_FN_def vir_to_phy_def phy_to_vir_def
        del: of_nat_mult)
next
  case False
  define q where "q = 2 ^ 20 - p"
  have q: "0 < q" "q \<le> 2 ^ 19" "int p * 4096 = 2 ^ 32 - int q * 4096"
    using False assms(1) by (auto simp: q_def)
  have "int32 (int p * 4096) = - (int q * 4096)"
  proof -
    have "int32 (int p * 4096) = int32 (- (int q * 4096))"
      unfolding int32_def q(3) by (intro signed_take_bit_eq_iff_take_bit_eq [THEN iffD2]) (simp add: take_bit_eq_mod mod_diff_left_eq [symmetric])
    then show ?thesis using q(1,2) by simp
  qed
  then have "PAGE_VIR (int p) = PAGE_VIRT_OFFSET - of_nat (q * 4096)"
    by (simp add: PAGE_VIR_def)
  moreover have "PAGE_VIRT_OFFSET - of_nat (q * 4096) < PAGE_VIRT_OFFSET"
  proof -
    have "unat (of_nat (q * 4096) :: u64) = q * 4096" using q(2) by (intro unat_of_nat_small) simp
    moreover have "unat PAGE_VIRT_OFFSET = 0xF000000000" by (simp add: PAGE_VIRT_OFFSET_def)
    ultimately show ?thesis using q(1,2)
      by (simp add: word_less_nat_alt unat_sub word_le_nat_alt del: of_nat_mult)
  qed
  ultimately show ?thesis using False by (simp add: VIR_TO_FN_def)
qed

theorem page_address_roundtrip_witness:
  "VIR_TO_FN (PAGE_VIR (int 0x12345)) = 0x12345 \<and> VIR_TO_FN (PAGE_VIR (int 0x80000)) = - 1"
  using page_address_roundtrip [of "0x12345" "0x40200000"]
    page_address_roundtrip [of "0x80000" "0x40200000"]
  by (simp add: PAGE_PHYS_OFFSET_def)

text \<open>
  Exhaustion of the page pool goes unnoticed by \<open>alloc_mem_pool\<close>: it tests for a negative
  page number, but the failure value is \<open>TOTAL_PAGES\<close>, whose byte offset wraps to 0. When no run
  of the requested length is free, it returns the non-null address of page 0.
\<close>

theorem alloc_mem_pool_exhausted:
  assumes "length bm = 16384" "sz = of_nat (4096 * n)" "0 < n" "n \<le> TOTAL_PAGES"
    and "\<forall>b. \<not> free_area bm TOTAL_PAGES n 1 b"
  shows "alloc_mem_pool bm sz = Some (PAGE_VIR 0, bm) \<and> PAGE_VIR 0 \<noteq> 0"
proof -
  have u: "unat (of_nat (4096 * n) :: u64) = 4096 * n"
    using assms(4) by (intro unat_of_nat_small) (simp add: TOTAL_PAGES_def)
  have "drop_bit 12 (round_page sz) = of_nat n"
  proof -
    have "round_page sz = (sz + 4095) AND NOT (mask 12)"
      by (simp add: round_page_def mask_eq_exp_minus_1 add.commute)
    then have "drop_bit 12 (round_page sz) = drop_bit 12 (sz + 4095)"
      by (simp only: drop_bit_and_not_mask)
    moreover have "unat (sz + 4095) = 4096 * n + 4095"
      using u assms(2,4) by (subst unat_add_lem [THEN iffD1]) (auto simp: TOTAL_PAGES_def)
    ultimately show ?thesis
      using assms(4)
      by (simp add: word_unat_eq_iff unat_drop_bit_div unat_of_nat_small TOTAL_PAGES_def)
  qed
  moreover have "int32 (uint (of_nat n :: u64)) = int n"
    using assms(4) by (simp add: uint_of_nat_small TOTAL_PAGES_def)
  moreover have "alloc_pages_cnt bm (int n) = Some (int TOTAL_PAGES, bm)"
    using alloc_pages_cnt_cases [of bm n] assms by (auto simp: pages_ok_def)
  moreover have "PAGE_VIR (int TOTAL_PAGES) = PAGE_VIR 0"
    by (simp add: PAGE_VIR_def TOTAL_PAGES_def int32_def)
  ultimately show ?thesis
    by (simp add: alloc_mem_pool_def TOTAL_PAGES_def PAGE_VIR_def PAGE_VIRT_OFFSET_def)
qed

theorem alloc_mem_pool_exhausted_witness:
  "alloc_mem_pool (replicate 16384 (- 1)) 0x1000000 = Some (PAGE_VIR 0, replicate 16384 (- 1)) \<and>
   PAGE_VIR 0 \<noteq> 0"
proof (rule alloc_mem_pool_exhausted [where n = 4096])
  have "bm_test (replicate 16384 (- 1)) b" if "b < TOTAL_PAGES" for b
    using that by (simp add: bm_test_def TOTAL_PAGES_def less_mult_imp_div_less)
  then show "\<forall>b. \<not> free_area (replicate 16384 (- 1)) TOTAL_PAGES 4096 1 b"
    by (auto simp: free_area_def)
qed (simp_all add: TOTAL_PAGES_def)

section \<open>Properties of the kernel virtual-address allocator\<close>

definition kmap_ok :: "bitmap_t \<Rightarrow> bool" where
  "kmap_ok bt \<longleftrightarrow> bt_ele_size bt = 4096 \<and> bt_bit_nr bt \<le> 64 * length (bt_data bt) \<and> bt_bit_nr bt < 2 ^ 30"

lemma bitmap_alloc_range_cases:
  assumes "kmap_ok bt" "0 < page_count sz" "page_count sz \<le> bt_bit_nr bt"
  shows "\<exists>r. bitmap_find_next_zero_area (bt_data bt) (bt_bit_nr bt) 0 (page_count sz mod 2 ^ 32) 0 = Some r \<and>
    first_fit (bt_data bt) (bt_bit_nr bt) (page_count sz) 0 0 r"
proof -
  have "page_count sz mod 2 ^ 32 = page_count sz" using assms by (simp add: kmap_ok_def)
  with zero_area_first_fit [of "bt_bit_nr bt" "bt_data bt" "page_count sz" 0 0 0] assms show ?thesis
    by (simp add: kmap_ok_def bitmap_find_next_zero_area_def)
qed

lemma kmap_index_back:
  assumes "a < 2 ^ 31"
  shows "int32 (uint ((b + of_nat a * of_int 4096 - b :: u64) div of_int 4096)) = int a"
proof -
  have o: "unat (of_nat (a * 4096) :: u64) = a * 4096" using assms by (intro unat_of_nat_small) simp
  have "unat ((of_nat (a * 4096) :: u64) div 4096) = a" by (simp only: unat_div o) simp
  then show ?thesis using assms by (simp add: uint_nat)
qed

lemma kmap_exhausted:
  assumes "kmap_ok bt" "0 < page_count sz" "page_count sz \<le> bt_bit_nr bt"
    and "bitmap_find_next_zero_area (bt_data bt) (bt_bit_nr bt) 0 (page_count sz mod 2 ^ 32) 0 = Some r"
    and "bt_bit_nr bt < r" "r \<le> bt_bit_nr bt + page_count sz"
    and "bt_bit_nr bt = 64 * length (bt_data bt)"
  shows "bitmap_alloc_range bt sz = None"
proof -
  have r: "r < 2 ^ 31" "length (bt_data bt) \<le> r div 64" "page_count sz < 2 ^ 31"
    using assms by (auto simp: kmap_ok_def)
  then have "aread (bt_data bt) (r div 64) = None" by simp
  then have "bm_set_bit (bt_data bt) (int r) = None"
    using r(1) by (simp add: bm_set_bit_def del: aread_eq_None)
  with assms(2) have "set_bits (bt_data bt) (int r) (int (page_count sz)) = None"
    by (simp add: set_bits_def bits_loop.simps [of _ "bt_data bt"])
  with assms(4) r show ?thesis by (simp add: bitmap_alloc_range_def)
qed

text \<open>
  While a free run exists, \<open>bitmap_alloc_range\<close> returns the address of the lowest one, marks
  exactly its pages, and \<open>bitmap_free_range\<close> of that address and size restores the bitmap. When
  no run of that length exists the code still calls \<open>set_bits\<close> with the position past the end:
  if the array has no spare words the write leaves it, which is undefined.
\<close>

theorem kmap_alloc_free:
  assumes "kmap_ok bt" "0 < page_count sz" "page_count sz \<le> bt_bit_nr bt"
  shows "if \<exists>a. free_area (bt_data bt) (bt_bit_nr bt) (page_count sz) 0 a
    then \<exists>a bt1 bt2. bitmap_alloc_range bt sz = Some (bt_start bt + of_nat a * 4096, bt1) \<and>
      free_area (bt_data bt) (bt_bit_nr bt) (page_count sz) 0 a \<and>
      (\<forall>j. bm_test (bt_data bt1) j \<longleftrightarrow> a \<le> j \<and> j < a + page_count sz \<or> bm_test (bt_data bt) j) \<and>
      bitmap_free_range bt1 (bt_start bt + of_nat a * 4096) sz = Some bt2 \<and>
      bm_test (bt_data bt2) = bm_test (bt_data bt)
    else bt_bit_nr bt = 64 * length (bt_data bt) \<longrightarrow> bitmap_alloc_range bt sz = None"
proof -
  let ?n = "page_count sz" and ?d = "bt_data bt"
  from bitmap_alloc_range_cases [OF assms] obtain r where
    r: "bitmap_find_next_zero_area ?d (bt_bit_nr bt) 0 (?n mod 2 ^ 32) 0 = Some r"
      "first_fit ?d (bt_bit_nr bt) ?n 0 0 r" by blast
  have ok: "bt_ele_size bt = 4096" "bt_bit_nr bt \<le> 64 * length ?d" "bt_bit_nr bt < 2 ^ 30"
    using assms(1) by (auto simp: kmap_ok_def)
  have n32: "int32 (int ?n) = int ?n" using assms(3) ok(3) by simp
  show ?thesis
  proof (cases "r + ?n \<le> bt_bit_nr bt")
    case True
    with r(2) have f: "free_area ?d (bt_bit_nr bt) ?n 0 r" by (simp add: first_fit_def)
    have cap: "r + ?n \<le> 64 * length ?d" "r + ?n < 2 ^ 31" using True ok by auto
    then have r32: "int32 (int r) = int r" "r < 2 ^ 31" by auto
    obtain d1 d2 where d1: "set_bits ?d (int r) (int ?n) = Some d1" "length d1 = length ?d"
        "\<forall>j. bm_test d1 j = (if r \<le> j \<and> j < r + ?n then True else bm_test ?d j)"
      and d2: "clear_bits d1 (int r) (int ?n) = Some d2"
        "\<forall>j. bm_test d2 j = (if r \<le> j \<and> j < r + ?n then False else bm_test d1 j)"
      using set_bits_Some [OF cap] clear_bits_Some [of r ?n] cap by metis
    have "bm_test d2 = bm_test ?d" using d1(3) d2(2) f by (auto simp: fun_eq_iff free_area_def)
    moreover have "bitmap_alloc_range bt sz = Some (bt_start bt + of_nat r * 4096, bt\<lparr>bt_data := d1\<rparr>)"
      using r(1) d1(1) n32 r32 ok(1) by (simp add: bitmap_alloc_range_def)
    moreover have "bitmap_free_range (bt\<lparr>bt_data := d1\<rparr>) (bt_start bt + of_nat r * 4096) sz =
        Some (bt\<lparr>bt_data := d2\<rparr>)"
      using d2(1) n32 ok(1) kmap_index_back [OF r32(2), of "bt_start bt"]
      by (simp add: bitmap_free_range_def Let_def)
    ultimately show ?thesis using f d1(3) by (auto intro!: exI [of _ r])
  next
    case False
    with r(2) have "\<not> (\<exists>a. free_area ?d (bt_bit_nr bt) ?n 0 a)" "bt_bit_nr bt < r" "r \<le> bt_bit_nr bt + ?n"
      by (auto simp: first_fit_def)
    with kmap_exhausted [OF assms r(1)] show ?thesis by simp
  qed
qed

theorem kmap_alloc_free_witness:
  "let bt = \<lparr>bt_data = [0xff, 0], bt_start = KMAP_VIRT_START, bt_ele_size = 4096, bt_bit_nr = 128\<rparr> in
   kmap_ok bt \<and> page_count 0x2001 = 3 \<and>
   (if \<exists>a. free_area (bt_data bt) (bt_bit_nr bt) (page_count 0x2001) 0 a
    then \<exists>a bt1 bt2. bitmap_alloc_range bt 0x2001 = Some (bt_start bt + of_nat a * 4096, bt1) \<and>
      free_area (bt_data bt) (bt_bit_nr bt) (page_count 0x2001) 0 a \<and>
      (\<forall>j. bm_test (bt_data bt1) j \<longleftrightarrow> a \<le> j \<and> j < a + page_count 0x2001 \<or> bm_test (bt_data bt) j) \<and>
      bitmap_free_range bt1 (bt_start bt + of_nat a * 4096) 0x2001 = Some bt2 \<and>
      bm_test (bt_data bt2) = bm_test (bt_data bt)
    else bt_bit_nr bt = 64 * length (bt_data bt) \<longrightarrow> bitmap_alloc_range bt 0x2001 = None)"
  unfolding Let_def
  by (intro conjI kmap_alloc_free) (simp_all add: kmap_ok_def page_count_def round_up_def)

end
