(* ===== verification/Tlsf.thy ===== *)
theory Tlsf
  imports HC_Prelude
begin

text \<open>
  The two-level segregated fit allocator of \<^verbatim>\<open>src/core/tlsf.c\<close> that the kernel heap is built on: model of the
  block headers, the size classes, the free lists and the public operations, and the lemmas on size classes.

  Memory is a function from 8-aligned 64-bit addresses to 64-bit words, so that the overlap the code relies on is
  kept: the field \<open>prev_phys_block\<close> of a block is the last word of the payload of the block before it. A block is its
  address; its fields are the words at offsets 0 (\<open>prev_phys_block\<close>), 8 (\<open>size\<close> with the two flag bits), 16
  (\<open>next_free\<close>) and 24 (\<open>prev_free\<close>). The bitmaps and list heads of \<open>control_t\<close> are arrays of the state record; its
  first member, the null block, lies in memory at the address of the control structure. The value \<open>None\<close> stands for
  a failed \<^verbatim>\<open>tlsf_assert\<close>, an access outside an array of \<open>control_t\<close> or, for \<open>tlsf_create\<close>, the null handle of a misaligned region.

  The constants are those of a 64-bit target: \<open>ALIGN_SIZE\<close> 8, 32 second-level lists, \<open>FL_INDEX_SHIFT\<close> 8,
  \<open>FL_INDEX_COUNT\<close> 25, \<open>SMALL_BLOCK_SIZE\<close> 256, \<open>block_header_overhead\<close> 8, \<open>block_start_offset\<close> 16,
  \<open>block_size_min\<close> 24, \<open>block_size_max\<close> 2^32, \<open>sizeof(block_header_t)\<close> 32, \<open>sizeof(control_t)\<close> 6536.
\<close>

section \<open>Bit scans and sz classes\<close>

definition builtin_clz :: "u32 \<Rightarrow> nat" where
  "builtin_clz w = length (takeWhile (\<lambda>i. \<not> bit w i) (rev [0..<32]))"

definition tlsf_fls :: "u32 \<Rightarrow> int" where
  "tlsf_fls w = (if w \<noteq> 0 then 32 - int (builtin_clz w) else 0) - 1"

definition tlsf_ffs :: "u32 \<Rightarrow> int" where
  "tlsf_ffs w = (case List.find (bit w) [0..<32] of None \<Rightarrow> 0 | Some i \<Rightarrow> int i + 1) - 1"

definition tlsf_fls_sizet :: "u64 \<Rightarrow> int" where
  "tlsf_fls_sizet sz =
     (let high = (ucast (drop_bit 32 sz) :: u32)
      in if high \<noteq> 0 then 32 + tlsf_fls high else tlsf_fls (ucast sz))"

definition FL_INDEX_COUNT :: nat where "FL_INDEX_COUNT = 25"
definition SL_INDEX_COUNT :: nat where "SL_INDEX_COUNT = 32"
definition block_size_max :: u64 where "block_size_max = push_bit 32 1"

definition tlsf_assert :: "bool \<Rightarrow> unit option" where
  "tlsf_assert c = (if c then Some () else None)"

definition align_up :: "u64 \<Rightarrow> u64 \<Rightarrow> u64 option" where
  "align_up x align = do {
     tlsf_assert (align AND (align - 1) = 0);
     Some ((x + (align - 1)) AND NOT (align - 1)) }"

definition align_down :: "u64 \<Rightarrow> u64 \<Rightarrow> u64 option" where
  "align_down x align = do {
     tlsf_assert (align AND (align - 1) = 0);
     Some (x - (x AND (align - 1))) }"

definition align_ptr :: "u64 \<Rightarrow> u64 \<Rightarrow> u64 option" where
  "align_ptr ptr align = do {
     let aligned = (ptr + (align - 1)) AND NOT (align - 1);
     tlsf_assert (align AND (align - 1) = 0);
     Some aligned }"

definition adjust_request_size :: "u64 \<Rightarrow> u64 \<Rightarrow> u64 option" where
  "adjust_request_size sz align =
     (if sz \<noteq> 0 then do {
        aligned \<leftarrow> align_up sz align;
        Some (if aligned < block_size_max then (if aligned > 24 then aligned else 24) else 0) }
      else Some 0)"

definition mapping_insert :: "u64 \<Rightarrow> nat \<times> nat" where
  "mapping_insert sz =
     (if sz < 256 then (0, unat sz div 8)
      else let fl = nat (tlsf_fls_sizet sz)
           in (fl - 7, unat (drop_bit (fl - 5) sz XOR 32)))"

definition mapping_search :: "u64 \<Rightarrow> nat \<times> nat" where
  "mapping_search sz =
     (if sz \<ge> 256 then mapping_insert (sz + (push_bit (nat (tlsf_fls_sizet sz) - 5) 1 - 1))
      else mapping_insert sz)"

section \<open>State and block headers\<close>

record tlsf_heap =
  h_mem :: "u64 \<Rightarrow> u64"
  h_control :: u64
  fl_bitmap :: u32
  sl_bitmap :: "u32 list"
  h_blocks :: "u64 list list"

definition wr :: "u64 \<Rightarrow> u64 \<Rightarrow> tlsf_heap \<Rightarrow> tlsf_heap" where
  "wr a v h = h\<lparr>h_mem := (h_mem h)(a := v)\<rparr>"

definition block_size :: "tlsf_heap \<Rightarrow> u64 \<Rightarrow> u64" where
  "block_size h b = h_mem h (b + 8) AND NOT (1 OR 2)"

definition block_set_size :: "u64 \<Rightarrow> u64 \<Rightarrow> tlsf_heap \<Rightarrow> tlsf_heap" where
  "block_set_size b sz h = wr (b + 8) (sz OR (h_mem h (b + 8) AND (1 OR 2))) h"

definition block_is_last :: "tlsf_heap \<Rightarrow> u64 \<Rightarrow> bool" where
  "block_is_last h b \<longleftrightarrow> block_size h b = 0"

definition block_is_free :: "tlsf_heap \<Rightarrow> u64 \<Rightarrow> bool" where
  "block_is_free h b \<longleftrightarrow> h_mem h (b + 8) AND 1 \<noteq> 0"

definition block_set_free :: "u64 \<Rightarrow> tlsf_heap \<Rightarrow> tlsf_heap" where
  "block_set_free b h = wr (b + 8) (h_mem h (b + 8) OR 1) h"

definition block_set_used :: "u64 \<Rightarrow> tlsf_heap \<Rightarrow> tlsf_heap" where
  "block_set_used b h = wr (b + 8) (h_mem h (b + 8) AND NOT 1) h"

definition block_is_prev_free :: "tlsf_heap \<Rightarrow> u64 \<Rightarrow> bool" where
  "block_is_prev_free h b \<longleftrightarrow> h_mem h (b + 8) AND 2 \<noteq> 0"

definition block_set_prev_free :: "u64 \<Rightarrow> tlsf_heap \<Rightarrow> tlsf_heap" where
  "block_set_prev_free b h = wr (b + 8) (h_mem h (b + 8) OR 2) h"

definition block_set_prev_used :: "u64 \<Rightarrow> tlsf_heap \<Rightarrow> tlsf_heap" where
  "block_set_prev_used b h = wr (b + 8) (h_mem h (b + 8) AND NOT 2) h"

definition block_from_ptr :: "u64 \<Rightarrow> u64" where "block_from_ptr ptr = ptr - 16"
definition block_to_ptr :: "u64 \<Rightarrow> u64" where "block_to_ptr b = b + 16"
definition offset_to_block :: "u64 \<Rightarrow> u64 \<Rightarrow> u64" where "offset_to_block ptr sz = ptr + sz"

definition block_prev :: "tlsf_heap \<Rightarrow> u64 \<Rightarrow> u64 option" where
  "block_prev h b = do { tlsf_assert (block_is_prev_free h b); Some (h_mem h b) }"

definition block_next :: "tlsf_heap \<Rightarrow> u64 \<Rightarrow> u64 option" where
  "block_next h b = do {
     let next = offset_to_block (block_to_ptr b) (block_size h b - 8);
     tlsf_assert (\<not> block_is_last h b);
     Some next }"

definition block_link_next :: "u64 \<Rightarrow> tlsf_heap \<Rightarrow> (u64 \<times> tlsf_heap) option" where
  "block_link_next b h = do { next \<leftarrow> block_next h b; Some (next, wr next b h) }"

definition block_mark_as_free :: "u64 \<Rightarrow> tlsf_heap \<Rightarrow> tlsf_heap option" where
  "block_mark_as_free b h = do {
     (next, h1) \<leftarrow> block_link_next b h;
     Some (block_set_free b (block_set_prev_free next h1)) }"

definition block_mark_as_used :: "u64 \<Rightarrow> tlsf_heap \<Rightarrow> tlsf_heap option" where
  "block_mark_as_used b h = do {
     next \<leftarrow> block_next h b;
     Some (block_set_used b (block_set_prev_used next h)) }"

section \<open>Free lists\<close>

definition search_suitable_block :: "tlsf_heap \<Rightarrow> nat \<Rightarrow> nat \<Rightarrow> (u64 \<times> nat \<times> nat) option" where
  "search_suitable_block h fl sl = do {
     w \<leftarrow> aread (sl_bitmap h) fl;
     let sl_map = w AND push_bit sl (- 1);
     let fl_map = fl_bitmap h AND push_bit (fl + 1) (- 1);
     if sl_map = 0 \<and> fl_map = 0 then Some (0, fl, sl)
     else do {
       let fl' = (if sl_map = 0 then nat (tlsf_ffs fl_map) else fl);
       w' \<leftarrow> aread (sl_bitmap h) fl';
       let sl_map' = (if sl_map = 0 then w' else sl_map);
       tlsf_assert (sl_map' \<noteq> 0);
       let sl' = nat (tlsf_ffs sl_map');
       row \<leftarrow> aread (h_blocks h) fl';
       b \<leftarrow> aread row sl';
       Some (b, fl', sl') } }"

definition set_head :: "nat \<Rightarrow> nat \<Rightarrow> u64 \<Rightarrow> tlsf_heap \<Rightarrow> tlsf_heap option" where
  "set_head fl sl b h = do {
     row \<leftarrow> aread (h_blocks h) fl;
     row' \<leftarrow> awrite row sl b;
     bl \<leftarrow> awrite (h_blocks h) fl row';
     Some (h\<lparr>h_blocks := bl\<rparr>) }"

definition remove_free_block :: "u64 \<Rightarrow> nat \<Rightarrow> nat \<Rightarrow> tlsf_heap \<Rightarrow> tlsf_heap option" where
  "remove_free_block b fl sl h = do {
     let prev = h_mem h (b + 24);
     let next = h_mem h (b + 16);
     tlsf_assert (prev \<noteq> 0);
     tlsf_assert (next \<noteq> 0);
     let h2 = wr (prev + 16) next (wr (next + 24) prev h);
     row \<leftarrow> aread (h_blocks h2) fl;
     head \<leftarrow> aread row sl;
     if head = b then do {
       h3 \<leftarrow> set_head fl sl next h2;
       if next = h_control h3 then do {
         w \<leftarrow> aread (sl_bitmap h3) fl;
         let w' = w AND NOT (push_bit sl 1);
         slb \<leftarrow> awrite (sl_bitmap h3) fl w';
         let h4 = h3\<lparr>sl_bitmap := slb\<rparr>;
         Some (if w' = 0 then h4\<lparr>fl_bitmap := fl_bitmap h4 AND NOT (push_bit fl 1)\<rparr> else h4) }
       else Some h3 }
     else Some h2 }"

definition insert_free_block :: "u64 \<Rightarrow> nat \<Rightarrow> nat \<Rightarrow> tlsf_heap \<Rightarrow> tlsf_heap option" where
  "insert_free_block b fl sl h = do {
     row \<leftarrow> aread (h_blocks h) fl;
     current \<leftarrow> aread row sl;
     tlsf_assert (current \<noteq> 0);
     tlsf_assert (b \<noteq> 0);
     let h1 = wr (current + 24) b (wr (b + 24) (h_control h) (wr (b + 16) current h));
     aligned \<leftarrow> align_ptr (block_to_ptr b) 8;
     tlsf_assert (block_to_ptr b = aligned);
     h2 \<leftarrow> set_head fl sl b h1;
     w \<leftarrow> aread (sl_bitmap h2) fl;
     slb \<leftarrow> awrite (sl_bitmap h2) fl (w OR push_bit sl 1);
     Some (h2\<lparr>fl_bitmap := fl_bitmap h2 OR push_bit fl 1, sl_bitmap := slb\<rparr>) }"

definition block_remove :: "u64 \<Rightarrow> tlsf_heap \<Rightarrow> tlsf_heap option" where
  "block_remove b h = (let (fl, sl) = mapping_insert (block_size h b) in remove_free_block b fl sl h)"

definition block_insert :: "u64 \<Rightarrow> tlsf_heap \<Rightarrow> tlsf_heap option" where
  "block_insert b h = (let (fl, sl) = mapping_insert (block_size h b) in insert_free_block b fl sl h)"

section \<open>Splitting and merging\<close>

definition block_can_split :: "tlsf_heap \<Rightarrow> u64 \<Rightarrow> u64 \<Rightarrow> bool" where
  "block_can_split h b sz \<longleftrightarrow> block_size h b \<ge> 32 + sz"

definition block_split :: "u64 \<Rightarrow> u64 \<Rightarrow> tlsf_heap \<Rightarrow> (u64 \<times> tlsf_heap) option" where
  "block_split b sz h = do {
     let remaining = offset_to_block (block_to_ptr b) (sz - 8);
     let remain_size = block_size h b - (sz + 8);
     aligned \<leftarrow> align_ptr (block_to_ptr remaining) 8;
     tlsf_assert (block_to_ptr remaining = aligned);
     tlsf_assert (block_size h b = remain_size + sz + 8);
     let h1 = block_set_size remaining remain_size h;
     tlsf_assert (block_size h1 remaining \<ge> 24);
     h2 \<leftarrow> block_mark_as_free remaining (block_set_size b sz h1);
     Some (remaining, h2) }"

definition block_absorb :: "u64 \<Rightarrow> u64 \<Rightarrow> tlsf_heap \<Rightarrow> tlsf_heap option" where
  "block_absorb prev b h = do {
     tlsf_assert (\<not> block_is_last h prev);
     (_, h1) \<leftarrow> block_link_next prev (wr (prev + 8) (h_mem h (prev + 8) + (block_size h b + 8)) h);
     Some h1 }"

definition block_merge_prev :: "u64 \<Rightarrow> tlsf_heap \<Rightarrow> (u64 \<times> tlsf_heap) option" where
  "block_merge_prev b h =
     (if block_is_prev_free h b then do {
        prev \<leftarrow> block_prev h b;
        tlsf_assert (prev \<noteq> 0);
        tlsf_assert (block_is_free h prev);
        h1 \<leftarrow> block_remove prev h;
        h2 \<leftarrow> block_absorb prev b h1;
        Some (prev, h2) }
      else Some (b, h))"

definition block_merge_next :: "u64 \<Rightarrow> tlsf_heap \<Rightarrow> tlsf_heap option" where
  "block_merge_next b h = do {
     next \<leftarrow> block_next h b;
     tlsf_assert (next \<noteq> 0);
     if block_is_free h next then do {
       tlsf_assert (\<not> block_is_last h b);
       h1 \<leftarrow> block_remove next h;
       block_absorb b next h1 }
     else Some h }"

definition block_trim_free :: "u64 \<Rightarrow> u64 \<Rightarrow> tlsf_heap \<Rightarrow> tlsf_heap option" where
  "block_trim_free b sz h = do {
     tlsf_assert (block_is_free h b);
     if block_can_split h b sz then do {
       (remaining, h1) \<leftarrow> block_split b sz h;
       (_, h2) \<leftarrow> block_link_next b h1;
       block_insert remaining (block_set_prev_free remaining h2) }
     else Some h }"

definition block_locate_free :: "u64 \<Rightarrow> tlsf_heap \<Rightarrow> (u64 \<times> tlsf_heap) option" where
  "block_locate_free sz h = do {
     (b, fl, sl) \<leftarrow>
       (if sz \<noteq> 0 then
          let (fl, sl) = mapping_search sz
          in if fl < FL_INDEX_COUNT then search_suitable_block h fl sl else Some (0, fl, sl)
        else Some (0, 0, 0));
     if b \<noteq> 0 then do {
       tlsf_assert (block_size h b \<ge> sz);
       h1 \<leftarrow> remove_free_block b fl sl h;
       Some (b, h1) }
     else Some (b, h) }"

definition block_prepare_used :: "u64 \<Rightarrow> u64 \<Rightarrow> tlsf_heap \<Rightarrow> (u64 \<times> tlsf_heap) option" where
  "block_prepare_used b sz h =
     (if b \<noteq> 0 then do {
        tlsf_assert (sz \<noteq> 0);
        h1 \<leftarrow> block_trim_free b sz h;
        h2 \<leftarrow> block_mark_as_used b h1;
        Some (block_to_ptr b, h2) }
      else Some (0, h))"

section \<open>Public operations\<close>

definition control_construct :: "u64 \<Rightarrow> (u64 \<Rightarrow> u64) \<Rightarrow> tlsf_heap" where
  "control_construct control m =
     \<lparr>h_mem = m(control + 16 := control, control + 24 := control), h_control = control, fl_bitmap = 0,
      sl_bitmap = replicate FL_INDEX_COUNT 0, h_blocks = replicate FL_INDEX_COUNT (replicate SL_INDEX_COUNT control)\<rparr>"

definition tlsf_size :: u64 where "tlsf_size = 6536"
definition tlsf_pool_overhead :: u64 where "tlsf_pool_overhead = 2 * 8"

definition tlsf_add_pool :: "u64 \<Rightarrow> u64 \<Rightarrow> tlsf_heap \<Rightarrow> (u64 \<times> tlsf_heap) option" where
  "tlsf_add_pool mem bytes h = do {
     pool_bytes \<leftarrow> align_down (bytes - tlsf_pool_overhead) 8;
     if mem AND 7 \<noteq> 0 then Some (0, h)
     else if pool_bytes < 24 \<or> pool_bytes > block_size_max then Some (0, h)
     else do {
       let b = offset_to_block mem (- 8);
       let h1 = block_set_prev_used b (block_set_free b (block_set_size b pool_bytes h));
       h2 \<leftarrow> block_insert b h1;
       (next, h3) \<leftarrow> block_link_next b h2;
       Some (mem, block_set_prev_free next (block_set_used next (block_set_size next 0 h3))) } }"

definition tlsf_create :: "u64 \<Rightarrow> (u64 \<Rightarrow> u64) \<Rightarrow> tlsf_heap option" where
  "tlsf_create mem m = (if mem AND 7 \<noteq> 0 then None else Some (control_construct mem m))"

definition tlsf_create_with_pool :: "u64 \<Rightarrow> u64 \<Rightarrow> (u64 \<Rightarrow> u64) \<Rightarrow> tlsf_heap option" where
  "tlsf_create_with_pool mem bytes m = do {
     h \<leftarrow> tlsf_create mem m;
     (_, h1) \<leftarrow> tlsf_add_pool (mem + tlsf_size) (bytes - tlsf_size) h;
     Some h1 }"

definition tlsf_malloc :: "u64 \<Rightarrow> tlsf_heap \<Rightarrow> (u64 \<times> tlsf_heap) option" where
  "tlsf_malloc sz h = do {
     adjust \<leftarrow> adjust_request_size sz 8;
     (b, h1) \<leftarrow> block_locate_free adjust h;
     block_prepare_used b adjust h1 }"

definition tlsf_free :: "u64 \<Rightarrow> tlsf_heap \<Rightarrow> tlsf_heap option" where
  "tlsf_free ptr h =
     (if ptr \<noteq> 0 then do {
        let b = block_from_ptr ptr;
        tlsf_assert (\<not> block_is_free h b);
        h1 \<leftarrow> block_mark_as_free b h;
        (b1, h2) \<leftarrow> block_merge_prev b h1;
        h3 \<leftarrow> block_merge_next b1 h2;
        block_insert b1 h3 }
      else Some h)"

definition tlsf_block_size :: "tlsf_heap \<Rightarrow> u64 \<Rightarrow> u64" where
  "tlsf_block_size h ptr = (if ptr \<noteq> 0 then block_size h (block_from_ptr ptr) else 0)"

section \<open>Lemmas on size classes\<close>

lemma unat_bit_bounds:
  fixes w :: "'a::len word"
  assumes "bit w i" "\<And>j. i < j \<Longrightarrow> \<not> bit w j"
  shows "2 ^ i \<le> unat w" "unat w < 2 ^ Suc i"
proof -
  have "bit (unat w) i" using assms(1) by (simp add: bit_unsigned_iff bit_imp_le_length)
  then have "odd (unat w div 2 ^ i)" by (simp add: bit_iff_odd)
  then have "unat w div 2 ^ i \<noteq> 0" by (metis even_zero)
  then show "2 ^ i \<le> unat w" by (simp add: div_eq_0_iff not_less)
  have "take_bit (Suc i) w = w" using assms(2) by (intro bit_word_eqI) (use not_less in \<open>auto simp: bit_take_bit_iff less_Suc_eq_le\<close>)
  then have "unat w = take_bit (Suc i) (unat w)" by (metis unsigned_take_bit_eq)
  then show "unat w < 2 ^ Suc i" by (metis take_bit_nat_less_exp)
qed

lemma tlsf_fls_spec:
  assumes "w \<noteq> 0"
  obtains k where "tlsf_fls w = int k" "2 ^ k \<le> unat w" "unat w < 2 ^ Suc k" 
proof -
  let ?n = "builtin_clz w" and ?P = "\<lambda>i. \<not> bit w i" and ?L = "rev [0..<32::nat]"
  obtain i where i: "i < 32" "bit w i" using assms by (auto simp: word_nonzero_bit)
  then have "i \<in> set ?L" "\<not> ?P i" by auto
  have le: "?n \<le> 32" using length_takeWhile_le [of ?P ?L] by (simp add: builtin_clz_def)
  have "\<exists>x \<in> set ?L. \<not> ?P x" using \<open>i \<in> set ?L\<close> \<open>\<not> ?P i\<close> by blast
  then have "takeWhile ?P ?L \<noteq> ?L" by (auto simp: takeWhile_eq_all_conv)
  then have "?n \<noteq> 32" using takeWhile_eq_take [of ?P ?L] by (auto simp: builtin_clz_def)
  then have lt: "?n < 32" using le by simp
  have nth: "?L ! j = 31 - j" if "j < 32" for j using that by (simp add: rev_nth)
  have b: "bit w (31 - ?n)"
    using nth_length_takeWhile [of ?P ?L] lt nth [OF lt] by (simp add: builtin_clz_def)
  have z: "\<not> bit w j" if "31 - ?n < j" for j
  proof (cases "j < 32")
    case True
    then have "31 - j < ?n" using that by simp
    then have "takeWhile ?P ?L ! (31 - j) \<in> set (takeWhile ?P ?L)" unfolding builtin_clz_def by (rule nth_mem)
    moreover have "takeWhile ?P ?L ! (31 - j) = ?L ! (31 - j)" using \<open>31 - j < ?n\<close> by (simp add: takeWhile_nth builtin_clz_def)
    ultimately have "?P (?L ! (31 - j))" by (metis set_takeWhileD)
    then show ?thesis using nth [of "31 - j"] True by simp
  qed (use bit_imp_le_length [of w j] in auto)
  have "tlsf_fls w = int (31 - ?n)" using lt assms by (simp add: tlsf_fls_def)
  then show thesis using that unat_bit_bounds [OF b z] by blast
qed

lemma tlsf_fls_sizet_spec:
  assumes "w \<noteq> 0"
  obtains k where "tlsf_fls_sizet w = int k" "2 ^ k \<le> unat w" "unat w < 2 ^ Suc k"
proof -
  define hi where "hi = (ucast (drop_bit 32 w) :: u32)"
  have w64: "unat w < 2 ^ 64" using unsigned_less [of w] by simp
  have "unat (drop_bit 32 w) = unat w div 2 ^ 32" by (rule unat_drop_bit_div)
  moreover have "unat w div 2 ^ 32 < 2 ^ 32" using w64 by (simp add: less_mult_imp_div_less)
  ultimately have u: "unat hi = unat w div 2 ^ 32" by (simp add: hi_def unsigned_ucast_eq take_bit_nat_eq_self)
  show thesis
  proof (cases "hi = 0")
    case True
    then have "unat w < 2 ^ 32" using u by (simp add: div_eq_0_iff)
    then have lo: "unat (ucast w :: u32) = unat w" by (simp add: unsigned_ucast_eq take_bit_nat_eq_self)
    then have "ucast w \<noteq> (0 :: u32)" using assms by (metis unat_0 unat_eq_zero)
    then obtain k where "tlsf_fls (ucast w) = int k" "2 ^ k \<le> unat w" "unat w < 2 ^ Suc k" 
      using tlsf_fls_spec [of "ucast w"] lo by metis
    then show thesis using that True by (simp add: tlsf_fls_sizet_def hi_def [symmetric])
  next
    case False
    then obtain k where k: "tlsf_fls hi = int k" "2 ^ k \<le> unat hi" "unat hi < 2 ^ Suc k" using tlsf_fls_spec by blast
    have "2 ^ (32 + k) \<le> unat w" using k(2) unfolding u by (simp add: power_add less_eq_div_iff_mult_less_eq mult.commute)
    moreover have "unat w < 2 ^ Suc (32 + k)" using k(3) unfolding u by (simp add: power_add div_less_iff_less_mult mult.commute)
    ultimately show thesis using that [of "32 + k"] k(1) False by (simp add: tlsf_fls_sizet_def hi_def [symmetric])
  qed
qed

text \<open>The smallest size of a class.\<close>

definition class_min :: "nat \<Rightarrow> nat \<Rightarrow> nat" where
  "class_min fl sl = (if fl = 0 then 8 * sl else (32 + sl) * 2 ^ (fl + 2))"

lemma xor_top: "32 \<le> x \<Longrightarrow> x < 64 \<Longrightarrow> unat (of_nat x XOR 32 :: u64) = x - 32"
proof -
  have "\<forall>x \<in> set [32..<64]. unat (of_nat x XOR 32 :: u64) = x - 32" by (simp add: upt_conv_Cons)
  moreover assume "32 \<le> x" "x < 64"
  ultimately show ?thesis by (metis atLeastLessThan_iff set_upt)
qed

lemma mapping_insert_spec:
  fixes w :: u64
  assumes "mapping_insert w = (fl, sl)"
  shows "sl < 32" "class_min fl sl \<le> unat w" "unat w < 256 \<Longrightarrow> fl = 0 \<and> sl = unat w div 8"
    "256 \<le> unat w \<Longrightarrow> \<exists>k. 8 \<le> k \<and> 2 ^ k \<le> unat w \<and> unat w < 2 ^ Suc k \<and> fl = k - 7 \<and> sl = unat w div 2 ^ (k - 5) - 32"
proof -
  have small: "fl = 0 \<and> sl = unat w div 8" if "unat w < 256"
    using assms that by (simp add: mapping_insert_def word_less_nat_alt)
  have big: "\<exists>k. 8 \<le> k \<and> 2 ^ k \<le> unat w \<and> unat w < 2 ^ Suc k \<and> fl = k - 7 \<and> sl = unat w div 2 ^ (k - 5) - 32 \<and>
      32 \<le> unat w div 2 ^ (k - 5) \<and> unat w div 2 ^ (k - 5) < 64" if a: "256 \<le> unat w"
  proof -
    have "w \<noteq> 0" using a by auto
    then obtain k where k: "tlsf_fls_sizet w = int k" "2 ^ k \<le> unat w" "unat w < 2 ^ Suc k" by (rule tlsf_fls_sizet_spec)
    have "2 ^ 8 < (2 ^ Suc k :: nat)" using a k(3) by simp
    then have k8: "8 \<le> k" by (metis less_Suc_eq_le power_less_imp_less_exp one_less_numeral_iff semiring_norm(76))
    then have s: "k = (k - 5) + 5" by simp
    have p: "(2::nat) ^ k = 32 * 2 ^ (k - 5)" by (subst s, subst power_add) simp
    have r: "32 \<le> unat w div 2 ^ (k - 5)" "unat w div 2 ^ (k - 5) < 64"
      using k(2,3) p by (simp_all add: less_eq_div_iff_mult_less_eq div_less_iff_less_mult)
    have "drop_bit (k - 5) w = of_nat (unat w div 2 ^ (k - 5))" by (simp flip: unat_drop_bit_div)
    then have "sl = unat w div 2 ^ (k - 5) - 32" "fl = k - 7"
      using assms a k(1) xor_top [OF r] by (simp_all add: mapping_insert_def word_less_nat_alt Let_def)
    then show ?thesis using k k8 r by blast
  qed
  show "unat w < 256 \<Longrightarrow> fl = 0 \<and> sl = unat w div 8" by (rule small)
  show "256 \<le> unat w \<Longrightarrow> \<exists>k. 8 \<le> k \<and> 2 ^ k \<le> unat w \<and> unat w < 2 ^ Suc k \<and> fl = k - 7 \<and> sl = unat w div 2 ^ (k - 5) - 32"
    using big by blast
  show "sl < 32" using small big by (cases "unat w < 256") (auto simp: not_less less_mult_imp_div_less)
  show "class_min fl sl \<le> unat w"
  proof (cases "unat w < 256")
    case False
    then obtain k where k: "8 \<le> k" "fl = k - 7" "sl = unat w div 2 ^ (k - 5) - 32" "32 \<le> unat w div 2 ^ (k - 5)" using big by force
    have "fl + 2 = k - 5" "fl \<noteq> 0" "32 + sl = unat w div 2 ^ (k - 5)" using k by auto
    then show ?thesis by (simp add: class_min_def)
  qed (use small in \<open>simp add: class_min_def\<close>)
qed

lemma tlsf_ffs_spec:
  assumes "w \<noteq> 0"
  obtains i where "tlsf_ffs w = int i" "i < 32" "bit w i" "\<And>j. j < i \<Longrightarrow> \<not> bit w j"
proof -
  have "List.find (bit w) [0..<32] \<noteq> None" using assms by (auto simp: find_None_iff word_nonzero_bit)
  then obtain i where i: "List.find (bit w) [0..<32] = Some i" by auto
  then have "i < 32" "bit w i" "\<And>j. j < i \<Longrightarrow> \<not> bit w j" by (auto simp: find_upt_Some)
  moreover have "tlsf_ffs w = int i" using i by (simp add: tlsf_ffs_def)
  ultimately show thesis by (rule that [rotated])
qed

definition class_le :: "nat \<times> nat \<Rightarrow> nat \<times> nat \<Rightarrow> bool" where
  "class_le c d \<longleftrightarrow> fst c < fst d \<or> fst c = fst d \<and> snd c \<le> snd d"

lemma class_min_mono:
  assumes "sl < 32" "class_le (fl, sl) (fl', sl')"
  shows "class_min fl sl \<le> class_min fl' sl'"
proof -
  have pow: "2 ^ (fl + 3) \<le> (2 ^ (fl' + 2) :: nat)" if "fl < fl'" using that by (intro power_increasing) auto
  consider "fl = fl'" "sl \<le> sl'" | "fl = 0" "fl < fl'" | "0 < fl" "fl < fl'" using assms(2) by (auto simp: class_le_def)
  then show ?thesis
  proof cases
    case 2
    have "8 * sl \<le> 32 * (8 :: nat)" using assms(1) by simp
    also have "\<dots> \<le> (32 + sl') * 2 ^ (fl' + 2)" using pow 2 by (intro mult_le_mono) auto
    finally show ?thesis using 2 by (simp add: class_min_def)
  next
    case 3
    have "(32 + sl) * 2 ^ (fl + 2) \<le> 64 * (2 ^ (fl + 2) :: nat)" using assms(1) by (intro mult_le_mono1) simp
    also have "\<dots> = 32 * 2 ^ (fl + 3)" by (simp add: power_add)
    also have "\<dots> \<le> (32 + sl') * 2 ^ (fl' + 2)" using pow 3 by (intro mult_le_mono) auto
    finally show ?thesis using 3 by (simp add: class_min_def)
  qed (simp add: class_min_def)
qed

lemma pow2_5:
  assumes "5 \<le> k"
  shows "(2::nat) ^ k = 32 * 2 ^ (k - 5)"
proof -
  have "(2::nat) ^ k = 2 ^ (5 + (k - 5))" using assms by simp
  also have "\<dots> = 32 * 2 ^ (k - 5)" by (simp only: power_add) simp
  finally show ?thesis .
qed

lemma class_of_big:
  assumes "mapping_insert w = (fl, sl)" "2 ^ k \<le> unat w" "unat w < 2 ^ Suc k" "8 \<le> k"
  shows "fl = k - 7" "class_min fl sl = unat w div 2 ^ (k - 5) * 2 ^ (k - 5)" "2 ^ k \<le> class_min fl sl"
proof -
  have "2 ^ 8 \<le> (2 ^ k :: nat)" using assms(4) by (rule power_increasing) simp
  then have "256 \<le> unat w" using assms(2) by simp
  then obtain j where j: "8 \<le> j" "2 ^ j \<le> unat w" "unat w < 2 ^ Suc j" "fl = j - 7" "sl = unat w div 2 ^ (j - 5) - 32"
    using mapping_insert_spec(4) [OF assms(1)] by blast
  have "(2::nat) ^ j < 2 ^ Suc k" "(2::nat) ^ k < 2 ^ Suc j" using assms(2,3) j(2,3) by linarith+
  then have "j < Suc k" "k < Suc j" by (blast dest: pow2_less)+
  then have jk: "j = k" by simp
  then show "fl = k - 7" using j by simp
  have p: "(2::nat) ^ k = 32 * 2 ^ (k - 5)" using assms(4) by (intro pow2_5) simp
  then have "32 \<le> unat w div 2 ^ (k - 5)" using assms(2) by (simp add: less_eq_div_iff_mult_less_eq)
  moreover have "fl + 2 = k - 5" "fl \<noteq> 0" using j jk by auto
  ultimately show m: "class_min fl sl = unat w div 2 ^ (k - 5) * 2 ^ (k - 5)" using j jk by (simp add: class_min_def)
  show "2 ^ k \<le> class_min fl sl" unfolding m p using \<open>32 \<le> _\<close> by (intro mult_le_mono1)
qed

text \<open>Every block of the class that is searched for, or of a later class, is large enough.\<close>

lemma mapping_search_adequate:
  assumes "mapping_search r = (fl, sl)" "unat r mod 8 = 0" "unat r < 2 ^ 32"
  shows "unat r \<le> class_min fl sl" "sl < 32"
proof -
  show "sl < 32" using assms(1) by (auto simp: mapping_search_def split: if_splits dest: mapping_insert_spec(1))
  show "unat r \<le> class_min fl sl"
  proof (cases "unat r < 256")
    case True
    then have "mapping_insert r = (fl, sl)" using assms(1) by (simp add: mapping_search_def word_le_nat_alt)
    from mapping_insert_spec(3) [OF this True] show ?thesis using assms(2) by (auto simp: class_min_def)
  next
    case False
    then have "r \<noteq> 0" by auto
    then obtain k where k: "tlsf_fls_sizet r = int k" "2 ^ k \<le> unat r" "unat r < 2 ^ Suc k" by (rule tlsf_fls_sizet_spec)
    have "2 ^ 8 < (2 ^ Suc k :: nat)" using False k(3) by simp
    moreover have "2 ^ k < (2 ^ 32 :: nat)" using k(2) assms(3) by (rule le_less_trans)
    ultimately have "8 < Suc k" "k < 32" by (blast dest: pow2_less)+
    then have k8: "8 \<le> k" "k < 32" by simp_all
    define g :: nat where "g = 2 ^ (k - 5)"
    have g: "2 ^ k = 32 * g" "0 < g" using pow2_5 [of k] k8(1) by (simp_all add: g_def)
    have g27: "g \<le> 2 ^ 27" unfolding g_def using k8(2) by (intro power_increasing) auto
    have "unat (push_bit (k - 5) 1 :: u64) = g"
      using g27 by (subst unat_push_bit_small) (simp_all add: g_def del: One_nat_def)
    then have "unat (push_bit (k - 5) 1 - 1 :: u64) = g - 1" using g(2) by (subst unat_sub) (simp_all add: word_le_nat_alt)
    then have w: "unat (r + (push_bit (k - 5) 1 - 1)) = unat r + (g - 1)"
      using assms(3) g27 by (subst unat_add_lem [THEN iffD1]) simp_all
    have m: "mapping_insert (r + (push_bit (k - 5) 1 - 1)) = (fl, sl)"
      using assms(1) False k(1) by (simp add: mapping_search_def word_le_nat_alt)
    show ?thesis
    proof (cases "unat r + (g - 1) < 2 ^ Suc k")
      case True
      have "2 ^ k \<le> unat r + (g - 1)" using k(2) by (rule trans_le_add1)
      then have "class_min fl sl = (unat r + (g - 1)) div g * g"
        using class_of_big(2) [OF m _ _ k8(1), unfolded w, OF _ True] by (simp only: g_def)
      moreover have "unat r + (g - 1) = (unat r + (g - 1)) div g * g + (unat r + (g - 1)) mod g" by simp
      moreover have "(unat r + (g - 1)) mod g \<le> g - 1" using g(2) by (simp add: less_Suc_eq_le [symmetric])
      ultimately show ?thesis by linarith
    next
      case False
      moreover have "unat r + (g - 1) < 2 ^ Suc (Suc k)" using k(3) g by simp
      ultimately have "2 ^ Suc k \<le> class_min fl sl"
        using class_of_big(3) [OF m, of "Suc k"] k8 unfolding w by simp
      then show ?thesis using k(3) by simp
    qed
  qed
qed

text \<open>Larger sizes have later classes, and the class that is searched starts less than a 32nd above the request.\<close>

lemma mapping_insert_mono:
  assumes "mapping_insert v = c" "mapping_insert w = d" "unat v \<le> unat w"
  shows "class_le c d"
proof -
  obtain f s g t where c: "c = (f, s)" "d = (g, t)" by force
  note V = mapping_insert_spec [OF assms(1) [unfolded c]] and W = mapping_insert_spec [OF assms(2) [unfolded c]]
  consider "unat w < 256" | "unat v < 256" "256 \<le> unat w" | "256 \<le> unat v" "256 \<le> unat w" using assms(3) by linarith
  then show ?thesis
  proof cases
    case 1
    then show ?thesis using V(3) W(3) assms(3) by (simp add: c class_le_def div_le_mono)
  next
    case 2
    then obtain k where "8 \<le> k" "g = k - 7" using W(4) by blast
    then show ?thesis using V(3) 2 by (simp add: c class_le_def)
  next
    case 3
    obtain k where k: "8 \<le> k" "2 ^ k \<le> unat v" "f = k - 7" "s = unat v div 2 ^ (k - 5) - 32" using V(4) 3 by blast
    obtain l where l: "8 \<le> l" "unat w < 2 ^ Suc l" "g = l - 7" "t = unat w div 2 ^ (l - 5) - 32" using W(4) 3 by blast
    have "(2::nat) ^ k < 2 ^ Suc l" using k(2) assms(3) l(2) by linarith
    then have "k < Suc l" by (rule pow2_less)
    then have "k < l \<or> k = l" by auto
    moreover have "s \<le> t" if "k = l" using that k(4) l(4) assms(3) by (simp add: diff_le_mono div_le_mono)
    ultimately show ?thesis using k(1,3) l(1,3) by (auto simp: c class_le_def)
  qed
qed

lemma mapping_search_le:
  assumes "unat r < 2 ^ 32" "unat r + unat r div 32 \<le> unat w" "mapping_insert w = d"
  shows "class_le (mapping_search r) d"
proof (cases "unat r < 256")
  case True
  then have "mapping_search r = mapping_insert r" by (simp add: mapping_search_def word_le_nat_alt)
  then show ?thesis using mapping_insert_mono [OF refl assms(3), of r] assms(2) by simp
next
  case False
  then have "r \<noteq> 0" by auto
  then obtain k where k: "tlsf_fls_sizet r = int k" "2 ^ k \<le> unat r" "unat r < 2 ^ Suc k" by (rule tlsf_fls_sizet_spec)
  have "(2::nat) ^ 8 < 2 ^ Suc k" using False k(3) by simp
  then have k8: "8 \<le> k" using pow2_less [of 8 "Suc k"] by simp
  define g :: nat where "g = 2 ^ (k - 5)"
  have "32 * g \<le> unat r" using k(2) pow2_5 [of k] k8 by (simp add: g_def)
  then have g: "g \<le> unat r div 32" "0 < g" by (simp_all add: g_def less_eq_div_iff_mult_less_eq)
  have "g < 2 ^ 32" using g(1) assms(1) by linarith
  then have "unat (push_bit (k - 5) 1 :: u64) = g" by (subst unat_push_bit_small) (simp_all add: g_def del: One_nat_def)
  then have "unat (push_bit (k - 5) 1 - 1 :: u64) = g - 1" using g(2) by (subst unat_sub) (simp_all add: word_le_nat_alt)
  then have "unat (r + (push_bit (k - 5) 1 - 1)) = unat r + (g - 1)"
    using assms(1) \<open>g < 2 ^ 32\<close> by (subst unat_add_lem [THEN iffD1]) simp_all
  then have "unat (r + (push_bit (k - 5) 1 - 1)) \<le> unat w" using assms(2) g(1) by linarith
  from mapping_insert_mono [OF refl assms(3) this] show ?thesis using False k(1) by (simp add: mapping_search_def word_le_nat_alt)
qed

end
