(* ===== verification/Tlsf_Lists.thy ===== *)
theory Tlsf_Lists
  imports Tlsf
begin

text \<open>
  The free lists of the allocator: words of memory addressed by naturals, the size word with its flags, doubly linked
  lists in memory, the invariant that ties the lists, their heads and the two levels of bitmaps to a set of blocks,
  and the lemmas that searching, removing and inserting do on that set what they should.
\<close>

section \<open>Addresses and size words\<close>

definition ad :: "nat \<Rightarrow> u64" where "ad n = of_nat n"

lemma ad_plus [simp]: "ad x + numeral k = ad (x + numeral k)"
  by (simp add: ad_def)

lemma ad_add: "ad x + ad y = ad (x + y)"
  by (simp add: ad_def)

lemma unat_ad [simp]: "x < 2 ^ 64 \<Longrightarrow> unat (ad x) = x"
  by (simp add: ad_def unat_of_nat_small)

lemma ad_eq [simp]: "x < 2 ^ 64 \<Longrightarrow> y < 2 ^ 64 \<Longrightarrow> ad x = ad y \<longleftrightarrow> x = y"
  by (metis unat_ad)

lemma ad_eq_0 [simp]: "x < 2 ^ 64 \<Longrightarrow> ad x = 0 \<longleftrightarrow> x = 0"
  using ad_eq [of x 0] by (simp add: ad_def)

lemma ad_le: "x < 2 ^ 64 \<Longrightarrow> y < 2 ^ 64 \<Longrightarrow> ad x \<le> ad y \<longleftrightarrow> x \<le> y"
  by (simp add: word_le_nat_alt)

lemma ad_diff: "y \<le> x \<Longrightarrow> ad x - ad y = ad (x - y)"
  by (simp add: ad_def of_nat_diff)

lemma ad_numeral: "ad (numeral k) = numeral k"
  by (simp add: ad_def)

definition szw :: "nat \<Rightarrow> bool \<Rightarrow> bool \<Rightarrow> u64" where
  "szw s f p = ad s OR of_bool f OR (if p then 2 else 0)"

lemma ad_low_bits: "8 dvd s \<Longrightarrow> \<not> bit (ad s) 0" "8 dvd s \<Longrightarrow> \<not> bit (ad s) (Suc 0)"
proof -
  assume "8 dvd s"
  then obtain k where "s = 8 * k" by blast
  then have "ad s = push_bit 3 (of_nat k)" by (simp add: ad_def push_bit_eq_mult)
  then show "\<not> bit (ad s) 0" "\<not> bit (ad s) (Suc 0)" by (simp_all add: bit_push_bit_iff)
qed

lemma bit_2_word: "bit (2::u64) n \<longleftrightarrow> n = 1" "bit (3::u64) n \<longleftrightarrow> n = 0 \<or> n = 1"
proof -
  have "(2::u64) = push_bit 1 1" "(3::u64) = mask 2" by (simp_all add: mask_eq_exp_minus_1)
  then show "bit (2::u64) n \<longleftrightarrow> n = 1" "bit (3::u64) n \<longleftrightarrow> n = 0 \<or> n = 1"
    by (auto simp only: bit_push_bit_iff bit_mask_iff bit_1_iff) auto
qed

lemma bit_szw: "8 dvd s \<Longrightarrow> bit (szw s f p) n \<longleftrightarrow> (if n = 0 then f else if n = 1 then p else bit (ad s) n)"
  using ad_low_bits [of s] by (auto simp: szw_def bit_simps bit_2_word)

lemma szw_flags:
  assumes "8 dvd s"
  shows "szw s f p AND NOT (1 OR 2) = ad s" "szw s f p AND 1 \<noteq> 0 \<longleftrightarrow> f" "szw s f p AND 2 \<noteq> 0 \<longleftrightarrow> p"
    "szw s f p OR 1 = szw s True p" "szw s f p AND NOT 1 = szw s False p"
    "szw s f p OR 2 = szw s f True" "szw s f p AND NOT 2 = szw s f False"
    "ad s OR (w AND (1 OR 2)) = szw s (bit w 0) (bit w 1)"
proof -
  note b = bit_szw [OF assms] ad_low_bits [OF assms] bit_2_word
  show "szw s f p AND NOT (1 OR 2) = ad s" "szw s f p OR 1 = szw s True p" "szw s f p AND NOT 1 = szw s False p"
    "szw s f p OR 2 = szw s f True" "szw s f p AND NOT 2 = szw s f False" "ad s OR (w AND (1 OR 2)) = szw s (bit w 0) (bit w 1)"
    by (rule bit_word_eqI; use ad_low_bits [OF assms] in
      \<open>simp only: bit_and_iff bit_or_iff bit_not_iff bit_1_iff b One_nat_def; auto\<close>)+
  have "szw s f p AND 1 = of_bool f" "szw s f p AND 2 = (if p then 2 else 0)"
    by (rule bit_word_eqI; auto simp: b bit_simps)+
  then show "szw s f p AND 1 \<noteq> 0 \<longleftrightarrow> f" "szw s f p AND 2 \<noteq> 0 \<longleftrightarrow> p" by simp_all
qed

lemma szw_grow: "8 dvd s \<Longrightarrow> 8 dvd t \<Longrightarrow> szw s f p + ad t = szw (s + t) f p"
proof -
  assume a: "8 dvd s" "8 dvd t"
  have "szw u f p = ad u + (of_bool f + (if p then 2 else 0))" if "8 dvd u" for u
  proof -
    have z: "ad u AND (of_bool f OR (if p then 2 else 0)) = 0"
      by (rule bit_word_eqI) (use ad_low_bits [OF that] in \<open>auto simp: bit_simps bit_2_word\<close>)
    have "of_bool f OR (if p then 2 else 0) = of_bool f + (if p then 2 else 0 :: u64)" by simp
    then show ?thesis using disjunctive_add_eq_or [OF z] by (simp only: szw_def or.assoc)
  qed
  then show ?thesis using a by (simp add: ad_add [symmetric])
qed

section \<open>Doubly linked lists in memory\<close>

text \<open>The blocks \<open>xs\<close> linked from \<open>u0\<close> on, after the block \<open>p\<close>, up to the pointer \<open>e\<close>.\<close>

primrec dseg :: "(u64 \<Rightarrow> u64) \<Rightarrow> nat \<Rightarrow> u64 \<Rightarrow> nat list \<Rightarrow> u64 \<Rightarrow> bool" where
  "dseg m p u0 [] e \<longleftrightarrow> u0 = e"
| "dseg m p u0 (x # xs) e \<longleftrightarrow> u0 = ad x \<and> m (ad (x + 24)) = ad p \<and> dseg m x (m (ad (x + 16))) xs e"

abbreviation "last_of p xs \<equiv> (if xs = [] then p else last xs)"
abbreviation "first_of c xs \<equiv> (case xs of [] \<Rightarrow> c | x # _ \<Rightarrow> x)"

lemma ends_mem: "last_of c xs \<in> insert c (set xs)" "first_of c xs \<in> insert c (set xs)"
  by (auto split: list.splits)

lemma dseg_append: "dseg m p u0 (xs @ ys) e \<longleftrightarrow> (\<exists>q. dseg m p u0 xs q \<and> dseg m (last_of p xs) q ys e)"
  by (induction xs arbitrary: p u0) auto

lemma dseg_head: "dseg m p u0 xs (ad c) \<Longrightarrow> u0 = ad (first_of c xs)"
  by (cases xs) auto

lemma dseg_frame:
  "\<forall>x \<in> set xs. m' (ad (x + 16)) = m (ad (x + 16)) \<and> m' (ad (x + 24)) = m (ad (x + 24)) \<Longrightarrow> dseg m' p u0 xs e = dseg m p u0 xs e"
  by (induction xs arbitrary: p u0) auto

text \<open>Blocks at a distance of at least 32 bytes have separate links.\<close>

definition spaced :: "nat set \<Rightarrow> bool" where
  "spaced S \<longleftrightarrow> (\<forall>x \<in> S. x + 32 < 2 ^ 63) \<and> (\<forall>x \<in> S. \<forall>y \<in> S. x < y \<longrightarrow> x + 32 \<le> y)"

lemma spaced_link:
  assumes "spaced S" "x \<in> S" "y \<in> S"
  shows "ad (x + 16) = ad (y + 16) \<longleftrightarrow> x = y" "ad (x + 24) = ad (y + 24) \<longleftrightarrow> x = y" "ad (x + 16) \<noteq> ad (y + 24)" "ad x = ad y \<longleftrightarrow> x = y"
proof -
  have b: "x + 32 < 2 ^ 63" "y + 32 < 2 ^ 63" "x < y \<Longrightarrow> x + 32 \<le> y" "y < x \<Longrightarrow> y + 32 \<le> x" using assms by (auto simp: spaced_def)
  then show "ad (x + 16) = ad (y + 16) \<longleftrightarrow> x = y" "ad (x + 24) = ad (y + 24) \<longleftrightarrow> x = y" "ad x = ad y \<longleftrightarrow> x = y" by auto
  show "ad (x + 16) \<noteq> ad (y + 24)" using b by (cases x y rule: linorder_cases) auto
qed

lemma spaced_mono: "spaced S \<Longrightarrow> T \<subseteq> S \<Longrightarrow> spaced T"
  unfolding spaced_def by blast

lemma dseg_remove:
  assumes "spaced (insert c (set (xs @ x # ys)))" "distinct (xs @ x # ys)" "c \<notin> set (xs @ x # ys)" "dseg m c u0 (xs @ x # ys) (ad c)"
  defines "m' \<equiv> (m(ad (first_of c ys + 24) := ad (last_of c xs)))(ad (last_of c xs + 16) := ad (first_of c ys))"
  shows "m (ad (x + 24)) = ad (last_of c xs)" "m (ad (x + 16)) = ad (first_of c ys)"
    "dseg m' c (if xs = [] then ad (first_of c ys) else u0) (xs @ ys) (ad c)"
proof -
  let ?S = "insert c (set (xs @ x # ys))" and ?l = "last_of c xs" and ?f = "first_of c ys"
  have d: "dseg m c u0 xs (ad x)" "m (ad (x + 24)) = ad ?l" "dseg m x (m (ad (x + 16))) ys (ad c)"
    using assms(4) by (auto simp: dseg_append)
  show "m (ad (x + 24)) = ad ?l" by (rule d)
  show nx: "m (ad (x + 16)) = ad ?f" using dseg_head [OF d(3)] .
  have S: "?l \<in> ?S" "?f \<in> ?S" by (auto split: list.splits)
  have lx: "?l \<notin> set ys"
  proof (cases "xs = []")
    case False
    then have "last xs \<in> set xs" by (rule last_in_set)
    moreover have "set xs \<inter> set ys = {}" using assms(2) by simp
    ultimately have "last xs \<notin> set ys" by blast
    then show ?thesis using False by simp
  qed (use assms(3) in simp)
  note sl = spaced_link [OF assms(1)]
  have m16: "m' (ad (y + 16)) = (if y = ?l then ad ?f else m (ad (y + 16)))" if "y \<in> ?S" for y
    using sl(1) [OF that S(1)] sl(3) [OF that S(2)] by (simp add: m'_def)
  have m24: "m' (ad (y + 24)) = (if y = ?f then ad ?l else m (ad (y + 24)))" if "y \<in> ?S" for y
    using sl(2) [OF that S(2)] sl(3) [OF S(1) that] by (simp add: m'_def)
  have post: "dseg m' ?l (ad ?f) ys (ad c)"
  proof (cases ys)
    case (Cons y zs)
    have "dseg m' y (m' (ad (y + 16))) zs (ad c) = dseg m y (m (ad (y + 16))) zs (ad c)"
    proof -
      have "y \<noteq> ?l" "\<forall>z \<in> set zs. z \<noteq> ?l \<and> z \<noteq> y" using lx assms(2) unfolding Cons by auto
      then show ?thesis using m16 m24 Cons by (subst m16) (auto intro!: dseg_frame)
    qed
    then show ?thesis using d(3) Cons m24 [of y] by auto
  qed simp
  show "dseg m' c (if xs = [] then ad ?f else u0) (xs @ ys) (ad c)"
  proof (cases xs rule: rev_cases)
    case (snoc us u)
    have "dseg m c u0 us (ad u)" "m (ad (u + 24)) = ad (last_of c us)" using d(1) snoc by (auto simp: dseg_append)
    moreover have "dseg m' c u0 us (ad u) = dseg m c u0 us (ad u)"
    proof (rule dseg_frame, rule ballI)
      fix z assume z: "z \<in> set us"
      then have "z \<noteq> ?l" "z \<noteq> ?f" using assms(2,3) snoc by (auto split: list.splits)
      then show "m' (ad (z + 16)) = m (ad (z + 16)) \<and> m' (ad (z + 24)) = m (ad (z + 24))" using m16 [of z] m24 [of z] z snoc by simp
    qed
    moreover have "m' (ad (u + 24)) = m (ad (u + 24))"
    proof -
      have "u \<noteq> ?f" using assms(2,3) snoc by (auto split: list.splits)
      then show ?thesis using m24 [of u] snoc by simp
    qed
    moreover have "m' (ad (u + 16)) = ad ?f" using m16 [of u] snoc by simp
    ultimately show ?thesis using post snoc by (auto simp: dseg_append)
  qed (use post in simp)
qed

lemma dseg_insert:
  assumes "spaced (insert c (set (x # xs)))" "distinct (x # xs)" "c \<notin> set (x # xs)" "dseg m c u0 xs (ad c)"
  shows "dseg (m(ad (x + 16) := u0, ad (x + 24) := ad c, ad (first_of c xs + 24) := ad x)) c (ad x) (x # xs) (ad c)"
    (is "dseg ?m c _ _ _")
proof -
  let ?S = "insert c (set (x # xs))"
  note sl = spaced_link [OF assms(1)]
  have f: "first_of c xs \<in> ?S" "first_of c xs \<noteq> x" using assms(2,3) by (auto split: list.splits)
  have m16: "?m (ad (y + 16)) = (if y = x then u0 else m (ad (y + 16)))" if "y \<in> ?S" for y
    using sl(1) [OF that, of x] sl(3) [OF that f(1)] sl(3) [OF that, of x] by simp
  have m24: "?m (ad (y + 24)) = (if y = first_of c xs then ad x else if y = x then ad c else m (ad (y + 24)))" if "y \<in> ?S" for y
    using sl(2) [OF that f(1)] sl(2) [OF that, of x] sl(3) [OF _ that, of x] by simp
  have "dseg ?m x u0 xs (ad c)"
  proof (cases xs)
    case (Cons y zs)
    have "dseg ?m y (?m (ad (y + 16))) zs (ad c) = dseg m y (m (ad (y + 16))) zs (ad c)"
    proof -
      have "\<forall>z \<in> set zs. z \<noteq> x \<and> z \<noteq> y" "y \<noteq> x" using assms(2) Cons by auto
      then show ?thesis using m16 m24 Cons by (subst m16) (auto intro!: dseg_frame)
    qed
    then show ?thesis using assms(4) Cons m24 [of y] by auto
  qed (use assms(4) in simp)
  then show ?thesis using m16 [of x] m24 [of x] f by simp
qed

section \<open>The lists and bitmaps of a set of blocks\<close>

text \<open>\<open>D\<close> is the set of listed blocks, \<open>cl\<close> gives their classes and \<open>c\<close> is the address of the control structure.\<close>

definition flists :: "nat \<Rightarrow> tlsf_heap \<Rightarrow> nat set \<Rightarrow> (nat \<Rightarrow> nat \<times> nat) \<Rightarrow> bool" where
  "flists c h D cl \<longleftrightarrow>
     length (sl_bitmap h) = 25 \<and> length (h_blocks h) = 25 \<and> (\<forall>i < 25. length (h_blocks h ! i) = 32) \<and> h_control h = ad c \<and>
     (\<forall>i < 25. \<forall>j < 32. \<exists>xs. dseg (h_mem h) c (h_blocks h ! i ! j) xs (ad c) \<and> distinct xs \<and> set xs = {x \<in> D. cl x = (i, j)}) \<and>
     (\<forall>i < 25. \<forall>j < 32. bit (sl_bitmap h ! i) j \<longleftrightarrow> (\<exists>x \<in> D. cl x = (i, j))) \<and>
     (\<forall>i. bit (fl_bitmap h) i \<longleftrightarrow> (\<exists>x \<in> D. fst (cl x) = i)) \<and> (\<forall>x \<in> D. fst (cl x) < 25 \<and> snd (cl x) < 32)"

definition links :: "nat \<Rightarrow> nat set \<Rightarrow> u64 set" where
  "links c D = (\<lambda>y. ad (y + 16)) ` insert c D \<union> (\<lambda>y. ad (y + 24)) ` insert c D"

lemma flistsD:
  assumes "flists c h D cl"
  shows "length (sl_bitmap h) = 25" "length (h_blocks h) = 25" "i < 25 \<Longrightarrow> length (h_blocks h ! i) = 32" "h_control h = ad c"
    "i < 25 \<Longrightarrow> j < 32 \<Longrightarrow> \<exists>xs. dseg (h_mem h) c (h_blocks h ! i ! j) xs (ad c) \<and> distinct xs \<and> set xs = {x \<in> D. cl x = (i, j)}"
    "i < 25 \<Longrightarrow> j < 32 \<Longrightarrow> bit (sl_bitmap h ! i) j \<longleftrightarrow> (\<exists>x \<in> D. cl x = (i, j))" "bit (fl_bitmap h) i \<longleftrightarrow> (\<exists>x \<in> D. fst (cl x) = i)"
    "x \<in> D \<Longrightarrow> fst (cl x) < 25" "x \<in> D \<Longrightarrow> snd (cl x) < 32"
  using assms unfolding flists_def by blast+

lemma flists_frame:
  assumes "flists c h D cl" "\<And>x. x \<in> D \<Longrightarrow> h_mem h' (ad (x + 16)) = h_mem h (ad (x + 16)) \<and> h_mem h' (ad (x + 24)) = h_mem h (ad (x + 24))"
    "h_control h' = h_control h" "sl_bitmap h' = sl_bitmap h" "fl_bitmap h' = fl_bitmap h" "h_blocks h' = h_blocks h"
    "\<And>x. x \<in> D \<Longrightarrow> cl' x = cl x"
  shows "flists c h' D cl'"
proof -
  have "\<exists>xs. dseg (h_mem h') c (h_blocks h ! i ! j) xs (ad c) \<and> distinct xs \<and> set xs = {x \<in> D. cl x = (i, j)}" if ij: "i < 25" "j < 32" for i j
  proof -
    obtain xs where xs: "dseg (h_mem h) c (h_blocks h ! i ! j) xs (ad c)" "distinct xs" "set xs = {x \<in> D. cl x = (i, j)}"
      using assms(1) ij unfolding flists_def by blast
    have "dseg (h_mem h') c (h_blocks h ! i ! j) xs (ad c) = dseg (h_mem h) c (h_blocks h ! i ! j) xs (ad c)"
      by (rule dseg_frame) (use xs(3) assms(2) in auto)
    then show ?thesis using xs by blast
  qed
  then have d: "\<forall>i < 25. \<forall>j < 32. \<exists>xs. dseg (h_mem h') c (h_blocks h ! i ! j) xs (ad c) \<and> distinct xs \<and> set xs = {x \<in> D. cl x = (i, j)}"
    by blast
  have e: "{x \<in> D. cl' x = q} = {x \<in> D. cl x = q}" "(\<exists>x \<in> D. cl' x = q) = (\<exists>x \<in> D. cl x = q)"
    "(\<exists>x \<in> D. fst (cl' x) = i) = (\<exists>x \<in> D. fst (cl x) = i)"
    "(\<forall>x \<in> D. fst (cl' x) < 25 \<and> snd (cl' x) < 32) = (\<forall>x \<in> D. fst (cl x) < 25 \<and> snd (cl x) < 32)" for q i
    using assms(7) by auto
  show ?thesis unfolding flists_def assms(3-6) e by (intro conjI d) (insert assms(1) [unfolded flists_def], (elim conjE, assumption)+)
qed

lemma class_row:
  assumes "flists c h D cl" "i < 25"
  shows "sl_bitmap h ! i = 0 \<longleftrightarrow> (\<forall>x \<in> D. fst (cl x) \<noteq> i)"
proof -
  note b = flistsD(6) [OF assms] and r = flistsD(9) [OF assms(1)]
  show ?thesis
  proof
    assume "sl_bitmap h ! i = 0"
    then have "\<not> bit (sl_bitmap h ! i) j" for j by simp
    then show "\<forall>x \<in> D. fst (cl x) \<noteq> i" using b r by (metis prod.collapse)
  next
    assume "\<forall>x \<in> D. fst (cl x) \<noteq> i"
    then have "\<not> bit (sl_bitmap h ! i) j" if "j < 32" for j using b [OF that] by (metis fst_conv)
    then show "sl_bitmap h ! i = 0" by (auto simp: bit_eq_iff)
  qed
qed

lemma search_suitable_block_correct:
  assumes "flists c h D cl" "fl < 25" "sl < 32"
  shows "(\<exists>x \<in> D. class_le (fl, sl) (cl x) \<and> search_suitable_block h fl sl = Some (ad x, cl x) \<and>
            (\<forall>y \<in> D. class_le (fl, sl) (cl y) \<longrightarrow> class_le (cl x) (cl y))) \<or>
         (\<forall>x \<in> D. \<not> class_le (fl, sl) (cl x)) \<and> search_suitable_block h fl sl = Some (0, fl, sl)"
proof -
  note len = flistsD(1-3) [OF assms(1)] and u0 = flistsD(5) [OF assms(1)] and b = flistsD(6) [OF assms(1)] and f = flistsD(7) [OF assms(1)]
  have r: "x \<in> D \<Longrightarrow> fst (cl x) < 25 \<and> snd (cl x) < 32" for x using flistsD(8,9) [OF assms(1)] by blast
  define M where "M = sl_bitmap h ! fl AND push_bit sl (- 1)"
  define L where "L = fl_bitmap h AND push_bit (fl + 1) (- 1)"
  have eqs: "sl_bitmap h ! fl AND NOT (mask sl) = M" "fl_bitmap h AND NOT (mask (Suc fl)) = L" by (simp_all add: M_def L_def)
  have bM: "bit M j \<longleftrightarrow> sl \<le> j \<and> bit (sl_bitmap h ! fl) j" for j
    using bit_imp_le_length [of "sl_bitmap h ! fl" j] by (auto simp: M_def bit_simps)
  have bL: "bit L i \<longleftrightarrow> fl < i \<and> bit (fl_bitmap h) i" for i
    using bit_imp_le_length [of "fl_bitmap h" i] by (auto simp: L_def bit_simps)
  have head: "\<exists>x \<in> D. cl x = (i, j) \<and> h_blocks h ! i ! j = ad x" if ij: "bit (sl_bitmap h ! i) j" "i < 25" "j < 32" for i j
  proof -
    obtain xs where xs: "dseg (h_mem h) c (h_blocks h ! i ! j) xs (ad c)" "set xs = {x \<in> D. cl x = (i, j)}" using u0 [OF ij(2,3)] by blast
    then have "xs \<noteq> []" using b [OF ij(2,3)] ij(1) by auto
    then show ?thesis using xs by (cases xs) auto
  qed
  consider "M \<noteq> 0" | "M = 0" "L \<noteq> 0" | "M = 0" "L = 0" by blast
  then show ?thesis
  proof cases
    case 1
    obtain j where j: "tlsf_ffs M = int j" "j < 32" "bit M j" "\<And>k. k < j \<Longrightarrow> \<not> bit M k" using tlsf_ffs_spec [OF 1] by blast
    obtain x where x: "x \<in> D" "cl x = (fl, j)" "h_blocks h ! fl ! j = ad x" using head [of fl j] j bM assms(2) by blast
    have "search_suitable_block h fl sl = Some (ad x, cl x)"
      using 1 j x assms(2) len unfolding search_suitable_block_def by (simp add: eqs tlsf_assert_def Let_def)
    moreover have "class_le (cl x) (cl y)" if "y \<in> D" "class_le (fl, sl) (cl y)" for y
    proof (cases "fst (cl y) = fl")
      case True
      then have "bit M (snd (cl y))" using that b [OF assms(2), of "snd (cl y)"] bM r by (metis class_le_def fst_conv less_irrefl prod.collapse snd_conv)
      then have "j \<le> snd (cl y)" using j(4) not_le by blast
      then show ?thesis using True x by (simp add: class_le_def)
    qed (use that x in \<open>auto simp: class_le_def\<close>)
    moreover have "class_le (fl, sl) (cl x)" using bM j(3) x by (simp add: class_le_def)
    ultimately show ?thesis using x(1) by blast
  next
    case 2
    obtain i where i: "tlsf_ffs L = int i" "i < 32" "bit L i" "\<And>k. k < i \<Longrightarrow> \<not> bit L k" using tlsf_ffs_spec [OF 2(2)] by blast
    then obtain z where "z \<in> D" "fst (cl z) = i" using bL f by blast
    then have i25: "i < 25" "sl_bitmap h ! i \<noteq> 0" using r class_row [OF assms(1), of i] by auto
    obtain j where j: "tlsf_ffs (sl_bitmap h ! i) = int j" "j < 32" "bit (sl_bitmap h ! i) j" "\<And>k. k < j \<Longrightarrow> \<not> bit (sl_bitmap h ! i) k"
      using tlsf_ffs_spec [OF i25(2)] by blast
    obtain x where x: "x \<in> D" "cl x = (i, j)" "h_blocks h ! i ! j = ad x" using head [OF j(3) i25(1) j(2)] by blast
    have "search_suitable_block h fl sl = Some (ad x, cl x)"
      using 2 i i25 j x assms(2) len unfolding search_suitable_block_def
      by (simp add: eqs tlsf_assert_def Let_def)
    moreover have "class_le (cl x) (cl y)" if y: "y \<in> D" "class_le (fl, sl) (cl y)" for y
    proof -
      have "fst (cl y) \<noteq> fl"
      proof
        assume e: "fst (cl y) = fl"
        then have "bit M (snd (cl y))" using y b [OF assms(2), of "snd (cl y)"] bM r
          by (metis class_le_def fst_conv less_irrefl prod.collapse snd_conv)
        then show False using 2 by simp
      qed
      then have "bit L (fst (cl y))" using y bL f by (auto simp: class_le_def)
      then have "i \<le> fst (cl y)" using i(4) not_le by blast
      moreover have "j \<le> snd (cl y)" if "fst (cl y) = i"
        using j(4) b [OF i25(1), of "snd (cl y)"] r y(1) that by (metis not_le prod.collapse)
      ultimately show ?thesis using x by (auto simp: class_le_def)
    qed
    moreover have "class_le (fl, sl) (cl x)" using bL i(3) x by (simp add: class_le_def)
    ultimately show ?thesis using x(1) by blast
  next
    case 3
    have "\<not> class_le (fl, sl) (cl x)" if x: "x \<in> D" for x
    proof
      assume "class_le (fl, sl) (cl x)"
      then have "bit L (fst (cl x)) \<or> bit M (snd (cl x))"
        using x bL f bM b [OF assms(2), of "snd (cl x)"] r by (metis class_le_def fst_conv prod.collapse snd_conv)
      then show False using 3 by simp
    qed
    moreover have "search_suitable_block h fl sl = Some (0, fl, sl)"
      using 3 assms(2) len unfolding search_suitable_block_def by (simp add: eqs Let_def)
    ultimately show ?thesis by blast
  qed
qed

text \<open>A change of one list.\<close>

lemma flists_update:
  assumes F: "flists c h D cl" and ij: "i < 25" "j < 32"
    and D': "\<And>x. cl x \<noteq> (i, j) \<Longrightarrow> x \<in> D' \<longleftrightarrow> x \<in> D"
    and L: "dseg (h_mem h') c u zs (ad c)" "distinct zs" "set zs = {x \<in> D'. cl x = (i, j)}"
    and fr: "\<And>x. x \<in> D \<Longrightarrow> cl x \<noteq> (i, j) \<Longrightarrow>
      h_mem h' (ad (x + 16)) = h_mem h (ad (x + 16)) \<and> h_mem h' (ad (x + 24)) = h_mem h (ad (x + 24))"
    and h': "h_control h' = h_control h" "h_blocks h' = (h_blocks h)[i := (h_blocks h ! i)[j := u]]" "sl_bitmap h' = (sl_bitmap h)[i := w]"
    and w: "\<And>k. bit w k \<longleftrightarrow> k < 32 \<and> (if k = j then zs \<noteq> [] else bit (sl_bitmap h ! i) k)"
    and f: "\<And>k. bit (fl_bitmap h') k \<longleftrightarrow> (if k = i then w \<noteq> 0 else bit (fl_bitmap h) k)"
  shows "flists c h' D' cl"
proof -
  note len = flistsD(1-3) [OF F]
  have other: "{x \<in> D'. cl x = q} = {x \<in> D. cl x = q}" if "q \<noteq> (i, j)" for q using D' that by auto
  have ex: "(\<exists>x \<in> D'. cl x = q) \<longleftrightarrow> (if q = (i, j) then zs \<noteq> [] else \<exists>x \<in> D. cl x = q)" for q
  proof (cases "q = (i, j)")
    case True
    then have "(\<exists>x \<in> D'. cl x = q) \<longleftrightarrow> {x \<in> D'. cl x = (i, j)} \<noteq> {}" by blast
    then show ?thesis using True unfolding L(3) [symmetric] by simp
  qed (use D' in auto)
  have seg: "\<exists>xs. dseg (h_mem h') c (h_blocks h' ! k ! l) xs (ad c) \<and> distinct xs \<and> set xs = {x \<in> D'. cl x = (k, l)}" if kl: "k < 25" "l < 32" for k l
  proof (cases "(k, l) = (i, j)")
    case True
    then have "h_blocks h' ! k ! l = u" using ij len by (simp add: h')
    then show ?thesis using L True by auto
  next
    case False
    obtain xs where xs: "dseg (h_mem h) c (h_blocks h ! k ! l) xs (ad c)" "distinct xs" "set xs = {x \<in> D. cl x = (k, l)}"
      using flistsD(5) [OF F kl] by blast
    have "dseg (h_mem h') c (h_blocks h ! k ! l) xs (ad c) = dseg (h_mem h) c (h_blocks h ! k ! l) xs (ad c)"
      by (rule dseg_frame) (use xs(3) fr False in auto)
    moreover have "h_blocks h' ! k ! l = h_blocks h ! k ! l" using False ij len by (auto simp: h' nth_list_update)
    ultimately show ?thesis using xs other [OF False] by auto
  qed
  have sl: "bit (sl_bitmap h' ! k) l \<longleftrightarrow> (\<exists>x \<in> D'. cl x = (k, l))" if kl: "k < 25" "l < 32" for k l
    unfolding h' ex using flistsD(6) [OF F kl] w [of l] kl len by (cases "k = i"; cases "l = j"; simp)
  have rng: "fst (cl x) < 25 \<and> snd (cl x) < 32" if "x \<in> D'" for x
    using D' [of x] that flistsD(8,9) [OF F, of x] ij by (cases "cl x = (i, j)") auto
  have row: "w \<noteq> 0 \<longleftrightarrow> (\<exists>x \<in> D'. fst (cl x) = i)"
  proof -
    have "w \<noteq> 0 \<longleftrightarrow> (\<exists>l < 32. bit (sl_bitmap h' ! i) l)" using ij len by (simp add: word_nonzero_bit h')
    also have "\<dots> \<longleftrightarrow> (\<exists>x \<in> D'. fst (cl x) = i)" using sl [OF ij(1)] rng by (metis fst_conv prod.collapse)
    finally show ?thesis .
  qed
  have fl: "bit (fl_bitmap h') k \<longleftrightarrow> (\<exists>x \<in> D'. fst (cl x) = k)" for k
  proof (cases "k = i")
    case False
    have "(\<exists>x \<in> D'. fst (cl x) = k) \<longleftrightarrow> (\<exists>x \<in> D. fst (cl x) = k)" using D' False by (metis fst_conv)
    then show ?thesis using f [of k] False flistsD(7) [OF F, of k] by simp
  qed (use f row in simp)
  have l: "length (sl_bitmap h') = 25" "length (h_blocks h') = 25" "\<forall>k < 25. length (h_blocks h' ! k) = 32" "h_control h' = ad c"
    using len flistsD(4) [OF F] ij by (simp_all add: h' nth_list_update)
  show ?thesis unfolding flists_def by (intro conjI l) (use seg sl fl rng in blast)+
qed

lemma set_head_eq: "flists c h D cl \<Longrightarrow> i < 25 \<Longrightarrow> j < 32 \<Longrightarrow> h_blocks h' = h_blocks h \<Longrightarrow>
    set_head i j u h' = Some (h'\<lparr>h_blocks := (h_blocks h)[i := (h_blocks h ! i)[j := u]]\<rparr>)"
  by (simp add: set_head_def flistsD(2,3))

lemma dseg_head_eq:
  assumes "spaced (insert c (set (xs @ x # ys)))" "distinct (xs @ x # ys)" "dseg m p u (xs @ x # ys) e"
  shows "u = ad x \<longleftrightarrow> xs = []"
proof (cases xs)
  case (Cons z zs)
  then have "u = ad z" "z \<noteq> x" using assms(2,3) by auto
  then show ?thesis using spaced_link(4) [OF assms(1), of z x] Cons by auto
qed (use assms(3) in simp)

lemma remove_free_block_correct:
  assumes F: "flists c h D cl" and x: "x \<in> D" and sp: "spaced (insert c D)" "c \<notin> D" "0 < c" "0 \<notin> D"
  shows "\<exists>h'. remove_free_block (ad x) (fst (cl x)) (snd (cl x)) h = Some h' \<and> flists c h' (D - {x}) cl \<and>
    (\<forall>a. a \<notin> links c D \<longrightarrow> h_mem h' a = h_mem h a)"
proof -
  obtain i j where ij: "cl x = (i, j)" "i < 25" "j < 32" using flistsD(8,9) [OF F x] by (metis prod.collapse)
  obtain zs where zs: "dseg (h_mem h) c (h_blocks h ! i ! j) zs (ad c)" "distinct zs" "set zs = {x \<in> D. cl x = (i, j)}"
    using flistsD(5) [OF F ij(2,3)] by blast
  have "x \<in> set zs" using x ij zs by simp
  then obtain xs ys where e: "zs = xs @ x # ys" by (auto simp: in_set_conv_decomp)
  have sub: "insert c (set zs) \<subseteq> insert c D" using zs(3) by auto
  have sz: "spaced (insert c (set (xs @ x # ys)))" "c \<notin> set (xs @ x # ys)" using spaced_mono [OF sp(1) sub] sp(2) zs(3) e by auto
  define f l u where "f = first_of c ys" and "l = last_of c xs" and "u = h_blocks h ! i ! j"
  define m' where "m' = (h_mem h)(ad (f + 24) := ad l, ad (l + 16) := ad f)"
  have r: "h_mem h (ad (x + 24)) = ad l" "h_mem h (ad (x + 16)) = ad f" "dseg m' c (if xs = [] then ad f else u) (xs @ ys) (ad c)"
    unfolding m'_def f_def l_def u_def using dseg_remove [OF sz(1) _ sz(2)] zs(1,2) e by blast+
  have fs: "f \<in> insert c (set ys)" "l \<in> insert c (set xs)" unfolding f_def l_def by (rule ends_mem)+
  then have fl: "f \<in> insert c D" "l \<in> insert c D" using sub e by auto
  have bnd: "y + 32 < 2 ^ 63 \<and> 0 < y" if "y \<in> insert c D" for y using sp that unfolding spaced_def by (metis gr0I insert_iff)
  have nz: "ad l \<noteq> 0" "ad f \<noteq> 0" using bnd [OF fl(1)] bnd [OF fl(2)] by auto
  have fc: "ad f = ad c \<longleftrightarrow> ys = []"
    using spaced_link(4) [OF sp(1) fl(1), of c] sz(2) unfolding f_def by (auto split: list.splits)
  have hx: "u = ad x \<longleftrightarrow> xs = []" unfolding u_def using dseg_head_eq [OF sz(1)] zs(1,2) e by blast
  have D': "set (xs @ ys) = {y \<in> D - {x}. cl y = (i, j)}" "distinct (xs @ ys)" using zs e by auto
  have "ad (f + 24) \<in> links c D" "ad (l + 16) \<in> links c D" unfolding links_def using fl by blast+
  then have frame: "\<forall>a. a \<notin> links c D \<longrightarrow> m' a = h_mem h a" unfolding m'_def by (metis fun_upd_other)
  have fr: "m' (ad (y + 16)) = h_mem h (ad (y + 16)) \<and> m' (ad (y + 24)) = h_mem h (ad (y + 24))" if y: "y \<in> D" "cl y \<noteq> (i, j)" for y
  proof -
    have "y \<noteq> f" "y \<noteq> l" using y sp(2) zs(3) e fs by auto
    moreover have "y \<in> insert c D" using y(1) by simp
    note spaced_link(1) [OF sp(1) this fl(2)] spaced_link(2) [OF sp(1) this fl(1)] spaced_link(3) [OF sp(1) this fl(1)]
      spaced_link(3) [OF sp(1) fl(2) this, symmetric]
    ultimately show ?thesis unfolding m'_def by simp
  qed
  have oth: "cl y \<noteq> (i, j) \<Longrightarrow> y \<in> D - {x} \<longleftrightarrow> y \<in> D" for y using ij(1) by auto
  define h2 where "h2 = h\<lparr>h_mem := m'\<rparr>"
  have code: "remove_free_block (ad x) i j h =
      (if xs = [] then
         let h3 = h2\<lparr>h_blocks := (h_blocks h)[i := (h_blocks h ! i)[j := ad f]]\<rparr>;
             w' = sl_bitmap h ! i AND NOT (push_bit j 1);
             h4 = h3\<lparr>sl_bitmap := (sl_bitmap h)[i := w']\<rparr>
         in Some (if ys = [] then if w' = 0 then h4\<lparr>fl_bitmap := fl_bitmap h AND NOT (push_bit i 1)\<rparr> else h4 else h3)
       else Some h2)"
    using r(1,2) nz hx fc flistsD(1-4) [OF F] ij(2,3)
    by (simp add: remove_free_block_def tlsf_assert_def wr_def set_head_def Let_def h2_def m'_def u_def fun_upd_twist)
  have clear: "bit (sl_bitmap h ! i AND NOT (push_bit j 1)) k \<longleftrightarrow> k < 32 \<and> (k \<noteq> j \<and> bit (sl_bitmap h ! i) k)" for k
    using bit_imp_le_length [of "sl_bitmap h ! i" k] by (auto simp: bit_simps)
  have clear': "bit (fl_bitmap h AND NOT (push_bit i 1)) k \<longleftrightarrow> k \<noteq> i \<and> bit (fl_bitmap h) k" for k
    using bit_imp_le_length [of "fl_bitmap h" k] by (auto simp: bit_simps)
  have old: "bit (sl_bitmap h ! i) j" "bit (fl_bitmap h) i" using flistsD(6) [OF F ij(2,3)] flistsD(7) [OF F, of i] x ij(1) by (metis fst_conv)+
  have bl: "(h_blocks h)[i := (h_blocks h ! i)[j := u]] = h_blocks h" "(sl_bitmap h)[i := sl_bitmap h ! i] = sl_bitmap h"
    by (simp_all add: u_def)
  have nonz: "sl_bitmap h ! i \<noteq> 0" using old(1) by auto
  have low: "bit (sl_bitmap h ! i) k \<Longrightarrow> k < 32" for k using bit_imp_le_length [of "sl_bitmap h ! i" k] by simp
  note upd = flists_update [OF F ij(2,3) oth _ D'(2,1)]
  consider "xs \<noteq> []" | "xs = []" "ys \<noteq> []" | "xs = []" "ys = []" by blast
  then show ?thesis
  proof cases
    case 1
    have "flists c h2 (D - {x}) cl"
      by (rule upd [where u = u and w = "sl_bitmap h ! i"]) (use 1 r(3) fr bl old low nonz in \<open>auto simp: h2_def\<close>)
    then show ?thesis using code 1 frame by (auto simp: ij(1) h2_def)
  next
    case 2
    have "flists c (h2\<lparr>h_blocks := (h_blocks h)[i := (h_blocks h ! i)[j := ad f]]\<rparr>) (D - {x}) cl"
      by (rule upd [where u = "ad f" and w = "sl_bitmap h ! i"]) (use 2 r(3) fr bl old low nonz in \<open>auto simp: h2_def\<close>)
    then show ?thesis using code 2 frame by (auto simp: ij(1) h2_def)
  next
    case 3
    let ?w = "sl_bitmap h ! i AND NOT (push_bit j 1)" and ?h = "h2\<lparr>h_blocks := (h_blocks h)[i := (h_blocks h ! i)[j := ad f]]\<rparr>"
    let ?h4 = "?h\<lparr>sl_bitmap := (sl_bitmap h)[i := ?w]\<rparr>"
    have "flists c (if ?w = 0 then ?h4\<lparr>fl_bitmap := fl_bitmap h AND NOT (push_bit i 1)\<rparr> else ?h4) (D - {x}) cl"
      by (rule upd [where u = "ad f" and w = ?w]) (use 3 r(3) fr old clear clear' in \<open>auto simp: h2_def\<close>)
    then show ?thesis using code 3 frame by (auto simp: ij(1) h2_def Let_def)
  qed
qed

lemma ad_align: "8 dvd y \<Longrightarrow> y + 7 < 2 ^ 64 \<Longrightarrow> align_ptr (ad y) 8 = Some (ad y)"
proof -
  assume a: "8 dvd y" "y + 7 < 2 ^ 64"
  have "unat ((ad y + 7) AND NOT (mask 3)) = (y + 7) div 8 * 8" using a(2) by (simp only: ad_plus) (simp add: unat_and_not_mask)
  also have "\<dots> = y" using a(1) by auto
  finally have "(ad y + 7) AND NOT (mask 3) = ad y" using a(2) by (simp only: word_unat_eq_iff) simp
  then show ?thesis by (simp add: align_ptr_def tlsf_assert_def Let_def mask_eq_exp_minus_1)
qed

lemma insert_free_block_correct:
  assumes F: "flists c h D cl" and x: "x \<notin> D" "cl x = (i, j)" "i < 25" "j < 32" "8 dvd x"
    and sp: "spaced (insert c (insert x D))" "c \<notin> insert x D" "0 < c" "0 \<notin> insert x D"
  shows "\<exists>h'. insert_free_block (ad x) i j h = Some h' \<and> flists c h' (insert x D) cl \<and>
    (\<forall>a. a \<notin> links c (insert x D) \<longrightarrow> h_mem h' a = h_mem h a)"
proof -
  obtain zs where zs: "dseg (h_mem h) c (h_blocks h ! i ! j) zs (ad c)" "distinct zs" "set zs = {x \<in> D. cl x = (i, j)}"
    using flistsD(5) [OF F x(3,4)] by blast
  define f where "f = first_of c zs"
  have hd: "h_blocks h ! i ! j = ad f" unfolding f_def by (rule dseg_head [OF zs(1)])
  have "f \<in> insert c (set zs)" unfolding f_def by (rule ends_mem)
  then have fm: "f \<in> insert c (insert x D)" "f \<noteq> x" "\<And>y. y \<in> D \<Longrightarrow> cl y \<noteq> (i, j) \<Longrightarrow> y \<noteq> f" using zs(3) x sp(2) by auto
  have sub: "insert c (set (x # zs)) \<subseteq> insert c (insert x D)" using zs(3) by auto
  define m' where "m' = (h_mem h)(ad (x + 16) := ad f, ad (x + 24) := ad c, ad (f + 24) := ad x)"
  have seg: "dseg m' c (ad x) (x # zs) (ad c)"
    unfolding m'_def f_def hd [unfolded f_def, symmetric]
    using dseg_insert [OF spaced_mono [OF sp(1) sub] _ _ zs(1)] zs(2,3) x(1) sp(2) by auto
  have bnd: "y + 32 < 2 ^ 63 \<and> 0 < y" if "y \<in> insert c (insert x D)" for y using sp that unfolding spaced_def by (metis gr0I insert_iff)
  have xb: "x + 32 < 2 ^ 63" "ad x \<noteq> 0" "ad f \<noteq> 0" using bnd [of x] bnd [OF fm(1)] by auto
  have al: "align_ptr (ad (x + 16)) 8 = Some (ad (x + 16))" using xb(1) x(5) by (intro ad_align) auto
  have "ad (x + 16) \<in> links c (insert x D)" "ad (x + 24) \<in> links c (insert x D)" "ad (f + 24) \<in> links c (insert x D)"
    unfolding links_def using fm(1) by blast+
  then have frame: "\<forall>a. a \<notin> links c (insert x D) \<longrightarrow> m' a = h_mem h a" unfolding m'_def by (metis fun_upd_other)
  have fr: "m' (ad (y + 16)) = h_mem h (ad (y + 16)) \<and> m' (ad (y + 24)) = h_mem h (ad (y + 24))" if y: "y \<in> D" "cl y \<noteq> (i, j)" for y
  proof -
    have yx: "y \<noteq> x" "y \<in> insert c (insert x D)" "x \<in> insert c (insert x D)" using y x(1) by auto
    note spaced_link(1) [OF sp(1) yx(2,3)] spaced_link(2) [OF sp(1) yx(2,3)] spaced_link(2) [OF sp(1) yx(2) fm(1)]
      spaced_link(3) [OF sp(1) yx(2,3)] spaced_link(3) [OF sp(1) yx(2) fm(1)] spaced_link(3) [OF sp(1) yx(3,2), symmetric]
    then show ?thesis unfolding m'_def using yx(1) fm(3) [OF y] by simp
  qed
  define w where "w = sl_bitmap h ! i OR push_bit j 1"
  have wb: "bit w k \<longleftrightarrow> k < 32 \<and> (if k = j then True else bit (sl_bitmap h ! i) k)" for k
    using bit_imp_le_length [of "sl_bitmap h ! i" k] x(4) by (auto simp: w_def bit_simps)
  have fb: "bit (fl_bitmap h OR push_bit i 1) k \<longleftrightarrow> (if k = i then w \<noteq> 0 else bit (fl_bitmap h) k)" for k
  proof -
    have "w \<noteq> 0" using wb [of j] x(4) by auto
    then show ?thesis using bit_imp_le_length [of "fl_bitmap h" k] x(3) by (auto simp: bit_simps)
  qed
  let ?h = "h\<lparr>h_mem := m', h_blocks := (h_blocks h)[i := (h_blocks h ! i)[j := ad x]],
      fl_bitmap := fl_bitmap h OR push_bit i 1, sl_bitmap := (sl_bitmap h)[i := w]\<rparr>"
  have "insert_free_block (ad x) i j h = Some ?h"
    using hd xb al flistsD(1-4) [OF F] x(3,4)
    by (simp add: insert_free_block_def tlsf_assert_def wr_def set_head_def Let_def m'_def w_def block_to_ptr_def)
  moreover have "flists c ?h (insert x D) cl"
    by (rule flists_update [OF F x(3,4), where u = "ad x" and w = w and zs = "x # zs"])
      (use seg zs x fr wb fb in \<open>auto simp del: dseg.simps\<close>)
  ultimately show ?thesis using frame by auto
qed

end
