(* ===== verification/Tlsf_Phys.thy ===== *)
theory Tlsf_Phys
  imports Tlsf_Lists
begin

text \<open>
  The physical side of the allocator: blocks that tile a pool, given by a layout (block address to size and free
  flag), what a layout means for the words of memory, and the effect of marking, splitting and absorbing blocks.
\<close>

type_synonym layout = "nat \<Rightarrow> (nat \<times> bool) option"

text \<open>
  A pool has its first block at \<open>lo\<close> and its sentinel (size 0, used) at \<open>hi\<close>, above the control structure at \<open>c\<close>. The
  block at \<open>x\<close> with size \<open>s\<close> owns the bytes from \<open>x + 8\<close> (its size word) to \<open>x + s + 16\<close>; the next one is at \<open>x + s + 8\<close>.
\<close>

definition geo :: "nat \<Rightarrow> nat \<Rightarrow> nat \<Rightarrow> layout \<Rightarrow> bool" where
  "geo c lo hi A \<longleftrightarrow>
     0 < c \<and> c + 32 \<le> lo \<and> hi + 16 < 2 ^ 63 \<and> hi \<le> lo + 2 ^ 32 \<and> A lo \<noteq> None \<and> A hi = Some (0, False) \<and>
     (\<forall>x s f. A x = Some (s, f) \<longrightarrow> lo \<le> x \<and> x \<le> hi \<and> 8 dvd x \<and> 8 dvd s \<and> (x = hi \<or> 24 \<le> s \<and> A (x + s + 8) \<noteq> None)) \<and>
     (\<forall>x s f y. A x = Some (s, f) \<longrightarrow> A y \<noteq> None \<longrightarrow> x < y \<longrightarrow> x + s + 8 \<le> y)"

definition pf :: "layout \<Rightarrow> nat \<Rightarrow> bool" where
  "pf A y \<longleftrightarrow> (\<exists>x s. A x = Some (s, True) \<and> y = x + s + 8)"

definition phys :: "(u64 \<Rightarrow> u64) \<Rightarrow> layout \<Rightarrow> bool" where
  "phys m A \<longleftrightarrow> (\<forall>x s f. A x = Some (s, f) \<longrightarrow> m (ad (x + 8)) = szw s f (pf A x) \<and> (f \<longrightarrow> m (ad (x + s + 8)) = ad x))"

definition coal :: "layout \<Rightarrow> bool" where
  "coal A \<longleftrightarrow> (\<forall>x s t. A x = Some (s, True) \<longrightarrow> A (x + s + 8) \<noteq> Some (t, True))"

section \<open>Geometry\<close>

lemma geo_block:
  assumes "geo c lo hi A" "A x = Some (s, f)"
  shows "lo \<le> x" "8 dvd x" "8 dvd s" "x \<le> hi" "x \<noteq> hi \<Longrightarrow> 24 \<le> s" "x \<noteq> hi \<Longrightarrow> A (x + s + 8) \<noteq> None" "x \<noteq> hi \<Longrightarrow> x + s + 8 \<le> hi"
    "s < 2 ^ 32" "x + s + 16 < 2 ^ 63" "f \<Longrightarrow> x \<noteq> hi" "s = 0 \<longleftrightarrow> x = hi" "c + 32 \<le> x"
proof -
  have g: "lo \<le> x" "x \<le> hi" "8 dvd x" "8 dvd s" "x = hi \<or> 24 \<le> s \<and> A (x + s + 8) \<noteq> None"
    and o: "A y \<noteq> None \<Longrightarrow> x < y \<Longrightarrow> x + s + 8 \<le> y" and h: "A hi = Some (0, False)" "hi + 16 < 2 ^ 63" "hi \<le> lo + 2 ^ 32" "c + 32 \<le> lo" for y
    using assms unfolding geo_def by blast+
  show "lo \<le> x" "8 dvd x" "8 dvd s" "x \<le> hi" "x \<noteq> hi \<Longrightarrow> 24 \<le> s" "x \<noteq> hi \<Longrightarrow> A (x + s + 8) \<noteq> None" "c + 32 \<le> x" using g h by auto
  show n: "x \<noteq> hi \<Longrightarrow> x + s + 8 \<le> hi" using o [of hi] h g(2) by auto
  show "s < 2 ^ 32" "x + s + 16 < 2 ^ 63" "f \<Longrightarrow> x \<noteq> hi" "s = 0 \<longleftrightarrow> x = hi" using n g h assms(2) by (cases "x = hi"; simp)+
qed

lemma geo_order: "geo c lo hi A \<Longrightarrow> A x = Some (s, f) \<Longrightarrow> A y = Some (t, g) \<Longrightarrow> x < y \<Longrightarrow> x + s + 8 \<le> y"
  unfolding geo_def by blast

text \<open>The bytes of different blocks are apart.\<close>

lemma own_apart:
  assumes "geo c lo hi A" "A x = Some (s, f)" "A y = Some (t, g)" "x \<noteq> y" "x + 8 \<le> n" "n < x + s + 16" "y + 8 \<le> k" "k < y + t + 16"
  shows "n \<noteq> k"
  using geo_order [OF assms(1,2,3)] geo_order [OF assms(1,3,2)] assms(4-8) by (cases x y rule: linorder_cases) auto

lemma own_apart_ad:
  assumes "geo c lo hi A" "A x = Some (s, f)" "A y = Some (t, g)" "x \<noteq> y" "x + 8 \<le> n" "n < x + s + 16" "y + 8 \<le> k" "k < y + t + 16"
  shows "ad n \<noteq> ad k"
  using own_apart [OF assms] geo_block(9) [OF assms(1,2)] geo_block(9) [OF assms(1,3)] assms(5-8) by simp

lemma geo_spaced:
  assumes "geo c lo hi A" "\<forall>x \<in> D. \<exists>s f. A x = Some (s, f) \<and> s \<noteq> 0"
  shows "spaced (insert c D)" "c \<notin> D" "0 \<notin> D" "0 < c"
proof -
  have b: "c + 32 \<le> x" "x + 32 < 2 ^ 63" if xD: "x \<in> D" for x
  proof -
    obtain s f where x: "A x = Some (s, f)" "s \<noteq> 0" using assms(2) xD by blast
    then show "c + 32 \<le> x" "x + 32 < 2 ^ 63" using geo_block(5,9,11,12) [OF assms(1) x(1)] by auto
  qed
  have o: "x + 32 \<le> y" if "x \<in> D" "y \<in> D" "x < y" for x y
  proof -
    obtain s f t g where x: "A x = Some (s, f)" "s \<noteq> 0" "A y = Some (t, g)" using assms(2) \<open>x \<in> D\<close> \<open>y \<in> D\<close> by blast
    then show ?thesis using geo_block(5,11) [OF assms(1) x(1)] geo_order [OF assms(1) x(1,3) that(3)] by auto
  qed
  have c: "0 < c" "c + 32 < 2 ^ 63" using assms(1) geo_block(1,4) [OF assms(1), of hi 0 False] by (auto simp: geo_def)
  then show "0 < c" "c \<notin> D" "0 \<notin> D" using b by fastforce+
  show "spaced (insert c D)" unfolding spaced_def using b o c by fastforce
qed

lemma next_inj:
  assumes "geo c lo hi A" "A x = Some (s, f)" "A y = Some (t, g)" "x + s + 8 = y + t + 8"
  shows "x = y"
  using geo_order [OF assms(1,2,3)] geo_order [OF assms(1,3,2)] assms(4) by (cases x y rule: linorder_cases) auto

section \<open>Reading a block\<close>

lemma block_next_word:
  assumes "h_mem h (ad (x + 8)) = szw s f p" "8 dvd s" "8 \<le> s" "s < 2 ^ 64"
  shows "block_next h (ad x) = Some (ad (x + s + 8))" "block_size h (ad x) = ad s"
proof -
  show sz: "block_size h (ad x) = ad s" unfolding block_size_def ad_plus assms(1) by (rule szw_flags [OF assms(2)])
  have "ad s - 8 = ad (s - 8)" using ad_diff [of 8 s] assms(3) by (simp add: ad_numeral)
  then show "block_next h (ad x) = Some (ad (x + s + 8))" using assms(3,4)
    by (simp add: block_next_def block_is_last_def Let_def tlsf_assert_def sz offset_to_block_def block_to_ptr_def ad_add ac_simps)
qed

lemma phys_block:
  assumes "geo c lo hi A" "phys (h_mem h) A" "A x = Some (s, f)"
  shows "block_size h (ad x) = ad s" "block_is_free h (ad x) \<longleftrightarrow> f" "block_is_prev_free h (ad x) \<longleftrightarrow> pf A x"
    "block_is_last h (ad x) \<longleftrightarrow> x = hi" "x \<noteq> hi \<Longrightarrow> block_next h (ad x) = Some (ad (x + s + 8))"
proof -
  have w: "h_mem h (ad (x + 8)) = szw s f (pf A x)" using assms(2,3) unfolding phys_def by blast
  note b = geo_block [OF assms(1,3)]
  show sz: "block_size h (ad x) = ad s" "block_is_free h (ad x) \<longleftrightarrow> f" "block_is_prev_free h (ad x) \<longleftrightarrow> pf A x"
    unfolding block_size_def block_is_free_def block_is_prev_free_def ad_plus w by (rule szw_flags [OF b(3)])+
  show last: "block_is_last h (ad x) \<longleftrightarrow> x = hi" using b(8,11) by (simp add: block_is_last_def sz)
  show "block_next h (ad x) = Some (ad (x + s + 8))" if "x \<noteq> hi" using block_next_word(1) [OF w b(3)] b(5,8) that by simp
qed

section \<open>Changing blocks\<close>

definition same_outside :: "(u64 \<Rightarrow> u64) \<Rightarrow> (u64 \<Rightarrow> u64) \<Rightarrow> nat \<Rightarrow> nat \<Rightarrow> bool" where
  "same_outside m m' a b \<longleftrightarrow> (\<forall>n < 2 ^ 64. n < a \<or> b < n \<longrightarrow> m' (ad n) = m (ad n))"

text \<open>What lies outside the bytes of a block and the size word after it: the bytes of other blocks but for that word.\<close>

lemma outside_block:
  assumes "geo c lo hi A" "A x = Some (s, f)" "A y = Some (t, g)" "x \<noteq> y" "y + 8 \<le> n" "n < y + t + 16" "same_outside m m' (x + 8) (x + s + 16)"
    "n \<noteq> x + s + 16"
  shows "m' (ad n) = m (ad n)"
proof -
  have "n < x + 8 \<or> x + s + 16 < n"
    using geo_order [OF assms(1-3)] geo_order [OF assms(1,3,2)] assms(4-6,8) by (cases x y rule: linorder_cases) auto
  moreover have "n < 2 ^ 64" using geo_block(9) [OF assms(1,3)] assms(6) by simp
  ultimately show ?thesis using assms(7) unfolding same_outside_def by blast
qed

lemma flists_same_outside:
  assumes "geo c lo hi A" "\<forall>y \<in> D. \<exists>t g. A y = Some (t, g) \<and> t \<noteq> 0" "A x = Some (s, f)" "x \<notin> D" "flists c h D cl"
    "same_outside (h_mem h) (h_mem h') (x + 8) (x + s + 16)"
    "h_control h' = h_control h" "sl_bitmap h' = sl_bitmap h" "fl_bitmap h' = fl_bitmap h" "h_blocks h' = h_blocks h" "\<And>y. y \<in> D \<Longrightarrow> cl' y = cl y"
  shows "flists c h' D cl'"
proof (rule flists_frame [OF assms(5) _ assms(7-11)])
  fix y assume y: "y \<in> D"
  then obtain t g where t: "A y = Some (t, g)" "t \<noteq> 0" using assms(2) by blast
  then have t24: "24 \<le> t" "x \<noteq> y" using geo_block(5,11) [OF assms(1) t(1)] y assms(4) by auto
  have "y \<noteq> x + s" "y + 8 \<noteq> x + s" using geo_order [OF assms(1,3) t(1)] geo_order [OF assms(1) t(1) assms(3)] t24 by (cases x y rule: linorder_cases; simp)+
  then show "h_mem h' (ad (y + 16)) = h_mem h (ad (y + 16)) \<and> h_mem h' (ad (y + 24)) = h_mem h (ad (y + 24))"
    using outside_block [OF assms(1,3) t(1) t24(2) _ _ assms(6), of "y + 16"] outside_block [OF assms(1,3) t(1) t24(2) _ _ assms(6), of "y + 24"] t24(1)
    by simp
qed

lemma pf_prev_unique:
  assumes "geo c lo hi A" "A x = Some (s, f)"
  shows "pf A (x + s + 8) \<longleftrightarrow> f"
  using next_inj [OF assms] assms(2) unfolding pf_def by fastforce

lemma phys_word: "phys m A \<Longrightarrow> A x = Some (s, f) \<Longrightarrow> m (ad (x + 8)) = szw s f (pf A x)"
    "phys m A \<Longrightarrow> A x = Some (s, True) \<Longrightarrow> m (ad (x + s + 8)) = ad x"
  unfolding phys_def by blast+

lemma next_word:
  assumes "geo c lo hi A" "phys m A" "A x = Some (s, f)" "A (x + s + 8) = Some (t, k)"
  shows "m (ad (x + s + 16)) = szw t k f"
  using phys_word(1) [OF assms(2,4)] pf_prev_unique [OF assms(1,3)] by (simp add: numeral_eq_Suc)

text \<open>Changing the free flag of a block.\<close>

lemma geo_pool: "geo c lo hi A \<Longrightarrow> 0 < c \<and> c + 32 \<le> lo \<and> hi + 16 < 2 ^ 63 \<and> hi \<le> lo + 2 ^ 32 \<and> A lo \<noteq> None \<and> A hi = Some (0, False)"
  unfolding geo_def by blast

lemma geo_change:
  assumes "geo c lo hi A" "A' lo \<noteq> None" "A' hi = Some (0, False)"
    "\<And>x s f. A' x = Some (s, f) \<Longrightarrow> lo \<le> x \<and> x \<le> hi \<and> 8 dvd x \<and> 8 dvd s \<and> (x = hi \<or> 24 \<le> s \<and> A' (x + s + 8) \<noteq> None)"
    "\<And>x s f y t g. A' x = Some (s, f) \<Longrightarrow> A' y = Some (t, g) \<Longrightarrow> x < y \<Longrightarrow> x + s + 8 \<le> y"
  shows "geo c lo hi A'"
proof -
  have "0 < c \<and> c + 32 \<le> lo \<and> hi + 16 < 2 ^ 63 \<and> hi \<le> lo + 2 ^ 32" using geo_pool [OF assms(1)] by blast
  moreover have "\<forall>x s f y. A' x = Some (s, f) \<longrightarrow> A' y \<noteq> None \<longrightarrow> x < y \<longrightarrow> x + s + 8 \<le> y" using assms(5) by fast
  ultimately show ?thesis unfolding geo_def using assms(2-4) by blast
qed

lemma geo_flag:
  assumes "geo c lo hi A" "A x = Some (s, f)" "x \<noteq> hi"
  shows "geo c lo hi (A(x := Some (s, f')))" (is "geo c lo hi ?A")
proof (rule geo_change [OF assms(1)])
  have old: "\<exists>q0. A y = Some (u, q0)" if "?A y = Some (u, q)" for y u q using that assms(2) by (auto split: if_splits)
  have dom: "?A y \<noteq> None \<longleftrightarrow> A y \<noteq> None" for y using assms(2) by simp
  show "?A lo \<noteq> None" "?A hi = Some (0, False)" using geo_pool [OF assms(1)] assms(3) dom by auto
  show "lo \<le> y \<and> y \<le> hi \<and> 8 dvd y \<and> 8 dvd u \<and> (y = hi \<or> 24 \<le> u \<and> ?A (y + u + 8) \<noteq> None)" if y: "?A y = Some (u, q)" for y u q
    using old [OF y] geo_block [OF assms(1), of y u] unfolding dom by blast
  show "y + u + 8 \<le> z" if y: "?A y = Some (u, q)" "?A z = Some (v, r)" "y < z" for y u q z v r
    using old [OF y(1)] old [OF y(2)] geo_order [OF assms(1)] y(3) by blast
qed

lemma phys_flag:
  assumes g: "geo c lo hi A" "phys m A" and x: "A x = Some (s, f)" "x \<noteq> hi" and n: "A (x + s + 8) = Some (t, k)"
    and m': "m' (ad (x + 8)) = szw s f' (pf A x)" "m' (ad (x + s + 16)) = szw t k f'" "f' \<Longrightarrow> m' (ad (x + s + 8)) = ad x"
    and o: "same_outside m m' (x + 8) (x + s + 16)"
  shows "phys m' (A(x := Some (s, f')))"
  unfolding phys_def
proof (intro allI impI)
  fix y u q assume y: "(A(x := Some (s, f'))) y = Some (u, q)"
  let ?A = "A(x := Some (s, f'))"
  note g' = geo_flag [OF g(1) x]
  have pfA: "pf ?A z \<longleftrightarrow> (if z = x + s + 8 then f' else pf A z)" for z
  proof (cases "z = x + s + 8")
    case False
    then have "?A a = Some (b, True) \<and> z = a + b + 8 \<longleftrightarrow> A a = Some (b, True) \<and> z = a + b + 8" for a b using x(1) by auto
    then show ?thesis using False unfolding pf_def by simp
  qed (use pf_prev_unique [OF g' [of f'], where x = x and s = s and f = f'] in simp)
  show "m' (ad (y + 8)) = szw u q (pf ?A y) \<and> (q \<longrightarrow> m' (ad (y + u + 8)) = ad y)"
  proof (cases "y = x")
    case True
    then show ?thesis using y m' pfA [of x] by simp
  next
    case False
    then have y': "A y = Some (u, q)" using y by simp
    then have w: "m (ad (y + 8)) = szw u q (pf A y)" "q \<Longrightarrow> m (ad (y + u + 8)) = ad y" using g(2) unfolding phys_def by blast+
    have link: "m' (ad (y + u + 8)) = ad y" if q
    proof -
      have u24: "24 \<le> u" using geo_block(5,10) [OF g(1) y'] that by simp
      have "y + u + 8 \<noteq> x + s + 16"
        using geo_order [OF g(1) x(1) y'] geo_order [OF g(1) y' x(1)] False u24 by (cases x y rule: linorder_cases) auto
      then show ?thesis using outside_block [OF g(1) x(1) y' _ _ _ o, of "y + u + 8"] False w(2) that by simp
    qed
    have size: "m' (ad (y + 8)) = szw u q (pf ?A y)"
    proof (cases "y = x + s + 8")
      case True
      then show ?thesis using m'(2) n y' pfA [of y] by (simp add: ac_simps)
    next
      case ne: False
      then show ?thesis using outside_block [OF g(1) x(1) y' _ _ _ o, of "y + 8"] False w(1) pfA [of y] by simp
    qed
    then show ?thesis using link by blast
  qed
qed

text \<open>The state after an operation that only writes memory.\<close>

definition only_mem :: "tlsf_heap \<Rightarrow> tlsf_heap \<Rightarrow> bool" where
  "only_mem h h' \<longleftrightarrow> h_control h' = h_control h \<and> fl_bitmap h' = fl_bitmap h \<and> sl_bitmap h' = sl_bitmap h \<and> h_blocks h' = h_blocks h"

lemma only_mem_wr [simp]: "only_mem h (wr a v h') \<longleftrightarrow> only_mem h h'" "only_mem h h"
  by (simp_all add: only_mem_def wr_def)

lemma h_mem_wr: "h_mem (wr a v h) = (h_mem h)(a := v)"
  by (simp add: wr_def)

lemma block_set_eqs:
  assumes "h_mem h (ad (x + 8)) = szw s f p" "8 dvd s"
  shows "block_set_used (ad x) h = wr (ad (x + 8)) (szw s False p) h" "block_set_free (ad x) h = wr (ad (x + 8)) (szw s True p) h"
    "block_set_prev_used (ad x) h = wr (ad (x + 8)) (szw s f False) h" "block_set_prev_free (ad x) h = wr (ad (x + 8)) (szw s f True) h"
    "8 dvd u \<Longrightarrow> block_set_size (ad x) (ad u) h = wr (ad (x + 8)) (szw u f p) h"
proof -
  show "block_set_used (ad x) h = wr (ad (x + 8)) (szw s False p) h" "block_set_free (ad x) h = wr (ad (x + 8)) (szw s True p) h"
    "block_set_prev_used (ad x) h = wr (ad (x + 8)) (szw s f False) h" "block_set_prev_free (ad x) h = wr (ad (x + 8)) (szw s f True) h"
    unfolding block_set_used_def block_set_free_def block_set_prev_used_def block_set_prev_free_def ad_plus assms(1) szw_flags [OF assms(2)]
    by (rule refl)+
  assume u: "8 dvd u"
  show "block_set_size (ad x) (ad u) h = wr (ad (x + 8)) (szw u f p) h"
    unfolding block_set_size_def ad_plus assms(1) szw_flags(8) [OF u] using bit_szw [OF assms(2), of f p] by simp
qed

lemma next_addr: "x + s + 8 + 8 = x + s + (16 :: nat)"
  by simp

lemma block_mark_as_used_phys:
  assumes "geo c lo hi A" "phys (h_mem h) A" "A x = Some (s, f)" "x \<noteq> hi"
  shows "\<exists>h'. block_mark_as_used (ad x) h = Some h' \<and> only_mem h h' \<and> phys (h_mem h') (A(x := Some (s, False))) \<and>
    same_outside (h_mem h) (h_mem h') (x + 8) (x + s + 16)"
proof -
  obtain t k where n: "A (x + s + 8) = Some (t, k)" using geo_block(6) [OF assms(1,3,4)] by auto
  note b = geo_block [OF assms(1,3)]
  have w: "h_mem h (ad (x + 8)) = szw s f (pf A x)" "h_mem h (ad (x + s + 16)) = szw t k f"
    using phys_word(1) [OF assms(2,3)] next_word [OF assms(1,2,3) n] .
  let ?h = "block_set_used (ad x) (block_set_prev_used (ad (x + s + 8)) h)"
  have "ad (x + s + 16) \<noteq> ad (x + 8)" using b(9) by simp
  moreover have "8 dvd t" using geo_block(3) [OF assms(1) n] .
  ultimately have e: "?h = wr (ad (x + 8)) (szw s False (pf A x)) (wr (ad (x + s + 16)) (szw t k False) h)"
    using w b(3) block_set_eqs(3) [of h "x + s + 8" t k f, unfolded next_addr] block_set_eqs(1) [of "wr (ad (x + s + 16)) (szw t k False) h" x s f "pf A x"]
    by (simp add: h_mem_wr)
  then have m: "h_mem ?h = (h_mem h)(ad (x + s + 16) := szw t k False, ad (x + 8) := szw s False (pf A x))" by (simp add: h_mem_wr)
  have "phys (h_mem ?h) (A(x := Some (s, False)))"
    by (rule phys_flag [OF assms n]) (use b(9) in \<open>auto simp: m same_outside_def\<close>)
  moreover have "same_outside (h_mem h) (h_mem ?h) (x + 8) (x + s + 16)" using b(9) by (auto simp: m same_outside_def)
  moreover have "block_mark_as_used (ad x) h = Some ?h" using phys_block(5) [OF assms] by (simp add: block_mark_as_used_def)
  moreover have "only_mem h ?h" using e by simp
  ultimately show ?thesis by blast
qed

lemma block_mark_as_free_phys:
  assumes "geo c lo hi A" "phys (h_mem h) A" "A x = Some (s, f)" "x \<noteq> hi"
  shows "\<exists>h'. block_mark_as_free (ad x) h = Some h' \<and> only_mem h h' \<and> phys (h_mem h') (A(x := Some (s, True))) \<and>
    same_outside (h_mem h) (h_mem h') (x + 8) (x + s + 16)"
proof -
  obtain t k where n: "A (x + s + 8) = Some (t, k)" using geo_block(6) [OF assms(1,3,4)] by auto
  note b = geo_block [OF assms(1,3)]
  have w: "h_mem h (ad (x + 8)) = szw s f (pf A x)" "h_mem h (ad (x + s + 16)) = szw t k f"
    using phys_word(1) [OF assms(2,3)] next_word [OF assms(1,2,3) n] .
  let ?h = "block_set_free (ad x) (block_set_prev_free (ad (x + s + 8)) (wr (ad (x + s + 8)) (ad x) h))"
  have "ad (x + s + 16) \<noteq> ad (x + 8)" "ad (x + s + 8) \<noteq> ad (x + 8)" "ad (x + s + 16) \<noteq> ad (x + s + 8)" using b(5,9) assms(4) by simp_all
  moreover have "8 dvd t" using geo_block(3) [OF assms(1) n] .
  ultimately have e: "?h = wr (ad (x + 8)) (szw s True (pf A x)) (wr (ad (x + s + 16)) (szw t k True) (wr (ad (x + s + 8)) (ad x) h))"
    using w b(3) block_set_eqs(4) [of "wr (ad (x + s + 8)) (ad x) h" "x + s + 8" t k f, unfolded next_addr]
      block_set_eqs(2) [of "wr (ad (x + s + 16)) (szw t k True) (wr (ad (x + s + 8)) (ad x) h)" x s f "pf A x"]
    by (simp add: h_mem_wr)
  then have m: "h_mem ?h = (h_mem h)(ad (x + s + 8) := ad x, ad (x + s + 16) := szw t k True, ad (x + 8) := szw s True (pf A x))"
    by (simp add: h_mem_wr)
  have "phys (h_mem ?h) (A(x := Some (s, True)))"
    by (rule phys_flag [OF assms n]) (use b(5,9) assms(4) in \<open>auto simp: m same_outside_def\<close>)
  moreover have "same_outside (h_mem h) (h_mem ?h) (x + 8) (x + s + 16)" using b(9) by (auto simp: m same_outside_def)
  moreover have "block_mark_as_free (ad x) h = Some ?h"
    using phys_block(5) [OF assms] by (simp add: block_mark_as_free_def block_link_next_def)
  moreover have "only_mem h ?h" using e by simp
  ultimately show ?thesis by blast
qed

text \<open>Joining two adjacent free blocks.\<close>

lemma geo_absorb:
  assumes g: "geo c lo hi A" and p: "A p = Some (sp, fp)" and b: "A b = Some (sb, fb)" "b = p + sp + 8" "b \<noteq> hi"
  shows "geo c lo hi (A(p := Some (sp + sb + 8, f), b := None))" (is "geo c lo hi ?A")
proof (rule geo_change [OF g])
  note gp = geo_block [OF g p] and gb = geo_block [OF g b(1)]
  have phi: "p \<noteq> hi" "p \<noteq> b" using gb(4) b(2,3) by auto
  have old: "(y = p \<and> u = sp + sb + 8 \<or> y \<noteq> p \<and> A y = Some (u, q)) \<and> y \<noteq> b" if "?A y = Some (u, q)" for y u q
    using that phi by (auto split: if_splits)
  have nb: "A y \<noteq> None \<Longrightarrow> y \<noteq> b \<Longrightarrow> ?A y \<noteq> None" for y by simp
  have nx: "?A (b + sb + 8) \<noteq> None" using nb gb(6) b(3) by simp
  show "?A lo \<noteq> None" using nb geo_pool [OF g] gp(1) b(2) by auto
  show "?A hi = Some (0, False)" using geo_pool [OF g] phi b(3) by simp
  show "lo \<le> y \<and> y \<le> hi \<and> 8 dvd y \<and> 8 dvd u \<and> (y = hi \<or> 24 \<le> u \<and> ?A (y + u + 8) \<noteq> None)" if y: "?A y = Some (u, q)" for y u q
  proof (cases "y = p")
    case True
    have "p + (sp + sb + 8) + 8 = b + sb + 8" using b(2) by simp
    then show ?thesis using old [OF y] gp gb phi nx True by auto
  next
    case False
    then have y': "A y = Some (u, q)" using old [OF y] by blast
    have "y + u + 8 \<noteq> b" using next_inj [OF g y' p] b(2) False by auto
    then show ?thesis using geo_block [OF g y'] nb by blast
  qed
  show "y + u + 8 \<le> z" if yz: "?A y = Some (u, q)" "?A z = Some (v, r)" "y < z" for y u q z v r
  proof (cases "y = p")
    case True
    then have z: "A z = Some (v, r)" "z \<noteq> b" "u = sp + sb + 8" using old [OF yz(2)] old [OF yz(1)] yz(3) by auto
    have "b \<le> z" using geo_order [OF g p z(1)] yz(3) True b(2) by simp
    then have "b + sb + 8 \<le> z" using geo_order [OF g b(1) z(1)] z(2) by simp
    then show ?thesis using True z(3) b(2) by simp
  next
    case False
    have "A z \<noteq> None" using old [OF yz(2)] p by auto
    then show ?thesis using old [OF yz(1)] False geo_order [OF g] yz(3) by fastforce
  qed
qed

lemma phys_absorb:
  assumes g: "geo c lo hi A" "phys m A" and p: "A p = Some (sp, True)" and b: "A b = Some (sb, True)" "b = p + sp + 8"
  shows "phys (m(ad (p + 8) := szw (sp + sb + 8) True (pf A p), ad (b + sb + 8) := ad p)) (A(p := Some (sp + sb + 8, True), b := None))"
    (is "phys ?m ?A")
  unfolding phys_def
proof (intro allI impI)
  note gp = geo_block [OF g(1) p] and gb = geo_block [OF g(1) b(1)]
  have bh: "b \<noteq> hi" "p \<noteq> hi" "p \<noteq> b" using gb(10) gp(10) b(2) by auto
  have pfA: "pf ?A y \<longleftrightarrow> pf A y" if "y \<noteq> b" for y
  proof -
    have e: "p + (sp + sb + 8) + 8 = b + sb + 8" using b(2) by simp
    show ?thesis
    proof
      assume "pf ?A y"
      then obtain z t where z: "?A z = Some (t, True)" "y = z + t + 8" unfolding pf_def by blast
      then show "pf A y" using e b(1) by (cases "z = p") (auto simp: pf_def split: if_splits)
    next
      assume "pf A y"
      then obtain z t where z: "A z = Some (t, True)" "y = z + t + 8" unfolding pf_def by blast
      show "pf ?A y"
      proof (cases "z = b")
        case True
        then have "?A p = Some (sp + sb + 8, True) \<and> y = p + (sp + sb + 8) + 8" using z b e bh by auto
        then show ?thesis unfolding pf_def by blast
      next
        case False
        then have "z \<noteq> p" using z p b(2) that by auto
        then have "?A z = Some (t, True)" using z False by simp
        then show ?thesis using z(2) unfolding pf_def by blast
      qed
    qed
  qed
  have ne: "ad (b + sb + 8) \<noteq> ad (p + 8)" using gb(9) gp(9) b(2) by simp
  fix y u q assume y: "?A y = Some (u, q)"
  then have yb: "y \<noteq> b" by auto
  show "?m (ad (y + 8)) = szw u q (pf ?A y) \<and> (q \<longrightarrow> ?m (ad (y + u + 8)) = ad y)"
  proof (cases "y = p")
    case True
    have "p + (sp + sb + 8) + 8 = b + sb + 8" using b(2) by simp
    then show ?thesis using y True ne pfA [OF yb] bh by auto
  next
    case False
    then have y': "A y = Some (u, q)" using y yb by simp
    have o: "?m (ad n) = m (ad n)" if "y + 8 \<le> n" "n < y + u + 16" for n
    proof -
      have "ad (p + 8) \<noteq> ad n" using own_apart_ad [OF g(1) p y' _ _ _ that, of "p + 8"] False by simp
      moreover have "ad (b + sb + 8) \<noteq> ad n" using own_apart_ad [OF g(1) b(1) y' _ _ _ that, of "b + sb + 8"] yb by simp
      ultimately show ?thesis by simp
    qed
    have "?m (ad (y + 8)) = m (ad (y + 8))" "?m (ad (y + u + 8)) = m (ad (y + u + 8))" by (rule o; simp)+
    then show ?thesis using phys_word(1) [OF g(2) y'] phys_word(2) [OF g(2), of y u] y' pfA [OF yb] by (simp only:) blast
  qed
qed

lemma block_absorb_phys:
  assumes g: "geo c lo hi A" "phys (h_mem h) A" and p: "A p = Some (sp, True)" and b: "A b = Some (sb, True)" "b = p + sp + 8"
  shows "\<exists>h'. block_absorb (ad p) (ad b) h = Some h' \<and> only_mem h h' \<and> phys (h_mem h') (A(p := Some (sp + sb + 8, True), b := None)) \<and>
    same_outside (h_mem h) (h_mem h') (p + 8) (b + sb + 8)"
proof -
  note gp = geo_block [OF g(1) p] and gb = geo_block [OF g(1) b(1)]
  let ?h1 = "wr (ad (p + 8)) (szw (sp + sb + 8) True (pf A p)) h" and ?s = "sp + sb + 8"
  have w: "h_mem h (ad (p + 8)) + (ad sb + 8) = szw ?s True (pf A p)"
    using phys_word(1) [OF g(2) p] szw_grow [OF gp(3), of "sb + 8"] gb(3) by (simp add: add.assoc)
  have d: "8 dvd ?s" "8 \<le> ?s" "?s < 2 ^ 64" using gp(3,8) gb(3,8) by auto
  have nx: "block_next ?h1 (ad p) = Some (ad (b + sb + 8))"
  proof -
    have "p + ?s + 8 = b + sb + 8" using b(2) by simp
    then show ?thesis using block_next_word(1) [OF _ d, of ?h1 p True "pf A p"] by (simp only: h_mem_wr fun_upd_same)
  qed
  have "block_absorb (ad p) (ad b) h = Some (wr (ad (b + sb + 8)) (ad p) ?h1)"
    using phys_block(4) [OF g p] gp(10) nx w
    by (simp add: block_absorb_def tlsf_assert_def block_link_next_def phys_block(1) [OF g b(1)])
  moreover have "same_outside (h_mem h) (h_mem (wr (ad (b + sb + 8)) (ad p) ?h1)) (p + 8) (b + sb + 8)"
    using gp(9) gb(9) b(2) by (auto simp: same_outside_def h_mem_wr)
  ultimately show ?thesis using phys_absorb [OF g p b] by (auto simp: h_mem_wr)
qed

text \<open>Splitting a free block.\<close>

lemma geo_split:
  assumes g: "geo c lo hi A" and b: "A b = Some (s, f)" and n: "24 \<le> n" "8 dvd n" "n + 32 \<le> s" "r = b + n + 8"
  shows "geo c lo hi (A(b := Some (n, f1), r := Some (s - n - 8, f2)))" (is "geo c lo hi ?A") "A r = None"
proof -
  note gb = geo_block [OF g b]
  have bh: "b \<noteq> hi" using gb(11) n(3) by auto
  show free: "A r = None"
  proof (rule ccontr)
    assume "A r \<noteq> None"
    then obtain t k where "A r = Some (t, k)" by auto
    from geo_order [OF g b this] n show False by simp
  qed
  have rh: "r \<noteq> hi" "r \<noteq> b" using gb(7) bh n by auto
  have old: "y = b \<and> u = n \<or> y = r \<and> u = s - n - 8 \<or> y \<noteq> b \<and> y \<noteq> r \<and> A y = Some (u, q)" if "?A y = Some (u, q)" for y u q
    using that by (auto split: if_splits)
  have nb: "A y \<noteq> None \<Longrightarrow> ?A y \<noteq> None" for y by simp
  have e: "r + (s - n - 8) + 8 = b + s + 8" using n by simp
  show "geo c lo hi ?A"
  proof (rule geo_change [OF g])
    show "?A lo \<noteq> None" using nb geo_pool [OF g] by simp
    show "?A hi = Some (0, False)" using geo_pool [OF g] bh rh by simp
    show "lo \<le> y \<and> y \<le> hi \<and> 8 dvd y \<and> 8 dvd u \<and> (y = hi \<or> 24 \<le> u \<and> ?A (y + u + 8) \<noteq> None)" if y: "?A y = Some (u, q)" for y u q
    proof -
      consider "y = b" "u = n" | "y = r" "u = s - n - 8" | "A y = Some (u, q)" using old [OF y] by blast
      then show ?thesis
      proof cases
        case 1
        have "?A (b + n + 8) \<noteq> None" using n(4) by simp
        then show ?thesis using 1 gb(1,2,4) n(1,2) by blast
      next
        case 2
        have "8 dvd s - n - 8" using gb(3) n(2) by (intro dvd_diff_nat) simp_all
        moreover have "r \<le> hi" "24 \<le> s - n - 8" "lo \<le> r" "8 dvd r" using gb(1,2,7) bh n by simp_all
        moreover have "?A (r + (s - n - 8) + 8) \<noteq> None" unfolding e using nb gb(6) bh by blast
        ultimately show ?thesis using 2 by blast
      next
        case 3
        then show ?thesis using geo_block [OF g 3] nb by blast
      qed
    qed
    show "y + u + 8 \<le> z" if yz: "?A y = Some (u, q)" "?A z = Some (v, k)" "y < z" for y u q z v k
    proof -
      have A: "A y \<noteq> None \<and> y \<noteq> r \<or> y = r" "A z \<noteq> None \<and> z \<noteq> r \<or> z = r" using old [OF yz(1)] old [OF yz(2)] b free by auto
      have after: "b + s + 8 \<le> z" if "b < z" "z \<noteq> r" using geo_order [OF g b] A(2) that by auto
      have before: "y + u + 8 \<le> b" if "y < b" using old [OF yz(1)] geo_order [OF g _ b, of y u q] that n by auto
      consider "y = b" | "y = r" | "y \<noteq> b" "y \<noteq> r" "A y = Some (u, q)" using old [OF yz(1)] by blast
      then show ?thesis
      proof cases
        case 1
        then have "u = n" using old [OF yz(1)] rh by auto
        then show ?thesis using after 1 yz(3) n by (cases "z = r") auto
      next
        case 2
        then have "u = s - n - 8" using old [OF yz(1)] rh free by auto
        then show ?thesis using after 2 yz(3) n e by auto
      next
        case 3
        show ?thesis
        proof (cases "z = r")
          case True
          then have "y < b" using geo_order [OF g b 3(3)] 3 yz(3) n by (cases y b rule: linorder_cases) auto
          then show ?thesis using before True n by simp
        next
          case False
          then show ?thesis using A(2) geo_order [OF g 3(3)] yz(3) by auto
        qed
      qed
    qed
  qed
qed

lemma phys_split:
  assumes g: "geo c lo hi A" "phys m A" and b: "A b = Some (s, True)" and n: "24 \<le> n" "8 dvd n" "n + 32 \<le> s" "r = b + n + 8"
    and m': "m' (ad (b + 8)) = szw n True (pf A b)" "m' (ad (r + 8)) = szw (s - n - 8) True True" "m' (ad r) = ad b" "m' (ad (b + s + 8)) = ad r"
    and o: "same_outside m m' (b + 8) (b + s + 8)"
  shows "phys m' (A(b := Some (n, True), r := Some (s - n - 8, True)))" (is "phys m' ?A")
  unfolding phys_def
proof (intro allI impI)
  note gb = geo_block [OF g(1) b] and g' = geo_split [OF g(1) b n]
  have rb: "r \<noteq> b" "r \<noteq> b + s + 8" using n by auto
  have e: "r + (s - n - 8) + 8 = b + s + 8" using n by simp
  have Ab: "?A b = Some (n, True)" "?A r = Some (s - n - 8, True)" using rb by simp_all
  have pfr: "pf ?A r" using pf_prev_unique [OF g'(1) [of True True] Ab(1)] by (simp only: n(4) [symmetric])
  have pfn: "pf ?A (b + s + 8)" using pf_prev_unique [OF g'(1) [of True True] Ab(2)] by (simp only: e)
  have pfA: "pf ?A y \<longleftrightarrow> pf A y" if y: "y \<noteq> r" for y
  proof (cases "y = b + s + 8")
    case True
    then show ?thesis using pfn pf_prev_unique [OF g(1) b] by simp
  next
    case False
    have "?A z = Some (t, True) \<and> y = z + t + 8 \<longleftrightarrow> A z = Some (t, True) \<and> y = z + t + 8" for z t
    proof -
      consider "z = r" | "z = b" | "z \<noteq> r" "z \<noteq> b" by blast
      then show ?thesis
      proof cases
        case 1
        then show ?thesis using False e g'(2) by auto
      next
        case 2
        then show ?thesis using False y n(4) b rb(1) by auto
      qed simp
    qed
    then show ?thesis unfolding pf_def by simp
  qed
  have "b \<noteq> r" using rb by simp
  fix y u q assume y: "?A y = Some (u, q)"
  consider "y = b" | "y = r" | "y \<noteq> b" "y \<noteq> r" by blast
  then show "m' (ad (y + 8)) = szw u q (pf ?A y) \<and> (q \<longrightarrow> m' (ad (y + u + 8)) = ad y)"
  proof cases
    case 1
    then have "u = n" "q" using y rb by (auto split: if_splits)
    then show ?thesis using 1 m' pfA [OF \<open>b \<noteq> r\<close>] n(4) by simp
  next
    case 2
    then have "u = s - n - 8" "q" using y by auto
    then show ?thesis using 2 m' pfr e by simp
  next
    case 3
    then have y': "A y = Some (u, q)" using y by simp
    have un: "m' (ad k) = m (ad k)" if k: "y + 8 \<le> k" "k < y + u + 16" for k
    proof -
      have "k < b + 8 \<or> b + s + 8 < k"
        using geo_order [OF g(1) b y'] geo_order [OF g(1) y' b] 3(1) k by (cases b y rule: linorder_cases) auto
      moreover have "k < 2 ^ 64" using geo_block(9) [OF g(1) y'] k(2) by simp
      ultimately show ?thesis using o unfolding same_outside_def by blast
    qed
    have "m' (ad (y + 8)) = m (ad (y + 8))" "m' (ad (y + u + 8)) = m (ad (y + u + 8))" by (rule un; simp)+
    then show ?thesis using phys_word(1) [OF g(2) y'] phys_word(2) [OF g(2), of y u] y' pfA [OF 3(2)] by (simp only:) blast
  qed
qed

lemma block_set_size_word: "8 dvd u \<Longrightarrow> \<exists>f p. block_set_size (ad x) (ad u) h = wr (ad (x + 8)) (szw u f p) h"
  unfolding block_set_size_def ad_plus by (auto simp only: szw_flags(8))

lemma block_split_code:
  assumes g: "geo c lo hi A" "phys (h_mem h) A" and b: "A b = Some (s, True)" and n: "24 \<le> n" "8 dvd n" "n + 32 \<le> s" "r = b + n + 8"
  shows "\<exists>f p. block_split (ad b) (ad n) h = Some (ad r,
    wr (ad (r + 8)) (szw (s - n - 8) True p) (wr (ad (b + s + 8)) (ad r) (wr (ad (b + 8)) (szw n True (pf A b))
      (wr (ad (r + 8)) (szw (s - n - 8) f p) h))))"
proof -
  note gb = geo_block [OF g(1) b]
  have bh: "b \<noteq> hi" using gb(10) by simp
  obtain t k where nx: "A (b + s + 8) = Some (t, k)" using gb(6) bh by auto
  let ?u = "s - n - 8"
  have u: "8 dvd ?u" "24 \<le> ?u" "?u < 2 ^ 64" "r + ?u + 8 = b + s + 8" using gb(3,8) n by (auto intro!: dvd_diff_nat)
  have bd: "b + s + 16 < 2 ^ 63" "8 dvd b" "s < 2 ^ 32" using gb by blast+
  obtain f p where h1: "block_set_size (ad r) (ad ?u) h = wr (ad (r + 8)) (szw ?u f p) h" using block_set_size_word [OF u(1)] by blast
  let ?h1 = "wr (ad (r + 8)) (szw ?u f p) h"
  have wb: "h_mem ?h1 (ad (b + 8)) = szw s True (pf A b)" using phys_word(1) [OF g(2) b] bd n by (simp add: h_mem_wr)
  note h2 = block_set_eqs(5) [OF wb gb(3) n(2)]
  let ?h2 = "wr (ad (b + 8)) (szw n True (pf A b)) ?h1"
  have wr2: "h_mem ?h2 (ad (r + 8)) = szw ?u f p" using bd n by (simp add: h_mem_wr)
  have nr: "block_next ?h2 (ad r) = Some (ad (b + s + 8))" using block_next_word(1) [OF wr2 u(1) _ u(3)] u(2,4) by simp
  let ?h3 = "wr (ad (b + s + 8)) (ad r) ?h2"
  have wn: "h_mem ?h3 (ad (b + s + 8 + 8)) = szw t k True"
    using next_word [OF g b nx] bd n unfolding next_addr by (simp add: h_mem_wr)
  have h4: "block_set_prev_free (ad (b + s + 8)) ?h3 = ?h3"
    using block_set_eqs(4) [OF wn geo_block(3) [OF g(1) nx]] wn by (simp add: wr_def fun_upd_idem)
  have wr3: "h_mem ?h3 (ad (r + 8)) = szw ?u f p" using wr2 bd n by (simp add: h_mem_wr)
  have mf: "block_mark_as_free (ad r) ?h2 = Some (wr (ad (r + 8)) (szw ?u True p) ?h3)"
    using nr h4 block_set_eqs(2) [OF wr3 u(1)] by (simp add: block_mark_as_free_def block_link_next_def)
  have sz: "block_size h (ad b) = ad s" "block_size ?h1 (ad r) = ad ?u"
    using phys_block(1) [OF g b] block_next_word(2) [of ?h1 r ?u f p] u by (simp_all add: h_mem_wr)
  have rem: "offset_to_block (block_to_ptr (ad b)) (ad n - 8) = ad r"
    using n ad_diff [of 8 n] by (simp add: offset_to_block_def block_to_ptr_def ad_numeral ad_add ac_simps)
  have rs: "ad s - (ad n + 8) = ad ?u" using n ad_diff [of "n + 8" s] by (simp add: diff_diff_left)
  have tot: "ad s = ad ?u + ad n + 8" using n by (simp add: ad_add)
  have al: "align_ptr (block_to_ptr (ad r)) 8 = Some (block_to_ptr (ad r))"
    unfolding block_to_ptr_def ad_plus using bd n by (intro ad_align) auto
  have ge: "24 \<le> ad ?u" using ad_le [of 24 ?u] u by (simp add: ad_numeral)
  show ?thesis unfolding block_split_def Let_def rem sz(1) rs al h1 h2 tlsf_assert_def
    using mf sz(2) ge tot by auto
qed

lemma block_split_free_phys:
  assumes g: "geo c lo hi A" "phys (h_mem h) A" and b: "A b = Some (s, True)" and n: "24 \<le> n" "8 dvd n" "n + 32 \<le> s" "r = b + n + 8"
  shows "\<exists>h1 h2. block_split (ad b) (ad n) h = Some (ad r, h1) \<and> block_link_next (ad b) h1 = Some (ad r, h2) \<and>
    only_mem h (block_set_prev_free (ad r) h2) \<and>
    phys (h_mem (block_set_prev_free (ad r) h2)) (A(b := Some (n, True), r := Some (s - n - 8, True))) \<and>
    same_outside (h_mem h) (h_mem (block_set_prev_free (ad r) h2)) (b + 8) (b + s + 8)"
proof -
  note gb = geo_block [OF g(1) b]
  let ?u = "s - n - 8"
  have bd: "b + s + 16 < 2 ^ 63" "8 dvd s" using gb by blast+
  have u: "8 dvd ?u" using bd n by (auto intro!: dvd_diff_nat)
  obtain f p where sp: "block_split (ad b) (ad n) h = Some (ad r,
      wr (ad (r + 8)) (szw ?u True p) (wr (ad (b + s + 8)) (ad r) (wr (ad (b + 8)) (szw n True (pf A b)) (wr (ad (r + 8)) (szw ?u f p) h))))"
    using block_split_code [OF g b n] by blast
  define h1 where "h1 = wr (ad (r + 8)) (szw ?u True p) (wr (ad (b + s + 8)) (ad r) (wr (ad (b + 8)) (szw n True (pf A b)) (wr (ad (r + 8)) (szw ?u f p) h)))"
  have w1: "h_mem h1 (ad (b + 8)) = szw n True (pf A b)" using bd n by (simp add: h1_def h_mem_wr)
  have nb: "block_next h1 (ad b) = Some (ad r)" using block_next_word(1) [OF w1 n(2)] n gb(8) by simp
  let ?h2 = "wr (ad r) (ad b) h1"
  have w2: "h_mem ?h2 (ad (r + 8)) = szw ?u True p" using bd n by (simp add: h1_def h_mem_wr)
  note h3 = block_set_eqs(4) [OF w2 u]
  let ?h3 = "wr (ad (r + 8)) (szw ?u True True) ?h2"
  have m: "h_mem ?h3 (ad (b + 8)) = szw n True (pf A b)" "h_mem ?h3 (ad (r + 8)) = szw ?u True True" "h_mem ?h3 (ad r) = ad b"
    "h_mem ?h3 (ad (b + s + 8)) = ad r" using bd n by (simp_all add: h1_def h_mem_wr)
  have o: "same_outside (h_mem h) (h_mem ?h3) (b + 8) (b + s + 8)" using bd n by (auto simp: same_outside_def h1_def h_mem_wr)
  have "only_mem h ?h3" by (simp add: h1_def)
  then show ?thesis using sp nb phys_split [OF g b n m o] o h3 by (auto simp: block_link_next_def h1_def)
qed

end
