(* ===== verification/Tlsf_Heap.thy ===== *)
theory Tlsf_Heap
  imports Tlsf_Phys
begin

text \<open>
  The allocator as a whole: the invariant that joins the layout of the pool with the free lists, and what
  \<open>tlsf_malloc\<close>, \<open>tlsf_free\<close> and \<open>tlsf_create_with_pool\<close> do to it and to the memory of their clients.
\<close>

definition cls :: "layout \<Rightarrow> nat \<Rightarrow> nat \<times> nat" where
  "cls A x = mapping_insert (ad (fst (the (A x))))"

definition frees :: "layout \<Rightarrow> nat set" where
  "frees A = {x. \<exists>s. A x = Some (s, True)}"

text \<open>The layout with the blocks \<open>D\<close> in the free lists.\<close>

definition heap_with :: "nat \<Rightarrow> nat \<Rightarrow> nat \<Rightarrow> tlsf_heap \<Rightarrow> layout \<Rightarrow> nat set \<Rightarrow> bool" where
  "heap_with c lo hi h A D \<longleftrightarrow> geo c lo hi A \<and> phys (h_mem h) A \<and> flists c h D (cls A) \<and> D \<subseteq> frees A"

definition heap_ok :: "nat \<Rightarrow> nat \<Rightarrow> nat \<Rightarrow> tlsf_heap \<Rightarrow> layout \<Rightarrow> bool" where
  "heap_ok c lo hi h A \<longleftrightarrow> heap_with c lo hi h A (frees A) \<and> coal A"

text \<open>The blocks in the hands of clients, and what an operation leaves alone of their contents.\<close>

definition used :: "layout \<Rightarrow> nat \<Rightarrow> nat option" where
  "used A x = (case A x of Some (s, f) \<Rightarrow> if f \<or> s = 0 then None else Some s | None \<Rightarrow> None)"

definition keeps :: "layout \<Rightarrow> nat set \<Rightarrow> (u64 \<Rightarrow> u64) \<Rightarrow> (u64 \<Rightarrow> u64) \<Rightarrow> bool" where
  "keeps A X m m' \<longleftrightarrow> (\<forall>y t n. used A y = Some t \<longrightarrow> y \<notin> X \<longrightarrow> y + 16 \<le> n \<longrightarrow> n < y + t + 16 \<longrightarrow> m' (ad n) = m (ad n))"

lemma used_Some: "used A x = Some s \<longleftrightarrow> A x = Some (s, False) \<and> s \<noteq> 0"
  by (auto simp: used_def split: option.splits prod.splits if_splits)

lemma keeps_refl [simp]: "keeps A X m m"
  by (simp add: keeps_def)

lemma keeps_trans: "keeps A X m m' \<Longrightarrow> keeps B X m' m'' \<Longrightarrow> (\<And>y t. y \<notin> X \<Longrightarrow> used A y = Some t \<Longrightarrow> used B y = Some t) \<Longrightarrow> keeps A X m m''"
  unfolding keeps_def by metis

lemma keeps_unused: "keeps A {x} m m' \<Longrightarrow> used A x = None \<Longrightarrow> keeps A {} m m'"
  unfolding keeps_def by (metis empty_iff option.distinct(1) singletonD)

lemma frees_block: "D \<subseteq> frees A \<Longrightarrow> geo c lo hi A \<Longrightarrow> \<forall>y \<in> D. \<exists>t g. A y = Some (t, g) \<and> t \<noteq> 0"
  unfolding frees_def using geo_block(10,11) by blast

lemma heap_withD:
  assumes "heap_with c lo hi h A D"
  shows "geo c lo hi A" "phys (h_mem h) A" "flists c h D (cls A)" "D \<subseteq> frees A"
    "spaced (insert c D)" "c \<notin> D" "0 \<notin> D" "0 < c"
  using assms geo_spaced [OF _ frees_block, of c lo hi A D] unfolding heap_with_def by blast+

lemma cls_range:
  assumes "geo c lo hi A" "A x = Some (s, f)"
  shows "fst (cls A x) < 25" "snd (cls A x) < 32"
proof -
  obtain fl sl where m: "mapping_insert (ad s) = (fl, sl)" by force
  have s: "unat (ad s) < 2 ^ 32" using geo_block(8) [OF assms] by simp
  show "snd (cls A x) < 32" using mapping_insert_spec(1) [OF m] m by (simp add: cls_def assms(2))
  show "fst (cls A x) < 25"
  proof (cases "unat (ad s) < 256")
    case False
    then obtain k where k: "2 ^ k \<le> unat (ad s)" "fl = k - 7" using mapping_insert_spec(4) [OF m] by auto
    have "(2::nat) ^ k < 2 ^ 32" using k(1) s by (rule le_less_trans)
    then have "k < 32" by (rule pow2_less)
    then show ?thesis using m k(2) by (simp add: cls_def assms(2))
  qed (use mapping_insert_spec(3) [OF m] m in \<open>simp add: cls_def assms(2)\<close>)
qed

section \<open>Memory outside the links\<close>

lemma links_own:
  assumes "geo c lo hi A" "D \<subseteq> frees A" "A y = Some (t, g)" "y + 8 \<le> n" "n < y + t + 16" "y \<in> D \<Longrightarrow> n \<noteq> y + 16 \<and> n \<noteq> y + 24"
  shows "ad n \<notin> links c D"
proof
  have nb: "n < 2 ^ 64" "c + 32 \<le> y" using geo_block(9,12) [OF assms(1,3)] assms(5) by simp_all
  assume "ad n \<in> links c D"
  then obtain z where z: "z = c \<or> z \<in> D" "ad n = ad (z + 16) \<or> ad n = ad (z + 24)" unfolding links_def by blast
  show False
  proof (cases "z = c")
    case True
    then show ?thesis using z(2) nb assms(4) by auto
  next
    case False
    then have zD: "z \<in> D" using z(1) by simp
    then obtain u where u: "A z = Some (u, True)" using assms(2) by (auto simp: frees_def)
    have u24: "24 \<le> u" using geo_block(5,10) [OF assms(1) u] by simp
    show ?thesis
    proof (cases "z = y")
      case True
      then show ?thesis using z(2) assms(6) zD nb(1) geo_block(9) [OF assms(1) u] by auto
    next
      case ne: False
      have "ad (z + 16) \<noteq> ad n" "ad (z + 24) \<noteq> ad n"
        using own_apart_ad [OF assms(1) u assms(3) ne _ _ assms(4,5), of "z + 16"] own_apart_ad [OF assms(1) u assms(3) ne _ _ assms(4,5), of "z + 24"] u24 by simp_all
      then show ?thesis using z(2) by simp
    qed
  qed
qed

lemma links_frame:
  assumes "geo c lo hi A" "D \<subseteq> frees A" "\<forall>a. a \<notin> links c D \<longrightarrow> m' a = m a"
  shows "phys m A \<Longrightarrow> phys m' A" "keeps A X m m'"
proof -
  have w: "m' (ad (y + 8)) = m (ad (y + 8))" "g \<Longrightarrow> m' (ad (y + t + 8)) = m (ad (y + t + 8))" if y: "A y = Some (t, g)" for y t g
  proof -
    have "ad (y + 8) \<notin> links c D" by (rule links_own [OF assms(1,2) y]) auto
    then show "m' (ad (y + 8)) = m (ad (y + 8))" using assms(3) by blast
    assume g
    then have "24 \<le> t" using geo_block(5,10) [OF assms(1) y] by simp
    then have "ad (y + t + 8) \<notin> links c D" by (intro links_own [OF assms(1,2) y]) auto
    then show "m' (ad (y + t + 8)) = m (ad (y + t + 8))" using assms(3) by blast
  qed
  show "phys m' A" if "phys m A" using that w unfolding phys_def by metis
  show "keeps A X m m'" unfolding keeps_def
  proof (intro allI impI)
    fix y t n assume a: "used A y = Some t" "y + 16 \<le> n" "n < y + t + 16"
    then have y: "A y = Some (t, False)" by (simp add: used_Some)
    then have "y \<notin> D" using assms(2) by (auto simp: frees_def)
    then have "ad n \<notin> links c D" using a by (intro links_own [OF assms(1,2) y]) auto
    then show "m' (ad n) = m (ad n)" using assms(3) by blast
  qed
qed

lemma outside_keeps:
  assumes "geo c lo hi A" "A x = Some (s, f)" "same_outside m m' (x + 8) (x + s + 16)" "x \<in> X"
  shows "keeps A X m m'"
  unfolding keeps_def
proof (intro allI impI)
  fix y t n assume a: "used A y = Some t" "y \<notin> X" "y + 16 \<le> n" "n < y + t + 16"
  then have y: "A y = Some (t, False)" "x \<noteq> y" using assms(4) by (auto simp: used_Some)
  have "n \<noteq> x + s + 16" using geo_order [OF assms(1,2) y(1)] geo_order [OF assms(1) y(1) assms(2)] y(2) a by (cases x y rule: linorder_cases) auto
  then show "m' (ad n) = m (ad n)" using outside_block [OF assms(1,2) y _ _ assms(3)] a by simp
qed

section \<open>Operations on the lists\<close>

lemma remove_heap:
  assumes "heap_with c lo hi h A D" "x \<in> D"
  shows "\<exists>h'. remove_free_block (ad x) (fst (cls A x)) (snd (cls A x)) h = Some h' \<and> heap_with c lo hi h' A (D - {x}) \<and> keeps A X (h_mem h) (h_mem h')"
proof -
  note d = heap_withD [OF assms(1)]
  obtain h' where h': "remove_free_block (ad x) (fst (cls A x)) (snd (cls A x)) h = Some h'" "flists c h' (D - {x}) (cls A)"
    "\<forall>a. a \<notin> links c D \<longrightarrow> h_mem h' a = h_mem h a"
    using remove_free_block_correct [OF d(3) assms(2) d(5,6,8,7)] by blast
  then show ?thesis using links_frame [OF d(1,4) h'(3)] d unfolding heap_with_def by blast
qed

lemma block_remove_heap:
  assumes "heap_with c lo hi h A D" "x \<in> D"
  shows "\<exists>h'. block_remove (ad x) h = Some h' \<and> heap_with c lo hi h' A (D - {x}) \<and> keeps A X (h_mem h) (h_mem h')"
proof -
  note d = heap_withD [OF assms(1)]
  obtain s where s: "A x = Some (s, True)" using d(4) assms(2) by (auto simp: frees_def)
  have "block_remove (ad x) h = remove_free_block (ad x) (fst (cls A x)) (snd (cls A x)) h"
    using phys_block(1) [OF d(1,2) s] s by (simp add: block_remove_def cls_def split_beta)
  then show ?thesis using remove_heap [OF assms] by simp
qed

lemma block_insert_heap:
  assumes "heap_with c lo hi h A D" "A x = Some (s, True)" "x \<notin> D"
  shows "\<exists>h'. block_insert (ad x) h = Some h' \<and> heap_with c lo hi h' A (insert x D) \<and> keeps A X (h_mem h) (h_mem h')"
proof -
  note d = heap_withD [OF assms(1)]
  have sub: "insert x D \<subseteq> frees A" using d(4) assms(2) by (auto simp: frees_def)
  note sp = geo_spaced [OF d(1) frees_block [OF sub d(1)]]
  obtain i j where ij: "cls A x = (i, j)" "i < 25" "j < 32" using cls_range [OF d(1) assms(2)] by (metis prod.collapse)
  obtain h' where h': "insert_free_block (ad x) i j h = Some h'" "flists c h' (insert x D) (cls A)"
    "\<forall>a. a \<notin> links c (insert x D) \<longrightarrow> h_mem h' a = h_mem h a"
    using insert_free_block_correct [OF d(3) assms(3) ij geo_block(2) [OF d(1) assms(2)] sp(1,2,4,3)] by blast
  have "block_insert (ad x) h = insert_free_block (ad x) i j h"
    using phys_block(1) [OF d(1,2) assms(2)] assms(2) ij(1) by (simp add: block_insert_def cls_def split_beta)
  then show ?thesis using h' links_frame [OF d(1) sub h'(3)] d sub unfolding heap_with_def by auto
qed

section \<open>Operations on blocks\<close>

lemma flag_heap:
  assumes "heap_with c lo hi h A D" "A x = Some (s, f)" "x \<notin> D" "x \<noteq> hi" "only_mem h h'" "phys (h_mem h') (A(x := Some (s, f')))"
    "same_outside (h_mem h) (h_mem h') (x + 8) (x + s + 16)"
  shows "heap_with c lo hi h' (A(x := Some (s, f'))) D" "keeps A {x} (h_mem h) (h_mem h')"
proof -
  note d = heap_withD [OF assms(1)]
  have "flists c h' D (cls (A(x := Some (s, f'))))"
    by (rule flists_same_outside [OF d(1) frees_block [OF d(4,1)] assms(2,3) d(3) assms(7)])
      (use assms(3,5) in \<open>auto simp: only_mem_def cls_def\<close>)
  moreover have "D \<subseteq> frees (A(x := Some (s, f')))" using d(4) assms(3) by (auto simp: frees_def)
  ultimately show "heap_with c lo hi h' (A(x := Some (s, f'))) D" using geo_flag [OF d(1) assms(2,4)] assms(6) unfolding heap_with_def by blast
  show "keeps A {x} (h_mem h) (h_mem h')" by (rule outside_keeps [OF d(1) assms(2,7)]) simp
qed

lemma mark_used_heap:
  assumes "heap_with c lo hi h A D" "A x = Some (s, f)" "x \<notin> D" "x \<noteq> hi"
  shows "\<exists>h'. block_mark_as_used (ad x) h = Some h' \<and> heap_with c lo hi h' (A(x := Some (s, False))) D \<and> keeps A {x} (h_mem h) (h_mem h')"
  using block_mark_as_used_phys [OF heap_withD(1,2) [OF assms(1)] assms(2,4)] flag_heap [OF assms] by blast

lemma mark_free_heap:
  assumes "heap_with c lo hi h A D" "A x = Some (s, f)" "x \<notin> D" "x \<noteq> hi"
  shows "\<exists>h'. block_mark_as_free (ad x) h = Some h' \<and> heap_with c lo hi h' (A(x := Some (s, True))) D \<and> keeps A {x} (h_mem h) (h_mem h')"
  using block_mark_as_free_phys [OF heap_withD(1,2) [OF assms(1)] assms(2,4)] flag_heap [OF assms] by blast

lemma outside_two:
  assumes "geo c lo hi A" "A p = Some (sp, f)" "A b = Some (sb, g)" "b = p + sp + 8" "A y = Some (t, k)" "y \<noteq> p" "y \<noteq> b" "y + 8 \<le> n" "n < y + t + 16"
    "same_outside m m' (p + 8) (b + sb + 8)"
  shows "m' (ad n) = m (ad n)"
proof -
  have "n < p + 8 \<or> b + sb + 8 < n"
    using geo_order [OF assms(1,2,5)] geo_order [OF assms(1,5,2)] geo_order [OF assms(1,3,5)] assms(4,6-9)
    by (cases p y rule: linorder_cases; cases b y rule: linorder_cases) auto
  moreover have "n < 2 ^ 64" using geo_block(9) [OF assms(1,5)] assms(9) by simp
  ultimately show ?thesis using assms(10) unfolding same_outside_def by blast
qed

lemma absorb_heap:
  assumes h: "heap_with c lo hi h A D" and p: "A p = Some (sp, True)" and b: "A b = Some (sb, True)" "b = p + sp + 8" and D: "p \<notin> D" "b \<notin> D"
  shows "\<exists>h'. block_absorb (ad p) (ad b) h = Some h' \<and> heap_with c lo hi h' (A(p := Some (sp + sb + 8, True), b := None)) D \<and>
    keeps A {} (h_mem h) (h_mem h')"
proof -
  note d = heap_withD [OF h]
  let ?A = "A(p := Some (sp + sb + 8, True), b := None)"
  obtain h' where h': "block_absorb (ad p) (ad b) h = Some h'" "only_mem h h'" "phys (h_mem h') ?A" "same_outside (h_mem h) (h_mem h') (p + 8) (b + sb + 8)"
    using block_absorb_phys [OF d(1,2) p b] by blast
  note o = outside_two [OF d(1) p b _ _ _ _ _ h'(4)]
  have "flists c h' D (cls ?A)"
  proof (rule flists_frame [OF d(3)])
    fix y assume y: "y \<in> D"
    then obtain t where t: "A y = Some (t, True)" using d(4) by (auto simp: frees_def)
    have "24 \<le> t" "y \<noteq> p" "y \<noteq> b" using geo_block(5,10) [OF d(1) t] y D by auto
    then show "h_mem h' (ad (y + 16)) = h_mem h (ad (y + 16)) \<and> h_mem h' (ad (y + 24)) = h_mem h (ad (y + 24))"
      using o [OF t, of "y + 16"] o [OF t, of "y + 24"] by simp
  qed (use h'(2) D in \<open>auto simp: only_mem_def cls_def\<close>)
  moreover have "D \<subseteq> frees ?A" using d(4) D by (auto simp: frees_def)
  moreover have "geo c lo hi ?A" using geo_absorb [OF d(1) p b] geo_block(10) [OF d(1) b(1)] by simp
  moreover have "keeps A {} (h_mem h) (h_mem h')" unfolding keeps_def
  proof (intro allI impI)
    fix y t n assume a: "used A y = Some t" "y + 16 \<le> n" "n < y + t + 16"
    then have y: "A y = Some (t, False)" by (simp add: used_Some)
    then have "y \<noteq> p" "y \<noteq> b" using p b(1) by auto
    then show "h_mem h' (ad n) = h_mem h (ad n)" using o [OF y] a by simp
  qed
  ultimately show ?thesis using h' unfolding heap_with_def by blast
qed

lemma split_heap:
  assumes h: "heap_with c lo hi h A D" and b: "A b = Some (s, True)" "b \<notin> D" and n: "24 \<le> n" "8 dvd n" "n + 32 \<le> s" "r = b + n + 8"
  shows "\<exists>h'. block_trim_free (ad b) (ad n) h = Some h' \<and> heap_with c lo hi h' (A(b := Some (n, True), r := Some (s - n - 8, True))) (insert r D) \<and>
    keeps A {} (h_mem h) (h_mem h')"
proof -
  note d = heap_withD [OF h]
  let ?A = "A(b := Some (n, True), r := Some (s - n - 8, True))"
  note g' = geo_split [OF d(1) b(1) n]
  have rb: "r \<noteq> b" using n by simp
  obtain h1 h2 where s: "block_split (ad b) (ad n) h = Some (ad r, h1)" "block_link_next (ad b) h1 = Some (ad r, h2)"
    "only_mem h (block_set_prev_free (ad r) h2)" "phys (h_mem (block_set_prev_free (ad r) h2)) ?A"
    "same_outside (h_mem h) (h_mem (block_set_prev_free (ad r) h2)) (b + 8) (b + s + 8)"
    using block_split_free_phys [OF d(1,2) b(1) n] by blast
  let ?h3 = "block_set_prev_free (ad r) h2"
  have o: "same_outside (h_mem h) (h_mem ?h3) (b + 8) (b + s + 16)" using s(5) by (auto simp: same_outside_def)
  have rD: "r \<notin> D" using d(4) g'(2) by (auto simp: frees_def)
  have "flists c ?h3 D (cls ?A)"
    by (rule flists_same_outside [OF d(1) frees_block [OF d(4,1)] b d(3) o]) (use s(3) b(2) rD in \<open>auto simp: only_mem_def cls_def\<close>)
  moreover have "D \<subseteq> frees ?A" using d(4) b(2) rD by (auto simp: frees_def)
  ultimately have h3: "heap_with c lo hi ?h3 ?A D" using g'(1) s(4) unfolding heap_with_def by blast
  obtain h' where h': "block_insert (ad r) ?h3 = Some h'" "heap_with c lo hi h' ?A (insert r D)" "keeps ?A {} (h_mem ?h3) (h_mem h')"
    using block_insert_heap [OF h3 _ rD, of "s - n - 8"] by auto
  have "block_can_split h (ad b) (ad n)"
    using n geo_block(8) [OF d(1) b(1)] ad_le [of "n + 32" s] by (simp add: block_can_split_def phys_block(1) [OF d(1,2) b(1)] add.commute [of 32])
  then have "block_trim_free (ad b) (ad n) h = Some h'"
    using s h'(1) phys_block(2) [OF d(1,2) b(1)] by (simp add: block_trim_free_def tlsf_assert_def)
  moreover have "keeps A {} (h_mem h) (h_mem h')"
  proof (rule keeps_trans)
    have "keeps A {b} (h_mem h) (h_mem ?h3)" by (rule outside_keeps [OF d(1) b(1) o]) simp
    then show "keeps A {} (h_mem h) (h_mem ?h3)" by (rule keeps_unused) (simp add: used_def b(1))
    show "keeps ?A {} (h_mem ?h3) (h_mem h')" by (rule h'(3))
    show "used ?A y = Some t" if "used A y = Some t" for y t using that b(1) g'(2) by (auto simp: used_Some)
  qed
  ultimately show ?thesis using h'(2) by blast
qed

section \<open>Allocation\<close>

text \<open>The size that is looked for when \<open>n\<close> bytes are requested; 0 when the request is refused.\<close>

definition request :: "nat \<Rightarrow> nat" where
  "request n = (let r = (n + 7) div 8 * 8 in if n = 0 \<or> 2 ^ 32 \<le> r then 0 else max 24 r)"

lemma request_spec:
  "8 dvd request n" "request n < 2 ^ 32" "request n \<noteq> 0 \<Longrightarrow> 24 \<le> request n \<and> n \<le> request n" "n \<noteq> 0 \<Longrightarrow> n < 2 ^ 32 - 8 \<Longrightarrow> request n \<noteq> 0"
proof -
  let ?r = "(n + 7) div 8 * 8"
  have "n \<le> ?r" "?r < n + 8" by auto
  then show "8 dvd request n" "request n < 2 ^ 32" "request n \<noteq> 0 \<Longrightarrow> 24 \<le> request n \<and> n \<le> request n" "n \<noteq> 0 \<Longrightarrow> n < 2 ^ 32 - 8 \<Longrightarrow> request n \<noteq> 0"
    unfolding request_def Let_def max_def by (simp_all split: if_splits)
qed

lemma adjust_request_size_spec:
  assumes "unat n \<le> 2 ^ 64 - 8"
  shows "adjust_request_size n 8 = Some (ad (request (unat n)))"
proof (cases "n = 0")
  case True
  then show ?thesis by (simp add: adjust_request_size_def request_def ad_def)
next
  case False
  let ?r = "(unat n + 7) div 8 * 8"
  have "unat (n + 7) = unat n + 7" using assms by (subst unat_add_lem [THEN iffD1]) simp_all
  then have u: "unat ((n + 7) AND NOT (mask 3)) = ?r" by (subst unat_and_not_mask) simp_all
  have "unat ((n + 7) AND NOT (mask 3)) < 2 ^ 64" using unsigned_less [of "(n + 7) AND NOT (mask 3)"] by simp
  then have lt: "?r < 2 ^ 64" unfolding u .
  have a: "(n + 7) AND NOT (mask 3) = ad ?r" using u lt by (simp only: word_unat_eq_iff unat_ad)
  have "align_up n 8 = Some (ad ?r)" using a by (simp add: align_up_def tlsf_assert_def mask_eq_exp_minus_1)
  moreover have "ad ?r < block_size_max \<longleftrightarrow> ?r < 2 ^ 32" using lt by (simp add: word_less_nat_alt block_size_max_def)
  moreover have "24 < ad ?r \<longleftrightarrow> 24 < ?r" using lt by (simp add: word_less_nat_alt)
  moreover have "unat n \<noteq> 0" using False by (simp add: unat_eq_zero)
  ultimately show ?thesis using False by (simp add: adjust_request_size_def request_def Let_def max_def ad_def)
qed

lemma block_locate_free_heap:
  assumes h: "heap_with c lo hi h A (frees A)" and n: "n \<noteq> 0" "8 dvd n" "n < 2 ^ 32"
  shows "(\<exists>x s h'. A x = Some (s, True) \<and> n \<le> s \<and> block_locate_free (ad n) h = Some (ad x, h') \<and> heap_with c lo hi h' A (frees A - {x}) \<and>
            keeps A {} (h_mem h) (h_mem h')) \<or>
         (\<forall>x \<in> frees A. \<not> class_le (mapping_search (ad n)) (cls A x)) \<and> block_locate_free (ad n) h = Some (0, h)"
proof -
  note d = heap_withD [OF h]
  obtain fl sl where ms: "mapping_search (ad n) = (fl, sl)" by force
  have nz: "ad n \<noteq> 0" using n by simp
  have ade: "n \<le> class_min fl sl" "sl < 32" using mapping_search_adequate [OF ms] n by (simp_all add: dvd_imp_mod_0)
  show ?thesis
  proof (cases "fl < 25")
    case False
    have "\<not> class_le (fl, sl) (cls A x)" if xf: "x \<in> frees A" for x
    proof -
      obtain s where "A x = Some (s, True)" using xf by (auto simp: frees_def)
      then show ?thesis using cls_range(1) [OF d(1)] False by (fastforce simp: class_le_def)
    qed
    then show ?thesis using False ms nz by (simp add: block_locate_free_def FL_INDEX_COUNT_def)
  next
    case True
    from search_suitable_block_correct [OF d(3) True ade(2)] show ?thesis
    proof (elim disjE bexE conjE)
      fix x assume x: "x \<in> frees A" "class_le (fl, sl) (cls A x)" "search_suitable_block h fl sl = Some (ad x, cls A x)"
      obtain s where s: "A x = Some (s, True)" using x(1) by (auto simp: frees_def)
      note b = geo_block [OF d(1) s]
      obtain i j where ij: "cls A x = (i, j)" by force
      then have m: "mapping_insert (ad s) = (i, j)" using s by (simp add: cls_def)
      have "n \<le> class_min fl sl" by (rule ade)
      also have "\<dots> \<le> class_min i j" using class_min_mono [OF ade(2)] x(2) ij by simp
      also have "\<dots> \<le> s" using mapping_insert_spec(2) [OF m] b(8) by simp
      finally have ns: "n \<le> s" .
      obtain h' where h': "remove_free_block (ad x) i j h = Some h'" "heap_with c lo hi h' A (frees A - {x})" "keeps A {} (h_mem h) (h_mem h')"
        using remove_heap [OF h x(1)] ij by auto
      have "ad x \<noteq> 0" using b(9,12) d(8) by simp
      moreover have "ad n \<le> ad s" using ns b(8) n(3) by (simp add: ad_le)
      ultimately have "block_locate_free (ad n) h = Some (ad x, h')"
        using True ms nz x(3) ij h'(1) phys_block(1) [OF d(1,2) s] by (simp add: block_locate_free_def FL_INDEX_COUNT_def tlsf_assert_def)
      then show ?thesis using s ns h' by blast
    next
      assume "\<forall>x \<in> frees A. \<not> class_le (fl, sl) (cls A x)" "search_suitable_block h fl sl = Some (0, fl, sl)"
      then show ?thesis using True ms nz by (simp add: block_locate_free_def FL_INDEX_COUNT_def)
    qed
  qed
qed

text \<open>The layout after \<open>n\<close> bytes are taken from the free block \<open>x\<close> of size \<open>s\<close>.\<close>

definition take_block :: "layout \<Rightarrow> nat \<Rightarrow> nat \<Rightarrow> nat \<Rightarrow> layout" where
  "take_block A x s n = (if n + 32 \<le> s then A(x := Some (n, False), x + n + 8 := Some (s - n - 8, True)) else A(x := Some (s, False)))"

lemma coalD: "coal A \<Longrightarrow> A x = Some (s, True) \<Longrightarrow> y = x + s + 8 \<Longrightarrow> A y = Some (t, k) \<Longrightarrow> \<not> k"
  unfolding coal_def by (cases k) auto

lemma take_block_coal:
  assumes g: "geo c lo hi A" and co: "coal A" and x: "A x = Some (s, True)" and n: "24 \<le> n" "8 dvd n"
  shows "coal (take_block A x s n)"
proof (cases "n + 32 \<le> s")
  case True
  let ?B = "A(x := Some (n, False), x + n + 8 := Some (s - n - 8, True))"
  note g' = geo_split [OF g x n True refl]
  have e: "x + n + 8 + (s - n - 8) + 8 = x + s + 8" using True by simp
  have xr: "?B x = Some (n, False)" "?B (x + n + 8) = Some (s - n - 8, True)" by simp_all
  have "?B (y + u + 8) \<noteq> Some (t, True)" if y: "?B y = Some (u, True)" for y u t
  proof (cases "y = x + n + 8")
    case True
    then have "y + u + 8 = x + s + 8" using y e by auto
    moreover have "A (x + s + 8) \<noteq> Some (t, True)" using co x unfolding coal_def by blast
    ultimately show ?thesis using n \<open>n + 32 \<le> s\<close> by auto
  next
    case False
    then have y': "A y = Some (u, True)" "y \<noteq> x" using y by (auto split: if_splits)
    have "y + u + 8 \<noteq> x + n + 8" using next_inj [OF g'(1) [of False True] y xr(1)] y'(2) by auto
    then show ?thesis using co y' unfolding coal_def by (auto split: if_splits)
  qed
  then have "coal ?B" unfolding coal_def by blast
  then show ?thesis using True by (simp add: take_block_def)
next
  case False
  have "coal (A(x := Some (s, False)))" using co unfolding coal_def by (auto split: if_splits)
  then show ?thesis using False by (simp add: take_block_def)
qed

lemma tlsf_malloc_heap:
  assumes ok: "heap_ok c lo hi h A" and n: "unat n \<le> 2 ^ 64 - 8"
  shows "(\<exists>x s h'. A x = Some (s, True) \<and> request (unat n) \<noteq> 0 \<and> request (unat n) \<le> s \<and> tlsf_malloc n h = Some (ad (x + 16), h') \<and>
            heap_ok c lo hi h' (take_block A x s (request (unat n))) \<and> keeps A {} (h_mem h) (h_mem h')) \<or>
         (request (unat n) = 0 \<or> (\<forall>x \<in> frees A. \<not> class_le (mapping_search (ad (request (unat n)))) (cls A x))) \<and> tlsf_malloc n h = Some (0, h)"
proof -
  let ?n = "request (unat n)"
  note r = request_spec [of "unat n"]
  have hw: "heap_with c lo hi h A (frees A)" and co: "coal A" using ok by (auto simp: heap_ok_def)
  note d = heap_withD [OF hw]
  note adj = adjust_request_size_spec [OF n]
  show ?thesis
  proof (cases "?n = 0")
    case True
    then show ?thesis using adj by (simp add: tlsf_malloc_def block_locate_free_def block_prepare_used_def ad_def)
  next
    case False
    then have n24: "24 \<le> ?n" using r by blast
    from block_locate_free_heap [OF hw False r(1,2)] show ?thesis
    proof (elim disjE exE conjE)
      fix x s h1 assume x: "A x = Some (s, True)" "?n \<le> s" "block_locate_free (ad ?n) h = Some (ad x, h1)"
        "heap_with c lo hi h1 A (frees A - {x})" "keeps A {} (h_mem h) (h_mem h1)"
      note b = geo_block [OF d(1) x(1)]
      have xz: "ad x \<noteq> 0" "x \<noteq> hi" "ad ?n \<noteq> 0" using b(9,10,12) d(8) n24 r(2) by simp_all
      let ?B = "take_block A x s ?n"
      have "\<exists>h'. block_prepare_used (ad x) (ad ?n) h1 = Some (ad (x + 16), h') \<and> heap_with c lo hi h' ?B (frees ?B) \<and> keeps A {} (h_mem h1) (h_mem h')"
      proof (cases "?n + 32 \<le> s")
        case True
        let ?A1 = "A(x := Some (?n, True), x + ?n + 8 := Some (s - ?n - 8, True))"
        note g' = geo_split [OF d(1) x(1) n24 r(1) True refl]
        obtain h2 where h2: "block_trim_free (ad x) (ad ?n) h1 = Some h2" "heap_with c lo hi h2 ?A1 (insert (x + ?n + 8) (frees A - {x}))"
          "keeps A {} (h_mem h1) (h_mem h2)" using split_heap [OF x(4,1) _ n24 r(1) True refl] by auto
        obtain h' where h': "block_mark_as_used (ad x) h2 = Some h'"
          "heap_with c lo hi h' (?A1(x := Some (?n, False))) (insert (x + ?n + 8) (frees A - {x}))" "keeps ?A1 {x} (h_mem h2) (h_mem h')"
          using mark_used_heap [OF h2(2), of x ?n True] xz(2) by auto
        have B: "?A1(x := Some (?n, False)) = ?B" using True by (auto simp: take_block_def)
        moreover have "frees ?B = insert (x + ?n + 8) (frees A - {x})" using True g'(2) by (auto simp: take_block_def frees_def)
        moreover have "keeps A {} (h_mem h1) (h_mem h')"
        proof (rule keeps_trans [OF h2(3)])
          show "keeps ?A1 {} (h_mem h2) (h_mem h')" by (rule keeps_unused [OF h'(3)]) (simp add: used_def)
          show "used ?A1 y = Some t" if "used A y = Some t" for y t using that x(1) g'(2) by (auto simp: used_Some)
        qed
        ultimately show ?thesis using h2 h' xz by (simp add: block_prepare_used_def tlsf_assert_def block_to_ptr_def)
      next
        case False
        have "block_trim_free (ad x) (ad ?n) h1 = Some h1"
        proof -
          note d1 = heap_withD [OF x(4)]
          have "\<not> block_can_split h1 (ad x) (ad ?n)"
            using False b(8) r(2) ad_le [of "?n + 32" s] by (simp add: block_can_split_def phys_block(1) [OF d1(1,2) x(1)] add.commute [of 32])
          then show ?thesis using phys_block(2) [OF d1(1,2) x(1)] by (simp add: block_trim_free_def tlsf_assert_def)
        qed
        moreover obtain h' where h': "block_mark_as_used (ad x) h1 = Some h'" "heap_with c lo hi h' (A(x := Some (s, False))) (frees A - {x})"
          "keeps A {x} (h_mem h1) (h_mem h')" using mark_used_heap [OF x(4,1) _ xz(2)] by auto
        moreover have "frees ?B = frees A - {x}" "?B = A(x := Some (s, False))" using False by (auto simp: take_block_def frees_def)
        moreover have "keeps A {} (h_mem h1) (h_mem h')" by (rule keeps_unused [OF h'(3)]) (simp add: used_def x(1))
        ultimately show ?thesis using xz by (simp add: block_prepare_used_def tlsf_assert_def block_to_ptr_def)
      qed
      then obtain h' where h': "block_prepare_used (ad x) (ad ?n) h1 = Some (ad (x + 16), h')" "heap_with c lo hi h' ?B (frees ?B)"
        "keeps A {} (h_mem h1) (h_mem h')" by blast
      have "tlsf_malloc n h = Some (ad (x + 16), h')" using adj x(3) h'(1) by (simp add: tlsf_malloc_def)
      moreover have "heap_ok c lo hi h' ?B" using h'(2) take_block_coal [OF d(1) co x(1) n24 r(1)] by (simp add: heap_ok_def)
      moreover have "keeps A {} (h_mem h) (h_mem h')" using keeps_trans [OF x(5) h'(3)] by blast
      ultimately show ?thesis using x(1,2) False by blast
    next
      assume "\<forall>x \<in> frees A. \<not> class_le (mapping_search (ad ?n)) (cls A x)" "block_locate_free (ad ?n) h = Some (0, h)"
      then show ?thesis using adj by (simp add: tlsf_malloc_def block_prepare_used_def)
    qed
  qed
qed

section \<open>Release\<close>

lemma absorb_layout:
  assumes "geo c lo hi A" "A p = Some (sp, True)" "A b = Some (sb, True)" "b = p + sp + 8"
  defines "B \<equiv> A(p := Some (sp + sb + 8, True), b := None)"
  shows "used B = used A" "frees B = frees A - {b}" "B p = Some (sp + sb + 8, True)" "p + (sp + sb + 8) + 8 = b + sb + 8"
    "B y = Some (t, True) \<Longrightarrow> y \<noteq> p \<Longrightarrow> A y = Some (t, True) \<and> y \<noteq> b"
    "B z = Some (t, True) \<Longrightarrow> (\<exists>u. A z = Some (u, True)) \<and> z \<noteq> b"
  using assms(2-4) by (auto simp: B_def used_def frees_def fun_eq_iff split: if_splits)

lemma merge_prev_heap:
  assumes h: "heap_with c lo hi h A (frees A - {x})" and x: "A x = Some (s, True)"
    and co: "\<And>y u t. A y = Some (u, True) \<Longrightarrow> A (y + u + 8) = Some (t, True) \<Longrightarrow> y = x \<or> y + u + 8 = x"
  shows "\<exists>p sp h' B. block_merge_prev (ad x) h = Some (ad p, h') \<and> heap_with c lo hi h' B (frees B - {p}) \<and> B p = Some (sp, True) \<and> used B = used A \<and>
    keeps A {} (h_mem h) (h_mem h') \<and> (\<forall>y u t. B y = Some (u, True) \<longrightarrow> B (y + u + 8) = Some (t, True) \<longrightarrow> y = p)"
proof -
  note d = heap_withD [OF h] note pb = phys_block [OF d(1,2) x]
  show ?thesis
  proof (cases "pf A x")
    case False
    then have "y = x" if "A y = Some (u, True)" "A (y + u + 8) = Some (t, True)" for y u t using co [OF that] that unfolding pf_def by metis
    then show ?thesis using h x pb(3) False by (intro exI [of _ x] exI [of _ s] exI [of _ h] exI [of _ A]) (auto simp: block_merge_prev_def)
  next
    case True
    then obtain p sp where p: "A p = Some (sp, True)" "x = p + sp + 8" unfolding pf_def by blast
    note gp = geo_block [OF d(1) p(1)]
    have px: "p \<in> frees A - {x}" "p \<noteq> x" using p by (auto simp: frees_def)
    have prev: "block_prev h (ad x) = Some (ad p)"
      using pb(3) True phys_word(2) [OF d(2) p(1)] p(2) by (simp add: block_prev_def tlsf_assert_def)
    have pz: "ad p \<noteq> 0" using gp(9,12) d(8) by simp
    obtain h1 where h1: "block_remove (ad p) h = Some h1" "heap_with c lo hi h1 A (frees A - {x} - {p})" "keeps A {} (h_mem h) (h_mem h1)"
      using block_remove_heap [OF h px(1)] by blast
    let ?B = "A(p := Some (sp + s + 8, True), x := None)"
    obtain h2 where h2: "block_absorb (ad p) (ad x) h1 = Some h2" "heap_with c lo hi h2 ?B (frees A - {x} - {p})" "keeps A {} (h_mem h1) (h_mem h2)"
      using absorb_heap [OF h1(2) p(1) x p(2)] by blast
    note B = absorb_layout [OF d(1) p(1) x p(2)]
    have "block_merge_prev (ad x) h = Some (ad p, h2)"
      using pb(3) True prev pz h1(1) h2(1) phys_block(2) [OF d(1,2) p(1)] by (simp add: block_merge_prev_def tlsf_assert_def)
    moreover have "keeps A {} (h_mem h) (h_mem h2)" using keeps_trans [OF h1(3) h2(3)] by blast
    moreover have "y = p" if y: "?B y = Some (u, True)" "?B (y + u + 8) = Some (t, True)" for y u t
    proof (rule ccontr)
      assume ne: "y \<noteq> p"
      have A: "A y = Some (u, True)" "y \<noteq> x" "y + u + 8 \<noteq> x" using B(5) [OF y(1) ne] B(6) [OF y(2)] by auto
      obtain v where "A (y + u + 8) = Some (v, True)" using B(6) [OF y(2)] by blast
      from co [OF A(1) this] A show False by blast
    qed
    ultimately show ?thesis using h2(2) B(1-3) by metis
  qed
qed

lemma merge_next_heap:
  assumes h: "heap_with c lo hi h A (frees A - {x})" and x: "A x = Some (s, True)"
    and co: "\<And>y u t. A y = Some (u, True) \<Longrightarrow> A (y + u + 8) = Some (t, True) \<Longrightarrow> y = x"
  shows "\<exists>s' h' B. block_merge_next (ad x) h = Some h' \<and> heap_with c lo hi h' B (frees B - {x}) \<and> B x = Some (s', True) \<and> used B = used A \<and>
    keeps A {} (h_mem h) (h_mem h') \<and> coal B"
proof -
  note d = heap_withD [OF h] note pb = phys_block [OF d(1,2) x]
  have xh: "x \<noteq> hi" using geo_block(10) [OF d(1) x] by simp
  obtain t k where n: "A (x + s + 8) = Some (t, k)" using geo_block(6) [OF d(1) x xh] by auto
  note gn = geo_block [OF d(1) n] and nx = pb(5) [OF xh]
  have nz: "ad (x + s + 8) \<noteq> 0" using gn(9) by simp
  note fr = phys_block(2) [OF d(1,2) n]
  show ?thesis
  proof (cases k)
    case False
    have "coal A" unfolding coal_def
    proof (intro allI impI notI)
      fix y u v assume y: "A y = Some (u, True)" "A (y + u + 8) = Some (v, True)"
      from co [OF y] y x n False show False by auto
    qed
    then show ?thesis using h x nx nz fr False by (intro exI [of _ s] exI [of _ h] exI [of _ A]) (simp add: block_merge_next_def tlsf_assert_def)
  next
    case True
    let ?b = "x + s + 8"
    have n': "A ?b = Some (t, True)" using n True by simp
    have bD: "?b \<in> frees A - {x}" using n' by (auto simp: frees_def)
    obtain h1 where h1: "block_remove (ad ?b) h = Some h1" "heap_with c lo hi h1 A (frees A - {x} - {?b})" "keeps A {} (h_mem h) (h_mem h1)"
      using block_remove_heap [OF h bD] by blast
    let ?B = "A(x := Some (s + t + 8, True), ?b := None)"
    obtain h2 where h2: "block_absorb (ad x) (ad ?b) h1 = Some h2" "heap_with c lo hi h2 ?B (frees A - {x} - {?b})" "keeps A {} (h_mem h1) (h_mem h2)"
      using absorb_heap [OF h1(2) x n' refl] by blast
    note B = absorb_layout [OF d(1) x n' refl]
    have "block_merge_next (ad x) h = Some h2"
      using nx nz fr True h1(1) h2(1) pb(4) xh by (simp add: block_merge_next_def tlsf_assert_def)
    moreover have "keeps A {} (h_mem h) (h_mem h2)" using keeps_trans [OF h1(3) h2(3)] by blast
    moreover have "coal ?B" unfolding coal_def
    proof (intro allI impI notI)
      fix y u v assume y: "?B y = Some (u, True)" "?B (y + u + 8) = Some (v, True)"
      obtain w where w: "A (y + u + 8) = Some (w, True)" "y + u + 8 \<noteq> ?b" using B(6) [OF y(2)] by blast
      show False
      proof (cases "y = x")
        case True
        then have "y + u + 8 = ?b + t + 8" using y(1) B(4) by simp
        then have "?b = x" using co [OF n', of w] w(1) by simp
        then show False by simp
      next
        case False
        from co [OF _ w(1)] B(5) [OF y(1) False] show False using False by blast
      qed
    qed
    moreover have "frees ?B - {x} = frees A - {x} - {?b}" using B(2) by blast
    ultimately show ?thesis using h2(2) B(1,3) by metis
  qed
qed

lemma tlsf_free_heap:
  assumes ok: "heap_ok c lo hi h A" and x: "used A x = Some s"
  shows "\<exists>h' B. tlsf_free (ad (x + 16)) h = Some h' \<and> heap_ok c lo hi h' B \<and> used B = (used A)(x := None) \<and> keeps A {x} (h_mem h) (h_mem h')"
proof -
  have hw: "heap_with c lo hi h A (frees A)" and co: "coal A" using ok by (auto simp: heap_ok_def)
  note d = heap_withD [OF hw]
  have Ax: "A x = Some (s, False)" "s \<noteq> 0" using x by (simp_all add: used_Some)
  have xh: "x \<noteq> hi" "x \<notin> frees A" using geo_block(11) [OF d(1) Ax(1)] Ax by (auto simp: frees_def)
  note b = geo_block [OF d(1) Ax(1)]
  let ?A = "A(x := Some (s, True))"
  obtain h1 where h1: "block_mark_as_free (ad x) h = Some h1" "heap_with c lo hi h1 ?A (frees A)" "keeps A {x} (h_mem h) (h_mem h1)"
    using mark_free_heap [OF hw Ax(1) xh(2,1)] by blast
  have fA: "frees ?A - {x} = frees A" using xh(2) by (auto simp: frees_def)
  have co1: "y = x \<or> y + u + 8 = x" if "?A y = Some (u, True)" "?A (y + u + 8) = Some (t, True)" for y u t
    using that co unfolding coal_def by (auto split: if_splits)
  obtain p sp h2 B where h2: "block_merge_prev (ad x) h1 = Some (ad p, h2)" "heap_with c lo hi h2 B (frees B - {p})" "B p = Some (sp, True)"
    "used B = used ?A" "keeps ?A {} (h_mem h1) (h_mem h2)" "\<forall>y u t. B y = Some (u, True) \<longrightarrow> B (y + u + 8) = Some (t, True) \<longrightarrow> y = p"
    using merge_prev_heap [of c lo hi h1 ?A x s] h1(2) fA co1 by auto
  obtain sp' h3 C where h3: "block_merge_next (ad p) h2 = Some h3" "heap_with c lo hi h3 C (frees C - {p})" "C p = Some (sp', True)" "used C = used B"
    "keeps B {} (h_mem h2) (h_mem h3)" "coal C" using merge_next_heap [OF h2(2,3)] h2(6) by blast
  obtain h4 where h4: "block_insert (ad p) h3 = Some h4" "heap_with c lo hi h4 C (insert p (frees C - {p}))" "keeps C {} (h_mem h3) (h_mem h4)"
    using block_insert_heap [OF h3(2,3)] by blast
  have "insert p (frees C - {p}) = frees C" using h3(3) by (auto simp: frees_def)
  then have "heap_ok c lo hi h4 C" using h4(2) h3(6) by (simp add: heap_ok_def)
  moreover have uA: "used ?A = (used A)(x := None)" by (auto simp: used_def fun_eq_iff)
  moreover have "tlsf_free (ad (x + 16)) h = Some h4"
  proof -
    have "block_from_ptr (ad (x + 16)) = ad x" by (simp add: block_from_ptr_def flip: ad_plus)
    moreover have "ad (x + 16) \<noteq> 0" using b(9) by simp
    ultimately show ?thesis using phys_block(2) [OF d(1,2) Ax(1)] h1(1) h2(1) h3(1) h4(1) by (simp add: tlsf_free_def tlsf_assert_def)
  qed
  moreover have "keeps A {x} (h_mem h) (h_mem h4)"
  proof -
    have w: "keeps D {} m m' \<Longrightarrow> keeps D {x} m m'" for D m m' by (simp add: keeps_def)
    have u: "used B y = used A y" "used C y = used A y" "used ?A y = used A y" if "y \<notin> {x}" for y using that uA h2(4) h3(4) by auto
    show ?thesis using keeps_trans [OF keeps_trans [OF keeps_trans [OF h1(3) w [OF h2(5)]] w [OF h3(5)]] w [OF h4(3)]] u by simp
  qed
  ultimately show ?thesis using h3(4) h2(4) by auto
qed

section \<open>Creation\<close>

definition new_layout :: "nat \<Rightarrow> nat \<Rightarrow> layout" where
  "new_layout lo s = [lo \<mapsto> (s, True), lo + s + 8 \<mapsto> (0, False)]"

lemma new_layout_Some: "new_layout lo s x = Some (u, f) \<longleftrightarrow> x = lo \<and> u = s \<and> f \<or> x = lo + s + 8 \<and> u = 0 \<and> \<not> f"
  by (auto simp: new_layout_def)

lemma new_layout_ok:
  assumes "0 < c" "c + 32 \<le> lo" "8 dvd lo" "8 dvd s" "24 \<le> s" "s < 2 ^ 32" "lo + s + 24 < 2 ^ 63"
  shows "geo c lo (lo + s + 8) (new_layout lo s)" "coal (new_layout lo s)" "frees (new_layout lo s) = {lo}" "used (new_layout lo s) = Map.empty"
    "\<not> pf (new_layout lo s) lo"
proof -
  note A = new_layout_Some
  have "s \<le> 2 ^ 32 - 8" using assms(4,6) by auto
  then show "geo c lo (lo + s + 8) (new_layout lo s)" unfolding geo_def A using assms by (auto simp: new_layout_def)
  show "coal (new_layout lo s)" unfolding coal_def A by auto
  show "frees (new_layout lo s) = {lo}" unfolding frees_def A by auto
  show "used (new_layout lo s) = Map.empty" by (rule ext) (simp add: used_def new_layout_def)
  show "\<not> pf (new_layout lo s) lo" unfolding pf_def A by auto
qed

lemma control_construct_lists: "flists c (control_construct (ad c) m) {} cl"
  unfolding flists_def control_construct_def by (auto simp: FL_INDEX_COUNT_def SL_INDEX_COUNT_def intro!: exI [of _ "[]"])

lemma align_down_spec: "align_down n 8 = Some (ad (unat n div 8 * 8))"
proof -
  have "unat (n AND mask 3) = unat n mod 8" by (simp add: unat_and_mask)
  then have "unat (n - (n AND mask 3)) = unat n - unat n mod 8" by (subst unat_sub) (simp_all add: word_le_nat_alt)
  also have "\<dots> = unat n div 8 * 8" by (simp add: minus_mod_eq_div_mult)
  finally have "unat (n - (n AND mask 3)) = unat n div 8 * 8" .
  moreover have "unat n < 2 ^ 64" using unsigned_less [of n] by simp
  then have "unat n div 8 * 8 < 2 ^ 64" using div_times_less_eq_dividend [of "unat n" 8] by linarith
  ultimately have "n - (n AND mask 3) = ad (unat n div 8 * 8)" by (simp only: word_unat_eq_iff unat_ad)
  then show ?thesis by (simp add: align_down_def tlsf_assert_def mask_eq_exp_minus_1)
qed

text \<open>Adding the first pool, of \<open>s\<close> usable bytes, with its first block at \<open>lo\<close>.\<close>

lemma tlsf_add_pool_heap:
  assumes F: "flists c h {} (cls (new_layout lo s))" and s: "s = unat (bytes - 16) div 8 * 8"
    and ok: "0 < c" "c + 32 \<le> lo" "8 dvd lo" "24 \<le> s" "s < 2 ^ 32" "lo + s + 24 < 2 ^ 63"
  shows "\<exists>h'. tlsf_add_pool (ad (lo + 8)) bytes h = Some (ad (lo + 8), h') \<and> heap_ok c lo (lo + s + 8) h' (new_layout lo s)"
proof -
  let ?A = "new_layout lo s" and ?hi = "lo + s + 8"
  have s8: "8 dvd s" using s by simp
  note A = new_layout_ok [OF ok(1-3) s8 ok(4-6)]
  note g = A(1)
  obtain f0 p0 where w0: "block_set_size (ad lo) (ad s) h = wr (ad (lo + 8)) (szw s f0 p0) h" using block_set_size_word [OF s8] by blast
  let ?h1 = "wr (ad (lo + 8)) (szw s True False) (wr (ad (lo + 8)) (szw s True p0) (wr (ad (lo + 8)) (szw s f0 p0) h))"
  have h1: "block_set_prev_used (ad lo) (block_set_free (ad lo) (block_set_size (ad lo) (ad s) h)) = ?h1"
    unfolding w0 by (simp add: block_set_eqs(2) [of _ lo s f0 p0] block_set_eqs(3) [of _ lo s True p0] s8 h_mem_wr)
  have w1: "h_mem ?h1 (ad (lo + 8)) = szw s True False" by (simp add: h_mem_wr)
  have F1: "flists c ?h1 {} (cls ?A)" by (rule flists_frame [OF F]) (simp_all add: wr_def)
  have Alo: "?A lo = Some (s, True)" by (simp add: new_layout_def)
  have sp: "spaced (insert c {lo})" "c \<notin> {lo}" "0 \<notin> {lo}" "0 < c" using geo_spaced [OF g, of "{lo}"] Alo ok(4) by auto
  obtain i j where ij: "cls ?A lo = (i, j)" "i < 25" "j < 32" using cls_range [OF g Alo] by (metis prod.collapse)
  obtain h2 where h2: "insert_free_block (ad lo) i j ?h1 = Some h2" "flists c h2 {lo} (cls ?A)" "\<forall>a. a \<notin> links c {lo} \<longrightarrow> h_mem h2 a = h_mem ?h1 a"
    using insert_free_block_correct [OF F1 _ ij ok(3) sp(1,2,4,3)] by auto
  have "block_size ?h1 (ad lo) = ad s" using block_next_word(2) [OF w1 s8] ok by simp
  then have ins: "block_insert (ad lo) ?h1 = Some h2" using h2(1) ij(1) by (simp add: block_insert_def cls_def Alo)
  have "ad (lo + 8) \<notin> links c {lo}" using ok by (auto simp: links_def)
  then have w2: "h_mem h2 (ad (lo + 8)) = szw s True False" using h2(3) w1 by simp
  have nx: "block_next h2 (ad lo) = Some (ad ?hi)" using block_next_word(1) [OF w2 s8] ok by simp
  let ?h3 = "wr (ad ?hi) (ad lo) h2"
  obtain f1 p1 where w3: "block_set_size (ad ?hi) (ad 0) ?h3 = wr (ad (?hi + 8)) (szw 0 f1 p1) ?h3" using block_set_size_word [OF dvd_0_right, of ?hi] by blast
  let ?h6 = "wr (ad (?hi + 8)) (szw 0 False True) (wr (ad (?hi + 8)) (szw 0 False p1) (wr (ad (?hi + 8)) (szw 0 f1 p1) ?h3))"
  have h6: "block_set_prev_free (ad ?hi) (block_set_used (ad ?hi) (block_set_size (ad ?hi) (ad 0) ?h3)) = ?h6"
    unfolding w3 by (simp add: block_set_eqs(1) [of _ ?hi 0 f1 p1] block_set_eqs(4) [of _ ?hi 0 False p1] h_mem_wr)
  have m6: "h_mem ?h6 = (h_mem h2)(ad ?hi := ad lo, ad (?hi + 8) := szw 0 False True)" by (simp add: h_mem_wr)
  have "phys (h_mem ?h6) ?A" unfolding phys_def m6 new_layout_Some using w2 A(5) pf_prev_unique [OF g Alo] ok by auto
  moreover have "flists c ?h6 {lo} (cls ?A)" by (rule flists_frame [OF h2(2)]) (use ok in \<open>auto simp: m6 wr_def\<close>)
  ultimately have "heap_ok c lo ?hi ?h6 ?A" unfolding heap_ok_def heap_with_def using A by simp
  moreover have "tlsf_add_pool (ad (lo + 8)) bytes h = Some (ad (lo + 8), ?h6)"
  proof -
    have "align_down (bytes - tlsf_pool_overhead) 8 = Some (ad s)" by (simp add: align_down_spec tlsf_pool_overhead_def s)
    moreover have "ad (lo + 8) AND 7 = 0"
    proof -
      have "unat (ad (lo + 8) AND mask 3) = (lo + 8) mod 8" using ok by (simp add: unat_and_mask)
      also have "\<dots> = 0" using ok(3) by auto
      finally show ?thesis by (simp add: mask_eq_exp_minus_1 unat_eq_zero)
    qed
    moreover have "\<not> ad s < 24" "\<not> block_size_max < ad s" using ok by (simp_all add: word_less_nat_alt block_size_max_def)
    moreover have "offset_to_block (ad (lo + 8)) (- 8) = ad lo" by (simp add: offset_to_block_def flip: ad_plus)
    ultimately show ?thesis using h1 ins nx h6 by (simp add: tlsf_add_pool_def Let_def block_link_next_def ad_def [of 0])
  qed
  ultimately show ?thesis by blast
qed

lemma tlsf_create_with_pool_heap:
  assumes "0 < c" "8 dvd c" "c + unat bytes + 64 < 2 ^ 63" "6576 \<le> unat bytes" "unat bytes < 2 ^ 32"
  shows "\<exists>h s. tlsf_create_with_pool (ad c) bytes m = Some h \<and> 24 \<le> s \<and> s + 6552 \<le> unat bytes \<and> unat bytes < s + 6560 \<and>
    heap_ok c (c + 6528) (c + 6536 + s) h (new_layout (c + 6528) s)"
proof -
  let ?b = "bytes - tlsf_size" and ?lo = "c + 6528"
  define s where "s = unat (?b - 16) div 8 * 8"
  have "unat (?b - 16) = unat bytes - 6552"
  proof -
    have e: "?b - 16 = bytes - 6552" by (simp add: tlsf_size_def)
    show ?thesis unfolding e using assms(4) by (subst unat_sub) (simp_all add: word_le_nat_alt)
  qed
  then have s: "s \<le> unat bytes - 6552" "unat bytes - 6552 < s + 8" "24 \<le> s" using assms(4) unfolding s_def by auto
  have al: "ad c AND 7 = 0"
  proof -
    have "unat (ad c AND mask 3) = c mod 8" using assms(3) by (simp add: unat_and_mask)
    also have "\<dots> = 0" using assms(2) by auto
    finally show ?thesis by (simp add: mask_eq_exp_minus_1 unat_eq_zero)
  qed
  have lo: "c + 32 \<le> ?lo" "8 dvd ?lo" using assms(2) by simp_all
  have lim: "s < 2 ^ 32" "?lo + s + 24 < 2 ^ 63" using s assms(3-5) by linarith+
  obtain h' where "tlsf_add_pool (ad (?lo + 8)) ?b (control_construct (ad c) m) = Some (ad (?lo + 8), h')" "heap_ok c ?lo (?lo + s + 8) h' (new_layout ?lo s)"
    using tlsf_add_pool_heap [OF control_construct_lists s_def assms(1) lo s(3) lim] by blast
  moreover have "ad c + tlsf_size = ad (?lo + 8)" by (simp add: tlsf_size_def add.commute)
  moreover have "?lo + s + 8 = c + 6536 + s" by simp
  ultimately have "tlsf_create_with_pool (ad c) bytes m = Some h' \<and> heap_ok c ?lo (c + 6536 + s) h' (new_layout ?lo s)"
    using al by (simp add: tlsf_create_with_pool_def tlsf_create_def)
  moreover have "s + 6552 \<le> unat bytes" "unat bytes < s + 6560" using s assms(4) by linarith+
  ultimately show ?thesis using s(3) by blast
qed

section \<open>Writes of clients\<close>

lemma client_write_heap:
  assumes "heap_ok c lo hi h A" "used A x = Some s" "x + 16 \<le> n" "n < x + s + 16"
  shows "heap_ok c lo hi (wr (ad n) v h) A"
proof -
  have hw: "heap_with c lo hi h A (frees A)" using assms(1) by (simp add: heap_ok_def)
  note d = heap_withD [OF hw]
  have x: "A x = Some (s, False)" using assms(2) by (simp add: used_Some)
  have un: "h_mem (wr (ad n) v h) (ad k) = h_mem h (ad k)" if "A y = Some (t, g)" "y + 8 \<le> k" "k < y + t + 16" "y = x \<Longrightarrow> k = x + 8" for y t g k
  proof (cases "y = x")
    case True
    then have "ad n \<noteq> ad k" using that assms(3,4) geo_block(9) [OF d(1) x] by simp
    then show ?thesis by (simp add: h_mem_wr)
  next
    case False
    then have "ad n \<noteq> ad k" using own_apart_ad [OF d(1) x that(1) _ _ assms(4) that(2,3)] assms(3) by simp
    then show ?thesis by (simp add: h_mem_wr)
  qed
  have "phys (h_mem (wr (ad n) v h)) A" unfolding phys_def
  proof (intro allI impI)
    fix y t g assume y: "A y = Some (t, g)"
    have "h_mem (wr (ad n) v h) (ad (y + 8)) = h_mem h (ad (y + 8))" by (rule un [OF y]) auto
    moreover have "h_mem (wr (ad n) v h) (ad (y + t + 8)) = h_mem h (ad (y + t + 8))" if g by (rule un [OF y]) (use that y x in auto)
    ultimately show "h_mem (wr (ad n) v h) (ad (y + 8)) = szw t g (pf A y) \<and> (g \<longrightarrow> h_mem (wr (ad n) v h) (ad (y + t + 8)) = ad y)"
      using phys_word [OF d(2)] y by auto
  qed
  moreover have "flists c (wr (ad n) v h) (frees A) (cls A)"
  proof (rule flists_frame [OF d(3)])
    fix y assume "y \<in> frees A"
    then obtain t where y: "A y = Some (t, True)" by (auto simp: frees_def)
    have "24 \<le> t" "y \<noteq> x" using geo_block(5,10) [OF d(1) y] y x by auto
    then show "h_mem (wr (ad n) v h) (ad (y + 16)) = h_mem h (ad (y + 16)) \<and> h_mem (wr (ad n) v h) (ad (y + 24)) = h_mem h (ad (y + 24))"
      using un [OF y] by simp
  qed (simp_all add: wr_def)
  ultimately show ?thesis using assms(1) by (simp add: heap_ok_def heap_with_def)
qed

lemma used_apart:
  assumes "heap_ok c lo hi h A" "used A x = Some s" "used A y = Some t" "x \<noteq> y"
  shows "x + s + 16 \<le> y + 16 \<or> y + t + 16 \<le> x + 16"
proof -
  have g: "geo c lo hi A" using assms(1) by (auto simp: heap_ok_def heap_with_def)
  have "A x = Some (s, False)" "A y = Some (t, False)" using assms(2,3) by (simp_all add: used_Some)
  from geo_order [OF g this] geo_order [OF g this(2,1)] show ?thesis using assms(4) by (cases x y rule: linorder_cases) auto
qed

lemma used_bounds:
  assumes "heap_ok c lo hi h A" "used A x = Some s"
  shows "lo \<le> x" "x + s + 8 \<le> hi" "8 dvd x" "8 dvd s" "hi + 16 < 2 ^ 63" "24 \<le> s"
proof -
  have g: "geo c lo hi A" using assms(1) by (auto simp: heap_ok_def heap_with_def)
  have x: "A x = Some (s, False)" "s \<noteq> 0" using assms(2) by (simp_all add: used_Some)
  show "lo \<le> x" "x + s + 8 \<le> hi" "8 dvd x" "8 dvd s" "hi + 16 < 2 ^ 63" "24 \<le> s"
    using geo_block [OF g x(1)] x(2) geo_pool [OF g] by auto
qed

section \<open>No fragmentation is left behind\<close>

lemma empty_layout:
  assumes g: "geo c lo hi A" and "coal A" and u: "used A = Map.empty" and "lo \<noteq> hi"
  shows "A = new_layout lo (hi - lo - 8)"
proof -
  obtain s f where lo: "A lo = Some (s, f)" using geo_pool [OF g] by auto
  note b = geo_block [OF g lo]
  have free: "k" if "A x = Some (t, k)" "x \<noteq> hi" for x t k
    using fun_cong [OF u, of x] that geo_block(11) [OF g that(1)] by (auto simp: used_def split: if_splits)
  have "f" by (rule free [OF lo assms(4)])
  have nx: "lo + s + 8 = hi"
  proof (rule ccontr)
    assume ne: "lo + s + 8 \<noteq> hi"
    obtain t k where n: "A (lo + s + 8) = Some (t, k)" using b(6) assms(4) by auto
    then show False using coalD [OF assms(2) _ refl n] lo \<open>f\<close> free [OF n ne] by simp
  qed
  show ?thesis
  proof (rule ext)
    fix x
    show "A x = new_layout lo (hi - lo - 8) x"
    proof (cases "A x")
      case None
      then show ?thesis using lo geo_pool [OF g] nx by (auto simp: new_layout_def)
    next
      case (Some q)
      obtain t k where x: "A x = Some (t, k)" using Some by (cases q) auto
      have "x = lo \<or> x = hi" using geo_block(1,4) [OF g x] geo_order [OF g lo x] nx by (cases lo x rule: linorder_cases) auto
      then show ?thesis using x lo geo_pool [OF g] nx \<open>f\<close> by (auto simp: new_layout_def)
    qed
  qed
qed

section \<open>Properties\<close>


text \<open>
  C7. \<open>tlsf_free\<close> of a block in use: no assertion fails, the heap stays well formed with free neighbours merged, the block is
  the only change to the blocks in use, and all others keep their contents.
\<close>

theorem tlsf_free_correct:
  assumes "heap_ok c lo hi h A" "used A x = Some s"
  shows "\<exists>h' B. tlsf_free (ad (x + 16)) h = Some h' \<and> heap_ok c lo hi h' B \<and> used B = (used A)(x := None) \<and>
    keeps A {x} (h_mem h) (h_mem h')"
  by (rule tlsf_free_heap [OF assms])

lemma sample_heap: "\<exists>h s. heap_ok 0x1000 0x2980 (0x2988 + s) h (new_layout 0x2980 s) \<and> 0x4000 \<le> s"
  using tlsf_create_with_pool_heap [of "0x1000" "0x10000" "\<lambda>_. 0"] by (auto; fastforce)


theorem tlsf_free_correct_witness:
  "\<exists>h A x t s. heap_ok 0x1000 0x2980 (0x2988 + s) h A \<and> used A x = Some t \<and>
    (\<exists>h' B. tlsf_free (ad (x + 16)) h = Some h' \<and> used B x = None)"
proof -
  obtain h s where h: "heap_ok 0x1000 0x2980 (0x2988 + s) h (new_layout 0x2980 s)" "0x4000 \<le> s" using sample_heap by blast
  have n: "request 100 = 104" "ad 104 = 104" by (simp_all add: request_def ad_def)
  have "0x2980 \<in> frees (new_layout 0x2980 s)" by (simp add: frees_def new_layout_def)
  moreover have "class_le (mapping_search (ad 104)) (cls (new_layout 0x2980 s) 0x2980)"
    unfolding cls_def by (rule mapping_search_le [OF _ _ refl]) (use h used_bounds h(2) geo_block(8) [of "0x1000" "0x2980" "0x2988 + s" "new_layout 0x2980 s" "0x2980" s True] in
      \<open>auto simp: n new_layout_def heap_ok_def heap_with_def\<close>)
  ultimately obtain x t h' where x: "heap_ok 0x1000 0x2980 (0x2988 + s) h' (take_block (new_layout 0x2980 s) x t 104)" "104 \<le> t"
    using tlsf_malloc_heap [OF h(1), of 100] unfolding n(1) by (auto simp: n)
  then have "\<exists>u. used (take_block (new_layout 0x2980 s) x t 104) x = Some u" by (auto simp: take_block_def used_def)
  then obtain u where "used (take_block (new_layout 0x2980 s) x t 104) x = Some u" by blast
  from tlsf_free_correct [OF x(1) this] this x(1) show ?thesis by (metis fun_upd_same)
qed

end
