(* ===== verification/Kheap.thy ===== *)
theory Kheap
  imports Page_Alloc Tlsf_Heap
begin

text \<open>
  The kernel heap of \<^verbatim>\<open>src/core/kmalloc.c\<close>: a 16 MB area of the page pool managed by the allocator. Its contract
  towards the rest of the hypervisor is the locale \<open>heap_service\<close>; the clients' view (live blocks and the words stored
  in them) is proved once in the locale and holds for the kernel heap by interpretation.
\<close>

section \<open>Model\<close>

text \<open>The heap lock is held around each call; the report on an unexpected pointer is output only.\<close>

definition kmalloc :: "u64 \<Rightarrow> tlsf_heap \<Rightarrow> (u64 \<times> tlsf_heap) option" where
  "kmalloc n h = tlsf_malloc n h"

definition kfree :: "u64 \<Rightarrow> tlsf_heap \<Rightarrow> tlsf_heap option" where
  "kfree ptr h = (if ptr = 0 then Some h else tlsf_free ptr h)"

text \<open>\<open>m\<close> is the memory before; \<open>None\<close> also stands for the fatal errors.\<close>

definition init_kmalloc :: "bitmap \<Rightarrow> (u64 \<Rightarrow> u64) \<Rightarrow> (u64 \<times> tlsf_heap \<times> bitmap) option" where
  "init_kmalloc bm m = do {
     (g_kmalloc_heap, bm') \<leftarrow> alloc_mem_pool bm KMALLOC_HEAP_SIZE;
     if g_kmalloc_heap = 0 then None
     else do {
       h \<leftarrow> tlsf_create_with_pool g_kmalloc_heap KMALLOC_HEAP_SIZE m;
       Some (g_kmalloc_heap, h, bm') } }"

section \<open>The contract of a heap\<close>

text \<open>The word at \<open>a\<close> lies in the block of \<open>t\<close> bytes at \<open>p\<close>.\<close>

definition inside :: "u64 \<Rightarrow> nat \<Rightarrow> u64 \<Rightarrow> bool" where
  "inside p t a \<longleftrightarrow> (\<exists>k. a = p + of_nat (8 * k) \<and> 8 * k < t)"

locale heap_service =
  fixes inv :: "'h \<Rightarrow> (u64 \<Rightarrow> nat option) \<Rightarrow> bool"
    and alloc :: "u64 \<Rightarrow> 'h \<Rightarrow> (u64 \<times> 'h) option"
    and release :: "u64 \<Rightarrow> 'h \<Rightarrow> 'h option"
    and peek :: "'h \<Rightarrow> u64 \<Rightarrow> u64"
    and poke :: "u64 \<Rightarrow> u64 \<Rightarrow> 'h \<Rightarrow> 'h"
  assumes alloc_law: "inv h U \<Longrightarrow> unat n \<le> 2 ^ 64 - 8 \<Longrightarrow>
      \<exists>p h'. alloc n h = Some (p, h') \<and> (p = 0 \<and> h' = h \<or>
        p \<noteq> 0 \<and> U p = None \<and> (\<exists>t \<ge> unat n. inv h' (U(p \<mapsto> t))) \<and> (\<forall>q t a. U q = Some t \<longrightarrow> inside q t a \<longrightarrow> peek h' a = peek h a))"
    and release_law: "inv h U \<Longrightarrow> U p = Some t \<Longrightarrow>
      \<exists>h'. release p h = Some h' \<and> inv h' (U(p := None)) \<and> (\<forall>q t a. q \<noteq> p \<longrightarrow> U q = Some t \<longrightarrow> inside q t a \<longrightarrow> peek h' a = peek h a)"
    and poke_law: "inv h U \<Longrightarrow> U p = Some t \<Longrightarrow> inside p t a \<Longrightarrow> inv (poke a v h) U"
    and peek_poke: "peek (poke a v h) b = (if b = a then v else peek h b)"
    and apart: "inv h U \<Longrightarrow> U p = Some t \<Longrightarrow> U q = Some u \<Longrightarrow> p \<noteq> q \<Longrightarrow> inside p t a \<Longrightarrow> \<not> inside q u a"

text \<open>
  Clients: a request, a release of a live block and a store into a live block; \<open>L\<close> are the live blocks with the sizes
  that were asked for, \<open>S\<close> the words that have been stored in them. A release or store outside the live blocks, and a
  request within eight bytes of the end of the address space, is not an action of a well-behaved client and is skipped.
\<close>

datatype client = Kmalloc u64 | Kfree u64 | Kstore u64 nat u64

type_synonym 'h client_state = "'h \<times> (u64 \<Rightarrow> u64 option) \<times> (u64 \<Rightarrow> u64 option)"

definition client_step :: "(u64 \<Rightarrow> 'h \<Rightarrow> (u64 \<times> 'h) option) \<Rightarrow> (u64 \<Rightarrow> 'h \<Rightarrow> 'h option) \<Rightarrow> (u64 \<Rightarrow> u64 \<Rightarrow> 'h \<Rightarrow> 'h) \<Rightarrow>
    client \<Rightarrow> 'h client_state \<Rightarrow> 'h client_state option" where
  "client_step alloc release poke act st = (case st of (h, L, S) \<Rightarrow>
     (case act of
        Kmalloc n \<Rightarrow> if unat n \<le> 2 ^ 64 - 8 then do { (p, h') \<leftarrow> alloc n h; Some (h', if p = 0 then L else L(p \<mapsto> n), S) } else Some st
      | Kfree p \<Rightarrow> (case L p of None \<Rightarrow> Some st
          | Some n \<Rightarrow> do { h' \<leftarrow> release p h; Some (h', L(p := None), \<lambda>a. if inside p (unat n) a then None else S a) })
      | Kstore p k v \<Rightarrow> (case L p of None \<Rightarrow> Some st
          | Some n \<Rightarrow> if 8 * k < unat n then Some (poke (p + of_nat (8 * k)) v h, L, S(p + of_nat (8 * k) \<mapsto> v)) else Some st)))"

primrec client_run :: "(u64 \<Rightarrow> 'h \<Rightarrow> (u64 \<times> 'h) option) \<Rightarrow> (u64 \<Rightarrow> 'h \<Rightarrow> 'h option) \<Rightarrow> (u64 \<Rightarrow> u64 \<Rightarrow> 'h \<Rightarrow> 'h) \<Rightarrow>
    client list \<Rightarrow> 'h client_state \<Rightarrow> 'h client_state option" where
  "client_run alloc release poke [] st = Some st"
| "client_run alloc release poke (act # acts) st = do { st' \<leftarrow> client_step alloc release poke act st; client_run alloc release poke acts st' }"

context heap_service
begin

definition good :: "'h client_state \<Rightarrow> (u64 \<Rightarrow> nat option) \<Rightarrow> bool" where
  "good st U \<longleftrightarrow> (case st of (h, L, S) \<Rightarrow> inv h U \<and> dom L = dom U \<and> (\<forall>p n t. L p = Some n \<longrightarrow> U p = Some t \<longrightarrow> unat n \<le> t) \<and>
     (\<forall>a v. S a = Some v \<longrightarrow> peek h a = v \<and> (\<exists>p n. L p = Some n \<and> inside p (unat n) a)))"

lemma inside_mono: "inside p t a \<Longrightarrow> t \<le> u \<Longrightarrow> inside p u a"
  unfolding inside_def using order_less_le_trans by blast

lemma good_inside:
  assumes "good (h, L, S) U" "L p = Some n" "inside p (unat n) a"
  obtains t where "U p = Some t" "inside p t a"
proof -
  have "p \<in> dom U" using assms unfolding good_def by auto
  then obtain t where "U p = Some t" by blast
  moreover have "unat n \<le> t" using assms(1,2) calculation unfolding good_def by auto
  ultimately show thesis using that inside_mono assms(3) by blast
qed

lemma step_good:
  assumes "good (h, L, S) U"
  shows "\<exists>st' U'. client_step alloc release poke act (h, L, S) = Some st' \<and> good st' U'"
proof -
  have i: "inv h U" and dm: "dom L = dom U" and sz: "\<And>p n t. L p = Some n \<Longrightarrow> U p = Some t \<Longrightarrow> unat n \<le> t"
    and st: "\<And>a v. S a = Some v \<Longrightarrow> peek h a = v \<and> (\<exists>p n. L p = Some n \<and> inside p (unat n) a)"
    using assms unfolding good_def by auto
  note same = assms
  show ?thesis
  proof (cases act)
    case (Kmalloc n)
    show ?thesis
    proof (cases "unat n \<le> 2 ^ 64 - 8")
      case True
      from alloc_law [OF i True] obtain p h' where a: "alloc n h = Some (p, h')" and
        c: "p = 0 \<and> h' = h \<or> p \<noteq> 0 \<and> U p = None \<and> (\<exists>t \<ge> unat n. inv h' (U(p \<mapsto> t))) \<and> (\<forall>q t a. U q = Some t \<longrightarrow> inside q t a \<longrightarrow> peek h' a = peek h a)"
        by blast
      from c show ?thesis
      proof (elim disjE conjE exE)
        assume "p = 0" "h' = h"
        then show ?thesis using a Kmalloc True same by (auto simp: client_step_def)
      next
        fix t assume t: "p \<noteq> 0" "U p = None" "unat n \<le> t" "inv h' (U(p \<mapsto> t))" and k: "\<forall>q t a. U q = Some t \<longrightarrow> inside q t a \<longrightarrow> peek h' a = peek h a"
        have "L p = None" using dm t(2) by blast
        have "good (h', L(p \<mapsto> n), S) (U(p \<mapsto> t))"
        proof -
          have "peek h' a = v \<and> (\<exists>q m. (L(p \<mapsto> n)) q = Some m \<and> inside q (unat m) a)" if s: "S a = Some v" for a v
          proof -
            obtain q m where q: "L q = Some m" "inside q (unat m) a" "peek h a = v" using st [OF s] by blast
            obtain u where "U q = Some u" "inside q u a" by (rule good_inside [OF assms q(1,2)])
            moreover have "q \<noteq> p" using q(1) \<open>L p = None\<close> by auto
            ultimately show ?thesis using k q by auto
          qed
          then show ?thesis unfolding good_def using t dm sz by auto
        qed
        then show ?thesis using a Kmalloc True t(1) by (auto simp: client_step_def)
      qed
    qed (use Kmalloc same in \<open>auto simp: client_step_def\<close>)
  next
    case (Kfree p)
    show ?thesis
    proof (cases "L p")
      case (Some n)
      then obtain t where t: "U p = Some t" using dm by blast
      obtain h' where h': "release p h = Some h'" "inv h' (U(p := None))" "\<forall>q t a. q \<noteq> p \<longrightarrow> U q = Some t \<longrightarrow> inside q t a \<longrightarrow> peek h' a = peek h a"
        using release_law [OF i t] by blast
      let ?S = "\<lambda>a. if inside p (unat n) a then None else S a"
      have "peek h' a = v \<and> (\<exists>q m. (L(p := None)) q = Some m \<and> inside q (unat m) a)" if s: "?S a = Some v" for a v
      proof -
        have s': "S a = Some v" "\<not> inside p (unat n) a" using s by (auto split: if_splits)
        obtain q m where q: "L q = Some m" "inside q (unat m) a" "peek h a = v" using st [OF s'(1)] by blast
        obtain u where "U q = Some u" "inside q u a" by (rule good_inside [OF assms q(1,2)])
        moreover have "q \<noteq> p" using q(1,2) s'(2) Some by auto
        ultimately show ?thesis using h'(3) q by auto
      qed
      then have "good (h', L(p := None), ?S) (U(p := None))" unfolding good_def using h'(2) dm sz by (auto split: if_splits)
      then show ?thesis using Kfree Some h'(1) by (auto simp: client_step_def)
    qed (use Kfree same in \<open>auto simp: client_step_def\<close>)
  next
    case (Kstore p k v)
    show ?thesis
    proof (cases "\<exists>n. L p = Some n \<and> 8 * k < unat n")
      case True
      then obtain n where n: "L p = Some n" "8 * k < unat n" by blast
      let ?a = "p + of_nat (8 * k)"
      have ins: "inside p (unat n) ?a" using n(2) unfolding inside_def by blast
      obtain t where t: "U p = Some t" "inside p t ?a" by (rule good_inside [OF assms n(1) ins])
      have "good (poke ?a v h, L, S(?a \<mapsto> v)) U"
        unfolding good_def using poke_law [OF i t] dm sz st n(1) ins by (auto simp: peek_poke)
      then show ?thesis using Kstore n by (auto simp: client_step_def)
    qed (use Kstore same in \<open>auto simp: client_step_def split: option.splits\<close>)
  qed
qed

lemma run_good:
  "good st U \<Longrightarrow> \<exists>st' U'. client_run alloc release poke acts st = Some st' \<and> good st' U'"
proof (induction acts arbitrary: st U)
  case (Cons act acts)
  obtain h L S where st: "st = (h, L, S)" by (cases st) auto
  obtain st1 U1 where "client_step alloc release poke act st = Some st1" "good st1 U1" using step_good [of h L S U act] Cons.prems st by blast
  then show ?case using Cons.IH by auto
qed auto

lemma run_correct:
  assumes "inv h0 Map.empty"
  shows "\<exists>h L S U. client_run alloc release poke acts (h0, Map.empty, Map.empty) = Some (h, L, S) \<and> inv h U \<and> dom L = dom U \<and>
    (\<forall>p n t. L p = Some n \<longrightarrow> U p = Some t \<longrightarrow> unat n \<le> t) \<and> (\<forall>a v. S a = Some v \<longrightarrow> peek h a = v) \<and>
    (\<forall>p q n m a. L p = Some n \<longrightarrow> L q = Some m \<longrightarrow> p \<noteq> q \<longrightarrow> inside p (unat n) a \<longrightarrow> \<not> inside q (unat m) a)"
proof -
  have "good (h0, Map.empty, Map.empty) Map.empty" using assms by (simp add: good_def)
  then obtain h L S U where r: "client_run alloc release poke acts (h0, Map.empty, Map.empty) = Some (h, L, S)" "good (h, L, S) U"
    using run_good [of _ _ acts] by (metis prod.exhaust)
  have "\<not> inside q (unat m) a" if pq: "L p = Some n" "L q = Some m" "p \<noteq> q" "inside p (unat n) a" for p q n m a
  proof
    assume iq: "inside q (unat m) a"
    obtain t where t: "U p = Some t" "inside p t a" by (rule good_inside [OF r(2) pq(1,4)])
    obtain u where u: "U q = Some u" "inside q u a" by (rule good_inside [OF r(2) pq(2) iq])
    have "inv h U" using r(2) unfolding good_def by auto
    from apart [OF this t(1) u(1) pq(3) t(2)] u(2) show False by blast
  qed
  then show ?thesis using r unfolding good_def by auto
qed

end

section \<open>The kernel heap keeps the contract\<close>

definition ptr_used :: "layout \<Rightarrow> u64 \<Rightarrow> nat option" where
  "ptr_used A p = (if unat p < 16 then None else used A (unat p - 16))"

definition pool_end :: "nat \<Rightarrow> nat \<Rightarrow> bool" where
  "pool_end c hi \<longleftrightarrow> hi + 16 \<le> c + 0x1000000 \<and> c + 0x1000000 < hi + 24"

definition kheap_inv :: "u64 \<Rightarrow> tlsf_heap \<Rightarrow> (u64 \<Rightarrow> nat option) \<Rightarrow> bool" where
  "kheap_inv g_kmalloc_heap h U \<longleftrightarrow> (\<exists>hi A. heap_ok (unat g_kmalloc_heap) (unat g_kmalloc_heap + 6528) hi h A \<and>
     pool_end (unat g_kmalloc_heap) hi \<and> U = ptr_used A)"

lemma ptr_used_Some:
  assumes "heap_ok c lo hi h A" "ptr_used A p = Some t"
  obtains x where "p = ad (x + 16)" "used A x = Some t" "x + t + 16 < 2 ^ 63"
proof -
  have x: "16 \<le> unat p" "used A (unat p - 16) = Some t" using assms(2) by (auto simp: ptr_used_def split: if_splits)
  have "p = ad (unat p - 16 + 16)" using x(1) by (simp add: ad_def)
  then show thesis using that x(2) used_bounds(2,5) [OF assms(1) x(2)] by fastforce
qed

lemma ptr_used_upd: "x + 16 < 2 ^ 64 \<Longrightarrow> used B = (used A)(x := r) \<Longrightarrow> ptr_used B = (ptr_used A)(ad (x + 16) := r)"
  by (rule ext) (auto simp: ptr_used_def word_unat_eq_iff)

lemma inside_ad: "inside (ad (x + 16)) t a \<longleftrightarrow> (\<exists>k. a = ad (x + 16 + 8 * k) \<and> 8 * k < t)"
  unfolding inside_def by (auto simp: ad_def)

lemma keeps_inside:
  assumes "heap_ok c lo hi h A" "keeps A X m m'" "ptr_used A q = Some t" "inside q t a" "\<And>x. x \<in> X \<Longrightarrow> q \<noteq> ad (x + 16)"
  shows "m' a = m a"
proof -
  obtain x where x: "q = ad (x + 16)" "used A x = Some t" by (rule ptr_used_Some [OF assms(1,3)])
  obtain k where k: "a = ad (x + 16 + 8 * k)" "8 * k < t" using assms(4) unfolding x(1) inside_ad by blast
  have "x \<notin> X" "x + 16 \<le> x + 16 + 8 * k" "x + 16 + 8 * k < x + t + 16" using assms(5) [of x] x(1) k(2) by auto
  then show ?thesis using assms(2) x(2) unfolding keeps_def k(1) by blast
qed

interpretation kh: heap_service "kheap_inv H" kmalloc kfree h_mem wr
proof
  fix h U and n :: u64 assume i: "kheap_inv H h U" and n: "unat n \<le> 2 ^ 64 - 8"
  obtain hi A where A: "heap_ok (unat H) (unat H + 6528) hi h A" "pool_end (unat H) hi" "U = ptr_used A" using i unfolding kheap_inv_def by blast
  from tlsf_malloc_heap [OF A(1) n]
  show "\<exists>p h'. kmalloc n h = Some (p, h') \<and> (p = 0 \<and> h' = h \<or>
        p \<noteq> 0 \<and> U p = None \<and> (\<exists>t \<ge> unat n. kheap_inv H h' (U(p \<mapsto> t))) \<and> (\<forall>q t a. U q = Some t \<longrightarrow> inside q t a \<longrightarrow> h_mem h' a = h_mem h a))"
  proof (elim disjE exE conjE)
    fix x s h' assume x: "A x = Some (s, True)" "request (unat n) \<noteq> 0" "request (unat n) \<le> s" "tlsf_malloc n h = Some (ad (x + 16), h')"
      "heap_ok (unat H) (unat H + 6528) hi h' (take_block A x s (request (unat n)))" "keeps A {} (h_mem h) (h_mem h')"
    let ?n = "request (unat n)"
    define t where "t = (if ?n + 32 \<le> s then ?n else s)"
    have g: "geo (unat H) (unat H + 6528) hi A" using A(1) by (auto simp: heap_ok_def heap_with_def)
    have r: "24 \<le> ?n" "unat n \<le> ?n" using request_spec(3) [OF x(2)] by auto
    have t: "unat n \<le> t" "t \<noteq> 0" using r x(3) by (auto simp: t_def)
    have xb: "x + 16 < 2 ^ 64" using geo_block(9) [OF g x(1)] by simp
    have "used (take_block A x s ?n) = (used A)(x := Some t)"
    proof (cases "?n + 32 \<le> s")
      case True
      then have "A (x + ?n + 8) = None" using geo_split(2) [OF g x(1) r(1) request_spec(1) True refl] by simp
      then show ?thesis using True t(2) by (auto simp: take_block_def used_def t_def fun_eq_iff)
    qed (use t(2) in \<open>auto simp: take_block_def used_def t_def fun_eq_iff\<close>)
    from ptr_used_upd [OF xb this] have u: "ptr_used (take_block A x s ?n) = U(ad (x + 16) \<mapsto> t)" unfolding A(3) .
    have "ad (x + 16) \<noteq> 0" "U (ad (x + 16)) = None" using xb x(1) unfolding A(3) by (simp_all add: ptr_used_def used_def)
    moreover have "kheap_inv H h' (U(ad (x + 16) \<mapsto> t))" unfolding kheap_inv_def using x(5) A(2) u by metis
    moreover have "h_mem h' a = h_mem h a" if "U q = Some u" "inside q u a" for q u a
      using keeps_inside [OF A(1) x(6)] that unfolding A(3) by simp
    ultimately show ?thesis using x(4) t(1) unfolding kmalloc_def by blast
  qed (auto simp: kmalloc_def)
next
  fix h U p t assume i: "kheap_inv H h U" and p: "U p = Some t"
  obtain hi A where A: "heap_ok (unat H) (unat H + 6528) hi h A" "pool_end (unat H) hi" "U = ptr_used A" using i unfolding kheap_inv_def by blast
  obtain x where x: "p = ad (x + 16)" "used A x = Some t" "x + t + 16 < 2 ^ 63" by (rule ptr_used_Some [OF A(1) p [unfolded A(3)]])
  obtain h' B where h': "tlsf_free (ad (x + 16)) h = Some h'" "heap_ok (unat H) (unat H + 6528) hi h' B" "used B = (used A)(x := None)"
    "keeps A {x} (h_mem h) (h_mem h')" using tlsf_free_heap [OF A(1) x(2)] by blast
  have "ptr_used B = U(p := None)" unfolding A(3) x(1) by (rule ptr_used_upd [OF _ h'(3)]) (use x(3) in simp)
  then have "kheap_inv H h' (U(p := None))" unfolding kheap_inv_def using h'(2) A(2) by metis
  moreover have "h_mem h' a = h_mem h a" if "q \<noteq> p" "U q = Some u" "inside q u a" for q u a
    using keeps_inside [OF A(1) h'(4)] that unfolding A(3) x(1) by simp
  moreover have "kfree p h = Some h'" using h'(1) x by (simp add: kfree_def)
  ultimately show "\<exists>h'. kfree p h = Some h' \<and> kheap_inv H h' (U(p := None)) \<and> (\<forall>q t a. q \<noteq> p \<longrightarrow> U q = Some t \<longrightarrow> inside q t a \<longrightarrow> h_mem h' a = h_mem h a)"
    by blast
next
  fix h U p t a v assume i: "kheap_inv H h U" and p: "U p = Some t" and a: "inside p t a"
  obtain hi A where A: "heap_ok (unat H) (unat H + 6528) hi h A" "pool_end (unat H) hi" "U = ptr_used A" using i unfolding kheap_inv_def by blast
  obtain x where x: "p = ad (x + 16)" "used A x = Some t" by (rule ptr_used_Some [OF A(1) p [unfolded A(3)]])
  obtain k where k: "a = ad (x + 16 + 8 * k)" "8 * k < t" using a unfolding x(1) inside_ad by blast
  show "kheap_inv H (wr a v h) U" unfolding kheap_inv_def using client_write_heap [OF A(1) x(2), of "x + 16 + 8 * k"] k A(2,3) by auto
next
  fix a v h b show "h_mem (wr a v h) b = (if b = a then v else h_mem h b)" by (simp add: wr_def)
next
  fix h U p t q u a assume i: "kheap_inv H h U" and p: "U p = Some t" and q: "U q = Some u" "p \<noteq> q" and a: "inside p t a"
  obtain hi A where A: "heap_ok (unat H) (unat H + 6528) hi h A" "U = ptr_used A" using i unfolding kheap_inv_def by blast
  obtain x where x: "p = ad (x + 16)" "used A x = Some t" "x + t + 16 < 2 ^ 63" by (rule ptr_used_Some [OF A(1) p [unfolded A(2)]])
  obtain y where y: "q = ad (y + 16)" "used A y = Some u" "y + u + 16 < 2 ^ 63" by (rule ptr_used_Some [OF A(1) q(1) [unfolded A(2)]])
  have "x \<noteq> y" using q(2) x(1) y(1) by auto
  note ap = used_apart [OF A(1) x(2) y(2) this]
  show "\<not> inside q u a"
  proof
    assume b: "inside q u a"
    obtain k where k: "a = ad (x + 16 + 8 * k)" "8 * k < t" using a unfolding x(1) inside_ad by blast
    obtain l where l: "a = ad (y + 16 + 8 * l)" "8 * l < u" using b unfolding y(1) inside_ad by blast
    have "x + 16 + 8 * k = y + 16 + 8 * l" using k l x(3) y(3) by simp
    then show False using ap k(2) l(2) by linarith
  qed
qed

section \<open>From boot on\<close>

lemma init_kmalloc_ok:
  assumes "init_page_allocator bm0 = Some bm" "length bm0 = 16384"
  shows "\<exists>h bm'. init_kmalloc bm m = Some (PAGE_VIRT_OFFSET, h, bm') \<and> kheap_inv PAGE_VIRT_OFFSET h Map.empty"
proof -
  have bm: "pages_ok bm" "pages_owned bm = {}"
    using assms by (auto simp: init_page_allocator_def init_bitmap_def pages_ok_def pages_owned_def bm_test_def TOTAL_PAGES_def)
  have free: "free_area bm TOTAL_PAGES 4096 1 0" using bm by (auto simp: free_area_def pages_owned_def TOTAL_PAGES_def ALIGN_MASK_def)
  obtain a bm' where a: "alloc_pages_cnt bm (int 4096) = Some (int a, bm')" "\<forall>b < a. \<not> free_area bm TOTAL_PAGES 4096 1 b"
    using alloc_pages_cnt_cases [OF bm(1), of 4096] free by (auto simp: TOTAL_PAGES_def)
  have "a = 0" using a(2) free by auto
  then have pool: "alloc_mem_pool bm KMALLOC_HEAP_SIZE = Some (PAGE_VIRT_OFFSET, bm')"
    using a(1) by (simp add: alloc_mem_pool_def KMALLOC_HEAP_SIZE_def round_page_def PAGE_VIR_def)
  have v: "unat PAGE_VIRT_OFFSET = 0xF000000000" "PAGE_VIRT_OFFSET \<noteq> 0" by (simp_all add: PAGE_VIRT_OFFSET_def)
  have av: "PAGE_VIRT_OFFSET = ad 0xF000000000" by (simp add: PAGE_VIRT_OFFSET_def ad_def)
  have k: "unat KMALLOC_HEAP_SIZE = 0x1000000" by (simp add: KMALLOC_HEAP_SIZE_def)
  obtain h s where h: "tlsf_create_with_pool PAGE_VIRT_OFFSET KMALLOC_HEAP_SIZE m = Some h" "24 \<le> s" "s + 6552 \<le> 0x1000000" "0x1000000 < s + 6560"
    "heap_ok 0xF000000000 (0xF000000000 + 6528) (0xF000000000 + 6536 + s) h (new_layout (0xF000000000 + 6528) s)"
    using tlsf_create_with_pool_heap [of "0xF000000000" KMALLOC_HEAP_SIZE m] unfolding av k by auto
  have "used (new_layout (0xF000000000 + 6528) s) = Map.empty" by (rule ext) (simp add: used_def new_layout_def)
  then have "ptr_used (new_layout (0xF000000000 + 6528) s) = Map.empty" by (auto simp: ptr_used_def fun_eq_iff)
  then have "kheap_inv PAGE_VIRT_OFFSET h Map.empty" unfolding kheap_inv_def v using h(3-5) by (intro exI conjI) (rule h(5), simp_all add: pool_end_def)
  then show ?thesis using pool v(2) h(1) by (simp add: init_kmalloc_def)
qed

lemma kheap_area:
  assumes "kheap_inv H h U" "U p = Some t"
  shows "unat H + 6544 \<le> unat p" "unat p + t \<le> unat H + 0x1000000" "8 dvd unat p"
proof -
  obtain hi A where A: "heap_ok (unat H) (unat H + 6528) hi h A" "pool_end (unat H) hi" "U = ptr_used A" using assms(1) unfolding kheap_inv_def by blast
  obtain x where x: "p = ad (x + 16)" "used A x = Some t" "x + t + 16 < 2 ^ 63" by (rule ptr_used_Some [OF A(1) assms(2) [unfolded A(3)]])
  note b = used_bounds [OF A(1) x(2)]
  have "unat p = x + 16" using x(1,3) by simp
  then show "unat H + 6544 \<le> unat p" "unat p + t \<le> unat H + 0x1000000" "8 dvd unat p" using b(1-3) A(2) by (simp_all add: pool_end_def)
qed

text \<open>
  C4. The kernel heap from boot on: \<open>init_kmalloc\<close> succeeds on the empty page pool, and then for every sequence of requests,
  releases of live blocks and stores into live blocks no assertion of the allocator fails, the live blocks are aligned, lie in
  the heap area behind the control structure and are pairwise disjoint, and every word a client has stored in a live block
  still has its value.
\<close>

theorem kernel_heap_correct:
  assumes "init_page_allocator bm0 = Some bm" "length bm0 = 16384"
  shows "\<exists>h0 bm'. init_kmalloc bm m = Some (PAGE_VIRT_OFFSET, h0, bm') \<and>
    (\<forall>acts. \<exists>h L S. client_run kmalloc kfree wr acts (h0, Map.empty, Map.empty) = Some (h, L, S) \<and>
      (\<forall>p n. L p = Some n \<longrightarrow> 8 dvd unat p \<and> 0xF000000000 + 6544 \<le> unat p \<and> unat p + unat n \<le> 0xF000000000 + 0x1000000) \<and>
      (\<forall>p q n k. L p = Some n \<longrightarrow> L q = Some k \<longrightarrow> p \<noteq> q \<longrightarrow> (\<forall>a. inside p (unat n) a \<longrightarrow> \<not> inside q (unat k) a)) \<and>
      (\<forall>a v. S a = Some v \<longrightarrow> h_mem h a = v))"
proof -
  obtain h0 bm' where i: "init_kmalloc bm m = Some (PAGE_VIRT_OFFSET, h0, bm')" "kheap_inv PAGE_VIRT_OFFSET h0 Map.empty"
    using init_kmalloc_ok [OF assms] by blast
  have v: "unat PAGE_VIRT_OFFSET = 0xF000000000" by (simp add: PAGE_VIRT_OFFSET_def)
  have "\<exists>h L S. client_run kmalloc kfree wr acts (h0, Map.empty, Map.empty) = Some (h, L, S) \<and>
      (\<forall>p n. L p = Some n \<longrightarrow> 8 dvd unat p \<and> 0xF000000000 + 6544 \<le> unat p \<and> unat p + unat n \<le> 0xF000000000 + 0x1000000) \<and>
      (\<forall>p q n k. L p = Some n \<longrightarrow> L q = Some k \<longrightarrow> p \<noteq> q \<longrightarrow> (\<forall>a. inside p (unat n) a \<longrightarrow> \<not> inside q (unat k) a)) \<and>
      (\<forall>a v. S a = Some v \<longrightarrow> h_mem h a = v)" for acts
  proof -
    obtain h L S U where r: "client_run kmalloc kfree wr acts (h0, Map.empty, Map.empty) = Some (h, L, S)" "kheap_inv PAGE_VIRT_OFFSET h U" "dom L = dom U"
      "\<forall>p n t. L p = Some n \<longrightarrow> U p = Some t \<longrightarrow> unat n \<le> t" "\<forall>a v. S a = Some v \<longrightarrow> h_mem h a = v"
      "\<forall>p q n m a. L p = Some n \<longrightarrow> L q = Some m \<longrightarrow> p \<noteq> q \<longrightarrow> inside p (unat n) a \<longrightarrow> \<not> inside q (unat m) a"
      using kh.run_correct [OF i(2), of acts] by blast
    have "8 dvd unat p \<and> 0xF000000000 + 6544 \<le> unat p \<and> unat p + unat n \<le> 0xF000000000 + 0x1000000" if p: "L p = Some n" for p n
    proof -
      obtain t where t: "U p = Some t" using p r(3) by blast
      then have "unat n \<le> t" using r(4) p by blast
      then show ?thesis using kheap_area [OF r(2) t] unfolding v by linarith
    qed
    then show ?thesis using r(1,5,6) by blast
  qed
  then show ?thesis using i(1) by blast
qed

lemma fresh_bitmap: "init_page_allocator (replicate 16384 0) = Some (replicate 16384 0)" "length (replicate 16384 0) = 16384"
  by (auto simp: init_page_allocator_def init_bitmap_def)

theorem kernel_heap_correct_witness:
  "\<exists>h0 bm'. init_kmalloc (replicate 16384 0) (\<lambda>_. 0) = Some (PAGE_VIRT_OFFSET, h0, bm') \<and>
    (\<exists>h L S. client_run kmalloc kfree wr [Kmalloc 100, Kmalloc 48, Kstore 0xF000001990 3 7, Kfree 0xF000001990] (h0, Map.empty, Map.empty) = Some (h, L, S))"
  using kernel_heap_correct [OF fresh_bitmap, of "\<lambda>_. 0"] by blast

lemma init_kmalloc_inv:
  assumes "init_page_allocator bm0 = Some bm" "length bm0 = 16384" "init_kmalloc bm m = Some (H, h0, bm')"
  shows "kheap_inv PAGE_VIRT_OFFSET h0 Map.empty"
  using init_kmalloc_ok [OF assms(1,2), of m] assms(3) by auto

lemma kheap_empty:
  assumes "kheap_inv H h Map.empty" "n \<noteq> 0" "unat n \<le> 0xF00000"
  shows "\<exists>p h'. kmalloc n h = Some (p, h') \<and> p \<noteq> 0"
proof -
  obtain hi A where A: "heap_ok (unat H) (unat H + 6528) hi h A" "pool_end (unat H) hi" "Map.empty = ptr_used A"
    using assms(1) unfolding kheap_inv_def by blast
  have "used A x = None" for x
  proof (rule ccontr)
    assume "used A x \<noteq> None"
    then obtain t where t: "used A x = Some t" by blast
    then have "x + 16 < 2 ^ 64" using used_bounds(2,5) [OF A(1) t] by simp
    then have "ptr_used A (ad (x + 16)) = Some t" using t by (simp add: ptr_used_def)
    then show False using fun_cong [OF A(3), of "ad (x + 16)"] by simp
  qed
  then have u: "used A = Map.empty" by (rule ext)
  let ?s = "hi - (unat H + 6528) - 8"
  have hi: "unat H + 6528 \<noteq> hi" "0xFFE000 \<le> ?s" using A(2) by (auto simp: pool_end_def)
  have g: "geo (unat H) (unat H + 6528) hi A" "coal A" using A(1) by (auto simp: heap_ok_def heap_with_def)
  then have "A = new_layout (unat H + 6528) ?s" using empty_layout u hi(1) by blast
  then have lo: "A (unat H + 6528) = Some (?s, True)" by (simp add: new_layout_def)
  let ?r = "request (unat n)"
  have r: "?r \<noteq> 0" "?r \<le> 0xF00000" "?r < 2 ^ 32"
    using request_spec(4,2) [of "unat n"] assms(2,3) by (auto simp: request_def Let_def unat_eq_zero)
  have "class_le (mapping_search (ad ?r)) (cls A (unat H + 6528))" unfolding cls_def
    by (rule mapping_search_le [OF _ _ refl]) (use r lo hi(2) geo_block(8) [OF g(1) lo] in \<open>simp_all add: div_le_mono\<close>)
  moreover have "unat H + 6528 \<in> frees A" using lo by (simp add: frees_def)
  moreover have "unat n \<le> 2 ^ 64 - 8" using assms(3) by simp
  ultimately obtain x s h' where x: "A x = Some (s, True)" "tlsf_malloc n h = Some (ad (x + 16), h')"
    using tlsf_malloc_heap [OF A(1), of n] r(1) by blast
  moreover have "ad (x + 16) \<noteq> 0" using geo_block(9) [OF g(1) x(1)] by simp
  ultimately show ?thesis by (simp add: kmalloc_def)
qed



end
