(* ===== verification/Byte_Fifo.thy ===== *)
theory Byte_Fifo
  imports HC_Prelude
begin

text \<open>
  The byte queues of the emulated UARTs and of the log: an array used as a ring. The raw ring
  lemmas are shared by \<^verbatim>\<open>src/core/log.c\<close>, \<^verbatim>\<open>src/core/emul_uart.c\<close> and
  \<^verbatim>\<open>src/arch/riscv64/emul_uart.c\<close>; the locale \<open>byte_fifo\<close> is what the register models of the two
  UARTs rely on.
\<close>

section \<open>Rings\<close>

definition ring :: "'a list \<Rightarrow> nat \<Rightarrow> nat \<Rightarrow> 'a list" where
  "ring f tail cnt = map (\<lambda>i. f ! ((tail + i) mod length f)) [0..<cnt]"

definition ring_ok :: "'a list \<Rightarrow> nat \<Rightarrow> nat \<Rightarrow> nat \<Rightarrow> bool" where
  "ring_ok f head tail cnt \<longleftrightarrow> 0 < length f \<and> head < length f \<and> tail < length f \<and> cnt \<le> length f \<and>
     head = (tail + cnt) mod length f"

lemma length_ring [simp]: "length (ring f t c) = c"
  by (simp add: ring_def)

lemma ring_0 [simp]: "ring f t 0 = []"
  by (simp add: ring_def)

lemma ring_slot_less:
  assumes "i < c" "c < (n::nat)"
  shows "(t + i) mod n \<noteq> (t + c) mod n"
proof
  assume "(t + i) mod n = (t + c) mod n"
  then have "n dvd (t + c) - (t + i)" using assms by (subst mod_eq_dvd_iff_nat [symmetric]) auto
  then show False using assms by (auto dest: dvd_imp_le)
qed

lemma ring_slot_inj:
  assumes "i < n" "c < (n::nat)" "(t + i) mod n = (t + c) mod n"
  shows "i = c"
  using assms ring_slot_less [of i c n t] ring_slot_less [of c i n t]
  by (metis linorder_neqE_nat)

lemma ring_push:
  assumes "ring_ok f h t c" "c < length f"
  shows "ring_ok (f[h := x]) ((h + 1) mod length f) t (c + 1)" "ring (f[h := x]) t (c + 1) = ring f t c @ [x]"
proof -
  from assms show "ring_ok (f[h := x]) ((h + 1) mod length f) t (c + 1)"
    by (auto simp: ring_ok_def mod_Suc_eq)
  have h: "h = (t + c) mod length f" "h < length f" using assms(1) by (auto simp: ring_ok_def)
  have "h \<noteq> (t + i) mod length f" if "i < c" for i
    using ring_slot_inj [of i "length f" c t] that assms(2) h(1) by auto
  then have "ring (f[h := x]) t c = ring f t c" by (auto simp: ring_def intro!: nth_list_update_neq)
  moreover have "ring (f[h := x]) t (c + 1) = ring (f[h := x]) t c @ [f[h := x] ! ((t + c) mod length f)]"
    by (simp add: ring_def)
  ultimately show "ring (f[h := x]) t (c + 1) = ring f t c @ [x]" using h by simp
qed

lemma ring_pop:
  assumes "ring_ok f h t c" "0 < c"
  shows "ring f t c = f ! t # ring f ((t + 1) mod length f) (c - 1)"
    "ring_ok f h ((t + 1) mod length f) (c - 1)"
proof -
  have t: "t < length f" using assms(1) by (simp add: ring_ok_def)
  have "[0..<c] = 0 # map Suc [0..<c - 1]" using assms(2) by (metis Suc_diff_1 map_Suc_upt upt_conv_Cons)
  moreover have "(t + Suc i) mod length f = ((t + 1) mod length f + i) mod length f" for i
    by (metis add.assoc mod_add_left_eq plus_1_eq_Suc)
  ultimately show "ring f t c = f ! t # ring f ((t + 1) mod length f) (c - 1)"
    using t by (simp add: ring_def)
  show "ring_ok f h ((t + 1) mod length f) (c - 1)"
    using assms t mod_add_left_eq [of "t + 1" "length f" "c - 1"] by (auto simp: ring_ok_def)
qed

section \<open>The contract\<close>

locale byte_fifo =
  fixes push :: "u8 \<Rightarrow> 's \<Rightarrow> 's option"
    and pop :: "'s \<Rightarrow> (u8 \<times> 's) option"
    and contents :: "'s \<Rightarrow> u8 list"
    and ok :: "'s \<Rightarrow> bool"
    and cap :: nat
  assumes push_room: "ok s \<Longrightarrow> length (contents s) < cap \<Longrightarrow>
      \<exists>s'. push c s = Some s' \<and> ok s' \<and> contents s' = contents s @ [c]"
    and push_full: "ok s \<Longrightarrow> cap \<le> length (contents s) \<Longrightarrow> push c s = None"
    and pop_some: "ok s \<Longrightarrow> contents s = c # cs \<Longrightarrow> \<exists>s'. pop s = Some (c, s') \<and> ok s' \<and> contents s' = cs"
    and pop_none: "ok s \<Longrightarrow> contents s = [] \<Longrightarrow> pop s = None"

text \<open>A run of the two ends: bytes offered by the host, reads by the guest.\<close>

datatype fifo_op = Offer u8 | Take

fun fifo_run :: "(u8 \<Rightarrow> 's \<Rightarrow> 's option) \<Rightarrow> ('s \<Rightarrow> (u8 \<times> 's) option) \<Rightarrow> fifo_op list \<Rightarrow> 's \<Rightarrow>
    u8 list \<times> u8 list \<times> 's" where
  "fifo_run push pop [] s = ([], [], s)"
| "fifo_run push pop (Offer c # ops) s =
     (case push c s of
        None \<Rightarrow> fifo_run push pop ops s
      | Some s' \<Rightarrow> (let (ins, outs, s'') = fifo_run push pop ops s' in (c # ins, outs, s'')))"
| "fifo_run push pop (Take # ops) s =
     (case pop s of
        None \<Rightarrow> fifo_run push pop ops s
      | Some (c, s') \<Rightarrow> (let (ins, outs, s'') = fifo_run push pop ops s' in (ins, c # outs, s'')))"

context byte_fifo
begin

lemma fifo_order:
  assumes "ok s" "fifo_run push pop ops s = (ins, outs, s')"
  shows "contents s @ ins = outs @ contents s' \<and> ok s'"
  using assms
proof (induction ops arbitrary: s ins outs s')
  case (Cons op ops)
  show ?case
  proof (cases op)
    case (Offer c)
    show ?thesis
    proof (cases "length (contents s) < cap")
      case True
      from push_room [OF Cons.prems(1) True, of c] obtain s1 where
        s1: "push c s = Some s1" "ok s1" "contents s1 = contents s @ [c]" by blast
      obtain i o2 t where r: "fifo_run push pop ops s1 = (i, o2, t)" by (cases "fifo_run push pop ops s1")
      with Cons.prems(2) Offer s1(1) have "ins = c # i" "outs = o2" "s' = t" by auto
      with Cons.IH [OF s1(2) r] s1(3) show ?thesis by simp
    next
      case False
      with push_full [OF Cons.prems(1)] Offer Cons show ?thesis by simp
    qed
  next
    case Take
    show ?thesis
    proof (cases "contents s")
      case Nil
      with pop_none [OF Cons.prems(1)] Take Cons.prems Cons.IH [OF Cons.prems(1)] show ?thesis
        by fastforce
    next
      case cs: (Cons c cs)
      from pop_some [OF Cons.prems(1) cs] obtain s1 where
        s1: "pop s = Some (c, s1)" "ok s1" "contents s1 = cs" by blast
      obtain i o2 t where r: "fifo_run push pop ops s1 = (i, o2, t)" by (cases "fifo_run push pop ops s1")
      with Cons.prems(2) Take s1(1) have "ins = i" "outs = c # o2" "s' = t" by auto
      with Cons.IH [OF s1(2) r] s1(3) cs show ?thesis by simp
    qed
  qed
qed simp

lemma contents_le: "ok s \<Longrightarrow> length (contents s) \<le> cap \<Longrightarrow> push c s = Some s' \<Longrightarrow> length (contents s') \<le> cap"
  using push_room [of s c] push_full [of s c] by (cases "length (contents s) < cap") auto

end

end
