(* ===== verification/Log_Ring.thy ===== *)
theory Log_Ring
  imports Byte_Fifo
begin

text \<open>
  \<^verbatim>\<open>src/core/log.c\<close>: the log ring of 65536 characters that keeps the newest ones, the output
  modes, the level, and the flush to the console. What \<open>arch_putchar\<close> prints is the list \<open>uart_out\<close>.
\<close>

section \<open>Model\<close>

record log_state =
  l_data :: "u8 list"
  l_head :: nat
  l_tail :: nat
  l_overflow :: u32
  g_log_output :: nat
  g_log_level :: int
  uart_out :: "u8 list"

abbreviation (input) "LOG_BUF_SIZE \<equiv> 65536 :: nat"

definition buf_write :: "u8 \<Rightarrow> log_state \<Rightarrow> log_state" where
  "buf_write ch s =
     (let next_pos = (l_head s + 1) mod LOG_BUF_SIZE;
          s1 = (if next_pos = l_tail s
                then s\<lparr>l_tail := (l_tail s + 1) mod LOG_BUF_SIZE, l_overflow := l_overflow s + 1\<rparr> else s)
      in s1\<lparr>l_data := (l_data s1)[l_head s1 := ch], l_head := next_pos\<rparr>)"

definition buf_read :: "log_state \<Rightarrow> u8 \<times> log_state" where
  "buf_read s =
     (if l_head s = l_tail s then (0, s)
      else (l_data s ! l_tail s, s\<lparr>l_tail := (l_tail s + 1) mod LOG_BUF_SIZE\<rparr>))"

definition buf_empty :: "log_state \<Rightarrow> bool" where
  "buf_empty s \<longleftrightarrow> l_head s = l_tail s"

definition arch_putchar :: "u8 \<Rightarrow> log_state \<Rightarrow> log_state" where
  "arch_putchar ch s = s\<lparr>uart_out := uart_out s @ [ch]\<rparr>"

definition log_putchar :: "u8 \<Rightarrow> log_state \<Rightarrow> log_state" where
  "log_putchar ch s =
     (let s1 = (if bit (g_log_output s) 1 then buf_write ch s else s)
      in if bit (g_log_output s1) 0 then arch_putchar ch s1 else s1)"

text \<open>
  \<open>log_flush\<close> first reports the number of dropped characters through \<open>safe_printf\<close>; the report is the
  parameter \<open>report\<close>, the bytes it prints for a number, which go through \<open>log_putchar\<close>. The loop
  ends because every \<open>buf_read\<close> of a non-empty ring brings the tail closer to the head.
\<close>

definition log_used :: "log_state \<Rightarrow> nat" where
  "log_used s = (l_head s + LOG_BUF_SIZE - l_tail s) mod LOG_BUF_SIZE"

definition log_wf :: "log_state \<Rightarrow> bool" where
  "log_wf s \<longleftrightarrow> length (l_data s) = LOG_BUF_SIZE \<and> l_head s < LOG_BUF_SIZE \<and> l_tail s < LOG_BUF_SIZE"

primrec flush_loop :: "nat \<Rightarrow> log_state \<Rightarrow> log_state option" where
  "flush_loop 0 s = (if buf_empty s then Some s else None)"
| "flush_loop (Suc n) s =
     (if buf_empty s then Some s
      else (let (ch, s1) = buf_read s in flush_loop n (arch_putchar ch s1)))"

definition log_flush :: "(u32 \<Rightarrow> u8 list) \<Rightarrow> log_state \<Rightarrow> log_state option" where
  "log_flush report s =
     (let s1 = (if l_overflow s \<noteq> 0 then fold log_putchar (report (l_overflow s)) s else s)
      in flush_loop LOG_BUF_SIZE s1)"

definition log_set_level :: "int \<Rightarrow> log_state \<Rightarrow> log_state" where
  "log_set_level level s = s\<lparr>g_log_level := level\<rparr>"

definition log_get_level :: "log_state \<Rightarrow> int" where
  "log_get_level s = g_log_level s"

definition log_set_output :: "nat \<Rightarrow> log_state \<Rightarrow> log_state" where
  "log_set_output mode s = s\<lparr>g_log_output := mode\<rparr>"

section \<open>The ring as a bounded list\<close>

definition log_contents :: "log_state \<Rightarrow> u8 list" where
  "log_contents s = ring (l_data s) (l_tail s) (log_used s)"

definition keep_last :: "nat \<Rightarrow> 'a list \<Rightarrow> 'a list" where
  "keep_last n xs = drop (length xs - n) xs"

lemma keep_last_append: "keep_last n (keep_last n xs @ ys) = keep_last n (xs @ ys)"
  by (cases "n \<le> length xs") (simp_all add: keep_last_def add.commute)

lemma log_used_less: "log_used s < LOG_BUF_SIZE"
  by (simp add: log_used_def)

lemma log_ring_ok: "log_wf s \<Longrightarrow> ring_ok (l_data s) (l_head s) (l_tail s) (log_used s)"
  by (auto simp: ring_ok_def log_wf_def log_used_def mod_add_right_eq)

lemma log_used_eqI:
  assumes "ring_ok d h t c" "length d = LOG_BUF_SIZE" "c < LOG_BUF_SIZE"
    "l_head s = h" "l_tail s = t"
  shows "log_used s = c"
proof -
  have "(h + LOG_BUF_SIZE - t) mod LOG_BUF_SIZE = c"
  proof -
    have t: "t < LOG_BUF_SIZE" and h: "h = (t + c) mod LOG_BUF_SIZE"
      using assms(1,2) by (auto simp: ring_ok_def)
    show ?thesis
    proof (cases "t + c < LOG_BUF_SIZE")
      case True
      with h t assms(3) show ?thesis by simp
    next
      case False
      then have "h = t + c - LOG_BUF_SIZE" using h t assms(3) by (simp add: le_mod_geq)
      with False t assms(3) show ?thesis by simp
    qed
  qed
  with assms(4,5) show ?thesis by (simp add: log_used_def)
qed

lemma buf_write_contents:
  assumes "log_wf s"
  shows "log_wf (buf_write ch s) \<and>
    log_contents (buf_write ch s) = keep_last (LOG_BUF_SIZE - 1) (log_contents s @ [ch]) \<and>
    l_overflow (buf_write ch s) = l_overflow s + (if log_used s = LOG_BUF_SIZE - 1 then 1 else 0)"
proof -
  note ok = log_ring_ok [OF assms]
  have len: "length (l_data s) = LOG_BUF_SIZE" using assms by (simp add: log_wf_def)
  have full: "(l_head s + 1) mod LOG_BUF_SIZE = l_tail s \<longleftrightarrow> log_used s = LOG_BUF_SIZE - 1"
  proof
    assume "log_used s = LOG_BUF_SIZE - 1"
    with ok len show "(l_head s + 1) mod LOG_BUF_SIZE = l_tail s"
      by (auto simp: ring_ok_def mod_Suc_eq)
  next
    assume "(l_head s + 1) mod LOG_BUF_SIZE = l_tail s"
    then have "(l_tail s + (log_used s + 1)) mod LOG_BUF_SIZE = (l_tail s + 0) mod LOG_BUF_SIZE"
      using ok len by (auto simp: ring_ok_def mod_Suc_eq)
    then have "\<not> log_used s + 1 < LOG_BUF_SIZE"
      using ring_slot_inj [of "log_used s + 1" LOG_BUF_SIZE 0 "l_tail s"] by auto
    then show "log_used s = LOG_BUF_SIZE - 1" using log_used_less [of s] by simp
  qed
  show ?thesis
  proof (cases "log_used s = LOG_BUF_SIZE - 1")
    case False
    then have lt: "log_used s + 1 < LOG_BUF_SIZE" using log_used_less [of s] by simp
    then have "log_used s < length (l_data s)" using len by simp
    note P = ring_push [OF ok this, of ch]
    let ?s = "s\<lparr>l_data := (l_data s)[l_head s := ch], l_head := (l_head s + 1) mod LOG_BUF_SIZE\<rparr>"
    have w: "buf_write ch s = ?s" using False full by (simp add: buf_write_def Let_def)
    have u: "log_used ?s = log_used s + 1"
      by (rule log_used_eqI [OF P(1)]) (use len lt in simp_all)
    show ?thesis
      using P(2) u False assms lt by (simp add: w log_contents_def keep_last_def log_wf_def)
  next
    case True
    then have pos: "0 < log_used s" by simp
    note Q = ring_pop [OF ok pos, unfolded len]
    have "log_used s - 1 < length (l_data s)" using True len by simp
    note P = ring_push [OF Q(2) this, of ch, unfolded len]
    let ?s = "s\<lparr>l_data := (l_data s)[l_head s := ch], l_head := (l_head s + 1) mod LOG_BUF_SIZE,
      l_tail := (l_tail s + 1) mod LOG_BUF_SIZE, l_overflow := l_overflow s + 1\<rparr>"
    have w: "buf_write ch s = ?s" using True full by (simp add: buf_write_def Let_def)
    have u: "log_used ?s = log_used s - 1 + 1"
      by (rule log_used_eqI [OF P(1)]) (use len True in simp_all)
    have "keep_last (LOG_BUF_SIZE - 1) (log_contents s @ [ch]) = tl (log_contents s) @ [ch]"
      using True Q(1) by (simp add: keep_last_def log_contents_def)
    with P(2) Q(1) u True assms show ?thesis by (simp add: w log_contents_def log_wf_def)
  qed
qed

lemma buf_write_modes [simp]:
  "g_log_output (buf_write ch s) = g_log_output s" "uart_out (buf_write ch s) = uart_out s"
  "g_log_level (buf_write ch s) = g_log_level s"
  by (simp_all add: buf_write_def Let_def)

lemma arch_putchar_sel [simp]:
  "l_data (arch_putchar ch s) = l_data s" "l_head (arch_putchar ch s) = l_head s"
  "l_tail (arch_putchar ch s) = l_tail s" "l_overflow (arch_putchar ch s) = l_overflow s"
  "g_log_output (arch_putchar ch s) = g_log_output s" "uart_out (arch_putchar ch s) = uart_out s @ [ch]"
  "log_contents (arch_putchar ch s) = log_contents s" "log_used (arch_putchar ch s) = log_used s"
  "log_wf (arch_putchar ch s) = log_wf s"
  by (simp_all add: arch_putchar_def log_contents_def log_used_def log_wf_def)

lemma log_putchar_both:
  assumes "log_wf s" "g_log_output s = 3"
  shows "log_wf (log_putchar ch s) \<and> g_log_output (log_putchar ch s) = 3 \<and>
    uart_out (log_putchar ch s) = uart_out s @ [ch] \<and>
    log_contents (log_putchar ch s) = keep_last (LOG_BUF_SIZE - 1) (log_contents s @ [ch])"
proof -
  have "bit (3::nat) 0" "bit (3::nat) 1" by (simp_all add: bit_iff_odd)
  with assms buf_write_contents [OF assms(1), of ch] show ?thesis by (simp add: log_putchar_def Let_def)
qed

lemma log_puts_both:
  assumes "log_wf s" "g_log_output s = 3" "length (log_contents s) < LOG_BUF_SIZE"
  shows "log_wf (fold log_putchar cs s) \<and> uart_out (fold log_putchar cs s) = uart_out s @ cs \<and>
    log_contents (fold log_putchar cs s) = keep_last (LOG_BUF_SIZE - 1) (log_contents s @ cs)"
  using assms
proof (induction cs arbitrary: s)
  case Nil
  then show ?case by (simp add: keep_last_def)
next
  case (Cons c cs)
  note P = log_putchar_both [OF Cons.prems(1,2), of c]
  then have "length (log_contents (log_putchar c s)) < LOG_BUF_SIZE" by (simp add: keep_last_def)
  with Cons.IH [of "log_putchar c s"] P show ?case
    using keep_last_append [of "LOG_BUF_SIZE - 1" "log_contents s @ [c]" cs] by simp
qed

lemma flush_loop_drains:
  assumes "log_wf s" "log_used s \<le> n"
  shows "\<exists>s'. flush_loop n s = Some s' \<and> log_wf s' \<and> log_contents s' = [] \<and>
    uart_out s' = uart_out s @ log_contents s"
  using assms
proof (induction n arbitrary: s)
  case 0
  then have "buf_empty s" using log_ring_ok [OF 0(1)] by (auto simp: buf_empty_def ring_ok_def log_wf_def)
  with 0 show ?case by (simp add: log_contents_def)
next
  case (Suc n)
  have len: "length (l_data s) = LOG_BUF_SIZE" using Suc.prems(1) by (simp add: log_wf_def)
  have e: "buf_empty s \<longleftrightarrow> log_used s = 0"
    using Suc.prems(1) log_ring_ok [OF Suc.prems(1)] by (auto simp: buf_empty_def log_used_def log_wf_def ring_ok_def)
  show ?case
  proof (cases "log_used s = 0")
    case True
    with e Suc.prems show ?thesis by (simp add: log_contents_def)
  next
    case False
    then have pos: "0 < log_used s" by simp
    note Q = ring_pop [OF log_ring_ok [OF Suc.prems(1)] pos, unfolded len]
    define s1 where "s1 = s\<lparr>l_tail := (l_tail s + 1) mod LOG_BUF_SIZE\<rparr>"
    have u: "log_used s1 = log_used s - 1"
      by (rule log_used_eqI [OF Q(2)]) (use len log_used_less [of s] in \<open>simp_all add: s1_def\<close>)
    have r: "buf_read s = (l_data s ! l_tail s, s1)" using False e by (simp add: buf_read_def buf_empty_def s1_def)
    have w: "log_wf s1" using Suc.prems(1) by (simp add: log_wf_def s1_def)
    have c: "log_contents s = l_data s ! l_tail s # log_contents s1"
      using Q(1) u by (simp add: log_contents_def s1_def)
    have o: "uart_out s1 = uart_out s" by (simp add: s1_def)
    from Suc.IH [of "arch_putchar (l_data s ! l_tail s) s1"] w u Suc.prems(2) show ?thesis
      using False e r c o by auto
  qed
qed

section \<open>Properties\<close>

lemma fold_buf_write_contents:
  assumes "log_wf s"
  shows "log_wf (fold buf_write cs s) \<and>
    log_contents (fold buf_write cs s) = keep_last (LOG_BUF_SIZE - 1) (log_contents s @ cs)"
  using assms
proof (induction cs arbitrary: s)
  case Nil
  then show ?case using log_used_less [of s] by (simp add: keep_last_def log_contents_def)
next
  case (Cons c cs)
  with buf_write_contents [OF Cons.prems, of c] Cons.IH [of "buf_write c s"] show ?case
    using keep_last_append [of "LOG_BUF_SIZE - 1" "log_contents s @ [c]" cs] by simp
qed

text \<open>
  C33. The log keeps the newest characters: after any sequence of writes the ring holds the last
  65535 of the characters it held before followed by those written, in order; nothing is written
  outside the array.
\<close>

theorem log_keeps_newest:
  assumes "log_wf s"
  shows "log_wf (fold buf_write cs s) \<and>
    log_contents (fold buf_write cs s) = keep_last (LOG_BUF_SIZE - 1) (log_contents s @ cs)"
  using assms by (rule fold_buf_write_contents)

text \<open>
  Flushing terminates, empties the ring and prints its contents in order. When characters had
  been dropped, the report itself is written to the ring before the ring is drained (output mode
  both): it appears twice and pushes out as many of the oldest characters as it needs room for.
\<close>

theorem log_flush_drains:
  assumes "log_wf s" "g_log_output s = 3"
  shows "\<exists>s'. log_flush report s = Some s' \<and> log_contents s' = [] \<and>
    (let r = (if l_overflow s = 0 then [] else report (l_overflow s))
     in uart_out s' = uart_out s @ r @ keep_last (LOG_BUF_SIZE - 1) (log_contents s @ r))"
proof -
  define r where "r = (if l_overflow s = 0 then [] else report (l_overflow s))"
  define s1 where "s1 = fold log_putchar r s"
  have "length (log_contents s) < LOG_BUF_SIZE" using log_used_less [of s] by (simp add: log_contents_def)
  from log_puts_both [OF assms this, of r] have s1: "log_wf s1" "uart_out s1 = uart_out s @ r"
    "log_contents s1 = keep_last (LOG_BUF_SIZE - 1) (log_contents s @ r)" by (auto simp: s1_def)
  have "log_used s1 \<le> LOG_BUF_SIZE" using log_used_less [of s1] by simp
  from flush_loop_drains [OF s1(1) this] s1(2,3) show ?thesis
    unfolding log_flush_def Let_def r_def [symmetric] by (auto simp: s1_def r_def split: if_splits)
qed

definition empty_log :: log_state where
  "empty_log = \<lparr>l_data = replicate LOG_BUF_SIZE 0, l_head = 0, l_tail = 0, l_overflow = 0,
     g_log_output = 3, g_log_level = 1, uart_out = []\<rparr>"

lemma empty_log_wf: "log_wf empty_log"
  by (simp add: empty_log_def log_wf_def)

theorem log_keeps_newest_witness:
  "log_contents (fold buf_write [72, 105] empty_log) = [72, 105]"
  using log_keeps_newest [OF empty_log_wf, of "[72, 105]"]
  by (simp add: keep_last_def log_contents_def empty_log_def log_used_def)

theorem log_flush_drains_witness:
  "\<exists>s'. log_flush (\<lambda>_. [45]) (fold buf_write [72, 105] empty_log) = Some s' \<and> uart_out s' = [72, 105]"
proof -
  have w: "log_wf (fold buf_write [72, 105] empty_log)" using buf_write_contents empty_log_wf by simp
  have c: "log_contents (fold buf_write [72, 105] empty_log) = [72, 105]"
    using fold_buf_write_contents [OF empty_log_wf, of "[72, 105]"]
    by (simp add: keep_last_def log_contents_def empty_log_def log_used_def)
  have o: "g_log_output (fold buf_write [72, 105] empty_log) = 3" "uart_out (fold buf_write [72, 105] empty_log) = []"
    "l_overflow (fold buf_write [72, 105] empty_log) = 0"
    by (simp_all add: empty_log_def) (simp add: buf_write_def Let_def)
  from log_flush_drains [OF w o(1), of "\<lambda>_. [45]"] c o show ?thesis by (auto simp: keep_last_def)
qed

end
