(* ===== verification/Riscv_State.thy ===== *)
theory Riscv_State
  imports HC_Prelude
begin

text \<open>
  The state of the RISC-V port: the \<^verbatim>\<open>struct\<close>s of \<^verbatim>\<open>src/arch/riscv64/include/vcpu.h\<close>,
  \<^verbatim>\<open>include/sched.h\<close> and \<^verbatim>\<open>arch_regs.h\<close>, the control and status registers of each hart that the
  code reads or writes, and the file-scope variables of the components (per-CPU task pointers, ready
  queue, IPI words, virtual PLIC and UART). The component theories define the operations.

  Objects reached through pointers (tasks, virtual CPUs) live in stores indexed by the pointer, a null
  pointer is \<open>None\<close>. Registers and variables that belong to a physical CPU are functions of its
  linear number, the value \<^verbatim>\<open>cpu_id()\<close> returns; every operation takes the number \<open>me\<close> of the CPU
  that executes it. What leaves the machine (SBI calls, fences, bytes for the host console) is
  appended to the list \<open>effects\<close>. A critical section of a spin lock is one step.
\<close>

section \<open>Trap frame\<close>

text \<open>
  \<^verbatim>\<open>struct cpu_user_regs\<close> is accessed both by field and as an array of 64-bit slots: slot 0 is
  \<^verbatim>\<open>sepc\<close> and slot \<open>i\<close>, for \<open>i\<close> from 1 to 31, the general-purpose register \<open>x\<^sub>i\<close>.
\<close>

record cpu_user_regs =
  slot :: "nat \<Rightarrow> u64"
  fr_sstatus :: u64
  fr_sbadaddr :: u64
  fr_scause :: u64
  fr_orig_a0 :: u64

definition set_slot :: "nat \<Rightarrow> u64 \<Rightarrow> cpu_user_regs \<Rightarrow> cpu_user_regs" where
  "set_slot i v r = r\<lparr>slot := (slot r)(i := v)\<rparr>"

abbreviation (input) "sepc r \<equiv> slot r 0"
abbreviation (input) "ra r \<equiv> slot r 1"
abbreviation (input) "sp r \<equiv> slot r 2"
abbreviation (input) "a0 r \<equiv> slot r 10"
abbreviation (input) "a1 r \<equiv> slot r 11"
abbreviation (input) "a6 r \<equiv> slot r 16"
abbreviation (input) "a7 r \<equiv> slot r 17"

lemma slot_set_slot [simp]: "slot (set_slot i v r) j = (if j = i then v else slot r j)"
  by (simp add: set_slot_def)

lemma set_slot_more [simp]:
  "fr_sstatus (set_slot i v r) = fr_sstatus r" "fr_sbadaddr (set_slot i v r) = fr_sbadaddr r"
  "fr_scause (set_slot i v r) = fr_scause r" "fr_orig_a0 (set_slot i v r) = fr_orig_a0 r"
  by (simp_all add: set_slot_def)

section \<open>Virtual CPUs and tasks\<close>

record riscv_vcpu_timer_state =
  deadline_cycles :: u64
  armed :: bool
  pending :: bool

text \<open>A memory region of the guest; \<open>mr_dev\<close> is the name of the driver bound to it, if any.\<close>

record mem_region =
  mr_gpa :: u64
  mr_hpa :: u64
  mr_size :: u64
  mr_attr :: int
  mr_dev :: "string option"
  mr_match_name :: string

record rvcpu =
  vcpu_id :: int
  vcpu_priority :: int
  v_hstatus :: u64
  v_hie :: u64
  virt_irq_pending :: u64
  v_vsstatus :: u64
  v_vsie :: u64
  v_vstvec :: u64
  v_vsscratch :: u64
  v_vsepc :: u64
  v_vscause :: u64
  v_vstval :: u64
  v_vsatp :: u64
  v_f :: "nat \<Rightarrow> u64"
  v_fcsr :: u64
  v_vstart :: u64
  v_vxsat :: u64
  v_vxrm :: u64
  v_vcsr :: u64
  v_vl :: u64
  v_vtype :: u64
  v_vlenb :: u64
  v_vregs :: "(nat \<Rightarrow> u8) option"
  v_vregs_size :: u64
  v_timer :: riscv_vcpu_timer_state
  v_stack :: u64
  v_regs :: cpu_user_regs
  v_mem :: "mem_region list"

datatype task_state = TASK_RUNNING | TASK_PAUSE | TASK_READY | TASK_EXIT

record vm_vcpu_task_desc =
  d_name :: "string option"
  d_vcpu_id :: int
  d_priority :: int
  d_vcpu_priority :: int
  d_pcpu_affinity :: int
  d_entry :: u64
  d_arg0 :: u64
  d_arg1 :: u64
  d_guest_cpu_id :: u64
  d_flags :: u64

record hyper_task =
  t_id :: int
  t_priority :: int
  t_name :: string
  t_state :: task_state
  t_vcpu :: "nat option"
  t_mpidr :: u64
  t_affinity :: int
  t_switch_count :: u64

section \<open>Harts\<close>

record hart =
  sstatus :: u64
  sie :: u64
  sip :: u64
  stval :: u64
  hstatus :: u64
  hedeleg :: u64
  hideleg :: u64
  hie :: u64
  hvip :: u64
  htval :: u64
  htinst :: u64
  vsstatus :: u64
  vsie :: u64
  vstvec :: u64
  vsscratch :: u64
  vsepc :: u64
  vscause :: u64
  vstval :: u64
  vsatp :: u64
  h_f :: "nat \<Rightarrow> u64"
  h_fcsr :: u64
  h_vstart :: u64
  h_vcsr :: u64
  h_vl :: u64
  h_vtype :: u64
  h_vlenb :: u64
  h_v :: "nat \<Rightarrow> nat \<Rightarrow> u8"

section \<open>Devices\<close>

text \<open>
  \<^verbatim>\<open>struct vplic_state\<close> as the sequence of 32-bit words it occupies in memory: 129 priorities, 4
  pending words, 4 enable words for each of the 4 contexts, 4 thresholds. The members are reached by
  their offset, so an index past the end of one member reads and writes the next one.
\<close>

type_synonym vplic_state = "u32 list"

record ns16550a_state =
  rx_fifo :: "u8 list"
  rx_head :: nat
  rx_tail :: nat
  rx_count :: nat
  u_dll :: u8
  u_dlm :: u8
  u_ier :: u8
  u_iir :: u8
  u_fcr :: u8
  u_lcr :: u8
  u_mcr :: u8
  u_lsr :: u8
  u_msr :: u8
  u_scr :: u8
  tx_irq_pending :: bool

section \<open>The machine\<close>

datatype effect =
    SbiSendIpi u64
  | SbiSetTimer u64
  | FenceI int
  | HFence int
  | CallFunc nat
  | HostUartPut u8
  | ConsolePut u8
  | ConsoleMsg string
  | HartStart int int
  | Stage2Map u64 u64 u64 int
  | PlicComplete u32
  | KAlloc nat
  | KFree nat

record rv =
  vcpus :: "nat \<Rightarrow> rvcpu"
  tasks :: "nat \<Rightarrow> hyper_task"
  g_current_task :: "int \<Rightarrow> nat option"
  g_running :: "int \<Rightarrow> nat option"
  g_ready_list :: "nat list"
  g_wait_list :: "nat list"
  g_boot_vcpu_started :: bool
  harts :: "int \<Rightarrow> hart"
  now :: u64
  g_ipi_pending :: "int \<Rightarrow> u32"
  g_ipi_complete :: "int \<Rightarrow> nat \<Rightarrow> u32"
  g_tlb_shootdown_fn :: "nat option"
  g_cpu_count :: int
  g_cpu_to_hart :: "int \<Rightarrow> int"
  guest_vcpu_count :: nat
  g_vplic :: vplic_state
  g_uart :: ns16550a_state
  g_empty_regs :: cpu_user_regs
  g_vcpu_task_id :: int
  g_boot_hart_id :: int
  g_scratch :: "int \<Rightarrow> u64 \<times> u64"
  effects :: "effect list"

definition CPU_NUM :: int where
  "CPU_NUM = 4"

definition upd_vcpu :: "nat \<Rightarrow> (rvcpu \<Rightarrow> rvcpu) \<Rightarrow> rv \<Rightarrow> rv" where
  "upd_vcpu v f s = s\<lparr>vcpus := (vcpus s)(v := f (vcpus s v))\<rparr>"

definition upd_task :: "nat \<Rightarrow> (hyper_task \<Rightarrow> hyper_task) \<Rightarrow> rv \<Rightarrow> rv" where
  "upd_task t f s = s\<lparr>tasks := (tasks s)(t := f (tasks s t))\<rparr>"

definition upd_hart :: "int \<Rightarrow> (hart \<Rightarrow> hart) \<Rightarrow> rv \<Rightarrow> rv" where
  "upd_hart me f s = s\<lparr>harts := (harts s)(me := f (harts s me))\<rparr>"

definition emit :: "effect \<Rightarrow> rv \<Rightarrow> rv" where
  "emit e s = s\<lparr>effects := effects s @ [e]\<rparr>"

text \<open>\<open>current_task\<close> and \<open>set_current\<close> of \<^verbatim>\<open>sched_riscv.c\<close>; a CPU number out of range counts as 0.\<close>

definition cpu_index :: "int \<Rightarrow> int" where
  "cpu_index cpu = (if cpu < 0 \<or> CPU_NUM \<le> cpu then 0 else cpu)"

definition current_task :: "int \<Rightarrow> rv \<Rightarrow> nat option" where
  "current_task me s = g_current_task s (cpu_index me)"

definition set_current :: "int \<Rightarrow> nat option \<Rightarrow> rv \<Rightarrow> rv" where
  "set_current me c s = s\<lparr>g_current_task := (g_current_task s)(cpu_index me := c),
                         g_running := (g_running s)(cpu_index me := c)\<rparr>"

definition riscv_current_vcpu :: "int \<Rightarrow> rv \<Rightarrow> nat option" where
  "riscv_current_vcpu me s = (case current_task me s of None \<Rightarrow> None | Some t \<Rightarrow> t_vcpu (tasks s t))"

definition running_as :: "u64 \<Rightarrow> rv \<Rightarrow> int \<Rightarrow> bool" where
  "running_as hartid s i =
     (case g_running s i of None \<Rightarrow> False | Some t \<Rightarrow> t_mpidr (tasks s t) = hartid)"

definition riscv_find_guest_vcpu :: "u64 \<Rightarrow> rv \<Rightarrow> nat option" where
  "riscv_find_guest_vcpu hartid s =
     (case List.find (running_as hartid s) [0, 1, 2, 3] of
        Some i \<Rightarrow> g_running s i
      | None \<Rightarrow> List.find (\<lambda>t. t_mpidr (tasks s t) = hartid) (g_ready_list s))"

section \<open>Selectors after updates\<close>

lemma vcpus_upd [simp]:
  "vcpus (upd_vcpu v f s) = (vcpus s)(v := f (vcpus s v))" "vcpus (upd_task t g s) = vcpus s"
  "vcpus (upd_hart me h s) = vcpus s" "vcpus (emit e s) = vcpus s" "vcpus (set_current me c s) = vcpus s"
  by (simp_all add: upd_vcpu_def upd_task_def upd_hart_def emit_def set_current_def)

lemma tasks_upd [simp]:
  "tasks (upd_vcpu v f s) = tasks s" "tasks (upd_task t g s) = (tasks s)(t := g (tasks s t))"
  "tasks (upd_hart me h s) = tasks s" "tasks (emit e s) = tasks s" "tasks (set_current me c s) = tasks s"
  by (simp_all add: upd_vcpu_def upd_task_def upd_hart_def emit_def set_current_def)

lemma harts_upd [simp]:
  "harts (upd_vcpu v f s) = harts s" "harts (upd_task t g s) = harts s"
  "harts (upd_hart me h s) = (harts s)(me := h (harts s me))" "harts (emit e s) = harts s"
  "harts (set_current me c s) = harts s"
  by (simp_all add: upd_vcpu_def upd_task_def upd_hart_def emit_def set_current_def)

lemma queues_upd [simp]:
  "g_current_task (upd_vcpu v f s) = g_current_task s" "g_current_task (upd_task t g s) = g_current_task s"
  "g_current_task (upd_hart me h s) = g_current_task s" "g_current_task (emit e s) = g_current_task s"
  "g_running (upd_vcpu v f s) = g_running s" "g_running (upd_task t g s) = g_running s"
  "g_running (upd_hart me h s) = g_running s" "g_running (emit e s) = g_running s"
  "g_ready_list (upd_vcpu v f s) = g_ready_list s" "g_ready_list (upd_task t g s) = g_ready_list s"
  "g_ready_list (upd_hart me h s) = g_ready_list s" "g_ready_list (emit e s) = g_ready_list s"
  "g_ready_list (set_current me c s) = g_ready_list s"
  "g_wait_list (upd_vcpu v f s) = g_wait_list s" "g_wait_list (upd_task t g s) = g_wait_list s"
  "g_wait_list (upd_hart me h s) = g_wait_list s" "g_wait_list (emit e s) = g_wait_list s"
  "g_wait_list (set_current me c s) = g_wait_list s"
  by (simp_all add: upd_vcpu_def upd_task_def upd_hart_def emit_def set_current_def)

lemma ipi_upd [simp]:
  "g_ipi_pending (upd_vcpu v f s) = g_ipi_pending s" "g_ipi_pending (upd_task t g s) = g_ipi_pending s"
  "g_ipi_pending (upd_hart me h s) = g_ipi_pending s" "g_ipi_pending (emit e s) = g_ipi_pending s"
  "g_ipi_pending (set_current me c s) = g_ipi_pending s"
  "g_ipi_complete (upd_vcpu v f s) = g_ipi_complete s" "g_ipi_complete (upd_task t g s) = g_ipi_complete s"
  "g_ipi_complete (upd_hart me h s) = g_ipi_complete s" "g_ipi_complete (emit e s) = g_ipi_complete s"
  "g_ipi_complete (set_current me c s) = g_ipi_complete s"
  "g_tlb_shootdown_fn (upd_vcpu v f s) = g_tlb_shootdown_fn s"
  "g_tlb_shootdown_fn (upd_hart me h s) = g_tlb_shootdown_fn s"
  "g_tlb_shootdown_fn (emit e s) = g_tlb_shootdown_fn s"
  "g_cpu_count (upd_vcpu v f s) = g_cpu_count s" "g_cpu_count (upd_task t g s) = g_cpu_count s"
  "g_cpu_count (upd_hart me h s) = g_cpu_count s" "g_cpu_count (emit e s) = g_cpu_count s"
  "g_cpu_count (set_current me c s) = g_cpu_count s"
  "g_cpu_to_hart (upd_vcpu v f s) = g_cpu_to_hart s" "g_cpu_to_hart (upd_task t g s) = g_cpu_to_hart s"
  "g_cpu_to_hart (upd_hart me h s) = g_cpu_to_hart s" "g_cpu_to_hart (emit e s) = g_cpu_to_hart s"
  "g_cpu_to_hart (set_current me c s) = g_cpu_to_hart s"
  by (simp_all add: upd_vcpu_def upd_task_def upd_hart_def emit_def set_current_def)

lemma devices_upd [simp]:
  "g_vplic (upd_vcpu v f s) = g_vplic s" "g_vplic (upd_task t g s) = g_vplic s"
  "g_vplic (upd_hart me h s) = g_vplic s" "g_vplic (emit e s) = g_vplic s"
  "g_vplic (set_current me c s) = g_vplic s"
  "g_uart (upd_vcpu v f s) = g_uart s" "g_uart (upd_task t g s) = g_uart s"
  "g_uart (upd_hart me h s) = g_uart s" "g_uart (emit e s) = g_uart s"
  "g_uart (set_current me c s) = g_uart s"
  "now (upd_vcpu v f s) = now s" "now (upd_task t g s) = now s"
  "now (upd_hart me h s) = now s" "now (emit e s) = now s" "now (set_current me c s) = now s"
  "guest_vcpu_count (upd_vcpu v f s) = guest_vcpu_count s"
  "guest_vcpu_count (upd_task t g s) = guest_vcpu_count s"
  "guest_vcpu_count (upd_hart me h s) = guest_vcpu_count s"
  "guest_vcpu_count (emit e s) = guest_vcpu_count s"
  "guest_vcpu_count (set_current me c s) = guest_vcpu_count s"
  by (simp_all add: upd_vcpu_def upd_task_def upd_hart_def emit_def set_current_def)

lemma effects_upd [simp]:
  "effects (upd_vcpu v f s) = effects s" "effects (upd_task t g s) = effects s"
  "effects (upd_hart me h s) = effects s" "effects (emit e s) = effects s @ [e]"
  "effects (set_current me c s) = effects s"
  by (simp_all add: upd_vcpu_def upd_task_def upd_hart_def emit_def set_current_def)

lemma current_task_upd [simp]:
  "current_task me (upd_vcpu v f s) = current_task me s"
  "current_task me (upd_task t g s) = current_task me s"
  "current_task me (upd_hart m h s) = current_task me s"
  "current_task me (emit e s) = current_task me s"
  "current_task me (set_current me c s) = c"
  by (simp_all add: current_task_def set_current_def)

lemma current_vcpu_upd [simp]:
  "riscv_current_vcpu me (upd_vcpu v f s) = riscv_current_vcpu me s"
  "riscv_current_vcpu me (upd_hart m h s) = riscv_current_vcpu me s"
  "riscv_current_vcpu me (emit e s) = riscv_current_vcpu me s"
  by (simp_all add: riscv_current_vcpu_def cong: option.case_cong)

lemma running_as_upd [simp]:
  "running_as h (upd_vcpu v f s) = running_as h s"
  "running_as h (upd_hart m g s) = running_as h s"
  "running_as h (emit e s) = running_as h s"
  by (simp_all add: running_as_def fun_eq_iff cong: option.case_cong)

lemma find_guest_vcpu_upd [simp]:
  "riscv_find_guest_vcpu h (upd_vcpu v f s) = riscv_find_guest_vcpu h s"
  "riscv_find_guest_vcpu h (upd_hart m g s) = riscv_find_guest_vcpu h s"
  "riscv_find_guest_vcpu h (emit e s) = riscv_find_guest_vcpu h s"
  by (simp_all add: riscv_find_guest_vcpu_def)

lemma find_guest_vcpu_mpidr:
  "riscv_find_guest_vcpu h s = Some t \<Longrightarrow> t_mpidr (tasks s t) = h"
  unfolding riscv_find_guest_vcpu_def
  by (cases "List.find (running_as h s) [0, 1, 2, 3]")
     (auto simp: find_Some_iff running_as_def simp del: find.simps split: option.splits)

section \<open>The all-zero machine\<close>

text \<open>What \<^verbatim>\<open>memset\<close> and static initialisation give; the starting point of concrete runs.\<close>

definition zero_regs :: cpu_user_regs where
  "zero_regs = \<lparr>
    slot = (\<lambda>_. 0), fr_sstatus = 0, fr_sbadaddr = 0, fr_scause = 0, fr_orig_a0 = 0\<rparr>"

definition zero_vcpu :: rvcpu where
  "zero_vcpu = \<lparr>
    vcpu_id = 0, vcpu_priority = 0, v_hstatus = 0, v_hie = 0, virt_irq_pending = 0,
    v_vsstatus = 0, v_vsie = 0, v_vstvec = 0, v_vsscratch = 0, v_vsepc = 0, v_vscause = 0,
    v_vstval = 0, v_vsatp = 0, v_f = (\<lambda>_. 0), v_fcsr = 0, v_vstart = 0, v_vxsat = 0,
    v_vxrm = 0, v_vcsr = 0, v_vl = 0, v_vtype = 0, v_vlenb = 0, v_vregs = None, v_vregs_size = 0,
    v_timer = \<lparr>deadline_cycles = 0, armed = False, pending = False\<rparr>, v_stack = 0,
    v_regs = zero_regs, v_mem = []\<rparr>"

definition zero_task :: hyper_task where
  "zero_task = \<lparr>
    t_id = 0, t_priority = 0, t_name = [], t_state = TASK_READY, t_vcpu = None, t_mpidr = 0,
    t_affinity = 0, t_switch_count = 0\<rparr>"

definition zero_hart :: hart where
  "zero_hart = \<lparr>
    sstatus = 0, sie = 0, sip = 0, stval = 0, hstatus = 0, hedeleg = 0, hideleg = 0, hie = 0,
    hvip = 0, htval = 0, htinst = 0, vsstatus = 0, vsie = 0, vstvec = 0, vsscratch = 0,
    vsepc = 0, vscause = 0, vstval = 0, vsatp = 0, h_f = (\<lambda>_. 0), h_fcsr = 0,
    h_vstart = 0, h_vcsr = 0, h_vl = 0, h_vtype = 0, h_vlenb = 0,
    h_v = (\<lambda>_ _. 0)\<rparr>"

definition zero_uart :: ns16550a_state where
  "zero_uart = \<lparr>
    rx_fifo = replicate 128 0, rx_head = 0, rx_tail = 0, rx_count = 0, u_dll = 0, u_dlm = 0,
    u_ier = 0, u_iir = 0, u_fcr = 0, u_lcr = 0, u_mcr = 0, u_lsr = 0, u_msr = 0, u_scr = 0,
    tx_irq_pending = False\<rparr>"

definition zero_rv :: rv where
  "zero_rv = \<lparr>
    vcpus = (\<lambda>_. zero_vcpu), tasks = (\<lambda>_. zero_task),
    g_current_task = (\<lambda>_. None), g_running = (\<lambda>_. None), g_ready_list = [],
    g_wait_list = [], g_boot_vcpu_started = False, harts = (\<lambda>_. zero_hart), now = 0,
    g_ipi_pending = (\<lambda>_. 0), g_ipi_complete = (\<lambda>_ _. 0),
    g_tlb_shootdown_fn = None, g_cpu_count = 4, g_cpu_to_hart = (\<lambda>i. i),
    guest_vcpu_count = 4, g_vplic = replicate 153 0, g_uart = zero_uart,
    g_empty_regs = zero_regs, g_vcpu_task_id = 1, g_boot_hart_id = - 1, g_scratch = (\<lambda>_. (0, 0)), effects = []\<rparr>"

lemmas zero_defs = zero_regs_def zero_vcpu_def zero_task_def zero_hart_def zero_uart_def zero_rv_def

end
