(* ===== verification/Guest_Mem.thy ===== *)
theory Guest_Mem
  imports Riscv_State
begin

text \<open>
  Guest memory regions (\<^verbatim>\<open>src/core/guest_memory.c\<close>) and the binding of emulated devices to them
  (\<^verbatim>\<open>src/core/emul_dev.c\<close>). The region list of a virtual CPU and the list of registered drivers are
  lists in insertion order (both are filled by \<open>list_add_tail\<close> and traversed from the front).
  Addresses are 64-bit words, so \<open>gpa + size\<close> wraps as in the code.
\<close>

section \<open>Model\<close>

definition guest_mem_add_region :: "mem_region \<Rightarrow> mem_region list \<Rightarrow> mem_region list" where
  "guest_mem_add_region mem regions = regions @ [mem]"

definition is_overlapping :: "u64 \<Rightarrow> u64 \<Rightarrow> u64 \<Rightarrow> u64 \<Rightarrow> bool" where
  "is_overlapping gpa1 size1 gpa2 size2 =
     (let end1 = gpa1 + size1; end2 = gpa2 + size2 in \<not> (end1 \<le> gpa2 \<or> end2 \<le> gpa1))"

definition check_overlap :: "mem_region list \<Rightarrow> mem_region \<Rightarrow> bool" where
  "check_overlap regions mem =
     list_ex (\<lambda>pos. is_overlapping (mr_gpa pos) (mr_size pos) (mr_gpa mem) (mr_size mem)) regions"

text \<open>
  The loop body of \<open>guest_mem_insert_region\<close> is empty: the function checks for an overlap and
  leaves the list as it was on every path.
\<close>

definition guest_mem_insert_region :: "mem_region list \<Rightarrow> mem_region \<Rightarrow> mem_region list" where
  "guest_mem_insert_region regions mem =
     (if check_overlap regions mem then regions else fold (\<lambda>pos acc. acc) regions regions)"

definition region_contains :: "u64 \<Rightarrow> mem_region \<Rightarrow> bool" where
  "region_contains gpa pos \<longleftrightarrow> mr_gpa pos \<le> gpa \<and> gpa < mr_gpa pos + mr_size pos"

definition guest_mem_find_region :: "mem_region list \<Rightarrow> u64 \<Rightarrow> mem_region option" where
  "guest_mem_find_region regions gpa = List.find (region_contains gpa) regions"

subsection \<open>Drivers\<close>

definition register_emul_driver :: "string \<Rightarrow> string list \<Rightarrow> string list" where
  "register_emul_driver driver drivers = drivers @ [driver]"

definition init_emul_dev :: "string list" where
  "init_emul_dev = register_emul_driver ''ns16550a'' (register_emul_driver ''riscv-plic'' [])"

definition probe_emul_dev :: "string list \<Rightarrow> mem_region \<Rightarrow> mem_region" where
  "probe_emul_dev drivers region =
     fold (\<lambda>pos r. if pos = mr_match_name r then r\<lparr>mr_dev := Some pos\<rparr> else r) drivers region"

section \<open>Lookup\<close>

text \<open>A region that does not wrap around the end of the address space.\<close>

definition region_wf :: "mem_region \<Rightarrow> bool" where
  "region_wf r \<longleftrightarrow> 0 < mr_size r \<and> unat (mr_gpa r) + unat (mr_size r) < 2 ^ 64"

definition region_set :: "mem_region \<Rightarrow> nat set" where
  "region_set r = {unat (mr_gpa r) ..< unat (mr_gpa r) + unat (mr_size r)}"

lemma region_end: "region_wf r \<Longrightarrow> unat (mr_gpa r + mr_size r) = unat (mr_gpa r) + unat (mr_size r)"
  by (simp add: region_wf_def unat_add_lem [THEN iffD1])

lemma region_contains_iff: "region_wf r \<Longrightarrow> region_contains gpa r \<longleftrightarrow> unat gpa \<in> region_set r"
  by (simp add: region_contains_def region_set_def region_end word_le_nat_alt word_less_nat_alt)

lemma region_set_nonempty: "region_wf r \<Longrightarrow> unat (mr_gpa r) \<in> region_set r"
  by (simp add: region_wf_def region_set_def word_greater_zero_iff unat_gt_0)

lemma is_overlapping_iff:
  assumes "region_wf r" "region_wf q"
  shows "is_overlapping (mr_gpa r) (mr_size r) (mr_gpa q) (mr_size q) \<longleftrightarrow> region_set r \<inter> region_set q \<noteq> {}"
proof -
  have pos: "0 < unat (mr_size r)" "0 < unat (mr_size q)"
    using assms by (auto simp: region_wf_def word_less_nat_alt)
  have "is_overlapping (mr_gpa r) (mr_size r) (mr_gpa q) (mr_size q) \<longleftrightarrow>
      unat (mr_gpa q) < unat (mr_gpa r) + unat (mr_size r) \<and> unat (mr_gpa r) < unat (mr_gpa q) + unat (mr_size q)"
    using region_end [OF assms(1)] region_end [OF assms(2)]
    by (auto simp: is_overlapping_def Let_def word_le_nat_alt not_le)
  also have "\<dots> \<longleftrightarrow> max (unat (mr_gpa r)) (unat (mr_gpa q)) \<in> region_set r \<inter> region_set q"
    using pos by (auto simp: region_set_def)
  also have "\<dots> \<longleftrightarrow> region_set r \<inter> region_set q \<noteq> {}"
    by (auto simp: region_set_def)
  finally show ?thesis .
qed

definition regions_wf :: "mem_region list \<Rightarrow> bool" where
  "regions_wf rs \<longleftrightarrow> (\<forall>r \<in> set rs. region_wf r) \<and>
     (\<forall>i j. i < length rs \<and> j < length rs \<and> i \<noteq> j \<longrightarrow> region_set (rs ! i) \<inter> region_set (rs ! j) = {})"

lemma regions_wf_snoc:
  assumes "regions_wf rs" "region_wf m" "\<not> check_overlap rs m"
  shows "regions_wf (guest_mem_add_region m rs)"
proof -
  have "region_set (rs ! i) \<inter> region_set m = {} \<and> region_set m \<inter> region_set (rs ! i) = {}"
    if "i < length rs" for i
    using assms nth_mem [OF that] is_overlapping_iff [of "rs ! i" m]
    by (auto simp: check_overlap_def list_ex_iff regions_wf_def)
  with assms(1,2) show ?thesis
    by (auto simp: regions_wf_def guest_mem_add_region_def nth_append less_Suc_eq)
qed

section \<open>Properties\<close>

text \<open>
  The overlap test is exact: for regions that do not wrap around the address space it reports an
  overlap iff they share an address.
\<close>

theorem overlap_test_exact:
  assumes "region_wf r" "region_wf q"
  shows "is_overlapping (mr_gpa r) (mr_size r) (mr_gpa q) (mr_size q) \<longleftrightarrow> (\<exists>a. region_contains a r \<and> region_contains a q)"
proof -
  have "(\<exists>a. region_contains a r \<and> region_contains a q) \<longleftrightarrow> region_set r \<inter> region_set q \<noteq> {}"
  proof -
    have "\<exists>a :: u64. unat a = n" if "n \<in> region_set r" for n
      using that assms(1) by (intro exI [of _ "of_nat n"] unat_of_nat_small) (auto simp: region_set_def region_wf_def)
    then show ?thesis using assms by (auto simp: region_contains_iff)
  qed
  then show ?thesis using is_overlapping_iff [OF assms] by simp
qed

theorem overlap_test_exact_witness:
  "let r = \<lparr>mr_gpa = 0x1000, mr_hpa = 0, mr_size = 0x1000, mr_attr = 0, mr_dev = None, mr_match_name = []\<rparr>
   in is_overlapping (mr_gpa r) (mr_size r) (mr_gpa r) (mr_size r) \<longleftrightarrow> (\<exists>a. region_contains a r \<and> region_contains a r)"
  unfolding Let_def by (rule overlap_test_exact) (simp_all add: region_wf_def)

lemma find_region_of_member:
  assumes "regions_wf rs" "r \<in> set rs" "region_contains gpa r"
  shows "guest_mem_find_region rs gpa = Some r"
proof -
  obtain i where i: "i < length rs" "rs ! i = r" using assms(2) by (auto simp: in_set_conv_nth)
  have "guest_mem_find_region rs gpa \<noteq> None"
    using assms by (auto simp: guest_mem_find_region_def find_None_iff)
  then obtain q j where q: "guest_mem_find_region rs gpa = Some q" "j < length rs" "rs ! j = q"
    "region_contains gpa q" by (auto simp: guest_mem_find_region_def find_Some_iff)
  have "unat gpa \<in> region_set (rs ! i) \<inter> region_set (rs ! j)"
    using assms i q by (auto simp: regions_wf_def region_contains_iff)
  then have "i = j" using assms(1) i q unfolding regions_wf_def by blast
  with i q show ?thesis by simp
qed

text \<open>
  Lookup in a list of disjoint regions is unambiguous: it returns exactly the region that
  contains the address, whatever the order of the list, and none iff no region contains it.
\<close>

theorem find_region_unique:
  assumes "regions_wf rs"
  shows "guest_mem_find_region rs gpa = Some r \<longleftrightarrow> r \<in> set rs \<and> region_contains gpa r"
  using find_region_of_member [OF assms]
  by (auto simp: guest_mem_find_region_def find_Some_iff)

theorem find_region_unique_witness:
  "let r = \<lparr>mr_gpa = 0x1000, mr_hpa = 0, mr_size = 0x1000, mr_attr = 0, mr_dev = None, mr_match_name = []\<rparr>
   in guest_mem_find_region [r] 0x1800 = Some r"
proof -
  let ?r = "\<lparr>mr_gpa = 0x1000, mr_hpa = 0, mr_size = 0x1000, mr_attr = 0, mr_dev = None, mr_match_name = []\<rparr>"
  have "regions_wf [?r]" by (simp add: regions_wf_def region_wf_def)
  from find_region_unique [OF this, of "0x1800" ?r] show ?thesis by (simp add: Let_def region_contains_def)
qed

end
