(* ===== verification/Riscv_Vcpu.thy ===== *)
theory Riscv_Vcpu
  imports Guest_Mem
begin

text \<open>
  Virtual CPU contexts (\<^verbatim>\<open>src/arch/riscv64/vcpu.c\<close> and \<^verbatim>\<open>riscv_arch_ops.c\<close>): the initial state of a
  virtual CPU and its memory regions, and the transfer of the VS-mode registers, the floating-point
  registers and the vector registers between a hart and a virtual CPU.

  The inline assembly is modelled on the hart's registers. \<^verbatim>\<open>vxsat\<close> and \<^verbatim>\<open>vxrm\<close> are the fields of
  \<^verbatim>\<open>vcsr\<close>; a vector instruction resets \<^verbatim>\<open>vstart\<close>; \<^verbatim>\<open>vsetvl\<close> sets \<^verbatim>\<open>vl\<close> to the smaller of its
  argument and the maximal length for the type, and an unsupported type sets the bit \<^verbatim>\<open>vill\<close>. The
  result of \<^verbatim>\<open>kmalloc\<close> is an argument of the operations that call it.
\<close>

section \<open>Configuration and constants\<close>

record riscv_config =
  has_fpu :: bool
  has_vector :: bool
  guest_dtb_addr :: u64
  guest_ram_base :: u64
  guest_ram_size :: u64

abbreviation (input) "SSTATUS_FS \<equiv> 0x6000::u64"
abbreviation (input) "SSTATUS_FS_INITIAL \<equiv> 0x2000::u64"
abbreviation (input) "SSTATUS_FS_DIRTY \<equiv> 0x6000::u64"
abbreviation (input) "SSTATUS_VS \<equiv> 0x600::u64"
abbreviation (input) "SSTATUS_VS_INITIAL \<equiv> 0x200::u64"
abbreviation (input) "SSTATUS_VS_DIRTY \<equiv> 0x600::u64"
abbreviation (input) "SSTATUS_SPIE_INIT \<equiv> 0x20::u64"

definition HSTATUS_VS :: u64 where
  "HSTATUS_VS = 0x80 OR 0x100"

section \<open>Floating-point state\<close>

definition fpu_dirty :: "u64 \<Rightarrow> bool" where
  "fpu_dirty vss \<longleftrightarrow> vss AND SSTATUS_FS = SSTATUS_FS_DIRTY"

definition fpu_save :: "rvcpu \<Rightarrow> hart \<Rightarrow> rvcpu \<times> hart" where
  "fpu_save c h =
     (let old = sstatus h;
          h1 = h\<lparr>sstatus := sstatus h OR SSTATUS_FS_DIRTY\<rparr>;
          c1 = c\<lparr>v_f := fold (\<lambda>i f. f(i := h_f h1 i)) [0..<32] (v_f c)\<rparr>;
          c2 = c1\<lparr>v_fcsr := h_fcsr h1\<rparr>
      in (c2, h1\<lparr>sstatus := old\<rparr>))"

definition fpu_restore :: "rvcpu \<Rightarrow> hart \<Rightarrow> hart" where
  "fpu_restore c h =
     (let old = sstatus h;
          h1 = h\<lparr>sstatus := sstatus h OR SSTATUS_FS_DIRTY\<rparr>;
          h2 = h1\<lparr>h_f := fold (\<lambda>i f. f(i := v_f c i)) [0..<32] (h_f h1)\<rparr>;
          h3 = h2\<lparr>h_fcsr := v_fcsr c\<rparr>
      in h3\<lparr>sstatus := old\<rparr>)"

section \<open>Vector state\<close>

text \<open>Vector instructions of the inline assembly.\<close>

definition vtype_legal :: "u64 \<Rightarrow> bool" where
  "vtype_legal vt \<longleftrightarrow> drop_bit 8 vt = 0 \<and> drop_bit 3 vt AND 7 \<le> 3 \<and> vt AND 7 \<noteq> 4"

definition vlmax :: "u64 \<Rightarrow> u64 \<Rightarrow> nat" where
  "vlmax vlenb vt =
     (let sew = 8 * 2 ^ unat (drop_bit 3 vt AND 7); m = unat (vt AND 7); vlen = unat vlenb * 8
      in if m < 4 then vlen * 2 ^ m div sew else vlen div (sew * 2 ^ (8 - m)))"

definition vsetvl :: "u64 \<Rightarrow> u64 \<Rightarrow> hart \<Rightarrow> hart" where
  "vsetvl avl vt h =
     (if vtype_legal vt
      then h\<lparr>h_vtype := vt, h_vl := of_nat (min (unat avl) (vlmax (h_vlenb h) vt)), h_vstart := 0\<rparr>
      else h\<lparr>h_vtype := push_bit 63 1, h_vl := 0, h_vstart := 0\<rparr>)"

definition vse8 :: "nat \<Rightarrow> nat \<Rightarrow> hart \<Rightarrow> (nat \<Rightarrow> u8) \<Rightarrow> nat \<Rightarrow> u8" where
  "vse8 r base h buf = (\<lambda>i. if base \<le> i \<and> i < base + unat (h_vl h) then h_v h r (i - base) else buf i)"

definition vle8 :: "nat \<Rightarrow> nat \<Rightarrow> (nat \<Rightarrow> u8) \<Rightarrow> hart \<Rightarrow> hart" where
  "vle8 r base buf h = h\<lparr>h_vstart := 0,
     h_v := (h_v h)(r := (\<lambda>k. if k < unat (h_vl h) then buf (base + k) else h_v h r k))\<rparr>"

abbreviation (input) "E8_M1_TA_MA \<equiv> 0xC0::u64"

definition csrr_vxsat :: "hart \<Rightarrow> u64" where "csrr_vxsat h = h_vcsr h AND 1"
definition csrr_vxrm :: "hart \<Rightarrow> u64" where "csrr_vxrm h = drop_bit 1 (h_vcsr h) AND 3"
definition csrw_vxsat :: "u64 \<Rightarrow> hart \<Rightarrow> hart" where
  "csrw_vxsat x h = h\<lparr>h_vcsr := h_vcsr h AND NOT 1 OR (x AND 1)\<rparr>"
definition csrw_vxrm :: "u64 \<Rightarrow> hart \<Rightarrow> hart" where
  "csrw_vxrm x h = h\<lparr>h_vcsr := h_vcsr h AND NOT 6 OR push_bit 1 (x AND 3)\<rparr>"
definition csrw_vcsr :: "u64 \<Rightarrow> hart \<Rightarrow> hart" where
  "csrw_vcsr x h = h\<lparr>h_vcsr := x AND 7\<rparr>"

definition vector_dirty :: "u64 \<Rightarrow> bool" where
  "vector_dirty vss \<longleftrightarrow> vss AND SSTATUS_VS = SSTATUS_VS_DIRTY"

definition vector_regs_save :: "(u64 \<Rightarrow> (nat \<Rightarrow> u8) option) \<Rightarrow> rvcpu \<Rightarrow> hart \<Rightarrow> rvcpu \<times> hart" where
  "vector_regs_save kmalloc c h =
     (if v_vlenb c = 0 then (c, h)
      else let size = v_vlenb c * 32;
               c1 = (case v_vregs c of
                       None \<Rightarrow> c\<lparr>v_vregs := kmalloc size, v_vregs_size := size\<rparr>
                     | Some _ \<Rightarrow> c)
           in case v_vregs c1 of
                None \<Rightarrow> (c1, h)
              | Some base \<Rightarrow>
                  if v_vregs_size c1 < size then (c1, h)
                  else let h1 = vsetvl (v_vlenb c1) E8_M1_TA_MA h
                       in (c1\<lparr>v_vregs := Some (fold (\<lambda>r. vse8 r (r * unat (v_vlenb c1)) h1) [0..<32] base)\<rparr>, h1))"

definition vector_regs_restore :: "rvcpu \<Rightarrow> hart \<Rightarrow> hart" where
  "vector_regs_restore c h =
     (case v_vregs c of
        None \<Rightarrow> h
      | Some base \<Rightarrow>
          if v_vlenb c = 0 then h
          else fold (\<lambda>r. vle8 r (r * unat (v_vlenb c)) base) [0..<32] (vsetvl (v_vlenb c) E8_M1_TA_MA h))"

definition vector_csr_save :: "(u64 \<Rightarrow> (nat \<Rightarrow> u8) option) \<Rightarrow> rvcpu \<Rightarrow> hart \<Rightarrow> rvcpu \<times> hart" where
  "vector_csr_save kmalloc c h =
     (let old = sstatus h;
          h1 = h\<lparr>sstatus := sstatus h OR SSTATUS_VS_DIRTY\<rparr>;
          c1 = c\<lparr>v_vstart := h_vstart h1, v_vxsat := csrr_vxsat h1, v_vxrm := csrr_vxrm h1, v_vcsr := h_vcsr h1,
                 v_vl := h_vl h1, v_vtype := h_vtype h1, v_vlenb := h_vlenb h1\<rparr>;
          (c2, h2) = vector_regs_save kmalloc c1 h1
      in (c2, h2\<lparr>sstatus := old\<rparr>))"

definition vector_csr_restore :: "rvcpu \<Rightarrow> hart \<Rightarrow> hart" where
  "vector_csr_restore c h =
     (let old = sstatus h;
          h1 = vector_regs_restore c (h\<lparr>sstatus := sstatus h OR SSTATUS_VS_DIRTY\<rparr>);
          h2 = h1\<lparr>h_vstart := v_vstart c\<rparr>;
          h3 = csrw_vcsr (v_vcsr c) (csrw_vxrm (v_vxrm c) (csrw_vxsat (v_vxsat c) h2));
          h4 = vsetvl (v_vl c) (v_vtype c) h3
      in h4\<lparr>sstatus := old\<rparr>)"

section \<open>Context save and restore\<close>

definition vcpu_context_save ::
    "riscv_config \<Rightarrow> (u64 \<Rightarrow> (nat \<Rightarrow> u8) option) \<Rightarrow> int \<Rightarrow> nat \<Rightarrow> rv \<Rightarrow> rv" where
  "vcpu_context_save cfg kmalloc me v s =
     (let h = harts s me;
          c1 = (vcpus s v)\<lparr>v_hstatus := hstatus h AND HSTATUS_VS, v_vsstatus := vsstatus h, v_vsie := vsie h,
                 v_vsepc := vsepc h, v_vstvec := vstvec h, v_vsscratch := vsscratch h, v_vscause := vscause h,
                 v_vstval := vstval h, v_vsatp := vsatp h, v_hie := hie h\<rparr>;
          h1 = h\<lparr>hvip := 0\<rparr>;
          (c2, h2) = (if has_fpu cfg \<and> fpu_dirty (v_vsstatus c1) then fpu_save c1 h1 else (c1, h1));
          (c3, h3) = (if has_vector cfg \<and> vector_dirty (v_vsstatus c2) then vector_csr_save kmalloc c2 h2 else (c2, h2))
      in upd_hart me (\<lambda>_. h3) (upd_vcpu v (\<lambda>_. c3) s))"

definition GUEST_HEDELEG :: u64 where
  "GUEST_HEDELEG = push_bit 0 1 OR push_bit 2 1 OR push_bit 3 1 OR push_bit 4 1 OR push_bit 6 1 OR
     push_bit 8 1 OR push_bit 12 1 OR push_bit 13 1 OR push_bit 15 1"

definition GUEST_HIDELEG :: u64 where
  "GUEST_HIDELEG = push_bit 2 1 OR push_bit 6 1 OR push_bit 10 1"

definition vcpu_context_restore :: "riscv_config \<Rightarrow> int \<Rightarrow> nat \<Rightarrow> rv \<Rightarrow> rv" where
  "vcpu_context_restore cfg me v s =
     (let c = vcpus s v;
          h = harts s me;
          h1 = (if has_fpu cfg \<and> fpu_dirty (v_vsstatus c) then fpu_restore c h else h);
          h2 = (if has_vector cfg \<and> vector_dirty (v_vsstatus c) then vector_csr_restore c h1 else h1);
          h3 = h2\<lparr>vsstatus := v_vsstatus c, vsie := v_vsie c, vsepc := v_vsepc c, vstvec := v_vstvec c,
                  vsscratch := v_vsscratch c, vscause := v_vscause c, vstval := v_vstval c, vsatp := v_vsatp c\<rparr>;
          h4 = h3\<lparr>hie := v_hie c, hvip := 0, hedeleg := GUEST_HEDELEG, hideleg := GUEST_HIDELEG\<rparr>;
          hs = hstatus h4 AND NOT HSTATUS_VS OR (v_hstatus c AND HSTATUS_VS)
      in upd_hart me (\<lambda>_. h4\<lparr>hstatus := hs\<rparr>) s)"

section \<open>Initial state\<close>

definition blank_region :: mem_region where
  "blank_region = \<lparr>mr_gpa = 0, mr_hpa = 0, mr_size = 0, mr_attr = 0, mr_dev = None, mr_match_name = []\<rparr>"

definition ram_region :: "riscv_config \<Rightarrow> mem_region" where
  "ram_region cfg = blank_region\<lparr>mr_gpa := guest_ram_base cfg, mr_hpa := guest_ram_base cfg,
     mr_size := guest_ram_size cfg, mr_attr := 30\<rparr>"

definition uart_region :: "string list \<Rightarrow> mem_region" where
  "uart_region drivers = probe_emul_dev drivers
     (blank_region\<lparr>mr_gpa := 0x20000000, mr_size := 0x1000, mr_match_name := ''ns16550a''\<rparr>)"

definition plic_region :: "string list \<Rightarrow> mem_region" where
  "plic_region drivers = probe_emul_dev drivers
     (blank_region\<lparr>mr_gpa := 0x0C000000, mr_size := 0x400000, mr_match_name := ''riscv-plic''\<rparr>)"

text \<open>
  The three allocations of \<open>arch_vcpu_init\<close> are not checked: \<open>km i\<close> tells whether the \<open>i\<close>-th succeeds,
  and a null result is written through, the value \<open>None\<close>.
\<close>

definition arch_vcpu_init ::
    "riscv_config \<Rightarrow> string list \<Rightarrow> (nat \<Rightarrow> bool) \<Rightarrow> u64 \<Rightarrow> u64 \<Rightarrow> rvcpu \<Rightarrow> (int \<times> rvcpu) option" where
  "arch_vcpu_init cfg drivers km entry stack c =
     (let r = set_slot 11 (guest_dtb_addr cfg) (set_slot 10 0 (set_slot 2 stack (set_slot 1 entry
                (set_slot 0 entry (v_regs c)))));
          st = (if has_fpu cfg then SSTATUS_SPIE_INIT OR SSTATUS_FS_INITIAL else SSTATUS_SPIE_INIT);
          st2 = (if has_vector cfg then st OR SSTATUS_VS_INITIAL else st);
          c1 = c\<lparr>v_stack := stack, v_regs := r, v_hstatus := HSTATUS_VS, v_vsstatus := st2, v_mem := []\<rparr>
      in if \<not> km 0 then None
         else let c2 = c1\<lparr>v_mem := guest_mem_add_region (ram_region cfg) (v_mem c1)\<rparr>
         in if \<not> km 1 then None
         else let c3 = c2\<lparr>v_mem := guest_mem_add_region (uart_region drivers) (v_mem c2)\<rparr>
         in if \<not> km 2 then None
         else Some (0, c3\<lparr>v_mem := guest_mem_add_region (plic_region drivers) (v_mem c3)\<rparr>))"

text \<open>The operations of \<^verbatim>\<open>riscv_arch_ops.c\<close>; \<open>sink\<close> is the address of \<open>sink_task\<close>.\<close>

definition riscv_vcpu_create :: "rvcpu \<Rightarrow> int \<times> rvcpu" where
  "riscv_vcpu_create c = (0, c)"

definition riscv_vcpu_task_init :: "riscv_config \<Rightarrow> u64 \<Rightarrow> u64 \<Rightarrow> u64 \<Rightarrow> u64 \<Rightarrow> u64 \<Rightarrow> rvcpu \<Rightarrow> int \<times> rvcpu" where
  "riscv_vcpu_task_init cfg sink entry arg0 arg1 stack c =
     (let r = (set_slot 0 entry (set_slot 1 sink (v_regs c)));
          st = 0x100 OR 0x20;
          st1 = (if has_fpu cfg then st OR SSTATUS_FS_INITIAL else st);
          st2 = (if has_vector cfg then st1 OR SSTATUS_VS_INITIAL else st1);
          r2 = set_slot 11 arg1 (set_slot 10 arg0 (set_slot 2 stack (r\<lparr>fr_sstatus := st2\<rparr>)))
      in (0, c\<lparr>v_regs := r2\<rparr>))"

section \<open>Loops of the assembly\<close>

lemma fold_upd_upt: "fold (\<lambda>i f. f(i := g i)) [0..<n] f = (\<lambda>i. if i < n then g i else f i)"
  by (induction n) (auto simp: fun_eq_iff)

lemma vse8_fold:
  assumes "unat (h_vl h) = L"
  shows "fold (\<lambda>r. vse8 r (r * L) h) [0..<n] buf =
    (\<lambda>i. if i < n * L then h_v h (i div L) (i mod L) else buf i)"
proof (induction n)
  case (Suc n)
  have "i div L = n \<and> i mod L = i - n * L" if "n * L \<le> i" "i < n * L + L" for i
  proof -
    have "i = n * L + (i - n * L)" "i - n * L < L" using that by auto
    then show ?thesis by (metis add.commute add_0_right div_less div_mult_self3 mod_less mod_mult_self1 mult.commute
      not_less_zero)
  qed
  then show ?case using Suc assms by (auto simp: vse8_def fun_eq_iff)
qed simp

lemma vle8_fold:
  "fold (\<lambda>r. vle8 r (r * L) buf) [0..<Suc n] h = h\<lparr>h_vstart := 0, h_v := (\<lambda>r k.
     if r < Suc n \<and> k < unat (h_vl h) then buf (r * L + k) else h_v h r k)\<rparr>"
  by (induction n) (auto simp: vle8_def fun_eq_iff intro!: hart.equality)

lemma e8m1: "vtype_legal E8_M1_TA_MA" "vlmax L E8_M1_TA_MA = unat L"
  by (simp_all add: vtype_legal_def vlmax_def)

lemma vsetvl_e8m1:
  "vsetvl L E8_M1_TA_MA h = h\<lparr>h_vtype := E8_M1_TA_MA, h_vl := of_nat (min (unat L) (unat (h_vlenb h))), h_vstart := 0\<rparr>"
  by (simp add: vsetvl_def e8m1)

section \<open>Round trip\<close>

text \<open>What a guest can read of the registers of the hart it runs on.\<close>

definition same_guest_csrs :: "hart \<Rightarrow> hart \<Rightarrow> bool" where
  "same_guest_csrs h g \<longleftrightarrow> vsstatus h = vsstatus g \<and> vsie h = vsie g \<and> vstvec h = vstvec g \<and>
     vsscratch h = vsscratch g \<and> vsepc h = vsepc g \<and> vscause h = vscause g \<and> vstval h = vstval g \<and>
     vsatp h = vsatp g \<and> hie h = hie g \<and> hstatus h AND HSTATUS_VS = hstatus g AND HSTATUS_VS"

definition same_guest_fp :: "hart \<Rightarrow> hart \<Rightarrow> bool" where
  "same_guest_fp h g \<longleftrightarrow> h_fcsr h = h_fcsr g \<and> (\<forall>i < 32. h_f h i = h_f g i)"

definition same_guest_vector :: "hart \<Rightarrow> hart \<Rightarrow> bool" where
  "same_guest_vector h g \<longleftrightarrow> h_vcsr h = h_vcsr g \<and> h_vl h = h_vl g \<and> h_vtype h = h_vtype g \<and>
     (\<forall>r < 32. \<forall>k < unat (h_vlenb g). h_v h r k = h_v g r k)"

text \<open>
  A vector unit in a state the hardware can be in: a legal type with a length within its maximum, or
  the illegal type with length 0; rounding mode and saturation flag in range; at most 65536-bit registers.
\<close>

definition vector_unit_ok :: "hart \<Rightarrow> bool" where
  "vector_unit_ok h \<longleftrightarrow> h_vcsr h AND 7 = h_vcsr h \<and> 0 < h_vlenb h \<and> h_vlenb h \<le> 8192 \<and>
     (vtype_legal (h_vtype h) \<and> unat (h_vl h) \<le> vlmax (h_vlenb h) (h_vtype h) \<or>
      h_vtype h = push_bit 63 1 \<and> h_vl h = 0)"

text \<open>The buffer for the vector registers exists and is large enough, or can be allocated.\<close>

definition vector_buffer_ok :: "(u64 \<Rightarrow> (nat \<Rightarrow> u8) option) \<Rightarrow> u64 \<Rightarrow> rvcpu \<Rightarrow> bool" where
  "vector_buffer_ok kmalloc vlenb c \<longleftrightarrow>
     (case v_vregs c of None \<Rightarrow> kmalloc (vlenb * 32) \<noteq> None | Some _ \<Rightarrow> vlenb * 32 \<le> v_vregs_size c)"

lemma fpu_restore_save:
  "same_guest_fp (fpu_restore (fst (fpu_save c h)) g) h"
  by (simp add: fpu_save_def fpu_restore_def Let_def same_guest_fp_def fold_upd_upt)

lemma vsetvl_again:
  assumes "vector_unit_ok h" "h_vlenb g = h_vlenb h"
  shows "h_vl (vsetvl (h_vl h) (h_vtype h) g) = h_vl h \<and> h_vtype (vsetvl (h_vl h) (h_vtype h) g) = h_vtype h"
proof -
  have "\<not> vtype_legal (push_bit 63 1)" by (simp add: vtype_legal_def)
  with assms show ?thesis by (auto simp: vsetvl_def vector_unit_ok_def min_absorb1)
qed

lemma vsetvl_frame [simp]:
  "h_vcsr (vsetvl a t h) = h_vcsr h" "h_v (vsetvl a t h) = h_v h" "h_vlenb (vsetvl a t h) = h_vlenb h"
  "h_vstart (vsetvl a t h) = 0"
  by (simp_all add: vsetvl_def)

lemma vcsr_frame [simp]:
  "h_v (csrw_vcsr x h) = h_v h" "h_v (csrw_vxrm x h) = h_v h" "h_v (csrw_vxsat x h) = h_v h"
  "h_vlenb (csrw_vcsr x h) = h_vlenb h" "h_vlenb (csrw_vxrm x h) = h_vlenb h" "h_vlenb (csrw_vxsat x h) = h_vlenb h"
  "h_vcsr (csrw_vcsr x h) = x AND 7"
  by (simp_all add: csrw_vcsr_def csrw_vxrm_def csrw_vxsat_def)

lemma vector_regs_save_eq:
  assumes L: "v_vlenb c = h_vlenb h" "0 < h_vlenb h" and buf: "vector_buffer_ok kmalloc (h_vlenb h) c"
  shows "\<exists>b0. vector_regs_save kmalloc c h = (c\<lparr>v_vregs := Some (fold (\<lambda>r. vse8 r (r * unat (h_vlenb h))
      (vsetvl (h_vlenb h) E8_M1_TA_MA h)) [0..<32] b0),
      v_vregs_size := (if v_vregs c = None then h_vlenb h * 32 else v_vregs_size c)\<rparr>, vsetvl (h_vlenb h) E8_M1_TA_MA h)"
proof (cases "v_vregs c")
  case None
  with buf obtain b where "kmalloc (h_vlenb h * 32) = Some b" by (auto simp: vector_buffer_ok_def)
  with L None show ?thesis by (intro exI [of _ b]) (simp add: vector_regs_save_def Let_def word_gt_0 del: upt_rec_numeral fold_simps)
next
  case (Some b)
  with buf have "\<not> v_vregs_size c < h_vlenb h * 32" by (simp add: vector_buffer_ok_def not_less)
  with L Some show ?thesis by (intro exI [of _ b]) (simp add: vector_regs_save_def Let_def word_gt_0 del: upt_rec_numeral fold_simps)
qed

lemma vector_regs_roundtrip:
  assumes L: "v_vlenb c = h_vlenb h" "0 < h_vlenb h" "h_vlenb g = h_vlenb h"
    and buf: "vector_buffer_ok kmalloc (h_vlenb h) c"
  shows "\<forall>r < 32. \<forall>k < unat (h_vlenb h).
    h_v (vector_regs_restore (fst (vector_regs_save kmalloc c h)) g) r k = h_v h r k"
proof (intro allI impI)
  fix r k :: nat assume rk: "r < 32" "k < unat (h_vlenb h)"
  let ?L = "unat (h_vlenb h)"
  let ?h1 = "vsetvl (h_vlenb h) E8_M1_TA_MA h"
  obtain b0 where sv: "vector_regs_save kmalloc c h = (c\<lparr>v_vregs := Some (fold (\<lambda>r. vse8 r (r * ?L) ?h1) [0..<32] b0),
      v_vregs_size := (if v_vregs c = None then h_vlenb h * 32 else v_vregs_size c)\<rparr>, ?h1)"
    using vector_regs_save_eq [OF L(1,2) buf] by blast
  have vl: "unat (h_vl ?h1) = ?L" by (simp add: vsetvl_e8m1)
  have st: "fold (\<lambda>r. vse8 r (r * ?L) ?h1) [0..<32] b0 =
      (\<lambda>i. if i < 32 * ?L then h_v h (i div ?L) (i mod ?L) else b0 i)" by (simp only: vse8_fold [OF vl] vsetvl_frame)
  have ld: "fold (\<lambda>r. vle8 r (r * ?L) buf) [0..<32] h = h\<lparr>h_vstart := 0, h_v := (\<lambda>r k.
      if r < 32 \<and> k < unat (h_vl h) then buf (r * ?L + k) else h_v h r k)\<rparr>" for buf h
    using vle8_fold [of ?L buf 31 h] unfolding eval_nat_numeral BitM.simps by simp
  have "h_v (vector_regs_restore (fst (vector_regs_save kmalloc c h)) g) r k =
      (if r * ?L + k < 32 * ?L then h_v h ((r * ?L + k) div ?L) ((r * ?L + k) mod ?L) else b0 (r * ?L + k))"
    unfolding sv vector_regs_restore_def st using rk L
    by (simp add: ld vsetvl_e8m1 word_gt_0 del: upt_rec_numeral fold_simps)
  moreover have "r * ?L + k < 32 * ?L"
  proof -
    have "r * ?L + k < (r + 1) * ?L" using rk(2) by simp
    also have "\<dots> \<le> 32 * ?L" using rk(1) by (intro mult_le_mono1) simp
    finally show ?thesis .
  qed
  ultimately show "h_v (vector_regs_restore (fst (vector_regs_save kmalloc c h)) g) r k = h_v h r k"
    using rk by simp
qed

lemma vector_save_fields:
  assumes "vector_buffer_ok kmalloc (h_vlenb h) c" "v_vlenb c = h_vlenb h" "0 < h_vlenb h"
  shows "v_vcsr (fst (vector_regs_save kmalloc c h)) = v_vcsr c" "v_vl (fst (vector_regs_save kmalloc c h)) = v_vl c"
    "v_vtype (fst (vector_regs_save kmalloc c h)) = v_vtype c"
  using vector_regs_save_eq [OF assms(2,3,1)] by auto

lemma vle8_frame: "h_vlenb (fold (\<lambda>r. vle8 r (f r) b) rs h) = h_vlenb h"
  by (induction rs arbitrary: h) (simp_all add: vle8_def)

lemma vector_restore_vlenb [simp]: "h_vlenb (vector_regs_restore c g) = h_vlenb g"
  unfolding vector_regs_restore_def by (auto simp: vle8_frame split: option.split simp del: upt_rec_numeral fold_simps)

lemma vector_csr_roundtrip:
  assumes ok: "vector_unit_ok h" and L: "h_vlenb g = h_vlenb h" and buf: "vector_buffer_ok kmalloc (h_vlenb h) c"
  shows "same_guest_vector (vector_csr_restore (fst (vector_csr_save kmalloc c h)) g) h"
    "h_vstart (vector_csr_restore (fst (vector_csr_save kmalloc c h)) g) = 0"
proof -
  define h1 where "h1 = h\<lparr>sstatus := sstatus h OR SSTATUS_VS_DIRTY\<rparr>"
  define g1 where "g1 = g\<lparr>sstatus := sstatus g OR SSTATUS_VS_DIRTY\<rparr>"
  define c1 where "c1 = c\<lparr>v_vstart := h_vstart h1, v_vxsat := csrr_vxsat h1, v_vxrm := csrr_vxrm h1,
    v_vcsr := h_vcsr h1, v_vl := h_vl h1, v_vtype := h_vtype h1, v_vlenb := h_vlenb h1\<rparr>"
  define c2 where "c2 = fst (vector_regs_save kmalloc c1 h1)"
  have sv: "fst (vector_csr_save kmalloc c h) = c2"
    by (simp add: vector_csr_save_def Let_def c2_def c1_def h1_def split_beta)
  have h1: "h_vlenb h1 = h_vlenb h" "h_v h1 = h_v h" "h_vcsr h1 = h_vcsr h" "h_vl h1 = h_vl h"
    "h_vtype h1 = h_vtype h" "h_vlenb g1 = h_vlenb h" using L by (simp_all add: h1_def g1_def)
  have pos: "0 < h_vlenb h1" using ok h1 by (simp add: vector_unit_ok_def)
  have buf1: "vector_buffer_ok kmalloc (h_vlenb h1) c1" "v_vlenb c1 = h_vlenb h1"
    using buf by (simp_all add: vector_buffer_ok_def c1_def h1 cong: option.case_cong)
  have c2: "v_vcsr c2 = h_vcsr h" "v_vl c2 = h_vl h" "v_vtype c2 = h_vtype h"
    unfolding c2_def vector_save_fields [OF buf1 pos] by (simp_all add: c1_def h1)
  have regs: "\<forall>r < 32. \<forall>k < unat (h_vlenb h). h_v (vector_regs_restore c2 g1) r k = h_v h r k"
    using vector_regs_roundtrip [OF buf1(2) pos _ buf1(1), of g1] h1 by (simp add: c2_def)
  have rs: "vector_csr_restore c2 g = (vsetvl (v_vl c2) (v_vtype c2) (csrw_vcsr (v_vcsr c2) (csrw_vxrm (v_vxrm c2)
      (csrw_vxsat (v_vxsat c2) ((vector_regs_restore c2 g1)\<lparr>h_vstart := v_vstart c2\<rparr>)))))\<lparr>sstatus := sstatus g\<rparr>"
    by (simp add: vector_csr_restore_def Let_def g1_def)
  have "h_vcsr h AND 7 = h_vcsr h" using ok by (simp add: vector_unit_ok_def)
  with regs vsetvl_again [OF ok] show "same_guest_vector (vector_csr_restore (fst (vector_csr_save kmalloc c h)) g) h"
    unfolding sv rs by (simp add: same_guest_vector_def c2 h1)
  show "h_vstart (vector_csr_restore (fst (vector_csr_save kmalloc c h)) g) = 0"
    unfolding sv rs by simp
qed

lemma fpu_save_hart [simp]: "snd (fpu_save c h) = h"
  by (simp add: fpu_save_def Let_def)

lemma fpu_save_frame [simp]:
  "v_vregs (fst (fpu_save c h)) = v_vregs c" "v_vregs_size (fst (fpu_save c h)) = v_vregs_size c"
  "v_vsstatus (fst (fpu_save c h)) = v_vsstatus c" "v_hstatus (fst (fpu_save c h)) = v_hstatus c"
  "v_vsie (fst (fpu_save c h)) = v_vsie c" "v_vsepc (fst (fpu_save c h)) = v_vsepc c"
  "v_vstvec (fst (fpu_save c h)) = v_vstvec c" "v_vsscratch (fst (fpu_save c h)) = v_vsscratch c"
  "v_vscause (fst (fpu_save c h)) = v_vscause c" "v_vstval (fst (fpu_save c h)) = v_vstval c"
  "v_vsatp (fst (fpu_save c h)) = v_vsatp c" "v_hie (fst (fpu_save c h)) = v_hie c"
  by (simp_all add: fpu_save_def Let_def)

lemma vector_regs_save_frame:
  "\<exists>b z. fst (vector_regs_save kmalloc c h) = c\<lparr>v_vregs := b, v_vregs_size := z\<rparr>"
proof -
  let ?c = "fst (vector_regs_save kmalloc c h)"
  have "?c = c\<lparr>v_vregs := v_vregs ?c, v_vregs_size := v_vregs_size ?c\<rparr>"
    by (rule rvcpu.equality)
      (simp_all add: vector_regs_save_def Let_def split: option.split del: upt_rec_numeral fold_simps)
  then show ?thesis by metis
qed

lemma vector_csr_save_frame [simp]:
  "v_vsstatus (fst (vector_csr_save km c h)) = v_vsstatus c" "v_hstatus (fst (vector_csr_save km c h)) = v_hstatus c"
  "v_vsie (fst (vector_csr_save km c h)) = v_vsie c" "v_vsepc (fst (vector_csr_save km c h)) = v_vsepc c"
  "v_vstvec (fst (vector_csr_save km c h)) = v_vstvec c" "v_vsscratch (fst (vector_csr_save km c h)) = v_vsscratch c"
  "v_vscause (fst (vector_csr_save km c h)) = v_vscause c" "v_vstval (fst (vector_csr_save km c h)) = v_vstval c"
  "v_vsatp (fst (vector_csr_save km c h)) = v_vsatp c" "v_hie (fst (vector_csr_save km c h)) = v_hie c"
  "v_f (fst (vector_csr_save km c h)) = v_f c" "v_fcsr (fst (vector_csr_save km c h)) = v_fcsr c"
proof -
  obtain b z where e: "fst (vector_csr_save km c h) = c\<lparr>v_vstart := h_vstart h, v_vxsat := csrr_vxsat h,
      v_vxrm := csrr_vxrm h, v_vcsr := h_vcsr h, v_vl := h_vl h, v_vtype := h_vtype h, v_vlenb := h_vlenb h,
      v_vregs := b, v_vregs_size := z\<rparr>"
    using vector_regs_save_frame [of km "c\<lparr>v_vstart := h_vstart h, v_vxsat := csrr_vxsat h,
      v_vxrm := csrr_vxrm h, v_vcsr := h_vcsr h, v_vl := h_vl h, v_vtype := h_vtype h, v_vlenb := h_vlenb h\<rparr>"
      "h\<lparr>sstatus := sstatus h OR SSTATUS_VS_DIRTY\<rparr>"]
    by (auto simp: vector_csr_save_def Let_def split_beta csrr_vxsat_def csrr_vxrm_def)
  show "v_vsstatus (fst (vector_csr_save km c h)) = v_vsstatus c" "v_hstatus (fst (vector_csr_save km c h)) = v_hstatus c"
  "v_vsie (fst (vector_csr_save km c h)) = v_vsie c" "v_vsepc (fst (vector_csr_save km c h)) = v_vsepc c"
  "v_vstvec (fst (vector_csr_save km c h)) = v_vstvec c" "v_vsscratch (fst (vector_csr_save km c h)) = v_vsscratch c"
  "v_vscause (fst (vector_csr_save km c h)) = v_vscause c" "v_vstval (fst (vector_csr_save km c h)) = v_vstval c"
  "v_vsatp (fst (vector_csr_save km c h)) = v_vsatp c" "v_hie (fst (vector_csr_save km c h)) = v_hie c"
  "v_f (fst (vector_csr_save km c h)) = v_f c" "v_fcsr (fst (vector_csr_save km c h)) = v_fcsr c"
    unfolding e by simp_all
qed

text \<open>Restoring the vector state touches only vector registers.\<close>

lemma vle8_fold_frame:
  "h_f (fold (\<lambda>r. vle8 r (f r) b) rs h) = h_f h \<and> h_fcsr (fold (\<lambda>r. vle8 r (f r) b) rs h) = h_fcsr h \<and>
   hstatus (fold (\<lambda>r. vle8 r (f r) b) rs h) = hstatus h"
  by (induction rs arbitrary: h) (simp_all add: vle8_def)

lemma vector_csr_restore_frame [simp]:
  "h_f (vector_csr_restore c g) = h_f g" "h_fcsr (vector_csr_restore c g) = h_fcsr g"
  "hstatus (vector_csr_restore c g) = hstatus g"
proof -
  have r: "h_f (vector_regs_restore c h) = h_f h \<and> h_fcsr (vector_regs_restore c h) = h_fcsr h \<and>
      hstatus (vector_regs_restore c h) = hstatus h" for h
    unfolding vector_regs_restore_def
    by (auto simp: vle8_fold_frame vsetvl_def split: option.split simp del: upt_rec_numeral fold_simps)
  show "h_f (vector_csr_restore c g) = h_f g" "h_fcsr (vector_csr_restore c g) = h_fcsr g"
    "hstatus (vector_csr_restore c g) = hstatus g"
    by (simp_all add: vector_csr_restore_def Let_def vsetvl_def csrw_vcsr_def csrw_vxrm_def csrw_vxsat_def r)
qed

lemma fpu_restore_frame [simp]:
  "h_vlenb (fpu_restore c g) = h_vlenb g" "hstatus (fpu_restore c g) = hstatus g"
  by (simp_all add: fpu_restore_def Let_def)

lemma hstatus_merge: "(x AND NOT m OR (y AND m)) AND m = y AND (m :: u64)"
  by (rule bit_word_eqI) (auto simp: bit_simps)

lemma save_vcpu:
  assumes "has_fpu cfg" "has_vector cfg" "fpu_dirty (vsstatus (harts s me))" "vector_dirty (vsstatus (harts s me))"
  obtains c1 where
    "vcpus (vcpu_context_save cfg km me v s) v = fst (vector_csr_save km (fst (fpu_save c1 ((harts s me)\<lparr>hvip := 0\<rparr>)))
      ((harts s me)\<lparr>hvip := 0\<rparr>))"
    "c1 = (vcpus s v)\<lparr>v_hstatus := hstatus (harts s me) AND HSTATUS_VS, v_vsstatus := vsstatus (harts s me),
       v_vsie := vsie (harts s me), v_vsepc := vsepc (harts s me), v_vstvec := vstvec (harts s me),
       v_vsscratch := vsscratch (harts s me), v_vscause := vscause (harts s me), v_vstval := vstval (harts s me),
       v_vsatp := vsatp (harts s me), v_hie := hie (harts s me)\<rparr>"
  using assms by (simp add: vcpu_context_save_def Let_def split_beta)

lemma restore_hart:
  assumes "has_fpu cfg" "has_vector cfg" "fpu_dirty (v_vsstatus c)" "vector_dirty (v_vsstatus c)" "c = vcpus s v"
  shows "same_guest_fp (harts (vcpu_context_restore cfg me v s) me) (fpu_restore c (harts s me))"
    "same_guest_vector (harts (vcpu_context_restore cfg me v s) me) h \<longleftrightarrow>
       same_guest_vector (vector_csr_restore c (fpu_restore c (harts s me))) h"
    "h_vstart (harts (vcpu_context_restore cfg me v s) me) = h_vstart (vector_csr_restore c (fpu_restore c (harts s me)))"
  using assms by (simp_all add: vcpu_context_restore_def Let_def same_guest_fp_def same_guest_vector_def)

section \<open>Properties\<close>


text \<open>A guest running on hart 0 with dirty floating-point and vector state, restored on hart 2.\<close>

definition busy_guest :: rv where
  "busy_guest = zero_rv\<lparr>harts := (\<lambda>i. zero_hart\<lparr>vsstatus := 0x6620, vsepc := 0x80, h_f := (\<lambda>r. of_nat r + 7), h_fcsr := 3,
     h_vlenb := 16, h_vl := 5, h_vtype := 0xC0, h_vcsr := 5, h_vstart := 2, h_v := (\<lambda>r k. of_nat (r + k))\<rparr>)\<rparr>"

definition full_config :: riscv_config where
  "full_config = \<lparr>has_fpu = True, has_vector = True, guest_dtb_addr = 0x90f00000, guest_ram_base = 0x90000000,
     guest_ram_size = 0x01000000\<rparr>"


text \<open>
  Floating-point registers are switched only for a guest that has written them: when the incoming
  virtual CPU's floating-point state is not marked dirty (initial, clean or off), the registers it finds
  on the hart are those the outgoing one left there.
\<close>

theorem fp_registers_of_previous_guest:
  assumes "\<not> fpu_dirty (v_vsstatus (vcpus s b))" "a \<noteq> b"
  shows "h_f (harts (vcpu_context_restore cfg me b (vcpu_context_save cfg km me a s)) me) = h_f (harts s me)"
proof -
  have v: "h_f (snd (vector_csr_save km c h)) = h_f h" for c h
    by (simp add: vector_csr_save_def Let_def split_beta vector_regs_save_def vsetvl_def split: option.split
        del: upt_rec_numeral fold_simps)
  have "h_f (harts (vcpu_context_save cfg km me a s) me) = h_f (harts s me)"
    by (simp add: vcpu_context_save_def Let_def split_beta v)
  moreover have "vcpus (vcpu_context_save cfg km me a s) b = vcpus s b"
    using assms(2) by (simp add: vcpu_context_save_def Let_def split_beta)
  ultimately show ?thesis using assms(1) by (simp add: vcpu_context_restore_def Let_def)
qed

theorem fp_registers_of_previous_guest_witness:
  "h_f (harts (vcpu_context_restore full_config 0 4 (vcpu_context_save full_config (\<lambda>_. None) 0 3 busy_guest)) 0) 1 = 8"
proof -
  have "h_f (harts busy_guest 0) 1 = 8" by (simp add: busy_guest_def)
  then show ?thesis
    by (subst fp_registers_of_previous_guest) (simp_all add: busy_guest_def zero_rv_def zero_vcpu_def fpu_dirty_def)
qed

lemma device_regions:
  "uart_region init_emul_dev = \<lparr>mr_gpa = 0x20000000, mr_hpa = 0, mr_size = 0x1000, mr_attr = 0,
     mr_dev = Some ''ns16550a'', mr_match_name = ''ns16550a''\<rparr>"
  "plic_region init_emul_dev = \<lparr>mr_gpa = 0x0C000000, mr_hpa = 0, mr_size = 0x400000, mr_attr = 0,
     mr_dev = Some ''riscv-plic'', mr_match_name = ''riscv-plic''\<rparr>"
  by (simp_all add: uart_region_def plic_region_def blank_region_def probe_emul_dev_def init_emul_dev_def register_emul_driver_def)

lemma init_regions_wf:
  assumes "region_wf (ram_region cfg)" "\<not> check_overlap [ram_region cfg] (uart_region init_emul_dev)"
    "\<not> check_overlap [ram_region cfg] (plic_region init_emul_dev)"
  shows "regions_wf [ram_region cfg, uart_region init_emul_dev, plic_region init_emul_dev]"
proof -
  have dev: "region_wf (uart_region init_emul_dev)" "region_wf (plic_region init_emul_dev)"
    by (simp_all add: device_regions region_wf_def)
  have 1: "regions_wf [ram_region cfg]" using assms(1) by (simp add: regions_wf_def)
  have 2: "regions_wf [ram_region cfg, uart_region init_emul_dev]"
    using regions_wf_snoc [OF 1 dev(1) assms(2)] by (simp add: guest_mem_add_region_def)
  have "\<not> check_overlap [ram_region cfg, uart_region init_emul_dev] (plic_region init_emul_dev)"
    using assms(3) by (simp add: check_overlap_def device_regions is_overlapping_def)
  from regions_wf_snoc [OF 2 dev(2) this] show ?thesis by (simp add: guest_mem_add_region_def)
qed

text \<open>
  A new virtual CPU starts at its entry point, in VS mode, and its accesses are dispatched without
  ambiguity: provided guest RAM overlaps neither device window and the three allocations succeed, an
  address in the UART window finds the UART, one in the PLIC window the interrupt controller, one in
  RAM the identity-mapped memory, any other nothing. A failed allocation is not noticed: the null
  pointer is written through.
\<close>

theorem vcpu_init_dispatch:
  assumes ram: "region_wf (ram_region cfg)" "\<not> check_overlap [ram_region cfg] (uart_region init_emul_dev)"
    "\<not> check_overlap [ram_region cfg] (plic_region init_emul_dev)"
  shows "case arch_vcpu_init cfg init_emul_dev km entry stack c of
      None \<Rightarrow> \<not> km 0 \<or> \<not> km 1 \<or> \<not> km 2
    | Some (ret, c') \<Rightarrow> ret = 0 \<and> sepc (v_regs c') = entry \<and> sp (v_regs c') = stack \<and>
        a0 (v_regs c') = 0 \<and> a1 (v_regs c') = guest_dtb_addr cfg \<and> v_hstatus c' = 0x180 \<and>
        guest_mem_find_region (v_mem c') gpa =
          (if 0x20000000 \<le> gpa \<and> gpa < 0x20001000 then Some (uart_region init_emul_dev)
           else if 0x0C000000 \<le> gpa \<and> gpa < 0x0C400000 then Some (plic_region init_emul_dev)
           else if region_contains gpa (ram_region cfg) then Some (ram_region cfg) else None)"
proof -
  let ?u = "uart_region init_emul_dev" and ?p = "plic_region init_emul_dev" and ?r = "ram_region cfg"
  note F = find_region_of_member [OF init_regions_wf [OF ram], of _ gpa]
  have cu: "region_contains gpa ?u \<longleftrightarrow> 0x20000000 \<le> gpa \<and> gpa < 0x20001000"
    and cp: "region_contains gpa ?p \<longleftrightarrow> 0x0C000000 \<le> gpa \<and> gpa < 0x0C400000"
    by (simp_all add: device_regions region_contains_def)
  have "guest_mem_find_region [?r, ?u, ?p] gpa = (if region_contains gpa ?u then Some ?u
      else if region_contains gpa ?p then Some ?p else if region_contains gpa ?r then Some ?r else None)"
    using F [of ?u] F [of ?p] by (auto simp: guest_mem_find_region_def)
  then show ?thesis unfolding cu cp
    by (simp add: arch_vcpu_init_def Let_def guest_mem_add_region_def HSTATUS_VS_def)
qed

theorem vcpu_init_dispatch_witness:
  "case arch_vcpu_init full_config init_emul_dev (\<lambda>_. True) 0x90080000 0x5000 zero_vcpu of
      None \<Rightarrow> False
    | Some (ret, c') \<Rightarrow> guest_mem_find_region (v_mem c') 0x20000005 = Some (uart_region init_emul_dev)"
proof -
  have "region_wf (ram_region full_config)" "\<not> check_overlap [ram_region full_config] (uart_region init_emul_dev)"
    "\<not> check_overlap [ram_region full_config] (plic_region init_emul_dev)"
    by (simp_all add: device_regions ram_region_def blank_region_def full_config_def region_wf_def check_overlap_def is_overlapping_def)
  from vcpu_init_dispatch [OF this, of "\<lambda>_. True" "0x90080000" "0x5000" "0x20000005" zero_vcpu] show ?thesis
    by (auto split: option.splits)
qed

end
