(* ===== verification/Riscv_Irq.thy ===== *)
theory Riscv_Irq
  imports Riscv_State
begin

text \<open>
  Virtual interrupt lines of a virtual CPU (\<^verbatim>\<open>riscv_virt_irq_manager.c\<close>) and its timer
  (\<^verbatim>\<open>riscv_timer_manager.c\<close>, \<^verbatim>\<open>timer.c\<close>). \<open>virt_irq_pending\<close> is the state of the lines; the
  register \<^verbatim>\<open>hvip\<close> of a hart is its projection while the virtual CPU is current there. The time
  \<^verbatim>\<open>rdtime\<close> returns is the field \<open>now\<close>.

  The contract of the lines is the locale \<open>virt_lines\<close>: the timer, the virtual PLIC and the SBI
  handlers are its users.
\<close>

section \<open>Model\<close>

abbreviation (input) "IRQ_S_SOFT \<equiv> 1::nat"
abbreviation (input) "IRQ_VS_SOFT \<equiv> 2::nat"
abbreviation (input) "IRQ_S_TIMER \<equiv> 5::nat"
abbreviation (input) "IRQ_VS_TIMER \<equiv> 6::nat"
abbreviation (input) "IRQ_S_EXT \<equiv> 9::nat"
abbreviation (input) "IRQ_VS_EXT \<equiv> 10::nat"

definition riscv_virt_irq_bit :: "nat \<Rightarrow> u64" where
  "riscv_virt_irq_bit irq = (if 64 \<le> irq then 0 else push_bit irq 1)"

definition riscv_virt_irq_pending_image :: "nat option \<Rightarrow> rv \<Rightarrow> u64" where
  "riscv_virt_irq_pending_image vcpu s =
     (case vcpu of None \<Rightarrow> 0 | Some v \<Rightarrow> virt_irq_pending (vcpus s v))"

definition riscv_virt_irq_assert :: "int \<Rightarrow> nat option \<Rightarrow> nat \<Rightarrow> rv \<Rightarrow> rv" where
  "riscv_virt_irq_assert me vcpu irq s =
     (case vcpu of None \<Rightarrow> s | Some v \<Rightarrow>
        (let b = riscv_virt_irq_bit irq in
         if b = 0 then s
         else (let s1 = upd_vcpu v (\<lambda>c. c\<lparr>virt_irq_pending := virt_irq_pending c OR b\<rparr>) s in
           if riscv_current_vcpu me s1 = Some v
           then upd_hart me (\<lambda>h. h\<lparr>hvip := hvip h OR b\<rparr>) s1 else s1)))"

definition riscv_virt_irq_clear :: "int \<Rightarrow> nat option \<Rightarrow> nat \<Rightarrow> rv \<Rightarrow> rv" where
  "riscv_virt_irq_clear me vcpu irq s =
     (case vcpu of None \<Rightarrow> s | Some v \<Rightarrow>
        (let b = riscv_virt_irq_bit irq in
         if b = 0 then s
         else (let s1 = upd_vcpu v (\<lambda>c. c\<lparr>virt_irq_pending := virt_irq_pending c AND NOT b\<rparr>) s in
           if riscv_current_vcpu me s1 = Some v
           then upd_hart me (\<lambda>h. h\<lparr>hvip := hvip h AND NOT b\<rparr>) s1 else s1)))"

definition riscv_virt_irq_materialize :: "int \<Rightarrow> nat option \<Rightarrow> rv \<Rightarrow> rv" where
  "riscv_virt_irq_materialize me vcpu s =
     (case vcpu of None \<Rightarrow> s | Some v \<Rightarrow>
        (let image = virt_irq_pending (vcpus s v) in
         if riscv_current_vcpu me s = Some v then upd_hart me (\<lambda>h. h\<lparr>hvip := image\<rparr>) s else s))"

definition riscv_virt_irq_materialize_current :: "int \<Rightarrow> rv \<Rightarrow> rv" where
  "riscv_virt_irq_materialize_current me s =
     (case current_task me s of None \<Rightarrow> s
      | Some t \<Rightarrow> riscv_virt_irq_materialize me (t_vcpu (tasks s t)) s)"

subsection \<open>The guest timer\<close>

definition riscv_timer_refresh :: "int \<Rightarrow> nat option \<Rightarrow> rv \<Rightarrow> rv" where
  "riscv_timer_refresh me vcpu s =
     (case vcpu of None \<Rightarrow> s | Some v \<Rightarrow>
        (if \<not> armed (v_timer (vcpus s v)) then s
         else if now s < deadline_cycles (v_timer (vcpus s v)) then s
         else riscv_virt_irq_assert me (Some v) IRQ_VS_TIMER
           (upd_vcpu v (\<lambda>c. c\<lparr>v_timer := (v_timer c)\<lparr>armed := False, pending := True\<rparr>\<rparr>) s)))"

definition riscv_timer_arm :: "int \<Rightarrow> nat option \<Rightarrow> u64 \<Rightarrow> rv \<Rightarrow> rv" where
  "riscv_timer_arm me vcpu deadline s =
     (case vcpu of None \<Rightarrow> s | Some v \<Rightarrow>
        riscv_timer_refresh me (Some v) (riscv_virt_irq_clear me (Some v) IRQ_VS_TIMER
          (upd_vcpu v (\<lambda>c. c\<lparr>v_timer := (v_timer c)\<lparr>deadline_cycles := deadline, armed := True,
                                                   pending := False\<rparr>\<rparr>) s)))"

definition riscv_timer_clear :: "int \<Rightarrow> nat option \<Rightarrow> rv \<Rightarrow> rv" where
  "riscv_timer_clear me vcpu s =
     (case vcpu of None \<Rightarrow> s | Some v \<Rightarrow>
        riscv_virt_irq_clear me (Some v) IRQ_VS_TIMER
          (upd_vcpu v (\<lambda>c. c\<lparr>v_timer := (v_timer c)\<lparr>armed := False, pending := False\<rparr>\<rparr>) s))"

definition riscv_vcpu_timer_arm_current :: "int \<Rightarrow> u64 \<Rightarrow> rv \<Rightarrow> rv" where
  "riscv_vcpu_timer_arm_current me deadline s = riscv_timer_arm me (riscv_current_vcpu me s) deadline s"

definition riscv_vcpu_timer_clear_current :: "int \<Rightarrow> rv \<Rightarrow> rv" where
  "riscv_vcpu_timer_clear_current me s = riscv_timer_clear me (riscv_current_vcpu me s) s"

definition riscv_vcpu_timer_refresh :: "int \<Rightarrow> nat option \<Rightarrow> rv \<Rightarrow> rv" where
  "riscv_vcpu_timer_refresh me vcpu s = riscv_timer_refresh me vcpu s"

definition riscv_vcpu_timer_refresh_current :: "int \<Rightarrow> rv \<Rightarrow> rv" where
  "riscv_vcpu_timer_refresh_current me s = riscv_timer_refresh me (riscv_current_vcpu me s) s"

subsection \<open>The host tick\<close>

definition enable_timer_irq :: "int \<Rightarrow> rv \<Rightarrow> rv" where
  "enable_timer_irq me s = upd_hart me (\<lambda>h. h\<lparr>sie := sie h OR push_bit 5 1\<rparr>) s"

definition clear_timer_irq :: "int \<Rightarrow> rv \<Rightarrow> rv" where
  "clear_timer_irq me s = upd_hart me (\<lambda>h. h\<lparr>sie := sie h AND NOT (push_bit 5 1)\<rparr>) s"

definition hyp_timer_rearm :: "int \<Rightarrow> rv \<Rightarrow> rv" where
  "hyp_timer_rearm me s = enable_timer_irq me (emit (SbiSetTimer (now s + 100000)) s)"

definition init_timer :: "int \<Rightarrow> rv \<Rightarrow> rv" where
  "init_timer me s = hyp_timer_rearm me s"

definition handle_timer_irq :: "int \<Rightarrow> rv \<Rightarrow> rv" where
  "handle_timer_irq me s = hyp_timer_rearm me (clear_timer_irq me s)"

section \<open>What the operations leave alone\<close>

text \<open>The parts of the state no interrupt-line operation touches.\<close>

definition same_frame :: "rv \<Rightarrow> rv \<Rightarrow> bool" where
  "same_frame s s' \<longleftrightarrow> tasks s' = tasks s \<and> g_current_task s' = g_current_task s \<and>
     g_running s' = g_running s \<and> g_ready_list s' = g_ready_list s \<and> g_wait_list s' = g_wait_list s \<and>
     g_cpu_count s' = g_cpu_count s \<and> g_cpu_to_hart s' = g_cpu_to_hart s \<and>
     guest_vcpu_count s' = guest_vcpu_count s \<and> now s' = now s"

lemma same_frame_refl [simp, intro]: "same_frame s s"
  by (simp add: same_frame_def)

lemma same_frame_trans: "same_frame s s1 \<Longrightarrow> same_frame s1 s2 \<Longrightarrow> same_frame s s2"
  by (simp add: same_frame_def)

lemma same_frame_upd [simp, intro]:
  "same_frame s (upd_vcpu v f s)" "same_frame s (upd_hart me h s)" "same_frame s (emit e s)"
  by (simp_all add: same_frame_def)

lemma same_frame_current: "same_frame s s' \<Longrightarrow> current_task me s' = current_task me s"
  by (simp add: same_frame_def current_task_def)

lemma same_frame_vcpu: "same_frame s s' \<Longrightarrow> riscv_current_vcpu me s' = riscv_current_vcpu me s"
  by (simp add: riscv_current_vcpu_def same_frame_current) (simp add: same_frame_def cong: option.case_cong)

lemma same_frame_find: "same_frame s s' \<Longrightarrow> riscv_find_guest_vcpu h s' = riscv_find_guest_vcpu h s"
  by (auto simp: riscv_find_guest_vcpu_def running_as_def [abs_def] same_frame_def
      simp del: find.simps cong: option.case_cong)

lemma virt_irq_frame [hc_inv]:
  "same_frame s (riscv_virt_irq_assert me v i s)" "same_frame s (riscv_virt_irq_clear me v i s)"
  "same_frame s (riscv_virt_irq_materialize me v s)"
  by (auto simp: riscv_virt_irq_assert_def riscv_virt_irq_clear_def riscv_virt_irq_materialize_def
      Let_def same_frame_def split: option.splits)

lemma virt_irq_devices [simp]:
  "g_vplic (riscv_virt_irq_assert me v i s) = g_vplic s" "g_vplic (riscv_virt_irq_clear me v i s) = g_vplic s"
  "g_uart (riscv_virt_irq_assert me v i s) = g_uart s" "g_uart (riscv_virt_irq_clear me v i s) = g_uart s"
  "effects (riscv_virt_irq_assert me v i s) = effects s" "effects (riscv_virt_irq_clear me v i s) = effects s"
  "g_ipi_pending (riscv_virt_irq_assert me v i s) = g_ipi_pending s"
  "g_ipi_pending (riscv_virt_irq_clear me v i s) = g_ipi_pending s"
  by (auto simp: riscv_virt_irq_assert_def riscv_virt_irq_clear_def Let_def split: option.splits)

section \<open>The lines as a contract\<close>

definition virt_line :: "rv \<Rightarrow> nat \<Rightarrow> nat \<Rightarrow> bool" where
  "virt_line s v i = bit (virt_irq_pending (vcpus s v)) i"

locale virt_lines =
  fixes raise lower :: "'v \<Rightarrow> nat \<Rightarrow> 's \<Rightarrow> 's"
    and line :: "'s \<Rightarrow> 'v \<Rightarrow> nat \<Rightarrow> bool"
  assumes line_raise: "i < 64 \<Longrightarrow> line (raise v i s) v' j \<longleftrightarrow> v' = v \<and> j = i \<or> line s v' j"
    and line_lower: "i < 64 \<Longrightarrow> line (lower v i s) v' j \<longleftrightarrow> \<not> (v' = v \<and> j = i) \<and> line s v' j"
begin

definition drive :: "'v \<Rightarrow> nat \<Rightarrow> bool \<Rightarrow> 's \<Rightarrow> 's" where
  "drive v i b s = (if b then raise v i s else lower v i s)"

lemma line_drive:
  "i < 64 \<Longrightarrow> line (drive v i b s) v' j \<longleftrightarrow> (if v' = v \<and> j = i then b else line s v' j)"
  by (auto simp: drive_def line_raise line_lower)

lemma line_drive_all:
  assumes "i < 64" "distinct vs"
  shows "line (fold (\<lambda>v. drive v i (f v)) vs s) v' j \<longleftrightarrow>
    (if v' \<in> set vs \<and> j = i then f v' else line s v' j)"
  using assms(2)
proof (induction vs arbitrary: s)
  case (Cons v vs)
  then show ?case using assms(1) by (auto simp: line_drive)
qed simp

lemma raise_lower: "i < 64 \<Longrightarrow> \<not> line s v i \<Longrightarrow> line (lower v i (raise v i s)) = line s"
  by (auto simp: fun_eq_iff line_raise line_lower)

end

lemma virt_irq_bit_bit: "irq < 64 \<Longrightarrow> bit (riscv_virt_irq_bit irq) j \<longleftrightarrow> j = irq"
  by (auto simp: riscv_virt_irq_bit_def bit_simps)

lemma virt_irq_bit_nonzero: "irq < 64 \<Longrightarrow> riscv_virt_irq_bit irq \<noteq> 0"
  using virt_irq_bit_bit [of irq irq] by (metis bit_0_eq bot_apply bot_bool_def)

lemma virt_line_assert:
  "i < 64 \<Longrightarrow> virt_line (riscv_virt_irq_assert me (Some v) i s) v' j \<longleftrightarrow> v' = v \<and> j = i \<or> virt_line s v' j"
  by (auto simp: riscv_virt_irq_assert_def virt_line_def Let_def virt_irq_bit_nonzero bit_or_iff
      virt_irq_bit_bit)

lemma virt_line_clear:
  "i < 64 \<Longrightarrow> virt_line (riscv_virt_irq_clear me (Some v) i s) v' j \<longleftrightarrow>
     \<not> (v' = v \<and> j = i) \<and> virt_line s v' j"
  by (auto simp: riscv_virt_irq_clear_def virt_line_def Let_def virt_irq_bit_nonzero bit_and_iff
      bit_not_iff virt_irq_bit_bit dest: bit_imp_le_length)

interpretation lines: virt_lines
  "\<lambda>v i. riscv_virt_irq_assert me (Some v) i" "\<lambda>v i. riscv_virt_irq_clear me (Some v) i" virt_line
  for me
  by unfold_locales (simp_all add: virt_line_assert virt_line_clear)

section \<open>The projection into hvip\<close>

definition hvip_projects :: "int \<Rightarrow> rv \<Rightarrow> bool" where
  "hvip_projects me s \<longleftrightarrow> (\<forall>v. riscv_current_vcpu me s = Some v \<longrightarrow>
     hvip (harts s me) = virt_irq_pending (vcpus s v))"

lemma hvip_projects_ops [hc_inv]:
  "hvip_projects me s \<Longrightarrow> hvip_projects me (riscv_virt_irq_assert me v i s)"
  "hvip_projects me s \<Longrightarrow> hvip_projects me (riscv_virt_irq_clear me v i s)"
  "hvip_projects me (riscv_virt_irq_materialize me (riscv_current_vcpu me s) s)"
  by (auto simp: hvip_projects_def riscv_virt_irq_assert_def riscv_virt_irq_clear_def
      riscv_virt_irq_materialize_def Let_def split: option.splits)

lemma hvip_projects_upd [simp]:
  "(\<And>c. virt_irq_pending (f c) = virt_irq_pending c) \<Longrightarrow> hvip_projects me (upd_vcpu v f s) = hvip_projects me s"
  "hvip_projects me (emit e s) = hvip_projects me s"
  by (auto simp: hvip_projects_def)

lemma hvip_projects_timer [hc_inv]:
  "hvip_projects me s \<Longrightarrow> hvip_projects me (riscv_timer_refresh me v s)"
  "hvip_projects me s \<Longrightarrow> hvip_projects me (riscv_timer_arm me v d s)"
  "hvip_projects me s \<Longrightarrow> hvip_projects me (riscv_timer_clear me v s)"
  by (auto simp: riscv_timer_refresh_def riscv_timer_arm_def riscv_timer_clear_def
      intro!: hvip_projects_ops split: option.splits)

section \<open>Properties\<close>

text \<open>The operations on interrupt lines and timers, as steps of the CPU \<open>me\<close>.\<close>

datatype line_op = Assert nat nat | Clear nat nat | Arm nat u64 | Disarm nat | Refresh nat | Materialize nat

fun line_step :: "int \<Rightarrow> line_op \<Rightarrow> rv \<Rightarrow> rv" where
  "line_step me (Assert v i) s = riscv_virt_irq_assert me (Some v) i s"
| "line_step me (Clear v i) s = riscv_virt_irq_clear me (Some v) i s"
| "line_step me (Arm v d) s = riscv_timer_arm me (Some v) d s"
| "line_step me (Disarm v) s = riscv_timer_clear me (Some v) s"
| "line_step me (Refresh v) s = riscv_timer_refresh me (Some v) s"
| "line_step me (Materialize v) s = riscv_virt_irq_materialize me (Some v) s"

lemma hvip_projects_step: "hvip_projects me s \<Longrightarrow> hvip_projects me (line_step me op s)"
  by (cases op) (auto intro: hc_inv, auto simp: hvip_projects_def riscv_virt_irq_materialize_def Let_def)


definition timer_inv :: "rv \<Rightarrow> nat \<Rightarrow> bool" where
  "timer_inv s v \<longleftrightarrow> (virt_line s v IRQ_VS_TIMER \<longleftrightarrow> pending (v_timer (vcpus s v))) \<and>
     \<not> (armed (v_timer (vcpus s v)) \<and> pending (v_timer (vcpus s v)))"

lemma timer_of_line_ops [simp]:
  "v_timer (vcpus (riscv_virt_irq_assert me w i s) v) = v_timer (vcpus s v)"
  "v_timer (vcpus (riscv_virt_irq_clear me w i s) v) = v_timer (vcpus s v)"
  "v_timer (vcpus (riscv_virt_irq_materialize me w s) v) = v_timer (vcpus s v)"
  by (auto simp: riscv_virt_irq_assert_def riscv_virt_irq_clear_def riscv_virt_irq_materialize_def
      Let_def split: option.splits)

lemma virt_line_upd_vcpu [simp]:
  "(\<And>c. virt_irq_pending (f c) = virt_irq_pending c) \<Longrightarrow> virt_line (upd_vcpu v f s) = virt_line s"
  "virt_line (upd_hart me g s) = virt_line s" "virt_line (emit e s) = virt_line s"
  by (auto simp: virt_line_def fun_eq_iff)

lemma virt_line_materialize [simp]: "virt_line (riscv_virt_irq_materialize me w s) = virt_line s"
  by (auto simp: riscv_virt_irq_materialize_def virt_line_def Let_def fun_eq_iff split: option.splits)

lemma timer_inv_refresh: "timer_inv s v \<Longrightarrow> timer_inv (riscv_timer_refresh me (Some w) s) v"
  by (auto simp: timer_inv_def riscv_timer_refresh_def virt_line_assert)

lemma timer_inv_step:
  assumes "timer_inv s v" "\<And>w i. op = Assert w i \<or> op = Clear w i \<Longrightarrow> i < 64 \<and> i \<noteq> IRQ_VS_TIMER"
  shows "timer_inv (line_step me op s) v"
proof (cases op)
  case (Arm w d)
  let ?f = "\<lambda>c. c\<lparr>v_timer := (v_timer c)\<lparr>deadline_cycles := d, armed := True, pending := False\<rparr>\<rparr>"
  have "timer_inv (riscv_virt_irq_clear me (Some w) IRQ_VS_TIMER (upd_vcpu w ?f s)) v"
    using assms(1) by (auto simp: timer_inv_def virt_line_clear)
  with Arm show ?thesis by (auto simp: riscv_timer_arm_def intro: timer_inv_refresh)
qed (use assms in \<open>auto simp: timer_inv_refresh\<close>,
     auto simp: timer_inv_def riscv_timer_clear_def virt_line_assert virt_line_clear)

text \<open>
  The timer line means the timer has fired: whatever sequence of line and timer operations runs,
  with other sources using other lines, the virtual timer interrupt of a virtual CPU is asserted
  exactly when its timer is in the fired state, and a fired timer is not armed.
\<close>

theorem timer_line_is_timer_pending:
  assumes "timer_inv s v"
    and "\<forall>op \<in> set ops. \<forall>w i. op = Assert w i \<or> op = Clear w i \<longrightarrow> i < 64 \<and> i \<noteq> IRQ_VS_TIMER"
  shows "timer_inv (fold (line_step me) ops s) v"
  using assms by (induction ops arbitrary: s) (auto intro!: timer_inv_step)

theorem timer_line_is_timer_pending_witness:
  "timer_inv (fold (line_step 0) [Arm 3 100, Assert 3 IRQ_VS_SOFT, Refresh 3, Clear 3 IRQ_VS_EXT]
     (zero_rv\<lparr>now := 200\<rparr>)) 3"
  by (rule timer_line_is_timer_pending) (auto simp: timer_inv_def virt_line_def zero_defs)

text \<open>
  A timer fires exactly when its deadline has passed: after arming, the line is up iff the
  deadline is not in the future; after a later refresh, on any CPU, iff the deadline had passed at
  arming or has passed at the refresh.
\<close>

theorem timer_fires_at_deadline:
  "let s1 = riscv_timer_arm me (Some v) d s;
       s2 = riscv_timer_refresh me' (Some v) (s1\<lparr>now := t\<rparr>)
   in (virt_line s1 v IRQ_VS_TIMER \<longleftrightarrow> d \<le> now s) \<and>
      (virt_line s2 v IRQ_VS_TIMER \<longleftrightarrow> d \<le> now s \<or> d \<le> t)"
proof -
  define s1 where "s1 = riscv_timer_arm me (Some v) d s"
  have n: "now (riscv_virt_irq_clear me w i s) = now s" for w i and s :: rv
    using virt_irq_frame(2) [of s me w i] by (simp add: same_frame_def)
  have l1: "virt_line s1 v IRQ_VS_TIMER \<longleftrightarrow> d \<le> now s"
    by (auto simp: s1_def riscv_timer_arm_def riscv_timer_refresh_def virt_line_assert virt_line_clear n)
  have a1: "armed (v_timer (vcpus s1 v)) \<longleftrightarrow> \<not> d \<le> now s" "deadline_cycles (v_timer (vcpus s1 v)) = d"
    by (auto simp: s1_def riscv_timer_arm_def riscv_timer_refresh_def n)
  have "virt_line (s1\<lparr>now := t\<rparr>) = virt_line s1" by (simp add: virt_line_def fun_eq_iff)
  with l1 a1 show ?thesis
    by (auto simp: Let_def riscv_timer_refresh_def virt_line_assert simp flip: s1_def)
qed

end
