(* ===== verification/Riscv_Ipi.thy ===== *)
theory Riscv_Ipi
  imports Riscv_Irq
begin

text \<open>
  Inter-processor interrupts (\<^verbatim>\<open>ipi.c\<close>), the CPU numbering they use (\<^verbatim>\<open>smp.c\<close>) and remote
  fences (\<^verbatim>\<open>riscv_fence_manager.c\<close>). A vector is posted as a bit of the target's pending word; the
  target takes the whole word atomically and runs the handlers in vector order.

  \<open>riscv_ipi_send_cpu_sync\<close> polls a counter another CPU increments. What it reads is the
  parameter \<open>obs\<close>, the successive pairs of counter and time; the loop is a recursion over it, and
  \<open>None\<close> is a loop that is still polling when the observations end.
\<close>

section \<open>Model\<close>

abbreviation (input) "IPI_RESCHEDULE \<equiv> 0::nat"
abbreviation (input) "IPI_TLB_SHOOTDOWN \<equiv> 1::nat"
abbreviation (input) "IPI_CALL_FUNC \<equiv> 2::nat"
abbreviation (input) "IPI_REMOTE_FENCE_ALL \<equiv> 3::nat"
abbreviation (input) "IPI_MAX \<equiv> 4::nat"

definition smp_hart_id :: "int \<Rightarrow> rv \<Rightarrow> int" where
  "smp_hart_id cpu s = (if cpu < 0 \<or> g_cpu_count s \<le> cpu then - 1 else g_cpu_to_hart s cpu)"

definition ipi_validate_target :: "int \<Rightarrow> nat \<Rightarrow> rv \<Rightarrow> int option" where
  "ipi_validate_target target vec s =
     (if IPI_MAX \<le> vec then None
      else if target < 0 \<or> g_cpu_count s \<le> target then None
      else if smp_hart_id target s < 0 then None else Some (smp_hart_id target s))"

definition riscv_ipi_take_pending :: "int \<Rightarrow> rv \<Rightarrow> u32 \<times> rv" where
  "riscv_ipi_take_pending cpu s =
     (if cpu < 0 \<or> CPU_NUM \<le> cpu then (0, s)
      else (g_ipi_pending s cpu, s\<lparr>g_ipi_pending := (g_ipi_pending s)(cpu := 0)\<rparr>))"

definition ipi_post :: "int \<Rightarrow> nat \<Rightarrow> rv \<Rightarrow> rv" where
  "ipi_post target vec s =
     s\<lparr>g_ipi_pending := (g_ipi_pending s)(target := g_ipi_pending s target OR push_bit vec 1)\<rparr>"

definition ipi_send_cpu :: "int \<Rightarrow> nat \<Rightarrow> rv \<Rightarrow> rv" where
  "ipi_send_cpu target vec s =
     (case ipi_validate_target target vec s of None \<Rightarrow> s
      | Some h \<Rightarrow> emit (SbiSendIpi (push_bit (nat h) 1)) (ipi_post target vec s))"

definition ipi_send_reschedule :: "int \<Rightarrow> rv \<Rightarrow> rv" where
  "ipi_send_reschedule target s = ipi_send_cpu target IPI_RESCHEDULE s"

definition ipi_broadcast_others :: "int \<Rightarrow> nat \<Rightarrow> rv \<Rightarrow> rv" where
  "ipi_broadcast_others me vec s =
     fold (\<lambda>i s. if i = me then s else ipi_send_cpu i vec s) [0..g_cpu_count s - 1] s"

definition ipi_remote_fence_all :: "int \<Rightarrow> rv \<Rightarrow> rv" where
  "ipi_remote_fence_all me s = emit (HFence me) (emit (FenceI me) s)"

definition ipi_handle :: "int \<Rightarrow> nat \<Rightarrow> rv \<Rightarrow> rv" where
  "ipi_handle me vec s =
     (let s1 =
        (if vec = IPI_TLB_SHOOTDOWN then
           (case g_tlb_shootdown_fn s of None \<Rightarrow> emit (HFence me) s
            | Some f \<Rightarrow> emit (CallFunc f) (emit (HFence me) s))
         else if vec = IPI_REMOTE_FENCE_ALL then ipi_remote_fence_all me s
         else s)
      in if vec < IPI_MAX
         then s1\<lparr>g_ipi_complete := (g_ipi_complete s1)
                  (me := (g_ipi_complete s1 me)(vec := g_ipi_complete s1 me vec + 1))\<rparr>
         else s1)"

definition ipi_pcpu_init :: "int \<Rightarrow> rv \<Rightarrow> rv" where
  "ipi_pcpu_init me s = s\<lparr>g_ipi_pending := (g_ipi_pending s)(me := 0),
     g_ipi_complete := (g_ipi_complete s)(me := (\<lambda>vec. if vec < IPI_MAX then 0 else g_ipi_complete s me vec))\<rparr>"

definition ipi_tlb_shootdown :: "int \<Rightarrow> rv \<Rightarrow> rv" where
  "ipi_tlb_shootdown me s = emit (HFence me) (ipi_broadcast_others me IPI_TLB_SHOOTDOWN s)"

definition ipi_call_func :: "int \<Rightarrow> nat \<Rightarrow> rv \<Rightarrow> rv" where
  "ipi_call_func target fn s = ipi_send_cpu target IPI_CALL_FUNC (s\<lparr>g_tlb_shootdown_fn := Some fn\<rparr>)"

subsection \<open>Synchronous IPIs\<close>

definition riscv_ipi_sync_timeout_cycles :: "u32 \<Rightarrow> u64" where
  "riscv_ipi_sync_timeout_cycles timebase =
     (let cycles = (ucast timebase * 100000) div 1000000 in if cycles = 0 then 1000 else cycles)"

fun sync_wait :: "u32 \<Rightarrow> u64 \<Rightarrow> u64 \<Rightarrow> (u32 \<times> u64) list \<Rightarrow> int option" where
  "sync_wait before start timeout [] = None"
| "sync_wait before start timeout ((c, t) # obs) =
     (if c \<noteq> before then Some 0
      else if timeout \<le> t - start then Some (- 1)
      else sync_wait before start timeout obs)"

definition riscv_ipi_send_cpu_sync ::
    "u32 \<Rightarrow> int \<Rightarrow> int \<Rightarrow> nat \<Rightarrow> (u32 \<times> u64) list \<Rightarrow> rv \<Rightarrow> (int \<times> rv) option" where
  "riscv_ipi_send_cpu_sync timebase me target vec obs s =
     (case ipi_validate_target target vec s of None \<Rightarrow> Some (- 1, s)
      | Some h \<Rightarrow>
          if target = me then Some (0, ipi_handle me vec s)
          else (let s1 = emit (SbiSendIpi (push_bit (nat h) 1)) (ipi_post target vec s) in
            case sync_wait (g_ipi_complete s target vec) (now s) (riscv_ipi_sync_timeout_cycles timebase) obs of
              None \<Rightarrow> None | Some r \<Rightarrow> Some (r, s1)))"

subsection \<open>Taking the pending word\<close>

text \<open>The loop of \<open>handle_s_soft_irq\<close>: \<open>for (vec = 0; vec < IPI_MAX && pending; vec++, pending >>= 1)\<close>.\<close>

function soft_irq_loop :: "int \<Rightarrow> nat \<Rightarrow> u32 \<Rightarrow> rv \<Rightarrow> rv" where
  "soft_irq_loop me vec word s =
     (if vec < IPI_MAX \<and> word \<noteq> 0
      then soft_irq_loop me (vec + 1) (drop_bit 1 word) (if bit word 0 then ipi_handle me vec s else s)
      else s)"
  by pat_completeness auto
termination
  by (relation "measure (\<lambda>(me, vec, word, s). IPI_MAX - vec)") auto

declare soft_irq_loop.simps [simp del]

subsection \<open>Remote fences\<close>

definition guest_hart_selected :: "u32 \<Rightarrow> u64 \<Rightarrow> u64 \<Rightarrow> bool" where
  "guest_hart_selected hart hart_mask base =
     (if base = - 1 then True
      else if ucast hart < base then False
      else (let b = ucast hart - base in
        if 64 \<le> b then False else bit hart_mask (unat b)))"

definition mark_pcpu :: "int \<Rightarrow> u64 \<Rightarrow> u64 \<Rightarrow> rv \<Rightarrow> nat \<Rightarrow> (int \<Rightarrow> bool) \<Rightarrow> (int \<Rightarrow> bool)" where
  "mark_pcpu me hart_mask base s hart sel =
     (if \<not> guest_hart_selected (of_nat hart) hart_mask base then sel
      else (case riscv_find_guest_vcpu (of_nat hart) s of None \<Rightarrow> sel
        | Some t \<Rightarrow>
            (let pcpu = (if t_affinity (tasks s t) < 0 then me else t_affinity (tasks s t)) in
             if 0 \<le> pcpu \<and> pcpu < CPU_NUM then sel(pcpu := True) else sel)))"

definition selected_pcpu :: "int \<Rightarrow> u64 \<Rightarrow> u64 \<Rightarrow> rv \<Rightarrow> int \<Rightarrow> bool" where
  "selected_pcpu me hart_mask base s = fold (mark_pcpu me hart_mask base s) [0..<guest_vcpu_count s] (\<lambda>_. False)"

fun fence_cpus :: "u32 \<Rightarrow> int \<Rightarrow> (int \<Rightarrow> bool) \<Rightarrow> (int \<Rightarrow> (u32 \<times> u64) list) \<Rightarrow> int list \<Rightarrow> int \<Rightarrow> rv \<Rightarrow>
    (int \<times> rv) option" where
  "fence_cpus tb me sel obs [] status s = Some (status, s)"
| "fence_cpus tb me sel obs (p # ps) status s =
     (if \<not> sel p then fence_cpus tb me sel obs ps status s
      else if p = me then fence_cpus tb me sel obs ps status (emit (HFence me) (emit (FenceI me) s))
      else (case riscv_ipi_send_cpu_sync tb me p IPI_REMOTE_FENCE_ALL (obs p) s of
              None \<Rightarrow> None
            | Some (r, s1) \<Rightarrow> fence_cpus tb me sel obs ps (if r \<noteq> 0 then - 1 else status) s1))"

definition riscv_remote_fence ::
    "u32 \<Rightarrow> int \<Rightarrow> (int \<Rightarrow> (u32 \<times> u64) list) \<Rightarrow> u64 \<Rightarrow> u64 \<Rightarrow> rv \<Rightarrow> (int \<times> rv) option" where
  "riscv_remote_fence tb me obs hart_mask base s =
     fence_cpus tb me (selected_pcpu me hart_mask base s) obs [0..min (g_cpu_count s) CPU_NUM - 1] 0 s"

section \<open>Posting and taking\<close>

lemma ipi_frame [hc_inv]:
  "same_frame s (ipi_send_cpu t vec s)" "same_frame s (ipi_handle me vec s)"
  by (auto simp: ipi_send_cpu_def ipi_post_def ipi_handle_def ipi_remote_fence_all_def same_frame_def Let_def
      split: option.splits)

lemma ipi_send_untouched [simp]:
  "vcpus (ipi_send_cpu t vec s) = vcpus s" "harts (ipi_send_cpu t vec s) = harts s"
  "g_vplic (ipi_send_cpu t vec s) = g_vplic s" "g_uart (ipi_send_cpu t vec s) = g_uart s"
  by (simp_all add: ipi_send_cpu_def ipi_post_def split: option.splits)

lemma ipi_send_line [simp]: "virt_line (ipi_send_cpu t vec s) = virt_line s"
  by (simp add: virt_line_def fun_eq_iff)

lemma ipi_send_pending:
  "g_ipi_pending (ipi_send_cpu t vec s) c =
     (if c = t \<and> ipi_validate_target t vec s \<noteq> None then g_ipi_pending s c OR push_bit vec 1
      else g_ipi_pending s c)"
  by (auto simp: ipi_send_cpu_def ipi_post_def split: option.splits)

lemma ipi_handle_complete:
  "g_ipi_complete (ipi_handle me vec s) c v =
     g_ipi_complete s c v + (if c = me \<and> v = vec \<and> vec < IPI_MAX then 1 else 0)"
  by (auto simp: ipi_handle_def ipi_remote_fence_all_def Let_def split: option.splits)

lemma ipi_handle_untouched [simp]:
  "g_ipi_pending (ipi_handle me vec s) = g_ipi_pending s" "vcpus (ipi_handle me vec s) = vcpus s"
  "harts (ipi_handle me vec s) = harts s" "g_vplic (ipi_handle me vec s) = g_vplic s"
  "g_uart (ipi_handle me vec s) = g_uart s"
  by (auto simp: ipi_handle_def ipi_remote_fence_all_def Let_def split: option.splits)

lemma bit_drop_bit_Suc: "bit (drop_bit (Suc 0) w) i = bit w (Suc i)" for w :: "'a::len word"
  by (simp add: bit_simps)

lemma soft_irq_loop_complete:
  assumes "k + vec = IPI_MAX"
  shows "g_ipi_complete (soft_irq_loop me vec word s) c v = g_ipi_complete s c v +
    (if c = me \<and> vec \<le> v \<and> v < IPI_MAX \<and> bit word (v - vec) then 1 else 0)"
  using assms
proof (induction k arbitrary: vec word s)
  case 0
  then show ?case by (subst soft_irq_loop.simps) simp
next
  case (Suc k)
  show ?case
  proof (cases "word = 0")
    case True
    then show ?thesis by (simp add: soft_irq_loop.simps [of _ vec])
  next
    case False
    have "bit (drop_bit (Suc 0) word) (v - Suc vec) = bit word (v - vec)" if "vec < v" for v
      using that by (simp add: bit_drop_bit_Suc Suc_diff_Suc)
    with False Suc.prems Suc.IH [of "vec + 1" "drop_bit 1 word"] show ?thesis
      by (subst soft_irq_loop.simps) (auto simp: ipi_handle_complete Suc_le_eq le_less)
  qed
qed

lemma soft_irq_loop_untouched [simp]:
  "g_ipi_pending (soft_irq_loop me vec word s) = g_ipi_pending s"
  "vcpus (soft_irq_loop me vec word s) = vcpus s" "harts (soft_irq_loop me vec word s) = harts s"
  "g_vplic (soft_irq_loop me vec word s) = g_vplic s" "g_uart (soft_irq_loop me vec word s) = g_uart s"
  by (induction me vec word s rule: soft_irq_loop.induct;
      subst soft_irq_loop.simps; simp)+

lemma soft_irq_loop_frame [hc_inv]: "same_frame s (soft_irq_loop me vec word s)"
proof (induction me vec word s rule: soft_irq_loop.induct)
  case (1 me vec word s)
  then show ?case
    by (subst soft_irq_loop.simps)
       (auto intro: same_frame_trans ipi_frame)
qed

section \<open>Termination of the synchronous wait\<close>

lemma sync_wait_ends:
  assumes "(c, t) \<in> set obs" "timeout \<le> t - start"
  shows "\<exists>r. sync_wait before start timeout obs = Some r \<and> (r = 0 \<or> r = - 1)"
  using assms by (induction obs) auto

lemma sync_wait_success:
  assumes "sync_wait before start timeout obs = Some 0"
  shows "\<exists>p \<in> set obs. fst p \<noteq> before"
  using assms by (induction obs) (auto split: if_splits)

section \<open>Which CPUs are fenced\<close>

text \<open>The physical CPU that runs guest hart \<open>h\<close>, as the fence manager computes it.\<close>

definition pcpu_of_hart :: "int \<Rightarrow> rv \<Rightarrow> nat \<Rightarrow> int option" where
  "pcpu_of_hart me s h = (case riscv_find_guest_vcpu (of_nat h) s of None \<Rightarrow> None
     | Some t \<Rightarrow> Some (if t_affinity (tasks s t) < 0 then me else t_affinity (tasks s t)))"

lemma mark_pcpu_iff:
  "mark_pcpu me m b s h sel p \<longleftrightarrow>
     sel p \<or> 0 \<le> p \<and> p < CPU_NUM \<and> guest_hart_selected (of_nat h) m b \<and> pcpu_of_hart me s h = Some p"
  by (auto simp: mark_pcpu_def pcpu_of_hart_def Let_def split: option.splits)

lemma selected_pcpu_iff:
  "selected_pcpu me m b s p \<longleftrightarrow> 0 \<le> p \<and> p < CPU_NUM \<and>
     (\<exists>h < guest_vcpu_count s. guest_hart_selected (of_nat h) m b \<and> pcpu_of_hart me s h = Some p)"
proof -
  have "fold (mark_pcpu me m b s) hs sel p \<longleftrightarrow> sel p \<or> 0 \<le> p \<and> p < CPU_NUM \<and>
      (\<exists>h \<in> set hs. guest_hart_selected (of_nat h) m b \<and> pcpu_of_hart me s h = Some p)" for hs sel
    by (induction hs arbitrary: sel) (auto simp: mark_pcpu_iff)
  then show ?thesis by (auto simp: selected_pcpu_def atLeast0LessThan)
qed

definition fence_ok :: "u32 \<Rightarrow> rv \<Rightarrow> (int \<Rightarrow> (u32 \<times> u64) list) \<Rightarrow> int \<Rightarrow> bool" where
  "fence_ok tb s obs p \<longleftrightarrow> ipi_validate_target p IPI_REMOTE_FENCE_ALL s \<noteq> None \<and>
     sync_wait (g_ipi_complete s p IPI_REMOTE_FENCE_ALL) (now s) (riscv_ipi_sync_timeout_cycles tb) (obs p) = Some 0"

lemma validate_cong:
  "g_cpu_count s' = g_cpu_count s \<Longrightarrow> g_cpu_to_hart s' = g_cpu_to_hart s \<Longrightarrow>
     ipi_validate_target t v s' = ipi_validate_target t v s"
  by (simp add: ipi_validate_target_def smp_hart_id_def)

lemma send_sync_remote:
  assumes "riscv_ipi_send_cpu_sync tb me p vec obs s = Some (r, s1)" "p \<noteq> me"
  shows "same_frame s s1" "g_ipi_complete s1 = g_ipi_complete s"
    "g_ipi_pending s1 c = (if c = p \<and> ipi_validate_target p vec s \<noteq> None
       then g_ipi_pending s c OR push_bit vec 1 else g_ipi_pending s c)"
    "r = 0 \<longleftrightarrow> ipi_validate_target p vec s \<noteq> None \<and>
       sync_wait (g_ipi_complete s p vec) (now s) (riscv_ipi_sync_timeout_cycles tb) obs = Some 0"
  using assms by (auto simp: riscv_ipi_send_cpu_sync_def ipi_post_def same_frame_def Let_def split: option.splits)

lemma fence_cpus_spec:
  assumes "fence_cpus tb me sel obs ps status s = Some (st, s')" "distinct ps"
  shows "(st = 0 \<longleftrightarrow> status = 0 \<and> (\<forall>p \<in> set ps. sel p \<and> p \<noteq> me \<longrightarrow> fence_ok tb s obs p)) \<and>
    (\<forall>c. g_ipi_pending s' c =
       (if c \<in> set ps \<and> sel c \<and> c \<noteq> me \<and> ipi_validate_target c IPI_REMOTE_FENCE_ALL s \<noteq> None
        then g_ipi_pending s c OR push_bit IPI_REMOTE_FENCE_ALL 1 else g_ipi_pending s c))"
  using assms
proof (induction ps arbitrary: status s)
  case (Cons p ps)
  show ?case
  proof (cases "sel p \<and> p \<noteq> me")
    case False
    let ?s = "if sel p then emit (HFence me) (emit (FenceI me) s) else s"
    have "fence_cpus tb me sel obs ps status ?s = Some (st, s')"
      using False Cons.prems(1) by (auto split: if_splits)
    from Cons.IH [OF this] Cons.prems(2) False show ?thesis
      by (auto simp: fence_ok_def validate_cong [of "emit _ _"] split: if_splits)
  next
    case True
    with Cons.prems obtain r s1 where
      r: "riscv_ipi_send_cpu_sync tb me p IPI_REMOTE_FENCE_ALL (obs p) s = Some (r, s1)"
        "fence_cpus tb me sel obs ps (if r \<noteq> 0 then - 1 else status) s1 = Some (st, s')"
      by (auto split: option.splits prod.splits)
    note sync = send_sync_remote [OF r(1)]
    from True sync(1) have v: "ipi_validate_target c w s1 = ipi_validate_target c w s" for c w
      by (intro validate_cong) (auto simp: same_frame_def)
    have f: "fence_ok tb s1 obs c = fence_ok tb s obs c" for c
      using sync(1,2) True v by (simp add: fence_ok_def same_frame_def)
    show ?thesis
      using Cons.IH [OF r(2)] Cons.prems(2) True sync(3,4) v f by (auto simp: fence_ok_def)
  qed
qed simp

section \<open>Properties\<close>

text \<open>
  C21. Posted vectors are handled once: after any sequence of posts, when the target takes its
  pending word and dispatches it, the completion counter of every vector that was pending or posted
  grows by one, the others are unchanged, and no vector stays pending.
\<close>

theorem ipi_dispatch_complete:
  assumes "0 \<le> me" "me < CPU_NUM" "me < g_cpu_count s" "0 \<le> g_cpu_to_hart s me"
  shows "let s1 = fold (\<lambda>(t, v). ipi_send_cpu t v) posts s;
             (w, s2) = riscv_ipi_take_pending me s1;
             s3 = soft_irq_loop me 0 w s2
         in g_ipi_pending s3 me = 0 \<and>
            (\<forall>v < IPI_MAX. g_ipi_complete s3 me v = g_ipi_complete s me v +
               (if bit (g_ipi_pending s me) v \<or> (me, v) \<in> set posts then 1 else 0))"
proof -
  have post: "(v < IPI_MAX \<longrightarrow> bit (g_ipi_pending (fold (\<lambda>(t, v). ipi_send_cpu t v) posts s) me) v \<longleftrightarrow>
        bit (g_ipi_pending s me) v \<or> (me, v) \<in> set posts) \<and>
      g_ipi_complete (fold (\<lambda>(t, v). ipi_send_cpu t v) posts s) = g_ipi_complete s"
    if "me < g_cpu_count s" "0 \<le> g_cpu_to_hart s me" for v s
    using that
  proof (induction posts arbitrary: s)
    case (Cons q posts)
    obtain t w where q: "q = (t, w)" by (cases q)
    have fr: "same_frame s (ipi_send_cpu t w s)" by (rule ipi_frame)
    have valid: "ipi_validate_target me w s \<noteq> None \<longleftrightarrow> w < IPI_MAX"
      using Cons.prems assms(1) by (auto simp: ipi_validate_target_def smp_hart_id_def)
    have "g_ipi_complete (ipi_send_cpu t w s) = g_ipi_complete s"
      by (auto simp: ipi_send_cpu_def ipi_post_def split: option.splits)
    moreover have "bit (g_ipi_pending (ipi_send_cpu t w s) me) v \<longleftrightarrow>
        bit (g_ipi_pending s me) v \<or> (t, w) = (me, v)" if "v < IPI_MAX"
      using that valid by (auto simp: ipi_send_pending bit_or_iff bit_simps)
    ultimately show ?case
      using Cons.IH [of "ipi_send_cpu t w s"] Cons.prems fr by (auto simp: q same_frame_def)
  qed simp
  show ?thesis
    using assms post [OF assms(3,4)]
    by (auto simp: Let_def riscv_ipi_take_pending_def soft_irq_loop_complete [where k = IPI_MAX])
qed

theorem ipi_dispatch_complete_witness:
  "let s1 = fold (\<lambda>(t, v). ipi_send_cpu t v) [(1, 0), (1, 3), (1, 0), (2, 1)] zero_rv;
       (w, s2) = riscv_ipi_take_pending 1 s1;
       s3 = soft_irq_loop 1 0 w s2
   in g_ipi_pending s3 1 = 0 \<and>
      (\<forall>v < IPI_MAX. g_ipi_complete s3 1 v = g_ipi_complete zero_rv 1 v +
         (if bit (g_ipi_pending zero_rv 1) v \<or> (1, v) \<in> set [(1::int, 0), (1, 3), (1, 0), (2, 1)] then 1 else 0))"
  by (rule ipi_dispatch_complete) (simp_all add: CPU_NUM_def zero_rv_def)

definition fence_target :: "int \<Rightarrow> u64 \<Rightarrow> u64 \<Rightarrow> rv \<Rightarrow> int \<Rightarrow> bool" where
  "fence_target me hmask base s p \<longleftrightarrow> p \<noteq> me \<and> 0 \<le> p \<and> p < CPU_NUM \<and> p < g_cpu_count s \<and>
     (\<exists>h < guest_vcpu_count s. guest_hart_selected (of_nat h) hmask base \<and> pcpu_of_hart me s h = Some p)"

lemma fence_target_iff:
  "fence_target me hmask base s p \<longleftrightarrow>
     p \<in> set [0..min (g_cpu_count s) CPU_NUM - 1] \<and> selected_pcpu me hmask base s p \<and> p \<noteq> me"
  by (auto simp: fence_target_def selected_pcpu_iff)

lemma fence_target_valid:
  "fence_target me hmask base s p \<Longrightarrow>
     ipi_validate_target p IPI_REMOTE_FENCE_ALL s \<noteq> None \<longleftrightarrow> 0 \<le> g_cpu_to_hart s p"
  by (auto simp: fence_target_def ipi_validate_target_def smp_hart_id_def)

text \<open>
  Remote fences reach exactly the selected CPUs: a completed call has posted the fence vector
  to every other online CPU that runs a selected guest hart and to no other CPU, and it reports
  success iff each of them acknowledged before the timeout.
\<close>

theorem remote_fence_selected:
  assumes "riscv_remote_fence tb me obs hmask base s = Some (st, s')"
  shows "(st = 0 \<longleftrightarrow> (\<forall>p. fence_target me hmask base s p \<longrightarrow> fence_ok tb s obs p)) \<and>
    (\<forall>c. bit (g_ipi_pending s' c) IPI_REMOTE_FENCE_ALL \<longleftrightarrow> bit (g_ipi_pending s c) IPI_REMOTE_FENCE_ALL \<or>
       fence_target me hmask base s c \<and> 0 \<le> g_cpu_to_hart s c)"
proof -
  note spec = fence_cpus_spec [OF assms [unfolded riscv_remote_fence_def]]
  have p: "g_ipi_pending s' c = (if fence_target me hmask base s c \<and> 0 \<le> g_cpu_to_hart s c
      then g_ipi_pending s c OR push_bit IPI_REMOTE_FENCE_ALL 1 else g_ipi_pending s c)" for c
    using spec fence_target_valid [of me hmask base s c] unfolding fence_target_iff
    by (cases "ipi_validate_target c IPI_REMOTE_FENCE_ALL s = None") auto
  have "bit (g_ipi_pending s c OR push_bit IPI_REMOTE_FENCE_ALL 1) IPI_REMOTE_FENCE_ALL" for c
    by (simp add: bit_or_iff bit_simps)
  with p spec show ?thesis by (auto simp: fence_target_iff)
qed

theorem remote_fence_selected_witness:
  "let s = zero_rv\<lparr>g_running := (\<lambda>i. if i = 1 then Some 7 else None),
                  tasks := (\<lambda>_. zero_task)(7 := zero_task\<lparr>t_mpidr := 1, t_affinity := 1\<rparr>)\<rparr>
   in \<exists>s'. riscv_remote_fence 10000000 0 (\<lambda>_. [(0, 5), (1, 9)]) 2 0 s = Some (0, s') \<and>
      bit (g_ipi_pending s' 1) IPI_REMOTE_FENCE_ALL \<and> \<not> bit (g_ipi_pending s' 2) IPI_REMOTE_FENCE_ALL"
proof -
  define s where "s = zero_rv\<lparr>g_running := (\<lambda>i. if i = 1 then Some 7 else None),
                  tasks := (\<lambda>_. zero_task)(7 := zero_task\<lparr>t_mpidr := 1, t_affinity := 1\<rparr>)\<rparr>"
  have f: "g_cpu_count s = 4" "guest_vcpu_count s = 4" "g_cpu_to_hart s = (\<lambda>i. i)" "now s = 0"
    "g_ipi_pending s = (\<lambda>_. 0)" "g_ipi_complete s = (\<lambda>_ _. 0)"
    by (simp_all add: s_def zero_rv_def)
  have p: "pcpu_of_hart 0 s h = (if (of_nat h :: u64) = 1 then Some 1 else None)" for h
    by (simp add: s_def pcpu_of_hart_def riscv_find_guest_vcpu_def running_as_def zero_rv_def zero_task_def)
  have h: "guest_hart_selected 1 2 0"
    by (simp add: guest_hart_selected_def bit_numeral_rec Let_def word_le_nat_alt)
  then have "\<exists>h < 4. guest_hart_selected (of_nat h) 2 0 \<and> (of_nat h :: u64) = 1"
    by (intro exI [of _ 1]) simp
  then have sel: "selected_pcpu 0 2 0 s c \<longleftrightarrow> c = 1" and tgt: "fence_target 0 2 0 s c \<longleftrightarrow> c = 1" for c
    by (auto simp: selected_pcpu_iff fence_target_def p f CPU_NUM_def)
  have l: "[0..min 4 CPU_NUM - 1] = [0, 1, 2, 3]" by (simp add: CPU_NUM_def upto.simps)
  obtain s' where s': "riscv_remote_fence 10000000 0 (\<lambda>_. [(0, 5), (1, 9)]) 2 0 s = Some (0, s')"
    by (simp add: riscv_remote_fence_def f l sel riscv_ipi_send_cpu_sync_def ipi_validate_target_def
        smp_hart_id_def Let_def riscv_ipi_sync_timeout_cycles_def)
  from remote_fence_selected [OF s'] s' show ?thesis by (auto simp: Let_def s_def [symmetric] tgt f)
qed

end
