(* ===== verification/Vplic.thy ===== *)
theory Vplic
  imports Riscv_Ipi
begin

text \<open>
  The interrupt controller the guest sees (\<^verbatim>\<open>src/arch/riscv64/plic.c\<close>, from \<^verbatim>\<open>struct vplic_state\<close>
  on): pending and enable bits, priorities, thresholds, claim, the memory-mapped registers, and the
  external interrupt line of each virtual CPU that the controller drives. Writes to the physical
  PLIC (the first part of the file) are register writes of the host and are modelled as address and
  value only.
\<close>

section \<open>Model\<close>

abbreviation (input) "PLIC_MAX_IRQ \<equiv> 128::nat"
abbreviation (input) "VPLIC_CONTEXTS \<equiv> 4::nat"
abbreviation (input) "VPLIC_WORDS \<equiv> 4::nat"
abbreviation (input) "PLIC_BASE \<equiv> 0x0C000000::u64"

text \<open>Offsets of the members in \<^verbatim>\<open>struct vplic_state\<close>, in words.\<close>

definition priority_at :: "nat \<Rightarrow> nat" where "priority_at irq = irq"
definition pending_at :: "nat \<Rightarrow> nat" where "pending_at w = 129 + w"
definition enable_at :: "nat \<Rightarrow> nat \<Rightarrow> nat" where "enable_at c w = 133 + 4 * c + w"
definition threshold_at :: "nat \<Rightarrow> nat" where "threshold_at c = 149 + c"

lemmas at_defs = priority_at_def pending_at_def enable_at_def threshold_at_def

definition vplic_irq_valid :: "nat \<Rightarrow> bool" where
  "vplic_irq_valid irq \<longleftrightarrow> 0 < irq \<and> irq \<le> PLIC_MAX_IRQ"

definition vplic_irq_pending_locked :: "vplic_state \<Rightarrow> nat \<Rightarrow> bool" where
  "vplic_irq_pending_locked p irq = bit (p ! pending_at (irq div 32)) (irq mod 32)"

definition vplic_irq_enabled_locked :: "vplic_state \<Rightarrow> nat \<Rightarrow> nat \<Rightarrow> bool" where
  "vplic_irq_enabled_locked p c irq =
     (if VPLIC_CONTEXTS \<le> c then False else bit (p ! enable_at c (irq div 32)) (irq mod 32))"

definition vplic_irq_deliverable_locked :: "vplic_state \<Rightarrow> nat \<Rightarrow> nat \<Rightarrow> bool" where
  "vplic_irq_deliverable_locked p c irq =
     (if \<not> vplic_irq_valid irq then False
      else if \<not> vplic_irq_pending_locked p irq \<or> \<not> vplic_irq_enabled_locked p c irq then False
      else p ! priority_at irq > p ! threshold_at c)"

definition vplic_context_has_deliverable_locked :: "vplic_state \<Rightarrow> nat \<Rightarrow> bool" where
  "vplic_context_has_deliverable_locked p c =
     (if VPLIC_CONTEXTS \<le> c then False
      else list_ex (vplic_irq_deliverable_locked p c) [1..<PLIC_MAX_IRQ + 1])"

definition set_pending :: "nat \<Rightarrow> vplic_state \<Rightarrow> vplic_state" where
  "set_pending irq p = p[pending_at (irq div 32) := p ! pending_at (irq div 32) OR push_bit (irq mod 32) 1]"

definition clear_pending :: "nat \<Rightarrow> vplic_state \<Rightarrow> vplic_state" where
  "clear_pending irq p =
     p[pending_at (irq div 32) := p ! pending_at (irq div 32) AND NOT (push_bit (irq mod 32) 1)]"

subsection \<open>Driving the external interrupt lines\<close>

definition vplic_set_task_vseip :: "int \<Rightarrow> nat option \<Rightarrow> bool \<Rightarrow> rv \<Rightarrow> rv" where
  "vplic_set_task_vseip me task asserted s =
     (case task of None \<Rightarrow> s | Some t \<Rightarrow>
       (case t_vcpu (tasks s t) of None \<Rightarrow> s | Some v \<Rightarrow>
         (if asserted then
            (let s1 = riscv_virt_irq_assert me (Some v) IRQ_VS_EXT s in
             if current_task me s1 \<noteq> Some t \<and> 0 \<le> t_affinity (tasks s1 t)
             then ipi_send_reschedule (t_affinity (tasks s1 t)) s1 else s1)
          else riscv_virt_irq_clear me (Some v) IRQ_VS_EXT s)))"

definition riscv_vplic_refresh :: "int \<Rightarrow> rv \<Rightarrow> rv" where
  "riscv_vplic_refresh me s =
     (case current_task me s of None \<Rightarrow> s | Some t \<Rightarrow>
       (case t_vcpu (tasks s t) of None \<Rightarrow> s | Some v \<Rightarrow>
         vplic_set_task_vseip me (Some t)
           (vplic_context_has_deliverable_locked (g_vplic s) (unat (word_of_int (vcpu_id (vcpus s v)) :: u32))) s))"

definition vplic_update_all_vseip :: "int \<Rightarrow> rv \<Rightarrow> rv" where
  "vplic_update_all_vseip me s =
     (let asserted = vplic_context_has_deliverable_locked (g_vplic s) in
      fold (\<lambda>c s. vplic_set_task_vseip me (riscv_find_guest_vcpu (of_nat c) s) (asserted c) s)
        [0..<VPLIC_CONTEXTS] s)"

definition riscv_vplic_raise :: "int \<Rightarrow> nat \<Rightarrow> rv \<Rightarrow> rv" where
  "riscv_vplic_raise me irq s =
     (if \<not> vplic_irq_valid irq then s
      else vplic_update_all_vseip me (s\<lparr>g_vplic := set_pending irq (g_vplic s)\<rparr>))"

definition riscv_vplic_clear :: "int \<Rightarrow> nat \<Rightarrow> rv \<Rightarrow> rv" where
  "riscv_vplic_clear me irq s =
     (if \<not> vplic_irq_valid irq then s
      else vplic_update_all_vseip me (s\<lparr>g_vplic := clear_pending irq (g_vplic s)\<rparr>))"

subsection \<open>Claim and the registers\<close>

definition claim_step :: "vplic_state \<Rightarrow> nat \<Rightarrow> nat \<Rightarrow> nat \<times> u32 \<Rightarrow> nat \<times> u32" where
  "claim_step p c irq best =
     (if \<not> vplic_irq_deliverable_locked p c irq then best
      else if p ! priority_at irq > snd best then (irq, p ! priority_at irq) else best)"

definition vplic_claim_locked :: "vplic_state \<Rightarrow> nat \<Rightarrow> nat \<times> vplic_state" where
  "vplic_claim_locked p c =
     (if VPLIC_CONTEXTS \<le> c then (0, p)
      else (let best_irq = fst (fold (claim_step p c) [1..<PLIC_MAX_IRQ + 1] (0, 0)) in
        if best_irq \<noteq> 0 then (best_irq, clear_pending best_irq p) else (best_irq, p)))"

definition vplic_context_from_claim_off :: "nat \<Rightarrow> int" where
  "vplic_context_from_claim_off off =
     (if off < 0x200000 then - 1
      else if (off - 0x200000) mod 0x1000 \<noteq> 4 then - 1 else int ((off - 0x200000) div 0x1000))"

definition vplic_context_from_threshold_off :: "nat \<Rightarrow> int" where
  "vplic_context_from_threshold_off off =
     (if off < 0x200000 then - 1
      else if (off - 0x200000) mod 0x1000 \<noteq> 0 then - 1 else int ((off - 0x200000) div 0x1000))"

definition vplic_off :: "u64 \<Rightarrow> nat" where
  "vplic_off addr = unat (ucast (addr - PLIC_BASE) :: u32)"

definition in_contexts :: "int \<Rightarrow> bool" where
  "in_contexts c \<longleftrightarrow> 0 \<le> c \<and> c < int VPLIC_CONTEXTS"

text \<open>The locked part of \<open>vplic_read\<close>: the value read and the new controller state.\<close>

definition vplic_read_locked :: "vplic_state \<Rightarrow> nat \<Rightarrow> u32 \<times> vplic_state" where
  "vplic_read_locked p off =
     (if off < 0x1000 then
        (if vplic_irq_valid (off div 4) then (p ! priority_at (off div 4), p) else (0, p))
      else if off < 0x2000 then
        (if (off - 0x1000) div 4 < VPLIC_WORDS then (p ! pending_at ((off - 0x1000) div 4), p) else (0, p))
      else if off < 0x2000 + VPLIC_CONTEXTS * 0x80 then
        (let rel = off - 0x2000; c = rel div 0x80; w = (rel mod 0x80) div 4 in
         if c < VPLIC_CONTEXTS \<and> w < VPLIC_WORDS then (p ! enable_at c w, p) else (0, p))
      else (let c = vplic_context_from_threshold_off off in
        if in_contexts c then (p ! threshold_at (nat c), p)
        else (let c' = vplic_context_from_claim_off off in
          if in_contexts c'
          then (let (irq, p') = vplic_claim_locked p (nat c') in (of_nat irq, p'))
          else (0, p))))"

definition vplic_read :: "int \<Rightarrow> u64 \<Rightarrow> rv \<Rightarrow> u64 \<times> rv" where
  "vplic_read me addr s =
     (let (v, p) = vplic_read_locked (g_vplic s) (vplic_off addr) in
      (ucast v, vplic_update_all_vseip me (s\<lparr>g_vplic := p\<rparr>)))"

definition vplic_write_locked :: "vplic_state \<Rightarrow> nat \<Rightarrow> u32 \<Rightarrow> vplic_state" where
  "vplic_write_locked p off v =
     (if off < 0x1000 then
        (if vplic_irq_valid (off div 4) then p[priority_at (off div 4) := v AND 7] else p)
      else if 0x2000 \<le> off \<and> off < 0x2000 + VPLIC_CONTEXTS * 0x80 then
        (let rel = off - 0x2000; c = rel div 0x80; w = (rel mod 0x80) div 4 in
         if c < VPLIC_CONTEXTS \<and> w < VPLIC_WORDS then p[enable_at c w := v] else p)
      else (let c = vplic_context_from_threshold_off off in
        if in_contexts c then p[threshold_at (nat c) := v] else p))"

definition vplic_write :: "int \<Rightarrow> u64 \<Rightarrow> u64 \<Rightarrow> rv \<Rightarrow> rv" where
  "vplic_write me addr v s =
     vplic_update_all_vseip me (s\<lparr>g_vplic := vplic_write_locked (g_vplic s) (vplic_off addr) (ucast v)\<rparr>)"

definition plic_register_emul :: "rv \<Rightarrow> rv" where
  "plic_register_emul s = s\<lparr>g_vplic := replicate 1 0 @ replicate 128 1 @ replicate 24 0\<rparr>"

subsection \<open>The physical PLIC\<close>

definition PLIC_ENABLE :: "nat \<Rightarrow> nat \<Rightarrow> u64" where
  "PLIC_ENABLE c irq = PLIC_BASE + 0x2000 + of_nat (c * 0x80) + of_nat (irq div 32 * 4)"

definition PLIC_PRIORITY :: "nat \<Rightarrow> u64" where
  "PLIC_PRIORITY irq = PLIC_BASE + of_nat (irq * 4)"

definition PLIC_THRESHOLD :: "nat \<Rightarrow> u64" where
  "PLIC_THRESHOLD c = PLIC_BASE + 0x200000 + of_nat (c * 0x1000)"

definition PLIC_CLAIM :: "nat \<Rightarrow> u64" where
  "PLIC_CLAIM c = PLIC_BASE + 0x200004 + of_nat (c * 0x1000)"

text \<open>The register writes of \<open>plic_init\<close> for context 1 (hart 0, supervisor), in order.\<close>

definition plic_init :: "(u64 \<times> u32) list" where
  "plic_init = map (\<lambda>i. (PLIC_ENABLE 1 (i * 32), 0)) [0..<4] @ [(PLIC_THRESHOLD 1, 0)] @
     map (\<lambda>i. (PLIC_PRIORITY i, 1)) [1..<129]"

definition plic_irq_enable :: "(u64 \<Rightarrow> u32) \<Rightarrow> nat \<Rightarrow> u64 \<times> u32" where
  "plic_irq_enable mem irq = (PLIC_ENABLE 1 irq, mem (PLIC_ENABLE 1 irq) OR push_bit (irq mod 32) 1)"

definition plic_irq_disable :: "(u64 \<Rightarrow> u32) \<Rightarrow> nat \<Rightarrow> u64 \<times> u32" where
  "plic_irq_disable mem irq =
     (PLIC_ENABLE 1 irq, mem (PLIC_ENABLE 1 irq) AND NOT (push_bit (irq mod 32) 1))"

section \<open>Claim selects the best interrupt\<close>

definition claim_best :: "vplic_state \<Rightarrow> nat \<Rightarrow> nat list \<Rightarrow> nat \<times> u32 \<Rightarrow> bool" where
  "claim_best p c irqs best \<longleftrightarrow>
     (if fst best = 0 then snd best = 0 \<and> (\<forall>i \<in> set irqs. \<not> vplic_irq_deliverable_locked p c i)
      else fst best \<in> set irqs \<and> vplic_irq_deliverable_locked p c (fst best) \<and>
        snd best = p ! priority_at (fst best) \<and>
        (\<forall>i \<in> set irqs. vplic_irq_deliverable_locked p c i \<longrightarrow> p ! priority_at i \<le> snd best \<and>
           (p ! priority_at i = snd best \<longrightarrow> fst best \<le> i)))"

lemma deliverable_pos: "vplic_irq_deliverable_locked p c i \<Longrightarrow> 0 < i \<and> p ! priority_at i > 0"
  by (auto simp: vplic_irq_deliverable_locked_def vplic_irq_valid_def word_gt_0_no order.strict_trans1
      split: if_splits dest: le_less_trans [OF word_zero_le])

lemma claim_best_snoc:
  assumes "claim_best p c irqs best" "\<forall>i \<in> set irqs. i < irq"
  shows "claim_best p c (irqs @ [irq]) (claim_step p c irq best)"
proof (cases "vplic_irq_deliverable_locked p c irq")
  case False
  with assms(1) show ?thesis by (auto simp: claim_best_def claim_step_def)
next
  case True
  note pos = deliverable_pos [OF True]
  show ?thesis
  proof (cases "p ! priority_at irq > snd best")
    case better: True
    then have "\<forall>i \<in> set irqs. vplic_irq_deliverable_locked p c i \<longrightarrow> p ! priority_at i < p ! priority_at irq"
      using assms(1) by (auto simp: claim_best_def split: if_splits)
    with True better pos show ?thesis by (auto simp: claim_best_def claim_step_def)
  next
    case False
    then have "fst best \<noteq> 0" using assms(1) pos by (auto simp: claim_best_def split: if_splits)
    with True False assms show ?thesis by (auto simp: claim_best_def claim_step_def)
  qed
qed

lemma claim_best_fold:
  "claim_best p c [1..<n] (fold (claim_step p c) [1..<n] (0, 0))"
proof (induction n)
  case (Suc n)
  show ?case
  proof (cases "n = 0")
    case False
    then have "[1..<Suc n] = [1..<n] @ [n]" by simp
    with Suc claim_best_snoc [OF Suc, of n] show ?thesis by simp
  qed (simp add: claim_best_def)
qed (simp add: claim_best_def)

lemma claim_best_none: "claim_best p c irqs best \<Longrightarrow> fst best = 0 \<Longrightarrow> i \<in> set irqs \<Longrightarrow>
    \<not> vplic_irq_deliverable_locked p c i"
  by (auto simp: claim_best_def)

lemma claim_best_some:
  assumes "claim_best p c irqs best" "fst best \<noteq> 0"
  shows "fst best \<in> set irqs" "vplic_irq_deliverable_locked p c (fst best)"
    "i \<in> set irqs \<Longrightarrow> vplic_irq_deliverable_locked p c i \<Longrightarrow> p ! priority_at i < p ! priority_at (fst best) \<or>
       p ! priority_at i = p ! priority_at (fst best) \<and> fst best \<le> i"
  using assms by (auto simp: claim_best_def le_less)

lemma clear_pending_pending:
  assumes "length p = 153" "irq \<le> PLIC_MAX_IRQ" "j \<le> PLIC_MAX_IRQ"
  shows "vplic_irq_pending_locked (clear_pending irq p) j \<longleftrightarrow> j \<noteq> irq \<and> vplic_irq_pending_locked p j"
    "vplic_irq_pending_locked (set_pending irq p) j \<longleftrightarrow> j = irq \<or> vplic_irq_pending_locked p j"
proof -
  have "j = irq \<longleftrightarrow> j div 32 = irq div 32 \<and> j mod 32 = irq mod 32" by (metis div_mult_mod_eq)
  moreover have "j div 32 \<le> 4" "irq div 32 \<le> 4" using assms(2,3) by auto
  ultimately show "vplic_irq_pending_locked (clear_pending irq p) j \<longleftrightarrow> j \<noteq> irq \<and> vplic_irq_pending_locked p j"
    "vplic_irq_pending_locked (set_pending irq p) j \<longleftrightarrow> j = irq \<or> vplic_irq_pending_locked p j"
    using assms(1)
    by (auto simp: vplic_irq_pending_locked_def clear_pending_def set_pending_def pending_at_def nth_list_update
        bit_simps)
qed

section \<open>Driving the lines\<close>

definition context_vcpu :: "rv \<Rightarrow> nat \<Rightarrow> nat option" where
  "context_vcpu s c = riscv_find_guest_vcpu (of_nat c) s \<bind> (\<lambda>t. t_vcpu (tasks s t))"

lemma context_vcpu_frame: "same_frame s s' \<Longrightarrow> context_vcpu s' = context_vcpu s"
  by (auto simp: context_vcpu_def same_frame_find fun_eq_iff) (simp add: same_frame_def)

lemma vseip_frame [hc_inv]: "same_frame s (vplic_set_task_vseip me t b s)"
  by (auto simp: vplic_set_task_vseip_def ipi_send_reschedule_def Let_def split: option.splits
      intro: hc_inv same_frame_trans)

lemma vseip_vplic [simp]:
  "g_vplic (vplic_set_task_vseip me t b s) = g_vplic s" "g_uart (vplic_set_task_vseip me t b s) = g_uart s"
  by (auto simp: vplic_set_task_vseip_def ipi_send_reschedule_def Let_def split: option.splits)

lemma vseip_line:
  "virt_line (vplic_set_task_vseip me t b s) v j \<longleftrightarrow>
     (if (t \<bind> (\<lambda>t. t_vcpu (tasks s t))) = Some v \<and> j = IRQ_VS_EXT then b else virt_line s v j)"
proof (cases "t \<bind> (\<lambda>t. t_vcpu (tasks s t))")
  case None
  then show ?thesis by (auto simp: vplic_set_task_vseip_def split: option.splits bind_splits)
next
  case (Some w)
  then obtain t' where t': "t = Some t'" "t_vcpu (tasks s t') = Some w" by (auto split: bind_splits)
  have "virt_line (vplic_set_task_vseip me t b s) = virt_line (lines.drive me w IRQ_VS_EXT b s)"
    using t' by (auto simp: vplic_set_task_vseip_def lines.drive_def ipi_send_reschedule_def Let_def)
  then show ?thesis using Some by (auto simp: lines.line_drive)
qed

lemma update_all_frame [simp]:
  "g_vplic (vplic_update_all_vseip me s) = g_vplic s" "g_uart (vplic_update_all_vseip me s) = g_uart s"
  "same_frame s (vplic_update_all_vseip me s)"
proof -
  have "g_vplic (fold (\<lambda>c s. vplic_set_task_vseip me (riscv_find_guest_vcpu (of_nat c) s) (f c) s) cs s) = g_vplic s \<and>
      g_uart (fold (\<lambda>c s. vplic_set_task_vseip me (riscv_find_guest_vcpu (of_nat c) s) (f c) s) cs s) = g_uart s \<and>
      same_frame s (fold (\<lambda>c s. vplic_set_task_vseip me (riscv_find_guest_vcpu (of_nat c) s) (f c) s) cs s)"
    for f cs
    by (induction cs arbitrary: s) (auto intro: same_frame_trans vseip_frame)
  then show "g_vplic (vplic_update_all_vseip me s) = g_vplic s" "g_uart (vplic_update_all_vseip me s) = g_uart s"
    "same_frame s (vplic_update_all_vseip me s)"
    by (simp_all add: vplic_update_all_vseip_def Let_def del: upt_rec_numeral)
qed

lemma update_all_fold:
  assumes "\<forall>c c' v. c \<in> set cs \<and> c' \<in> set cs \<and> context_vcpu s c = Some v \<and> context_vcpu s c' = Some v \<longrightarrow> c = c'"
  shows "let s' = fold (\<lambda>c s. vplic_set_task_vseip me (riscv_find_guest_vcpu (of_nat c) s) (f c) s) cs s in
    same_frame s s' \<and>
    (\<forall>v j. (\<forall>c \<in> set cs. context_vcpu s c = Some v \<and> j = IRQ_VS_EXT \<longrightarrow> (virt_line s' v j \<longleftrightarrow> f c)) \<and>
       ((\<forall>c \<in> set cs. context_vcpu s c \<noteq> Some v) \<or> j \<noteq> IRQ_VS_EXT \<longrightarrow> virt_line s' v j = virt_line s v j))"
  using assms
proof (induction cs rule: rev_induct)
  case (snoc c cs)
  define s1 where "s1 = fold (\<lambda>c s. vplic_set_task_vseip me (riscv_find_guest_vcpu (of_nat c) s) (f c) s) cs s"
  have "\<forall>c c' v. c \<in> set cs \<and> c' \<in> set cs \<and> context_vcpu s c = Some v \<and> context_vcpu s c' = Some v \<longrightarrow> c = c'"
    using snoc.prems by simp
  note H = snoc.IH [OF this, unfolded Let_def, folded s1_def]
  then have IH: "same_frame s s1" by blast
  from H have l: "\<And>v d. d \<in> set cs \<Longrightarrow> context_vcpu s d = Some v \<Longrightarrow> virt_line s1 v IRQ_VS_EXT \<longleftrightarrow> f d"
    by blast
  from H have o: "\<And>v j. (\<forall>d \<in> set cs. context_vcpu s d \<noteq> Some v) \<or> j \<noteq> IRQ_VS_EXT \<Longrightarrow>
      virt_line s1 v j = virt_line s v j" by blast
  let ?s2 = "vplic_set_task_vseip me (riscv_find_guest_vcpu (of_nat c) s1) (f c) s1"
  have ctx: "(riscv_find_guest_vcpu (of_nat c) s1 \<bind> (\<lambda>t. t_vcpu (tasks s1 t))) = context_vcpu s c"
    using context_vcpu_frame [OF IH] by (simp add: context_vcpu_def fun_eq_iff)
  have fr: "same_frame s ?s2" using IH vseip_frame same_frame_trans by blast
  have L: "virt_line ?s2 v j \<longleftrightarrow>
      (if context_vcpu s c = Some v \<and> j = IRQ_VS_EXT then f c else virt_line s1 v j)" for v j
    by (simp only: vseip_line ctx)
  have fold: "fold (\<lambda>c s. vplic_set_task_vseip me (riscv_find_guest_vcpu (of_nat c) s) (f c) s) (cs @ [c]) s = ?s2"
    by (simp add: s1_def)
  show ?case unfolding Let_def fold
  proof (intro conjI allI ballI impI)
    fix v j d assume d: "d \<in> set (cs @ [c])" "context_vcpu s d = Some v \<and> j = IRQ_VS_EXT"
    show "virt_line ?s2 v j = f d"
    proof (cases "context_vcpu s c = Some v")
      case True
      with d snoc.prems have "d = c" by (metis list.set_intros(1) set_append Un_iff)
      with True d show ?thesis by (simp add: L)
    next
      case False
      with d have "d \<in> set cs" by auto
      with False d l show ?thesis by (simp add: L)
    qed
  next
    fix v j assume "(\<forall>d \<in> set (cs @ [c]). context_vcpu s d \<noteq> Some v) \<or> j \<noteq> IRQ_VS_EXT"
    then show "virt_line ?s2 v j = virt_line s v j" using o [of v j] by (auto simp: L)
  qed (rule fr)
qed simp

definition contexts_distinct :: "rv \<Rightarrow> bool" where
  "contexts_distinct s \<longleftrightarrow> (\<forall>c c' v. c < VPLIC_CONTEXTS \<and> c' < VPLIC_CONTEXTS \<and>
     context_vcpu s c = Some v \<and> context_vcpu s c' = Some v \<longrightarrow> c = c')"

definition vseip_consistent :: "rv \<Rightarrow> bool" where
  "vseip_consistent s \<longleftrightarrow> (\<forall>c < VPLIC_CONTEXTS. \<forall>v. context_vcpu s c = Some v \<longrightarrow>
     (virt_line s v IRQ_VS_EXT \<longleftrightarrow> vplic_context_has_deliverable_locked (g_vplic s) c))"

lemma contexts_distinct_frame: "same_frame s s' \<Longrightarrow> contexts_distinct s' = contexts_distinct s"
  by (simp add: contexts_distinct_def context_vcpu_frame)

lemma same_frame_vplic [simp]: "same_frame s (s\<lparr>g_vplic := p\<rparr>)" "same_frame s (s\<lparr>g_uart := u\<rparr>)"
  by (simp_all add: same_frame_def)

lemma update_all:
  assumes "contexts_distinct s"
  shows "vseip_consistent (vplic_update_all_vseip me s)"
    "j \<noteq> IRQ_VS_EXT \<Longrightarrow> virt_line (vplic_update_all_vseip me s) v j = virt_line s v j"
proof -
  let ?f = "vplic_context_has_deliverable_locked (g_vplic s)"
  note U = update_all_fold [of "[0..<VPLIC_CONTEXTS]" s me ?f, unfolded Let_def]
  have U': "(\<forall>c < VPLIC_CONTEXTS. \<forall>v. context_vcpu s c = Some v \<longrightarrow>
         (virt_line (vplic_update_all_vseip me s) v IRQ_VS_EXT \<longleftrightarrow> ?f c)) \<and>
      (\<forall>v j. j \<noteq> IRQ_VS_EXT \<longrightarrow> virt_line (vplic_update_all_vseip me s) v j = virt_line s v j)"
    using U assms unfolding vplic_update_all_vseip_def Let_def contexts_distinct_def by auto
  then show "j \<noteq> IRQ_VS_EXT \<Longrightarrow> virt_line (vplic_update_all_vseip me s) v j = virt_line s v j" by auto
  show "vseip_consistent (vplic_update_all_vseip me s)"
    using U' by (auto simp: vseip_consistent_def context_vcpu_frame [OF update_all_frame(3)])
qed

datatype vplic_op = VRead u64 | VWrite u64 u64 | VRaise nat | VClear nat

fun vplic_step :: "int \<Rightarrow> vplic_op \<Rightarrow> rv \<Rightarrow> rv" where
  "vplic_step me (VRead a) s = snd (vplic_read me a s)"
| "vplic_step me (VWrite a v) s = vplic_write me a v s"
| "vplic_step me (VRaise irq) s = riscv_vplic_raise me irq s"
| "vplic_step me (VClear irq) s = riscv_vplic_clear me irq s"

lemma vplic_step_inv:
  assumes "contexts_distinct s" "vseip_consistent s"
  shows "contexts_distinct (vplic_step me op s) \<and> vseip_consistent (vplic_step me op s)"
proof -
  have u: "contexts_distinct (vplic_update_all_vseip me (s\<lparr>g_vplic := p\<rparr>)) \<and>
      vseip_consistent (vplic_update_all_vseip me (s\<lparr>g_vplic := p\<rparr>))" for p
  proof -
    have d: "contexts_distinct (s\<lparr>g_vplic := p\<rparr>)"
      using assms(1) contexts_distinct_frame same_frame_vplic(1) by blast
    from update_all(1) [OF d] d show ?thesis by (metis contexts_distinct_frame update_all_frame(3))
  qed
  show ?thesis
    by (cases op)
       (use assms u in \<open>auto simp: vplic_read_def vplic_write_def riscv_vplic_raise_def riscv_vplic_clear_def
           split: prod.splits\<close>)
qed

section \<open>Properties\<close>

text \<open>
  C3. The external interrupt line follows the controller: whatever sequence of register reads
  (claims included), register writes, raised and cleared interrupts runs, on whichever CPU, the
  line of the virtual CPU of every context is asserted exactly when that context has a deliverable
  interrupt. No two contexts share a virtual CPU.
\<close>

theorem vseip_follows_controller:
  assumes "contexts_distinct s" "vseip_consistent s"
  shows "vseip_consistent (fold (\<lambda>(me, op). vplic_step me op) ops s)"
  using assms
proof (induction ops arbitrary: s)
  case (Cons x ops)
  then show ?case using vplic_step_inv [of s "fst x" "snd x"] by (cases x) auto
qed simp

theorem vseip_follows_controller_witness:
  "vseip_consistent (fold (\<lambda>(me, op). vplic_step me op)
     [(0, VWrite 0x0C002000 0x400), (1, VRaise 10), (0, VRead 0x0C200004), (2, VClear 10)]
     (plic_register_emul (zero_rv\<lparr>g_running := (\<lambda>i. if i = 0 then Some 7 else None),
        tasks := (\<lambda>_. zero_task)(7 := zero_task\<lparr>t_vcpu := Some 3\<rparr>)\<rparr>)))"
proof (rule vseip_follows_controller)
  let ?s = "plic_register_emul (zero_rv\<lparr>g_running := (\<lambda>i. if i = 0 then Some 7 else None),
        tasks := (\<lambda>_. zero_task)(7 := zero_task\<lparr>t_vcpu := Some 3\<rparr>)\<rparr>)"
  have c: "context_vcpu ?s c = Some v \<longleftrightarrow> c = 0 \<and> v = 3" if "c < VPLIC_CONTEXTS" for c v
  proof -
    from that consider "c = 0" | "c = 1" | "c = 2" | "c = 3" by linarith
    then show ?thesis
      by cases (auto simp: context_vcpu_def riscv_find_guest_vcpu_def running_as_def plic_register_emul_def
        zero_rv_def zero_task_def)
  qed
  show "contexts_distinct ?s" unfolding contexts_distinct_def using c by blast
  have "\<not> vplic_irq_deliverable_locked (g_vplic ?s) 0 i" for i
    by (auto simp: plic_register_emul_def vplic_irq_deliverable_locked_def vplic_irq_valid_def
        vplic_irq_enabled_locked_def at_defs nth_append nth_Cons')
  then show "vseip_consistent ?s"
    using c unfolding vseip_consistent_def vplic_context_has_deliverable_locked_def list_ex_iff
    by (auto simp: virt_line_def plic_register_emul_def zero_rv_def zero_vcpu_def)
qed

text \<open>
  C22. A claim returns the deliverable interrupt of the highest priority, the lowest-numbered one
  among equals, and 0 exactly when none is deliverable; it makes that interrupt not pending and
  changes no other pending bit.
\<close>

theorem vplic_claim_correct:
  assumes "length p = 153" "c < VPLIC_CONTEXTS" "vplic_claim_locked p c = (irq, p')"
  shows "(irq = 0 \<longleftrightarrow> \<not> vplic_context_has_deliverable_locked p c) \<and>
    (irq \<noteq> 0 \<longrightarrow> vplic_irq_deliverable_locked p c irq \<and>
      (\<forall>i. vplic_irq_deliverable_locked p c i \<longrightarrow> p ! priority_at i < p ! priority_at irq \<or>
         p ! priority_at i = p ! priority_at irq \<and> irq \<le> i)) \<and>
    (\<forall>j \<le> PLIC_MAX_IRQ. vplic_irq_pending_locked p' j \<longleftrightarrow>
       \<not> (irq \<noteq> 0 \<and> j = irq) \<and> vplic_irq_pending_locked p j)"
proof -
  define irqs where "irqs = [1..<PLIC_MAX_IRQ + 1]"
  define best where "best = fold (claim_step p c) irqs (0, 0)"
  have b: "claim_best p c irqs best" unfolding best_def irqs_def by (rule claim_best_fold)
  have irq: "irq = fst best" "p' = (if irq \<noteq> 0 then clear_pending irq p else p)"
    using assms(2,3) unfolding vplic_claim_locked_def irqs_def [symmetric] best_def [symmetric] Let_def
    by (auto split: if_splits)
  have irqs: "i \<in> set irqs \<longleftrightarrow> 0 < i \<and> i \<le> PLIC_MAX_IRQ" for i unfolding irqs_def set_upt by auto
  then have valid: "vplic_irq_deliverable_locked p c i \<Longrightarrow> i \<in> set irqs" for i
    by (auto simp: vplic_irq_deliverable_locked_def vplic_irq_valid_def split: if_splits)
  have has: "vplic_context_has_deliverable_locked p c \<longleftrightarrow> (\<exists>i. vplic_irq_deliverable_locked p c i)"
    using assms(2) valid unfolding vplic_context_has_deliverable_locked_def irqs_def [symmetric] list_ex_iff
    by auto
  show ?thesis
  proof (cases "irq = 0")
    case True
    then show ?thesis using claim_best_none [OF b] irq valid has by auto
  next
    case False
    note B = claim_best_some [OF b, folded irq(1), OF False]
    then have "\<forall>j \<le> PLIC_MAX_IRQ. vplic_irq_pending_locked p' j \<longleftrightarrow> j \<noteq> irq \<and> vplic_irq_pending_locked p j"
      using False irq(2) irqs assms(1) by (simp add: clear_pending_pending)
    with False has valid B show ?thesis by auto
  qed
qed

theorem vplic_claim_correct_witness:
  "let p = (replicate 153 0)[5 := 1, 9 := 3, 129 := 0x220, 133 := 0x220] in
   (\<exists>irq p'. vplic_claim_locked p 0 = (irq, p') \<and> irq \<noteq> 0 \<and> vplic_irq_deliverable_locked p 0 irq \<and>
      \<not> vplic_irq_pending_locked p' irq)"
proof -
  let ?p = "(replicate 153 0)[5 := 1, 9 := 3, 129 := 0x220, 133 := 0x220] :: u32 list"
  obtain irq p' where c: "vplic_claim_locked ?p 0 = (irq, p')" by (cases "vplic_claim_locked ?p 0")
  have d: "vplic_irq_deliverable_locked ?p 0 9"
    by (simp add: vplic_irq_deliverable_locked_def vplic_irq_valid_def vplic_irq_pending_locked_def
        vplic_irq_enabled_locked_def at_defs bit_numeral_rec)
  then have "vplic_context_has_deliverable_locked ?p 0"
    unfolding vplic_context_has_deliverable_locked_def list_ex_iff set_upt by auto
  with vplic_claim_correct [OF _ _ c] c have "irq \<noteq> 0" "vplic_irq_deliverable_locked ?p 0 irq"
    "irq \<le> PLIC_MAX_IRQ \<longrightarrow> \<not> vplic_irq_pending_locked p' irq" by auto
  moreover from this(2) have "irq \<le> PLIC_MAX_IRQ"
    by (auto simp: vplic_irq_deliverable_locked_def vplic_irq_valid_def split: if_splits)
  ultimately show ?thesis using c by (auto simp: Let_def)
qed

definition phantom_state :: vplic_state where
  "phantom_state = vplic_write_locked (vplic_write_locked
     (replicate 1 0 @ replicate 128 1 @ replicate 24 0) 0x2000 1) 0x2080 1"

lemma phantom_state_nth:
  "length phantom_state = 153" "k < 153 \<Longrightarrow> phantom_state ! k = (if k = 0 then 0 else if k < 129 then 1
     else if k = 133 \<or> k = 137 then 1 else 0)"
  by (auto simp: phantom_state_def vplic_write_locked_def at_defs Let_def nth_append nth_list_update
      simp del: replicate.simps)

lemma phantom_deliverable: "vplic_irq_deliverable_locked phantom_state 0 i \<longleftrightarrow> i = 128"
proof (cases "i < 128")
  case True
  then have "phantom_state ! pending_at (i div 32) = 0" by (auto simp: phantom_state_nth(2) pending_at_def)
  with True show ?thesis by (simp add: vplic_irq_deliverable_locked_def vplic_irq_pending_locked_def)
next
  case False
  then show ?thesis
    by (auto simp: vplic_irq_deliverable_locked_def vplic_irq_valid_def vplic_irq_pending_locked_def
        vplic_irq_enabled_locked_def at_defs phantom_state_nth(2))
qed

text \<open>
  Interrupt 128 is accepted as valid but has no pending word of its own: its pending bit is bit 0
  of the first enable word of context 0, and its enable bit in context 0 is bit 0 of the first enable
  word of context 1. After reset, a guest that sets bit 0 in both enable words, without any interrupt
  being raised, is handed interrupt 128 by its next claim.
\<close>

theorem vplic_phantom_irq_128:
  "let p0 = replicate 1 0 @ replicate 128 1 @ replicate 24 0;
       p1 = vplic_write_locked p0 0x2000 1;
       p2 = vplic_write_locked p1 0x2080 1
   in fst (vplic_read_locked p2 0x200004) = 128"
proof -
  obtain irq p' where c: "vplic_claim_locked phantom_state 0 = (irq, p')"
    by (cases "vplic_claim_locked phantom_state 0")
  define best where "best = fold (claim_step phantom_state 0) [1..<PLIC_MAX_IRQ + 1] (0, 0)"
  have "claim_best phantom_state 0 [1..<PLIC_MAX_IRQ + 1] best" unfolding best_def by (rule claim_best_fold)
  moreover have "(128::nat) \<in> set [1..<PLIC_MAX_IRQ + 1]" unfolding set_upt by simp
  ultimately have "fst best = 128" using claim_best_none claim_best_some(2) phantom_deliverable by metis
  then have "irq = 128" using c unfolding vplic_claim_locked_def best_def [symmetric] Let_def by auto
  moreover have "vplic_read_locked phantom_state 0x200004 = (of_nat irq, p')"
    using c by (simp add: vplic_read_locked_def vplic_context_from_threshold_off_def
        vplic_context_from_claim_off_def in_contexts_def Let_def)
  ultimately show ?thesis unfolding Let_def phantom_state_def [symmetric] by simp
qed

end
