(* ===== verification/Sched_List.thy ===== *)
theory Sched_List
  imports HC_Prelude "HOL-Library.Multiset"
begin

text \<open>
  The queues of \<^verbatim>\<open>src/core/sched_simple.c\<close> at pointer level: intrusive circular doubly linked lists
  (\<^verbatim>\<open>include/list.h\<close>) through the \<^verbatim>\<open>list\<close> member of each task, and the operations of the scheduler on
  them. A node is its address; a task and its \<^verbatim>\<open>list\<close> member have the same number. The value \<open>None\<close>
  of a link is \<^verbatim>\<open>NULL\<close>; a dereference of \<^verbatim>\<open>NULL\<close> and a failed assertion make the operation \<open>None\<close>.
  A traversal is a \<open>partial_function\<close>: \<open>None\<close> also stands for a traversal that does not end.

  The second half proves that on well-formed lists the operations return and implement operations on
  finite sequences of tasks.
\<close>

section \<open>Links\<close>

record lheap =
  nx :: "nat \<Rightarrow> nat option"
  pv :: "nat \<Rightarrow> nat option"

definition POISON_ADDR1 :: nat where "POISON_ADDR1 = 0xDEAD0101"
definition POISON_ADDR2 :: nat where "POISON_ADDR2 = 0xDEAD0202"

definition INIT_LIST_HEAD :: "nat \<Rightarrow> lheap \<Rightarrow> lheap" where
  "INIT_LIST_HEAD l h = h\<lparr>nx := (nx h)(l := Some l), pv := (pv h)(l := Some l)\<rparr>"

definition list_add_between :: "nat \<Rightarrow> nat \<Rightarrow> nat \<Rightarrow> lheap \<Rightarrow> lheap" where
  "list_add_between new prev next h =
     (let h1 = h\<lparr>pv := (pv h)(next := Some new)\<rparr>;
          h2 = h1\<lparr>nx := (nx h1)(new := Some next)\<rparr>;
          h3 = h2\<lparr>pv := (pv h2)(new := Some prev)\<rparr>
      in h3\<lparr>nx := (nx h3)(prev := Some new)\<rparr>)"

definition list_add_tail :: "nat \<Rightarrow> nat \<Rightarrow> lheap \<Rightarrow> lheap option" where
  "list_add_tail new head h = pv h head \<bind> (\<lambda>p. Some (list_add_between new p head h))"

definition list_del :: "nat \<Rightarrow> lheap \<Rightarrow> lheap option" where
  "list_del e h = do {
     n \<leftarrow> nx h e;
     p \<leftarrow> pv h e;
     (if pv h n = Some e \<and> nx h p = Some e
      then (let h1 = h\<lparr>pv := (pv h)(n := Some p)\<rparr>;
                h2 = h1\<lparr>nx := (nx h1)(p := Some n)\<rparr>
            in Some (h2\<lparr>nx := (nx h2)(e := Some POISON_ADDR1), pv := (pv h2)(e := Some POISON_ADDR2)\<rparr>))
      else None) }"

section \<open>Scheduler operations\<close>

definition is_task_in_chain :: "nat \<Rightarrow> lheap \<Rightarrow> bool" where
  "is_task_in_chain t h =
     (case (nx h t, pv h t) of
        (Some n, Some p) \<Rightarrow> pv h n = Some t \<and> nx h p = Some t
      | _ \<Rightarrow> False)"

definition chain_extract_task :: "nat \<Rightarrow> lheap \<Rightarrow> lheap option" where
  "chain_extract_task t h = do {
     h1 \<leftarrow> (if is_task_in_chain t h then list_del t h else Some h);
     Some (h1\<lparr>nx := (nx h1)(t := None), pv := (pv h1)(t := None)\<rparr>) }"

text \<open>The traversal of \<open>__insert_task_sorted\<close>: the first node of lower priority, or the head.\<close>

partial_function (option) insert_point :: "(nat \<Rightarrow> int) \<Rightarrow> int \<Rightarrow> nat \<Rightarrow> lheap \<Rightarrow> nat \<Rightarrow> nat option" where
  "insert_point prio p head h pos =
     (if pos = head then Some head
      else if p < prio pos then Some pos
      else nx h pos \<bind> (\<lambda>q. insert_point prio p head h q))"

definition insert_task_sorted :: "(nat \<Rightarrow> int) \<Rightarrow> nat \<Rightarrow> nat \<Rightarrow> lheap \<Rightarrow> lheap option" where
  "insert_task_sorted prio head t h = do {
     first \<leftarrow> nx h head;
     p \<leftarrow> insert_point prio (prio t) head h first;
     list_add_tail t p h }"

partial_function (option) find_affine :: "(nat \<Rightarrow> int) \<Rightarrow> int \<Rightarrow> nat \<Rightarrow> lheap \<Rightarrow> nat \<Rightarrow> nat option option" where
  "find_affine aff cpu head h pos =
     (if pos = head then Some None
      else if aff pos = - 1 \<or> aff pos = cpu then Some (Some pos)
      else nx h pos \<bind> (\<lambda>q. find_affine aff cpu head h q))"

definition simple_scheduler_next_no_publish ::
    "(nat \<Rightarrow> int) \<Rightarrow> (nat \<Rightarrow> int) \<Rightarrow> int \<Rightarrow> nat option \<Rightarrow> nat \<Rightarrow> lheap \<Rightarrow> (nat option \<times> lheap) option" where
  "simple_scheduler_next_no_publish prio aff cpu cur head h = do {
     first \<leftarrow> nx h head;
     next \<leftarrow> find_affine aff cpu head h first;
     (case next of
        None \<Rightarrow> Some (None, h)
      | Some t \<Rightarrow>
          if (case cur of None \<Rightarrow> False | Some c \<Rightarrow> prio c < prio t) then Some (None, h)
          else do { h1 \<leftarrow> chain_extract_task t h; Some (Some t, h1) }) }"

text \<open>
  The list part of \<open>simple_scheduler_sched\<close>, and \<open>simple_scheduler_yield\<close>, \<open>_block\<close> and \<open>_unblock\<close>;
  \<open>head\<close> is the ready or the wait list.
\<close>

definition sched_insert :: "(nat \<Rightarrow> int) \<Rightarrow> nat \<Rightarrow> nat \<Rightarrow> lheap \<Rightarrow> lheap option" where
  "sched_insert prio head t h = insert_task_sorted prio head t h"

definition simple_scheduler_yield :: "(nat \<Rightarrow> int) \<Rightarrow> nat \<Rightarrow> nat \<Rightarrow> lheap \<Rightarrow> lheap option" where
  "simple_scheduler_yield prio ready t h = chain_extract_task t h \<bind> insert_task_sorted prio ready t"

definition simple_scheduler_block :: "(nat \<Rightarrow> int) \<Rightarrow> nat \<Rightarrow> nat \<Rightarrow> lheap \<Rightarrow> lheap option" where
  "simple_scheduler_block prio wait t h = chain_extract_task t h \<bind> insert_task_sorted prio wait t"

definition simple_scheduler_unblock :: "(nat \<Rightarrow> int) \<Rightarrow> nat \<Rightarrow> nat \<Rightarrow> lheap \<Rightarrow> lheap option" where
  "simple_scheduler_unblock prio ready t h = chain_extract_task t h \<bind> insert_task_sorted prio ready t"

lemmas scheduler_moves = simple_scheduler_yield_def simple_scheduler_block_def simple_scheduler_unblock_def

definition simple_scheduler_init :: "nat \<Rightarrow> nat \<Rightarrow> lheap \<Rightarrow> lheap" where
  "simple_scheduler_init ready wait h = INIT_LIST_HEAD wait (INIT_LIST_HEAD ready h)"

section \<open>Operations on sequences\<close>

definition insert_prio :: "(nat \<Rightarrow> int) \<Rightarrow> nat \<Rightarrow> nat list \<Rightarrow> nat list" where
  "insert_prio prio t xs =
     takeWhile (\<lambda>x. \<not> prio t < prio x) xs @ [t] @ dropWhile (\<lambda>x. \<not> prio t < prio x) xs"

definition next_task :: "(nat \<Rightarrow> int) \<Rightarrow> (nat \<Rightarrow> int) \<Rightarrow> int \<Rightarrow> nat option \<Rightarrow> nat list \<Rightarrow> nat option" where
  "next_task prio aff cpu cur xs =
     (case List.find (\<lambda>t. aff t = - 1 \<or> aff t = cpu) xs of
        None \<Rightarrow> None
      | Some t \<Rightarrow> if (case cur of None \<Rightarrow> False | Some c \<Rightarrow> prio c < prio t) then None else Some t)"

lemma insert_prio_mset [simp]: "mset (insert_prio prio t xs) = add_mset t (mset xs)"
proof -
  have "mset xs = mset (takeWhile P xs) + mset (dropWhile P xs)" for P
    by (metis mset_append takeWhile_dropWhile_id)
  then show ?thesis by (simp add: insert_prio_def)
qed

lemma insert_prio_set [simp]: "set (insert_prio prio t xs) = insert t (set xs)"
  by (metis insert_prio_mset set_mset_add_mset_insert set_mset_mset)

lemma insert_prio_distinct: "distinct xs \<Longrightarrow> t \<notin> set xs \<Longrightarrow> distinct (insert_prio prio t xs)"
  by (metis distinct.simps(2) insert_prio_mset mset.simps(2) mset_eq_imp_distinct_iff)

lemma insert_prio_sorted:
  assumes "sorted (map prio xs)"
  shows "sorted (map prio (insert_prio prio t xs))"
proof -
  have l: "\<forall>x \<in> set (takeWhile (\<lambda>x. \<not> prio t < prio x) xs). prio x \<le> prio t"
    by (auto dest: set_takeWhileD)
  have r: "\<forall>x \<in> set (dropWhile (\<lambda>x. \<not> prio t < prio x) xs). prio t \<le> prio x"
  proof (cases "dropWhile (\<lambda>x. \<not> prio t < prio x) xs")
    case (Cons y ys)
    then have "prio t < prio y" by (metis hd_dropWhile list.sel(1) list.distinct(1))
    moreover have "sorted (map prio (y # ys))"
      using assms Cons by (metis dropWhile_eq_drop drop_map sorted_wrt_drop)
    ultimately show ?thesis using Cons by auto
  next
    case Nil
    show ?thesis unfolding Nil by simp
  qed
  have "sorted (map prio (takeWhile P xs @ dropWhile P xs))" for P using assms by simp
  with l r show ?thesis unfolding insert_prio_def map_append sorted_append by fastforce
qed

section \<open>Well-formed lists\<close>

fun linked :: "lheap \<Rightarrow> nat list \<Rightarrow> bool" where
  "linked h (x # y # zs) \<longleftrightarrow> nx h x = Some y \<and> pv h y = Some x \<and> linked h (y # zs)"
| "linked h _ \<longleftrightarrow> True"

definition dll :: "lheap \<Rightarrow> nat \<Rightarrow> nat list \<Rightarrow> bool" where
  "dll h head xs \<longleftrightarrow> distinct (head # xs) \<and> linked h (head # xs @ [head])"

lemma linked_append: "linked h (xs @ a # ys) \<longleftrightarrow> linked h (xs @ [a]) \<and> linked h (a # ys)"
proof (induction xs)
  case (Cons x xs)
  then show ?case by (cases xs) auto
qed simp

lemma linked_append2:
  "linked h (xs @ p # n # ys) \<longleftrightarrow> linked h (xs @ [p]) \<and> nx h p = Some n \<and> pv h n = Some p \<and> linked h (n # ys)"
  using linked_append [of h xs p "n # ys"] by simp

lemma linked_cong:
  assumes "\<forall>x \<in> set (butlast l). nx h' x = nx h x" "\<forall>x \<in> set (tl l). pv h' x = pv h x"
  shows "linked h' l = linked h l"
  using assms
proof (induction l rule: induct_list012)
  case (3 x y zs)
  then show ?case by (cases zs) auto
qed simp_all

lemma dll_frame:
  assumes "dll h head xs" "\<forall>x \<in> set (head # xs). nx h' x = nx h x \<and> pv h' x = pv h x"
  shows "dll h' head xs"
proof -
  have "linked h' (head # xs @ [head]) = linked h (head # xs @ [head])"
    using assms(2) by (intro linked_cong) (auto dest!: in_set_butlastD)
  with assms(1) show ?thesis by (simp add: dll_def)
qed

lemma dll_frame_set:
  assumes "dll h head xs" "\<And>x. x \<notin> A \<Longrightarrow> nx h' x = nx h x \<and> pv h' x = pv h x" "set (head # xs) \<inter> A = {}"
  shows "dll h' head xs"
proof (rule dll_frame [OF assms(1)], rule ballI)
  fix x assume "x \<in> set (head # xs)"
  with assms(3) have "x \<notin> A" by blast
  then show "nx h' x = nx h x \<and> pv h' x = pv h x" by (rule assms(2))
qed

lemma dll_split:
  assumes "dll h head (xs @ ys)"
  obtains as p n bs where "head # xs = as @ [p]" "ys @ [head] = n # bs" "nx h p = Some n" "pv h n = Some p"
    "linked h (as @ [p])" "linked h (n # bs)"
proof -
  obtain as p where as: "head # xs = as @ [p]" by (metis append_butlast_last_id list.distinct(1))
  obtain n bs where bs: "ys @ [head] = n # bs" by (cases "ys @ [head]") auto
  have "head # (xs @ ys) @ [head] = as @ p # n # bs"
    using as bs by (metis append.assoc append_Cons append_Nil)
  then have "linked h (as @ p # n # bs)" using assms by (simp add: dll_def)
  with as bs that show thesis by (simp add: linked_append2)
qed

lemma dll_join:
  assumes "head # xs = as @ [p]" "ys @ [head] = n # bs" "nx h p = Some n" "pv h n = Some p"
    "linked h (as @ [p])" "linked h (n # bs)" "distinct (head # xs @ ys)"
  shows "dll h head (xs @ ys)"
proof -
  have "head # (xs @ ys) @ [head] = as @ p # n # bs"
    using assms(1,2) by (metis append.assoc append_Cons append_Nil)
  with assms(3-7) show ?thesis by (simp add: dll_def linked_append2)
qed

lemma dll_insert:
  assumes d: "dll h head (xs @ ys)" and new: "new \<notin> set (head # xs @ ys)"
  shows "\<exists>h'. list_add_tail new (hd (ys @ [head])) h = Some h' \<and> dll h' head (xs @ new # ys) \<and>
    (\<forall>x. x \<notin> set (new # head # xs @ ys) \<longrightarrow> nx h' x = nx h x \<and> pv h' x = pv h x)"
proof -
  from d obtain as p n bs where s: "head # xs = as @ [p]" "ys @ [head] = n # bs" "nx h p = Some n"
    "pv h n = Some p" "linked h (as @ [p])" "linked h (n # bs)" by (rule dll_split)
  define h' where "h' = list_add_between new p n h"
  have pin: "p \<in> set (head # xs)" and nin: "n \<in> set (ys @ [head])" using s(1,2) by (metis in_set_conv_decomp, metis list.set_intros(1))
  with new have ne: "p \<noteq> new" "n \<noteq> new" by auto
  have upd: "nx h' x = (if x = p then Some new else if x = new then Some n else nx h x)"
    "pv h' x = (if x = new then Some p else if x = n then Some new else pv h x)" for x
    using ne by (auto simp: h'_def list_add_between_def Let_def)
  have dist: "distinct (head # xs @ ys)" using d by (simp add: dll_def)
  have "linked h' (as @ [p]) = linked h (as @ [p])"
  proof (rule linked_cong)
    have "p \<notin> set as" "new \<notin> set as" using dist new s(1) by (metis append.assoc append_Cons distinct_append not_distinct_conv_prefix, metis UnI1 append_Cons set_append)
    then show "\<forall>x \<in> set (butlast (as @ [p])). nx h' x = nx h x" by (auto simp: upd)
    have "tl (as @ [p]) = xs" using s(1) by (metis list.sel(3))
    moreover have "n \<notin> set xs" using dist nin by auto
    ultimately show "\<forall>x \<in> set (tl (as @ [p])). pv h' x = pv h x" using new by (auto simp: upd)
  qed
  moreover have "linked h' (n # bs) = linked h (n # bs)"
  proof (rule linked_cong)
    have "butlast (n # bs) = ys" using s(2) by (metis butlast_snoc)
    moreover have "p \<notin> set ys" using dist pin by auto
    ultimately show "\<forall>x \<in> set (butlast (n # bs)). nx h' x = nx h x" using new by (auto simp: upd)
    have "n \<notin> set bs" using dist s(2) by (cases ys) auto
    moreover have "set bs \<subseteq> set (ys @ [head])" using s(2) by (metis set_subset_Cons)
    ultimately show "\<forall>x \<in> set (tl (n # bs)). pv h' x = pv h x" using new by (auto simp: upd)
  qed
  ultimately have l: "linked h' ((as @ [p]) @ [new])" "linked h' (n # bs)"
    using s ne by (auto simp: upd linked_append2)
  have "dll h' head ((xs @ [new]) @ ys)"
    by (rule dll_join [OF _ s(2) _ _ l]) (use s(1) ne dist new in \<open>auto simp: upd\<close>)
  moreover have "list_add_tail new (hd (ys @ [head])) h = Some h'"
    using s(2,4) by (simp add: list_add_tail_def h'_def)
  moreover have "\<forall>x. x \<notin> set (new # head # xs @ ys) \<longrightarrow> nx h' x = nx h x \<and> pv h' x = pv h x"
    using pin nin by (auto simp: upd)
  ultimately show ?thesis by auto
qed

lemma dll_extract:
  assumes d: "dll h head (xs @ t # ys)"
  shows "\<exists>h'. chain_extract_task t h = Some h' \<and> dll h' head (xs @ ys) \<and> nx h' t = None \<and> pv h' t = None \<and>
    (\<forall>x. x \<notin> set (t # head # xs @ ys) \<longrightarrow> nx h' x = nx h x \<and> pv h' x = pv h x)"
proof -
  from d obtain as p bs0 where s: "head # xs = as @ [p]" "nx h p = Some t"
    "pv h t = Some p" "linked h (as @ [p])" "linked h (t # bs0)" "bs0 = ys @ [head]"
    by (rule dll_split [of h head xs "t # ys"]) auto
  obtain n bs where bs: "ys @ [head] = n # bs" by (cases "ys @ [head]") auto
  with s(5,6) have n: "nx h t = Some n" "pv h n = Some t" "linked h (n # bs)" by auto
  have dist: "distinct (head # xs @ t # ys)" using d by (simp add: dll_def)
  have pin: "p \<in> set (head # xs)" and nin: "n \<in> set (ys @ [head])"
    using s(1) bs by (metis in_set_conv_decomp, metis list.set_intros(1))
  have ne: "p \<noteq> t" "n \<noteq> t" using dist pin nin by auto
  define h' where "h' = \<lparr>nx = (nx h)(p := Some n, t := None), pv = (pv h)(n := Some p, t := None)\<rparr>"
  have e: "chain_extract_task t h = Some h'"
    using s n ne by (simp add: chain_extract_task_def is_task_in_chain_def list_del_def h'_def Let_def)
  have "linked h' (as @ [p]) = linked h (as @ [p])"
  proof (rule linked_cong)
    have "distinct (as @ [p])" "t \<notin> set (as @ [p])" using dist s(1) by (metis append.assoc append_Cons distinct_append, metis append_Cons disjoint_iff distinct_append list.set_intros(1))
    then show "\<forall>x \<in> set (butlast (as @ [p])). nx h' x = nx h x" by (auto simp: h'_def)
    have "tl (as @ [p]) = xs" using s(1) by (metis list.sel(3))
    moreover have "n \<notin> set xs" using dist nin by auto
    ultimately show "\<forall>x \<in> set (tl (as @ [p])). pv h' x = pv h x" using dist by (auto simp: h'_def)
  qed
  moreover have "linked h' (n # bs) = linked h (n # bs)"
  proof (rule linked_cong)
    have "butlast (n # bs) = ys" using bs by (metis butlast_snoc)
    moreover have "p \<notin> set ys" using dist pin by auto
    ultimately show "\<forall>x \<in> set (butlast (n # bs)). nx h' x = nx h x" using dist by (auto simp: h'_def)
    have "n \<notin> set bs" using dist bs by (cases ys) auto
    moreover have "set bs \<subseteq> set (ys @ [head])" using bs by (metis set_subset_Cons)
    ultimately show "\<forall>x \<in> set (tl (n # bs)). pv h' x = pv h x" using dist by (auto simp: h'_def)
  qed
  ultimately have "dll h' head (xs @ ys)"
    by (intro dll_join [OF s(1) bs]) (use s n ne dist in \<open>auto simp: h'_def\<close>)
  with e pin nin show ?thesis by (auto simp: h'_def)
qed

lemma insert_point_correct:
  assumes "linked h (xs @ [head])" "head \<notin> set xs"
  shows "insert_point prio p head h (hd (xs @ [head])) =
    Some (hd (dropWhile (\<lambda>x. \<not> p < prio x) xs @ [head]))"
  using assms
proof (induction xs)
  case Nil
  show ?case by (simp add: insert_point.simps)
next
  case (Cons x xs)
  then have "nx h x = Some (hd (xs @ [head]))" "linked h (xs @ [head])" by (cases xs; simp)+
  with Cons show ?case by (subst insert_point.simps) auto
qed

lemma find_affine_correct:
  assumes "linked h (xs @ [head])" "head \<notin> set xs"
  shows "find_affine aff cpu head h (hd (xs @ [head])) = Some (List.find (\<lambda>t. aff t = - 1 \<or> aff t = cpu) xs)"
  using assms
proof (induction xs)
  case Nil
  show ?case by (simp add: find_affine.simps)
next
  case (Cons x xs)
  then have "nx h x = Some (hd (xs @ [head]))" "linked h (xs @ [head])" by (cases xs; simp)+
  with Cons show ?case by (subst find_affine.simps) auto
qed

lemma dll_first:
  assumes "dll h head xs"
  shows "nx h head = Some (hd (xs @ [head]))" "linked h (xs @ [head])" "head \<notin> set xs"
  using assms by (cases xs; simp add: dll_def)+

lemma insert_task_sorted_correct:
  assumes "dll h head xs" "t \<notin> set (head # xs)"
  shows "\<exists>h'. insert_task_sorted prio head t h = Some h' \<and> dll h' head (insert_prio prio t xs) \<and>
    (\<forall>x. x \<notin> set (t # head # xs) \<longrightarrow> nx h' x = nx h x \<and> pv h' x = pv h x)"
proof -
  let ?P = "\<lambda>x. \<not> prio t < prio x"
  have "dll h head (takeWhile ?P xs @ dropWhile ?P xs)" "t \<notin> set (head # takeWhile ?P xs @ dropWhile ?P xs)"
    using assms by simp_all
  from dll_insert [OF this] show ?thesis
    using dll_first [OF assms(1)] insert_point_correct [OF dll_first(2,3) [OF assms(1)], of prio "prio t"]
    by (auto simp: insert_task_sorted_def insert_prio_def)
qed

section \<open>Refinement\<close>

definition unlinked :: "lheap \<Rightarrow> nat \<Rightarrow> bool" where
  "unlinked h t \<longleftrightarrow> nx h t = None \<and> pv h t = None \<or> nx h t = Some t \<and> pv h t = Some t"

definition queues_rel :: "nat \<Rightarrow> nat \<Rightarrow> nat set \<Rightarrow> lheap \<Rightarrow> nat list \<Rightarrow> nat list \<Rightarrow> bool" where
  "queues_rel ready wait T h rs ws \<longleftrightarrow> dll h ready rs \<and> dll h wait ws \<and> set rs \<union> set ws \<subseteq> T \<and>
     set rs \<inter> set ws = {} \<and> ready \<notin> T \<and> wait \<notin> T \<and> ready \<noteq> wait \<and>
     (\<forall>t \<in> T - set rs - set ws. unlinked h t)"

lemma extract_unlinked:
  assumes "unlinked h t"
  shows "\<exists>h'. chain_extract_task t h = Some h' \<and> nx h' t = None \<and> pv h' t = None \<and>
    (\<forall>x. x \<noteq> t \<longrightarrow> nx h' x = nx h x \<and> pv h' x = pv h x)"
  using assms by (auto simp: unlinked_def chain_extract_task_def is_task_in_chain_def list_del_def Let_def)

lemma unlinked_frame: "nx h' t = nx h t \<Longrightarrow> pv h' t = pv h t \<Longrightarrow> unlinked h' t = unlinked h t"
  by (simp add: unlinked_def)

lemma remove1_split: "distinct (xs @ t # ys) \<Longrightarrow> remove1 t (xs @ t # ys) = xs @ ys"
  by (simp add: remove1_append)

lemma unlinked_frame_set:
  assumes "unlinked h u" "\<And>x. x \<notin> A \<Longrightarrow> nx h' x = nx h x \<and> pv h' x = pv h x" "u \<notin> A"
  shows "unlinked h' u"
  using assms(1) assms(2) [OF assms(3)] by (simp add: unlinked_def)

lemma queues_rel_sym: "queues_rel ready wait T h rs ws = queues_rel wait ready T h ws rs"
  by (auto simp: queues_rel_def)

lemma queues_relD:
  assumes "queues_rel ready wait T h rs ws"
  shows "dll h ready rs" "dll h wait ws" "set rs \<subseteq> T" "set ws \<subseteq> T" "set rs \<inter> set ws = {}" "ready \<notin> T"
    "wait \<notin> T" "ready \<noteq> wait" "\<And>u. u \<in> T \<Longrightarrow> u \<notin> set rs \<Longrightarrow> u \<notin> set ws \<Longrightarrow> unlinked h u"
  using assms by (auto simp: queues_rel_def)

text \<open>Extraction from whichever queue holds the task, or from none.\<close>

lemma extract_first:
  assumes R: "queues_rel ready wait T h rs ws" and t: "t \<in> set rs"
  shows "\<exists>h'. chain_extract_task t h = Some h' \<and> queues_rel ready wait T h' (remove1 t rs) (remove1 t ws)"
proof -
  note R' = queues_relD [OF R]
  obtain xs ys where rs: "rs = xs @ t # ys" using t by (meson split_list)
  have "distinct rs" using R'(1) by (simp add: dll_def)
  with rs have rm: "remove1 t rs = xs @ ys" by (simp add: remove1_split)
  from dll_extract [OF R'(1) [unfolded rs]] obtain h' where
    h': "chain_extract_task t h = Some h'" "dll h' ready (xs @ ys)" "nx h' t = None" "pv h' t = None" and
    f: "\<And>x. x \<notin> set (t # ready # xs @ ys) \<Longrightarrow> nx h' x = nx h x \<and> pv h' x = pv h x" by blast
  have "dll h' wait ws" by (rule dll_frame_set [where A = "set (t # ready # xs @ ys)", OF R'(2) f]) (use R'(3-8) rs in auto)
  moreover have "t \<notin> set ws" using t R'(5) by auto
  moreover have "unlinked h' u" if "u \<in> T" "u \<notin> set (xs @ ys)" "u \<notin> set ws" for u
  proof (cases "u = t")
    case True
    then show ?thesis using h'(3,4) by (simp add: unlinked_def)
  next
    case False
    with that rs have "u \<notin> set rs" by auto
    show ?thesis
      by (rule unlinked_frame_set [where A = "set (t # ready # xs @ ys)", OF R'(9) f]) (use that False \<open>u \<notin> set rs\<close> R'(6) in auto)
  qed
  moreover have "set xs \<union> set ys \<subseteq> T" "(set xs \<union> set ys) \<inter> set ws = {}" using R'(3,5) rs by auto
  ultimately have "queues_rel ready wait T h' (xs @ ys) (remove1 t ws)"
    using h'(2) R'(4,6-8) by (auto simp: queues_rel_def remove1_idem)
  then show ?thesis using h'(1) rm by simp
qed

lemma extract_correct:
  assumes R: "queues_rel ready wait T h rs ws" and t: "t \<in> T"
  shows "\<exists>h'. chain_extract_task t h = Some h' \<and> queues_rel ready wait T h' (remove1 t rs) (remove1 t ws)"
proof -
  note R' = queues_relD [OF R]
  consider (r) "t \<in> set rs" | (w) "t \<in> set ws" | (n) "t \<notin> set rs" "t \<notin> set ws" by blast
  then show ?thesis
  proof cases
    case r
    then show ?thesis by (rule extract_first [OF R])
  next
    case w
    then show ?thesis using extract_first [of wait ready T h ws rs t] R by (simp add: queues_rel_sym)
  next
    case n
    with R'(9) t have "unlinked h t" by blast
    from extract_unlinked [OF this] obtain h' where h': "chain_extract_task t h = Some h'" "nx h' t = None"
      "pv h' t = None" and f: "\<And>x. x \<notin> {t} \<Longrightarrow> nx h' x = nx h x \<and> pv h' x = pv h x" by blast
    have "dll h' ready rs" "dll h' wait ws"
      by (rule dll_frame_set [where A = "{t}", OF R'(1) f] dll_frame_set [where A = "{t}", OF R'(2) f]; use R'(6,7) n t in auto)+
    moreover have "unlinked h' u" if "u \<in> T" "u \<notin> set rs" "u \<notin> set ws" for u
    proof (cases "u = t")
      case False
      then show ?thesis using that by (intro unlinked_frame_set [where A = "{t}", OF R'(9) f]) auto
    qed (use h' in \<open>simp add: unlinked_def\<close>)
    ultimately show ?thesis using h'(1) R'(3-8) n by (auto simp: queues_rel_def remove1_idem)
  qed
qed

lemma insert_ready:
  assumes R: "queues_rel ready wait T h rs ws" and t: "t \<in> T" "t \<notin> set rs" "t \<notin> set ws"
  shows "\<exists>h'. insert_task_sorted prio ready t h = Some h' \<and> queues_rel ready wait T h' (insert_prio prio t rs) ws"
proof -
  note R' = queues_relD [OF R]
  have "t \<notin> set (ready # rs)" using t R'(6) by auto
  from insert_task_sorted_correct [OF R'(1) this] obtain h' where
    h': "insert_task_sorted prio ready t h = Some h'" "dll h' ready (insert_prio prio t rs)" and
    f: "\<And>x. x \<notin> set (t # ready # rs) \<Longrightarrow> nx h' x = nx h x \<and> pv h' x = pv h x" by blast
  have "dll h' wait ws" by (rule dll_frame_set [where A = "set (t # ready # rs)", OF R'(2) f]) (use R'(3-8) t in auto)
  moreover have "unlinked h' u" if "u \<in> T" "u \<noteq> t" "u \<notin> set rs" "u \<notin> set ws" for u
    by (rule unlinked_frame_set [where A = "set (t # ready # rs)", OF R'(9) f]) (use that R'(6) in auto)
  ultimately show ?thesis using h' R'(3-8) t by (auto simp: queues_rel_def)
qed

lemma insert_wait:
  assumes "queues_rel ready wait T h rs ws" "t \<in> T" "t \<notin> set rs" "t \<notin> set ws"
  shows "\<exists>h'. insert_task_sorted prio wait t h = Some h' \<and> queues_rel ready wait T h' rs (insert_prio prio t ws)"
  using insert_ready [of wait ready T h ws rs t prio] assms by (simp add: queues_rel_sym)

lemma next_correct:
  assumes R: "queues_rel ready wait T h rs ws"
  shows "\<exists>h'. simple_scheduler_next_no_publish prio aff cpu cur ready h = Some (next_task prio aff cpu cur rs, h') \<and>
    queues_rel ready wait T h' (case next_task prio aff cpu cur rs of None \<Rightarrow> rs | Some t \<Rightarrow> remove1 t rs) ws"
proof -
  note R' = queues_relD [OF R]
  note first = dll_first [OF R'(1)]
  note aff = find_affine_correct [OF first(2,3), of aff cpu]
  show ?thesis
  proof (cases "next_task prio aff cpu cur rs")
    case None
    with first aff R show ?thesis
      by (auto simp: simple_scheduler_next_no_publish_def next_task_def split: option.splits if_splits)
  next
    case (Some t)
    then have f: "List.find (\<lambda>t. aff t = - 1 \<or> aff t = cpu) rs = Some t"
      "\<not> (case cur of None \<Rightarrow> False | Some c \<Rightarrow> prio c < prio t)"
      by (auto simp: next_task_def split: option.splits if_splits)
    then have "t \<in> set rs" by (auto simp: find_Some_iff)
    then have t: "t \<in> T" "t \<notin> set ws" using R'(3,5) by auto
    from extract_correct [OF R t(1)] obtain h' where
      "chain_extract_task t h = Some h'" "queues_rel ready wait T h' (remove1 t rs) ws"
      using t(2) by (auto simp: remove1_idem)
    with first aff f Some show ?thesis by (auto simp: simple_scheduler_next_no_publish_def)
  qed
qed

section \<open>Runs\<close>

datatype sched_op = Sched nat | Yield nat | Block nat | Unblock nat | Next int "nat option"

fun queue_step :: "(nat \<Rightarrow> int) \<Rightarrow> (nat \<Rightarrow> int) \<Rightarrow> sched_op \<Rightarrow> nat list \<times> nat list \<Rightarrow> nat list \<times> nat list" where
  "queue_step prio aff (Sched t) (rs, ws) = (insert_prio prio t rs, ws)"
| "queue_step prio aff (Yield t) (rs, ws) = (insert_prio prio t (remove1 t rs), remove1 t ws)"
| "queue_step prio aff (Unblock t) (rs, ws) = (insert_prio prio t (remove1 t rs), remove1 t ws)"
| "queue_step prio aff (Block t) (rs, ws) = (remove1 t rs, insert_prio prio t (remove1 t ws))"
| "queue_step prio aff (Next cpu cur) (rs, ws) =
     (case next_task prio aff cpu cur rs of None \<Rightarrow> (rs, ws) | Some t \<Rightarrow> (remove1 t rs, ws))"

fun heap_step :: "nat \<Rightarrow> nat \<Rightarrow> (nat \<Rightarrow> int) \<Rightarrow> (nat \<Rightarrow> int) \<Rightarrow> sched_op \<Rightarrow> lheap \<Rightarrow> lheap option" where
  "heap_step ready wait prio aff (Sched t) h = sched_insert prio ready t h"
| "heap_step ready wait prio aff (Yield t) h = simple_scheduler_yield prio ready t h"
| "heap_step ready wait prio aff (Unblock t) h = simple_scheduler_unblock prio ready t h"
| "heap_step ready wait prio aff (Block t) h = simple_scheduler_block prio wait t h"
| "heap_step ready wait prio aff (Next cpu cur) h =
     map_option snd (simple_scheduler_next_no_publish prio aff cpu cur ready h)"

text \<open>A task may be handed to \<open>simple_scheduler_sched\<close> only while it is in no queue.\<close>

fun op_allowed :: "nat set \<Rightarrow> sched_op \<Rightarrow> nat list \<times> nat list \<Rightarrow> bool" where
  "op_allowed T (Sched t) (rs, ws) \<longleftrightarrow> t \<in> T \<and> t \<notin> set rs \<and> t \<notin> set ws"
| "op_allowed T (Yield t) _ \<longleftrightarrow> t \<in> T"
| "op_allowed T (Unblock t) _ \<longleftrightarrow> t \<in> T"
| "op_allowed T (Block t) _ \<longleftrightarrow> t \<in> T"
| "op_allowed T (Next cpu cur) _ \<longleftrightarrow> True"

fun heap_run :: "nat \<Rightarrow> nat \<Rightarrow> (nat \<Rightarrow> int) \<Rightarrow> (nat \<Rightarrow> int) \<Rightarrow> sched_op list \<Rightarrow> lheap \<Rightarrow> lheap option" where
  "heap_run ready wait prio aff [] h = Some h"
| "heap_run ready wait prio aff (op # ops) h =
     heap_step ready wait prio aff op h \<bind> heap_run ready wait prio aff ops"

fun ops_allowed :: "nat set \<Rightarrow> (nat \<Rightarrow> int) \<Rightarrow> (nat \<Rightarrow> int) \<Rightarrow> sched_op list \<Rightarrow> nat list \<times> nat list \<Rightarrow> bool" where
  "ops_allowed T prio aff [] q \<longleftrightarrow> True"
| "ops_allowed T prio aff (op # ops) q \<longleftrightarrow> op_allowed T op q \<and> ops_allowed T prio aff ops (queue_step prio aff op q)"

lemma heap_step_refines:
  assumes R: "queues_rel ready wait T h rs ws" and "op_allowed T op (rs, ws)"
  shows "\<exists>h' rs' ws'. heap_step ready wait prio aff op h = Some h' \<and>
    queue_step prio aff op (rs, ws) = (rs', ws') \<and> queues_rel ready wait T h' rs' ws'"
proof -
  have d: "distinct rs" "distinct ws" using R by (auto simp: queues_rel_def dll_def)
  have move: "\<exists>h1. chain_extract_task t h = Some h1 \<and> queues_rel ready wait T h1 (remove1 t rs) (remove1 t ws) \<and>
      t \<notin> set (remove1 t rs) \<and> t \<notin> set (remove1 t ws)" if "t \<in> T" for t
    using extract_correct [OF R that] d by auto
  show ?thesis
  proof (cases op)
    case (Sched t)
    with insert_ready [OF R, of t prio] assms(2) show ?thesis by (auto simp: sched_insert_def)
  next
    case (Yield t)
    with move [of t] insert_ready assms(2) show ?thesis by (fastforce simp: scheduler_moves)
  next
    case (Unblock t)
    with move [of t] insert_ready assms(2) show ?thesis by (fastforce simp: scheduler_moves)
  next
    case (Block t)
    with move [of t] insert_wait assms(2) show ?thesis by (fastforce simp: scheduler_moves)
  next
    case (Next cpu cur)
    with next_correct [OF R, of prio aff cpu cur] show ?thesis by (auto split: option.splits)
  qed
qed

section \<open>Properties\<close>

text \<open>
  C2. The linked queues implement sequences: starting from well-formed queues, every sequence of
  scheduler operations (a task being scheduled only while it is in no queue) terminates without a
  null dereference or a failed assertion, and leaves well-formed circular lists whose tasks are
  exactly those of the same operations on sequences ordered by priority.
\<close>

theorem scheduler_refines_queues:
  assumes "queues_rel ready wait T h rs ws" "ops_allowed T prio aff ops (rs, ws)"
  shows "\<exists>h' rs' ws'. heap_run ready wait prio aff ops h = Some h' \<and>
    fold (queue_step prio aff) ops (rs, ws) = (rs', ws') \<and> queues_rel ready wait T h' rs' ws'"
  using assms
proof (induction ops arbitrary: h rs ws)
  case (Cons op ops)
  from heap_step_refines [OF Cons.prems(1), of op prio aff] Cons.prems(2) obtain h1 rs1 ws1 where
    "heap_step ready wait prio aff op h = Some h1" "queue_step prio aff op (rs, ws) = (rs1, ws1)"
    "queues_rel ready wait T h1 rs1 ws1" by auto
  with Cons.IH [of h1 rs1 ws1] Cons.prems(2) show ?case by auto
qed auto

lemma queues_rel_init:
  assumes "ready \<noteq> wait" "ready \<notin> T" "wait \<notin> T"
  shows "queues_rel ready wait T (simple_scheduler_init ready wait \<lparr>nx = \<lambda>_. None, pv = \<lambda>_. None\<rparr>) [] []"
  using assms by (auto simp: queues_rel_def dll_def simple_scheduler_init_def INIT_LIST_HEAD_def unlinked_def)

theorem scheduler_refines_queues_witness:
  "\<exists>h' rs' ws'. heap_run 0 1 (\<lambda>t. int t mod 3) (\<lambda>_. - 1) [Sched 5, Sched 3, Sched 4, Block 5, Next 0 None, Unblock 5]
       (simple_scheduler_init 0 1 \<lparr>nx = \<lambda>_. None, pv = \<lambda>_. None\<rparr>) = Some h' \<and>
     fold (queue_step (\<lambda>t. int t mod 3) (\<lambda>_. - 1)) [Sched 5, Sched 3, Sched 4, Block 5, Next 0 None, Unblock 5] ([], []) =
       (rs', ws') \<and> queues_rel 0 1 {3, 4, 5} h' rs' ws'"
  by (rule scheduler_refines_queues [OF queues_rel_init]) (simp_all add: insert_prio_def)

text \<open>
  The ready queue stays ordered by priority, no task is lost or duplicated, and the task chosen
  for a CPU is the first in that order among those allowed to run there; a running task is preempted
  only by one of the same or higher priority.
\<close>

theorem queue_order_and_choice:
  assumes "sorted (map prio rs)" "sorted (map prio ws)"
  shows "(case queue_step prio aff op (rs, ws) of (rs', ws') \<Rightarrow>
       sorted (map prio rs') \<and> sorted (map prio ws')) \<and>
    (next_task prio aff cpu cur rs = Some t \<longrightarrow> t \<in> set rs \<and> (aff t = - 1 \<or> aff t = cpu) \<and>
       (\<forall>u \<in> set rs. aff u = - 1 \<or> aff u = cpu \<longrightarrow> prio t \<le> prio u) \<and>
       (\<forall>c. cur = Some c \<longrightarrow> prio t \<le> prio c))"
proof -
  have rm: "sorted (map prio (remove1 x xs))" if "sorted (map prio xs)" for x xs
    using that by (induction xs) (auto dest: notin_set_remove1)
  have "sorted (map prio rs') \<and> sorted (map prio ws')" if "queue_step prio aff op (rs, ws) = (rs', ws')" for rs' ws'
    using that assms by (cases op) (auto simp: insert_prio_sorted rm split: option.splits)
  moreover have "t \<in> set rs \<and> (aff t = - 1 \<or> aff t = cpu) \<and>
      (\<forall>u \<in> set rs. aff u = - 1 \<or> aff u = cpu \<longrightarrow> prio t \<le> prio u) \<and> (\<forall>c. cur = Some c \<longrightarrow> prio t \<le> prio c)"
    if n: "next_task prio aff cpu cur rs = Some t"
  proof -
    from n have f: "List.find (\<lambda>t. aff t = - 1 \<or> aff t = cpu) rs = Some t" and c: "\<forall>c. cur = Some c \<longrightarrow> prio t \<le> prio c"
      by (auto simp: next_task_def not_less split: option.splits if_splits)
    from f obtain i where i: "i < length rs" "rs ! i = t" "aff t = - 1 \<or> aff t = cpu"
      "\<forall>j < i. \<not> (aff (rs ! j) = - 1 \<or> aff (rs ! j) = cpu)" by (auto simp: find_Some_iff)
    have "prio t \<le> prio u" if "u \<in> set rs" "aff u = - 1 \<or> aff u = cpu" for u
    proof -
      obtain j where j: "j < length rs" "rs ! j = u" using \<open>u \<in> set rs\<close> by (auto simp: in_set_conv_nth)
      with i(4) that(2) have "\<not> j < i" by blast
      then have "i \<le> j" by simp
      with assms(1) i j show ?thesis using sorted_nth_mono [of "map prio rs" i j] by simp
    qed
    with i c show ?thesis by auto
  qed
  ultimately show ?thesis by (auto split: prod.splits)
qed

theorem queue_order_and_choice_witness:
  "next_task int (\<lambda>_. - 1) 0 (Some 7) [2, 5, 9] = Some 2 \<and>
   sorted (map int (fst (queue_step int (\<lambda>_. - 1) (Sched 4) ([2, 5, 9], []))))"
  using queue_order_and_choice [of int "[2, 5, 9]" "[]" "\<lambda>_. - 1" "Sched 4" 0 "Some 7" 2]
  by (simp add: next_task_def insert_prio_def)

end
