(* ===== verification/Riscv_Sched.thy ===== *)
theory Riscv_Sched
  imports Riscv_Vcpu Riscv_Ipi Vplic Sched_List
begin

text \<open>
  Scheduling on RISC-V (\<^verbatim>\<open>src/arch/riscv64/sched_riscv.c\<close>, with the queues of
  \<^verbatim>\<open>src/core/sched_simple.c\<close> on the machine state): choosing the next task, requeueing the current one
  and switching contexts. The queues are sequences, which \<^theory_text>\<open>Sched_List\<close> shows to be what the linked
  lists implement. Each critical section is one step; the interleavings of the steps of several CPUs
  are the relation \<open>yield_step\<close>.
\<close>

section \<open>Queues\<close>

abbreviation (input) "prio_of s \<equiv> (\<lambda>t. t_priority (tasks s t))"
abbreviation (input) "aff_of s \<equiv> (\<lambda>t. t_affinity (tasks s t))"

definition rv_next_no_publish :: "int \<Rightarrow> rv \<Rightarrow> nat option \<times> rv" where
  "rv_next_no_publish me s =
     (case next_task (prio_of s) (aff_of s) me (current_task me s) (g_ready_list s) of
        None \<Rightarrow> (None, s)
      | Some t \<Rightarrow> (Some t, s\<lparr>g_ready_list := remove1 t (g_ready_list s)\<rparr>))"

definition simple_scheduler_next :: "int \<Rightarrow> rv \<Rightarrow> nat option \<times> rv" where
  "simple_scheduler_next me s =
     (case rv_next_no_publish me s of
        (None, s1) \<Rightarrow> (None, s1)
      | (Some t, s1) \<Rightarrow> (Some t, set_current me (Some t) s1))"

definition simple_scheduler_sched :: "int \<Rightarrow> nat \<Rightarrow> rv \<Rightarrow> rv" where
  "simple_scheduler_sched me t s =
     (let s1 = s\<lparr>g_ready_list := insert_prio (prio_of s) t (g_ready_list s)\<rparr>;
          target = t_affinity (tasks s t)
      in if 0 \<le> target \<and> target \<noteq> me then ipi_send_reschedule target s1 else s1)"

section \<open>Context switch\<close>

definition riscv_mark_boot_vcpu_started :: "rv \<Rightarrow> rv" where
  "riscv_mark_boot_vcpu_started s = s\<lparr>g_boot_vcpu_started := True\<rparr>"

definition arch_regs_restore :: "rvcpu \<Rightarrow> cpu_user_regs" where
  "arch_regs_restore c = v_regs c"

text \<open>
  \<open>__vcpu_switch\<close>, with the trap frame it reads and writes; \<open>None\<close> when a task has no virtual CPU (a
  null dereference).
\<close>

definition vcpu_switch ::
    "riscv_config \<Rightarrow> (u64 \<Rightarrow> (nat \<Rightarrow> u8) option) \<Rightarrow> int \<Rightarrow> nat option \<Rightarrow> nat \<Rightarrow> cpu_user_regs \<Rightarrow> rv \<Rightarrow>
     (cpu_user_regs \<times> rv) option" where
  "vcpu_switch cfg kmalloc me cur nxt irq_regs s =
     (let s0 = upd_task nxt (\<lambda>t. t\<lparr>t_switch_count := t_switch_count t + 1\<rparr>) s
      in do {
        s1 \<leftarrow> (case cur of
                 None \<Rightarrow> Some s0
               | Some c \<Rightarrow> (case t_vcpu (tasks s0 c) of
                   None \<Rightarrow> None
                 | Some v \<Rightarrow> Some (vcpu_context_save cfg kmalloc me v (upd_vcpu v (\<lambda>x. x\<lparr>v_regs := irq_regs\<rparr>) s0))));
        v \<leftarrow> t_vcpu (tasks s1 nxt);
        (let s2 = vcpu_context_restore cfg me v s1;
             regs = arch_regs_restore (vcpus s2 v);
             s3 = set_current me (Some nxt) s2;
             s4 = riscv_vcpu_timer_refresh me (Some v) s3;
             s5 = riscv_vplic_refresh me s4;
             s6 = riscv_virt_irq_materialize me (Some v) s5
         in Some (regs, hyp_timer_rearm me s6)) })"

definition sched_yield ::
    "riscv_config \<Rightarrow> (u64 \<Rightarrow> (nat \<Rightarrow> u8) option) \<Rightarrow> int \<Rightarrow> cpu_user_regs \<Rightarrow> rv \<Rightarrow> (cpu_user_regs \<times> rv) option" where
  "sched_yield cfg kmalloc me irq_reg s =
     (let s0 = (if sepc (g_empty_regs s) = 0 then s\<lparr>g_empty_regs := irq_reg\<rparr> else s)
      in if me \<noteq> 0 \<and> \<not> g_boot_vcpu_started s0 then Some (irq_reg, s0)
         else let current = current_task me s0
              in case rv_next_no_publish me s0 of
                   (None, s1) \<Rightarrow> Some (irq_reg, s1)
                 | (Some t, s1) \<Rightarrow>
                     (let s2 = (case current of
                                  Some c \<Rightarrow> if t_state (tasks s1 c) \<noteq> TASK_EXIT then simple_scheduler_sched me c s1 else s1
                                | None \<Rightarrow> s1)
                      in vcpu_switch cfg kmalloc me current t irq_reg s2))"

text \<open>\<open>sink_task\<close> up to its final endless loop, and \<open>init_sched\<close>.\<close>

definition sink_task :: "int \<Rightarrow> rv \<Rightarrow> rv option" where
  "sink_task me s = current_task me s \<bind>
     (\<lambda>t. Some (set_current me None (emit (KFree t) (upd_task t (\<lambda>x. x\<lparr>t_state := TASK_EXIT\<rparr>) s))))"

definition init_sched :: "rv \<Rightarrow> int \<times> rv" where
  "init_sched s = (0, s\<lparr>g_ready_list := [], g_wait_list := [], g_empty_regs := set_slot 0 0 (g_empty_regs s)\<rparr>)"

section \<open>What a switch changes\<close>

lemma refresh_frame [hc_inv]:
  "same_frame s (riscv_vcpu_timer_refresh me v s)" "same_frame s (riscv_vplic_refresh me s)"
  "same_frame s (hyp_timer_rearm me s)" "same_frame s (riscv_virt_irq_materialize me v s)"
proof -
  show "same_frame s (riscv_vcpu_timer_refresh me v s)"
    by (auto simp: riscv_vcpu_timer_refresh_def riscv_timer_refresh_def split: option.splits
        intro!: same_frame_trans [OF same_frame_upd(1) virt_irq_frame(1)])
  show "same_frame s (riscv_vplic_refresh me s)"
    by (auto simp: riscv_vplic_refresh_def vseip_frame split: option.splits)
qed (auto simp: hyp_timer_rearm_def enable_timer_irq_def same_frame_def virt_irq_frame(3) [unfolded same_frame_def])

lemma context_frame:
  "same_frame s (vcpu_context_save cfg km me v s)" "same_frame s (vcpu_context_restore cfg me v s)"
  by (simp_all add: vcpu_context_save_def vcpu_context_restore_def Let_def split_beta same_frame_def)

lemma set_current_after:
  assumes "same_frame (set_current me c s) s'"
  shows "g_ready_list s' = g_ready_list s" "g_wait_list s' = g_wait_list s" "tasks s' = tasks s"
    "g_current_task s' = (g_current_task s)(cpu_index me := c)" "g_running s' = (g_running s)(cpu_index me := c)"
  using assms by (simp_all add: same_frame_def) (simp_all add: set_current_def)

text \<open>Counting a switch changes no other field of a task.\<close>

definition counted :: "nat \<Rightarrow> rv \<Rightarrow> nat \<Rightarrow> hyper_task" where
  "counted t s = (tasks s)(t := (tasks s t)\<lparr>t_switch_count := t_switch_count (tasks s t) + 1\<rparr>)"

lemma counted_fields [simp]:
  "t_priority (counted t s u) = t_priority (tasks s u)" "t_affinity (counted t s u) = t_affinity (tasks s u)"
  "t_state (counted t s u) = t_state (tasks s u)" "t_vcpu (counted t s u) = t_vcpu (tasks s u)"
  "t_mpidr (counted t s u) = t_mpidr (tasks s u)"
  by (simp_all add: counted_def)

lemma vcpu_switch_sched:
  assumes "vcpu_switch cfg km me cur nxt regs s = Some (regs', s')"
  shows "g_ready_list s' = g_ready_list s" "g_wait_list s' = g_wait_list s" "tasks s' = counted nxt s"
    "g_current_task s' = (g_current_task s)(cpu_index me := Some nxt)"
    "g_running s' = (g_running s)(cpu_index me := Some nxt)"
proof -
  let ?s0 = "upd_task nxt (\<lambda>t. t\<lparr>t_switch_count := t_switch_count t + 1\<rparr>) s"
  obtain s1 v where s1: "same_frame ?s0 s1" and
    s': "s' = hyp_timer_rearm me (riscv_virt_irq_materialize me (Some v) (riscv_vplic_refresh me
      (riscv_vcpu_timer_refresh me (Some v) (set_current me (Some nxt) (vcpu_context_restore cfg me v s1)))))"
    using assms
    by (auto simp: vcpu_switch_def Let_def Option.bind_eq_Some_conv split: option.splits
        intro: same_frame_trans [OF same_frame_upd(1) context_frame(1)])
  let ?s2 = "vcpu_context_restore cfg me v s1"
  have f2: "same_frame ?s0 ?s2" by (rule same_frame_trans [OF s1 context_frame(2)])
  have "same_frame (set_current me (Some nxt) ?s2) s'" unfolding s'
    by (meson refresh_frame same_frame_trans)
  from set_current_after [OF this] f2
  show "g_ready_list s' = g_ready_list s" "g_wait_list s' = g_wait_list s" "tasks s' = counted nxt s"
    "g_current_task s' = (g_current_task s)(cpu_index me := Some nxt)"
    "g_running s' = (g_running s)(cpu_index me := Some nxt)"
    by (simp_all add: same_frame_def counted_def)
qed

lemma vcpu_switch_returns:
  assumes "t_vcpu (tasks s nxt) \<noteq> None" "\<And>c. cur = Some c \<Longrightarrow> t_vcpu (tasks s c) \<noteq> None"
  shows "vcpu_switch cfg km me cur nxt regs s \<noteq> None"
proof -
  have "t_vcpu (tasks (vcpu_context_save cfg km me v x) u) = t_vcpu (tasks x u)" for v x u
    using context_frame(1) [of x cfg km me v] by (simp add: same_frame_def)
  then show ?thesis using assms by (auto simp: vcpu_switch_def Let_def split: option.splits)
qed

lemma sched_frame:
  "tasks (simple_scheduler_sched me t s) = tasks s" "g_current_task (simple_scheduler_sched me t s) = g_current_task s"
  "g_ready_list (simple_scheduler_sched me t s) = insert_prio (prio_of s) t (g_ready_list s)"
  "g_boot_vcpu_started (simple_scheduler_sched me t s) = g_boot_vcpu_started s"
  by (simp_all add: simple_scheduler_sched_def ipi_send_reschedule_def ipi_send_cpu_def ipi_post_def emit_def Let_def
      split: option.split)

section \<open>Interleavings\<close>

text \<open>
  Where a CPU is in \<open>sched_yield\<close>: outside, after taking the next task from the queue, or after
  requeueing the current one. Between these points other CPUs run.
\<close>

datatype yield_pc = Out | Picked "nat option" nat | Requeued "nat option" nat

type_synonym yield_state = "rv \<times> (int \<Rightarrow> yield_pc)"

inductive yield_step :: "riscv_config \<Rightarrow> (u64 \<Rightarrow> (nat \<Rightarrow> u8) option) \<Rightarrow> yield_state \<Rightarrow> yield_state \<Rightarrow> bool"
  for cfg km where
  pick: "\<lbrakk>0 \<le> me; me < CPU_NUM; pcs me = Out; me = 0 \<or> g_boot_vcpu_started s; rv_next_no_publish me s = (Some t, s')\<rbrakk> \<Longrightarrow>
    yield_step cfg km (s, pcs) (s', pcs(me := Picked (current_task me s) t))"
| requeue: "\<lbrakk>0 \<le> me; me < CPU_NUM; pcs me = Picked (Some c) t; t_state (tasks s c) \<noteq> TASK_EXIT\<rbrakk> \<Longrightarrow>
    yield_step cfg km (s, pcs) (simple_scheduler_sched me c s, pcs(me := Requeued (Some c) t))"
| no_requeue: "\<lbrakk>0 \<le> me; me < CPU_NUM; pcs me = Picked cur t; \<forall>c. cur = Some c \<longrightarrow> t_state (tasks s c) = TASK_EXIT\<rbrakk> \<Longrightarrow>
    yield_step cfg km (s, pcs) (s, pcs(me := Requeued cur t))"
| switch: "\<lbrakk>0 \<le> me; me < CPU_NUM; pcs me = Requeued cur t; vcpu_switch cfg km me cur t regs s = Some (regs', s')\<rbrakk> \<Longrightarrow>
    yield_step cfg km (s, pcs) (s', pcs(me := Out))"

inductive_cases yield_stepE: "yield_step cfg km x y"

abbreviation (input) "cur_of s i \<equiv> g_current_task s i"

fun sched_inv :: "yield_state \<Rightarrow> bool" where
  "sched_inv (s, pcs) \<longleftrightarrow> distinct (g_ready_list s) \<and>
     (\<forall>i c. 0 \<le> i \<and> i < CPU_NUM \<and> cur_of s i = Some c \<longrightarrow> t_affinity (tasks s c) = i) \<and>
     (\<forall>i c. 0 \<le> i \<and> i < CPU_NUM \<and> pcs i = Out \<and> cur_of s i = Some c \<longrightarrow> c \<notin> set (g_ready_list s)) \<and>
     (\<forall>i cur t. 0 \<le> i \<and> i < CPU_NUM \<and> (pcs i = Picked cur t \<or> pcs i = Requeued cur t) \<longrightarrow>
        cur = cur_of s i \<and> t \<notin> set (g_ready_list s) \<and> t_affinity (tasks s t) = i \<and> cur \<noteq> Some t) \<and>
     (\<forall>i t c. 0 \<le> i \<and> i < CPU_NUM \<and> pcs i = Picked (Some c) t \<longrightarrow> c \<notin> set (g_ready_list s))"

declare sched_inv.simps [simp del]

text \<open>Every task is bound to a CPU, as \<open>riscv_create_guest_vcpu\<close> binds them.\<close>

definition pinned :: "rv \<Rightarrow> bool" where
  "pinned s \<longleftrightarrow> (\<forall>t. 0 \<le> t_affinity (tasks s t))"

lemma cpu_index_id [simp]: "0 \<le> me \<Longrightarrow> me < CPU_NUM \<Longrightarrow> cpu_index me = me"
  by (simp add: cpu_index_def)

lemma rv_next_cases:
  assumes "rv_next_no_publish me s = (Some t, s')"
  shows "s' = s\<lparr>g_ready_list := remove1 t (g_ready_list s)\<rparr>" "t \<in> set (g_ready_list s)"
    "t_affinity (tasks s t) = - 1 \<or> t_affinity (tasks s t) = me"
proof -
  have n: "next_task (prio_of s) (aff_of s) me (current_task me s) (g_ready_list s) = Some t"
    and "s' = s\<lparr>g_ready_list := remove1 t (g_ready_list s)\<rparr>"
    using assms by (auto simp: rv_next_no_publish_def split: option.splits)
  then show "s' = s\<lparr>g_ready_list := remove1 t (g_ready_list s)\<rparr>" by simp
  from n have "List.find (\<lambda>t. t_affinity (tasks s t) = - 1 \<or> t_affinity (tasks s t) = me) (g_ready_list s) = Some t"
    by (auto simp: next_task_def split: option.splits if_splits)
  then show "t \<in> set (g_ready_list s)" "t_affinity (tasks s t) = - 1 \<or> t_affinity (tasks s t) = me"
    by (auto simp: find_Some_iff)
qed

lemma sched_inv_frame:
  assumes "sched_inv (s, pcs)" "0 \<le> i" "i < CPU_NUM"
  shows "distinct (g_ready_list s)" "cur_of s i = Some c \<Longrightarrow> t_affinity (tasks s c) = i"
    "pcs i = Out \<Longrightarrow> cur_of s i = Some c \<Longrightarrow> c \<notin> set (g_ready_list s)"
    "pcs i = Picked cur t \<or> pcs i = Requeued cur t \<Longrightarrow>
       cur = cur_of s i \<and> t \<notin> set (g_ready_list s) \<and> t_affinity (tasks s t) = i \<and> cur \<noteq> Some t"
    "pcs i = Picked cur t \<Longrightarrow> cur = Some c \<Longrightarrow> c \<notin> set (g_ready_list s)"
  using assms unfolding sched_inv.simps by blast+

lemma sched_invI:
  assumes "distinct (g_ready_list s)"
    "\<And>i c. 0 \<le> i \<Longrightarrow> i < CPU_NUM \<Longrightarrow> cur_of s i = Some c \<Longrightarrow> t_affinity (tasks s c) = i"
    "\<And>i c. 0 \<le> i \<Longrightarrow> i < CPU_NUM \<Longrightarrow> pcs i = Out \<Longrightarrow> cur_of s i = Some c \<Longrightarrow> c \<notin> set (g_ready_list s)"
    "\<And>i cur t. 0 \<le> i \<Longrightarrow> i < CPU_NUM \<Longrightarrow> pcs i = Picked cur t \<or> pcs i = Requeued cur t \<Longrightarrow>
       cur = cur_of s i \<and> t \<notin> set (g_ready_list s) \<and> t_affinity (tasks s t) = i \<and> cur \<noteq> Some t"
    "\<And>i cur t c. 0 \<le> i \<Longrightarrow> i < CPU_NUM \<Longrightarrow> pcs i = Picked cur t \<Longrightarrow> cur = Some c \<Longrightarrow> c \<notin> set (g_ready_list s)"
  shows "sched_inv (s, pcs)"
  using assms unfolding sched_inv.simps by blast

lemma sched_inv_pick:
  assumes I: "sched_inv (s, pcs)" and p: "pinned s" and me: "0 \<le> me" "me < CPU_NUM" and out: "pcs me = Out"
    and n: "rv_next_no_publish me s = (Some t, s')"
  shows "sched_inv (s', pcs(me := Picked (current_task me s) t))"
proof -
  note F = sched_inv_frame [OF I]
  note N = rv_next_cases [OF n]
  have a: "t_affinity (tasks s t) = me" using N(3) p by (auto simp: pinned_def dest: spec [of _ t])
  have r: "set (remove1 t (g_ready_list s)) = set (g_ready_list s) - {t}"
    using F(1) [of 0] by (simp add: CPU_NUM_def)
  have c: "cur_of s me \<noteq> Some t" using F(3) [OF me out, of t] N(2) by auto
  show ?thesis unfolding N(1)
    by (rule sched_invI) (use F me out a r c in \<open>auto simp: current_task_def split: if_splits\<close>)
qed

lemma sched_inv_requeue:
  assumes I: "sched_inv (s, pcs)" and me: "0 \<le> me" "me < CPU_NUM" and p: "pcs me = Picked (Some c) t"
  shows "sched_inv (simple_scheduler_sched me c s, pcs(me := Requeued (Some c) t))"
proof -
  note F = sched_inv_frame [OF I]
  have c: "cur_of s me = Some c" "t \<noteq> c" "t \<notin> set (g_ready_list s)" "t_affinity (tasks s t) = me"
    using F(4) [OF me, of "Some c" t] p by auto
  have nc: "c \<notin> set (g_ready_list s)" using F(5) [OF me p refl] .
  have a: "t_affinity (tasks s c) = me" using F(2) [OF me c(1)] .
  have other: "u \<noteq> c" if "0 \<le> i" "i < CPU_NUM" "i \<noteq> me" "cur_of s i = Some u \<or> t_affinity (tasks s u) = i" for i u
    using that F(2) [of i u] a by auto
  show ?thesis
  proof (rule sched_invI, unfold sched_frame insert_prio_set, goal_cases)
    case 1
    then show ?case using F(1) [OF me] nc by (rule insert_prio_distinct)
  next
    case (4 i cur u)
    then show ?case using F(4) [of i cur u] c other [of i u] by (auto split: if_splits)
  next
    case (5 i cur u d)
    then have "pcs i = Picked cur u" "i \<noteq> me" by (auto split: if_splits)
    then show ?case using 5 F(4) [of i cur u] F(5) [of i cur u d] other [of i d] by auto
  next
    case (3 i d)
    then show ?case using F(3) [of i d] other [of i d] by (auto split: if_splits)
  qed (use F in auto)
qed

lemma sched_inv_no_requeue:
  assumes I: "sched_inv (s, pcs)" and "0 \<le> me" "me < CPU_NUM" "pcs me = Picked cur t"
  shows "sched_inv (s, pcs(me := Requeued cur t))"
  using sched_inv_frame [OF I] assms(2-4) by (intro sched_invI) (auto split: if_splits)

lemma sched_inv_switch:
  assumes I: "sched_inv (s, pcs)" and me: "0 \<le> me" "me < CPU_NUM" and p: "pcs me = Requeued cur t"
    and sw: "vcpu_switch cfg km me cur t regs s = Some (regs', s')"
  shows "sched_inv (s', pcs(me := Out))"
proof -
  note F = sched_inv_frame [OF I] and S = vcpu_switch_sched [OF sw]
  have t: "t \<notin> set (g_ready_list s)" "t_affinity (tasks s t) = me" using F(4) [OF me, of cur t] p by auto
  have idx: "cpu_index me = me" using me by simp
  show ?thesis
  proof (rule sched_invI, unfold S counted_fields idx, goal_cases)
    case 1
    show ?case by (rule F(1) [OF me])
  next
    case (2 i c)
    then show ?case using F(2) [of i c] t(2) by (cases "i = me") simp_all
  next
    case (3 i c)
    then show ?case using F(3) [of i c] t(1) by (cases "i = me") simp_all
  next
    case (4 i cu u)
    then have "i \<noteq> me" by auto
    with 4 show ?case using F(4) [of i cu u] by auto
  next
    case (5 i cu u c)
    then have "i \<noteq> me" by auto
    with 5 show ?case using F(5) [of i cu u c] by simp
  qed
qed

lemma yield_step_inv:
  assumes "yield_step cfg km x y" "sched_inv x" "pinned (fst x)"
  shows "sched_inv y \<and> pinned (fst y)"
  using assms
proof cases
  case (pick me pcs s t s')
  then show ?thesis using assms(2,3) sched_inv_pick [of s pcs me t s'] rv_next_cases [of me s t s'] by (auto simp: pinned_def)
next
  case (requeue me pcs c t s)
  then show ?thesis using assms(2,3) sched_inv_requeue [of s pcs me c t] by (simp add: pinned_def sched_frame)
next
  case (no_requeue me pcs cur t s)
  then show ?thesis using assms(2,3) sched_inv_no_requeue [of s pcs me cur t] by simp
next
  case (switch me pcs cur t regs s regs' s')
  then show ?thesis using assms(2,3) sched_inv_switch [of s pcs me cur t cfg km regs regs' s']
    vcpu_switch_sched [of cfg km me cur t regs s regs' s'] by (simp add: pinned_def)
qed

lemma yield_steps_inv:
  assumes "(yield_step cfg km)\<^sup>*\<^sup>* x y" "sched_inv x" "pinned (fst x)"
  shows "sched_inv y \<and> pinned (fst y)"
  using assms by (induction rule: rtranclp_induct) (auto dest: yield_step_inv)

lemma sched_yield_steps:
  assumes "sched_yield cfg km me regs s = Some (regs', s')" "0 \<le> me" "me < CPU_NUM" "pcs me = Out"
    "sepc (g_empty_regs s) \<noteq> 0"
  shows "(yield_step cfg km)\<^sup>*\<^sup>* (s, pcs) (s', pcs)"
proof (cases "(me \<noteq> 0 \<and> \<not> g_boot_vcpu_started s) \<or> fst (rv_next_no_publish me s) = None")
  case True
  then have "s' = s" using assms(1,5)
    by (auto simp: sched_yield_def Let_def rv_next_no_publish_def split: if_splits option.splits)
  then show ?thesis by simp
next
  case False
  then obtain t s1 where n: "rv_next_no_publish me s = (Some t, s1)" and st: "me = 0 \<or> g_boot_vcpu_started s"
    by (cases "rv_next_no_publish me s") auto
  have y: "vcpu_switch cfg km me (current_task me s) t regs (case current_task me s of
      Some c \<Rightarrow> if t_state (tasks s1 c) \<noteq> TASK_EXIT then simple_scheduler_sched me c s1 else s1 | None \<Rightarrow> s1) = Some (regs', s')"
    using assms(1,5) n st by (auto simp: sched_yield_def Let_def cong: option.case_cong)
  note [intro] = assms(2,3)
  have 1: "yield_step cfg km (s, pcs) (s1, pcs(me := Picked (current_task me s) t))"
    by (rule pick [of me pcs, OF assms(2-4) st n])
  have 2: "yield_step cfg km (s1, pcs(me := Picked (current_task me s) t))
      (case current_task me s of Some c \<Rightarrow> if t_state (tasks s1 c) \<noteq> TASK_EXIT then simple_scheduler_sched me c s1 else s1
        | None \<Rightarrow> s1, pcs(me := Requeued (current_task me s) t))"
    using requeue [of me "pcs(me := Picked (current_task me s) t)" _ t s1 cfg km]
      no_requeue [of me "pcs(me := Picked (current_task me s) t)" "current_task me s" t s1 cfg km] assms(2,3)
    by (auto split: option.split)
  have 3: "yield_step cfg km (case current_task me s of
      Some c \<Rightarrow> if t_state (tasks s1 c) \<noteq> TASK_EXIT then simple_scheduler_sched me c s1 else s1
        | None \<Rightarrow> s1, pcs(me := Requeued (current_task me s) t)) (s', pcs)"
    using switch [OF assms(2,3) _ y, of "pcs(me := Requeued (current_task me s) t)"] assms(4)
    by (simp add: fun_upd_idem)
  from 1 2 3 show ?thesis by (meson converse_rtranclp_into_rtranclp rtranclp.rtrancl_refl)
qed

section \<open>Register frames\<close>

lemma v_regs_irq [simp]:
  "v_regs (vcpus (riscv_virt_irq_assert me v i s) w) = v_regs (vcpus s w)"
  "v_regs (vcpus (riscv_virt_irq_clear me v i s) w) = v_regs (vcpus s w)"
  "vcpus (riscv_virt_irq_materialize me v s) = vcpus s"
  by (auto simp: riscv_virt_irq_assert_def riscv_virt_irq_clear_def riscv_virt_irq_materialize_def Let_def split: option.splits)

lemma v_regs_refresh [simp]:
  "v_regs (vcpus (riscv_vcpu_timer_refresh me v s) w) = v_regs (vcpus s w)"
  "v_regs (vcpus (riscv_vplic_refresh me s) w) = v_regs (vcpus s w)"
  "vcpus (hyp_timer_rearm me s) = vcpus s"
  by (auto simp: riscv_vcpu_timer_refresh_def riscv_timer_refresh_def riscv_vplic_refresh_def vplic_set_task_vseip_def
      hyp_timer_rearm_def enable_timer_irq_def Let_def ipi_send_reschedule_def split: option.splits)

lemma v_regs_vector [simp]: "v_regs (fst (vector_csr_save km c h)) = v_regs c"
proof -
  obtain b z where "fst (vector_csr_save km c h) = c\<lparr>v_vstart := h_vstart h, v_vxsat := csrr_vxsat h,
      v_vxrm := csrr_vxrm h, v_vcsr := h_vcsr h, v_vl := h_vl h, v_vtype := h_vtype h, v_vlenb := h_vlenb h,
      v_vregs := b, v_vregs_size := z\<rparr>"
    using vector_regs_save_frame [of km "c\<lparr>v_vstart := h_vstart h, v_vxsat := csrr_vxsat h,
      v_vxrm := csrr_vxrm h, v_vcsr := h_vcsr h, v_vl := h_vl h, v_vtype := h_vtype h, v_vlenb := h_vlenb h\<rparr>"
      "h\<lparr>sstatus := sstatus h OR SSTATUS_VS_DIRTY\<rparr>"]
    by (auto simp: vector_csr_save_def Let_def split_beta csrr_vxsat_def csrr_vxrm_def)
  then show ?thesis by simp
qed

lemma v_regs_context [simp]:
  "v_regs (vcpus (vcpu_context_save cfg km me v s) w) = v_regs (vcpus s w)"
  "vcpus (vcpu_context_restore cfg me v s) = vcpus s"
  by (simp_all add: vcpu_context_save_def vcpu_context_restore_def Let_def split_beta fpu_save_def)

lemma vcpu_switch_regs:
  assumes "vcpu_switch cfg km me (Some c) t regs s = Some (regs', s')"
    "t_vcpu (tasks s c) = Some vc" "t_vcpu (tasks s t) = Some vt" "vc \<noteq> vt"
  shows "regs' = v_regs (vcpus s vt)" "v_regs (vcpus s' vc) = regs"
proof -
  have "t_vcpu (tasks (vcpu_context_save cfg km me v x) u) = t_vcpu (tasks x u)" for v x u
    using context_frame(1) [of x cfg km me v] by (simp add: same_frame_def)
  moreover have "c \<noteq> t" using assms(2-4) by auto
  ultimately show "regs' = v_regs (vcpus s vt)" "v_regs (vcpus s' vc) = regs"
    using assms by (auto simp: vcpu_switch_def Let_def arch_regs_restore_def \<open>c \<noteq> t\<close>)
qed

section \<open>Properties\<close>

text \<open>
  C1. No virtual CPU runs on two physical CPUs: in every interleaving of the scheduling steps of all
  CPUs, starting with nothing running and every task bound to a CPU, a task is current on at most one
  CPU; and a task that a CPU is about to load is in no queue and current nowhere else, so its saved
  registers are not those of a context still live on another CPU.
\<close>

theorem no_task_on_two_cpus:
  assumes run: "(yield_step cfg km)\<^sup>*\<^sup>* (s0, \<lambda>_. Out) (s, pcs)"
    and init: "pinned s0" "distinct (g_ready_list s0)" "\<forall>i. g_current_task s0 i = None"
    and ij: "0 \<le> i" "i < CPU_NUM" "0 \<le> j" "j < CPU_NUM" "i \<noteq> j"
  shows "\<not> (g_current_task s i = Some t \<and> g_current_task s j = Some t) \<and>
    (\<forall>cur. pcs j = Requeued cur t \<longrightarrow> t \<notin> set (g_ready_list s) \<and> g_current_task s i \<noteq> Some t)"
proof -
  have "sched_inv (s0, \<lambda>_. Out)" using init by (simp add: sched_inv.simps)
  with yield_steps_inv [OF run] init(1) have I: "sched_inv (s, pcs)" by simp
  note F = sched_inv_frame [OF I]
  show ?thesis using F(2) [OF ij(1,2), of t] F(2) [OF ij(3,4), of t] F(4) [OF ij(3,4), of _ t] ij(5) by auto
qed

definition two_tasks :: rv where
  "two_tasks = zero_rv\<lparr>g_ready_list := [1, 2], g_boot_vcpu_started := True,
     tasks := (\<lambda>t. zero_task\<lparr>t_vcpu := Some t, t_affinity := (if t = 2 then 1 else 0)\<rparr>)\<rparr>"

lemma two_tasks_simps [simp]:
  "g_ready_list two_tasks = [1, 2]" "g_current_task two_tasks i = None" "g_boot_vcpu_started two_tasks"
  "t_affinity (tasks two_tasks t) = (if t = 2 then 1 else 0)" "t_vcpu (tasks two_tasks t) = Some t"
  by (simp_all add: two_tasks_def zero_rv_def)

theorem no_task_on_two_cpus_witness:
  "\<exists>s pcs. (yield_step full_config (\<lambda>_. None))\<^sup>*\<^sup>* (two_tasks, \<lambda>_. Out) (s, pcs) \<and> pcs 1 = Picked None 2 \<and>
     \<not> (g_current_task s 0 = Some 2 \<and> g_current_task s 1 = Some 2)"
proof -
  have "rv_next_no_publish 1 two_tasks = (Some 2, two_tasks\<lparr>g_ready_list := [1]\<rparr>)"
    by (simp add: rv_next_no_publish_def next_task_def current_task_def)
  then have "yield_step full_config (\<lambda>_. None) (two_tasks, \<lambda>_. Out)
      (two_tasks\<lparr>g_ready_list := [1]\<rparr>, (\<lambda>_. Out)(1 := Picked (current_task 1 two_tasks) 2))"
    by (intro pick) (simp_all add: CPU_NUM_def)
  then have r: "(yield_step full_config (\<lambda>_. None))\<^sup>*\<^sup>* (two_tasks, \<lambda>_. Out)
      (two_tasks\<lparr>g_ready_list := [1]\<rparr>, (\<lambda>_. Out)(1 := Picked None 2))" by (simp add: current_task_def)
  from no_task_on_two_cpus [OF r, of 0 1 2] have "\<not> (g_current_task (two_tasks\<lparr>g_ready_list := [1]\<rparr>) 0 = Some 2 \<and>
      g_current_task (two_tasks\<lparr>g_ready_list := [1]\<rparr>) 1 = Some 2)" by (simp add: pinned_def CPU_NUM_def)
  with r show ?thesis
    by (intro exI [of _ "two_tasks\<lparr>g_ready_list := [1]\<rparr>"] exI [of _ "(\<lambda>_. Out)(1 := Picked None 2)"] conjI) simp_all
qed

lemma sched_vcpus: "vcpus (simple_scheduler_sched me t s) = vcpus s"
  by (simp add: simple_scheduler_sched_def ipi_send_reschedule_def Let_def)

lemma next_task_mem: "next_task p a me cur xs = Some t \<Longrightarrow> t \<in> set xs"
  by (auto simp: next_task_def find_Some_iff split: option.splits if_splits)

text \<open>
  C18. Yielding neither loses nor duplicates a task: on a CPU with a running task, \<open>sched_yield\<close> returns;
  if the queue offers no task the running one continues with its registers untouched, otherwise the
  offered task becomes current with the registers saved for it, the registers of the old one are
  saved, and the old one is back in the ready queue. The tasks of the queue and of the CPU together
  are the same as before.
\<close>

theorem sched_yield_conserves:
  assumes me: "0 \<le> me" "me < CPU_NUM" "me = 0 \<or> g_boot_vcpu_started s"
    and cur: "g_current_task s me = Some c" "t_state (tasks s c) \<noteq> TASK_EXIT"
    and vc: "t_vcpu (tasks s c) = Some vc" and vs: "\<forall>t \<in> set (g_ready_list s). t_vcpu (tasks s t) \<noteq> None \<and> t_vcpu (tasks s t) \<noteq> Some vc"
  shows "\<exists>regs' s' t. sched_yield cfg km me regs s = Some (regs', s') \<and> g_current_task s' me = Some t \<and>
    add_mset t (mset (g_ready_list s')) = add_mset c (mset (g_ready_list s)) \<and>
    (\<forall>i. i \<noteq> me \<longrightarrow> g_current_task s' i = g_current_task s i) \<and>
    (case next_task (prio_of s) (aff_of s) me (Some c) (g_ready_list s) of
       None \<Rightarrow> t = c \<and> regs' = regs
     | Some u \<Rightarrow> t = u \<and> v_regs (vcpus s' vc) = regs \<and> (\<forall>vt. t_vcpu (tasks s u) = Some vt \<longrightarrow> regs' = v_regs (vcpus s vt)))"
proof -
  define s0 where "s0 = (if sepc (g_empty_regs s) = 0 then s\<lparr>g_empty_regs := regs\<rparr> else s)"
  have s0: "tasks s0 = tasks s" "g_current_task s0 = g_current_task s" "g_ready_list s0 = g_ready_list s"
    "vcpus s0 = vcpus s" "g_boot_vcpu_started s0 = g_boot_vcpu_started s" by (simp_all add: s0_def)
  have ct: "current_task me s0 = Some c" using cur me by (simp add: current_task_def s0)
  let ?n = "next_task (prio_of s) (aff_of s) me (Some c) (g_ready_list s)"
  have y: "sched_yield cfg km me regs s = (case rv_next_no_publish me s0 of (None, s1) \<Rightarrow> Some (regs, s1)
      | (Some t, s1) \<Rightarrow> vcpu_switch cfg km me (Some c) t regs
          (if t_state (tasks s1 c) \<noteq> TASK_EXIT then simple_scheduler_sched me c s1 else s1))"
    using me by (auto simp: sched_yield_def s0_def [symmetric] ct Let_def s0 split: option.split prod.split)
  show ?thesis
  proof (cases ?n)
    case None
    then show ?thesis using y ct cur by (simp add: rv_next_no_publish_def s0)
  next
    case (Some u)
    define s2 where "s2 = simple_scheduler_sched me c (s0\<lparr>g_ready_list := remove1 u (g_ready_list s)\<rparr>)"
    have u: "u \<in> set (g_ready_list s)" using Some by (rule next_task_mem)
    with vs obtain vt where vt: "t_vcpu (tasks s u) = Some vt" "vc \<noteq> vt" by fastforce
    have s2: "tasks s2 = tasks s" "vcpus s2 = vcpus s" "g_current_task s2 = g_current_task s"
      "mset (g_ready_list s2) = add_mset c (mset (g_ready_list s) - {#u#})"
      by (simp_all add: s2_def sched_frame sched_vcpus s0)
    have ys: "sched_yield cfg km me regs s = vcpu_switch cfg km me (Some c) u regs s2"
      using y Some ct cur by (simp add: rv_next_no_publish_def s0 s2_def)
    have "vcpu_switch cfg km me (Some c) u regs s2 \<noteq> None"
      by (rule vcpu_switch_returns) (simp_all add: s2 vt vc)
    then obtain regs' s' where sw: "vcpu_switch cfg km me (Some c) u regs s2 = Some (regs', s')" by auto
    have "add_mset u (mset (g_ready_list s')) = add_mset c (mset (g_ready_list s))"
      using u vcpu_switch_sched(1) [OF sw] s2 by simp
    with vcpu_switch_sched(4) [OF sw] vcpu_switch_regs [OF sw, of vc vt] ys sw Some vt me show ?thesis
      by (auto simp: s2 vc)
  qed
qed

theorem sched_yield_conserves_witness:
  "\<exists>regs' s' t. sched_yield full_config (\<lambda>_. None) 1 zero_regs
       (two_tasks\<lparr>g_current_task := (\<lambda>_. None)(1 := Some 5)\<rparr>) = Some (regs', s') \<and>
     g_current_task s' 1 = Some t \<and> add_mset t (mset (g_ready_list s')) = {#1, 2, 5#}"
  using sched_yield_conserves [of 1 "two_tasks\<lparr>g_current_task := (\<lambda>_. None)(1 := Some 5)\<rparr>" 5 5 full_config "\<lambda>_. None" zero_regs]
  by (fastforce simp: CPU_NUM_def two_tasks_def zero_rv_def zero_task_def add_mset_commute)

text \<open>
  Binding tasks to CPUs is needed: the running task is put back into the ready queue before its
  registers are saved, so with tasks that may run anywhere (affinity -1) there is an interleaving in
  which a second CPU loads the saved registers of a task while it is still current on the first.
\<close>

theorem unpinned_task_on_two_cpus:
  "\<exists>s0 s pcs. distinct (g_ready_list s0) \<and> g_current_task s0 = (\<lambda>_. None)(0 := Some 1) \<and>
     1 \<notin> set (g_ready_list s0) \<and> (\<forall>t. t_affinity (tasks s0 t) = - 1) \<and>
     (yield_step full_config (\<lambda>_. None))\<^sup>*\<^sup>* (s0, \<lambda>_. Out) (s, pcs) \<and>
     g_current_task s 0 = Some 1 \<and> g_current_task s 1 = Some 1"
proof -
  let ?step = "yield_step full_config (\<lambda>_. None)"
  define s0 where "s0 = zero_rv\<lparr>g_ready_list := [2], g_boot_vcpu_started := True, g_current_task := (\<lambda>_. None)(0 := Some 1),
     tasks := (\<lambda>t. zero_task\<lparr>t_vcpu := Some t, t_affinity := - 1\<rparr>)\<rparr>"
  define s1 where "s1 = s0\<lparr>g_ready_list := []\<rparr>"
  define s2 where "s2 = simple_scheduler_sched 0 1 s1"
  define s3 where "s3 = s2\<lparr>g_ready_list := []\<rparr>"
  define p1 where "p1 = (\<lambda>_. Out)((0::int) := Picked (Some 1) 2)"
  define p2 where "p2 = p1(0 := Requeued (Some 1) 2)"
  have cpus: "0 < CPU_NUM" "1 < CPU_NUM" by (simp_all add: CPU_NUM_def)
  have f: "tasks s2 = tasks s0" "g_current_task s2 = g_current_task s0" "g_ready_list s2 = [1]" "g_boot_vcpu_started s2"
    by (simp_all add: s2_def sched_frame s1_def s0_def insert_prio_def)
  have c: "current_task 0 s0 = Some 1" "current_task 1 s2 = None"
    by (simp_all add: current_task_def cpu_index_def CPU_NUM_def f) (simp_all add: s0_def)
  have "?step (s0, \<lambda>_. Out) (s1, p1)" using pick [of 0 "\<lambda>_. Out" s0 2 s1 full_config "\<lambda>_. None"] cpus c(1)
    by (simp add: rv_next_no_publish_def next_task_def s1_def p1_def) (simp add: s0_def zero_task_def)
  moreover have "?step (s1, p1) (s2, p2)" unfolding s2_def p2_def
    by (rule requeue) (simp_all add: cpus p1_def s1_def s0_def zero_task_def)
  moreover have "?step (s2, p2) (s3, p2(1 := Picked None 1))"
    using pick [of 1 p2 s2 1 s3 full_config "\<lambda>_. None"] cpus c(2) f
    by (simp add: rv_next_no_publish_def next_task_def s3_def p2_def p1_def) (simp add: s0_def zero_task_def)
  moreover have "?step (s3, p2(1 := Picked None 1)) (s3, p2(1 := Requeued None 1))"
    using no_requeue [of 1 "p2(1 := Picked None 1)" None 1 s3 full_config "\<lambda>_. None"] cpus by simp
  moreover obtain r s4 where sw: "vcpu_switch full_config (\<lambda>_. None) 1 None 1 zero_regs s3 = Some (r, s4)"
    using vcpu_switch_returns [of s3 1 None full_config "\<lambda>_. None" 1 zero_regs] by (auto simp: s3_def f s0_def)
  moreover from sw have "?step (s3, p2(1 := Requeued None 1)) (s4, p2(1 := Out))"
    using switch [of 1 "p2(1 := Requeued None 1)" None 1 full_config "\<lambda>_. None" zero_regs s3 r s4] cpus by simp
  ultimately have run: "?step\<^sup>*\<^sup>* (s0, \<lambda>_. Out) (s4, p2(1 := Out))"
    by (meson converse_rtranclp_into_rtranclp rtranclp.rtrancl_refl)
  have "g_current_task s4 0 = Some 1" "g_current_task s4 1 = Some 1"
    using vcpu_switch_sched(4) [OF sw] by (simp_all add: s3_def f cpu_index_def CPU_NUM_def) (simp add: s0_def)
  with run show ?thesis
    by (intro exI [of _ s0] exI [of _ s4] exI [of _ "p2(1 := Out)"] conjI) (simp_all add: s0_def)
qed

end
