(* ===== verification/Riscv_Boot.thy ===== *)
theory Riscv_Boot
  imports Riscv_Sched
begin

text \<open>
  Bringing up CPUs and tasks: creation and destruction of virtual CPUs (\<^verbatim>\<open>src/core/vcpu.c\<close>), creation of
  a task with its virtual CPU and stack (\<^verbatim>\<open>src/core/vcpu_task.c\<close>) over the architecture operations of
  \<^verbatim>\<open>include/arch_ops.h\<close>, their RISC-V instance (\<^verbatim>\<open>riscv_arch_ops.c\<close>), \<open>riscv_create_guest_vcpu\<close>
  (\<^verbatim>\<open>sched_riscv.c\<close>) and the start of the secondary harts (\<^verbatim>\<open>smp.c\<close>).

  The results of \<^verbatim>\<open>kmalloc\<close> are an argument: \<open>km i\<close> is the address the \<open>i\<close>-th call of a creation returns.
  Allocations and releases are recorded as effects, so that leaks can be stated. The answer of the
  firmware to a hart start request is an argument as well.
\<close>

section \<open>Allocation\<close>

definition kmalloc_event :: "nat option \<Rightarrow> rv \<Rightarrow> nat option \<times> rv" where
  "kmalloc_event r s = (case r of None \<Rightarrow> (None, s) | Some p \<Rightarrow> (Some p, emit (KAlloc p) s))"

definition kfree_event :: "nat \<Rightarrow> rv \<Rightarrow> rv" where
  "kfree_event p s = emit (KFree p) s"

section \<open>Architecture operations\<close>

record arch_ops =
  op_vcpu_create :: "(nat \<Rightarrow> rv \<Rightarrow> int \<times> rv) option"
  op_vcpu_destroy :: "(nat \<Rightarrow> rv \<Rightarrow> rv) option"
  op_vcpu_init :: "(nat \<Rightarrow> u64 \<Rightarrow> u64 \<Rightarrow> rv \<Rightarrow> (int \<times> rv) option) option"
  op_vcpu_task_init :: "(nat \<Rightarrow> vm_vcpu_task_desc \<Rightarrow> u64 \<Rightarrow> rv \<Rightarrow> (int \<times> rv) option) option"

definition riscv_vcpu_destroy :: "nat \<Rightarrow> rv \<Rightarrow> rv" where
  "riscv_vcpu_destroy v s =
     (if v_vregs (vcpus s v) \<noteq> None then upd_vcpu v (\<lambda>c. c\<lparr>v_vregs := None\<rparr>) s else s)"

definition g_arch_ops :: "riscv_config \<Rightarrow> string list \<Rightarrow> u64 \<Rightarrow> (nat \<Rightarrow> nat option) \<Rightarrow> arch_ops" where
  "g_arch_ops cfg drivers sink km = \<lparr>
     op_vcpu_create = Some (\<lambda>v s. case riscv_vcpu_create (vcpus s v) of (r, c) \<Rightarrow> (r, upd_vcpu v (\<lambda>_. c) s)),
     op_vcpu_destroy = Some riscv_vcpu_destroy,
     op_vcpu_init = Some (\<lambda>v entry stack s.
       (case arch_vcpu_init cfg drivers (\<lambda>i. km (3 + i) \<noteq> None) entry stack (vcpus s v) of
          None \<Rightarrow> None
        | Some (r, c) \<Rightarrow> Some (r, upd_vcpu v (\<lambda>_. c) (fold (\<lambda>i x. snd (kmalloc_event (km i) x)) [3, 4, 5] s)))),
     op_vcpu_task_init = Some (\<lambda>t desc stack s.
       (case t_vcpu (tasks s t) of
          None \<Rightarrow> None
        | Some v \<Rightarrow>
            (case riscv_vcpu_task_init cfg sink (d_entry desc) (d_arg0 desc) (d_arg1 desc) stack (vcpus s v) of
               (r, c) \<Rightarrow> Some (r, upd_vcpu v (\<lambda>_. c) s))))\<rparr>"

section \<open>Virtual CPUs and tasks\<close>

definition create_vcpu :: "arch_ops \<Rightarrow> nat option \<Rightarrow> int \<Rightarrow> int \<Rightarrow> rv \<Rightarrow> nat option \<times> rv" where
  "create_vcpu ops mem vid prio s =
     (case kmalloc_event mem s of
        (None, s1) \<Rightarrow> (None, s1)
      | (Some v, s1) \<Rightarrow>
          (let s2 = upd_vcpu v (\<lambda>_. zero_vcpu\<lparr>vcpu_id := vid, vcpu_priority := prio\<rparr>) s1
           in case op_vcpu_create ops of
                None \<Rightarrow> (Some v, s2)
              | Some f \<Rightarrow> (case f v s2 of (r, s3) \<Rightarrow> if r \<noteq> 0 then (None, kfree_event v s3) else (Some v, s3))))"

definition destroy_vcpu :: "arch_ops \<Rightarrow> nat option \<Rightarrow> rv \<Rightarrow> rv" where
  "destroy_vcpu ops vcpu s =
     (case vcpu of
        None \<Rightarrow> s
      | Some v \<Rightarrow> kfree_event v (case op_vcpu_destroy ops of None \<Rightarrow> s | Some f \<Rightarrow> f v s))"

text \<open>The name field holds 8 bytes, the last of them the terminator.\<close>

definition vm_task_copy_name :: "string option \<Rightarrow> hyper_task \<Rightarrow> hyper_task" where
  "vm_task_copy_name name task =
     (case name of None \<Rightarrow> task | Some n \<Rightarrow> task\<lparr>t_name := (if 8 \<le> length n then take 7 n else n)\<rparr>)"

definition VM_VCPU_TASK_STACK_SIZE :: u64 where
  "VM_VCPU_TASK_STACK_SIZE = 4096"

text \<open>\<open>vm_create_vcpu_task\<close> from the allocation of the stack on, with the task and its virtual CPU in place.\<close>

definition vm_task_start ::
    "arch_ops \<Rightarrow> nat option \<Rightarrow> int \<Rightarrow> nat \<Rightarrow> nat \<Rightarrow> vm_vcpu_task_desc \<Rightarrow> rv \<Rightarrow> (int \<times> rv) option" where
  "vm_task_start ops mem me task v desc s =
     (case kmalloc_event mem s of
        (None, s5) \<Rightarrow> Some (- 1, kfree_event task (destroy_vcpu ops (Some v) s5))
      | (Some stack_base, s5) \<Rightarrow>
          (let stack = of_nat stack_base + VM_VCPU_TASK_STACK_SIZE;
               release = (\<lambda>x. kfree_event task (destroy_vcpu ops (Some v) (kfree_event stack_base x)))
           in do {
             vcpu_init \<leftarrow> op_vcpu_init ops;
             vcpu_task_init \<leftarrow> op_vcpu_task_init ops;
             (r1, s6) \<leftarrow> vcpu_init v (d_entry desc) stack s5;
             (if r1 \<noteq> 0 then Some (- 1, release s6)
              else do {
                (r2, s7) \<leftarrow> vcpu_task_init task desc stack s6;
                (if r2 \<noteq> 0 then Some (- 1, release s7)
                 else Some (0, simple_scheduler_sched me task s7)) }) }))"

definition vm_create_vcpu_task ::
    "arch_ops \<Rightarrow> (nat \<Rightarrow> nat option) \<Rightarrow> int \<Rightarrow> vm_vcpu_task_desc option \<Rightarrow> rv \<Rightarrow> (int \<times> rv) option" where
  "vm_create_vcpu_task ops km me desc_ptr s =
     (case desc_ptr of None \<Rightarrow> Some (- 1, s) | Some desc \<Rightarrow>
        if op_vcpu_init ops = None \<or> op_vcpu_task_init ops = None then Some (- 1, s)
        else case kmalloc_event (km 0) s of
               (None, s1) \<Rightarrow> Some (- 1, s1)
             | (Some task, s1) \<Rightarrow>
                 (let s2 = upd_task task (\<lambda>_. vm_task_copy_name (d_name desc)
                         (zero_task\<lparr>t_priority := d_priority desc, t_id := g_vcpu_task_id s1, t_state := TASK_READY,
                            t_affinity := d_pcpu_affinity desc, t_mpidr := d_guest_cpu_id desc\<rparr>))
                       (s1\<lparr>g_vcpu_task_id := g_vcpu_task_id s1 + 1\<rparr>)
                  in case create_vcpu ops (km 1) (d_vcpu_id desc) (d_vcpu_priority desc) s2 of
                       (None, s3) \<Rightarrow> Some (- 1, kfree_event task s3)
                     | (Some v, s3) \<Rightarrow>
                         vm_task_start ops (km 2) me task v desc (upd_task task (\<lambda>t. t\<lparr>t_vcpu := Some v\<rparr>) s3)))"

definition riscv_create_guest_vcpu ::
    "arch_ops \<Rightarrow> (nat \<Rightarrow> nat option) \<Rightarrow> int \<Rightarrow> u64 \<Rightarrow> u64 \<Rightarrow> u64 \<Rightarrow> int \<Rightarrow> rv \<Rightarrow> (int \<times> rv) option" where
  "riscv_create_guest_vcpu ops km me hartid entry arg1 prio s =
     (let online = (if g_cpu_count s \<le> 0 then 1 else g_cpu_count s);
          affinity = uint hartid mod online
      in vm_create_vcpu_task ops km me
           (Some \<lparr>d_name = Some ''guest'', d_vcpu_id = sint (ucast hartid :: u32), d_priority = prio, d_vcpu_priority = prio,
              d_pcpu_affinity = affinity, d_entry = entry, d_arg0 = hartid, d_arg1 = arg1, d_guest_cpu_id = hartid,
              d_flags = 0\<rparr>) s)"

definition create_task :: "arch_ops \<Rightarrow> (nat \<Rightarrow> nat option) \<Rightarrow> int \<Rightarrow> riscv_config \<Rightarrow> u64 \<Rightarrow> int \<Rightarrow> rv \<Rightarrow> (int \<times> rv) option" where
  "create_task ops km me cfg entry prio s = riscv_create_guest_vcpu ops km me 0 entry (guest_dtb_addr cfg) prio s"

section \<open>Secondary harts\<close>

definition riscv_set_boot_hart_id :: "int \<Rightarrow> rv \<Rightarrow> rv" where
  "riscv_set_boot_hart_id hart s = s\<lparr>g_boot_hart_id := hart\<rparr>"

definition setup_scratch :: "u64 \<Rightarrow> int \<Rightarrow> rv \<Rightarrow> rv" where
  "setup_scratch stack_top cpu s =
     s\<lparr>g_scratch := (g_scratch s)(cpu := (word_of_int cpu, stack_top - word_of_int (cpu * 0x4000)))\<rparr>"

text \<open>One iteration of the loop of \<open>smp_boot_secondaries\<close>; \<open>hsm\<close> is the error code of the start request.\<close>

definition boot_hart :: "u64 \<Rightarrow> (int \<Rightarrow> int) \<Rightarrow> int \<Rightarrow> rv \<Rightarrow> rv" where
  "boot_hart stack_top hsm hart s =
     (if hart = g_boot_hart_id s then s
      else if CPU_NUM \<le> g_cpu_count s then s
      else let cpu = g_cpu_count s;
               s1 = emit (HartStart hart cpu) (setup_scratch stack_top cpu s)
           in if hsm hart \<noteq> 0 then s1
              else s1\<lparr>g_cpu_to_hart := (g_cpu_to_hart s1)(cpu := hart), g_cpu_count := g_cpu_count s1 + 1\<rparr>)"

definition smp_boot_secondaries :: "u64 \<Rightarrow> (int \<Rightarrow> int) \<Rightarrow> rv \<Rightarrow> rv" where
  "smp_boot_secondaries stack_top hsm s =
     (let s1 = s\<lparr>g_cpu_count := 1, g_cpu_to_hart := (g_cpu_to_hart s)(0 := g_boot_hart_id s)\<rparr>
      in fold (boot_hart stack_top hsm) [0, 1, 2, 3] (setup_scratch stack_top 0 s1))"

section \<open>Bookkeeping of allocations\<close>

text \<open>Allocations minus releases of each address.\<close>

fun net :: "effect list \<Rightarrow> nat \<Rightarrow> int" where
  "net [] p = 0"
| "net (KAlloc q # es) p = (if p = q then 1 else 0) + net es p"
| "net (KFree q # es) p = (if p = q then - 1 else 0) + net es p"
| "net (_ # es) p = net es p"

lemma net_append [simp]: "net (xs @ ys) p = net xs p + net ys p"
  by (induction xs p rule: net.induct) simp_all

definition balanced :: "rv \<Rightarrow> rv \<Rightarrow> bool" where
  "balanced s s' \<longleftrightarrow> net (effects s') = net (effects s)"

lemma balanced_refl [simp]: "balanced s s"
  by (simp add: balanced_def)

lemma balanced_trans: "balanced s s1 \<Longrightarrow> balanced s1 s2 \<Longrightarrow> balanced s s2"
  by (simp add: balanced_def)

text \<open>What creating a task promises to leave alone when it fails.\<close>

definition queues_kept :: "rv \<Rightarrow> rv \<Rightarrow> bool" where
  "queues_kept s s' \<longleftrightarrow> g_ready_list s' = g_ready_list s \<and> g_wait_list s' = g_wait_list s \<and>
     g_current_task s' = g_current_task s \<and> g_running s' = g_running s"

lemma same_frame_queues: "same_frame s s' \<Longrightarrow> queues_kept s s'"
  by (simp add: same_frame_def queues_kept_def)

lemma queues_kept_trans: "queues_kept s s1 \<Longrightarrow> queues_kept s1 s2 \<Longrightarrow> queues_kept s s2"
  by (simp add: queues_kept_def)

section \<open>The contract of the architecture operations\<close>

text \<open>
  None of the operations touches the queues or the tasks; only \<open>vcpu_init\<close> may allocate, and it
  releases what it allocated when it fails; \<open>vcpu_task_init\<close> does not fail.
\<close>

locale arch_ops_laws =
  fixes ops :: arch_ops
  assumes create_law: "op_vcpu_create ops = Some f \<Longrightarrow> f v s = (r, s') \<Longrightarrow> same_frame s s' \<and> balanced s s'"
    and destroy_law: "op_vcpu_destroy ops = Some g \<Longrightarrow> same_frame s (g v s) \<and> balanced s (g v s)"
    and init_law: "op_vcpu_init ops = Some h \<Longrightarrow> h v e st s = Some (r, s') \<Longrightarrow>
      same_frame s s' \<and> (r \<noteq> 0 \<longrightarrow> balanced s s')"
    and task_init_law: "op_vcpu_task_init ops = Some k \<Longrightarrow> k t d st s = Some (r, s') \<Longrightarrow> same_frame s s' \<and> r = 0"
begin

lemma create_vcpu_cases:
  assumes "create_vcpu ops mem vid prio s = (r, s')"
  shows "case r of None \<Rightarrow> same_frame s s' \<and> balanced s s'
    | Some v \<Rightarrow> mem = Some v \<and> same_frame s s' \<and> net (effects s') = (net (effects s))(v := net (effects s) v + 1)"
proof (cases mem)
  case None
  then show ?thesis using assms by (auto simp: create_vcpu_def kmalloc_event_def)
next
  case (Some v)
  define s2 where "s2 = upd_vcpu v (\<lambda>_. zero_vcpu\<lparr>vcpu_id := vid, vcpu_priority := prio\<rparr>) (emit (KAlloc v) s)"
  have s2: "same_frame s s2" "net (effects s2) = (net (effects s))(v := net (effects s) v + 1)"
    by (auto simp: s2_def same_frame_def fun_eq_iff)
  show ?thesis
  proof (cases "op_vcpu_create ops")
    case None
    then show ?thesis using assms Some s2 by (auto simp: create_vcpu_def kmalloc_event_def Let_def s2_def)
  next
    case (Some f)
    obtain q s3 where f: "f v s2 = (q, s3)" by (cases "f v s2")
    have "same_frame s s3" "balanced s2 s3" using create_law [OF Some f] s2(1) by (auto intro: same_frame_trans)
    then show ?thesis using assms \<open>mem = Some v\<close> Some f s2
      by (auto simp: create_vcpu_def kmalloc_event_def Let_def s2_def [symmetric] kfree_event_def balanced_def fun_eq_iff
          same_frame_def split: if_splits)
  qed
qed

lemma destroy_vcpu_law:
  "same_frame s (destroy_vcpu ops (Some v) s) \<and>
   net (effects (destroy_vcpu ops (Some v) s)) = (net (effects s))(v := net (effects s) v - 1)"
  using destroy_law [of _ s v]
  by (cases "op_vcpu_destroy ops") (auto simp: destroy_vcpu_def kfree_event_def balanced_def same_frame_def fun_eq_iff)

lemma vm_task_start_outcome:
  assumes run: "vm_task_start ops mem me task v d s = Some (r, s')"
  shows "r = - 1 \<and> queues_kept s s' \<and>
      net (effects s') = (\<lambda>p. net (effects s) p - (if p = v then 1 else 0) - (if p = task then 1 else 0)) \<or>
    r = 0 \<and> (\<exists>stk. mem = Some stk) \<and> tasks s' = tasks s \<and> g_current_task s' = g_current_task s \<and>
      g_ready_list s' = insert_prio (prio_of s) task (g_ready_list s)"
proof (cases mem)
  case None
  then have "r = - 1" "s' = kfree_event task (destroy_vcpu ops (Some v) s)"
    using run by (auto simp: vm_task_start_def kmalloc_event_def)
  then show ?thesis using destroy_vcpu_law [of s v] by (auto simp: kfree_event_def queues_kept_def same_frame_def)
next
  case (Some stk)
  define s5 where "s5 = emit (KAlloc stk) s"
  define stack where "stack = of_nat stk + VM_VCPU_TASK_STACK_SIZE"
  obtain h k r1 s6 where ops: "op_vcpu_init ops = Some h" "op_vcpu_task_init ops = Some k"
    and i: "h v (d_entry d) stack s5 = Some (r1, s6)"
    using run Some by (auto simp: vm_task_start_def kmalloc_event_def Let_def s5_def stack_def Option.bind_eq_Some_conv)
  note I = init_law [OF ops(1) i]
  show ?thesis
  proof (cases "r1 = 0")
    case False
    have "r = - 1" "s' = kfree_event task (destroy_vcpu ops (Some v) (kfree_event stk s6))"
      using run Some ops i False by (auto simp: vm_task_start_def kmalloc_event_def Let_def s5_def [symmetric] stack_def [symmetric])
    then show ?thesis using I False destroy_vcpu_law [of "kfree_event stk s6" v]
      by (auto simp: kfree_event_def balanced_def queues_kept_def same_frame_def s5_def fun_eq_iff)
  next
    case True
    obtain r2 s7 where j: "k task d stack s6 = Some (r2, s7)"
      using run Some ops i True
      by (auto simp: vm_task_start_def kmalloc_event_def Let_def s5_def [symmetric] stack_def [symmetric] Option.bind_eq_Some_conv)
    note J = task_init_law [OF ops(2) j]
    have "r = 0" "s' = simple_scheduler_sched me task s7"
      using run Some ops i j True J by (auto simp: vm_task_start_def kmalloc_event_def Let_def s5_def [symmetric] stack_def [symmetric])
    then show ?thesis using I J Some by (auto simp: sched_frame same_frame_def s5_def)
  qed
qed

lemma vm_create_outcome:
  assumes run: "vm_create_vcpu_task ops km me (Some d) s = Some (r, s')"
  shows "r = - 1 \<and> queues_kept s s' \<and> balanced s s' \<or>
    r = 0 \<and> (\<exists>task v stk. km 0 = Some task \<and> km 1 = Some v \<and> km 2 = Some stk \<and>
      g_ready_list s' = insert_prio (prio_of s') task (g_ready_list s) \<and> g_current_task s' = g_current_task s \<and>
      t_priority (tasks s' task) = d_priority d \<and> t_affinity (tasks s' task) = d_pcpu_affinity d \<and>
      t_mpidr (tasks s' task) = d_guest_cpu_id d \<and> t_vcpu (tasks s' task) = Some v)"
proof (cases "op_vcpu_init ops = None \<or> op_vcpu_task_init ops = None \<or> km 0 = None")
  case True
  then show ?thesis using run by (auto simp: vm_create_vcpu_task_def kmalloc_event_def queues_kept_def split: if_splits)
next
  case False
  then obtain task where ops: "op_vcpu_init ops \<noteq> None" "op_vcpu_task_init ops \<noteq> None" and task: "km 0 = Some task" by auto
  define rec where "rec = vm_task_copy_name (d_name d) (zero_task\<lparr>t_priority := d_priority d, t_id := g_vcpu_task_id s,
      t_state := TASK_READY, t_affinity := d_pcpu_affinity d, t_mpidr := d_guest_cpu_id d\<rparr>)"
  define s2 where "s2 = upd_task task (\<lambda>_. rec) ((emit (KAlloc task) s)\<lparr>g_vcpu_task_id := g_vcpu_task_id s + 1\<rparr>)"
  obtain vr s3 where cv: "create_vcpu ops (km 1) (d_vcpu_id d) (d_vcpu_priority d) s2 = (vr, s3)" by fastforce
  note C = create_vcpu_cases [OF cv]
  have s2: "queues_kept s s2" "net (effects s2) = (\<lambda>p. net (effects s) p + (if p = task then 1 else 0))" "tasks s2 task = rec"
    by (simp_all add: s2_def queues_kept_def fun_eq_iff)
  have t: "t_priority rec = d_priority d" "t_affinity rec = d_pcpu_affinity d" "t_mpidr rec = d_guest_cpu_id d"
    by (simp_all add: rec_def vm_task_copy_name_def split: option.split)
  have run2: "Some (r, s') = (case vr of None \<Rightarrow> Some (- 1, kfree_event task s3)
      | Some v \<Rightarrow> vm_task_start ops (km 2) me task v d (upd_task task (\<lambda>t. t\<lparr>t_vcpu := Some v\<rparr>) s3))"
    using run ops task cv by (simp add: vm_create_vcpu_task_def kmalloc_event_def s2_def rec_def Let_def emit_def split: option.split)
  show ?thesis
  proof (cases vr)
    case None
    with run2 C s2 show ?thesis by (auto simp: kfree_event_def balanced_def queues_kept_def same_frame_def fun_eq_iff)
  next
    case (Some v)
    define s4 where "s4 = upd_task task (\<lambda>t. t\<lparr>t_vcpu := Some v\<rparr>) s3"
    have s4: "queues_kept s s4" "km 1 = Some v" "tasks s4 task = rec\<lparr>t_vcpu := Some v\<rparr>"
      "net (effects s4) = (net (effects s2))(v := net (effects s2) v + 1)"
      using C Some s2 by (auto simp: s4_def queues_kept_def same_frame_def)
    have "vm_task_start ops (km 2) me task v d s4 = Some (r, s')" using run2 Some by (simp add: s4_def)
    from vm_task_start_outcome [OF this] s4 s2 t task show ?thesis
      by (elim disjE) (auto simp: queues_kept_def balanced_def fun_eq_iff)
  qed
qed

end

section \<open>The RISC-V instance\<close>

lemma arch_vcpu_init_zero: "arch_vcpu_init cfg drivers ok e st c = Some (r, c') \<Longrightarrow> r = 0"
  by (auto simp: arch_vcpu_init_def Let_def split: if_splits)

lemma kmalloc_frame: "same_frame s (snd (kmalloc_event r s))"
  by (simp add: kmalloc_event_def same_frame_def split: option.split)

interpretation rops: arch_ops_laws "g_arch_ops cfg drivers sink km" for cfg drivers sink km
proof unfold_locales
  fix h :: "nat \<Rightarrow> u64 \<Rightarrow> u64 \<Rightarrow> rv \<Rightarrow> (int \<times> rv) option" and v e st s r s'
  assume "op_vcpu_init (g_arch_ops cfg drivers sink km) = Some h" "h v e st s = Some (r, s')"
  then obtain c where i: "arch_vcpu_init cfg drivers (\<lambda>i. km (3 + i) \<noteq> None) e st (vcpus s v) = Some (r, c)"
    and s': "s' = upd_vcpu v (\<lambda>_. c) (fold (\<lambda>i x. snd (kmalloc_event (km i) x)) [3, 4, 5] s)"
    by (auto simp: g_arch_ops_def split: option.splits)
  have "same_frame s (fold (\<lambda>i x. snd (kmalloc_event (km i) x)) is s)" for "is"
    by (induction "is" arbitrary: s) (auto intro: same_frame_trans [OF kmalloc_frame])
  then show "same_frame s s' \<and> (r \<noteq> 0 \<longrightarrow> balanced s s')"
    using arch_vcpu_init_zero [OF i] unfolding s' by (blast intro: same_frame_trans)
qed (auto simp: g_arch_ops_def riscv_vcpu_create_def riscv_vcpu_destroy_def riscv_vcpu_task_init_def Let_def
      same_frame_def balanced_def split: option.splits prod.splits)

text \<open>Where execution of a new task begins.\<close>

lemma riscv_vm_create:
  assumes "km 0 = Some task" "km 1 = Some v" "km 2 = Some stk" "km 3 \<noteq> None" "km 4 \<noteq> None" "km 5 \<noteq> None"
    and run: "vm_create_vcpu_task (g_arch_ops cfg drivers sink km) km me (Some d) s = Some (r, s')"
  shows "r = 0" "sepc (v_regs (vcpus s' v)) = d_entry d" "ra (v_regs (vcpus s' v)) = sink"
    "sp (v_regs (vcpus s' v)) = of_nat stk + 4096" "a0 (v_regs (vcpus s' v)) = d_arg0 d" "a1 (v_regs (vcpus s' v)) = d_arg1 d"
    "v_hstatus (vcpus s' v) = HSTATUS_VS" "vcpu_id (vcpus s' v) = d_vcpu_id d"
  using assms
  by (auto simp: vm_create_vcpu_task_def vm_task_start_def create_vcpu_def kmalloc_event_def g_arch_ops_def Let_def
      riscv_vcpu_create_def riscv_vcpu_task_init_def arch_vcpu_init_def VM_VCPU_TASK_STACK_SIZE_def sched_vcpus)

lemma riscv_vm_create_returns:
  "vm_create_vcpu_task (g_arch_ops cfg drivers sink km) km me (Some d) s = None \<longleftrightarrow>
     km 0 \<noteq> None \<and> km 1 \<noteq> None \<and> km 2 \<noteq> None \<and> (km 3 = None \<or> km 4 = None \<or> km 5 = None)"
  by (cases "km 0"; cases "km 1"; cases "km 2")
    (auto simp: vm_create_vcpu_task_def vm_task_start_def create_vcpu_def kmalloc_event_def g_arch_ops_def Let_def
      riscv_vcpu_create_def riscv_vcpu_task_init_def arch_vcpu_init_def eval_nat_numeral)

section \<open>Properties\<close>



section \<open>Starting the harts\<close>

text \<open>
  The CPU table after the requests for some of the harts: it lists the boot hart and then the harts
  started so far, in order.
\<close>

definition cpu_table :: "rv \<Rightarrow> int list \<Rightarrow> bool" where
  "cpu_table s hs \<longleftrightarrow> g_cpu_count s = int (length hs) \<and> (\<forall>i < length hs. g_cpu_to_hart s (int i) = hs ! i \<and>
     fst (g_scratch s (int i)) = of_nat i)"

lemma boot_hart_table:
  assumes "cpu_table s hs"
  shows "cpu_table (boot_hart tos hsm hart s)
      (if hart \<noteq> g_boot_hart_id s \<and> length hs < 4 \<and> hsm hart = 0 then hs @ [hart] else hs)"
    "g_boot_hart_id (boot_hart tos hsm hart s) = g_boot_hart_id s"
  using assms by (auto simp: boot_hart_def cpu_table_def CPU_NUM_def setup_scratch_def Let_def emit_def nth_append less_Suc_eq)

lemma boot_harts_table:
  assumes "cpu_table s hs" "length hs + length (filter (\<lambda>h. h \<noteq> g_boot_hart_id s \<and> hsm h = 0) xs) \<le> 4"
  shows "cpu_table (fold (boot_hart tos hsm) xs s) (hs @ filter (\<lambda>h. h \<noteq> g_boot_hart_id s \<and> hsm h = 0) xs)"
  using assms
proof (induction xs arbitrary: s hs)
  case (Cons h xs)
  note B = boot_hart_table [OF Cons.prems(1), of tos hsm h]
  from Cons.IH [OF B(1)] Cons.prems(2) show ?case by (cases "h \<noteq> g_boot_hart_id s \<and> hsm h = 0") (auto simp: B(2))
qed simp

text \<open>
  The boot loop numbers the CPUs consistently: provided the boot hart is one of the four harts, the
  table ends with the boot hart as CPU 0 followed by exactly the harts the firmware agreed to start, in
  increasing order, each once; and each CPU finds its own number in its scratch area.
\<close>

theorem smp_boot_table:
  assumes "0 \<le> g_boot_hart_id s" "g_boot_hart_id s < CPU_NUM"
  shows "cpu_table (smp_boot_secondaries tos hsm s)
      (g_boot_hart_id s # filter (\<lambda>h. h \<noteq> g_boot_hart_id s \<and> hsm h = 0) [0, 1, 2, 3]) \<and>
    distinct (g_boot_hart_id s # filter (\<lambda>h. h \<noteq> g_boot_hart_id s \<and> hsm h = 0) [0, 1, 2, 3])"
proof -
  define s1 where "s1 = setup_scratch tos 0 (s\<lparr>g_cpu_count := 1, g_cpu_to_hart := (g_cpu_to_hart s)(0 := g_boot_hart_id s)\<rparr>)"
  have b: "g_boot_hart_id s1 = g_boot_hart_id s" by (simp add: s1_def setup_scratch_def)
  have "cpu_table s1 [g_boot_hart_id s]" by (simp add: cpu_table_def s1_def setup_scratch_def)
  moreover have "g_boot_hart_id s \<in> {0, 1, 2, 3}" using assms by (auto simp: CPU_NUM_def)
  ultimately show ?thesis using boot_harts_table [of s1 "[g_boot_hart_id s]" hsm "[0, 1, 2, 3]" tos]
    by (auto simp: smp_boot_secondaries_def Let_def s1_def [symmetric] b simp del: fold_simps)
qed

theorem smp_boot_table_witness:
  "cpu_table (smp_boot_secondaries 0x9000 (\<lambda>h. if h = 1 then - 3 else 0) (riscv_set_boot_hart_id 2 zero_rv)) [2, 0, 3]"
  using smp_boot_table [of "riscv_set_boot_hart_id 2 zero_rv" "0x9000" "\<lambda>h. if h = 1 then - 3 else 0"]
  by (simp add: riscv_set_boot_hart_id_def CPU_NUM_def)

end
