(* ===== verification/Riscv_Sbi.thy ===== *)
theory Riscv_Sbi
  imports Riscv_Sched
begin

text \<open>
  The supervisor binary interface offered to guests (\<^verbatim>\<open>src/arch/riscv64/riscv_sbi_manager.c\<close>): the walk of the
  guest's own page tables that reads its arguments, inter-processor interrupts, remote fences, timers,
  the console, and the dispatch of the calls.

  What the calls read from outside is an argument of type \<open>sbi_env\<close>: the doublewords and bytes of
  memory as the hypervisor sees them, the firmware's answer to a forwarded call, the time base and what
  the waiting loops of remote fences observe. A call that waits and is given too few observations is
  \<open>None\<close>.
\<close>

section \<open>Model\<close>

record sbi_env =
  e_mem64 :: "u64 \<Rightarrow> u64"
  e_mem8 :: "u64 \<Rightarrow> u8"
  e_fw :: "u64 \<Rightarrow> u64 list \<Rightarrow> u64 \<times> u64"
  e_tb :: u32
  e_obs :: "int \<Rightarrow> (u32 \<times> u64) list"

subsection \<open>Reading guest memory\<close>

definition PPN_MASK :: u64 where
  "PPN_MASK = push_bit 44 1 - 1"

definition pte_next :: "u64 \<Rightarrow> u64" where
  "pte_next pte = push_bit 12 (drop_bit 10 pte AND PPN_MASK)"

definition page_off_mask :: "nat \<Rightarrow> u64" where
  "page_off_mask level = push_bit (12 + 9 * level) 1 - 1"

definition pte_of :: "(u64 \<Rightarrow> u64) \<Rightarrow> u64 \<Rightarrow> u64 \<Rightarrow> nat \<Rightarrow> u64" where
  "pte_of mem64 va table level = mem64 (table + 8 * (drop_bit (12 + 9 * level) va AND 0x1ff))"

definition pte_bad :: "u64 \<Rightarrow> bool" where
  "pte_bad pte \<longleftrightarrow> \<not> bit pte 0 \<or> bit pte 2 \<and> \<not> bit pte 1"

definition pte_leaf :: "u64 \<Rightarrow> bool" where
  "pte_leaf pte \<longleftrightarrow> bit pte 1 \<or> bit pte 3"

text \<open>The loop of \<open>guest_va_to_pa\<close> from \<open>level\<close> down to 0.\<close>

fun pt_walk :: "(u64 \<Rightarrow> u64) \<Rightarrow> u64 \<Rightarrow> u64 \<Rightarrow> nat \<Rightarrow> u64 option" where
  "pt_walk mem64 va table level =
     (let pte = pte_of mem64 va table level
      in if pte_bad pte then None
         else if pte_leaf pte then Some (pte_next pte OR (va AND page_off_mask level))
         else (case level of 0 \<Rightarrow> None | Suc l \<Rightarrow> pt_walk mem64 va (pte_next pte) l))"

declare pt_walk.simps [simp del]

definition guest_va_to_pa :: "(u64 \<Rightarrow> u64) \<Rightarrow> u64 \<Rightarrow> u64 \<Rightarrow> u64 option" where
  "guest_va_to_pa mem64 satp va =
     (let mode = drop_bit 60 satp; root = push_bit 12 (satp AND PPN_MASK)
      in if mode = 0 then Some va
         else if mode = 8 then pt_walk mem64 va root 2
         else if mode = 9 then pt_walk mem64 va root 3
         else None)"

fun read_bytes_va :: "sbi_env \<Rightarrow> u64 \<Rightarrow> u64 \<Rightarrow> nat list \<Rightarrow> u64 \<Rightarrow> u64 option" where
  "read_bytes_va env satp va [] v = Some v"
| "read_bytes_va env satp va (i # is) v =
     (case guest_va_to_pa (e_mem64 env) satp (va + of_nat i) of
        None \<Rightarrow> None
      | Some pa \<Rightarrow> read_bytes_va env satp va is (v OR push_bit (i * 8) (ucast (e_mem8 env pa))))"

definition guest_read_u64_va :: "sbi_env \<Rightarrow> u64 \<Rightarrow> u64 \<Rightarrow> u64 option" where
  "guest_read_u64_va env satp va = read_bytes_va env satp va [0, 1, 2, 3, 4, 5, 6, 7] 0"

subsection \<open>Interrupts and fences\<close>

definition inject_guest_soft_irq :: "int \<Rightarrow> u64 \<Rightarrow> rv \<Rightarrow> rv" where
  "inject_guest_soft_irq me hartid s =
     (case riscv_find_guest_vcpu hartid s of
        None \<Rightarrow> s
      | Some t \<Rightarrow>
          (case t_vcpu (tasks s t) of
             None \<Rightarrow> s
           | Some v \<Rightarrow>
               (let s1 = riscv_virt_irq_assert me (Some v) IRQ_VS_SOFT s
                in if Some t \<noteq> current_task me s1 \<and> 0 \<le> t_affinity (tasks s1 t)
                   then ipi_send_reschedule (t_affinity (tasks s1 t)) s1 else s1)))"

definition clear_guest_soft_irq :: "int \<Rightarrow> rv \<Rightarrow> rv" where
  "clear_guest_soft_irq me s =
     (case riscv_current_vcpu me s of None \<Rightarrow> s | Some v \<Rightarrow> riscv_virt_irq_clear me (Some v) IRQ_VS_SOFT s)"

definition all_harts_mask :: "nat \<Rightarrow> u64" where
  "all_harts_mask n = (if 64 \<le> n then NOT 0 else push_bit n 1 - 1)"

definition inject_masked :: "int \<Rightarrow> u64 \<Rightarrow> rv \<Rightarrow> rv" where
  "inject_masked me m s =
     fold (\<lambda>hart x. if bit m hart then inject_guest_soft_irq me (of_nat hart) x else x) [0..<min (guest_vcpu_count s) 64] s"

definition handle_legacy_send_ipi :: "sbi_env \<Rightarrow> int \<Rightarrow> cpu_user_regs \<Rightarrow> rv \<Rightarrow> cpu_user_regs \<times> rv" where
  "handle_legacy_send_ipi env me args s =
     (if a0 args = 0 then (set_slot 10 0 args, inject_masked me (all_harts_mask (guest_vcpu_count s)) s)
      else case guest_read_u64_va env (vsatp (harts s me)) (a0 args) of
             None \<Rightarrow> (set_slot 10 0 args, s)
           | Some m \<Rightarrow> (set_slot 10 0 args, inject_masked me m s))"

definition inject_based :: "int \<Rightarrow> u64 \<Rightarrow> u64 \<Rightarrow> nat \<Rightarrow> rv \<Rightarrow> rv" where
  "inject_based me m base b s =
     (if \<not> bit m b then s
      else let hart = base + of_nat b
           in if hart < of_nat (guest_vcpu_count s) then inject_guest_soft_irq me hart s else s)"

definition handle_sbi_send_ipi :: "int \<Rightarrow> cpu_user_regs \<Rightarrow> rv \<Rightarrow> cpu_user_regs \<times> rv" where
  "handle_sbi_send_ipi me args s =
     (let m = a0 args; base = a1 args;
          s1 = (if base = - 1
                then fold (\<lambda>hart. inject_guest_soft_irq me (of_nat hart)) [0..<guest_vcpu_count s] s
                else fold (inject_based me m base) [0..<64] s)
      in (set_slot 11 0 (set_slot 10 0 args), s1))"

datatype riscv_fence_kind = FENCE_I | HFENCE_VVMA | HFENCE_VVMA_ASID | HFENCE_GVMA | HFENCE_GVMA_VMID

definition SBI_ERR_INVALID_ADDRESS :: u64 where "SBI_ERR_INVALID_ADDRESS = - 5"
definition SBI_ERR_NOT_SUPPORTED :: u64 where "SBI_ERR_NOT_SUPPORTED = - 2"

text \<open>The kind of a fence does not matter to \<open>riscv_remote_fence\<close>, which always flushes everything.\<close>

definition handle_legacy_remote_fence ::
    "sbi_env \<Rightarrow> int \<Rightarrow> cpu_user_regs \<Rightarrow> riscv_fence_kind \<Rightarrow> rv \<Rightarrow> (u64 \<times> rv) option" where
  "handle_legacy_remote_fence env me args kind s =
     (let go = (\<lambda>m. map_option (\<lambda>(r, x). (word_of_int r, x)) (riscv_remote_fence (e_tb env) me (e_obs env) m 0 s))
      in if a0 args = 0 then go (all_harts_mask (guest_vcpu_count s))
         else case guest_read_u64_va env (vsatp (harts s me)) (a0 args) of
                None \<Rightarrow> Some (SBI_ERR_INVALID_ADDRESS, s)
              | Some m \<Rightarrow> go m)"

definition rfence_kind_from_fid :: "u64 \<Rightarrow> riscv_fence_kind option" where
  "rfence_kind_from_fid fid =
     (if fid = 0 then Some FENCE_I
      else if fid = 4 then Some HFENCE_GVMA
      else if fid = 3 then Some HFENCE_GVMA_VMID
      else if fid = 5 \<or> fid = 2 then Some HFENCE_VVMA_ASID
      else if fid = 6 \<or> fid = 1 then Some HFENCE_VVMA
      else None)"

subsection \<open>Dispatch\<close>

abbreviation (input) "SBI_EXT_BASE \<equiv> 0x10::u64"
abbreviation (input) "SBI_EXT_TIME \<equiv> 0x54494D45::u64"
abbreviation (input) "SBI_EXT_IPI \<equiv> 0x735049::u64"
abbreviation (input) "SBI_EXT_RFENCE \<equiv> 0x52464E43::u64"
abbreviation (input) "SBI_EXT_HSM \<equiv> 0x48534D::u64"

definition riscv_sbi_extension_supported :: "u64 \<Rightarrow> bool" where
  "riscv_sbi_extension_supported e \<longleftrightarrow> e = SBI_EXT_BASE \<or> e = SBI_EXT_TIME \<or> e = SBI_EXT_IPI \<or> e = SBI_EXT_RFENCE"

definition handle_base_extension :: "sbi_env \<Rightarrow> cpu_user_regs \<Rightarrow> u64 \<Rightarrow> cpu_user_regs" where
  "handle_base_extension env args fid =
     (if fid = 3
      then set_slot 10 0 (set_slot 11 (if riscv_sbi_extension_supported (a0 args) then 1 else 0) args)
      else case e_fw env fid [a0 args, a1 args, slot args 12, slot args 13, slot args 14, slot args 15] of
             (err, val) \<Rightarrow> set_slot 11 val (set_slot 10 err args))"

definition ret2 :: "u64 \<Rightarrow> cpu_user_regs \<Rightarrow> cpu_user_regs" where
  "ret2 err args = set_slot 11 0 (set_slot 10 err args)"

definition legacy_fence :: "sbi_env \<Rightarrow> int \<Rightarrow> cpu_user_regs \<Rightarrow> riscv_fence_kind \<Rightarrow> rv \<Rightarrow> (cpu_user_regs \<times> rv) option" where
  "legacy_fence env me args kind s =
     map_option (\<lambda>(r, x). (set_slot 10 r args, x)) (handle_legacy_remote_fence env me args kind s)"

definition sbi_dispatch :: "sbi_env \<Rightarrow> int \<Rightarrow> cpu_user_regs \<Rightarrow> rv \<Rightarrow> (cpu_user_regs \<times> rv) option" where
  "sbi_dispatch env me args s =
     (let ext = a7 args; fid = a6 args
      in if ext = 1 then Some (set_slot 10 0 args, emit (ConsolePut (ucast (a0 args))) s)
         else if ext = 8 then Some (set_slot 10 0 args, emit (ConsoleMsg ''guest shutdown requested'') s)
         else if ext = 0 then Some (set_slot 10 0 args, riscv_vcpu_timer_arm_current me (a0 args) s)
         else if ext = 3 then Some (set_slot 10 0 args, clear_guest_soft_irq me s)
         else if ext = 4 then Some (handle_legacy_send_ipi env me args s)
         else if ext = 5 then legacy_fence env me args FENCE_I s
         else if ext = 6 then legacy_fence env me args HFENCE_VVMA s
         else if ext = 7 then legacy_fence env me args HFENCE_VVMA_ASID s
         else if ext = SBI_EXT_BASE then Some (handle_base_extension env args fid, s)
         else if ext = SBI_EXT_IPI then
           (if fid = 0 then Some (handle_sbi_send_ipi me args s) else Some (ret2 SBI_ERR_NOT_SUPPORTED args, s))
         else if ext = SBI_EXT_RFENCE then
           (case rfence_kind_from_fid fid of
              None \<Rightarrow> Some (ret2 SBI_ERR_NOT_SUPPORTED args, s)
            | Some kind \<Rightarrow>
                map_option (\<lambda>(r, x). (ret2 (word_of_int r) args, x))
                  (riscv_remote_fence (e_tb env) me (e_obs env) (a0 args) (a1 args) s))
         else if ext = SBI_EXT_TIME then
           (if fid = 0 then Some (ret2 0 args, riscv_vcpu_timer_arm_current me (a0 args) s)
            else Some (ret2 SBI_ERR_NOT_SUPPORTED args, s))
         else if ext = SBI_EXT_HSM then Some (ret2 SBI_ERR_NOT_SUPPORTED args, s)
         else Some (ret2 (- 1) args, s))"

definition riscv_sbi_handle_vs_ecall :: "sbi_env \<Rightarrow> int \<Rightarrow> cpu_user_regs \<Rightarrow> rv \<Rightarrow> (cpu_user_regs \<times> rv) option" where
  "riscv_sbi_handle_vs_ecall env me args s =
     map_option (\<lambda>(r, x). (set_slot 0 (sepc r + 4) r, x)) (sbi_dispatch env me args s)"

section \<open>Page-table walk\<close>

text \<open>The leaf entry a walk reaches, and the level it sits at.\<close>

inductive sv_leaf :: "(u64 \<Rightarrow> u64) \<Rightarrow> u64 \<Rightarrow> u64 \<Rightarrow> nat \<Rightarrow> u64 \<Rightarrow> nat \<Rightarrow> bool" for mem64 va where
  here: "pte = pte_of mem64 va table level \<Longrightarrow> \<not> pte_bad pte \<Longrightarrow> pte_leaf pte \<Longrightarrow> sv_leaf mem64 va table level pte level"
| down: "p = pte_of mem64 va table (Suc level) \<Longrightarrow> \<not> pte_bad p \<Longrightarrow> \<not> pte_leaf p \<Longrightarrow>
    sv_leaf mem64 va (pte_next p) level pte l \<Longrightarrow> sv_leaf mem64 va table (Suc level) pte l"

inductive_cases sv_leafE: "sv_leaf mem64 va table level pte l"

lemma pt_walk_leaf:
  "pt_walk mem64 va table level = Some pa \<longleftrightarrow>
     (\<exists>pte l. sv_leaf mem64 va table level pte l \<and> pa = pte_next pte OR (va AND page_off_mask l))"
proof (induction level arbitrary: table)
  case 0
  show ?case by (subst pt_walk.simps) (auto simp: Let_def intro: here elim: sv_leafE)
next
  case (Suc level)
  show ?case by (subst pt_walk.simps) (auto simp: Let_def Suc intro: here down elim: sv_leafE)
qed

lemma sv_leaf_level: "sv_leaf mem64 va table level pte l \<Longrightarrow> l \<le> level"
  by (induction rule: sv_leaf.induct) auto

text \<open>An aligned superpage has no address bits below its size.\<close>

definition leaf_aligned :: "u64 \<Rightarrow> nat \<Rightarrow> bool" where
  "leaf_aligned pte l \<longleftrightarrow> pte_next pte AND page_off_mask l = 0"

lemma page_off_mask_mask: "12 + 9 * l < 64 \<Longrightarrow> page_off_mask l = mask (12 + 9 * l)"
  by (simp add: page_off_mask_def mask_eq_exp_minus_1 push_bit_eq_mult)

lemma leaf_address:
  assumes "leaf_aligned pte l" "l \<le> 3"
  shows "pte_next pte OR (va AND page_off_mask l) = pte_next pte + (va AND page_off_mask l)"
    "unat (va AND page_off_mask l) = unat va mod 2 ^ (12 + 9 * l)"
proof -
  have m: "page_off_mask l = mask (12 + 9 * l)" using assms(2) by (intro page_off_mask_mask) simp
  have "pte_next pte AND (va AND page_off_mask l) = 0"
    using assms(1) by (simp add: leaf_aligned_def and.left_commute)
  then show "pte_next pte OR (va AND page_off_mask l) = pte_next pte + (va AND page_off_mask l)"
    by (simp add: disjunctive_add_eq_or)
  show "unat (va AND page_off_mask l) = unat va mod 2 ^ (12 + 9 * l)"
    unfolding m take_bit_eq_mask [symmetric] using assms(2)
    by (simp add: unsigned_take_bit_eq take_bit_nat_def)
qed

section \<open>Delivery of software interrupts\<close>

lemma inject_frame: "same_frame s (inject_guest_soft_irq me h s)"
proof -
  have "same_frame s (ipi_send_cpu x y (riscv_virt_irq_assert me v i s))" for x y v i
    by (rule same_frame_trans [OF virt_irq_frame(1) ipi_frame(1)])
  then show ?thesis
    by (auto simp: inject_guest_soft_irq_def Let_def ipi_send_reschedule_def virt_irq_frame(1) split: option.split)
qed

definition hart_vcpu :: "rv \<Rightarrow> u64 \<Rightarrow> nat \<Rightarrow> bool" where
  "hart_vcpu s h v \<longleftrightarrow> (\<exists>t. riscv_find_guest_vcpu h s = Some t \<and> t_vcpu (tasks s t) = Some v)"

lemma hart_vcpu_frame: "same_frame s s' \<Longrightarrow> hart_vcpu s' h v = hart_vcpu s h v"
  by (simp add: hart_vcpu_def same_frame_find) (simp add: same_frame_def)

lemma inject_line:
  "virt_line (inject_guest_soft_irq me h s) v i \<longleftrightarrow> i = IRQ_VS_SOFT \<and> hart_vcpu s h v \<or> virt_line s v i"
  by (auto simp: inject_guest_soft_irq_def hart_vcpu_def Let_def ipi_send_reschedule_def lines.line_raise split: option.splits)

lemma inject_fold:
  "same_frame s (fold (\<lambda>x y. if P x then inject_guest_soft_irq me (f x) y else y) xs s) \<and>
   (virt_line (fold (\<lambda>x y. if P x then inject_guest_soft_irq me (f x) y else y) xs s) v i \<longleftrightarrow>
     i = IRQ_VS_SOFT \<and> (\<exists>x \<in> set xs. P x \<and> hart_vcpu s (f x) v) \<or> virt_line s v i)"
proof (induction xs arbitrary: s)
  case (Cons x xs)
  have "same_frame s (if P x then inject_guest_soft_irq me (f x) s else s)" by (simp add: inject_frame)
  with Cons [of "if P x then inject_guest_soft_irq me (f x) s else s"] show ?case
    by (auto simp: inject_line hart_vcpu_frame intro: same_frame_trans)
qed simp

lemma inject_based_eq:
  assumes "same_frame s x"
  shows "inject_based me m base b x =
    (if bit m b \<and> base + of_nat b < of_nat (guest_vcpu_count s) then inject_guest_soft_irq me (base + of_nat b) x else x)"
  using assms by (simp add: inject_based_def Let_def same_frame_def)

lemma inject_based_fold:
  assumes "same_frame s x"
  shows "fold (inject_based me m base) bs x = fold (\<lambda>b y. if bit m b \<and> base + of_nat b < of_nat (guest_vcpu_count s)
    then inject_guest_soft_irq me (base + of_nat b) y else y) bs x"
  using assms
proof (induction bs arbitrary: x)
  case (Cons b bs)
  have "same_frame s (inject_based me m base b x)"
    using Cons.prems by (auto simp: inject_based_eq intro: same_frame_trans inject_frame)
  with Cons show ?case by (simp add: inject_based_eq)
qed simp

section \<open>Properties\<close>



text \<open>
  Inter-processor interrupts between guest harts reach exactly their targets: the call raises the
  software-interrupt line of the virtual CPUs of the harts it names (all harts, or those selected by the
  mask relative to the base, below the number of harts of the guest) and changes no other line; it
  reports success.
\<close>

theorem sbi_send_ipi_targets:
  assumes "guest_vcpu_count s < 2 ^ 32"
  shows "case handle_sbi_send_ipi me args s of (args', s') \<Rightarrow>
    a0 args' = 0 \<and> a1 args' = 0 \<and>
    (virt_line s' v i \<longleftrightarrow> virt_line s v i \<or> i = IRQ_VS_SOFT \<and>
       (\<exists>hart. unat hart < guest_vcpu_count s \<and> hart_vcpu s hart v \<and>
          (a1 args = - 1 \<or> (\<exists>b < 64. bit (a0 args) b \<and> hart = a1 args + of_nat b))))"
proof -
  have n: "unat (of_nat (guest_vcpu_count s) :: u64) = guest_vcpu_count s"
    using assms by (intro unat_of_nat_small) simp
  show ?thesis
  proof (cases "a1 args = - 1")
    case True
    have "(\<exists>x < guest_vcpu_count s. hart_vcpu s (of_nat x) v) \<longleftrightarrow> (\<exists>h. unat h < guest_vcpu_count s \<and> hart_vcpu s h v)"
    proof
      assume "\<exists>x < guest_vcpu_count s. hart_vcpu s (of_nat x) v"
      then obtain x where "x < guest_vcpu_count s" "hart_vcpu s (of_nat x) v" by blast
      moreover from this have "unat (of_nat x :: u64) = x" using assms by (intro unat_of_nat_small) simp
      ultimately show "\<exists>h. unat h < guest_vcpu_count s \<and> hart_vcpu s h v" by metis
    qed (metis of_nat_unat ucast_id)
    then show ?thesis using True inject_fold [of s "\<lambda>_. True" me of_nat "[0..<guest_vcpu_count s]" v i]
      by (auto simp: handle_sbi_send_ipi_def Let_def)
  next
    case False
    have "fold (inject_based me (a0 args) (a1 args)) [0..<64] s = fold (\<lambda>b y. if bit (a0 args) b \<and>
        a1 args + of_nat b < of_nat (guest_vcpu_count s) then inject_guest_soft_irq me (a1 args + of_nat b) y else y) [0..<64] s"
      by (rule inject_based_fold) simp
    then have "virt_line (snd (handle_sbi_send_ipi me args s)) v i \<longleftrightarrow> i = IRQ_VS_SOFT \<and>
        (\<exists>b < 64. (bit (a0 args) b \<and> a1 args + of_nat b < of_nat (guest_vcpu_count s)) \<and> hart_vcpu s (a1 args + of_nat b) v) \<or>
        virt_line s v i"
      using False by (simp only: handle_sbi_send_ipi_def Let_def if_False snd_conv inject_fold set_upt atLeast0LessThan Bex_def lessThan_iff)
    then show ?thesis using False n by (auto simp: handle_sbi_send_ipi_def Let_def word_less_nat_alt simp del: upt_rec_numeral)
  qed
qed

theorem sbi_send_ipi_targets_witness:
  "let s = zero_rv\<lparr>g_ready_list := [7], tasks := (\<lambda>_. zero_task\<lparr>t_mpidr := 2, t_vcpu := Some 5\<rparr>)\<rparr>;
       args = set_slot 10 2 (set_slot 11 1 zero_regs)
   in virt_line (snd (handle_sbi_send_ipi 0 args s)) 5 IRQ_VS_SOFT"
proof -
  define s where "s = zero_rv\<lparr>g_ready_list := [7], tasks := (\<lambda>_. zero_task\<lparr>t_mpidr := 2, t_vcpu := Some 5\<rparr>)\<rparr>"
  define args where "args = set_slot 10 2 (set_slot 11 1 zero_regs)"
  have "hart_vcpu s 2 5" by (simp add: hart_vcpu_def riscv_find_guest_vcpu_def running_as_def s_def zero_rv_def)
  moreover have "unat (2::u64) < guest_vcpu_count s" "guest_vcpu_count s < 2 ^ 32" by (simp_all add: s_def zero_rv_def)
  moreover have "bit (a0 args) 1" "2 = a1 args + of_nat 1" by (simp_all add: args_def bit_numeral_rec)
  ultimately have "guest_vcpu_count s < 2 ^ 32" "\<exists>hart. unat hart < guest_vcpu_count s \<and> hart_vcpu s hart 5 \<and>
      (a1 args = - 1 \<or> (\<exists>b < 64. bit (a0 args) b \<and> hart = a1 args + of_nat b))"
    by (simp, intro exI [of _ 2] conjI disjI2 exI [of _ 1]) simp_all
  then show ?thesis
    using sbi_send_ipi_targets [where s = s and me = 0 and args = args and v = 5 and i = IRQ_VS_SOFT]
    unfolding Let_def s_def [symmetric] args_def [symmetric] split_beta by blast
qed

lemma slot_ret2 [simp]: "slot (ret2 e r) i = (if i = 11 then 0 else if i = 10 then e else slot r i)"
  by (simp add: ret2_def)

lemma send_ipi_slots:
  "slot (fst (handle_legacy_send_ipi env me args s)) i = (if i = 10 then 0 else slot args i)"
  "i \<noteq> 10 \<Longrightarrow> i \<noteq> 11 \<Longrightarrow> slot (fst (handle_sbi_send_ipi me args s)) i = slot args i"
  by (simp_all add: handle_legacy_send_ipi_def handle_sbi_send_ipi_def Let_def split: option.split)

lemma base_slots: "i \<noteq> 10 \<Longrightarrow> i \<noteq> 11 \<Longrightarrow> slot (handle_base_extension env args fid) i = slot args i"
  by (simp add: handle_base_extension_def split: prod.split)

lemma legacy_fence_slots: "legacy_fence env me args k s = Some (r, x) \<Longrightarrow> i \<noteq> 10 \<Longrightarrow> slot r i = slot args i"
  by (auto simp: legacy_fence_def)

abbreviation (input) "LEGACY_CALLS \<equiv> {0, 1, 3, 4, 5, 6, 7, 8} :: u64 set"

lemma dispatch_slots:
  assumes "sbi_dispatch env me args s = Some (r, x)" "i \<noteq> 10" "i \<noteq> 11"
  shows "slot r i = slot args i"
proof -
  have pairs: "slot r i = slot args i" if "handle_legacy_send_ipi env me args s = (r, x) \<or> handle_sbi_send_ipi me args s = (r, x)"
    using that send_ipi_slots(1) [where env = env and me = me and args = args and s = s and i = i]
      send_ipi_slots(2) [where me = me and args = args and s = s and i = i] assms(2,3) by auto
  show ?thesis
    using assms(1) unfolding sbi_dispatch_def Let_def
    by (simp split: if_splits option.splits add: assms(2,3) base_slots pairs legacy_fence_slots)
      (auto simp: assms(2,3) base_slots pairs intro: legacy_fence_slots)
qed

lemma dispatch_legacy:
  assumes "sbi_dispatch env me args s = Some (r, x)" "a7 args \<in> LEGACY_CALLS"
  shows "a1 r = a1 args"
proof -
  have pairs: "slot r 11 = slot args 11" if "handle_legacy_send_ipi env me args s = (r, x)"
    using that send_ipi_slots(1) [where env = env and me = me and args = args and s = s and i = 11] by simp
  show ?thesis
    using assms(2) assms(1) unfolding sbi_dispatch_def Let_def
    by (elim insertE emptyE) (auto intro: pairs legacy_fence_slots)
qed

lemma dispatch_completes: "sbi_dispatch env me args s = None \<Longrightarrow> a7 args \<in> {5, 6, 7, SBI_EXT_RFENCE}"
  unfolding sbi_dispatch_def Let_def by (simp split: if_splits)

lemma dispatch_unknown:
  "a7 args \<notin> LEGACY_CALLS \<union> {SBI_EXT_BASE, SBI_EXT_TIME, SBI_EXT_IPI, SBI_EXT_RFENCE, SBI_EXT_HSM} \<Longrightarrow>
     sbi_dispatch env me args s = Some (ret2 (- 1) args, s)"
  by (simp add: sbi_dispatch_def Let_def)

lemma dispatch_unsupported:
  assumes "a7 args = SBI_EXT_HSM \<or> a7 args = SBI_EXT_TIME \<and> a6 args \<noteq> 0 \<or> a7 args = SBI_EXT_IPI \<and> a6 args \<noteq> 0 \<or>
    a7 args = SBI_EXT_RFENCE \<and> 6 < a6 args"
  shows "sbi_dispatch env me args s = Some (ret2 SBI_ERR_NOT_SUPPORTED args, s)"
proof -
  have "6 < x \<Longrightarrow> rfence_kind_from_fid x = None" for x by (auto simp: rfence_kind_from_fid_def)
  with assms show ?thesis by (elim disjE conjE) (simp_all add: sbi_dispatch_def)
qed

text \<open>
  A supervisor call returns to the instruction after it and touches only its result registers: a
  completed call advances the program counter by 4, leaves every register except a0 and a1 unchanged,
  and the calls of the legacy interface leave a1 unchanged too. Only calls that wait for a remote fence
  can fail to complete. Unknown extensions return -1; known extensions with an unknown function, and
  hart state management, return the code for \<open>not supported\<close>; neither has any effect.
\<close>

theorem sbi_call_frame:
  "case riscv_sbi_handle_vs_ecall env me args s of
      None \<Rightarrow> a7 args \<in> {5, 6, 7, SBI_EXT_RFENCE}
    | Some (args', s') \<Rightarrow>
        sepc args' = sepc args + 4 \<and> (\<forall>i. i \<notin> {0, 10, 11} \<longrightarrow> slot args' i = slot args i) \<and>
        (a7 args \<in> LEGACY_CALLS \<longrightarrow> a1 args' = a1 args) \<and>
        (a7 args \<notin> LEGACY_CALLS \<union> {SBI_EXT_BASE, SBI_EXT_TIME, SBI_EXT_IPI, SBI_EXT_RFENCE, SBI_EXT_HSM} \<longrightarrow>
           a0 args' = - 1 \<and> a1 args' = 0 \<and> s' = s) \<and>
        (a7 args = SBI_EXT_HSM \<or> a7 args = SBI_EXT_TIME \<and> a6 args \<noteq> 0 \<or> a7 args = SBI_EXT_IPI \<and> a6 args \<noteq> 0 \<or>
         a7 args = SBI_EXT_RFENCE \<and> 6 < a6 args \<longrightarrow> a0 args' = SBI_ERR_NOT_SUPPORTED \<and> a1 args' = 0 \<and> s' = s)"
proof (cases "sbi_dispatch env me args s")
  case None
  then show ?thesis using dispatch_completes [OF None] by (simp add: riscv_sbi_handle_vs_ecall_def)
next
  case (Some p)
  obtain r x where p: "p = (r, x)" by (cases p)
  note D = Some [unfolded p]
  have e: "riscv_sbi_handle_vs_ecall env me args s = Some (set_slot 0 (sepc r + 4) r, x)"
    by (simp add: riscv_sbi_handle_vs_ecall_def D)
  show ?thesis unfolding e option.case prod.case
  proof (intro conjI impI allI, goal_cases)
    case 4
    then show ?case using D dispatch_unknown [of args env me s] by auto
  next
    case 5
    then show ?case using D dispatch_unknown [of args env me s] by auto
  next
    case 6
    then show ?case using D dispatch_unknown [of args env me s] by auto
  next
    case 7
    then show ?case using D dispatch_unsupported [of args env me s] by auto
  next
    case 8
    then show ?case using D dispatch_unsupported [of args env me s] by auto
  next
    case 9
    then show ?case using D dispatch_unsupported [of args env me s] by auto
  next
    case (2 i)
    then show ?case using dispatch_slots [OF D, of i] by simp
  next
    case 3
    then show ?case using dispatch_legacy [OF D] by simp
  qed (use dispatch_slots [OF D, of 0] in simp)
qed

theorem sbi_call_frame_witness:
  "case riscv_sbi_handle_vs_ecall \<lparr>e_mem64 = \<lambda>_. 0, e_mem8 = \<lambda>_. 0, e_fw = \<lambda>_ _. (0, 0), e_tb = 10000000, e_obs = \<lambda>_. []\<rparr> 0
      (set_slot 17 SBI_EXT_HSM (set_slot 10 3 (set_slot 0 0x90080000 zero_regs))) zero_rv of
      None \<Rightarrow> False
    | Some (args', s') \<Rightarrow> sepc args' = 0x90080004 \<and> a0 args' = SBI_ERR_NOT_SUPPORTED \<and> s' = zero_rv"
  using sbi_call_frame [where env = "\<lparr>e_mem64 = \<lambda>_. 0, e_mem8 = \<lambda>_. 0, e_fw = \<lambda>_ _. (0, 0), e_tb = 10000000, e_obs = \<lambda>_. []\<rparr>" and
      me = 0 and args = "set_slot 17 SBI_EXT_HSM (set_slot 10 3 (set_slot 0 0x90080000 zero_regs))" and s = zero_rv]
  by (auto split: option.splits)

end
