(* ===== verification/Ns16550a.thy ===== *)
theory Ns16550a
  imports Vplic Byte_Fifo
begin

text \<open>
  The emulated NS16550A of the RISC-V guest (\<^verbatim>\<open>src/arch/riscv64/emul_uart.c\<close>): receive FIFO,
  registers, and the interrupt it drives through input 10 of the virtual PLIC. Bytes the guest
  transmits are the effects \<open>HostUartPut\<close>; the bytes waiting in the host UART are a parameter of
  \<open>uart_emul_service_host\<close>.
\<close>

section \<open>Model\<close>

abbreviation (input) "UART_EMUL_FIFO_SIZE \<equiv> 128::nat"
abbreviation (input) "GUEST_UART_IRQ \<equiv> 10::nat"

definition ns16550a_rx_empty :: "ns16550a_state \<Rightarrow> bool" where
  "ns16550a_rx_empty u \<longleftrightarrow> rx_count u = 0"

definition ns16550a_rx_full :: "ns16550a_state \<Rightarrow> bool" where
  "ns16550a_rx_full u \<longleftrightarrow> rx_count u = UART_EMUL_FIFO_SIZE"

definition ns16550a_rx_pop :: "ns16550a_state \<Rightarrow> (u8 \<times> ns16550a_state) option" where
  "ns16550a_rx_pop u =
     (if ns16550a_rx_empty u then None
      else Some (rx_fifo u ! rx_tail u,
        u\<lparr>rx_tail := (rx_tail u + 1) mod UART_EMUL_FIFO_SIZE, rx_count := rx_count u - 1\<rparr>))"

definition ns16550a_rx_push :: "u8 \<Rightarrow> ns16550a_state \<Rightarrow> ns16550a_state option" where
  "ns16550a_rx_push ch u =
     (if ns16550a_rx_full u then None
      else Some (u\<lparr>rx_fifo := (rx_fifo u)[rx_head u := ch],
        rx_head := (rx_head u + 1) mod UART_EMUL_FIFO_SIZE, rx_count := rx_count u + 1\<rparr>))"

definition ns16550a_update_irq :: "int \<Rightarrow> rv \<Rightarrow> rv" where
  "ns16550a_update_irq me s =
     (let u = g_uart s;
          (iir, raise) =
            (if \<not> ns16550a_rx_empty u \<and> bit (u_ier u) 0 then (0x04, True)
             else if tx_irq_pending u \<and> bit (u_ier u) 1 then (0x02, True)
             else (0x01, False));
          s1 = s\<lparr>g_uart := u\<lparr>u_iir := iir\<rparr>\<rparr>
      in if raise then riscv_vplic_raise me GUEST_UART_IRQ s1
         else riscv_vplic_clear me GUEST_UART_IRQ s1)"

definition uart_off :: "u64 \<Rightarrow> nat" where
  "uart_off addr = unat (addr AND 0xFF)"

definition ns16550a_read :: "int \<Rightarrow> u64 \<Rightarrow> rv \<Rightarrow> u64 \<times> rv" where
  "ns16550a_read me addr s =
     (let u = g_uart s; off = uart_off addr in
      if off = 0 then
        (if bit (u_lcr u) 7 then (ucast (u_dll u), s)
         else (case ns16550a_rx_pop u of
             Some (ch, u') \<Rightarrow> (ucast ch, ns16550a_update_irq me (s\<lparr>g_uart := u'\<rparr>))
           | None \<Rightarrow> (0, ns16550a_update_irq me s)))
      else if off = 1 then (if bit (u_lcr u) 7 then (ucast (u_dlm u), s) else (ucast (u_ier u), s))
      else if off = 2 then
        (let u' = (if u_iir u = 0x02 then u\<lparr>tx_irq_pending := False\<rparr> else u)
         in (ucast (u_iir u), ns16550a_update_irq me (s\<lparr>g_uart := u'\<rparr>)))
      else if off = 3 then (ucast (u_lcr u), s)
      else if off = 4 then (ucast (u_mcr u), s)
      else if off = 5 then
        (let v = ucast (u_lsr u OR 0x20 OR 0x40)
         in (if \<not> ns16550a_rx_empty u then v OR 1 else v, s))
      else if off = 6 then (ucast (u_msr u), s)
      else if off = 7 then (ucast (u_scr u), s)
      else (0, s))"

definition ns16550a_write :: "int \<Rightarrow> u64 \<Rightarrow> u64 \<Rightarrow> rv \<Rightarrow> rv" where
  "ns16550a_write me addr value s =
     (let u = g_uart s; off = uart_off addr; b = ucast value :: u8 in
      if off = 0 then
        (if bit (u_lcr u) 7 then s\<lparr>g_uart := u\<lparr>u_dll := b\<rparr>\<rparr>
         else ns16550a_update_irq me ((emit (HostUartPut (ucast (value AND 0xFF))) s)
                \<lparr>g_uart := u\<lparr>tx_irq_pending := True\<rparr>\<rparr>))
      else if off = 1 then
        (if bit (u_lcr u) 7 then s\<lparr>g_uart := u\<lparr>u_dlm := b\<rparr>\<rparr>
         else (let u1 = u\<lparr>u_ier := b\<rparr>;
                   u2 = (if bit (u_ier u1) 1 then u1\<lparr>tx_irq_pending := True\<rparr> else u1)
               in ns16550a_update_irq me (s\<lparr>g_uart := u2\<rparr>)))
      else if off = 2 then
        (let u1 = u\<lparr>u_fcr := b\<rparr>;
             u2 = (if bit value 1 then u1\<lparr>rx_head := 0, rx_tail := 0, rx_count := 0\<rparr> else u1)
         in ns16550a_update_irq me (s\<lparr>g_uart := u2\<rparr>))
      else if off = 3 then s\<lparr>g_uart := u\<lparr>u_lcr := b\<rparr>\<rparr>
      else if off = 4 then s\<lparr>g_uart := u\<lparr>u_mcr := b\<rparr>\<rparr>
      else if off = 7 then s\<lparr>g_uart := u\<lparr>u_scr := b\<rparr>\<rparr>
      else s)"

definition ns16550a_register_emul :: "rv \<Rightarrow> rv" where
  "ns16550a_register_emul s = s\<lparr>g_uart := zero_uart\<lparr>u_iir := 0x01, u_lsr := 0x20 OR 0x40\<rparr>\<rparr>"

definition uart_vcpu_inject_rx :: "int \<Rightarrow> u8 \<Rightarrow> rv \<Rightarrow> int \<times> rv" where
  "uart_vcpu_inject_rx me ch s =
     (case ns16550a_rx_push ch (g_uart s) of
        None \<Rightarrow> (- 1, ns16550a_update_irq me s)
      | Some u \<Rightarrow> (0, ns16550a_update_irq me (s\<lparr>g_uart := u\<rparr>)))"

text \<open>
  \<open>uart_emul_service_host\<close> reads the host's receive register before it knows whether the FIFO has
  room: the byte on which the loop stops has been taken from the host.
\<close>

fun uart_emul_service_host :: "int \<Rightarrow> u8 list \<Rightarrow> rv \<Rightarrow> u8 list \<times> rv" where
  "uart_emul_service_host me [] s = ([], s)"
| "uart_emul_service_host me (ch # host) s =
     (let (ret, s1) = uart_vcpu_inject_rx me ch s in
      if ret \<noteq> 0 then (host, s1) else uart_emul_service_host me host s1)"

section \<open>The receive FIFO\<close>

definition uart_ok :: "ns16550a_state \<Rightarrow> bool" where
  "uart_ok u \<longleftrightarrow> length (rx_fifo u) = UART_EMUL_FIFO_SIZE \<and> ring_ok (rx_fifo u) (rx_head u) (rx_tail u) (rx_count u)"

definition rx_contents :: "ns16550a_state \<Rightarrow> u8 list" where
  "rx_contents u = ring (rx_fifo u) (rx_tail u) (rx_count u)"

lemma rx_pop_spec:
  assumes "uart_ok u"
  shows "(case rx_contents u of
      [] \<Rightarrow> ns16550a_rx_pop u = None
    | c # cs \<Rightarrow> \<exists>u'. ns16550a_rx_pop u = Some (c, u') \<and> uart_ok u' \<and> rx_contents u' = cs \<and>
        u' = u\<lparr>rx_tail := rx_tail u', rx_count := rx_count u'\<rparr>)"
proof (cases "rx_count u = 0")
  case True
  then show ?thesis by (simp add: rx_contents_def ns16550a_rx_pop_def ns16550a_rx_empty_def)
next
  case False
  have len: "length (rx_fifo u) = UART_EMUL_FIFO_SIZE" using assms by (simp add: uart_ok_def)
  have "ring_ok (rx_fifo u) (rx_head u) (rx_tail u) (rx_count u)" "0 < rx_count u"
    using assms False by (auto simp: uart_ok_def)
  note P = ring_pop [OF this, unfolded len]
  show ?thesis using P False len
    by (simp add: rx_contents_def ns16550a_rx_pop_def ns16550a_rx_empty_def uart_ok_def)
qed

lemma rx_push_spec:
  assumes "uart_ok u"
  shows "if length (rx_contents u) < UART_EMUL_FIFO_SIZE
    then \<exists>u'. ns16550a_rx_push ch u = Some u' \<and> uart_ok u' \<and> rx_contents u' = rx_contents u @ [ch] \<and>
      u' = u\<lparr>rx_fifo := rx_fifo u', rx_head := rx_head u', rx_count := rx_count u'\<rparr>
    else ns16550a_rx_push ch u = None"
proof (cases "rx_count u < UART_EMUL_FIFO_SIZE")
  case True
  have len: "length (rx_fifo u) = UART_EMUL_FIFO_SIZE" using assms by (simp add: uart_ok_def)
  have "ring_ok (rx_fifo u) (rx_head u) (rx_tail u) (rx_count u)" "rx_count u < length (rx_fifo u)"
    using assms True len by (auto simp: uart_ok_def)
  note P = ring_push [OF this, of ch, unfolded len]
  show ?thesis using P True len
    by (simp add: rx_contents_def ns16550a_rx_push_def ns16550a_rx_full_def uart_ok_def)
next
  case False
  moreover have "rx_count u \<le> UART_EMUL_FIFO_SIZE" using assms by (auto simp: uart_ok_def ring_ok_def)
  ultimately show ?thesis by (simp add: rx_contents_def ns16550a_rx_push_def ns16550a_rx_full_def)
qed

interpretation ns: byte_fifo ns16550a_rx_push ns16550a_rx_pop rx_contents uart_ok UART_EMUL_FIFO_SIZE
proof (unfold_locales, goal_cases)
  case (1 s c)
  then show ?case using rx_push_spec [of s c] by auto
next
  case (2 s c)
  then show ?case using rx_push_spec [of s c] by auto
next
  case (3 s c cs)
  then show ?case using rx_pop_spec [of s] by auto
next
  case (4 s)
  then show ?case using rx_pop_spec [of s] by auto
qed

section \<open>The interrupt condition\<close>

definition uart_cond :: "ns16550a_state \<Rightarrow> u8" where
  "uart_cond u = (if rx_contents u \<noteq> [] \<and> bit (u_ier u) 0 then 0x04
     else if tx_irq_pending u \<and> bit (u_ier u) 1 then 0x02 else 0x01)"

definition uart_inv :: "rv \<Rightarrow> bool" where
  "uart_inv s \<longleftrightarrow> uart_ok (g_uart s) \<and> length (g_vplic s) = 153 \<and> u_iir (g_uart s) = uart_cond (g_uart s) \<and>
     (vplic_irq_pending_locked (g_vplic s) GUEST_UART_IRQ \<longleftrightarrow> u_iir (g_uart s) \<noteq> 0x01)"

lemma rx_contents_empty: "rx_contents u = [] \<longleftrightarrow> rx_count u = 0"
  by (metis length_0_conv length_ring rx_contents_def)

lemma uart_sel [simp]:
  "rx_contents (u\<lparr>u_iir := x\<rparr>) = rx_contents u" "uart_ok (u\<lparr>u_iir := x\<rparr>) = uart_ok u"
  "rx_contents (u\<lparr>tx_irq_pending := t\<rparr>) = rx_contents u" "uart_ok (u\<lparr>tx_irq_pending := t\<rparr>) = uart_ok u"
  "rx_contents (u\<lparr>u_ier := x\<rparr>) = rx_contents u" "uart_ok (u\<lparr>u_ier := x\<rparr>) = uart_ok u"
  "rx_contents (u\<lparr>u_fcr := x\<rparr>) = rx_contents u" "uart_ok (u\<lparr>u_fcr := x\<rparr>) = uart_ok u"
  "rx_contents (u\<lparr>u_lcr := x\<rparr>) = rx_contents u" "uart_ok (u\<lparr>u_lcr := x\<rparr>) = uart_ok u"
  "rx_contents (u\<lparr>u_mcr := x\<rparr>) = rx_contents u" "uart_ok (u\<lparr>u_mcr := x\<rparr>) = uart_ok u"
  "rx_contents (u\<lparr>u_scr := x\<rparr>) = rx_contents u" "uart_ok (u\<lparr>u_scr := x\<rparr>) = uart_ok u"
  "rx_contents (u\<lparr>u_dll := x\<rparr>) = rx_contents u" "uart_ok (u\<lparr>u_dll := x\<rparr>) = uart_ok u"
  "rx_contents (u\<lparr>u_dlm := x\<rparr>) = rx_contents u" "uart_ok (u\<lparr>u_dlm := x\<rparr>) = uart_ok u"
  by (simp_all add: rx_contents_def uart_ok_def)

lemma update_irq_uart:
  "g_uart (ns16550a_update_irq me s) = (g_uart s)\<lparr>u_iir := uart_cond (g_uart s)\<rparr>"
  by (simp add: ns16550a_update_irq_def uart_cond_def rx_contents_empty ns16550a_rx_empty_def Let_def
      riscv_vplic_raise_def riscv_vplic_clear_def vplic_irq_valid_def)

lemma update_irq_inv:
  assumes "uart_ok (g_uart s)" "length (g_vplic s) = 153"
  shows "uart_inv (ns16550a_update_irq me s)"
proof -
  have "g_vplic (ns16550a_update_irq me s) = (if uart_cond (g_uart s) \<noteq> 0x01
      then set_pending GUEST_UART_IRQ (g_vplic s) else clear_pending GUEST_UART_IRQ (g_vplic s))"
    by (simp add: ns16550a_update_irq_def uart_cond_def rx_contents_empty ns16550a_rx_empty_def Let_def
        riscv_vplic_raise_def riscv_vplic_clear_def vplic_irq_valid_def)
  moreover have "uart_cond (u\<lparr>u_iir := x\<rparr>) = uart_cond u" for u x by (simp add: uart_cond_def)
  ultimately show ?thesis
    using assms clear_pending_pending [OF assms(2), of GUEST_UART_IRQ GUEST_UART_IRQ]
    by (simp add: uart_inv_def update_irq_uart set_pending_def clear_pending_def)
qed

datatype uart_op = URead u64 | UWrite u64 u64 | UInject u8

fun uart_step :: "int \<Rightarrow> uart_op \<Rightarrow> rv \<Rightarrow> rv" where
  "uart_step me (URead a) s = snd (ns16550a_read me a s)"
| "uart_step me (UWrite a v) s = ns16550a_write me a v s"
| "uart_step me (UInject c) s = snd (uart_vcpu_inject_rx me c s)"

lemma uart_step_read:
  assumes "uart_inv s"
  shows "uart_inv (snd (ns16550a_read me a s))"
proof -
  have len: "length (g_vplic s) = 153" and ok: "uart_ok (g_uart s)" using assms by (auto simp: uart_inv_def)
  show ?thesis
  proof (cases "uart_off a = 0 \<and> \<not> bit (u_lcr (g_uart s)) 7")
    case True
    then show ?thesis
      using rx_pop_spec [OF ok] len ok
      by (cases "rx_contents (g_uart s)") (auto simp: ns16550a_read_def Let_def intro!: update_irq_inv)
  next
    case False
    then show ?thesis using assms len ok
      by (auto simp: ns16550a_read_def Let_def intro!: update_irq_inv)
  qed
qed

lemma uart_step_write:
  assumes "uart_inv s"
  shows "uart_inv (ns16550a_write me a v s)"
proof -
  have len: "length (g_vplic s) = 153" and ok: "uart_ok (g_uart s)" using assms by (auto simp: uart_inv_def)
  have "uart_ok (u\<lparr>u_fcr := b, rx_head := 0, rx_tail := 0, rx_count := 0\<rparr>)" if "uart_ok u" for u b
    using that by (simp add: uart_ok_def ring_ok_def)
  then show ?thesis using assms len ok
    by (auto simp: ns16550a_write_def Let_def intro!: update_irq_inv) (auto simp: uart_inv_def uart_cond_def)
qed

lemma uart_step_inv:
  assumes "uart_inv s"
  shows "uart_inv (uart_step me op s)"
proof (cases op)
  case (UInject c)
  have "length (g_vplic s) = 153" and ok: "uart_ok (g_uart s)" using assms by (auto simp: uart_inv_def)
  with rx_push_spec [OF ok, of c] UInject show ?thesis
    by (auto simp: uart_vcpu_inject_rx_def intro!: update_irq_inv split: if_splits)
qed (use assms uart_step_read uart_step_write in auto)

section \<open>Properties\<close>

text \<open>
  C29. The UART's interrupt: from reset on, through every sequence of guest register accesses and
  injected bytes, the interrupt identification register shows the highest-priority enabled
  condition (received data before transmitter empty), and input 10 of the controller is pending
  exactly when there is one; FIFO indices stay inside the array.
\<close>

theorem uart_interrupt_follows_condition:
  assumes "uart_inv s"
  shows "uart_inv (fold (\<lambda>(me, op). uart_step me op) ops s)"
  using assms by (induction ops arbitrary: s) (auto intro: uart_step_inv)

lemma uart_reset_inv: "uart_inv (ns16550a_register_emul (plic_register_emul s))"
proof -
  have "vplic_irq_pending_locked (g_vplic (plic_register_emul s)) GUEST_UART_IRQ = False"
    by (simp add: vplic_irq_pending_locked_def plic_register_emul_def pending_at_def nth_append nth_Cons')
  then show ?thesis
    by (simp add: uart_inv_def ns16550a_register_emul_def plic_register_emul_def uart_ok_def ring_ok_def
        uart_cond_def rx_contents_def zero_uart_def)
qed

theorem uart_interrupt_follows_condition_witness:
  "uart_inv (fold (\<lambda>(me, op). uart_step me op) [(0, UWrite 0x20000001 3), (1, UInject 65), (0, URead 0x20000000)]
     (ns16550a_register_emul (plic_register_emul zero_rv)))"
  by (rule uart_interrupt_follows_condition [OF uart_reset_inv])

text \<open>
  C30. Received bytes are delivered in order, once each: in every interleaving of bytes offered by the
  host and reads by the guest, the bytes that were waiting followed by the bytes accepted are the
  bytes read followed by the bytes still waiting.
\<close>

theorem ns16550a_fifo_order:
  assumes "uart_ok u" "fifo_run ns16550a_rx_push ns16550a_rx_pop ops u = (ins, outs, u')"
  shows "rx_contents u @ ins = outs @ rx_contents u' \<and> uart_ok u'"
  by (rule ns.fifo_order [OF assms])

theorem ns16550a_fifo_order_witness:
  "\<exists>ins outs u'. fifo_run ns16550a_rx_push ns16550a_rx_pop [Offer 1, Offer 2, Take, Offer 3, Take] zero_uart =
     (ins, outs, u') \<and> ins = outs @ rx_contents u' \<and> uart_ok u'"
proof -
  have ok: "uart_ok zero_uart" "rx_contents zero_uart = []"
    by (simp_all add: uart_ok_def ring_ok_def zero_uart_def rx_contents_def)
  obtain ins outs u' where r: "fifo_run ns16550a_rx_push ns16550a_rx_pop
      [Offer 1, Offer 2, Take, Offer 3, Take] zero_uart = (ins, outs, u')"
    by (metis prod_cases3)
  from ns16550a_fifo_order [OF ok(1) r] ok(2) r show ?thesis by auto
qed

text \<open>
  Servicing the host UART: the bytes taken from the host are appended to the guest's FIFO up to
  its capacity; if more bytes wait than fit, one further byte is taken and lost, and the rest stays
  in the host UART.
\<close>

theorem service_host_appends:
  assumes "uart_ok (g_uart s)"
  shows "let room = UART_EMUL_FIFO_SIZE - length (rx_contents (g_uart s));
             (rest, s') = uart_emul_service_host me host s
         in rx_contents (g_uart s') = rx_contents (g_uart s) @ take room host \<and> rest = drop (room + 1) host"
  using assms
proof (induction host arbitrary: s)
  case (Cons ch host)
  have le: "length (rx_contents (g_uart s)) \<le> UART_EMUL_FIFO_SIZE"
    using Cons.prems by (auto simp: uart_ok_def ring_ok_def rx_contents_def)
  show ?case
  proof (cases "length (rx_contents (g_uart s)) < UART_EMUL_FIFO_SIZE")
    case True
    with rx_push_spec [OF Cons.prems, of ch] obtain u where u: "ns16550a_rx_push ch (g_uart s) = Some u"
      "uart_ok u" "rx_contents u = rx_contents (g_uart s) @ [ch]" by auto
    define s1 where "s1 = ns16550a_update_irq me (s\<lparr>g_uart := u\<rparr>)"
    have s1: "uart_vcpu_inject_rx me ch s = (0, s1)" "uart_ok (g_uart s1)"
      "rx_contents (g_uart s1) = rx_contents (g_uart s) @ [ch]"
      using u by (simp_all add: uart_vcpu_inject_rx_def s1_def update_irq_uart)
    obtain rest s' where r: "uart_emul_service_host me host s1 = (rest, s')"
      by (cases "uart_emul_service_host me host s1")
    have "UART_EMUL_FIFO_SIZE - length (rx_contents (g_uart s)) =
        Suc (UART_EMUL_FIFO_SIZE - Suc (length (rx_contents (g_uart s))))" using True by simp
    with Cons.IH [OF s1(2)] r s1 show ?thesis by (simp only: Let_def) simp
  next
    case False
    with le rx_push_spec [OF Cons.prems, of ch] have "ns16550a_rx_push ch (g_uart s) = None" by auto
    with False le show ?thesis by (simp add: Let_def uart_vcpu_inject_rx_def update_irq_uart)
  qed
qed (simp add: Let_def)

theorem service_host_appends_witness:
  "let room = UART_EMUL_FIFO_SIZE - length (rx_contents (g_uart zero_rv));
       (rest, s') = uart_emul_service_host 0 [7, 8, 9] zero_rv
   in rx_contents (g_uart s') = rx_contents (g_uart zero_rv) @ take room [7, 8, 9] \<and>
      rest = drop (room + 1) [7, 8, 9]"
  by (rule service_host_appends) (simp add: zero_rv_def zero_uart_def uart_ok_def ring_ok_def)

end
