(* ===== verification/Riscv_Emulate.thy ===== *)
theory Riscv_Emulate
  imports Ns16550a Guest_Mem
begin

text \<open>
  Emulation of a guest access to a device (\<^verbatim>\<open>src/arch/riscv64/emulate.c\<close>): fetching and decoding the
  faulting load or store, the call of the device driver, the register update and the advance of the
  program counter, and the redirection of a trap to the guest.

  Host memory, from which the instruction is fetched, is the parameter \<open>mem\<close>, a function from a
  host virtual address to the 16-bit unit there. Registers are the slots of the trap frame: slot 0
  is \<^verbatim>\<open>sepc\<close>, so an access by register number 0 reads and writes \<^verbatim>\<open>sepc\<close>, as in the code.
\<close>

section \<open>Model\<close>

definition INSN_IS_16BIT :: "u32 \<Rightarrow> bool" where
  "INSN_IS_16BIT insn \<longleftrightarrow> insn AND 3 \<noteq> 3"

definition INSN_LEN :: "u32 \<Rightarrow> u64" where
  "INSN_LEN insn = (if INSN_IS_16BIT insn then 2 else 4)"

definition matches :: "u32 \<Rightarrow> u32 \<Rightarrow> u32 \<Rightarrow> bool" where
  "matches inst msk val \<longleftrightarrow> inst AND msk = val"

text \<open>\<open>phy_to_vir\<close> is the parameter \<open>p2v\<close>; \<open>PAGE_VIRT_OFFSET\<close> the start of the direct map.\<close>

definition vcpu_fetch_inst :: "(u64 \<Rightarrow> u64) \<Rightarrow> (u64 \<Rightarrow> u16) \<Rightarrow> hart \<Rightarrow> cpu_user_regs \<Rightarrow> u32" where
  "vcpu_fetch_inst p2v mem h regs =
     (let hti = (ucast (htinst h) :: u32) in
      if 0xF000000000 \<le> sepc regs \<and> hti \<noteq> 0 then hti
      else (let p = p2v (sepc regs); inst = ucast (mem p) :: u32 in
        if \<not> INSN_IS_16BIT inst then inst OR push_bit 16 (ucast (mem (p + 2))) else inst))"

definition inst_to_access_len :: "u32 \<Rightarrow> nat" where
  "inst_to_access_len inst =
     (if INSN_IS_16BIT inst then
        (if matches inst 0xe003 0x6000 \<or> matches inst 0xe003 0xe000 \<or>
            matches inst 0xe003 0x6002 \<or> matches inst 0xe003 0xe002 then 8
         else if matches inst 0xe003 0x4000 \<or> matches inst 0xe003 0xc000 \<or>
            matches inst 0xe003 0x4002 \<or> matches inst 0xe003 0xc002 then 4
         else 4)
      else if matches inst 0x707f 0x3003 \<or> matches inst 0x707f 0x3023 then 8
      else if matches inst 0x707f 0x2003 \<or> matches inst 0x707f 0x2023 then 4
      else if matches inst 0x707f 0x1003 \<or> matches inst 0x707f 0x1023 then 2
      else if matches inst 0x707f 0x3 \<or> matches inst 0x707f 0x23 then 1
      else if matches inst 0x707f 0x4003 then 1
      else if matches inst 0x707f 0x5003 \<or> matches inst 0x707f 0x6003 then 4
      else 4)"

definition inst_is_store :: "u32 \<Rightarrow> bool" where
  "inst_is_store inst =
     (if INSN_IS_16BIT inst then
        matches inst 0xe003 0xc000 \<or> matches inst 0xe003 0xe000 \<or>
        matches inst 0xe003 0xc002 \<or> matches inst 0xe003 0xe002
      else matches inst 0x707f 0x23 \<or> matches inst 0x707f 0x1023 \<or>
        matches inst 0x707f 0x2023 \<or> matches inst 0x707f 0x3023)"

definition inst_get_rd :: "u32 \<Rightarrow> nat" where
  "inst_get_rd inst = unat (drop_bit 7 inst AND 0x1f)"

definition inst_rs2 :: "u32 \<Rightarrow> nat" where
  "inst_rs2 inst = unat (drop_bit 20 inst AND 0x1f)"

definition GET_RS2 :: "u32 \<Rightarrow> cpu_user_regs \<Rightarrow> u64" where
  "GET_RS2 inst regs = slot regs (inst_rs2 inst)"

definition SET_RD :: "u32 \<Rightarrow> cpu_user_regs \<Rightarrow> u64 \<Rightarrow> cpu_user_regs" where
  "SET_RD inst regs v = set_slot (inst_get_rd inst) v regs"

text \<open>The operation tables of the two registered drivers.\<close>

definition dev_read :: "int \<Rightarrow> string \<Rightarrow> u64 \<Rightarrow> rv \<Rightarrow> u64 \<times> rv" where
  "dev_read me name addr s =
     (if name = ''riscv-plic'' then vplic_read me addr s else ns16550a_read me addr s)"

definition dev_write :: "int \<Rightarrow> string \<Rightarrow> u64 \<Rightarrow> u64 \<Rightarrow> rv \<Rightarrow> rv" where
  "dev_write me name addr v s =
     (if name = ''riscv-plic'' then vplic_write me addr v s else ns16550a_write me addr v s)"

definition normalize_inst :: "u64 \<Rightarrow> u32 \<Rightarrow> u32" where
  "normalize_inst hti inst = (if hti \<noteq> 0 \<and> inst AND 3 = 1 then inst OR 2 else inst)"

definition store_value :: "u32 \<Rightarrow> cpu_user_regs \<Rightarrow> u64" where
  "store_value inst regs =
     (if INSN_IS_16BIT inst then slot regs (8 + unat (drop_bit 2 inst AND 7)) else GET_RS2 inst regs)"

definition vcpu_emulate_mmio ::
    "(u64 \<Rightarrow> u64) \<Rightarrow> (u64 \<Rightarrow> u16) \<Rightarrow> int \<Rightarrow> nat \<Rightarrow> u64 \<Rightarrow> bool \<Rightarrow> cpu_user_regs \<Rightarrow> rv \<Rightarrow> int \<times> cpu_user_regs \<times> rv" where
  "vcpu_emulate_mmio p2v mem me v fault_addr is_write regs s =
     (let inst = vcpu_fetch_inst p2v mem (harts s me) regs;
          dinst = normalize_inst (htinst (harts s me)) inst;
          access_is_store = (inst_is_store dinst \<or> is_write) in
      case guest_mem_find_region (v_mem (vcpus s v)) fault_addr \<bind> mr_dev of
        None \<Rightarrow> (- 1, regs, s)
      | Some dev \<Rightarrow>
          (let (regs1, s1) =
             (if access_is_store then (regs, dev_write me dev fault_addr (store_value dinst regs) s)
              else (let (value, s1) = dev_read me dev fault_addr s in
                (if inst_get_rd dinst \<noteq> 0 then SET_RD dinst regs value else regs, s1)))
           in (0, set_slot 0 (sepc regs1 + INSN_LEN inst) regs1, s1)))"

subsection \<open>Redirecting a trap to the guest\<close>

abbreviation (input) "SSTATUS_SIE \<equiv> 0x2::u64"
abbreviation (input) "SSTATUS_SPIE \<equiv> 0x20::u64"
abbreviation (input) "SSTATUS_SPP \<equiv> 0x100::u64"

record cpu_vcpu_trap =
  tr_sepc :: u64
  tr_scause :: u64
  tr_stval :: u64

definition vcpu_redirect_trap :: "int \<Rightarrow> cpu_vcpu_trap \<Rightarrow> cpu_user_regs \<Rightarrow> rv \<Rightarrow> int \<times> cpu_user_regs \<times> rv" where
  "vcpu_redirect_trap me trap regs s =
     (let st0 = vsstatus (harts s me) AND NOT SSTATUS_SPP;
          st1 = (if fr_sstatus regs AND SSTATUS_SPP \<noteq> 0 then st0 OR SSTATUS_SPP else st0);
          st2 = st1 AND NOT SSTATUS_SPIE;
          st3 = (if fr_sstatus regs AND SSTATUS_SIE \<noteq> 0 then st2 OR SSTATUS_SPIE else st2);
          st4 = st3 AND NOT SSTATUS_SIE;
          st5 = st4 OR (SSTATUS_SPP OR SSTATUS_SPIE OR SSTATUS_SIE);
          s1 = upd_hart me (\<lambda>h. h\<lparr>vsstatus := st5, vscause := tr_scause trap, vstval := tr_stval trap,
                 vsepc := tr_sepc trap\<rparr>) s
      in (0, set_slot 0 (vstvec (harts s1 me)) regs, s1))"

definition inject_illegal_inst :: "int \<Rightarrow> u64 \<Rightarrow> cpu_user_regs \<Rightarrow> rv \<Rightarrow> int \<times> cpu_user_regs \<times> rv" where
  "inject_illegal_inst me inst regs s =
     vcpu_redirect_trap me \<lparr>tr_sepc = sepc regs, tr_scause = 2, tr_stval = inst\<rparr> regs s"

section \<open>Decoding\<close>

lemma opcode_low_bits: "inst AND 3 = (inst AND 0x707f) AND 3" for inst :: u32
  by (simp add: and.assoc)

definition decoded_inst :: "(u64 \<Rightarrow> u64) \<Rightarrow> (u64 \<Rightarrow> u16) \<Rightarrow> hart \<Rightarrow> cpu_user_regs \<Rightarrow> u32" where
  "decoded_inst p2v mem h regs = normalize_inst (htinst h) (vcpu_fetch_inst p2v mem h regs)"

lemma emulate_store:
  assumes "guest_mem_find_region (v_mem (vcpus s v)) a \<bind> mr_dev = Some dev"
    "inst_is_store (decoded_inst p2v mem (harts s me) regs) \<or> w"
  shows "vcpu_emulate_mmio p2v mem me v a w regs s =
    (0, set_slot 0 (sepc regs + INSN_LEN (vcpu_fetch_inst p2v mem (harts s me) regs)) regs,
     dev_write me dev a (store_value (decoded_inst p2v mem (harts s me) regs) regs) s)"
  using assms by (auto simp: vcpu_emulate_mmio_def decoded_inst_def Let_def)

lemma emulate_load:
  assumes "guest_mem_find_region (v_mem (vcpus s v)) a \<bind> mr_dev = Some dev"
    "\<not> inst_is_store (decoded_inst p2v mem (harts s me) regs)" "\<not> w"
  shows "vcpu_emulate_mmio p2v mem me v a w regs s =
    (0, set_slot 0 (sepc regs + INSN_LEN (vcpu_fetch_inst p2v mem (harts s me) regs))
       (if inst_get_rd (decoded_inst p2v mem (harts s me) regs) = 0 then regs
        else SET_RD (decoded_inst p2v mem (harts s me) regs) regs (fst (dev_read me dev a s))),
     snd (dev_read me dev a s))"
  using assms by (auto simp: vcpu_emulate_mmio_def decoded_inst_def SET_RD_def Let_def split: prod.splits)

lemma emulate_frame:
  assumes "vcpu_emulate_mmio p2v mem me v a w regs s = (r, regs', s')"
  shows "(r = 0 \<or> r = - 1) \<and> (r = 0 \<longleftrightarrow> guest_mem_find_region (v_mem (vcpus s v)) a \<bind> mr_dev \<noteq> None)"
  using assms by (auto simp: vcpu_emulate_mmio_def Let_def split: option.splits if_splits prod.splits)

lemma bit_pow2: "k < 64 \<Longrightarrow> bit (2 ^ k :: u64) i \<longleftrightarrow> i = k"
  by (auto simp: bit_exp_iff possible_bit_def)

lemma redirect_status:
  "bit ((if e then (if p then x AND NOT P OR P else x AND NOT P) AND NOT I OR I
         else (if p then x AND NOT P OR P else x AND NOT P) AND NOT I) AND NOT E OR (P OR I OR E)) i \<longleftrightarrow>
     bit P i \<or> bit I i \<or> bit E i \<or> bit x i" for x P I E :: u64
  by (auto simp: bit_or_iff bit_and_iff bit_not_iff dest: bit_imp_le_length)

section \<open>Properties\<close>



text \<open>
  A device access by the guest changes exactly what the instruction says: on success the
  program counter moves past the instruction, a store leaves every register unchanged, and a load
  changes at most its destination register, which receives the value the device returned (register
  0 is never written). When no device is bound to the address nothing changes.
\<close>

theorem mmio_register_effects:
  "let (r, regs', s') = vcpu_emulate_mmio p2v mem me v a w regs s;
       inst = vcpu_fetch_inst p2v mem (harts s me) regs;
       dinst = decoded_inst p2v mem (harts s me) regs;
       rd = inst_get_rd dinst
   in case guest_mem_find_region (v_mem (vcpus s v)) a \<bind> mr_dev of
        None \<Rightarrow> r = - 1 \<and> regs' = regs \<and> s' = s
      | Some dev \<Rightarrow> r = 0 \<and> sepc regs' = sepc regs + INSN_LEN inst \<and>
          (if inst_is_store dinst \<or> w
           then {i. slot regs' i \<noteq> slot regs i} \<subseteq> {0} \<and> s' = dev_write me dev a (store_value dinst regs) s
           else {i. slot regs' i \<noteq> slot regs i} \<subseteq> {0, rd} \<and>
             slot regs' rd = (if rd = 0 then sepc regs' else fst (dev_read me dev a s)) \<and>
             s' = snd (dev_read me dev a s))"
proof (cases "guest_mem_find_region (v_mem (vcpus s v)) a \<bind> mr_dev")
  case None
  then show ?thesis by (simp add: vcpu_emulate_mmio_def Let_def)
next
  case (Some dev)
  show ?thesis
  proof (cases "inst_is_store (decoded_inst p2v mem (harts s me) regs) \<or> w")
    case True
    then show ?thesis using Some by (auto simp: emulate_store [OF Some True] Let_def)
  next
    case False
    then show ?thesis using Some by (auto simp: emulate_load [OF Some] SET_RD_def Let_def)
  qed
qed

text \<open>
  Storing register 0 to a device does not store zero: the register operand is read from the
  trap frame by number, and slot 0 of the frame is the program counter.
\<close>

theorem mmio_store_zero_writes_pc:
  assumes "inst AND 0x707f \<in> {0x23, 0x1023, 0x2023, 0x3023}" "inst_rs2 inst = 0"
  shows "inst_is_store inst \<and> store_value inst regs = sepc regs"
proof -
  have "\<not> INSN_IS_16BIT inst"
    using assms by (subst INSN_IS_16BIT_def, subst opcode_low_bits) auto
  with assms show ?thesis by (auto simp: inst_is_store_def store_value_def matches_def GET_RS2_def)
qed

theorem mmio_store_zero_writes_pc_witness:
  "inst_is_store 0x00052023 \<and> store_value 0x00052023 (zero_regs\<lparr>slot := (\<lambda>_. 0)(0 := 0x80200000)\<rparr>) = 0x80200000"
  using mmio_store_zero_writes_pc [of "0x00052023" "zero_regs\<lparr>slot := (\<lambda>_. 0)(0 := 0x80200000)\<rparr>"]
  by (simp add: inst_rs2_def)

text \<open>
  Redirecting a trap enters the guest's handler with the cause, value and return address of the
  trap, but the previous privilege and interrupt-enable bits of the guest are not recorded: they
  are computed and then overwritten, so the guest's status always shows a trap from supervisor mode
  with interrupts enabled, and its interrupts stay enabled in the handler.
\<close>

theorem redirect_trap_effect:
  "let (r, regs', s') = vcpu_redirect_trap me trap regs s; h = harts s me; h' = harts s' me in
   r = 0 \<and> sepc regs' = vstvec h \<and> {i. slot regs' i \<noteq> slot regs i} \<subseteq> {0} \<and>
   vsepc h' = tr_sepc trap \<and> vscause h' = tr_scause trap \<and> vstval h' = tr_stval trap \<and>
   vsstatus h' = vsstatus h OR (SSTATUS_SPP OR SSTATUS_SPIE OR SSTATUS_SIE)"
proof -
  have b: "bit SSTATUS_SPP i \<longleftrightarrow> i = 8" "bit SSTATUS_SPIE i \<longleftrightarrow> i = 5" "bit SSTATUS_SIE i \<longleftrightarrow> i = 1" for i
    using bit_pow2 [of 8 i] bit_pow2 [of 5 i] bit_pow2 [of 1 i] by simp_all
  define st where "st = vsstatus (harts (snd (snd (vcpu_redirect_trap me trap regs s))) me)"
  have sel: "vsstatus (h\<lparr>vsstatus := x, vscause := c, vstval := t, vsepc := e\<rparr>) = x" for h x c t e by simp
  have st: "bit st i \<longleftrightarrow> i = 8 \<or> i = 5 \<or> i = 1 \<or> bit (vsstatus (harts s me)) i" for i
    unfolding st_def vcpu_redirect_trap_def Let_def snd_conv harts_upd fun_upd_same sel
      redirect_status b by blast
  have r: "vcpu_redirect_trap me trap regs s = (0, set_slot 0 (vstvec (harts s me)) regs,
      upd_hart me (\<lambda>h. h\<lparr>vsstatus := st, vscause := tr_scause trap, vstval := tr_stval trap,
                 vsepc := tr_sepc trap\<rparr>) s)"
    unfolding st_def by (simp add: vcpu_redirect_trap_def Let_def)
  have "st = vsstatus (harts s me) OR (SSTATUS_SPP OR SSTATUS_SPIE OR SSTATUS_SIE)"
    by (rule bit_word_eqI) (simp only: st bit_or_iff b, blast)
  then show ?thesis unfolding r Let_def prod.case by auto
qed

end
