(* ===== verification/Riscv_Trap.thy ===== *)
theory Riscv_Trap
  imports Riscv_Sbi Riscv_Emulate
begin

text \<open>
  Traps into the hypervisor (\<^verbatim>\<open>src/arch/riscv64/exception.c\<close>) and the handling of guest faults
  (\<^verbatim>\<open>riscv_guest_fault_manager.c\<close>): second-stage page faults are mapped, emulated or given back to the
  guest, virtual-instruction faults are skipped or given back, supervisor calls go to the interface of
  \<^theory_text>\<open>Riscv_Sbi\<close>, and interrupts lead to the scheduler.

  What the handlers read from outside is an argument of type \<open>trap_env\<close>. The outcome of a trap is a
  return to the (possibly switched) context, a halt in \<open>panic\<close>, a call through an entry past the end of
  the table of fault handlers, or a handler that does not complete.
\<close>

section \<open>Model\<close>

record trap_env =
  te_sbi :: sbi_env
  te_p2v :: "u64 \<Rightarrow> u64"
  te_mem16 :: "u64 \<Rightarrow> u16"
  te_svvptc :: bool
  te_cfg :: riscv_config
  te_kmalloc :: "u64 \<Rightarrow> (nat \<Rightarrow> u8) option"
  te_host :: "u8 list"
  te_claim :: u32

datatype trap_out = Resume cpu_user_regs rv | Panicked | Wild | Stuck

subsection \<open>Guest faults\<close>

definition riscv_guest_fault_is_guest_trap :: "u64 \<Rightarrow> bool" where
  "riscv_guest_fault_is_guest_trap hst \<longleftrightarrow> hst AND 0x80 \<noteq> 0"

definition stage2_fault_addr :: "u64 \<Rightarrow> u64 \<Rightarrow> u64" where
  "stage2_fault_addr htv stv = push_bit 2 htv OR (stv AND 3)"

abbreviation (input) "INST_GUEST_PAGE_FAULT \<equiv> 0x14::u64"
abbreviation (input) "LOAD_GUEST_ACCESS_FAULT \<equiv> 0x15::u64"
abbreviation (input) "VIRT_INSTRUCTION_FAULT \<equiv> 0x16::u64"
abbreviation (input) "STORE_GUEST_AMO_ACCESS_FAULT \<equiv> 0x17::u64"

definition guest_page_fault_cause :: "u64 \<Rightarrow> u64" where
  "guest_page_fault_cause cause =
     (if cause = INST_GUEST_PAGE_FAULT then 0xc else if cause = STORE_GUEST_AMO_ACCESS_FAULT then 0xf else 0xd)"

definition redirect_guest_exception :: "int \<Rightarrow> cpu_user_regs \<Rightarrow> u64 \<Rightarrow> u64 \<Rightarrow> rv \<Rightarrow> int \<times> cpu_user_regs \<times> rv" where
  "redirect_guest_exception me regs cause stv s =
     (case vcpu_redirect_trap me \<lparr>tr_sepc = sepc regs, tr_scause = cause, tr_stval = stv\<rparr> regs s of
        (r, regs1, s1) \<Rightarrow> if r \<noteq> 0 then (- 1, regs1, s1) else (0, regs1, s1))"

definition handle_stage2_fault :: "trap_env \<Rightarrow> int \<Rightarrow> cpu_user_regs \<Rightarrow> u64 \<Rightarrow> rv \<Rightarrow> int \<times> cpu_user_regs \<times> rv" where
  "handle_stage2_fault env me regs cause s =
     (let htv = htval (harts s me); stv = stval (harts s me);
          fault_addr = stage2_fault_addr htv stv;
          fault_page = fault_addr AND NOT 0xFFF;
          is_write = (cause = STORE_GUEST_AMO_ACCESS_FAULT)
      in case riscv_current_vcpu me s of
           None \<Rightarrow> (- 1, regs, s)
         | Some v \<Rightarrow>
             (case guest_mem_find_region (v_mem (vcpus s v)) fault_addr of
                None \<Rightarrow> redirect_guest_exception me regs (guest_page_fault_cause cause)
                          (if stv \<noteq> 0 then stv else fault_addr) s
              | Some region \<Rightarrow>
                  if mr_dev region \<noteq> None
                  then (case vcpu_emulate_mmio (te_p2v env) (te_mem16 env) me v fault_addr is_write regs s of
                          (r, regs1, s1) \<Rightarrow>
                            if r \<noteq> 0
                            then redirect_guest_exception me regs1 (guest_page_fault_cause cause)
                                   (if stv \<noteq> 0 then stv else fault_addr) s1
                            else (0, regs1, s1))
                  else let hpa = mr_hpa region + (fault_page - mr_gpa region);
                           s1 = emit (Stage2Map fault_page hpa 0x1000 (mr_attr region)) s
                       in (0, regs, if \<not> te_svvptc env then emit (HFence me) s1 else s1)))"

definition handle_virtual_instruction :: "int \<Rightarrow> cpu_user_regs \<Rightarrow> rv \<Rightarrow> int \<times> cpu_user_regs \<times> rv" where
  "handle_virtual_instruction me regs s =
     (let inst = stval (harts s me)
      in if inst AND 0xffffff00 = 0x10500000 then (0, set_slot 0 (sepc regs + 4) regs, s)
         else redirect_guest_exception me regs 2 inst s)"

definition riscv_guest_fault_handle_exception ::
    "trap_env \<Rightarrow> int \<Rightarrow> cpu_user_regs \<Rightarrow> u64 \<Rightarrow> rv \<Rightarrow> (int \<times> cpu_user_regs \<times> rv) option" where
  "riscv_guest_fault_handle_exception env me regs cause s =
     (if cause = 0xa then map_option (\<lambda>(r, x). (0, r, x)) (riscv_sbi_handle_vs_ecall (te_sbi env) me regs s)
      else if cause = INST_GUEST_PAGE_FAULT \<or> cause = LOAD_GUEST_ACCESS_FAULT \<or> cause = STORE_GUEST_AMO_ACCESS_FAULT
        then Some (handle_stage2_fault env me regs cause s)
      else if cause = VIRT_INSTRUCTION_FAULT then Some (handle_virtual_instruction me regs s)
      else if riscv_guest_fault_is_guest_trap (hstatus (harts s me))
        then Some (redirect_guest_exception me regs cause (stval (harts s me)) s)
      else Some (- 1, regs, s))"

subsection \<open>Interrupts\<close>

definition handle_s_ext_irq :: "trap_env \<Rightarrow> int \<Rightarrow> rv \<Rightarrow> rv" where
  "handle_s_ext_irq env me s =
     (let irq = te_claim env
      in if irq = 0 then s
         else emit (PlicComplete irq) (if irq = 10 then snd (uart_emul_service_host me (te_host env) s) else s))"

definition handle_s_soft_irq :: "int \<Rightarrow> rv \<Rightarrow> rv" where
  "handle_s_soft_irq me s =
     (let s1 = upd_hart me (\<lambda>h. h\<lparr>sip := sip h AND NOT (push_bit 1 1)\<rparr>) s;
          (p, s2) = riscv_ipi_take_pending me s1;
          s3 = soft_irq_loop me 0 p s2
      in riscv_virt_irq_materialize_current me (riscv_vplic_refresh me s3))"

definition yield_out :: "(cpu_user_regs \<times> rv) option \<Rightarrow> trap_out" where
  "yield_out r = (case r of None \<Rightarrow> Stuck | Some (regs, s) \<Rightarrow> Resume regs s)"

text \<open>Every handler of the table ends in \<open>panic\<close>; the table has 24 entries and is indexed by 5 bits.\<close>

definition fault_info_call :: "u64 \<Rightarrow> trap_out" where
  "fault_info_call cause = (if unat ((ucast cause :: u32) AND 0x1F) < 24 then Panicked else Wild)"

definition do_exception :: "trap_env \<Rightarrow> int \<Rightarrow> cpu_user_regs \<Rightarrow> u64 \<Rightarrow> rv \<Rightarrow> trap_out" where
  "do_exception env me args cause s =
     (let s0 = (case current_task me s of
                  None \<Rightarrow> s
                | Some t \<Rightarrow> if t_mpidr (tasks s t) = 0 \<and> riscv_guest_fault_is_guest_trap (hstatus (harts s me))
                           then riscv_mark_boot_vcpu_started s else s)
      in if bit cause 63
         then let c = cause AND NOT (push_bit 63 1)
              in if c = 1 then yield_out (sched_yield (te_cfg env) (te_kmalloc env) me args (handle_s_soft_irq me s0))
                 else if c = 5 then
                   let s1 = (if me = 0 then snd (uart_emul_service_host me (te_host env) s0) else s0);
                       s2 = riscv_vcpu_timer_refresh_current me (handle_timer_irq me s1)
                   in yield_out (sched_yield (te_cfg env) (te_kmalloc env) me args s2)
                 else if c = 9 then Resume args (handle_s_ext_irq env me s0)
                 else Resume args s0
         else case riscv_guest_fault_handle_exception env me args cause s0 of
                None \<Rightarrow> Stuck
              | Some (r, args1, s1) \<Rightarrow> if r = 0 then Resume args1 s1 else fault_info_call cause)"

section \<open>Properties\<close>

subsection \<open>Pages\<close>

lemma word_and_upper: "x AND y \<le> (x :: u64)"
  by (simp add: word_le_def unsigned_and_eq AND_upper1)

text \<open>The complement of \<open>0xFFF\<close> is \<open>- 4096\<close>.\<close>

lemma page_offset: "x - (x AND - 4096) = x AND (0xFFF :: u64)"
proof -
  have n: "- 4096 = NOT (0xFFF :: u64)" by simp
  have "(x AND NOT 0xFFF) + (x AND 0xFFF) = (x AND NOT 0xFFF) OR (x AND (0xFFF :: u64))"
    by (rule disjunctive_add_eq_or) (auto simp only: bit_eq_iff bit_and_iff bit_not_iff bit_0_eq bot_apply bot_bool_def)
  also have "\<dots> = x" by (rule bit_word_eqI) (auto simp only: bit_or_iff bit_and_iff bit_not_iff possible_bit_word)
  finally have "x = (x AND NOT 0xFFF) + (x AND 0xFFF)" by simp
  then show ?thesis unfolding n by (metis add_diff_cancel_left')
qed

lemma page_offset_nat: "unat (x AND (0xFFF :: u64)) = unat x mod 4096"
proof -
  have m: "(0xFFF :: u64) = mask 12" by (simp add: mask_eq_exp_minus_1)
  show ?thesis unfolding m by (simp add: take_bit_eq_mask [symmetric] unsigned_take_bit_eq take_bit_nat_def)
qed

lemma page_base_nat: "unat (x AND (- 4096 :: u64)) = unat x div 4096 * 4096"
proof -
  have "unat x - unat (x AND - 4096) = unat x mod 4096"
    using unat_sub [OF word_and_upper [of x "- 4096"]] by (simp add: page_offset page_offset_nat)
  moreover have "unat (x AND - 4096) \<le> unat x" using word_and_upper by (simp add: word_le_nat_alt)
  ultimately show ?thesis by (simp add: minus_mod_eq_div_mult [symmetric])
qed

lemma page_base_mono:
  assumes "g \<le> x" "g AND 0xFFF = (0 :: u64)"
  shows "g \<le> x AND - 4096"
proof -
  have "unat g mod 4096 = 0" using assms(2) page_offset_nat [of g] by simp
  then have "unat g = unat g div 4096 * 4096" by (metis add.right_neutral div_mult_mod_eq)
  also have "\<dots> \<le> unat x div 4096 * 4096" using assms(1) by (simp add: word_le_nat_alt div_le_mono)
  finally show ?thesis by (simp add: word_le_nat_alt page_base_nat)
qed

lemma redirect_guest: "redirect_guest_exception me regs cause stv s =
   (0, set_slot 0 (vstvec (harts s me)) regs,
    snd (snd (vcpu_redirect_trap me \<lparr>tr_sepc = sepc regs, tr_scause = cause, tr_stval = stv\<rparr> regs s)))"
  by (simp add: redirect_guest_exception_def vcpu_redirect_trap_def Let_def)

lemma redirect_regs:
  "vscause (harts (snd (snd (vcpu_redirect_trap me trap regs s))) me) = tr_scause trap"
  "vsepc (harts (snd (snd (vcpu_redirect_trap me trap regs s))) me) = tr_sepc trap"
  "vstval (harts (snd (snd (vcpu_redirect_trap me trap regs s))) me) = tr_stval trap"
  by (simp_all add: vcpu_redirect_trap_def Let_def)

lemma stage2_fault_cases:
  assumes v: "riscv_current_vcpu me s = Some v"
  shows "let fa = stage2_fault_addr (htval (harts s me)) (stval (harts s me)); page = fa AND NOT 0xFFF;
      (r, regs', s') = handle_stage2_fault env me regs cause s in
    r = 0 \<and>
    (case guest_mem_find_region (v_mem (vcpus s v)) fa of
       None \<Rightarrow> sepc regs' = vstvec (harts s me) \<and> vscause (harts s' me) = guest_page_fault_cause cause \<and>
         vsepc (harts s' me) = sepc regs
     | Some region \<Rightarrow>
         (case mr_dev region of
            Some dev \<Rightarrow> (regs', s') = snd (vcpu_emulate_mmio (te_p2v env) (te_mem16 env) me v fa (cause = STORE_GUEST_AMO_ACCESS_FAULT) regs s)
          | None \<Rightarrow> regs' = regs \<and> Stage2Map page (mr_hpa region + (page - mr_gpa region)) 0x1000 (mr_attr region) \<in> set (effects s') \<and>
              page \<le> fa \<and> fa - page < 0x1000 \<and>
              (mr_gpa region AND 0xFFF = 0 \<longrightarrow> mr_gpa region \<le> page)))"
proof -
  define fa where "fa = stage2_fault_addr (htval (harts s me)) (stval (harts s me))"
  have page: "fa AND NOT 0xFFF \<le> fa" "fa - (fa AND NOT 0xFFF) < 0x1000"
    by (simp_all add: word_and_upper page_offset word_less_nat_alt page_offset_nat)
  show ?thesis
  proof (cases "guest_mem_find_region (v_mem (vcpus s v)) fa")
    case None
    then show ?thesis using v
      by (simp add: handle_stage2_fault_def Let_def fa_def [symmetric] redirect_guest redirect_regs)
  next
    case (Some region)
    then have "mr_gpa region \<le> fa" by (auto simp: guest_mem_find_region_def find_Some_iff region_contains_def)
    with page_base_mono [of "mr_gpa region" fa] have mono: "mr_gpa region AND 0xFFF = 0 \<longrightarrow> mr_gpa region \<le> fa AND NOT 0xFFF"
      by simp
    show ?thesis
    proof (cases "mr_dev region")
      case None
      then show ?thesis using v Some page mono by (simp add: handle_stage2_fault_def Let_def fa_def [symmetric])
    next
      case dev: (Some dev)
      obtain regs1 s1 where e: "vcpu_emulate_mmio (te_p2v env) (te_mem16 env) me v fa
          (cause = STORE_GUEST_AMO_ACCESS_FAULT) regs s = (0, regs1, s1)"
        using Some dev by (cases "vcpu_emulate_mmio (te_p2v env) (te_mem16 env) me v fa
          (cause = STORE_GUEST_AMO_ACCESS_FAULT) regs s") (auto simp: vcpu_emulate_mmio_def Let_def split_beta split: if_splits)
      show ?thesis using v Some dev e by (simp add: handle_stage2_fault_def Let_def fa_def [symmetric])
    qed
  qed
qed


definition quiet_env :: trap_env where
  "quiet_env = \<lparr>te_sbi = \<lparr>e_mem64 = \<lambda>_. 0, e_mem8 = \<lambda>_. 0, e_fw = \<lambda>_ _. (0, 0), e_tb = 10000000, e_obs = \<lambda>_. []\<rparr>,
     te_p2v = (\<lambda>x. x), te_mem16 = (\<lambda>_. 0), te_svvptc = False, te_cfg = full_config, te_kmalloc = (\<lambda>_. None), te_host = [],
     te_claim = 0\<rparr>"

text \<open>A guest with memory at \<open>0x90000000\<close>, faulting at \<open>0x90001234\<close>.\<close>

definition faulting_guest :: rv where
  "faulting_guest = zero_rv\<lparr>g_current_task := (\<lambda>_. Some 1), tasks := (\<lambda>_. zero_task\<lparr>t_vcpu := Some 1\<rparr>),
     vcpus := (\<lambda>_. zero_vcpu\<lparr>v_mem := [ram_region full_config]\<rparr>),
     harts := (\<lambda>_. zero_hart\<lparr>htval := 0x2400048D, hstatus := 0x180\<rparr>)\<rparr>"




section \<open>Interrupts after a switch\<close>

lemma irq_state_vector:
  "virt_irq_pending (fst (vector_csr_save km c h)) = virt_irq_pending c" "v_timer (fst (vector_csr_save km c h)) = v_timer c"
  "vcpu_id (fst (vector_csr_save km c h)) = vcpu_id c"
proof -
  obtain b z where e: "fst (vector_csr_save km c h) = c\<lparr>v_vstart := h_vstart h, v_vxsat := csrr_vxsat h,
      v_vxrm := csrr_vxrm h, v_vcsr := h_vcsr h, v_vl := h_vl h, v_vtype := h_vtype h, v_vlenb := h_vlenb h,
      v_vregs := b, v_vregs_size := z\<rparr>"
    using vector_regs_save_frame [of km "c\<lparr>v_vstart := h_vstart h, v_vxsat := csrr_vxsat h,
      v_vxrm := csrr_vxrm h, v_vcsr := h_vcsr h, v_vl := h_vl h, v_vtype := h_vtype h, v_vlenb := h_vlenb h\<rparr>"
      "h\<lparr>sstatus := sstatus h OR SSTATUS_VS_DIRTY\<rparr>"]
    by (auto simp: vector_csr_save_def Let_def split_beta csrr_vxsat_def csrr_vxrm_def)
  show "virt_irq_pending (fst (vector_csr_save km c h)) = virt_irq_pending c" "v_timer (fst (vector_csr_save km c h)) = v_timer c"
    "vcpu_id (fst (vector_csr_save km c h)) = vcpu_id c"
    unfolding e by simp_all
qed

lemma irq_state_save:
  "virt_irq_pending (vcpus (vcpu_context_save cfg km me v s) w) = virt_irq_pending (vcpus s w)"
  "v_timer (vcpus (vcpu_context_save cfg km me v s) w) = v_timer (vcpus s w)"
  "vcpu_id (vcpus (vcpu_context_save cfg km me v s) w) = vcpu_id (vcpus s w)"
  "g_vplic (vcpu_context_save cfg km me v s) = g_vplic s"
  by (simp_all add: vcpu_context_save_def Let_def split_beta fpu_save_def irq_state_vector)

lemma timer_refresh_line:
  "virt_line (riscv_vcpu_timer_refresh me (Some v) s) w i \<longleftrightarrow>
     virt_line s w i \<or> w = v \<and> i = IRQ_VS_TIMER \<and> armed (v_timer (vcpus s v)) \<and> deadline_cycles (v_timer (vcpus s v)) \<le> now s"
  "g_vplic (riscv_vcpu_timer_refresh me (Some v) s) = g_vplic s"
  "vcpu_id (vcpus (riscv_vcpu_timer_refresh me (Some v) s) w) = vcpu_id (vcpus s w)"
proof -
  have "virt_line (upd_vcpu v (\<lambda>c. c\<lparr>v_timer := f c\<rparr>) s) w i = virt_line s w i" for f by (simp add: virt_line_def)
  then show "virt_line (riscv_vcpu_timer_refresh me (Some v) s) w i \<longleftrightarrow>
     virt_line s w i \<or> w = v \<and> i = IRQ_VS_TIMER \<and> armed (v_timer (vcpus s v)) \<and> deadline_cycles (v_timer (vcpus s v)) \<le> now s"
    by (auto simp: riscv_vcpu_timer_refresh_def riscv_timer_refresh_def lines.line_raise not_less)
qed (auto simp: riscv_vcpu_timer_refresh_def riscv_timer_refresh_def riscv_virt_irq_assert_def Let_def)

lemma vplic_refresh_line:
  assumes "riscv_current_vcpu me s = Some v"
  shows "virt_line (riscv_vplic_refresh me s) w i \<longleftrightarrow> (if w = v \<and> i = IRQ_VS_EXT
    then vplic_context_has_deliverable_locked (g_vplic s) (unat (word_of_int (vcpu_id (vcpus s v)) :: u32)) else virt_line s w i)"
proof -
  obtain t where t: "current_task me s = Some t" "t_vcpu (tasks s t) = Some v"
    using assms by (auto simp: riscv_current_vcpu_def split: option.splits)
  have "virt_line (riscv_vplic_refresh me s) w i = virt_line (vplic_set_task_vseip me (Some t)
      (vplic_context_has_deliverable_locked (g_vplic s) (unat (word_of_int (vcpu_id (vcpus s v)) :: u32))) s) w i"
    by (simp add: riscv_vplic_refresh_def t)
  then show ?thesis unfolding vseip_line by (simp add: t(2) eq_commute [of v])
qed

definition keeps_irq :: "rv \<Rightarrow> rv \<Rightarrow> bool" where
  "keeps_irq s s1 \<longleftrightarrow> g_vplic s1 = g_vplic s \<and> (\<forall>x. virt_irq_pending (vcpus s1 x) = virt_irq_pending (vcpus s x) \<and>
     v_timer (vcpus s1 x) = v_timer (vcpus s x) \<and> vcpu_id (vcpus s1 x) = vcpu_id (vcpus s x))"

lemma keeps_irq_save: "keeps_irq s (vcpu_context_save cfg km me v (upd_vcpu v (\<lambda>x. x\<lparr>v_regs := r\<rparr>) (upd_task t f s)))"
  by (simp add: keeps_irq_def irq_state_save)

lemma vcpu_switch_shape:
  assumes sw: "vcpu_switch cfg km me cur nxt regs s = Some (regs', s')" and v: "t_vcpu (tasks s nxt) = Some v"
  shows "\<exists>s1. same_frame (upd_task nxt (\<lambda>t. t\<lparr>t_switch_count := t_switch_count t + 1\<rparr>) s) s1 \<and> keeps_irq s s1 \<and>
    s' = hyp_timer_rearm me (riscv_virt_irq_materialize me (Some v) (riscv_vplic_refresh me
      (riscv_vcpu_timer_refresh me (Some v) (set_current me (Some nxt) (vcpu_context_restore cfg me v s1)))))"
proof -
  let ?s0 = "upd_task nxt (\<lambda>t. t\<lparr>t_switch_count := t_switch_count t + 1\<rparr>) s"
  show ?thesis
  proof (cases cur)
    case None
    then show ?thesis using sw v by (intro exI [of _ ?s0]) (auto simp: vcpu_switch_def Let_def keeps_irq_def)
  next
    case (Some c)
    then obtain vc where vc: "t_vcpu (tasks ?s0 c) = Some vc" using sw by (auto simp: vcpu_switch_def Let_def split: option.splits)
    let ?s1 = "vcpu_context_save cfg km me vc (upd_vcpu vc (\<lambda>x. x\<lparr>v_regs := regs\<rparr>) ?s0)"
    have fr: "same_frame ?s0 ?s1" by (rule same_frame_trans [OF same_frame_upd(1) context_frame(1)])
    then have "t_vcpu (tasks ?s1 nxt) = Some v" using v by (simp add: same_frame_def)
    then show ?thesis using sw Some vc fr keeps_irq_save
      by (intro exI [of _ ?s1]) (simp add: vcpu_switch_def Let_def del: tasks_upd)
  qed
qed

text \<open>
  A virtual CPU that is switched in sees its interrupts as they are then: the interrupt register of
  the hart equals its pending lines; its external line is up iff the interrupt controller has something
  to deliver to its context; its timer line is up iff it was or its armed deadline has passed; and its
  software line is as it was left, also when it was raised while the virtual CPU was not running.
\<close>

theorem switched_guest_interrupts:
  assumes sw: "vcpu_switch cfg km me cur nxt regs s = Some (regs', s')" and v: "t_vcpu (tasks s nxt) = Some v"
  shows "hvip (harts s' me) = virt_irq_pending (vcpus s' v) \<and>
    (virt_line s' v IRQ_VS_EXT \<longleftrightarrow>
       vplic_context_has_deliverable_locked (g_vplic s) (unat (word_of_int (vcpu_id (vcpus s v)) :: u32))) \<and>
    (virt_line s' v IRQ_VS_TIMER \<longleftrightarrow> virt_line s v IRQ_VS_TIMER \<or>
       armed (v_timer (vcpus s v)) \<and> deadline_cycles (v_timer (vcpus s v)) \<le> now s) \<and>
    (virt_line s' v IRQ_VS_SOFT \<longleftrightarrow> virt_line s v IRQ_VS_SOFT)"
proof -
  obtain s1 where fr: "same_frame (upd_task nxt (\<lambda>t. t\<lparr>t_switch_count := t_switch_count t + 1\<rparr>) s) s1" and k: "keeps_irq s s1" and
    s': "s' = hyp_timer_rearm me (riscv_virt_irq_materialize me (Some v) (riscv_vplic_refresh me
      (riscv_vcpu_timer_refresh me (Some v) (set_current me (Some nxt) (vcpu_context_restore cfg me v s1)))))"
    using vcpu_switch_shape [OF sw v] by blast
  have st: "g_vplic s1 = g_vplic s" "\<And>x. virt_irq_pending (vcpus s1 x) = virt_irq_pending (vcpus s x)"
      "\<And>x. v_timer (vcpus s1 x) = v_timer (vcpus s x)" "\<And>x. vcpu_id (vcpus s1 x) = vcpu_id (vcpus s x)"
    using k by (simp_all add: keeps_irq_def)
  define s3 where "s3 = set_current me (Some nxt) (vcpu_context_restore cfg me v s1)"
  define s4 where "s4 = riscv_vcpu_timer_refresh me (Some v) s3"
  define s5 where "s5 = riscv_vplic_refresh me s4"
  have s3: "riscv_current_vcpu me s3 = Some v" "g_vplic s3 = g_vplic s" "vcpus s3 = vcpus s1" "now s3 = now s"
    using v context_frame(2) [of s1 cfg me v] fr st(1)
    by (simp_all add: s3_def riscv_current_vcpu_def same_frame_def vcpu_context_restore_def Let_def)
  have c4: "riscv_current_vcpu me s4 = Some v" and c5: "riscv_current_vcpu me s5 = Some v"
    using s3(1) same_frame_vcpu [OF refresh_frame(1)] same_frame_vcpu [OF refresh_frame(2)] by (simp_all add: s4_def s5_def)
  have s': "s' = hyp_timer_rearm me (upd_hart me (\<lambda>h. h\<lparr>hvip := virt_irq_pending (vcpus s5 v)\<rparr>) s5)"
    unfolding s' s3_def [symmetric] s4_def [symmetric] s5_def [symmetric] by (simp add: riscv_virt_irq_materialize_def c5)
  have h: "hvip (harts s' me) = virt_irq_pending (vcpus s' v)"
    unfolding s' by (simp add: hyp_timer_rearm_def enable_timer_irq_def)
  have l': "virt_line s' = virt_line s5" unfolding s' by (simp add: virt_line_def fun_eq_iff)
  have l3: "virt_line s3 v i = virt_line s v i" for i by (simp add: virt_line_def s3(3) st(2))
  have i4: "g_vplic s4 = g_vplic s" "vcpu_id (vcpus s4 v) = vcpu_id (vcpus s v)"
    by (simp_all add: s4_def timer_refresh_line s3 st(4))
  have l5: "virt_line s5 v i \<longleftrightarrow> (if i = IRQ_VS_EXT
      then vplic_context_has_deliverable_locked (g_vplic s) (unat (word_of_int (vcpu_id (vcpus s v)) :: u32))
      else virt_line s v i \<or> i = IRQ_VS_TIMER \<and> armed (v_timer (vcpus s v)) \<and> deadline_cycles (v_timer (vcpus s v)) \<le> now s)" for i
    unfolding s5_def vplic_refresh_line [OF c4] i4 unfolding s4_def timer_refresh_line(1) l3 by (simp add: s3 st(3))
  show ?thesis using h unfolding l' l5 by simp
qed

theorem switched_guest_interrupts_witness:
  "\<exists>regs' s'. vcpu_switch full_config (\<lambda>_. None) 0 None 1 zero_regs
      (two_tasks\<lparr>vcpus := (\<lambda>_. zero_vcpu\<lparr>v_timer := \<lparr>deadline_cycles = 0, armed = True, pending = False\<rparr>\<rparr>)\<rparr>) = Some (regs', s') \<and>
     virt_line s' 1 IRQ_VS_TIMER"
proof -
  let ?s = "two_tasks\<lparr>vcpus := (\<lambda>_. zero_vcpu\<lparr>v_timer := \<lparr>deadline_cycles = 0, armed = True, pending = False\<rparr>\<rparr>)\<rparr>"
  obtain regs' s' where sw: "vcpu_switch full_config (\<lambda>_. None) 0 None 1 zero_regs ?s = Some (regs', s')"
    using vcpu_switch_returns [of ?s 1 None full_config "\<lambda>_. None" 0 zero_regs] by auto
  from switched_guest_interrupts [OF sw, of 1] have "virt_line s' 1 IRQ_VS_TIMER" by simp
  with sw show ?thesis by blast
qed

end
