(* ===== verification/Pl011.thy ===== *)
theory Pl011
  imports Byte_Fifo
begin

text \<open>
  The emulated PL011 UART of the AArch64 port (\<^verbatim>\<open>src/core/emul_uart.c\<close>): its receive FIFO, its registers
  and the interrupt it injects into the guest. The injection itself belongs to the interrupt
  controller; here it is an event, together with the bytes handed to the host UART. Whether there is a task to
  receive the interrupt, and whether it is the current one, is part of the environment \<open>pl_env\<close>, as are the
  configuration values the code reads.
\<close>

section \<open>State\<close>

datatype uart_event = InjectVirq | FlushLr | HostPut u8

record uart_emul_state =
  pl_fifo :: "u8 list"
  pl_head :: nat
  pl_tail :: nat
  pl_count :: nat
  ibrd :: u32
  fbrd :: u32
  lcr_h :: u32
  cr :: u32
  ifls :: u32
  imsc :: u32
  ris :: u32
  dmacr :: u32
  irq_latched :: bool
  pl_events :: "uart_event list"

record pl_env =
  guest_base :: u64
  uart_enabled :: bool
  has_target :: bool
  target_is_current :: bool

abbreviation (input) "PL_FIFO_SIZE \<equiv> 128 :: nat"
abbreviation (input) "UART_INT_RX_RT \<equiv> 0x50 :: u32"
abbreviation (input) "UART_INT_ALL \<equiv> 0x7ff :: u32"

section \<open>Operations\<close>

definition uart_emul_offset :: "pl_env \<Rightarrow> u64 \<Rightarrow> u32" where
  "uart_emul_offset e addr = ucast (addr - guest_base e)"

definition uart_emul_rx_empty :: "uart_emul_state \<Rightarrow> bool" where
  "uart_emul_rx_empty u \<longleftrightarrow> pl_count u = 0"

definition uart_emul_rx_full :: "uart_emul_state \<Rightarrow> bool" where
  "uart_emul_rx_full u \<longleftrightarrow> pl_count u = PL_FIFO_SIZE"

definition uart_emul_rx_pop :: "uart_emul_state \<Rightarrow> (u8 \<times> uart_emul_state) option" where
  "uart_emul_rx_pop u =
     (if uart_emul_rx_empty u then None
      else Some (pl_fifo u ! pl_tail u, u\<lparr>pl_tail := (pl_tail u + 1) mod PL_FIFO_SIZE, pl_count := pl_count u - 1\<rparr>))"

text \<open>The part of \<open>uart_vcpu_inject_rx\<close> under the lock.\<close>

definition uart_emul_rx_push :: "u8 \<Rightarrow> uart_emul_state \<Rightarrow> uart_emul_state option" where
  "uart_emul_rx_push ch u =
     (if uart_emul_rx_full u then None
      else Some (u\<lparr>pl_fifo := (pl_fifo u)[pl_head u := ch], pl_head := (pl_head u + 1) mod PL_FIFO_SIZE,
             pl_count := pl_count u + 1\<rparr>))"

definition uart_emul_refresh_rx_irq :: "uart_emul_state \<Rightarrow> uart_emul_state" where
  "uart_emul_refresh_rx_irq u =
     (if uart_emul_rx_empty u then u\<lparr>ris := ris u AND NOT UART_INT_RX_RT\<rparr> else u\<lparr>ris := ris u OR UART_INT_RX_RT\<rparr>)"

definition uart_emul_update_irq :: "pl_env \<Rightarrow> uart_emul_state \<Rightarrow> uart_emul_state" where
  "uart_emul_update_irq e u0 =
     (let u = uart_emul_refresh_rx_irq u0
      in if ris u AND imsc u AND UART_INT_RX_RT = 0 then u\<lparr>irq_latched := False\<rparr>
         else if irq_latched u then u
         else let u1 = u\<lparr>irq_latched := True\<rparr>
              in if \<not> has_target e then u1
                 else u1\<lparr>pl_events := pl_events u1 @ [InjectVirq] @ (if target_is_current e then [FlushLr] else [])\<rparr>)"

definition uart_emul_read_fr :: "uart_emul_state \<Rightarrow> u32" where
  "uart_emul_read_fr u =
     (let fr = push_bit 7 1 OR push_bit 0 1;
          fr1 = (if uart_emul_rx_empty u then fr OR push_bit 4 1 else fr)
      in if uart_emul_rx_full u then fr1 OR push_bit 6 1 else fr1)"

definition uart_emul_read_id :: "u32 \<Rightarrow> u32" where
  "uart_emul_read_id off =
     (if off = 0xfd0 then 0x04 else if off = 0xfe0 then 0x11 else if off = 0xfe4 then 0x10
      else if off = 0xfe8 then 0x14 else if off = 0xff0 then 0x0d else if off = 0xff4 then 0xf0
      else if off = 0xff8 then 0x05 else if off = 0xffc then 0xb1 else 0)"

definition uart_emul_putc :: "u8 \<Rightarrow> uart_emul_state \<Rightarrow> uart_emul_state" where
  "uart_emul_putc ch u = u\<lparr>pl_events := pl_events u @ [HostPut ch]\<rparr>"

definition pl011_inject_rx :: "pl_env \<Rightarrow> u8 \<Rightarrow> uart_emul_state \<Rightarrow> int \<times> uart_emul_state" where
  "pl011_inject_rx e ch u =
     (if \<not> uart_enabled e then (- 1, u)
      else case uart_emul_rx_push ch u of
             None \<Rightarrow> (- 1, u)
           | Some u1 \<Rightarrow> (0, uart_emul_update_irq e u1))"

fun pl011_service_loop :: "pl_env \<Rightarrow> u8 list \<Rightarrow> uart_emul_state \<Rightarrow> u8 list \<times> uart_emul_state" where
  "pl011_service_loop e [] u = ([], u)"
| "pl011_service_loop e (ch # host) u =
     (case pl011_inject_rx e ch u of (r, u1) \<Rightarrow> if r \<noteq> 0 then (host, u1) else pl011_service_loop e host u1)"

definition pl011_service_host :: "pl_env \<Rightarrow> u8 list \<Rightarrow> uart_emul_state \<Rightarrow> u8 list \<times> uart_emul_state" where
  "pl011_service_host e host u = (if \<not> uart_enabled e then (host, u) else pl011_service_loop e host u)"

definition uart_emul_read :: "pl_env \<Rightarrow> u64 \<Rightarrow> uart_emul_state \<Rightarrow> u64 \<times> uart_emul_state" where
  "uart_emul_read e addr u =
     (let off = uart_emul_offset e addr
      in if off = 0x000 then
           (case uart_emul_rx_pop u of
              None \<Rightarrow> (0, uart_emul_update_irq e u)
            | Some (ch, u1) \<Rightarrow> (ucast ch, uart_emul_update_irq e u1))
         else if off = 0x004 then (0, u)
         else if off = 0x018 then (ucast (uart_emul_read_fr u), u)
         else if off = 0x024 then (ucast (ibrd u), u)
         else if off = 0x028 then (ucast (fbrd u), u)
         else if off = 0x02C then (ucast (lcr_h u), u)
         else if off = 0x030 then (ucast (cr u), u)
         else if off = 0x034 then (ucast (ifls u), u)
         else if off = 0x038 then (ucast (imsc u), u)
         else if off = 0x03C then (let u1 = uart_emul_refresh_rx_irq u in (ucast (ris u1), u1))
         else if off = 0x040 then (let u1 = uart_emul_refresh_rx_irq u in (ucast (ris u1 AND imsc u1), u1))
         else if off = 0x048 then (ucast (dmacr u), u)
         else if 0xfd0 \<le> off \<and> off \<le> 0xffc then (ucast (uart_emul_read_id off), u)
         else (0, u))"

definition uart_emul_write :: "pl_env \<Rightarrow> u64 \<Rightarrow> u64 \<Rightarrow> uart_emul_state \<Rightarrow> uart_emul_state" where
  "uart_emul_write e addr value u =
     (let off = uart_emul_offset e addr; val = (ucast value :: u32)
      in if off = 0x000 then uart_emul_putc (ucast (val AND 0xff)) u
         else if off = 0x004 then u
         else if off = 0x024 then u\<lparr>ibrd := val\<rparr>
         else if off = 0x028 then u\<lparr>fbrd := val\<rparr>
         else if off = 0x02C then u\<lparr>lcr_h := val\<rparr>
         else if off = 0x030 then uart_emul_update_irq e (u\<lparr>cr := val\<rparr>)
         else if off = 0x034 then u\<lparr>ifls := val\<rparr>
         else if off = 0x038 then uart_emul_update_irq e (u\<lparr>imsc := val AND UART_INT_ALL\<rparr>)
         else if off = 0x044 then uart_emul_update_irq e (u\<lparr>ris := ris u AND NOT (val AND UART_INT_ALL)\<rparr>)
         else if off = 0x048 then u\<lparr>dmacr := val\<rparr>
         else u)"

definition pl011_register_emul :: uart_emul_state where
  "pl011_register_emul =
     \<lparr>pl_fifo = replicate PL_FIFO_SIZE 0, pl_head = 0, pl_tail = 0, pl_count = 0, ibrd = 0, fbrd = 0,
      lcr_h = push_bit 5 3 OR push_bit 4 1, cr = push_bit 0 1 OR push_bit 8 1 OR push_bit 9 1, ifls = 0, imsc = 0,
      ris = 0, dmacr = 0, irq_latched = False, pl_events = []\<rparr>"

section \<open>The receive FIFO\<close>

definition pl_ok :: "uart_emul_state \<Rightarrow> bool" where
  "pl_ok u \<longleftrightarrow> length (pl_fifo u) = PL_FIFO_SIZE \<and> ring_ok (pl_fifo u) (pl_head u) (pl_tail u) (pl_count u)"

definition pl_contents :: "uart_emul_state \<Rightarrow> u8 list" where
  "pl_contents u = ring (pl_fifo u) (pl_tail u) (pl_count u)"

lemma pl_contents_empty: "pl_contents u = [] \<longleftrightarrow> pl_count u = 0"
  by (metis length_0_conv length_ring pl_contents_def)

lemma pl_pop_spec:
  assumes "pl_ok u" "pl_count u \<noteq> 0"
  shows "uart_emul_rx_pop u = Some (hd (pl_contents u), u\<lparr>pl_tail := (pl_tail u + 1) mod PL_FIFO_SIZE, pl_count := pl_count u - 1\<rparr>)"
    "pl_ok (u\<lparr>pl_tail := (pl_tail u + 1) mod PL_FIFO_SIZE, pl_count := pl_count u - 1\<rparr>)"
    "pl_contents (u\<lparr>pl_tail := (pl_tail u + 1) mod PL_FIFO_SIZE, pl_count := pl_count u - 1\<rparr>) = tl (pl_contents u)"
proof -
  have len: "length (pl_fifo u) = PL_FIFO_SIZE" using assms by (simp add: pl_ok_def)
  have "ring_ok (pl_fifo u) (pl_head u) (pl_tail u) (pl_count u)" "0 < pl_count u" using assms by (auto simp: pl_ok_def)
  note P = ring_pop [OF this, unfolded len]
  show "uart_emul_rx_pop u = Some (hd (pl_contents u), u\<lparr>pl_tail := (pl_tail u + 1) mod PL_FIFO_SIZE, pl_count := pl_count u - 1\<rparr>)"
    "pl_ok (u\<lparr>pl_tail := (pl_tail u + 1) mod PL_FIFO_SIZE, pl_count := pl_count u - 1\<rparr>)"
    "pl_contents (u\<lparr>pl_tail := (pl_tail u + 1) mod PL_FIFO_SIZE, pl_count := pl_count u - 1\<rparr>) = tl (pl_contents u)"
    using P assms(2) len by (simp_all add: uart_emul_rx_pop_def uart_emul_rx_empty_def pl_contents_def pl_ok_def)
qed

lemma pl_push_spec:
  assumes "pl_ok u" "pl_count u < PL_FIFO_SIZE"
  shows "\<exists>u'. uart_emul_rx_push c u = Some u' \<and> pl_ok u' \<and> pl_contents u' = pl_contents u @ [c]"
proof -
  have len: "length (pl_fifo u) = PL_FIFO_SIZE" using assms by (simp add: pl_ok_def)
  have "ring_ok (pl_fifo u) (pl_head u) (pl_tail u) (pl_count u)" "pl_count u < length (pl_fifo u)"
    using assms len by (auto simp: pl_ok_def)
  note P = ring_push [OF this, of c, unfolded len]
  show ?thesis using P assms(2) len by (simp add: uart_emul_rx_push_def uart_emul_rx_full_def pl_contents_def pl_ok_def)
qed

interpretation pl: byte_fifo uart_emul_rx_push uart_emul_rx_pop pl_contents pl_ok PL_FIFO_SIZE
proof (unfold_locales, goal_cases)
  case (1 s c)
  then show ?case using pl_push_spec [of s c] by (simp add: pl_contents_def)
next
  case (2 s c)
  then show ?case by (simp add: pl_contents_def pl_ok_def ring_ok_def uart_emul_rx_push_def uart_emul_rx_full_def)
next
  case (3 s c cs)
  then have "pl_count s \<noteq> 0" using pl_contents_empty [of s] by auto
  with 3 show ?case using pl_pop_spec [of s] by auto
next
  case (4 s)
  then show ?case by (simp add: pl_contents_empty uart_emul_rx_pop_def uart_emul_rx_empty_def)
qed

section \<open>The interrupt\<close>

text \<open>The condition under which the device asserts its interrupt: data waiting, and not masked.\<close>

definition pl_cond :: "uart_emul_state \<Rightarrow> bool" where
  "pl_cond u \<longleftrightarrow> pl_count u \<noteq> 0 \<and> imsc u AND UART_INT_RX_RT \<noteq> 0"

definition injections :: "uart_emul_state \<Rightarrow> nat" where
  "injections u = length (filter (\<lambda>x. x = InjectVirq) (pl_events u))"

definition pl_inv :: "uart_emul_state \<Rightarrow> bool" where
  "pl_inv u \<longleftrightarrow> pl_ok u \<and> (irq_latched u \<longleftrightarrow> pl_cond u)"

lemma masked_status:
  "(r AND - 81) AND m AND 80 = (0 :: u32)" "(r OR 80) AND m AND 80 = m AND (80 :: u32)"
proof -
  have "(r AND NOT c) AND m AND c = 0" for c :: u32 by (rule bit_word_eqI) (auto simp: bit_simps)
  from this [of 80] show "(r AND - 81) AND m AND 80 = (0 :: u32)" by simp
  show "(r OR 80) AND m AND 80 = m AND (80 :: u32)" by (rule bit_word_eqI) (auto simp: bit_and_iff bit_or_iff)
qed

lemma update_irq_keeps:
  "pl_fifo (uart_emul_update_irq e u) = pl_fifo u" "pl_head (uart_emul_update_irq e u) = pl_head u"
  "pl_tail (uart_emul_update_irq e u) = pl_tail u" "pl_count (uart_emul_update_irq e u) = pl_count u"
  "imsc (uart_emul_update_irq e u) = imsc u"
  by (simp_all add: uart_emul_update_irq_def uart_emul_refresh_rx_irq_def Let_def)

lemma update_irq_state:
  "pl_ok (uart_emul_update_irq e u) = pl_ok u" "pl_contents (uart_emul_update_irq e u) = pl_contents u"
  "pl_cond (uart_emul_update_irq e u) = pl_cond u"
  by (simp_all add: pl_ok_def pl_contents_def pl_cond_def update_irq_keeps)

lemma update_irq_latch: "irq_latched (uart_emul_update_irq e u) \<longleftrightarrow> pl_cond u"
  by (simp add: uart_emul_update_irq_def uart_emul_refresh_rx_irq_def uart_emul_rx_empty_def Let_def masked_status pl_cond_def)

lemma update_irq_injections:
  "injections (uart_emul_update_irq e u) = injections u + (if pl_cond u \<and> \<not> irq_latched u \<and> has_target e then 1 else 0)"
  by (simp add: uart_emul_update_irq_def uart_emul_refresh_rx_irq_def uart_emul_rx_empty_def Let_def masked_status pl_cond_def
      injections_def)

text \<open>Bytes from the host and accesses by the guest, as steps.\<close>

datatype pl_op = Rx u8 | Rd u64 | Wr u64 u64

fun pl_step :: "pl_env \<Rightarrow> pl_op \<Rightarrow> uart_emul_state \<Rightarrow> uart_emul_state" where
  "pl_step e (Rx ch) u = snd (pl011_inject_rx e ch u)"
| "pl_step e (Rd a) u = snd (uart_emul_read e a u)"
| "pl_step e (Wr a x) u = uart_emul_write e a x u"

definition accepted :: "pl_env \<Rightarrow> pl_op \<Rightarrow> uart_emul_state \<Rightarrow> u8 list" where
  "accepted e op u = (case op of Rx ch \<Rightarrow> if fst (pl011_inject_rx e ch u) = 0 then [ch] else [] | _ \<Rightarrow> [])"

definition delivered :: "pl_env \<Rightarrow> pl_op \<Rightarrow> uart_emul_state \<Rightarrow> u8 list" where
  "delivered e op u = (case op of
     Rd a \<Rightarrow> if uart_emul_offset e a = 0 \<and> pl_count u \<noteq> 0 then [ucast (fst (uart_emul_read e a u))] else [] | _ \<Rightarrow> [])"

fun pl_trace :: "pl_env \<Rightarrow> pl_op list \<Rightarrow> uart_emul_state \<Rightarrow> u8 list \<times> u8 list \<times> nat" where
  "pl_trace e [] u = ([], [], 0)"
| "pl_trace e (op # ops) u =
     (case pl_trace e ops (pl_step e op u) of (ins, outs, edges) \<Rightarrow>
        (accepted e op u @ ins, delivered e op u @ outs, edges + (if \<not> pl_cond u \<and> pl_cond (pl_step e op u) then 1 else 0)))"

text \<open>What one step does, for each kind of step.\<close>

definition pl_step_ok :: "pl_env \<Rightarrow> pl_op \<Rightarrow> uart_emul_state \<Rightarrow> bool" where
  "pl_step_ok e op u \<longleftrightarrow> (let u' = pl_step e op u in
     pl_inv u' \<and> pl_contents u @ accepted e op u = delivered e op u @ pl_contents u' \<and>
     injections u' = injections u + (if \<not> pl_cond u \<and> pl_cond u' \<and> has_target e then 1 else 0))"

lemma pl_step_quiet:
  assumes "pl_inv u" "u' = pl_step e op u" "accepted e op u = []" "delivered e op u = []"
    "pl_fifo u' = pl_fifo u" "pl_head u' = pl_head u" "pl_tail u' = pl_tail u" "pl_count u' = pl_count u"
    "imsc u' = imsc u" "irq_latched u' = irq_latched u" "injections u' = injections u"
  shows "pl_step_ok e op u"
  using assms by (auto simp: pl_step_ok_def pl_inv_def pl_ok_def pl_cond_def pl_contents_def Let_def)

lemma pl_step_update:
  assumes "pl_inv u" "pl_step e op u = uart_emul_update_irq e u1" "pl_ok u1"
    "pl_contents u @ accepted e op u = delivered e op u @ pl_contents u1" "irq_latched u1 = irq_latched u" "injections u1 = injections u"
  shows "pl_step_ok e op u"
  using assms by (simp add: pl_step_ok_def pl_inv_def Let_def update_irq_state update_irq_latch update_irq_injections)

lemma pl_step_rx:
  assumes "pl_inv u"
  shows "pl_step_ok e (Rx ch) u"
proof (cases "uart_enabled e \<and> \<not> uart_emul_rx_full u")
  case False
  then have "pl011_inject_rx e ch u = (- 1, u)" by (auto simp: pl011_inject_rx_def uart_emul_rx_push_def)
  then show ?thesis using assms by (intro pl_step_quiet) (simp_all add: accepted_def delivered_def)
next
  case True
  have "pl_count u < PL_FIFO_SIZE"
    using True assms by (auto simp: pl_inv_def pl_ok_def ring_ok_def uart_emul_rx_full_def)
  then obtain u1 where u1: "uart_emul_rx_push ch u = Some u1" "pl_ok u1" "pl_contents u1 = pl_contents u @ [ch]"
    using pl_push_spec assms unfolding pl_inv_def by blast
  from u1(1) have "irq_latched u1 = irq_latched u" "injections u1 = injections u"
    by (auto simp: uart_emul_rx_push_def injections_def split: if_splits)
  with u1 True show ?thesis
    by (intro pl_step_update [OF assms, where ?u1.0 = u1]) (simp_all add: pl011_inject_rx_def accepted_def delivered_def)
qed

lemma pl_step_rd:
  assumes I: "pl_inv u"
  shows "pl_step_ok e (Rd a) u"
proof (cases "uart_emul_offset e a = 0")
  case False
  have r: "x = u \<or> x = uart_emul_refresh_rx_irq u" if "x = snd (uart_emul_read e a u)" for x
    using that False by (auto simp: uart_emul_read_def Let_def)
  show ?thesis using r [OF refl] False
    by (intro pl_step_quiet [OF I refl])
      (auto simp: accepted_def delivered_def uart_emul_refresh_rx_irq_def injections_def split: if_splits)
next
  case True
  show ?thesis
  proof (cases "pl_count u = 0")
    case empty: True
    then show ?thesis using True I
      by (intro pl_step_update [OF I, where ?u1.0 = u])
        (simp_all add: uart_emul_read_def uart_emul_rx_pop_def uart_emul_rx_empty_def accepted_def delivered_def pl_inv_def)
  next
    case False
    let ?u1 = "u\<lparr>pl_tail := (pl_tail u + 1) mod PL_FIFO_SIZE, pl_count := pl_count u - 1\<rparr>"
    have ok: "pl_ok u" using I by (simp add: pl_inv_def)
    note P = pl_pop_spec [OF ok False]
    have "pl_contents u \<noteq> []" using False by (simp add: pl_contents_empty)
    moreover have "ucast (ucast c :: u64) = c" for c :: u8 by (rule bit_word_eqI) (auto simp: bit_simps)
    ultimately show ?thesis using True False P
      by (intro pl_step_update [OF I, where ?u1.0 = ?u1])
        (simp_all add: uart_emul_read_def accepted_def delivered_def injections_def)
  qed
qed

lemma pl_step_wr:
  assumes I: "pl_inv u"
  shows "pl_step_ok e (Wr a x) u"
proof -
  have n: "accepted e (Wr a x) u = []" "delivered e (Wr a x) u = []" by (simp_all add: accepted_def delivered_def)
  let ?v = "ucast x :: u32"
  have upd: "\<exists>u1. pl_step e (Wr a x) u = uart_emul_update_irq e u1 \<and> pl_ok u1 \<and> pl_contents u1 = pl_contents u \<and>
      irq_latched u1 = irq_latched u \<and> injections u1 = injections u" if off: "uart_emul_offset e a \<in> {0x30, 0x38, 0x44}"
  proof -
    consider "uart_emul_offset e a = 0x30" | "uart_emul_offset e a = 0x38" | "uart_emul_offset e a = 0x44" using off by blast
    then show ?thesis
    proof cases
      case 1
      then show ?thesis using I
        by (intro exI [of _ "u\<lparr>cr := ?v\<rparr>"]) (simp add: uart_emul_write_def pl_inv_def pl_ok_def pl_contents_def injections_def)
    next
      case 2
      then show ?thesis using I
        by (intro exI [of _ "u\<lparr>imsc := ?v AND UART_INT_ALL\<rparr>"])
          (simp add: uart_emul_write_def pl_inv_def pl_ok_def pl_contents_def injections_def)
    next
      case 3
      then show ?thesis using I
        by (intro exI [of _ "u\<lparr>ris := ris u AND NOT (?v AND UART_INT_ALL)\<rparr>"])
          (simp add: uart_emul_write_def pl_inv_def pl_ok_def pl_contents_def injections_def)
    qed
  qed
  consider "uart_emul_offset e a \<in> {0x30, 0x38, 0x44}" | "uart_emul_offset e a \<notin> {0x30, 0x38, 0x44}" by blast
  then show ?thesis
  proof cases
    case 1
    from upd [OF this] obtain u1 where "pl_step e (Wr a x) u = uart_emul_update_irq e u1" "pl_ok u1" "pl_contents u1 = pl_contents u"
      "irq_latched u1 = irq_latched u" "injections u1 = injections u" by blast
    then show ?thesis using n by (intro pl_step_update [OF I, where ?u1.0 = u1]) simp_all
  next
    case 2
    then show ?thesis using n
      by (intro pl_step_quiet [OF I refl]) (simp_all add: uart_emul_write_def Let_def uart_emul_putc_def injections_def)
  qed
qed

lemma pl_step_correct: "pl_inv u \<Longrightarrow> pl_step_ok e op u"
  by (cases op) (simp_all add: pl_step_rx pl_step_rd pl_step_wr del: pl_step.simps)

lemma pl_trace_correct:
  assumes "pl_inv u" "pl_trace e ops u = (ins, outs, edges)"
  shows "pl_inv (fold (pl_step e) ops u) \<and> pl_contents u @ ins = outs @ pl_contents (fold (pl_step e) ops u) \<and>
    injections (fold (pl_step e) ops u) = injections u + (if has_target e then edges else 0)"
  using assms
proof (induction ops arbitrary: u ins outs edges)
  case (Cons op ops)
  let ?u1 = "pl_step e op u"
  obtain i o1 n where t: "pl_trace e ops ?u1 = (i, o1, n)" by (cases "pl_trace e ops ?u1")
  have S: "pl_inv ?u1" "pl_contents u @ accepted e op u = delivered e op u @ pl_contents ?u1"
    "injections ?u1 = injections u + (if \<not> pl_cond u \<and> pl_cond ?u1 \<and> has_target e then 1 else 0)"
    using pl_step_correct [OF Cons.prems(1), of e op] by (simp_all add: pl_step_ok_def Let_def)
  note IH = Cons.IH [OF S(1) t]
  have e: "ins = accepted e op u @ i" "outs = delivered e op u @ o1" "edges = n + (if \<not> pl_cond u \<and> pl_cond ?u1 then 1 else 0)"
    using Cons.prems(2) t by simp_all
  have "pl_contents u @ ins = delivered e op u @ (pl_contents ?u1 @ i)" unfolding e(1) append_assoc [symmetric] S(2) by simp
  then show ?case using IH S(3) by (simp add: e(2,3))
qed simp

section \<open>Properties\<close>

text \<open>
  C31. The emulated PL011 from its initialisation on, through every sequence of bytes received from the
  host and register accesses by the guest: the bytes accepted are the bytes the guest has read from the
  data register followed by those still in the FIFO, in order; the interrupt is latched iff data is
  waiting and not masked; and, with a task to receive it, the guest has been sent exactly one interrupt
  for each time that condition became true.
\<close>

theorem pl011_device_run:
  "case pl_trace e ops pl011_register_emul of (ins, outs, edges) \<Rightarrow>
     let u = fold (pl_step e) ops pl011_register_emul in
     ins = outs @ pl_contents u \<and> length (pl_contents u) \<le> PL_FIFO_SIZE \<and>
     (irq_latched u \<longleftrightarrow> pl_contents u \<noteq> [] \<and> imsc u AND UART_INT_RX_RT \<noteq> 0) \<and>
     injections u = (if has_target e then edges else 0)"
proof -
  obtain ins outs edges where t: "pl_trace e ops pl011_register_emul = (ins, outs, edges)"
    by (cases "pl_trace e ops pl011_register_emul")
  have r: "pl_inv pl011_register_emul" "pl_contents pl011_register_emul = []" "injections pl011_register_emul = 0"
    by (simp_all add: pl011_register_emul_def pl_inv_def pl_ok_def ring_ok_def pl_cond_def pl_contents_def injections_def)
  from pl_trace_correct [OF r(1) t] r(2,3) t show ?thesis
    by (auto simp: Let_def pl_inv_def pl_cond_def pl_contents_empty pl_ok_def ring_ok_def) (simp_all add: pl_contents_def)
qed

end
