(* ===== verification/Gicv3_Mmio.thy ===== *)
theory Gicv3_Mmio
  imports HC_Prelude
begin

text \<open>
  The emulated GICv3 distributor and redistributors of \<^verbatim>\<open>core/emul_gicv3.c\<close>: the register windows
  that guests access through device emulation.

  The code keeps the state in one structure and reaches into it by byte pointers (the window tables
  hold pointers to members, the byte loops run from them without looking at the member's end), so the
  model is the structure's memory: a function from byte offsets to bytes, \<open>VGIC_SIZE\<close> long, with the
  members at the offsets of the C layout; an access past the structure is \<open>None\<close>. Words are
  little-endian. The guest configuration read by the code is the record \<open>vgic_config\<close>.
\<close>

section \<open>Model\<close>

type_synonym vmem = "nat \<Rightarrow> u8"

abbreviation (input) "HYPER_MAX_VCPUS \<equiv> 4 :: nat"
abbreviation (input) "VGIC_MAX_IRQS \<equiv> 1024 :: nat"
abbreviation (input) "VGIC_SPI_BASE \<equiv> 32 :: nat"
abbreviation (input) "VGIC_RDIST_SGI_BASE \<equiv> 0x10000 :: nat"

text \<open>
  Offsets of the members of \<open>struct gic_emul_v3_state\<close>. The 64-bit array \<open>router\<close> is aligned to 8,
  which leaves four bytes of padding before it.
\<close>

definition VGIC_SIZE :: nat where "VGIC_SIZE = 9992"

abbreviation (input) "o_dist_ctlr \<equiv> 0 :: nat"
abbreviation (input) "o_group \<equiv> 4 :: nat"
abbreviation (input) "o_enable \<equiv> 132 :: nat"
abbreviation (input) "o_pending \<equiv> 260 :: nat"
abbreviation (input) "o_active \<equiv> 388 :: nat"
abbreviation (input) "o_config \<equiv> 516 :: nat"
abbreviation (input) "o_priority \<equiv> 772 :: nat"
abbreviation (input) "o_router \<equiv> 1800 :: nat"
abbreviation (input) "o_r_ctlr \<equiv> 9736 :: nat"
abbreviation (input) "o_r_waker \<equiv> 9752 :: nat"
abbreviation (input) "o_r_group \<equiv> 9768 :: nat"
abbreviation (input) "o_r_enable \<equiv> 9784 :: nat"
abbreviation (input) "o_r_pending \<equiv> 9800 :: nat"
abbreviation (input) "o_r_active \<equiv> 9816 :: nat"
abbreviation (input) "o_r_config \<equiv> 9832 :: nat"
abbreviation (input) "o_r_priority \<equiv> 9864 :: nat"

abbreviation (input) "GICD_IGROUPR \<equiv> 0x80 :: nat"
abbreviation (input) "GICD_ISENABLER \<equiv> 0x100 :: nat"
abbreviation (input) "GICD_ICENABLER \<equiv> 0x180 :: nat"
abbreviation (input) "GICD_ISPENDR \<equiv> 0x200 :: nat"
abbreviation (input) "GICD_ICPENDR \<equiv> 0x280 :: nat"
abbreviation (input) "GICD_ISACTIVER \<equiv> 0x300 :: nat"
abbreviation (input) "GICD_ICACTIVER \<equiv> 0x380 :: nat"
abbreviation (input) "GICD_IPRIORITYR \<equiv> 0x400 :: nat"
abbreviation (input) "GICD_ICFGR \<equiv> 0xc00 :: nat"
abbreviation (input) "GICD_IROUTER \<equiv> 0x6000 :: nat"
abbreviation (input) "GICD_PIDR2 \<equiv> 0xffe8 :: nat"

abbreviation (input) "GIC_IIDR_VALUE \<equiv> 0x43b :: u64"
abbreviation (input) "GIC_PIDR2_GICV3 \<equiv> 0x30 :: u64"
abbreviation (input) "GICD_TYPER_VALUE \<equiv> 0x48001f :: u64"

record vgic_config =
  gicd_base :: u64
  gicr_base :: u64
  gicr_size :: u64
  gicr_stride :: u64
  vcpu_count :: u32
  vcpu_mpidr :: "u64 list"

subsection \<open>Bytewise access\<close>

definition ld8 :: "vmem \<Rightarrow> nat \<Rightarrow> u8 option" where
  "ld8 m a = (if a < VGIC_SIZE then Some (m a) else None)"

definition st8 :: "vmem \<Rightarrow> nat \<Rightarrow> u8 \<Rightarrow> vmem option" where
  "st8 m a b = (if a < VGIC_SIZE then Some (m(a := b)) else None)"

definition access_size :: "nat \<Rightarrow> nat" where
  "access_size len = 2 ^ len"

definition in_range :: "nat \<Rightarrow> nat \<Rightarrow> nat \<Rightarrow> bool" where
  "in_range off base span \<longleftrightarrow> base \<le> off \<and> off < base + span"

primrec rd_loop :: "vmem \<Rightarrow> nat \<Rightarrow> nat \<Rightarrow> u64 option" where
  "rd_loop m a 0 = Some 0"
| "rd_loop m a (Suc i) = do { v \<leftarrow> rd_loop m a i; b \<leftarrow> ld8 m (a + i); Some (v OR push_bit (i * 8) (ucast b)) }"

definition gic_read_bytes :: "vmem \<Rightarrow> nat \<Rightarrow> nat \<Rightarrow> nat \<Rightarrow> u64 option" where
  "gic_read_bytes m base off len = rd_loop m (base + off) (access_size len)"

primrec wr_loop :: "vmem \<Rightarrow> nat \<Rightarrow> nat \<Rightarrow> u64 \<Rightarrow> vmem option" where
  "wr_loop m a 0 v = Some m"
| "wr_loop m a (Suc i) v = do { m' \<leftarrow> wr_loop m a i v; st8 m' (a + i) (ucast (drop_bit (i * 8) v AND 0xff)) }"

definition gic_write_bytes :: "vmem \<Rightarrow> nat \<Rightarrow> nat \<Rightarrow> nat \<Rightarrow> u64 \<Rightarrow> vmem option" where
  "gic_write_bytes m base off len v = wr_loop m (base + off) (access_size len) v"

text \<open>Reads and writes of a 32-bit member.\<close>

definition ld32 :: "vmem \<Rightarrow> nat \<Rightarrow> u32 option" where
  "ld32 m a = map_option ucast (rd_loop m a 4)"

definition st32 :: "vmem \<Rightarrow> nat \<Rightarrow> u32 \<Rightarrow> vmem option" where
  "st32 m a v = wr_loop m a 4 (ucast v)"

definition reg_index :: "nat \<Rightarrow> nat \<Rightarrow> nat" where
  "reg_index off base = (off - base) div 4"

subsection \<open>Address decoding\<close>

text \<open>A zero stride would be a division by zero; the index is truncated to 32 bits.\<close>

definition frame_index :: "vgic_config \<Rightarrow> u64 \<Rightarrow> nat option" where
  "frame_index cfg addr =
     (if gicr_stride cfg = 0 then None
      else Some (unat (ucast ((addr - gicr_base cfg) div gicr_stride cfg) :: u32)))"

definition frame_offset :: "vgic_config \<Rightarrow> u64 \<Rightarrow> nat option" where
  "frame_offset cfg addr =
     (if gicr_stride cfg = 0 then None else Some (unat ((addr - gicr_base cfg) mod gicr_stride cfg)))"

definition dist_offset :: "vgic_config \<Rightarrow> u64 \<Rightarrow> nat" where
  "dist_offset cfg addr = unat (addr - gicd_base cfg)"

definition gicr_typer :: "vgic_config \<Rightarrow> nat \<Rightarrow> u64 option" where
  "gicr_typer cfg frame = do {
     mpidr \<leftarrow> (if frame < unat (vcpu_count cfg) then map_option (\<lambda>x. x AND 0xffffffff) (aread (vcpu_mpidr cfg) frame)
                else Some (of_nat frame));
     let typer = push_bit 8 (of_nat frame AND 0xffff) OR push_bit 32 mpidr;
     Some (if vcpu_count cfg \<noteq> 0 \<and> frame = unat (vcpu_count cfg - 1) then typer OR push_bit 4 1 else typer) }"

subsection \<open>Distributor\<close>

datatype gicd_mode = GICD_RAW_BYTES | GICD_W1S | GICD_W1C

record gicd_window =
  wd_base :: nat
  wd_span :: nat
  wd_bytes :: nat
  wd_mode :: gicd_mode

definition dwin :: "nat \<Rightarrow> nat \<Rightarrow> nat \<Rightarrow> gicd_mode \<Rightarrow> gicd_window" where
  "dwin b sp by md = \<lparr>wd_base = b, wd_span = sp, wd_bytes = by, wd_mode = md\<rparr>"

definition gicd_table :: "gicd_window list" where
  "gicd_table =
    [dwin GICD_IGROUPR    128  o_group    GICD_RAW_BYTES,
     dwin GICD_ISENABLER  128  o_enable   GICD_W1S,
     dwin GICD_ICENABLER  128  o_enable   GICD_W1C,
     dwin GICD_ISPENDR    128  o_pending  GICD_W1S,
     dwin GICD_ICPENDR    128  o_pending  GICD_W1C,
     dwin GICD_ISACTIVER  128  o_active   GICD_W1S,
     dwin GICD_ICACTIVER  128  o_active   GICD_W1C,
     dwin GICD_IPRIORITYR 1024 o_priority GICD_RAW_BYTES,
     dwin GICD_ICFGR      256  o_config   GICD_RAW_BYTES,
     dwin GICD_IROUTER    7936 o_router   GICD_RAW_BYTES]"

definition dist_window :: "nat \<Rightarrow> gicd_window option" where
  "dist_window off = List.find (\<lambda>w. in_range off (wd_base w) (wd_span w)) gicd_table"

definition dist_read :: "vmem \<Rightarrow> nat \<Rightarrow> nat \<Rightarrow> u64 option" where
  "dist_read m off len =
     (if off = 0 then map_option ucast (ld32 m o_dist_ctlr)
      else if off = 4 then Some GICD_TYPER_VALUE
      else if off = 8 then Some GIC_IIDR_VALUE
      else if off = GICD_PIDR2 then Some GIC_PIDR2_GICV3
      else case dist_window off of
        None \<Rightarrow> Some 0
      | Some w \<Rightarrow> gic_read_bytes m (wd_bytes w) (off - wd_base w) len)"

definition dist_write :: "vmem \<Rightarrow> nat \<Rightarrow> nat \<Rightarrow> u64 \<Rightarrow> vmem option" where
  "dist_write m off len v =
     (if off = 0 then st32 m o_dist_ctlr (ucast v)
      else case dist_window off of
        None \<Rightarrow> Some m
      | Some w \<Rightarrow>
          (let a = wd_bytes w + 4 * reg_index off (wd_base w) in
           case wd_mode w of
             GICD_RAW_BYTES \<Rightarrow> gic_write_bytes m (wd_bytes w) (off - wd_base w) len v
           | GICD_W1S \<Rightarrow> do { x \<leftarrow> ld32 m a; st32 m a (x OR ucast v) }
           | GICD_W1C \<Rightarrow> do { x \<leftarrow> ld32 m a; st32 m a (x AND NOT (ucast v)) }))"

subsection \<open>Redistributors\<close>

datatype gicr_mode = GICR_RAW_BYTES_PRIO | GICR_RAW_BYTES_CONFIG | GICR_W1S_WORD | GICR_W1C_WORD | GICR_RAW_WORD

record gicr_window =
  wr_base :: nat
  wr_span :: nat
  wr_field_off :: nat
  wr_mode :: gicr_mode

definition rwin :: "nat \<Rightarrow> nat \<Rightarrow> nat \<Rightarrow> gicr_mode \<Rightarrow> gicr_window" where
  "rwin b sp fo md = \<lparr>wr_base = b, wr_span = sp, wr_field_off = fo, wr_mode = md\<rparr>"

definition gicr_table :: "gicr_window list" where
  "gicr_table =
    [rwin GICD_IGROUPR    4             o_r_group    GICR_RAW_WORD,
     rwin GICD_ISENABLER  4             o_r_enable   GICR_W1S_WORD,
     rwin GICD_ICENABLER  4             o_r_enable   GICR_W1C_WORD,
     rwin GICD_ISPENDR    4             o_r_pending  GICR_W1S_WORD,
     rwin GICD_ICPENDR    4             o_r_pending  GICR_W1C_WORD,
     rwin GICD_ISACTIVER  4             o_r_active   GICR_W1S_WORD,
     rwin GICD_ICACTIVER  4             o_r_active   GICR_W1C_WORD,
     rwin GICD_IPRIORITYR VGIC_SPI_BASE o_r_priority GICR_RAW_BYTES_PRIO,
     rwin GICD_ICFGR      8             o_r_config   GICR_RAW_BYTES_CONFIG]"

definition redist_word_field :: "nat \<Rightarrow> nat \<Rightarrow> nat" where
  "redist_word_field frame field_off = field_off + 4 * frame"

definition redist_byte_array :: "nat \<Rightarrow> nat \<Rightarrow> nat \<Rightarrow> nat" where
  "redist_byte_array frame field_off row_stride = field_off + frame * row_stride"

definition sgi_window :: "nat \<Rightarrow> gicr_window option" where
  "sgi_window off = List.find (\<lambda>w. in_range off (wr_base w) (wr_span w)) gicr_table"

definition redist_sgi_read :: "vmem \<Rightarrow> nat \<Rightarrow> nat \<Rightarrow> nat \<Rightarrow> u64 option" where
  "redist_sgi_read m frame off len =
     (if HYPER_MAX_VCPUS \<le> frame then Some 0
      else case sgi_window off of
        None \<Rightarrow> Some 0
      | Some w \<Rightarrow> (case wr_mode w of
            GICR_RAW_BYTES_PRIO \<Rightarrow>
              gic_read_bytes m (redist_byte_array frame (wr_field_off w) VGIC_SPI_BASE) (off - wr_base w) len
          | GICR_RAW_BYTES_CONFIG \<Rightarrow>
              gic_read_bytes m (redist_byte_array frame (wr_field_off w) 8) (off - wr_base w) len
          | _ \<Rightarrow> map_option ucast (ld32 m (redist_word_field frame (wr_field_off w)))))"

definition redist_sgi_write :: "vmem \<Rightarrow> nat \<Rightarrow> nat \<Rightarrow> nat \<Rightarrow> u64 \<Rightarrow> vmem option" where
  "redist_sgi_write m frame off len v =
     (if HYPER_MAX_VCPUS \<le> frame then Some m
      else case sgi_window off of
        None \<Rightarrow> Some m
      | Some w \<Rightarrow>
          (let a = redist_word_field frame (wr_field_off w) in
           case wr_mode w of
             GICR_RAW_WORD \<Rightarrow> st32 m a (ucast v)
           | GICR_W1S_WORD \<Rightarrow> do { x \<leftarrow> ld32 m a; st32 m a (x OR ucast v) }
           | GICR_W1C_WORD \<Rightarrow> do { x \<leftarrow> ld32 m a; st32 m a (x AND NOT (ucast v)) }
           | GICR_RAW_BYTES_PRIO \<Rightarrow>
               gic_write_bytes m (redist_byte_array frame (wr_field_off w) VGIC_SPI_BASE) (off - wr_base w) len v
           | GICR_RAW_BYTES_CONFIG \<Rightarrow>
               gic_write_bytes m (redist_byte_array frame (wr_field_off w) 8) (off - wr_base w) len v))"

definition redist_read :: "vgic_config \<Rightarrow> vmem \<Rightarrow> u64 \<Rightarrow> nat \<Rightarrow> u64 option" where
  "redist_read cfg m addr len = do {
     frame \<leftarrow> frame_index cfg addr;
     off \<leftarrow> frame_offset cfg addr;
     if HYPER_MAX_VCPUS \<le> frame then Some 0
     else if VGIC_RDIST_SGI_BASE \<le> off then redist_sgi_read m frame (off - VGIC_RDIST_SGI_BASE) len
     else if off = 0 then map_option ucast (ld32 m (o_r_ctlr + 4 * frame))
     else if off = 4 then Some GIC_IIDR_VALUE
     else if off = 8 then gicr_typer cfg frame
     else if off = 0x14 then map_option (\<lambda>w. ucast (w AND NOT (push_bit 2 1))) (ld32 m (o_r_waker + 4 * frame))
     else if off = GICD_PIDR2 then Some GIC_PIDR2_GICV3
     else Some 0 }"

definition redist_write :: "vgic_config \<Rightarrow> vmem \<Rightarrow> u64 \<Rightarrow> nat \<Rightarrow> u64 \<Rightarrow> vmem option" where
  "redist_write cfg m addr len v = do {
     frame \<leftarrow> frame_index cfg addr;
     off \<leftarrow> frame_offset cfg addr;
     if HYPER_MAX_VCPUS \<le> frame then Some m
     else if VGIC_RDIST_SGI_BASE \<le> off then redist_sgi_write m frame (off - VGIC_RDIST_SGI_BASE) len v
     else if off = 0 then st32 m (o_r_ctlr + 4 * frame) (ucast v)
     else if off = 0x14 then st32 m (o_r_waker + 4 * frame) (ucast (v AND push_bit 1 1))
     else Some m }"

subsection \<open>The emulated device\<close>

definition in_gicr :: "vgic_config \<Rightarrow> u64 \<Rightarrow> bool" where
  "in_gicr cfg addr \<longleftrightarrow> gicr_base cfg \<le> addr \<and> addr < gicr_base cfg + gicr_size cfg"

definition gic3_read :: "vgic_config \<Rightarrow> vmem \<Rightarrow> u64 \<Rightarrow> nat \<Rightarrow> u64 option" where
  "gic3_read cfg m addr len =
     (if in_gicr cfg addr then redist_read cfg m addr len else dist_read m (dist_offset cfg addr) len)"

definition gic3_write :: "vgic_config \<Rightarrow> vmem \<Rightarrow> u64 \<Rightarrow> nat \<Rightarrow> u64 \<Rightarrow> vmem option" where
  "gic3_write cfg m addr len v =
     (if in_gicr cfg addr then redist_write cfg m addr len v else dist_write m (dist_offset cfg addr) len v)"

definition gic_register_emul :: vmem where
  "gic_register_emul a =
     (if in_range a o_priority VGIC_MAX_IRQS \<or> in_range a o_r_priority (HYPER_MAX_VCPUS * VGIC_SPI_BASE)
      then 0xa0 else 0)"

section \<open>Byte loops\<close>

lemma wr_loop_eq:
  "wr_loop m a n v = (if n = 0 \<or> a + n \<le> VGIC_SIZE
     then Some (\<lambda>x. if a \<le> x \<and> x < a + n then ucast (drop_bit ((x - a) * 8) v AND 0xff) else m x) else None)"
proof (induction n)
  case (Suc n)
  then show ?case by (auto simp: st8_def fun_eq_iff less_Suc_eq)
qed (auto simp: fun_eq_iff)

lemma rd_loop_None: "rd_loop m a n = None \<longleftrightarrow> 0 < n \<and> VGIC_SIZE < a + n"
  by (induction n) (auto simp: ld8_def split: Option.bind_splits)

lemma rd_loop_bits:
  "rd_loop m a n = Some v \<Longrightarrow> bit v i \<longleftrightarrow> i < 64 \<and> i < 8 * n \<and> bit (m (a + i div 8)) (i mod 8)"
proof (induction n arbitrary: v)
  case (Suc n)
  from Suc.prems obtain w where w: "rd_loop m a n = Some w" "v = w OR push_bit (n * 8) (ucast (m (a + n)))"
    by (auto simp: ld8_def split: Option.bind_splits if_splits)
  have "i div 8 = n \<and> i mod 8 = i - n * 8" if "n * 8 \<le> i" "i < 8 * Suc n"
    using that by (auto simp: div_nat_eqI) (metis add.commute div_mod_decomp div_nat_eqI le_add_diff_inverse2 mult.commute mult_Suc_right add_diff_cancel_left')
  moreover have "bit (ucast (m (a + n)) :: u64) j \<longleftrightarrow> bit (m (a + n)) j" for j
    by (auto simp: bit_simps dest: bit_imp_le_length)
  moreover have "bit (m (a + n)) j \<Longrightarrow> j < 8" for j by (auto dest: bit_imp_le_length)
  ultimately show ?case using Suc.IH [OF w(1)] by (fastforce simp: w(2) bit_simps not_less)
qed simp

lemma rd_loop_cong:
  "(\<And>x. a \<le> x \<Longrightarrow> x < a + n \<Longrightarrow> m x = m' x) \<Longrightarrow> rd_loop m a n = rd_loop m' a n"
  by (induction n) (auto simp: ld8_def split: Option.bind_splits)

lemma ld32_Some: "a + 4 \<le> VGIC_SIZE \<Longrightarrow> \<exists>x. ld32 m a = Some x"
  using rd_loop_None [of m a 4] by (cases "rd_loop m a 4") (auto simp: ld32_def)

lemma ld32_bits: "ld32 m a = Some x \<Longrightarrow> bit x i \<longleftrightarrow> i < 32 \<and> bit (m (a + i div 8)) (i mod 8)"
  by (auto simp: ld32_def bit_simps dest!: rd_loop_bits [where i = i] dest: bit_imp_le_length)

lemma ld32_cong: "(\<And>x. a \<le> x \<Longrightarrow> x < a + 4 \<Longrightarrow> m x = m' x) \<Longrightarrow> ld32 m a = ld32 m' a"
  unfolding ld32_def by (rule arg_cong [where f = "map_option _"], rule rd_loop_cong) simp

text \<open>The byte \<open>x\<close> of a word written at \<open>a\<close>.\<close>

lemma st32_eq:
  "a + 4 \<le> VGIC_SIZE \<Longrightarrow>
   st32 m a v = Some (\<lambda>x. if a \<le> x \<and> x < a + 4 then ucast (drop_bit ((x - a) * 8) v) else m x)"
proof -
  have byte: "ucast (drop_bit k (ucast v :: u64) AND 0xff) = (ucast (drop_bit k v) :: u8)" for k and v :: u32
  proof (rule bit_word_eqI)
    fix n assume "n < LENGTH(8)"
    moreover from this have "bit (0xff::u64) n" using bit_mask_iff [where 'a = u64 and m = 8 and n = n] by (simp add: mask_eq_exp_minus_1)
    ultimately show "bit (ucast (drop_bit k (ucast v :: u64) AND 0xff) :: u8) n = bit (ucast (drop_bit k v) :: u8) n"
      by (auto simp: bit_simps dest: bit_imp_le_length)
  qed
  assume "a + 4 \<le> VGIC_SIZE"
  then show ?thesis by (simp add: st32_def wr_loop_eq byte fun_eq_iff)
qed

text \<open>Bit \<open>n\<close> of the bit array that starts at byte \<open>f\<close>.\<close>

definition irq_bit :: "vmem \<Rightarrow> nat \<Rightarrow> nat \<Rightarrow> bool" where
  "irq_bit m f n \<longleftrightarrow> bit (m (f + n div 8)) (n mod 8)"

lemma word_bit_index: "a \<le> x \<Longrightarrow> x < a + 4 \<Longrightarrow> k < 8 \<Longrightarrow>
    a + ((x - a) * 8 + k) div 8 = x \<and> ((x - a) * 8 + k) mod 8 = k \<and> (x - a) * 8 + k < (32::nat)"
  by auto

text \<open>Set and clear registers act bit by bit on the word they name.\<close>

lemma rmw32:
  assumes "a + 4 \<le> VGIC_SIZE" and g: "\<And>x i. bit (g x) i \<longleftrightarrow> i < 32 \<and> G (bit x i) (bit w i)"
  shows "\<exists>m'. do { x \<leftarrow> ld32 m a; st32 m a (g x) } = Some m' \<and>
    (\<forall>x. m' x = m x \<or> a \<le> x \<and> x < a + 4) \<and>
    (\<forall>n. a \<le> n div 8 \<and> n div 8 < a + 4 \<longrightarrow>
       bit (m' (n div 8)) (n mod 8) = G (bit (m (n div 8)) (n mod 8)) (bit w (n - 8 * a)))"
proof -
  obtain x where x: "ld32 m a = Some x" using ld32_Some [OF assms(1)] by blast
  have "bit (ucast (drop_bit ((y - a) * 8) (g x)) :: u8) k = G (bit (m y) k) (bit w ((y - a) * 8 + k))"
    if "a \<le> y" "y < a + 4" "k < 8" for y k
    using word_bit_index [OF that] that by (simp add: bit_simps g ld32_bits [OF x])
  moreover have "(n div 8 - a) * 8 + n mod 8 = n - 8 * a" if "a \<le> n div 8" for n
    using that div_mult_mod_eq [of n 8] by linarith
  ultimately have "bit (ucast (drop_bit ((n div 8 - a) * 8) (g x)) :: u8) (n mod 8) =
      G (bit (m (n div 8)) (n mod 8)) (bit w (n - 8 * a))" if "a \<le> n div 8" "n div 8 < a + 4" for n
    using that by simp
  then show ?thesis unfolding x st32_eq [OF assms(1)] bind.bind_lunit by - (rule exI, rule conjI, rule refl, auto)
qed

lemma irq_bit_alt: "8 * f \<le> n \<Longrightarrow> irq_bit m f (n - 8 * f) \<longleftrightarrow> bit (m (n div 8)) (n mod 8)"
  by (auto simp: irq_bit_def le_iff_add)

definition sc_registers :: "(nat \<times> nat \<times> nat) list" where
  "sc_registers = [(GICD_ISENABLER, GICD_ICENABLER, o_enable), (GICD_ISPENDR, GICD_ICPENDR, o_pending),
     (GICD_ISACTIVER, GICD_ICACTIVER, o_active)]"

lemma sc_windows:
  assumes "(s, c, f) \<in> set sc_registers" "k < 32"
  shows "dist_window (s + 4 * k) = Some (dwin s 128 f GICD_W1S)" "dist_window (c + 4 * k) = Some (dwin c 128 f GICD_W1C)"
    "s + 4 * k \<notin> {0, 4, 8, GICD_PIDR2}" "c + 4 * k \<notin> {0, 4, 8, GICD_PIDR2}" "f + 128 \<le> VGIC_SIZE"
proof -
  from assms(1) have "s = 0x100 \<and> c = 0x180 \<and> f = o_enable \<or> s = 0x200 \<and> c = 0x280 \<and> f = o_pending \<or>
    s = 0x300 \<and> c = 0x380 \<and> f = o_active" by (simp add: sc_registers_def)
  then show "dist_window (s + 4 * k) = Some (dwin s 128 f GICD_W1S)" "dist_window (c + 4 * k) = Some (dwin c 128 f GICD_W1C)"
    "s + 4 * k \<notin> {0, 4, 8, GICD_PIDR2}" "c + 4 * k \<notin> {0, 4, 8, GICD_PIDR2}" "f + 128 \<le> VGIC_SIZE"
    using assms(2)
    by (elim disjE conjE; simp add: dist_window_def gicd_table_def dwin_def in_range_def VGIC_SIZE_def)+
qed

lemma irq_word: "irq_bit m f n \<longleftrightarrow> bit (m ((8 * f + n) div 8)) ((8 * f + n) mod 8)"
  by (simp add: irq_bit_def)

lemma word_irq_index: "(32 * k + i) div 8 = 4 * k + i div 8" "(32 * k + i) mod 8 = i mod (8::nat)"
proof -
  have "32 * k + i = i + 4 * k * 8" by simp
  then show "(32 * k + i) div 8 = 4 * k + i div 8" "(32 * k + i) mod 8 = i mod (8::nat)"
    by (simp_all only: div_mult_self1 mod_mult_self1 numeral_neq_zero add.commute)
qed

lemma or32: "bit (x OR w) i \<longleftrightarrow> i < 32 \<and> (bit x i \<or> bit w i)" for x w :: u32
  by (auto simp: bit_simps dest: bit_imp_le_length)

lemma andn32: "bit (x AND NOT w) i \<longleftrightarrow> i < 32 \<and> (bit x i \<and> \<not> bit w i)" for x w :: u32
  by (auto simp: bit_simps dest: bit_imp_le_length)

lemma rmw32_irq:
  assumes f: "f + 128 \<le> VGIC_SIZE" "k < 32" and g: "\<And>x i. bit (g x) i \<longleftrightarrow> i < 32 \<and> G (bit x i) (bit w i)"
  shows "\<exists>m'. do { x \<leftarrow> ld32 m (f + 4 * k); st32 m (f + 4 * k) (g x) } = Some m' \<and>
    (\<forall>x. m' x = m x \<or> f + 4 * k \<le> x \<and> x < f + 4 * k + 4) \<and>
    (\<forall>n. irq_bit m' f n = (if n div 32 = k then G (irq_bit m f n) (bit w (n mod 32)) else irq_bit m f n))"
proof -
  let ?a = "f + 4 * k"
  have "?a + 4 \<le> VGIC_SIZE" using f by simp
  from rmw32 [where g = g and G = G and w = w, OF this g, of m] obtain m' where m':
    "do { x \<leftarrow> ld32 m ?a; st32 m ?a (g x) } = Some m'" "\<forall>x. m' x = m x \<or> ?a \<le> x \<and> x < ?a + 4"
    "\<And>n. ?a \<le> n div 8 \<Longrightarrow> n div 8 < ?a + 4 \<Longrightarrow>
       bit (m' (n div 8)) (n mod 8) = G (bit (m (n div 8)) (n mod 8)) (bit w (n - 8 * ?a))" by auto
  have "irq_bit m' f n = (if n div 32 = k then G (irq_bit m f n) (bit w (n mod 32)) else irq_bit m f n)" for n
  proof (cases "n div 32 = k")
    case True
    then have "8 * f + n - 8 * ?a = n mod 32" "?a \<le> (8 * f + n) div 8" "(8 * f + n) div 8 < ?a + 4"
      by (auto simp: minus_mod_eq_mult_div [symmetric] algebra_simps)
    then show ?thesis using m'(3) [of "8 * f + n"] True by (simp add: irq_word)
  next
    case False
    have "m' (f + n div 8) = m (f + n div 8)" using m'(2) [rule_format, of "f + n div 8"] False by auto
    then show ?thesis using False by (simp add: irq_bit_def)
  qed
  with m'(1,2) show ?thesis by blast
qed

section \<open>Confinement\<close>

text \<open>The bytes of the distributor and of each redistributor frame.\<close>

datatype vpart = Dist | Frame nat

definition frame_layout :: "(nat \<times> nat) list" where
  "frame_layout = [(o_r_ctlr, 4), (o_r_waker, 4), (o_r_group, 4), (o_r_enable, 4), (o_r_pending, 4), (o_r_active, 4),
     (o_r_config, 8), (o_r_priority, 32)]"

definition frame_bytes :: "nat \<Rightarrow> nat set" where
  "frame_bytes g = (\<Union>(b, s) \<in> set frame_layout. {b + s * g..<b + s * g + s})"

definition part_bytes :: "vpart \<Rightarrow> nat set" where
  "part_bytes p = (case p of Dist \<Rightarrow> {0..<o_r_ctlr}
     | Frame g \<Rightarrow> (if g < HYPER_MAX_VCPUS then frame_bytes g else {}))"

definition gic_part :: "vgic_config \<Rightarrow> u64 \<Rightarrow> vpart" where
  "gic_part cfg addr = (if in_gicr cfg addr then Frame (the (frame_index cfg addr)) else Dist)"

lemma frame_layout_blocks:
  "\<forall>(b, s) \<in> set frame_layout. o_r_ctlr \<le> b \<and> b + 4 * s \<le> VGIC_SIZE \<and>
     (\<forall>(c, t) \<in> set frame_layout. b = c \<and> s = t \<or> b + 4 * s \<le> c \<or> c + 4 * t \<le> b)"
  unfolding frame_layout_def VGIC_SIZE_def by simp

lemma frame_row: "g < 4 \<Longrightarrow> s * g + s \<le> 4 * (s::nat)"
  using mult_le_mono2 [of "Suc g" 4 s] by (simp add: algebra_simps)

lemma frame_bytes_disjoint: "g < h \<Longrightarrow> h < 4 \<Longrightarrow> frame_bytes g \<inter> frame_bytes h = {}"
proof (rule Int_emptyI)
  fix x assume gh: "g < h" "h < 4" and x: "x \<in> frame_bytes g" "x \<in> frame_bytes h"
  obtain b s where b: "(b, s) \<in> set frame_layout" "b + s * g \<le> x" "x < b + s * g + s"
    using x(1) by (auto simp: frame_bytes_def)
  obtain c t where c: "(c, t) \<in> set frame_layout" "c + t * h \<le> x" "x < c + t * h + t"
    using x(2) by (auto simp: frame_bytes_def)
  have "b = c \<and> s = t \<or> b + 4 * s \<le> c \<or> c + 4 * t \<le> b" using frame_layout_blocks b(1) c(1) by fast
  moreover have "s * g + s \<le> 4 * s" "t * h + t \<le> 4 * t" using gh by (simp_all add: frame_row)
  moreover have "s * g + s \<le> s * h" using mult_le_mono2 [of "Suc g" h s] gh(1) by (simp add: algebra_simps)
  ultimately show False using b(2,3) c(2,3) by (elim disjE conjE) (hypsubst, linarith, linarith, linarith)
qed

lemma frame_bytes_range: "g < 4 \<Longrightarrow> x \<in> frame_bytes g \<Longrightarrow> o_r_ctlr \<le> x \<and> x < VGIC_SIZE"
proof -
  assume g: "g < 4" and "x \<in> frame_bytes g"
  then obtain b s where b: "(b, s) \<in> set frame_layout" "b + s * g \<le> x" "x < b + s * g + s" by (auto simp: frame_bytes_def)
  have "o_r_ctlr \<le> b \<and> b + 4 * s \<le> VGIC_SIZE" using frame_layout_blocks b(1) by fast
  then show ?thesis using frame_row [OF g, of s] b(2,3) by linarith
qed

lemma part_bytes_disjoint: "p \<noteq> q \<Longrightarrow> part_bytes p \<inter> part_bytes q = {}"
proof (cases p; cases q)
  fix g h assume "p \<noteq> q" "p = Frame g" "q = Frame h"
  then show ?thesis using frame_bytes_disjoint [of g h] frame_bytes_disjoint [of h g]
    by (cases g h rule: linorder_cases) (auto simp: part_bytes_def)
qed (auto simp: part_bytes_def dest: frame_bytes_range)

lemma part_bytes_size: "part_bytes p \<subseteq> {0..<VGIC_SIZE}"
  by (cases p) (auto simp: part_bytes_def VGIC_SIZE_def dest: frame_bytes_range)

lemma frame_field_bytes: "g < 4 \<Longrightarrow> (b, s) \<in> set frame_layout \<Longrightarrow> {b + s * g..<b + s * g + s} \<subseteq> part_bytes (Frame g)"
  by (auto simp: part_bytes_def frame_bytes_def)

definition confined :: "nat set \<Rightarrow> vmem \<Rightarrow> vmem option \<Rightarrow> bool" where
  "confined B m r \<longleftrightarrow> (\<exists>m'. r = Some m' \<and> (\<forall>x. m' x \<noteq> m x \<longrightarrow> x \<in> B))"

definition depends :: "nat set \<Rightarrow> (vmem \<Rightarrow> u64 option) \<Rightarrow> bool" where
  "depends B f \<longleftrightarrow> (\<forall>m. f m \<noteq> None) \<and> (\<forall>m m'. (\<forall>x \<in> B. m x = m' x) \<longrightarrow> f m = f m')"

lemma confined_id [simp]: "confined B m (Some m)"
  by (simp add: confined_def)

lemma confined_wr: "{a..<a + n} \<subseteq> B \<Longrightarrow> B \<subseteq> {0..<VGIC_SIZE} \<Longrightarrow> confined B m (wr_loop m a n v)"
proof -
  assume B: "{a..<a + n} \<subseteq> B" "B \<subseteq> {0..<VGIC_SIZE}"
  have "n = 0 \<or> a + n \<le> VGIC_SIZE"
  proof (cases n)
    case (Suc k)
    then have "a + k \<in> B" using B(1) by auto
    then show ?thesis using B(2) Suc by auto
  qed simp
  then show ?thesis using B(1) by (auto simp: confined_def wr_loop_eq subset_iff)
qed

lemma depends_rd: "{a..<a + n} \<subseteq> B \<Longrightarrow> B \<subseteq> {0..<VGIC_SIZE} \<Longrightarrow> depends B (\<lambda>m. rd_loop m a n)"
  unfolding depends_def rd_loop_None
proof (intro conjI allI impI)
  assume B: "{a..<a + n} \<subseteq> B" "B \<subseteq> {0..<VGIC_SIZE}"
  show "\<not> (0 < n \<and> VGIC_SIZE < a + n)"
  proof (cases n)
    case (Suc k)
    then have "a + k \<in> B" using B(1) by auto
    then show ?thesis using B(2) Suc by auto
  qed simp
  show "rd_loop m a n = rd_loop m' a n" if "\<forall>x\<in>B. m x = m' x" for m m'
    using that B(1) by (intro rd_loop_cong) auto
qed

lemma depends_const [simp]: "depends B (\<lambda>m. Some v)"
  by (simp add: depends_def)

lemma depends_if [simp]:
  "depends B (\<lambda>m. if c then f m else g m) \<longleftrightarrow> (if c then depends B f else depends B g)"
  by simp

lemma depends_map: "depends B f \<Longrightarrow> depends B (\<lambda>m. map_option h (f m))"
  by (auto simp: depends_def) metis

lemma depends_ld32: "{a..<a + 4} \<subseteq> B \<Longrightarrow> B \<subseteq> {0..<VGIC_SIZE} \<Longrightarrow> depends B (\<lambda>m. map_option h (ld32 m a))"
  unfolding ld32_def option.map_comp by (rule depends_map, rule depends_rd)

lemma confined_st32: "{a..<a + 4} \<subseteq> B \<Longrightarrow> B \<subseteq> {0..<VGIC_SIZE} \<Longrightarrow> confined B m (st32 m a v)"
  unfolding st32_def by (rule confined_wr)

lemma confined_rmw: "{a..<a + 4} \<subseteq> B \<Longrightarrow> B \<subseteq> {0..<VGIC_SIZE} \<Longrightarrow> confined B m (do { x \<leftarrow> ld32 m a; st32 m a (g x) })"
proof -
  assume B: "{a..<a + 4} \<subseteq> B" "B \<subseteq> {0..<VGIC_SIZE}"
  have "a + 3 \<in> B" using B(1) by auto
  then have "a + 4 \<le> VGIC_SIZE" using B(2) by auto
  then obtain x where "ld32 m a = Some x" using ld32_Some by blast
  then show ?thesis using confined_st32 [OF B] by simp
qed

text \<open>A naturally aligned access of at most eight bytes that starts in a block of a multiple of eight bytes ends in it.\<close>

lemma aligned_end:
  assumes "2 ^ len dvd off" "off < (span::nat)" "len \<le> 3" "8 dvd span"
  shows "off + 2 ^ len \<le> span"
proof -
  have "(2::nat) ^ len dvd 2 ^ 3" using assms(3) by (rule le_imp_power_dvd)
  then have "2 ^ len dvd span" using assms(4) dvd_trans [of "2 ^ len" 8 span] by simp
  then have "2 ^ len dvd span - off" using assms(1) by (rule dvd_diff_nat)
  then show ?thesis using assms(2) dvd_imp_le [of "2 ^ len" "span - off"] by simp
qed

lemma dist_window_in:
  assumes "dist_window off = Some w"
  shows "wd_base w \<le> off" "off < wd_base w + wd_span w" "8 dvd wd_base w" "8 dvd wd_span w" "wd_bytes w + wd_span w \<le> o_r_ctlr"
proof -
  have "w \<in> set gicd_table" "in_range off (wd_base w) (wd_span w)" using assms by (auto simp: dist_window_def find_Some_iff)
  then show "wd_base w \<le> off" "off < wd_base w + wd_span w" by (simp_all add: in_range_def)
  show "8 dvd wd_base w" "8 dvd wd_span w" "wd_bytes w + wd_span w \<le> o_r_ctlr"
    using \<open>w \<in> set gicd_table\<close> by (auto simp: gicd_table_def dwin_def)
qed

lemma dvd8: "(8::nat) dvd 8" "(8::nat) dvd 32"
  by simp_all

lemma window_access:
  assumes "2 ^ len dvd off" "len \<le> 3" "base \<le> off" "off < base + span" "8 dvd base" "8 dvd (span::nat)"
  shows "{by + (off - base)..<by + (off - base) + access_size len} \<subseteq> {by..<by + span}"
    "{by + 4 * reg_index off base..<by + 4 * reg_index off base + 4} \<subseteq> {by..<by + span}"
proof -
  have "(2::nat) ^ len dvd 2 ^ 3" using assms(2) by (rule le_imp_power_dvd)
  then have "2 ^ len dvd base" using assms(5) dvd_trans [of "2 ^ len" 8 base] by simp
  then have "2 ^ len dvd off - base" using assms(1) by (simp add: dvd_diff_nat)
  from aligned_end [OF this _ assms(2,6)] have "off - base + 2 ^ len \<le> span" using assms(3,4) by simp
  then show "{by + (off - base)..<by + (off - base) + access_size len} \<subseteq> {by..<by + span}"
    unfolding access_size_def by (intro subsetI) (simp only: atLeastLessThan_iff, linarith)
  obtain q where "span = 8 * q" using assms(6) by blast
  then have "(off - base) div 4 < 2 * q" using assms(3,4) by (simp add: less_mult_imp_div_less)
  then show "{by + 4 * reg_index off base..<by + 4 * reg_index off base + 4} \<subseteq> {by..<by + span}"
    using \<open>span = 8 * q\<close> by (auto simp: reg_index_def)
qed

lemma dist_window_bytes:
  assumes "2 ^ len dvd off" "len \<le> 3" "dist_window off = Some w"
  shows "{wd_bytes w + (off - wd_base w)..<wd_bytes w + (off - wd_base w) + access_size len} \<subseteq> part_bytes Dist"
    "{wd_bytes w + 4 * reg_index off (wd_base w)..<wd_bytes w + 4 * reg_index off (wd_base w) + 4} \<subseteq> part_bytes Dist"
proof -
  have "{wd_bytes w..<wd_bytes w + wd_span w} \<subseteq> part_bytes Dist" using dist_window_in(5) [OF assms(3)] by (auto simp: part_bytes_def)
  with window_access [OF assms(1,2) dist_window_in(1-4) [OF assms(3)], of "wd_bytes w"]
  show "{wd_bytes w + (off - wd_base w)..<wd_bytes w + (off - wd_base w) + access_size len} \<subseteq> part_bytes Dist"
    "{wd_bytes w + 4 * reg_index off (wd_base w)..<wd_bytes w + 4 * reg_index off (wd_base w) + 4} \<subseteq> part_bytes Dist"
    by blast+
qed

lemma ctlr_bytes: "{0..<0 + 4} \<subseteq> part_bytes Dist"
  by (simp add: part_bytes_def)

lemmas confined_ops = confined_st32 [OF _ part_bytes_size] confined_rmw [OF _ part_bytes_size] confined_wr [OF _ part_bytes_size]
lemmas depends_ops = depends_ld32 [OF _ part_bytes_size] depends_rd [OF _ part_bytes_size]

lemma dist_confined:
  assumes "2 ^ len dvd off" "len \<le> 3"
  shows "confined (part_bytes Dist) m (dist_write m off len v)" "depends (part_bytes Dist) (\<lambda>m. dist_read m off len)"
proof -
  have *: "confined (part_bytes Dist) m (dist_write m off len v) \<and>
    depends (part_bytes Dist) (\<lambda>m. dist_read m off len)" if "dist_window off = Some w" for w
    using that dist_window_bytes [OF assms that] confined_ops(1) [OF ctlr_bytes] depends_ops(1) [OF ctlr_bytes]
    by (cases "wd_mode w") (simp_all add: Let_def dist_write_def dist_read_def gic_write_bytes_def gic_read_bytes_def
        confined_ops depends_ops)
  show "confined (part_bytes Dist) m (dist_write m off len v)"
    using * confined_ops(1) [OF ctlr_bytes] by (cases "dist_window off") (auto simp: dist_write_def)
  show "depends (part_bytes Dist) (\<lambda>m. dist_read m off len)"
    using * depends_ops(1) [OF ctlr_bytes] by (cases "dist_window off") (auto simp: dist_read_def)
qed

lemma sgi_window_in:
  assumes "sgi_window off = Some w" "g < 4" "2 ^ len dvd off" "len \<le> 3"
  shows "wr_mode w \<notin> {GICR_RAW_BYTES_PRIO, GICR_RAW_BYTES_CONFIG} \<Longrightarrow>
      {redist_word_field g (wr_field_off w)..<redist_word_field g (wr_field_off w) + 4} \<subseteq> part_bytes (Frame g)"
    and "wr_mode w = GICR_RAW_BYTES_PRIO \<Longrightarrow>
      {redist_byte_array g (wr_field_off w) 32 + (off - wr_base w)..<
        redist_byte_array g (wr_field_off w) 32 + (off - wr_base w) + access_size len} \<subseteq> part_bytes (Frame g)"
    and "wr_mode w = GICR_RAW_BYTES_CONFIG \<Longrightarrow>
      {redist_byte_array g (wr_field_off w) 8 + (off - wr_base w)..<
        redist_byte_array g (wr_field_off w) 8 + (off - wr_base w) + access_size len} \<subseteq> part_bytes (Frame g)"
proof -
  have w: "w \<in> set gicr_table" "wr_base w \<le> off" "off < wr_base w + wr_span w"
    using assms(1) by (auto simp: sgi_window_def find_Some_iff in_range_def)
  note F = frame_field_bytes [OF assms(2)]
  have f: "(wr_field_off w, 4) \<in> set frame_layout" if "wr_mode w \<notin> {GICR_RAW_BYTES_PRIO, GICR_RAW_BYTES_CONFIG}"
    using w(1) that by (auto simp: gicr_table_def rwin_def frame_layout_def)
  show "{redist_word_field g (wr_field_off w)..<redist_word_field g (wr_field_off w) + 4} \<subseteq> part_bytes (Frame g)"
    if "wr_mode w \<notin> {GICR_RAW_BYTES_PRIO, GICR_RAW_BYTES_CONFIG}"
    using F [OF f [OF that]] by (simp add: redist_word_field_def)
  show "{redist_byte_array g (wr_field_off w) 32 + (off - wr_base w)..<
      redist_byte_array g (wr_field_off w) 32 + (off - wr_base w) + access_size len} \<subseteq> part_bytes (Frame g)"
    if p: "wr_mode w = GICR_RAW_BYTES_PRIO"
  proof -
    have s: "wr_span w = 32" "8 dvd wr_base w" "(wr_field_off w, 32) \<in> set frame_layout"
      using w(1) p by (auto simp: gicr_table_def rwin_def frame_layout_def)
    have a: "redist_byte_array g (wr_field_off w) 32 = wr_field_off w + 32 * g" by (simp add: redist_byte_array_def)
    show ?thesis unfolding a
      using window_access(1) [OF assms(3,4) w(2,3) s(2), of "wr_field_off w + 32 * g", unfolded s(1)] F [OF s(3)]
      by (meson dvd8 subset_trans)
  qed
  show "{redist_byte_array g (wr_field_off w) 8 + (off - wr_base w)..<
      redist_byte_array g (wr_field_off w) 8 + (off - wr_base w) + access_size len} \<subseteq> part_bytes (Frame g)"
    if p: "wr_mode w = GICR_RAW_BYTES_CONFIG"
  proof -
    have s: "wr_span w = 8" "8 dvd wr_base w" "(wr_field_off w, 8) \<in> set frame_layout"
      using w(1) p by (auto simp: gicr_table_def rwin_def frame_layout_def)
    have a: "redist_byte_array g (wr_field_off w) 8 = wr_field_off w + 8 * g" by (simp add: redist_byte_array_def)
    show ?thesis unfolding a
      using window_access(1) [OF assms(3,4) w(2,3) s(2), of "wr_field_off w + 8 * g", unfolded s(1)] F [OF s(3)]
      by (meson dvd8 subset_trans)
  qed
qed

lemma redist_sgi_confined:
  assumes "2 ^ len dvd off" "len \<le> 3"
  shows "confined (part_bytes (Frame g)) m (redist_sgi_write m g off len v)"
    "depends (part_bytes (Frame g)) (\<lambda>m. redist_sgi_read m g off len)"
proof -
  have *: "confined (part_bytes (Frame g)) m (redist_sgi_write m g off len v) \<and>
    depends (part_bytes (Frame g)) (\<lambda>m. redist_sgi_read m g off len)" if "g < 4" "sgi_window off = Some w" for w
    using that sgi_window_in [OF that(2,1) assms]
    by (cases "wr_mode w") (simp_all add: Let_def redist_sgi_write_def redist_sgi_read_def gic_write_bytes_def gic_read_bytes_def
        confined_ops depends_ops)
  show "confined (part_bytes (Frame g)) m (redist_sgi_write m g off len v)"
    using * by (cases "g < 4"; cases "sgi_window off") (auto simp: redist_sgi_write_def)
  show "depends (part_bytes (Frame g)) (\<lambda>m. redist_sgi_read m g off len)"
    using * by (cases "g < 4"; cases "sgi_window off") (auto simp: redist_sgi_read_def)
qed

text \<open>Natural alignment is inherited by the offsets when the bases and the stride are multiples of eight.\<close>

lemma dvd_unat_diff:
  assumes "2 ^ len dvd unat a" "8 dvd unat b" "len \<le> 3"
  shows "2 ^ len dvd unat (a - b :: u64)"
proof -
  have "(2::nat) ^ len dvd 2 ^ 3" using assms(3) by (rule le_imp_power_dvd)
  then have "2 ^ len dvd unat b" using assms(2) dvd_trans [of "2 ^ len" 8 "unat b"] by simp
  moreover have "(2::nat) ^ len dvd 2 ^ 64" using assms(3) by (intro le_imp_power_dvd) simp
  ultimately show ?thesis using assms(1) by (simp add: unat_sub_if' dvd_diff_nat dvd_add)
qed

definition vgic_config_ok :: "vgic_config \<Rightarrow> bool" where
  "vgic_config_ok cfg \<longleftrightarrow> gicr_stride cfg \<noteq> 0 \<and> 8 dvd unat (gicr_stride cfg) \<and> 8 dvd unat (gicr_base cfg) \<and>
     8 dvd unat (gicd_base cfg) \<and> length (vcpu_mpidr cfg) = HYPER_MAX_VCPUS"

lemma frame_word: "g < 4 \<Longrightarrow> b \<in> {o_r_ctlr, o_r_waker} \<Longrightarrow> {b + 4 * g..<b + 4 * g + 4} \<subseteq> part_bytes (Frame g)"
  by (rule frame_field_bytes) (auto simp: frame_layout_def)

lemma redist_confined:
  assumes ok: "vgic_config_ok cfg" and al: "2 ^ len dvd unat addr" "len \<le> 3"
  shows "confined (part_bytes (Frame (the (frame_index cfg addr)))) m (redist_write cfg m addr len v)"
    "depends (part_bytes (Frame (the (frame_index cfg addr)))) (\<lambda>m. redist_read cfg m addr len)"
proof -
  define f off where "f = the (frame_index cfg addr)" and "off = the (frame_offset cfg addr)"
  have fo: "frame_index cfg addr = Some f" "frame_offset cfg addr = Some off"
    using ok by (simp_all add: f_def off_def frame_index_def frame_offset_def vgic_config_ok_def)
  have "2 ^ len dvd unat (addr - gicr_base cfg)" using ok al by (intro dvd_unat_diff) (auto simp: vgic_config_ok_def)
  moreover have "(2::nat) ^ len dvd 2 ^ 3" using al(2) by (rule le_imp_power_dvd)
  then have "2 ^ len dvd unat (gicr_stride cfg)"
    using ok dvd_trans [of "2 ^ len" 8 "unat (gicr_stride cfg)"] by (simp add: vgic_config_ok_def)
  ultimately have off: "2 ^ len dvd off" using fo(2) ok
    by (auto simp: frame_offset_def vgic_config_ok_def unat_mod intro: dvd_mod)
  have sgi: "2 ^ len dvd off - 0x10000"
  proof -
    have "(2::nat) ^ len dvd 0x10000" using al(2) le_imp_power_dvd [of len 16 "2::nat"] by simp
    with off show ?thesis by (simp add: dvd_diff_nat)
  qed
  note R = redist_sgi_confined [OF sgi al(2), of f]
  have typer: "\<exists>t. gicr_typer cfg f = Some t" if "f < 4"
    using ok that by (auto simp: gicr_typer_def vgic_config_ok_def Let_def)
  have "confined (part_bytes (Frame f)) m (redist_write cfg m addr len v)"
    using R(1) confined_ops(1) [OF frame_word] by (auto simp: redist_write_def fo)
  then show "confined (part_bytes (Frame (the (frame_index cfg addr)))) m (redist_write cfg m addr len v)" by (simp add: fo)
  have "depends (part_bytes (Frame f)) (\<lambda>m. redist_read cfg m addr len)"
    using R(2) depends_ops(1) [OF frame_word] typer by (auto simp: redist_read_def fo)
  then show "depends (part_bytes (Frame (the (frame_index cfg addr)))) (\<lambda>m. redist_read cfg m addr len)" by (simp add: fo)
qed

lemma gic3_confined:
  assumes "vgic_config_ok cfg" "2 ^ len dvd unat addr" "len \<le> 3"
  shows "confined (part_bytes (gic_part cfg addr)) m (gic3_write cfg m addr len v)"
    "depends (part_bytes (gic_part cfg addr)) (\<lambda>m. gic3_read cfg m addr len)"
proof -
  have "2 ^ len dvd dist_offset cfg addr" unfolding dist_offset_def using assms by (intro dvd_unat_diff) (auto simp: vgic_config_ok_def)
  then show "confined (part_bytes (gic_part cfg addr)) m (gic3_write cfg m addr len v)"
    "depends (part_bytes (gic_part cfg addr)) (\<lambda>m. gic3_read cfg m addr len)"
    using dist_confined [of len "dist_offset cfg addr"] redist_confined [OF assms] assms(3)
    by (simp_all add: gic3_write_def gic3_read_def gic_part_def)
qed

section \<open>Properties\<close>

text \<open>
  C27. The redistributors of the virtual CPUs and the distributor are isolated from each other: with a
  configuration of non-zero stride and bases and stride multiples of eight, a naturally aligned access of
  one, two, four or eight bytes never leaves the state structure, and a write to one of them changes no
  value read from another one.
\<close>

theorem gicv3_parts_isolated:
  assumes "vgic_config_ok cfg" "2 ^ l1 dvd unat a1" "l1 \<le> 3" "2 ^ l2 dvd unat a2" "l2 \<le> 3"
    "gic_part cfg a1 \<noteq> gic_part cfg a2"
  shows "\<exists>m'. gic3_write cfg m a1 l1 v = Some m' \<and> gic3_read cfg m a2 l2 \<noteq> None \<and>
    gic3_read cfg m' a2 l2 = gic3_read cfg m a2 l2"
proof -
  obtain m' where m': "gic3_write cfg m a1 l1 v = Some m'" "\<forall>x. m' x \<noteq> m x \<longrightarrow> x \<in> part_bytes (gic_part cfg a1)"
    using gic3_confined(1) [OF assms(1-3), of m v] unfolding confined_def by blast
  have "\<forall>x \<in> part_bytes (gic_part cfg a2). m' x = m x" using m'(2) part_bytes_disjoint [OF assms(6)] by blast
  then show ?thesis using gic3_confined(2) [OF assms(1,4,5)] m'(1) by (auto simp: depends_def)
qed

definition sample_vgic :: vgic_config where
  "sample_vgic = \<lparr>gicd_base = 0x8000000, gicr_base = 0x80a0000, gicr_size = 0x80000, gicr_stride = 0x20000,
     vcpu_count = 2, vcpu_mpidr = [0, 1, 2, 3]\<rparr>"

theorem gicv3_parts_isolated_witness:
  "\<exists>m'. gic3_write sample_vgic gic_register_emul 0x80b0100 2 0xffff = Some m' \<and>
     gic3_read sample_vgic gic_register_emul 0x80d0100 2 \<noteq> None \<and>
     gic3_read sample_vgic m' 0x80d0100 2 = gic3_read sample_vgic gic_register_emul 0x80d0100 2"
  by (rule gicv3_parts_isolated)
    (simp_all add: vgic_config_ok_def sample_vgic_def gic_part_def in_gicr_def frame_index_def)

text \<open>
  Set and clear registers of the distributor (enable, pending, active): a write to the set register
  number \<open>k\<close> sets exactly the interrupts \<open>32 k\<close> to \<open>32 k + 31\<close> selected by the value, a write to the
  clear register clears exactly them; no other byte of the state changes; and a word read of either
  register returns the state of these 32 interrupts.
\<close>

theorem gicd_set_clear:
  assumes "(s, c, f) \<in> set sc_registers" "k < 32"
  shows "\<exists>m1 m2 r. dist_write m (s + 4 * k) len v = Some m1 \<and> dist_write m (c + 4 * k) len v = Some m2 \<and>
    (\<forall>n. irq_bit m1 f n = (irq_bit m f n \<or> n div 32 = k \<and> bit v (n mod 32))) \<and>
    (\<forall>n. irq_bit m2 f n = (irq_bit m f n \<and> \<not> (n div 32 = k \<and> bit v (n mod 32)))) \<and>
    (\<forall>x. m1 x \<noteq> m x \<or> m2 x \<noteq> m x \<longrightarrow> f + 4 * k \<le> x \<and> x < f + 4 * k + 4) \<and>
    dist_read m (s + 4 * k) 2 = Some r \<and> dist_read m (c + 4 * k) 2 = Some r \<and>
    (\<forall>i. bit r i = (i < 32 \<and> irq_bit m f (32 * k + i)))"
proof -
  note W = sc_windows [OF assms]
  let ?a = "f + 4 * k" and ?w = "ucast v :: u32"
  have w: "bit ?w (n mod 32) = bit v (n mod 32)" for n by (simp add: bit_simps)
  obtain m1 where m1: "do { x \<leftarrow> ld32 m ?a; st32 m ?a (x OR ?w) } = Some m1"
    "\<forall>x. m1 x = m x \<or> ?a \<le> x \<and> x < ?a + 4"
    "\<forall>n. irq_bit m1 f n = (if n div 32 = k then irq_bit m f n \<or> bit ?w (n mod 32) else irq_bit m f n)"
    using rmw32_irq [where g = "\<lambda>x. x OR ?w" and G = "(\<or>)" and w = ?w and m = m, OF W(5) assms(2) or32] by blast
  obtain m2 where m2: "do { x \<leftarrow> ld32 m ?a; st32 m ?a (x AND NOT ?w) } = Some m2"
    "\<forall>x. m2 x = m x \<or> ?a \<le> x \<and> x < ?a + 4"
    "\<forall>n. irq_bit m2 f n = (if n div 32 = k then irq_bit m f n \<and> \<not> bit ?w (n mod 32) else irq_bit m f n)"
    using rmw32_irq [where g = "\<lambda>x. x AND NOT ?w" and G = "\<lambda>p q. p \<and> \<not> q" and w = ?w and m = m, OF W(5) assms(2) andn32]
    by blast
  obtain r where r: "rd_loop m ?a 4 = Some r" using rd_loop_None [of m ?a 4] W(5) assms(2) by fastforce
  have "bit r i = (i < 32 \<and> irq_bit m f (32 * k + i))" for i
    using rd_loop_bits [OF r, of i] word_irq_index [of k i] by (auto simp: irq_bit_def algebra_simps)
  moreover have "dist_write m (s + 4 * k) len v = Some m1" "dist_write m (c + 4 * k) len v = Some m2"
    using W m1(1) m2(1) by (auto simp: dist_write_def dwin_def reg_index_def)
  moreover have "dist_read m (s + 4 * k) 2 = Some r" "dist_read m (c + 4 * k) 2 = Some r"
    using W r by (auto simp: dist_read_def dwin_def gic_read_bytes_def access_size_def)
  moreover have "irq_bit m1 f n = (irq_bit m f n \<or> n div 32 = k \<and> bit v (n mod 32))"
    "irq_bit m2 f n = (irq_bit m f n \<and> \<not> (n div 32 = k \<and> bit v (n mod 32)))" for n
    using m1(3) m2(3) by (simp_all add: w)
  moreover have "\<forall>x. m1 x \<noteq> m x \<or> m2 x \<noteq> m x \<longrightarrow> ?a \<le> x \<and> x < ?a + 4" using m1(2) m2(2) by blast
  ultimately show ?thesis by blast
qed

theorem gicd_set_clear_witness:
  "\<exists>m'. dist_write gic_register_emul (GICD_ISENABLER + 4 * 1) 2 2 = Some m' \<and> irq_bit m' o_enable 33 \<and> \<not> irq_bit m' o_enable 34"
proof -
  have reg: "(GICD_ISENABLER, GICD_ICENABLER, o_enable) \<in> set sc_registers" by (simp add: sc_registers_def)
  have zero: "\<not> irq_bit gic_register_emul o_enable 33" "\<not> irq_bit gic_register_emul o_enable 34"
    by (simp_all add: irq_bit_def gic_register_emul_def in_range_def)
  have "bit (2::u64) (33 mod 32)" "\<not> bit (2::u64) (34 mod 32)" by (simp_all add: bit_2_iff)
  with gicd_set_clear [OF reg, of 1 gic_register_emul 2 2] zero show ?thesis by fastforce
qed

text \<open>
  The byte loops do not look at the end of the array their window stands for: an eight-byte write to the last
  word of the group registers (four-byte aligned) also writes the first enable word.
\<close>

lemma gicd_group_overrun:
  "\<exists>m'. dist_write gic_register_emul (GICD_IGROUPR + 124) 3 (NOT 0) = Some m' \<and> irq_bit m' o_enable 0"
  by (simp add: dist_write_def dist_window_def gicd_table_def dwin_def in_range_def gic_write_bytes_def access_size_def
      wr_loop_eq VGIC_SIZE_def irq_bit_def bit_simps)

end
