(* ===== verification/Radix_Table.thy ===== *)
theory Radix_Table
  imports HC_Prelude
begin

text \<open>
  Multi-level translation tables, as the memory-management code of both architectures uses them, and
  the contract that its map and unmap operations are proved to meet.

  A table is a page frame of 512 entries of 64 bits; the memory that holds the tables maps a frame and
  an index to an entry. A format (\<open>pt_format\<close>) says when an entry is valid, when it leads to a further
  table, and to which frame. \<open>pwalk\<close> is the translation by a path of indices, one per level. The
  operations of the code are related to two inductive relations, \<open>pmaps\<close> and \<open>punmaps\<close>, which say how
  a path is entered into the tables (allocating fresh frames for missing levels) and removed from them
  (releasing tables that became empty). The laws are proved once, for well-formed tables
  (\<open>twf\<close>: no frame is reachable twice).
\<close>

section \<open>Tables\<close>

type_synonym ptmem = "u64 \<Rightarrow> nat \<Rightarrow> u64"

record pt_format =
  pf_valid :: "u64 \<Rightarrow> bool"
  pf_table :: "u64 \<Rightarrow> bool"
  pf_next :: "u64 \<Rightarrow> u64"

definition is_tab :: "pt_format \<Rightarrow> u64 \<Rightarrow> bool" where
  "is_tab F e \<longleftrightarrow> pf_valid F e \<and> pf_table F e"

fun pwalk :: "pt_format \<Rightarrow> ptmem \<Rightarrow> u64 \<Rightarrow> nat list \<Rightarrow> u64 option" where
  "pwalk F tb t [] = None"
| "pwalk F tb t [i] = (if pf_valid F (tb t i) then Some (tb t i) else None)"
| "pwalk F tb t (i # j # is) = (if is_tab F (tb t i) then pwalk F tb (pf_next F (tb t i)) (j # is) else None)"

text \<open>A path is blocked when an entry above its last level is valid but leads to no table.\<close>

fun blocked :: "pt_format \<Rightarrow> ptmem \<Rightarrow> u64 \<Rightarrow> nat list \<Rightarrow> bool" where
  "blocked F tb t (i # j # is) \<longleftrightarrow>
     pf_valid F (tb t i) \<and> (\<not> pf_table F (tb t i) \<or> blocked F tb (pf_next F (tb t i)) (j # is))"
| "blocked F tb t is \<longleftrightarrow> False"

text \<open>A path of indices leads to a table; the number of tables that are missing on a path.\<close>

fun leads :: "pt_format \<Rightarrow> ptmem \<Rightarrow> u64 \<Rightarrow> nat list \<Rightarrow> bool" where
  "leads F tb t [] \<longleftrightarrow> True"
| "leads F tb t (i # is) \<longleftrightarrow> is_tab F (tb t i) \<and> leads F tb (pf_next F (tb t i)) is"

fun need :: "pt_format \<Rightarrow> ptmem \<Rightarrow> u64 \<Rightarrow> nat list \<Rightarrow> nat" where
  "need F tb t (i # j # is) = (if is_tab F (tb t i) then need F tb (pf_next F (tb t i)) (j # is) else length (j # is))"
| "need F tb t is = 0"

definition tables_missing :: "pt_format \<Rightarrow> ptmem \<Rightarrow> u64 \<Rightarrow> nat list set \<Rightarrow> nat list set" where
  "tables_missing F tb t P = {take l is | l is. is \<in> P \<and> 0 < l \<and> l < length is \<and> \<not> leads F tb t (take l is)}"

definition idx_path :: "nat \<Rightarrow> nat list \<Rightarrow> bool" where
  "idx_path n is \<longleftrightarrow> length is = Suc n \<and> (\<forall>i \<in> set is. i < 512)"

primrec tframes :: "pt_format \<Rightarrow> ptmem \<Rightarrow> nat \<Rightarrow> u64 \<Rightarrow> u64 set" where
  "tframes F tb 0 t = {t}"
| "tframes F tb (Suc n) t =
     insert t (\<Union>i \<in> {i. i < 512 \<and> is_tab F (tb t i)}. tframes F tb n (pf_next F (tb t i)))"

primrec twf :: "pt_format \<Rightarrow> ptmem \<Rightarrow> nat \<Rightarrow> u64 \<Rightarrow> bool" where
  "twf F tb 0 t \<longleftrightarrow> True"
| "twf F tb (Suc n) t \<longleftrightarrow> (\<forall>i < 512. is_tab F (tb t i) \<longrightarrow>
     twf F tb n (pf_next F (tb t i)) \<and> t \<notin> tframes F tb n (pf_next F (tb t i)) \<and>
     (\<forall>j < 512. j \<noteq> i \<and> is_tab F (tb t j) \<longrightarrow>
        tframes F tb n (pf_next F (tb t i)) \<inter> tframes F tb n (pf_next F (tb t j)) = {}))"

definition put :: "u64 \<Rightarrow> nat \<Rightarrow> u64 \<Rightarrow> ptmem \<Rightarrow> ptmem" where
  "put t i e tb = tb(t := (tb t)(i := e))"

definition clear_table :: "u64 \<Rightarrow> ptmem \<Rightarrow> ptmem" where
  "clear_table f tb = tb(f := (\<lambda>_. 0))"

text \<open>Entering a path: the set is that of the frames in use.\<close>

inductive pmaps :: "pt_format \<Rightarrow> u64 set \<Rightarrow> ptmem \<Rightarrow> u64 \<Rightarrow> nat list \<Rightarrow> u64 \<Rightarrow> ptmem \<Rightarrow> u64 set \<Rightarrow> bool"
  for F :: pt_format where
  last: "pmaps F A tb t [i] e (put t i e tb) A"
| old: "is_tab F (tb t i) \<Longrightarrow> pmaps F A tb (pf_next F (tb t i)) (j # is) e tb' A' \<Longrightarrow>
    pmaps F A tb t (i # j # is) e tb' A'"
| new: "\<not> pf_valid F (tb t i) \<Longrightarrow> f \<notin> A \<Longrightarrow> is_tab F m \<Longrightarrow> pf_next F m = f \<Longrightarrow>
    pmaps F (insert f A) (put t i m (clear_table f tb)) f (j # is) e tb' A' \<Longrightarrow>
    pmaps F A tb t (i # j # is) e tb' A'"

text \<open>Removing a path: a table without valid entries may be released.\<close>

inductive punmaps :: "pt_format \<Rightarrow> u64 set \<Rightarrow> ptmem \<Rightarrow> u64 \<Rightarrow> nat list \<Rightarrow> ptmem \<Rightarrow> u64 set \<Rightarrow> bool"
  for F :: pt_format where
  last: "punmaps F A tb t [i] (put t i 0 tb) A"
| keep: "is_tab F (tb t i) \<Longrightarrow> punmaps F A tb (pf_next F (tb t i)) (j # is) tb' A' \<Longrightarrow>
    punmaps F A tb t (i # j # is) tb' A'"
| release: "is_tab F (tb t i) \<Longrightarrow> punmaps F A tb (pf_next F (tb t i)) (j # is) tb' A' \<Longrightarrow>
    (\<And>k. k < 512 \<Longrightarrow> \<not> pf_valid F (tb' (pf_next F (tb t i)) k)) \<Longrightarrow>
    punmaps F A tb t (i # j # is) (put t i 0 tb') (A' - {pf_next F (tb t i)})"

text \<open>A sequence of entered paths, each with its entry.\<close>

inductive pmaps_seq :: "pt_format \<Rightarrow> u64 set \<Rightarrow> ptmem \<Rightarrow> u64 \<Rightarrow> (nat list \<times> u64) list \<Rightarrow> ptmem \<Rightarrow> u64 set \<Rightarrow> bool"
  for F :: pt_format where
  none: "pmaps_seq F A tb t [] tb A"
| more: "pmaps F A tb t is e tb1 A1 \<Longrightarrow> pmaps_seq F A1 tb1 t ps tb' A' \<Longrightarrow> pmaps_seq F A tb t ((is, e) # ps) tb' A'"

inductive_cases pmapsE: "pmaps F A tb t (i # is) e tb' A'"
inductive_cases punmapsE: "punmaps F A tb t (i # is) tb' A'"

section \<open>Locality\<close>

lemma put_simps [simp]: "put t i e tb t = (tb t)(i := e)" "t \<noteq> u \<Longrightarrow> put t i e tb u = tb u"
  by (auto simp: put_def)

lemma clear_table_simps [simp]: "clear_table f tb f j = 0" "f \<noteq> u \<Longrightarrow> clear_table f tb u = tb u"
  by (auto simp: clear_table_def)

lemma root_in_tframes [simp, intro]: "t \<in> tframes F tb n t"
  by (cases n) auto

lemma tframes_local: "(\<And>f. f \<in> tframes F tb n t \<Longrightarrow> tb' f = tb f) \<Longrightarrow> tframes F tb' n t = tframes F tb n t"
proof (induction n arbitrary: t)
  case (Suc n)
  have t: "tb' t = tb t" by (rule Suc.prems) simp
  have "tframes F tb' n (pf_next F (tb t i)) = tframes F tb n (pf_next F (tb t i))" if "i < 512" "is_tab F (tb t i)" for i
    using that by (intro Suc) auto
  then show ?case by (auto simp: t)
qed simp

lemma twf_local: "(\<And>f. f \<in> tframes F tb n t \<Longrightarrow> tb' f = tb f) \<Longrightarrow> twf F tb' n t = twf F tb n t"
proof (induction n arbitrary: t)
  case (Suc n)
  have t: "tb' t = tb t" by (rule Suc.prems) simp
  have sub: "f \<in> tframes F tb n (pf_next F (tb t i)) \<Longrightarrow> tb' f = tb f" if "i < 512" "is_tab F (tb t i)" for i f
    using that by (intro Suc.prems) auto
  have "tframes F tb' n (pf_next F (tb t i)) = tframes F tb n (pf_next F (tb t i))"
    "twf F tb' n (pf_next F (tb t i)) = twf F tb n (pf_next F (tb t i))" if "i < 512" "is_tab F (tb t i)" for i
    using sub [OF that] by (auto intro!: tframes_local Suc.IH)
  then show ?case by (simp add: t cong: conj_cong imp_cong)
qed simp

lemma pwalk_local:
  "(\<And>f. f \<in> tframes F tb n t \<Longrightarrow> tb' f = tb f) \<Longrightarrow> idx_path n is \<Longrightarrow> pwalk F tb' t is = pwalk F tb t is"
proof (induction n arbitrary: t "is")
  case 0
  then show ?case by (auto simp: idx_path_def length_Suc_conv)
next
  case (Suc n)
  then obtain i j js where "is": "is = i # j # js" "i < 512" "idx_path n (j # js)"
    by (auto simp: idx_path_def length_Suc_conv)
  have t: "tb' t = tb t" by (rule Suc.prems) simp
  show ?case
  proof (cases "is_tab F (tb t i)")
    case True
    then have "pwalk F tb' (pf_next F (tb t i)) (j # js) = pwalk F tb (pf_next F (tb t i)) (j # js)"
      using "is" by (intro Suc.IH Suc.prems(1)) auto
    then show ?thesis using "is" t by simp
  qed (simp add: "is" t)
qed

lemma blocked_local:
  "(\<And>f. f \<in> tframes F tb n t \<Longrightarrow> tb' f = tb f) \<Longrightarrow> idx_path n is \<Longrightarrow> blocked F tb' t is = blocked F tb t is"
proof (induction n arbitrary: t "is")
  case 0
  then show ?case by (auto simp: idx_path_def length_Suc_conv)
next
  case (Suc n)
  then obtain i j js where "is": "is = i # j # js" "i < 512" "idx_path n (j # js)"
    by (auto simp: idx_path_def length_Suc_conv)
  have t: "tb' t = tb t" by (rule Suc.prems) simp
  show ?case
  proof (cases "is_tab F (tb t i)")
    case True
    then have "blocked F tb' (pf_next F (tb t i)) (j # js) = blocked F tb (pf_next F (tb t i)) (j # js)"
      using "is" by (intro Suc.IH Suc.prems(1)) auto
    then show ?thesis using "is" t by simp
  qed (use "is" t in \<open>auto simp: is_tab_def\<close>)
qed

lemma idx_path_Cons: "idx_path (Suc n) (i # is) \<longleftrightarrow> i < 512 \<and> idx_path n is"
  by (auto simp: idx_path_def)

lemma idx_path_SucE:
  assumes "idx_path (Suc n) js"
  obtains i "is" where "js = i # is" "i < 512" "idx_path n is"
  using assms by (cases js) (auto simp: idx_path_def)

lemma idx_path_0: "idx_path 0 is \<longleftrightarrow> (\<exists>i < 512. is = [i])"
  by (auto simp: idx_path_def length_Suc_conv)

lemma pwalk_Cons:
  "idx_path n js \<Longrightarrow> pwalk F tb t (i # js) = (if is_tab F (tb t i) then pwalk F tb (pf_next F (tb t i)) js else None)"
  by (cases js) (auto simp: idx_path_def)

lemma blocked_Cons:
  "idx_path n js \<Longrightarrow> blocked F tb t (i # js) \<longleftrightarrow>
     pf_valid F (tb t i) \<and> (\<not> pf_table F (tb t i) \<or> blocked F tb (pf_next F (tb t i)) js)"
  by (cases js) (auto simp: idx_path_def)

lemma leads_local:
  "(\<And>f. f \<in> tframes F tb n t \<Longrightarrow> tb' f = tb f) \<Longrightarrow> length qs \<le> n \<Longrightarrow> \<forall>q \<in> set qs. q < 512 \<Longrightarrow> leads F tb' t qs = leads F tb t qs"
proof (induction n arbitrary: t qs)
  case (Suc n)
  have t: "tb' t = tb t" by (rule Suc.prems) simp
  show ?case
  proof (cases qs)
    case (Cons q qs')
    have "leads F tb' (pf_next F (tb t q)) qs' = leads F tb (pf_next F (tb t q)) qs'" if "is_tab F (tb t q)"
      using Suc.prems(2,3) that by (intro Suc.IH Suc.prems(1)) (auto simp: Cons)
    then show ?thesis by (auto simp: Cons t)
  qed simp
qed simp

lemma pwalk_leads: "pwalk F tb t is = Some e \<Longrightarrow> l < length is \<Longrightarrow> leads F tb t (take l is)"
proof (induction F tb t "is" arbitrary: l rule: pwalk.induct)
  case (3 F tb t i j "is")
  then show ?case by (cases l) (auto split: if_splits)
qed auto

lemma need_card: "need F tb t is = card {l. 0 < l \<and> l < length is \<and> \<not> leads F tb t (take l is)}"
proof (induction F tb t "is" rule: need.induct)
  case (1 F tb t i j "is")
  show ?case
  proof (cases "is_tab F (tb t i)")
    case True
    have "{l. 0 < l \<and> l < length (i # j # is) \<and> \<not> leads F tb t (take l (i # j # is))} =
        Suc ` {l. 0 < l \<and> l < length (j # is) \<and> \<not> leads F tb (pf_next F (tb t i)) (take l (j # is))}" (is "?L = Suc ` ?R")
    proof (rule set_eqI)
      fix l show "l \<in> ?L \<longleftrightarrow> l \<in> Suc ` ?R"
      proof (cases l)
        case (Suc m)
        then show ?thesis using True by (cases m) auto
      qed auto
    qed
    then show ?thesis using 1 True by (simp add: card_image)
  next
    case False
    then have "{l. 0 < l \<and> l < length (i # j # is) \<and> \<not> leads F tb t (take l (i # j # is))} = {1..length (j # is)}"
      by (auto simp: take_Cons' split: if_splits)
    then show ?thesis using False by simp
  qed
qed auto

lemma finite_tables_missing: "finite P \<Longrightarrow> finite (tables_missing F tb t P)"
proof -
  assume "finite P"
  then have "finite (\<Union>is \<in> P. (\<lambda>l. take l is) ` {..<length is})" by blast
  then show ?thesis by (rule finite_subset [rotated]) (auto simp: tables_missing_def)
qed

lemma need_missing: "need F tb t is = card (tables_missing F tb t {is})"
proof -
  have "tables_missing F tb t {is} = (\<lambda>l. take l is) ` {l. 0 < l \<and> l < length is \<and> \<not> leads F tb t (take l is)}"
    by (auto simp: tables_missing_def)
  moreover have "inj_on (\<lambda>l. take l is) {l. 0 < l \<and> l < length is \<and> \<not> leads F tb t (take l is)}"
    by (rule inj_onI) (auto dest: arg_cong [of _ _ length])
  ultimately show ?thesis by (simp add: need_card card_image)
qed

lemma need_less: "need F tb t is \<le> length is - 1"
  by (induction F tb t "is" rule: need.induct) auto

text \<open>Replacing one entry of a table, and at most the subtree below it.\<close>

lemma update_entry:
  assumes wf: "twf F tb (Suc n) t" and t': "tb' t = (tb t)(i := m)"
    and oth: "\<forall>j f. j < 512 \<and> j \<noteq> i \<and> is_tab F (tb t j) \<and> f \<in> tframes F tb n (pf_next F (tb t j)) \<longrightarrow> tb' f = tb f"
    and sub: "is_tab F m \<longrightarrow> twf F tb' n (pf_next F m) \<and> t \<notin> tframes F tb' n (pf_next F m) \<and>
      (\<forall>j < 512. j \<noteq> i \<and> is_tab F (tb t j) \<longrightarrow> tframes F tb' n (pf_next F m) \<inter> tframes F tb n (pf_next F (tb t j)) = {})"
  shows "twf F tb' (Suc n) t"
    and "tframes F tb' (Suc n) t = insert t ((if i < 512 \<and> is_tab F m then tframes F tb' n (pf_next F m) else {}) \<union>
      (\<Union>j \<in> {j. j < 512 \<and> j \<noteq> i \<and> is_tab F (tb t j)}. tframes F tb n (pf_next F (tb t j))))"
    and "idx_path n js \<Longrightarrow> k < 512 \<Longrightarrow> pwalk F tb' t (k # js) =
      (if k = i then (if is_tab F m then pwalk F tb' (pf_next F m) js else None) else pwalk F tb t (k # js))"
    and "idx_path n js \<Longrightarrow> k < 512 \<Longrightarrow> k \<noteq> i \<Longrightarrow> blocked F tb' t (k # js) = blocked F tb t (k # js)"
proof -
  have o: "tframes F tb' n (pf_next F (tb t j)) = tframes F tb n (pf_next F (tb t j))"
    "twf F tb' n (pf_next F (tb t j)) = twf F tb n (pf_next F (tb t j))" if "j < 512" "j \<noteq> i" "is_tab F (tb t j)" for j
    using oth that by (auto intro!: tframes_local twf_local)
  show "twf F tb' (Suc n) t"
    unfolding twf.simps
  proof (intro allI impI)
    fix j assume j: "j < 512" "is_tab F (tb' t j)"
    show "twf F tb' n (pf_next F (tb' t j)) \<and> t \<notin> tframes F tb' n (pf_next F (tb' t j)) \<and>
      (\<forall>k < 512. k \<noteq> j \<and> is_tab F (tb' t k) \<longrightarrow>
        tframes F tb' n (pf_next F (tb' t j)) \<inter> tframes F tb' n (pf_next F (tb' t k)) = {})"
    proof (cases "j = i")
      case True
      then show ?thesis using j sub o by (simp add: t')
    next
      case False
      with j have "is_tab F (tb t j)" by (simp add: t')
      then show ?thesis using False j(1) sub wf o by (auto simp: t' Int_commute)
    qed
  qed
  show "tframes F tb' (Suc n) t = insert t ((if i < 512 \<and> is_tab F m then tframes F tb' n (pf_next F m) else {}) \<union>
      (\<Union>j \<in> {j. j < 512 \<and> j \<noteq> i \<and> is_tab F (tb t j)}. tframes F tb n (pf_next F (tb t j))))"
    using o by (auto simp: t' split: if_splits)
  show "pwalk F tb' t (k # js) =
      (if k = i then (if is_tab F m then pwalk F tb' (pf_next F m) js else None) else pwalk F tb t (k # js))"
    if "idx_path n js" "k < 512"
    using that oth pwalk_local [of F tb n "pf_next F (tb t k)" tb' js]
    by (simp add: pwalk_Cons [OF that(1)] t')
  show "blocked F tb' t (k # js) = blocked F tb t (k # js)" if "idx_path n js" "k < 512" "k \<noteq> i"
  proof (cases "is_tab F (tb t k)")
    case True
    then show ?thesis using that oth blocked_local [of F tb n "pf_next F (tb t k)" tb' js]
      by (simp add: blocked_Cons [OF that(1)] t')
  qed (use that in \<open>auto simp: blocked_Cons [OF that(1)] t' is_tab_def\<close>)
qed

definition mapped :: "pt_format \<Rightarrow> nat \<Rightarrow> u64 set \<Rightarrow> ptmem \<Rightarrow> u64 \<Rightarrow> nat list \<Rightarrow> u64 \<Rightarrow> ptmem \<Rightarrow> u64 set \<Rightarrow> bool" where
  "mapped F n A tb t is e tb' A' \<longleftrightarrow> A \<subseteq> A' \<and> (\<forall>f \<in> A - tframes F tb n t. tb' f = tb f) \<and>
     tframes F tb' n t \<subseteq> tframes F tb n t \<union> (A' - A) \<and> twf F tb' n t \<and>
     (\<forall>js. idx_path n js \<longrightarrow>
        pwalk F tb' t js = (if js = is then (if pf_valid F e then Some e else None) else pwalk F tb t js)) \<and>
     (\<forall>js. idx_path n js \<and> blocked F tb' t js \<longrightarrow> blocked F tb t js)"

definition unmapped :: "pt_format \<Rightarrow> nat \<Rightarrow> u64 set \<Rightarrow> ptmem \<Rightarrow> u64 \<Rightarrow> nat list \<Rightarrow> ptmem \<Rightarrow> u64 set \<Rightarrow> bool" where
  "unmapped F n A tb t is tb' A' \<longleftrightarrow> A' \<subseteq> A \<and> A - A' \<subseteq> tframes F tb n t - tframes F tb' n t \<and>
     (\<forall>f. f \<notin> tframes F tb n t \<longrightarrow> tb' f = tb f) \<and>
     tframes F tb' n t \<subseteq> tframes F tb n t \<and> twf F tb' n t \<and>
     (\<forall>js. idx_path n js \<longrightarrow> pwalk F tb' t js = (if js = is then None else pwalk F tb t js))"

section \<open>The laws of mapping and unmapping\<close>

text \<open>A format in which the zero entry is invalid.\<close>

locale radix_format =
  fixes F :: pt_format
  assumes zero_invalid: "\<not> pf_valid F 0"
begin

lemma zero_not_tab: "\<not> is_tab F 0"
  by (simp add: is_tab_def zero_invalid)

lemma empty_table: "(\<And>i. i < 512 \<Longrightarrow> \<not> pf_valid F (tb f i)) \<Longrightarrow> tframes F tb n f = {f} \<and> twf F tb n f"
  by (cases n) (auto simp: is_tab_def)

lemma empty_walk: "(\<And>i. i < 512 \<Longrightarrow> \<not> pf_valid F (tb f i)) \<Longrightarrow> idx_path n js \<Longrightarrow> pwalk F tb f js = None"
  by (cases js rule: remdups_adj.cases) (auto simp: idx_path_def is_tab_def)

lemma empty_blocked: "(\<And>i. i < 512 \<Longrightarrow> \<not> pf_valid F (tb f i)) \<Longrightarrow> idx_path n js \<Longrightarrow> \<not> blocked F tb f js"
  by (cases js rule: remdups_adj.cases) (auto simp: idx_path_def)

lemma pmaps_correct:
  "pmaps F A tb t is e tb' A' \<Longrightarrow> twf F tb n t \<Longrightarrow> tframes F tb n t \<subseteq> A \<Longrightarrow> idx_path n is \<Longrightarrow>
   mapped F n A tb t is e tb' A'"
proof (induction A tb t "is" e tb' A' arbitrary: n rule: pmaps.induct)
  case (last A tb t i e)
  then show ?case by (auto simp: mapped_def idx_path_def length_Suc_conv split: if_splits)
next
  case (old tb t i A j "is" e tb' A')
  then obtain k where n: "n = Suc k" and i: "i < 512" "idx_path k (j # is)" by (cases n) (auto simp: idx_path_Cons idx_path_0)
  let ?c = "pf_next F (tb t i)"
  have c: "tframes F tb k ?c \<subseteq> A" "t \<notin> tframes F tb k ?c" "t \<in> A" "twf F tb k ?c" using old.prems old.hyps(1) i by (auto simp: n)
  have IH: "mapped F k A tb ?c (j # is) e tb' A'" using old.IH [of k] c i by blast
  have disj: "tframes F tb k (pf_next F (tb t m)) \<inter> tframes F tb k ?c = {}" "tframes F tb k (pf_next F (tb t m)) \<subseteq> A"
    if "m < 512" "m \<noteq> i" "is_tab F (tb t m)" for m
    using old.prems(1,2) old.hyps(1) i that by (auto simp: n)
  have "tb' t = tb t" using IH c by (auto simp: mapped_def)
  note U = update_entry [where tb' = tb' and i = i and m = "tb t i", OF old.prems(1) [unfolded n]]
  have T: "tb' t = (tb t)(i := tb t i)" using \<open>tb' t = tb t\<close> by simp
  have O: "\<forall>m f. m < 512 \<and> m \<noteq> i \<and> is_tab F (tb t m) \<and> f \<in> tframes F tb k (pf_next F (tb t m)) \<longrightarrow> tb' f = tb f"
    using IH disj unfolding mapped_def by blast
  have S: "twf F tb' k ?c \<and> t \<notin> tframes F tb' k ?c \<and>
      (\<forall>m < 512. m \<noteq> i \<and> is_tab F (tb t m) \<longrightarrow> tframes F tb' k ?c \<inter> tframes F tb k (pf_next F (tb t m)) = {})"
    using IH c disj unfolding mapped_def by blast
  have E: "tframes F tb' n t = insert t (tframes F tb' k ?c \<union>
      (\<Union>j \<in> {j. j < 512 \<and> j \<noteq> i \<and> is_tab F (tb t j)}. tframes F tb k (pf_next F (tb t j))))"
    using U(2) [OF T O impI [OF S]] i(1) old.hyps(1) by (simp only: n simp_thms if_True)
  have E0: "tframes F tb k ?c \<subseteq> tframes F tb n t" "j < 512 \<Longrightarrow> is_tab F (tb t j) \<Longrightarrow> tframes F tb k (pf_next F (tb t j)) \<subseteq> tframes F tb n t"
    "t \<in> tframes F tb n t" for j using i(1) old.hyps(1) by (auto simp: n)
  have fr: "tframes F tb' n t \<subseteq> tframes F tb n t \<union> (A' - A)"
    using IH E0 unfolding mapped_def E by blast
  have "A \<subseteq> A'" "\<forall>f \<in> A - tframes F tb n t. tb' f = tb f" using IH i old.hyps(1) unfolding mapped_def n by auto
  moreover have "pwalk F tb' t js = (if js = i # j # is then (if pf_valid F e then Some e else None) else pwalk F tb t js)"
    if path: "idx_path n js" for js
  proof -
    obtain m ms where js: "js = m # ms" "m < 512" "idx_path k ms" using path unfolding n by (rule idx_path_SucE)
    show ?thesis using U(3) [OF T O impI [OF S] js(3,2)] IH old.hyps(1) js(3) by (auto simp: js(1) mapped_def pwalk_Cons [OF js(3)])
  qed
  moreover have "blocked F tb t js" if path: "idx_path n js" and b: "blocked F tb' t js" for js
  proof -
    obtain m ms where js: "js = m # ms" "m < 512" "idx_path k ms" using path unfolding n by (rule idx_path_SucE)
    show ?thesis
    proof (cases "m = i")
      case True
      then show ?thesis using b IH T old.hyps(1) js(3) by (auto simp: js(1) mapped_def blocked_Cons [OF js(3)])
    qed (use U(4) [OF T O impI [OF S] js(3,2)] b js(1) in simp)
  qed
  ultimately show ?case using U(1) [OF T O impI [OF S]] fr by (simp add: mapped_def n)
next
  case (new tb t i f A m j "is" e tb' A')
  then obtain k where n: "n = Suc k" and i: "i < 512" "idx_path k (j # is)" by (cases n) (auto simp: idx_path_Cons idx_path_0)
  let ?tb = "put t i m (clear_table f tb)"
  have ft: "f \<noteq> t" "t \<in> A" using new.prems(2) new.hyps(2) by auto
  have e: "tframes F ?tb k f = {f} \<and> twf F ?tb k f" by (rule empty_table) (use ft zero_invalid in simp)
  have IH: "mapped F k (insert f A) ?tb f (j # is) e tb' A'" using new.IH [of k] e i by auto
  have sub: "tframes F tb k (pf_next F (tb t q)) \<subseteq> A" "t \<notin> tframes F tb k (pf_next F (tb t q))"
    if "q < 512" "is_tab F (tb t q)" for q
    using new.prems(1,2) that by (auto simp: n)
  have T: "tb' t = (tb t)(i := m)" using IH ft e by (auto simp: mapped_def put_def)
  have Q: "tb' g = tb g" if "g \<in> A" "g \<noteq> t" for g
    using IH that new.hyps(2) ft e by (auto simp: mapped_def put_def clear_table_def)
  have O: "\<forall>q g. q < 512 \<and> q \<noteq> i \<and> is_tab F (tb t q) \<and> g \<in> tframes F tb k (pf_next F (tb t q)) \<longrightarrow> tb' g = tb g"
    using sub Q by blast
  have fr': "tframes F tb' k f \<subseteq> A' - A" using IH e new.hyps(2) unfolding mapped_def by auto
  have S: "twf F tb' k (pf_next F m) \<and> t \<notin> tframes F tb' k (pf_next F m) \<and>
      (\<forall>q < 512. q \<noteq> i \<and> is_tab F (tb t q) \<longrightarrow> tframes F tb' k (pf_next F m) \<inter> tframes F tb k (pf_next F (tb t q)) = {})"
    using IH fr' ft(2) sub(1) unfolding new.hyps(4) mapped_def by blast
  note U = update_entry [where tb' = tb' and i = i and m = m, OF new.prems(1) [unfolded n] T O impI [OF S]]
  have fr: "tframes F tb' n t \<subseteq> tframes F tb n t \<union> (A' - A)"
    using fr' new.hyps(4) unfolding n U(2) by auto
  have "A \<subseteq> A'" "\<forall>g \<in> A - tframes F tb n t. tb' g = tb g" using IH Q unfolding mapped_def by auto
  moreover have "pwalk F tb' t js = (if js = i # j # is then (if pf_valid F e then Some e else None) else pwalk F tb t js)"
    if path: "idx_path n js" for js
  proof -
    obtain q qs where js: "js = q # qs" "q < 512" "idx_path k qs" using path unfolding n by (rule idx_path_SucE)
    have "pwalk F ?tb f qs = None" by (rule empty_walk [OF _ js(3)]) (use ft zero_invalid in simp)
    moreover have "\<not> is_tab F (tb t i)" using new.hyps(1) by (simp add: is_tab_def)
    ultimately show ?thesis using U(3) [OF js(3,2)] IH new.hyps(3,4) js(3) by (auto simp: js(1) mapped_def pwalk_Cons [OF js(3)])
  qed
  moreover have "blocked F tb t js" if path: "idx_path n js" and b: "blocked F tb' t js" for js
  proof -
    obtain q qs where js: "js = q # qs" "q < 512" "idx_path k qs" using path unfolding n by (rule idx_path_SucE)
    have "\<not> blocked F ?tb f qs" by (rule empty_blocked [OF _ js(3)]) (use ft zero_invalid in simp)
    then have "q \<noteq> i" using b IH T new.hyps(3,4) js(3) by (auto simp: js(1) mapped_def blocked_Cons [OF js(3)] is_tab_def)
    then show ?thesis using U(4) [OF js(3,2)] b js(1) by simp
  qed
  ultimately show ?case using U(1) fr by (simp add: mapped_def n)
qed

text \<open>Tables that can be reached stay reachable.\<close>

lemma pmaps_leads:
  "pmaps F A tb t is e tb' A' \<Longrightarrow> twf F tb n t \<Longrightarrow> tframes F tb n t \<subseteq> A \<Longrightarrow> idx_path n is \<Longrightarrow>
   length qs \<le> n \<Longrightarrow> \<forall>q \<in> set qs. q < 512 \<Longrightarrow> leads F tb t qs \<Longrightarrow> leads F tb' t qs"
proof (induction A tb t "is" e tb' A' arbitrary: n qs rule: pmaps.induct)
  case (last A tb t i e)
  then show ?case by (auto simp: idx_path_def)
next
  case (old tb t i A j "is" e tb' A')
  then obtain k where n: "n = Suc k" and i: "i < 512" "idx_path k (j # is)" by (cases n) (auto simp: idx_path_Cons idx_path_0)
  let ?c = "pf_next F (tb t i)"
  have c: "tframes F tb k ?c \<subseteq> A" "t \<notin> tframes F tb k ?c" "t \<in> A" "twf F tb k ?c" using old.prems old.hyps(1) i by (auto simp: n)
  have M: "mapped F k A tb ?c (j # is) e tb' A'" by (rule pmaps_correct [OF old.hyps(2) c(4,1) i(2)])
  then have t: "tb' t = tb t" using c by (auto simp: mapped_def)
  show ?case
  proof (cases qs)
    case (Cons q qs')
    show ?thesis
    proof (cases "q = i")
      case True
      then show ?thesis using old.IH [OF c(4,1) i(2), of qs'] old.prems(4-6) by (auto simp: Cons n t)
    next
      case False
      have q: "is_tab F (tb t q)" "q < 512" "length qs' \<le> k" using old.prems(4-6) by (auto simp: Cons n)
      then have "tframes F tb k (pf_next F (tb t q)) \<subseteq> A - tframes F tb k ?c"
        using old.prems(1,2) old.hyps(1) i(1) False by (auto simp: n)
      then have "leads F tb' (pf_next F (tb t q)) qs' = leads F tb (pf_next F (tb t q)) qs'"
        using M q(3) old.prems(5) by (intro leads_local) (auto simp: mapped_def Cons)
      then show ?thesis using old.prems(6) by (simp add: Cons t)
    qed
  qed simp
next
  case (new tb t i f A m j "is" e tb' A')
  then obtain k where n: "n = Suc k" and i: "i < 512" "idx_path k (j # is)" by (cases n) (auto simp: idx_path_Cons idx_path_0)
  let ?tb = "put t i m (clear_table f tb)"
  have ft: "f \<noteq> t" "t \<in> A" using new.prems(2) new.hyps(2) by auto
  have em: "tframes F ?tb k f = {f}" "twf F ?tb k f" using empty_table [of ?tb f k] ft zero_invalid by simp_all
  have M: "mapped F k (insert f A) ?tb f (j # is) e tb' A'" by (rule pmaps_correct [OF new.hyps(5) em(2) _ i(2)]) (simp add: em(1))
  have T: "tb' t = (tb t)(i := m)" using M ft em(1) by (auto simp: mapped_def put_def)
  have Q: "tb' g = tb g" if "g \<in> A" "g \<noteq> t" for g
    using M that new.hyps(2) ft em(1) by (auto simp: mapped_def put_def clear_table_def)
  show ?case
  proof (cases qs)
    case (Cons q qs')
    have q: "q \<noteq> i" "is_tab F (tb t q)" "q < 512" "length qs' \<le> k" using new.prems(4-6) new.hyps(1) by (auto simp: Cons n is_tab_def)
    then have "tframes F tb k (pf_next F (tb t q)) \<subseteq> A - {t}" using new.prems(1,2) by (auto simp: n)
    then have "leads F tb' (pf_next F (tb t q)) qs' = leads F tb (pf_next F (tb t q)) qs'"
      using Q q(4) new.prems(5) by (intro leads_local) (auto simp: Cons)
    then show ?thesis using new.prems(6) q(1) by (simp add: Cons T)
  qed simp
qed

lemma punmaps_correct:
  "punmaps F A tb t is tb' A' \<Longrightarrow> twf F tb n t \<Longrightarrow> tframes F tb n t \<subseteq> A \<Longrightarrow> idx_path n is \<Longrightarrow>
   unmapped F n A tb t is tb' A'"
proof (induction A tb t "is" tb' A' arbitrary: n rule: punmaps.induct)
  case (last A tb t i)
  then show ?case by (auto simp: unmapped_def idx_path_def length_Suc_conv zero_invalid split: if_splits)
next
  case (keep tb t i A j "is" tb' A')
  then obtain k where n: "n = Suc k" and i: "i < 512" "idx_path k (j # is)" by (cases n) (auto simp: idx_path_Cons idx_path_0)
  let ?c = "pf_next F (tb t i)"
  have c: "tframes F tb k ?c \<subseteq> A" "t \<notin> tframes F tb k ?c" "twf F tb k ?c" using keep.prems keep.hyps(1) i by (auto simp: n)
  have IH: "unmapped F k A tb ?c (j # is) tb' A'" using keep.IH [of k] c i by blast
  have disj: "tframes F tb k (pf_next F (tb t m)) \<inter> tframes F tb k ?c = {}" "tframes F tb k (pf_next F (tb t m)) \<subseteq> A"
    if "m < 512" "m \<noteq> i" "is_tab F (tb t m)" for m
    using keep.prems(1,2) keep.hyps(1) i that by (auto simp: n)
  have T: "tb' t = (tb t)(i := tb t i)" using IH c(2) by (auto simp: unmapped_def)
  have O: "\<forall>m f. m < 512 \<and> m \<noteq> i \<and> is_tab F (tb t m) \<and> f \<in> tframes F tb k (pf_next F (tb t m)) \<longrightarrow> tb' f = tb f"
    using IH disj unfolding unmapped_def by blast
  have S: "twf F tb' k ?c \<and> t \<notin> tframes F tb' k ?c \<and>
      (\<forall>m < 512. m \<noteq> i \<and> is_tab F (tb t m) \<longrightarrow> tframes F tb' k ?c \<inter> tframes F tb k (pf_next F (tb t m)) = {})"
    using IH c disj unfolding unmapped_def by blast
  note U = update_entry [where tb' = tb' and i = i and m = "tb t i", OF keep.prems(1) [unfolded n] T O impI [OF S]]
  have E: "tframes F tb' n t = insert t (tframes F tb' k ?c \<union>
      (\<Union>j \<in> {j. j < 512 \<and> j \<noteq> i \<and> is_tab F (tb t j)}. tframes F tb k (pf_next F (tb t j))))"
    using U(2) i(1) keep.hyps(1) by (simp only: n simp_thms if_True)
  have E0: "tframes F tb k ?c \<subseteq> tframes F tb n t" "j < 512 \<Longrightarrow> is_tab F (tb t j) \<Longrightarrow> tframes F tb k (pf_next F (tb t j)) \<subseteq> tframes F tb n t"
    "t \<in> tframes F tb n t" for j using i(1) keep.hyps(1) by (auto simp: n)
  have fr: "tframes F tb' n t \<subseteq> tframes F tb n t" using IH E0 unfolding unmapped_def E by blast
  have "A - A' \<subseteq> tframes F tb k ?c - tframes F tb' k ?c" using IH unfolding unmapped_def by blast
  then have "A - A' \<subseteq> tframes F tb n t - tframes F tb' n t" using E0 c(2) disj(1) unfolding E by blast
  moreover have "\<forall>f. f \<notin> tframes F tb n t \<longrightarrow> tb' f = tb f" using IH i keep.hyps(1) unfolding unmapped_def n by auto
  moreover have "pwalk F tb' t js = (if js = i # j # is then None else pwalk F tb t js)" if path: "idx_path n js" for js
  proof -
    obtain m ms where js: "js = m # ms" "m < 512" "idx_path k ms" using path unfolding n by (rule idx_path_SucE)
    show ?thesis using U(3) [OF js(3,2)] IH keep.hyps(1) js(3) by (auto simp: js(1) unmapped_def pwalk_Cons [OF js(3)])
  qed
  ultimately show ?case using U(1) fr IH by (simp add: unmapped_def n)
next
  case (release tb t i A j "is" tb' A')
  then obtain k where n: "n = Suc k" and i: "i < 512" "idx_path k (j # is)" by (cases n) (auto simp: idx_path_Cons idx_path_0)
  let ?c = "pf_next F (tb t i)" and ?tb = "put t i 0 tb'"
  have c: "tframes F tb k ?c \<subseteq> A" "t \<notin> tframes F tb k ?c" "twf F tb k ?c" "?c \<noteq> t"
    using release.prems release.hyps(1) i by (auto simp: n)
  have IH: "unmapped F k A tb ?c (j # is) tb' A'" using release.IH [of k] c i by blast
  have disj: "tframes F tb k (pf_next F (tb t m)) \<inter> tframes F tb k ?c = {}" "t \<notin> tframes F tb k (pf_next F (tb t m))"
    if "m < 512" "m \<noteq> i" "is_tab F (tb t m)" for m
    using release.prems(1,2) release.hyps(1) i that by (auto simp: n)
  have T: "?tb t = (tb t)(i := 0)" using IH c(2) by (auto simp: unmapped_def put_def)
  have Q: "\<forall>f. f \<notin> tframes F tb k ?c \<and> f \<noteq> t \<longrightarrow> ?tb f = tb f" using IH by (auto simp: unmapped_def)
  have O: "\<forall>m f. m < 512 \<and> m \<noteq> i \<and> is_tab F (tb t m) \<and> f \<in> tframes F tb k (pf_next F (tb t m)) \<longrightarrow> ?tb f = tb f"
    using Q disj by blast
  have S: "is_tab F 0 \<longrightarrow> Q" for Q by (simp add: zero_not_tab)
  note U = update_entry [where tb' = ?tb and i = i and m = 0, OF release.prems(1) [unfolded n] T O S]
  have fr: "tframes F ?tb n t \<subseteq> tframes F tb n t" unfolding n U(2) using zero_not_tab by auto
  have cf: "tframes F tb' k ?c = {?c}" using empty_table [of tb' ?c k] release.hyps(3) by blast
  have "A - (A' - {?c}) \<subseteq> tframes F tb n t - tframes F ?tb n t"
  proof
    fix f assume "f \<in> A - (A' - {?c})"
    then have f: "f \<in> tframes F tb k ?c" using IH by (auto simp: unmapped_def)
    then show "f \<in> tframes F tb n t - tframes F ?tb n t" using i(1) release.hyps(1) c(2) disj(1) zero_not_tab unfolding n U(2) by auto
  qed
  moreover have "\<forall>f. f \<notin> tframes F tb n t \<longrightarrow> ?tb f = tb f" using IH i release.hyps(1) unfolding unmapped_def n by (auto simp: put_def)
  moreover have "pwalk F ?tb t js = (if js = i # j # is then None else pwalk F tb t js)" if path: "idx_path n js" for js
  proof -
    obtain m ms where js: "js = m # ms" "m < 512" "idx_path k ms" using path unfolding n by (rule idx_path_SucE)
    have "pwalk F tb' ?c ms = None" using empty_walk [OF _ js(3), of tb' ?c] release.hyps(3) by blast
    then show ?thesis using U(3) [OF js(3,2)] IH release.hyps(1) js(3) zero_not_tab by (auto simp: js(1) unmapped_def pwalk_Cons [OF js(3)])
  qed
  ultimately show ?case using U(1) fr IH unfolding unmapped_def n by blast
qed

lemma pmaps_seq_correct:
  "pmaps_seq F A tb t ps tb' A' \<Longrightarrow> twf F tb n t \<Longrightarrow> tframes F tb n t \<subseteq> A \<Longrightarrow>
   \<forall>(is, e) \<in> set ps. idx_path n is \<and> pf_valid F e \<Longrightarrow>
   twf F tb' n t \<and> tframes F tb' n t \<subseteq> A' \<and> A \<subseteq> A' \<and> (\<forall>f \<in> A - tframes F tb n t. tb' f = tb f) \<and>
   (\<forall>js. idx_path n js \<longrightarrow>
      pwalk F tb' t js = (case map_of (rev ps) js of Some e \<Rightarrow> Some e | None \<Rightarrow> pwalk F tb t js))"
proof (induction A tb t ps tb' A' rule: pmaps_seq.induct)
  case (more A tb t "is" e tb1 A1 ps tb' A')
  have m: "mapped F n A tb t is e tb1 A1" using pmaps_correct [OF more.hyps(1) more.prems(1,2)] more.prems(3) by auto
  then have "twf F tb1 n t" "tframes F tb1 n t \<subseteq> A1" using more.prems(2) by (auto simp: mapped_def)
  from more.IH [OF this] more.prems(3) have IH:
    "twf F tb' n t" "tframes F tb' n t \<subseteq> A'" "A1 \<subseteq> A'" "\<forall>f \<in> A1 - tframes F tb1 n t. tb' f = tb1 f"
    "\<forall>js. idx_path n js \<longrightarrow>
      pwalk F tb' t js = (case map_of (rev ps) js of Some e \<Rightarrow> Some e | None \<Rightarrow> pwalk F tb1 t js)" by auto
  have "tb' f = tb f" if "f \<in> A - tframes F tb n t" for f
  proof -
    have "f \<in> A1 - tframes F tb1 n t" "tb1 f = tb f" using that m unfolding mapped_def by blast+
    with IH(4) show ?thesis by simp
  qed
  moreover have "pwalk F tb' t js =
      (case map_of (rev ((is, e) # ps)) js of Some e \<Rightarrow> Some e | None \<Rightarrow> pwalk F tb t js)" if "idx_path n js" for js
    using IH(5) m more.prems(3) that by (auto simp: mapped_def map_add_def split: option.split)
  ultimately show ?case using IH m by (auto simp: mapped_def)
qed auto

end

end
