(* ===== verification/Pool_Frames.thy ===== *)
theory Pool_Frames
  imports Page_Alloc Radix_Table
begin

text \<open>
  Pages of the page pool as table frames: the addresses of a page, the frames in use, and what a
  one-page allocation gives to the page-table code of both architectures.

  The host reaches memory through its own tables: an identity mapping of the image (\<open>lo\<close> to \<open>hi\<close>) and
  a direct map of the first gigabyte of the pool, both set up at boot. \<open>dm_frame\<close> is the frame that
  an address reaches; any other address faults. \<open>he\<close> is the address of \<^verbatim>\<open>_hyper_end\<close>.
\<close>

definition dm_frame :: "u64 \<Rightarrow> u64 \<Rightarrow> u64 \<Rightarrow> u64 \<Rightarrow> u64 option" where
  "dm_frame lo hi he va =
     (if lo \<le> va \<and> va < hi then Some (drop_bit 12 va)
      else if PAGE_VIRT_OFFSET \<le> va \<and> va < PAGE_VIRT_OFFSET + push_bit 30 1
      then Some (drop_bit 12 (va - PAGE_VIRT_OFFSET + PAGE_PHYS_OFFSET he)) else None)"

definition pool_frame :: "u64 \<Rightarrow> nat \<Rightarrow> u64" where
  "pool_frame he j = drop_bit 12 (PAGE_PHYS_OFFSET he) + of_nat j"

definition he_ok :: "u64 \<Rightarrow> bool" where
  "he_ok he \<longleftrightarrow> he < push_bit 39 1"

definition frames_of :: "u64 \<Rightarrow> bitmap \<Rightarrow> u64 set" where
  "frames_of he bm = pool_frame he ` {j. j < TOTAL_PAGES \<and> bm_test bm j}"

text \<open>At least \<open>k\<close> pages are left that the page-table code can use: even ones in the direct map.\<close>

definition free_low :: "bitmap \<Rightarrow> nat set" where
  "free_low bm = {j. j < 2 ^ 18 \<and> even j \<and> \<not> bm_test bm j}"

definition room :: "bitmap \<Rightarrow> nat \<Rightarrow> bool" where
  "room bm k \<longleftrightarrow> k \<le> card (free_low bm)"

section \<open>Addresses of pool pages\<close>

lemma pool_base:
  assumes "he_ok he"
  shows "unat (PAGE_PHYS_OFFSET he) < 2 ^ 41" "2 ^ 21 \<le> unat (PAGE_PHYS_OFFSET he)"
    "unat (PAGE_PHYS_OFFSET he) = 4096 * (unat (PAGE_PHYS_OFFSET he) div 4096)"
proof -
  define x where "x = he + 0x2fffff"
  have "unat he < 2 ^ 39" using assms by (simp add: he_ok_def word_less_nat_alt)
  then have he: "unat he < 2 ^ 40" by simp
  then have x: "unat x = unat he + 0x2fffff" unfolding x_def by (subst unat_add_lem [THEN iffD1]) auto
  have P: "PAGE_PHYS_OFFSET he = x AND NOT (mask 21)" by (simp add: PAGE_PHYS_OFFSET_def x_def mask_eq_exp_minus_1 ac_simps)
  also have "\<dots> = push_bit 21 (drop_bit 21 x)" by (rule bit_word_eqI) (auto simp: bit_simps)
  finally have u: "unat (PAGE_PHYS_OFFSET he) = 2 ^ 21 * (unat x div 2 ^ 21)"
    using x he by (simp add: unat_push_bit_small unat_drop_bit_div)
  show "unat (PAGE_PHYS_OFFSET he) < 2 ^ 41" using he x u times_div_less_eq_dividend [of "2 ^ 21" "unat x"] by simp
  have "1 \<le> unat x div 2 ^ 21" using x by (simp add: div_le_mono [of "2 ^ 21" "unat x" "2 ^ 21", simplified])
  then show "2 ^ 21 \<le> unat (PAGE_PHYS_OFFSET he)" using u by simp
  show "unat (PAGE_PHYS_OFFSET he) = 4096 * (unat (PAGE_PHYS_OFFSET he) div 4096)" unfolding u by simp
qed

lemma PAGE_VIRT_OFFSET_unat: "unat PAGE_VIRT_OFFSET = 0xF000000000"
  by (simp add: PAGE_VIRT_OFFSET_def)

lemma of_nat_page: "j < 2 ^ 20 \<Longrightarrow> unat (of_nat j :: u64) = j" "j < 2 ^ 20 \<Longrightarrow> unat (of_nat (j * 4096) :: u64) = j * 4096"
  by (rule unat_of_nat_small; simp)+

lemma unat_pool_frame: "he_ok he \<Longrightarrow> j < 2 ^ 20 \<Longrightarrow> unat (pool_frame he j) = unat (PAGE_PHYS_OFFSET he) div 4096 + j"
  using pool_base(1) [of he] of_nat_page(1) [of j]
  by (simp add: pool_frame_def unat_word_ariths unat_drop_bit_div)

lemma pool_frame_bounds:
  assumes "he_ok he" "j < 2 ^ 20"
  shows "unat (pool_frame he j) < 2 ^ 30" "pool_frame he j \<noteq> 0"
proof -
  have "unat (PAGE_PHYS_OFFSET he) div 4096 < 2 ^ 29" using pool_base(1) [OF assms(1)] by (simp add: less_mult_imp_div_less)
  then show "unat (pool_frame he j) < 2 ^ 30" using assms by (simp add: unat_pool_frame)
  have "0 < unat (PAGE_PHYS_OFFSET he) div 4096"
    using pool_base(2) [OF assms(1)] div_le_mono [of "2 ^ 21" "unat (PAGE_PHYS_OFFSET he)" 4096] by simp
  then show "pool_frame he j \<noteq> 0" using unat_pool_frame [OF assms] by (auto simp: unat_eq_0 [symmetric])
qed

lemma pool_frame_inj: "he_ok he \<Longrightarrow> i < 2 ^ 20 \<Longrightarrow> j < 2 ^ 20 \<Longrightarrow> pool_frame he i = pool_frame he j \<Longrightarrow> i = j"
  using unat_pool_frame [of he i] unat_pool_frame [of he j] by (metis add_left_cancel)

lemma pool_address:
  assumes "he_ok he" "j < 2 ^ 18"
  shows "PAGE_PHY he (int j) = push_bit 12 (pool_frame he j)" "drop_bit 12 (PAGE_PHY he (int j)) = pool_frame he j"
    "phy_to_vir he (push_bit 12 (pool_frame he j)) = PAGE_VIR (int j)"
    "PHY_TO_FN he (push_bit 12 (pool_frame he j)) = int j"
proof -
  note j = of_nat_page [of j] and b = pool_base [OF assms(1)]
  have j2: "j < 2 ^ 20" "j < 2 ^ 19" using assms(2) by simp_all
  have P: "unat (PAGE_PHYS_OFFSET he + of_nat (j * 4096)) = unat (PAGE_PHYS_OFFSET he) + j * 4096"
    using b(1) j assms(2) by (subst unat_add_lem [THEN iffD1]) (auto simp del: of_nat_mult)
  have f: "unat (push_bit 12 (pool_frame he j)) = unat (pool_frame he j) * 4096"
    using pool_frame_bounds(1) [OF assms(1) j2(1)] by (subst unat_push_bit_small) auto
  show eq: "PAGE_PHY he (int j) = push_bit 12 (pool_frame he j)"
    unfolding PAGE_PHY_low [OF j2(2)] word_unat_eq_iff P f unat_pool_frame [OF assms(1) j2(1)]
    using b(3) by (simp add: algebra_simps)
  show "drop_bit 12 (PAGE_PHY he (int j)) = pool_frame he j"
    unfolding eq using f by (simp add: word_unat_eq_iff unat_drop_bit_div)
  have v: "\<not> PAGE_PHYS_OFFSET he + of_nat (j * 4096) < PAGE_PHYS_OFFSET he" using P by (simp add: word_less_nat_alt)
  show "phy_to_vir he (push_bit 12 (pool_frame he j)) = PAGE_VIR (int j)"
    unfolding eq [symmetric] PAGE_PHY_low [OF j2(2)] PAGE_VIR_low [OF j2(2)] using v by (simp add: phy_to_vir_def)
  show "PHY_TO_FN he (push_bit 12 (pool_frame he j)) = int j"
    unfolding eq [symmetric] PAGE_PHY_low [OF j2(2)] using v word_offset_back(2) [OF j2(2), of "PAGE_PHYS_OFFSET he"] b(1) j(1) j2(1)
    by (simp add: PHY_TO_FN_def uint_nat del: of_nat_mult)
qed

lemma dm_frame_pool:
  assumes "he_ok he" "j < 2 ^ 18" "hi \<le> PAGE_VIRT_OFFSET"
  shows "dm_frame lo hi he (PAGE_VIR (int j)) = Some (pool_frame he j)"
proof -
  note j = of_nat_page(2) [of j]
  have j2: "j < 2 ^ 19" "j < 2 ^ 20" using assms(2) by simp_all
  have V: "unat (PAGE_VIRT_OFFSET + of_nat (j * 4096)) = 0xF000000000 + j * 4096"
    using j j2 assms(2) by (subst unat_add_lem [THEN iffD1]) (auto simp: PAGE_VIRT_OFFSET_unat simp del: of_nat_mult)
  have e: "unat (PAGE_VIRT_OFFSET + push_bit 30 1) = 0xF040000000" by (simp add: PAGE_VIRT_OFFSET_def)
  have "PAGE_VIRT_OFFSET + of_nat (j * 4096) - PAGE_VIRT_OFFSET + PAGE_PHYS_OFFSET he = PAGE_PHY he (int j)"
    by (simp add: PAGE_PHY_low [OF j2(1)])
  then show ?thesis using V e assms(2,3) pool_address(2) [OF assms(1,2)]
    unfolding dm_frame_def PAGE_VIR_low [OF j2(1)] word_le_nat_alt word_less_nat_alt PAGE_VIRT_OFFSET_unat by simp
qed

section \<open>Allocation of a table\<close>

lemma free_low_finite: "finite (free_low bm)"
  by (simp add: free_low_def)

lemma alloc_table:
  assumes "pages_ok bm" "room bm (Suc k)" "he_ok he"
  obtains j bm' where "alloc_pages_cnt bm 1 = Some (int j, bm')" "j < 2 ^ 18" "pages_ok bm'" "room bm' k"
    "pool_frame he j \<notin> frames_of he bm" "frames_of he bm' = insert (pool_frame he j) (frames_of he bm)"
proof -
  obtain i where i: "i \<in> free_low bm" using assms(2) by (fastforce simp: room_def card_gt_0_iff)
  have "ALIGN_MASK i 1 = i" using ALIGN_MASK_pow2 [of i 1] i by (auto simp: free_low_def elim!: evenE)
  moreover have "i < TOTAL_PAGES" "\<not> bm_test bm i" using i by (simp_all add: free_low_def TOTAL_PAGES_def)
  ultimately have f: "free_area bm TOTAL_PAGES 1 1 i" by (auto simp: free_area_def less_Suc_eq)
  have "1 \<le> TOTAL_PAGES" by (simp add: TOTAL_PAGES_def)
  with alloc_pages_cnt_cases [OF assms(1), of 1] f obtain j bm' where j:
    "alloc_pages_cnt bm 1 = Some (int j, bm')" "pages_ok bm'" "free_area bm TOTAL_PAGES 1 1 j"
    "\<forall>b < j. \<not> free_area bm TOTAL_PAGES 1 1 b" "\<forall>q. bm_test bm' q \<longleftrightarrow> j \<le> q \<and> q < j + 1 \<or> bm_test bm q"
    by auto
  have j5: "bm_test bm' q \<longleftrightarrow> q = j \<or> bm_test bm q" for q using j(5) by auto
  have "j \<le> i" using f j(4) by (meson leI)
  then have low: "j < 2 ^ 18" using i by (simp add: free_low_def)
  have "free_low bm' = free_low bm - {j}" using j5 by (auto simp: free_low_def)
  then have "card (free_low bm) \<le> Suc (card (free_low bm'))" by (simp add: card_Diff_singleton_if) linarith
  then have r: "room bm' k" using assms(2) by (simp add: room_def)
  have n: "\<not> bm_test bm j" "j < TOTAL_PAGES" using j(3) by (auto simp: free_area_def)
  have "pool_frame he j \<notin> frames_of he bm"
    using n pool_frame_inj [OF assms(3)] by (auto simp: frames_of_def TOTAL_PAGES_def)
  moreover have "frames_of he bm' = insert (pool_frame he j) (frames_of he bm)"
    using n(2) j5 by (auto simp: frames_of_def)
  ultimately show thesis using that j(1,2) low r by blast
qed

end
