(* ===== verification/Table_Walk.thy ===== *)
theory Table_Walk
  imports Pool_Frames
begin

text \<open>
  Building translation tables level by level, as the map operations of both architectures do: a loop
  descends from the root, one table per level, with an operation that finds or allocates the next
  table; then the last entry is written. The interface of the operation is the locale
  \<open>table_walker\<close>; the correctness of mapping a page and a range of pages is proved in it once.
\<close>

section \<open>State and paths\<close>

record pgt =
  pg_bm :: bitmap
  pg_tb :: ptmem

definition va_index :: "u64 \<Rightarrow> nat \<Rightarrow> nat" where
  "va_index addr level = unat (drop_bit (12 + 9 * (3 - level)) addr AND 511)"

definition va_path :: "u64 \<Rightarrow> nat \<Rightarrow> nat \<Rightarrow> nat list" where
  "va_path va level k = map (va_index va) [level..<Suc (level + k)]"

lemma va_path_simps:
  "va_path va level 0 = [va_index va level]"
  "va_path va level (Suc k) = va_index va level # va_path va (Suc level) k"
  by (simp_all add: va_path_def upt_rec)

lemma va_index_less: "va_index va level < 512"
proof -
  have "drop_bit (12 + 9 * (3 - level)) va AND 511 \<le> 511" by (rule word_and_le1)
  then show ?thesis by (simp add: va_index_def word_le_nat_alt)
qed

lemma va_path_idx: "idx_path k (va_path va level k)"
  by (auto simp: idx_path_def va_path_def va_index_less)

lemma va_path_Cons: "\<exists>i is. va_path va level k = i # is"
  by (cases k) (simp_all add: va_path_simps)

text \<open>The path from level \<open>lv\<close> to the last level determines the page number.\<close>

lemma va_path_page:
  assumes "va_path va lv (3 - lv) = va_path vb lv (3 - lv)" "lv \<le> 3"
  shows "take_bit (9 * (4 - lv)) (drop_bit 12 va) = take_bit (9 * (4 - lv)) (drop_bit 12 vb)"
proof (rule bit_word_eqI)
  fix i :: nat
  define l where "l = 3 - i div 9"
  have ix: "va_index va q = va_index vb q" if "lv \<le> q" "q \<le> 3" for q
    using assms that by (auto simp: va_path_def)
  have "bit (drop_bit 12 va) i = bit (drop_bit 12 vb) i" if i: "i < 9 * (4 - lv)"
  proof -
    have "i div 9 < 4 - lv" using i by (simp add: less_mult_imp_div_less mult.commute)
    then have l: "lv \<le> l" "l \<le> 3" "3 - l = i div 9" using assms(2) by (auto simp: l_def)
    have m: "(511::u64) = mask 9" by (simp add: mask_eq_exp_minus_1)
    have e: "bit x (12 + i) \<longleftrightarrow> bit (drop_bit (12 + 9 * (3 - l)) x AND mask 9) (i mod 9)" for x :: u64
      using mod_less_divisor [of 9 i] unfolding l(3) by (simp add: bit_simps add.assoc del: mod_less_divisor)
    have "drop_bit (12 + 9 * (3 - l)) va AND mask 9 = drop_bit (12 + 9 * (3 - l)) vb AND mask 9"
      using ix [OF l(1,2)] unfolding va_index_def m by (rule word_unat_eq_iff [THEN iffD2])
    then show ?thesis by (simp add: bit_simps e)
  qed
  then show "bit (take_bit (9 * (4 - lv)) (drop_bit 12 va)) i = bit (take_bit (9 * (4 - lv)) (drop_bit 12 vb)) i"
    by (auto simp: bit_simps)
qed

definition page_list :: "u64 \<Rightarrow> nat \<Rightarrow> u64 list" where
  "page_list va n = map (\<lambda>i. va + of_nat (i * 4096)) [0..<n]"

lemma page_list_Suc: "page_list va (Suc n) = va # page_list (va + 4096) n"
  by (simp add: page_list_def map_upt_Suc algebra_simps del: upt_Suc)

lemma page_number_add: "unat (drop_bit 12 (va + of_nat (k * 4096) :: u64)) = (unat (drop_bit 12 va) + k) mod 2 ^ 52"
proof -
  have "unat (va + of_nat (k * 4096)) = (unat va + k * 4096) mod (4096 * 2 ^ 52)"
    by (simp add: unat_word_ariths unat_of_nat take_bit_eq_mod mod_add_right_eq del: of_nat_mult)
  also have "\<dots> div 4096 = (unat va div 4096 + k) mod 2 ^ 52"
    by (simp only: mod_mult2_eq) (simp add: add.commute)
  finally show ?thesis by (simp add: unat_drop_bit_div del: of_nat_mult)
qed

lemma shift_inj_mod: "(c + i) mod m = (c + j) mod m \<Longrightarrow> i < m \<Longrightarrow> j < m \<Longrightarrow> i = (j::nat)"
proof (induction i j rule: linorder_wlog)
  case (le i j)
  then have "m dvd (c + j) - (c + i)" by (subst mod_eq_dvd_iff_nat [symmetric]) auto
  then have "j - i = 0" using le by (cases "j - i = 0") (auto dest!: dvd_imp_le)
  then show ?case using le by simp
next
  case (sym i j)
  then show ?case by metis
qed

lemma page_list_distinct:
  assumes "n \<le> 2 ^ (9 * (4 - lv))" "lv \<le> 3"
  shows "distinct (map (\<lambda>va. va_path va lv (3 - lv)) (page_list va n))"
proof -
  have "i = j" if ij: "i < n" "j < n"
    and e: "va_path (va + of_nat (i * 4096)) lv (3 - lv) = va_path (va + of_nat (j * 4096)) lv (3 - lv)" for i j
  proof -
    let ?b = "9 * (4 - lv)"
    have "take_bit ?b (unat (drop_bit 12 (va + of_nat (i * 4096)))) = take_bit ?b (unat (drop_bit 12 (va + of_nat (j * 4096))))"
      using arg_cong [OF va_path_page [OF e assms(2)], of unat] by (simp only: unsigned_take_bit_eq)
    moreover have "(2::nat) ^ ?b dvd 2 ^ 52" by (rule le_imp_power_dvd) simp
    ultimately have "(unat (drop_bit 12 va) + i) mod 2 ^ ?b = (unat (drop_bit 12 va) + j) mod 2 ^ ?b"
      unfolding page_number_add take_bit_eq_mod by (simp only: mod_mod_cancel)
    then show ?thesis by (rule shift_inj_mod) (use ij assms(1) in linarith)+
  qed
  then have "inj_on (\<lambda>i. va_path (va + of_nat (i * 4096)) lv (3 - lv)) (set [0..<n])"
    by (intro inj_onI) (simp del: of_nat_mult)
  then show ?thesis unfolding page_list_def by (simp add: distinct_map comp_def del: of_nat_mult)
qed

definition low_frames :: "u64 \<Rightarrow> u64 set" where
  "low_frames he = pool_frame he ` {..<2 ^ 18}"

text \<open>Frames in use: the root, a set \<open>X\<close> of static tables of the image, and the allocated pages of the pool.\<close>

definition in_use :: "u64 set \<Rightarrow> u64 \<Rightarrow> u64 \<Rightarrow> bitmap \<Rightarrow> u64 set" where
  "in_use X t he bm = insert t (X \<union> frames_of he bm)"

text \<open>The root is a static table outside the pool, or an allocated page of it.\<close>

definition root_ok :: "u64 \<Rightarrow> u64 \<Rightarrow> bitmap \<Rightarrow> bool" where
  "root_ok t he bm \<longleftrightarrow> t \<in> frames_of he bm \<or> t \<notin> pool_frame he ` {..<2 ^ 20}"

lemma fresh_not_in_use:
  "root_ok t he bm \<Longrightarrow> X \<inter> pool_frame he ` {..<2 ^ 20} = {} \<Longrightarrow> j < 2 ^ 18 \<Longrightarrow> pool_frame he j \<notin> frames_of he bm \<Longrightarrow>
   pool_frame he j \<notin> in_use X t he bm"
  by (fastforce simp: root_ok_def in_use_def)

definition tables_in :: "u64 set \<Rightarrow> pt_format \<Rightarrow> u64 \<Rightarrow> nat \<Rightarrow> u64 \<Rightarrow> pgt \<Rightarrow> bool" where
  "tables_in X F he k t s \<longleftrightarrow> pages_ok (pg_bm s) \<and> root_ok t he (pg_bm s) \<and> twf F (pg_tb s) k t \<and>
     tframes F (pg_tb s) k t \<subseteq> in_use X t he (pg_bm s) \<and> tframes F (pg_tb s) k t - {t} \<subseteq> low_frames he \<union> X"

text \<open>Without static tables.\<close>

abbreviation "tables_ok \<equiv> tables_in {}"

section \<open>How many tables a range needs\<close>

lemma room_mono: "room bm a \<Longrightarrow> b \<le> a \<Longrightarrow> room bm b"
  by (simp add: room_def)

text \<open>
  Per level, one table per started group of 512 tables or pages of the level below; at most one table per page
  and level.
\<close>

definition tables_needed :: "nat \<Rightarrow> nat \<Rightarrow> nat" where
  "tables_needed k n = min (k * n) (\<Sum>d \<in> {1..k}. n div 512 ^ d + 2)"

lemma room_per_page: "room bm (k * n) \<Longrightarrow> room bm (tables_needed k n)"
  unfolding tables_needed_def by (erule room_mono) (rule min.cobounded1)

lemma page_number_less: "unat (drop_bit 12 (va::u64)) < 2 ^ 52"
proof -
  have "unat va < 2 ^ 64" using unsigned_less [of va] by simp
  then show ?thesis by (simp add: unat_drop_bit_div less_mult_imp_div_less)
qed

lemma va_index_page: "level \<le> 3 \<Longrightarrow> va_index va level = unat (drop_bit 12 va) div 512 ^ (3 - level) mod 512"
proof -
  have "(511::u64) = mask 9" by (simp add: mask_eq_exp_minus_1)
  then have "va_index va level = unat (take_bit 9 (drop_bit (12 + 9 * (3 - level)) va))"
    by (simp add: va_index_def take_bit_eq_mask)
  also have "\<dots> = unat va div 2 ^ (12 + 9 * (3 - level)) mod 512"
    by (simp only: unsigned_take_bit_eq unat_drop_bit_div) (simp add: take_bit_eq_mod)
  also have "unat va div 2 ^ (12 + 9 * (3 - level)) = unat (drop_bit 12 va) div 512 ^ (3 - level)"
    by (simp add: power_add power_mult div_mult2_eq unat_drop_bit_div)
  finally show ?thesis .
qed

lemma va_path_page_eq: "drop_bit 12 va = drop_bit 12 vb \<Longrightarrow> lv + k = 3 \<Longrightarrow> va_path va lv k = va_path vb lv k"
  unfolding va_path_def by (rule map_cong [OF refl]) (simp add: va_index_page)

text \<open>On addresses of 39 bits a path from level 0 or 1 is the page number.\<close>

lemma va_path_iff:
  assumes "unat va < 2 ^ 39" "unat vb < 2 ^ 39" "lv \<le> 1" "lv + k = 3"
  shows "va_path va lv k = va_path vb lv k \<longleftrightarrow> unat (drop_bit 12 va) = unat (drop_bit 12 vb)"
proof
  have small: "take_bit (9 * (4 - lv)) (unat (drop_bit 12 x)) = unat (drop_bit 12 x)" if "unat x < 2 ^ 39" for x :: u64
  proof (rule take_bit_nat_eq_self)
    have "unat (drop_bit 12 x) < 2 ^ 27" using that by (simp add: unat_drop_bit_div less_mult_imp_div_less)
    also have "(2::nat) ^ 27 \<le> 2 ^ (9 * (4 - lv))" using assms(3) by (intro power_increasing) auto
    finally show "unat (drop_bit 12 x) < 2 ^ (9 * (4 - lv))" .
  qed
  assume "va_path va lv k = va_path vb lv k"
  moreover have "k = 3 - lv" "lv \<le> 3" using assms(4) by simp_all
  ultimately have "take_bit (9 * (4 - lv)) (drop_bit 12 va) = take_bit (9 * (4 - lv)) (drop_bit 12 vb)"
    using va_path_page by blast
  from arg_cong [OF this, of unat]
  have "take_bit (9 * (4 - lv)) (unat (drop_bit 12 va)) = take_bit (9 * (4 - lv)) (unat (drop_bit 12 vb))"
    by (simp only: unsigned_take_bit_eq)
  then show "unat (drop_bit 12 va) = unat (drop_bit 12 vb)" using small [OF assms(1)] small [OF assms(2)] by simp
next
  assume "unat (drop_bit 12 va) = unat (drop_bit 12 vb)"
  then have "drop_bit 12 va = drop_bit 12 vb" by (rule word_unat_eq_iff [THEN iffD2])
  then show "va_path va lv k = va_path vb lv k" using assms(4) by (rule va_path_page_eq)
qed

lemma va_prefix_page:
  assumes "lv + k = 3" "0 < l" "l \<le> k"
  shows "take l (va_path va lv k) =
    map (\<lambda>q. unat (drop_bit 12 va) div 512 ^ (k + 1 - l) div 512 ^ (lv + l - 1 - q) mod 512) [lv..<lv + l]"
proof -
  have "take l (va_path va lv k) = map (va_index va) [lv..<lv + l]"
    using assms by (simp add: va_path_def take_map take_upt del: upt_Suc)
  also have "\<dots> = map (\<lambda>q. unat (drop_bit 12 va) div 512 ^ (k + 1 - l) div 512 ^ (lv + l - 1 - q) mod 512) [lv..<lv + l]"
  proof (rule map_cong [OF refl])
    fix q assume "q \<in> set [lv..<lv + l]"
    then have "q \<le> 3" "3 - q = (k + 1 - l) + (lv + l - 1 - q)" using assms by auto
    then show "va_index va q = unat (drop_bit 12 va) div 512 ^ (k + 1 - l) div 512 ^ (lv + l - 1 - q) mod 512"
      by (simp only: va_index_page power_add div_mult2_eq)
  qed
  finally show ?thesis .
qed

lemma div_range:
  assumes "i < n"
  shows "(c + i) div (D::nat) \<in> {c div D..c div D + n div D + 1}"
proof (cases "D = 0")
  case False
  have "(c + i) div D \<le> (c + n) div D" using assms by (intro div_le_mono) simp
  also have "\<dots> = c div D + n div D + (c mod D + n mod D) div D" by (rule div_add1_eq)
  also have "(c mod D + n mod D) div D \<le> 1"
  proof -
    have "c mod D < D" "n mod D < D" using False by simp_all
    then have "c mod D + n mod D < 2 * D" by linarith
    then have "(c mod D + n mod D) div D < 2" by (rule less_mult_imp_div_less)
    then show ?thesis by simp
  qed
  finally show ?thesis by (simp add: div_le_mono)
qed simp

lemma tables_missing_bound:
  assumes "lv + k = 3" "unat (drop_bit 12 v) + n \<le> 2 ^ 52"
  shows "card (tables_missing F tb t ((\<lambda>va. va_path va lv k) ` set (page_list v n))) \<le> tables_needed k n"
proof -
  let ?P = "(\<lambda>va. va_path va lv k) ` set (page_list v n)" and ?c = "unat (drop_bit 12 v)"
  define G where "G l x = map (\<lambda>q. x div 512 ^ (lv + l - 1 - q) mod 512) [lv..<lv + l]" for l x :: nat
  define I where "I d = {?c div 512 ^ d..?c div 512 ^ d + n div 512 ^ d + 1}" for d
  let ?U = "\<Union>d \<in> {1..k}. G (k + 1 - d) ` I d"
  have sub: "take l js \<in> ?U" if js: "js \<in> ?P" and l: "0 < l" "l \<le> k" for l js
  proof -
    obtain i where i: "i < n" "js = va_path (v + of_nat (i * 4096)) lv k" using js by (auto simp: page_list_def simp del: of_nat_mult)
    have "unat (drop_bit 12 (v + of_nat (i * 4096))) = ?c + i" using page_number_add [of v i] i(1) assms(2) by simp
    then have "take l js = G l ((?c + i) div 512 ^ (k + 1 - l))"
      unfolding i(2) va_prefix_page [OF assms(1) l] G_def by simp
    moreover have "(?c + i) div 512 ^ (k + 1 - l) \<in> I (k + 1 - l)" unfolding I_def by (rule div_range [OF i(1)])
    moreover have "k + 1 - l \<in> {1..k}" "k + 1 - (k + 1 - l) = l" using l by auto
    ultimately show ?thesis by (metis (no_types, lifting) UN_I imageI)
  qed
  have "tables_missing F tb t ?P \<subseteq> ?U"
    using sub by (fastforce simp: tables_missing_def va_path_def)
  then have "card (tables_missing F tb t ?P) \<le> card ?U" by (intro card_mono) (simp_all add: I_def)
  also have "\<dots> \<le> (\<Sum>d \<in> {1..k}. card (G (k + 1 - d) ` I d))" by (rule card_UN_le) simp
  also have "\<dots> \<le> (\<Sum>d \<in> {1..k}. n div 512 ^ d + 2)"
    by (rule sum_mono, rule order.trans [OF card_image_le]) (simp_all add: I_def)
  finally have b1: "card (tables_missing F tb t ?P) \<le> (\<Sum>d \<in> {1..k}. n div 512 ^ d + 2)" .
  have "tables_missing F tb t ?P \<subseteq> (\<lambda>(va, l). take l (va_path va lv k)) ` (set (page_list v n) \<times> {1..k})" (is "_ \<subseteq> ?V")
  proof
    fix qs assume "qs \<in> tables_missing F tb t ?P"
    then obtain va l where "va \<in> set (page_list v n)" "0 < l" "l < length (va_path va lv k)" "qs = take l (va_path va lv k)"
      by (auto simp: tables_missing_def)
    then show "qs \<in> ?V" by (intro image_eqI [of _ _ "(va, l)"]) (auto simp: va_path_def)
  qed
  then have "card (tables_missing F tb t ?P) \<le> card ?V" by (intro card_mono) simp_all
  also have "\<dots> \<le> card (set (page_list v n)) * k"
    by (rule order.trans [OF card_image_le]) (simp_all add: card_cartesian_product)
  also have "\<dots> \<le> k * n" using card_length [of "page_list v n"] by (simp add: page_list_def mult.commute)
  finally show ?thesis using b1 by (simp add: tables_needed_def)
qed

text \<open>The pages of a range, as page numbers.\<close>

lemma page_range_path:
  assumes "unat ipa < 2 ^ 39" "unat v + n * 4096 \<le> 2 ^ 39" "lv \<le> 1" "lv + k = 3"
  shows "(\<exists>i < n. va_path ipa lv k = va_path (v + of_nat (i * 4096)) lv k) \<longleftrightarrow>
    unat (drop_bit 12 ipa) \<in> {unat (drop_bit 12 v)..<unat (drop_bit 12 v) + n}"
proof -
  have a: "unat (v + of_nat (i * 4096)) = unat v + i * 4096" if "i < n" for i
  proof -
    have "unat v + i * 4096 < 2 ^ 39" using assms(2) that by auto
    then have "unat (of_nat (i * 4096) :: u64) = i * 4096" by (intro unat_of_nat_small) simp
    then show ?thesis using \<open>unat v + i * 4096 < 2 ^ 39\<close> by (subst unat_add_lem [THEN iffD1]) (simp_all del: of_nat_mult)
  qed
  have p: "unat (drop_bit 12 (v + of_nat (i * 4096))) = unat (drop_bit 12 v) + i" if "i < n" for i
    by (simp add: unat_drop_bit_div a [OF that] del: of_nat_mult)
  have "va_path ipa lv k = va_path (v + of_nat (i * 4096)) lv k \<longleftrightarrow> unat (drop_bit 12 ipa) = unat (drop_bit 12 v) + i" if "i < n" for i
  proof -
    have "unat v + i * 4096 < 2 ^ 39" using assms(2) that by auto
    then show ?thesis using va_path_iff [OF assms(1) _ assms(3,4), of "v + of_nat (i * 4096)"] a [OF that] p [OF that] by simp
  qed
  then have "(\<exists>i < n. va_path ipa lv k = va_path (v + of_nat (i * 4096)) lv k) \<longleftrightarrow>
      (\<exists>i < n. unat (drop_bit 12 ipa) = unat (drop_bit 12 v) + i)" by blast
  also have "\<dots> \<longleftrightarrow> unat (drop_bit 12 ipa) \<in> {unat (drop_bit 12 v)..<unat (drop_bit 12 v) + n}"
    by (auto intro: exI [of _ "unat (drop_bit 12 ipa) - unat (drop_bit 12 v)"])
  finally show ?thesis .
qed

section \<open>Descending\<close>

primrec descend :: "(u64 \<Rightarrow> nat \<Rightarrow> nat \<Rightarrow> pgt \<Rightarrow> (u64 \<times> pgt) option) \<Rightarrow> u64 \<Rightarrow> nat \<Rightarrow> nat \<Rightarrow> u64 \<Rightarrow> pgt \<Rightarrow> (u64 \<times> pgt) option" where
  "descend nxt va 0 level p s = Some (p, s)"
| "descend nxt va (Suc k) level p s = do {
     (p', s') \<leftarrow> nxt p level (va_index va level) s;
     descend nxt va k (Suc level) p' s' }"

definition map_one :: "(u64 \<Rightarrow> u64 option) \<Rightarrow> (u64 \<Rightarrow> nat \<Rightarrow> nat \<Rightarrow> pgt \<Rightarrow> (u64 \<times> pgt) option) \<Rightarrow>
    nat \<Rightarrow> nat \<Rightarrow> u64 \<Rightarrow> u64 \<Rightarrow> u64 \<Rightarrow> pgt \<Rightarrow> pgt option" where
  "map_one ptr nxt level k root va e s = do {
     (p, s') \<leftarrow> descend nxt va k level root s;
     g \<leftarrow> ptr p;
     Some (s'\<lparr>pg_tb := put g (va_index va (level + k)) e (pg_tb s')\<rparr>) }"

primrec map_range :: "(u64 \<Rightarrow> pgt \<Rightarrow> pgt option) \<Rightarrow> u64 list \<Rightarrow> pgt \<Rightarrow> pgt option" where
  "map_range f [] s = Some s"
| "map_range f (va # vas) s = f va s \<bind> map_range f vas"

text \<open>The last entry of a path; 0 if its table does not exist.\<close>

fun last_entry :: "pt_format \<Rightarrow> ptmem \<Rightarrow> u64 \<Rightarrow> nat list \<Rightarrow> u64" where
  "last_entry F tb t (i # j # is) = (if is_tab F (tb t i) then last_entry F tb (pf_next F (tb t i)) (j # is) else 0)"
| "last_entry F tb t [i] = tb t i"
| "last_entry F tb t [] = 0"

locale table_walker = radix_format F for F :: pt_format +
  fixes ptr :: "u64 \<Rightarrow> u64 \<Rightarrow> u64 option"
    and nxt :: "u64 \<Rightarrow> u64 \<Rightarrow> nat \<Rightarrow> nat \<Rightarrow> pgt \<Rightarrow> (u64 \<times> pgt) option"
    and X :: "u64 \<Rightarrow> u64 set"
  assumes static: "he_ok he \<Longrightarrow> X he \<inter> pool_frame he ` {..<2 ^ 20} = {}"
    and nxt_old: "he_ok he \<Longrightarrow> ptr he p = Some f \<Longrightarrow> level < 3 \<Longrightarrow> is_tab F (pg_tb s f i) \<Longrightarrow>
      pf_next F (pg_tb s f i) \<in> low_frames he \<union> X he \<Longrightarrow>
      \<exists>p'. nxt he p level i s = Some (p', s) \<and> ptr he p' = Some (pf_next F (pg_tb s f i))"
    and nxt_new: "he_ok he \<Longrightarrow> ptr he p = Some f \<Longrightarrow> level < 3 \<Longrightarrow> \<not> pf_valid F (pg_tb s f i) \<Longrightarrow>
      pages_ok (pg_bm s) \<Longrightarrow> room (pg_bm s) (Suc k) \<Longrightarrow> f \<in> in_use (X he) t he (pg_bm s) \<Longrightarrow> root_ok t he (pg_bm s) \<Longrightarrow>
      \<exists>p' j bm' m. nxt he p level i s = Some (p', \<lparr>pg_bm = bm', pg_tb = put f i m (clear_table (pool_frame he j) (pg_tb s))\<rparr>) \<and>
        ptr he p' = Some (pool_frame he j) \<and> j < 2 ^ 18 \<and> pages_ok bm' \<and> room bm' k \<and>
        pool_frame he j \<notin> frames_of he (pg_bm s) \<and> frames_of he bm' = insert (pool_frame he j) (frames_of he (pg_bm s)) \<and>
        is_tab F m \<and> pf_next F m = pool_frame he j"
begin

text \<open>What descending \<open>k\<close> levels below the table \<open>f\<close> achieves.\<close>

definition reaches :: "u64 \<Rightarrow> u64 \<Rightarrow> u64 \<Rightarrow> nat \<Rightarrow> nat \<Rightarrow> nat \<Rightarrow> u64 \<Rightarrow> u64 \<Rightarrow> pgt \<Rightarrow> bool" where
  "reaches he t va k r level p f s \<longleftrightarrow> (\<exists>p' s' g. descend (nxt he) va k level p s = Some (p', s') \<and> ptr he p' = Some g \<and>
     pages_ok (pg_bm s') \<and> room (pg_bm s') r \<and> frames_of he (pg_bm s) \<subseteq> frames_of he (pg_bm s') \<and>
     frames_of he (pg_bm s') \<subseteq> frames_of he (pg_bm s) \<union> low_frames he \<and>
     (\<forall>e. pmaps F (in_use (X he) t he (pg_bm s)) (pg_tb s) f (va_path va level k) e
            (put g (va_index va (level + k)) e (pg_tb s')) (in_use (X he) t he (pg_bm s'))) \<and>
     pg_tb s' g (va_index va (level + k)) = last_entry F (pg_tb s) f (va_path va level k))"

lemma reaches_old:
  assumes "nxt he p level (va_index va level) s = Some (p', s)" "is_tab F (pg_tb s f (va_index va level))"
    "reaches he t va k r (Suc level) p' (pf_next F (pg_tb s f (va_index va level))) s"
  shows "reaches he t va (Suc k) r level p f s"
proof -
  obtain j js where path: "va_path va (Suc level) k = j # js" using va_path_Cons by blast
  from assms(3) obtain q s' g where R: "descend (nxt he) va k (Suc level) p' s = Some (q, s')" "ptr he q = Some g"
    "pages_ok (pg_bm s')" "room (pg_bm s') r" "frames_of he (pg_bm s) \<subseteq> frames_of he (pg_bm s')"
    "frames_of he (pg_bm s') \<subseteq> frames_of he (pg_bm s) \<union> low_frames he"
    "\<And>e. pmaps F (in_use (X he) t he (pg_bm s)) (pg_tb s) (pf_next F (pg_tb s f (va_index va level))) (j # js) e
       (put g (va_index va (level + Suc k)) e (pg_tb s')) (in_use (X he) t he (pg_bm s'))"
    "pg_tb s' g (va_index va (level + Suc k)) = last_entry F (pg_tb s) (pf_next F (pg_tb s f (va_index va level))) (j # js)"
    by (auto simp: reaches_def path)
  have "pmaps F (in_use (X he) t he (pg_bm s)) (pg_tb s) f (va_path va level (Suc k)) e
      (put g (va_index va (level + Suc k)) e (pg_tb s')) (in_use (X he) t he (pg_bm s'))" for e
    unfolding va_path_simps path by (rule pmaps.old [OF assms(2) R(7)])
  moreover have "pg_tb s' g (va_index va (level + Suc k)) = last_entry F (pg_tb s) f (va_path va level (Suc k))"
    unfolding R(8) using assms(2) by (simp add: va_path_simps path)
  ultimately show ?thesis using R(1-6) assms(1) by (auto simp: reaches_def)
qed

lemma reaches_new:
  assumes "nxt he p level (va_index va level) s = Some (p', s1)"
    "s1 = \<lparr>pg_bm = bm', pg_tb = put f (va_index va level) m (clear_table (pool_frame he j) (pg_tb s))\<rparr>"
    "\<not> pf_valid F (pg_tb s f (va_index va level))" "is_tab F m" "pf_next F m = pool_frame he j" "j < 2 ^ 18"
    "pool_frame he j \<notin> in_use (X he) t he (pg_bm s)" "frames_of he bm' = insert (pool_frame he j) (frames_of he (pg_bm s))"
    "reaches he t va k r (Suc level) p' (pool_frame he j) s1" "f \<in> in_use (X he) t he (pg_bm s)"
  shows "reaches he t va (Suc k) r level p f s"
proof -
  obtain i js where path: "va_path va (Suc level) k = i # js" using va_path_Cons by blast
  have A: "in_use (X he) t he bm' = insert (pool_frame he j) (in_use (X he) t he (pg_bm s))" using assms(8) by (auto simp: in_use_def)
  from assms(9) obtain q s' g where R: "descend (nxt he) va k (Suc level) p' s1 = Some (q, s')" "ptr he q = Some g"
    "pages_ok (pg_bm s')" "room (pg_bm s') r" "frames_of he bm' \<subseteq> frames_of he (pg_bm s')"
    "frames_of he (pg_bm s') \<subseteq> frames_of he bm' \<union> low_frames he"
    "\<And>e. pmaps F (insert (pool_frame he j) (in_use (X he) t he (pg_bm s)))
       (put f (va_index va level) m (clear_table (pool_frame he j) (pg_tb s))) (pool_frame he j) (i # js) e
       (put g (va_index va (level + Suc k)) e (pg_tb s')) (in_use (X he) t he (pg_bm s'))"
    "pg_tb s' g (va_index va (level + Suc k)) = last_entry F (pg_tb s1) (pool_frame he j) (i # js)"
    by (auto simp: reaches_def path A assms(2))
  have "pmaps F (in_use (X he) t he (pg_bm s)) (pg_tb s) f (va_path va level (Suc k)) e
      (put g (va_index va (level + Suc k)) e (pg_tb s')) (in_use (X he) t he (pg_bm s'))" for e
    unfolding va_path_simps path by (rule pmaps.new [OF assms(3,7,4,5) R(7)])
  moreover have "frames_of he (pg_bm s') \<subseteq> frames_of he (pg_bm s) \<union> low_frames he"
    using R(6) assms(6,8) by (auto simp: low_frames_def)
  moreover have "pg_tb s' g (va_index va (level + Suc k)) = last_entry F (pg_tb s) f (va_path va level (Suc k))"
  proof -
    have "f \<noteq> pool_frame he j" using assms(7,10) by blast
    then have "pg_tb s1 (pool_frame he j) q = 0" for q by (simp add: assms(2))
    then have "last_entry F (pg_tb s1) (pool_frame he j) (i # js) = 0" using zero_not_tab by (cases js) simp_all
    then show ?thesis unfolding R(8) using assms(3) by (simp add: va_path_simps path is_tab_def)
  qed
  ultimately show ?thesis using R(1-5) assms(1,8) by (auto simp: reaches_def)
qed

lemma descend_reaches:
  "he_ok he \<Longrightarrow> root_ok t he (pg_bm s) \<Longrightarrow> ptr he p = Some f \<Longrightarrow> pages_ok (pg_bm s) \<Longrightarrow>
   room (pg_bm s) (need F (pg_tb s) f (va_path va level k) + r) \<Longrightarrow> level + k \<le> 3 \<Longrightarrow> \<not> blocked F (pg_tb s) f (va_path va level k) \<Longrightarrow> twf F (pg_tb s) k f \<Longrightarrow>
   tframes F (pg_tb s) k f - {f} \<subseteq> low_frames he \<union> X he \<Longrightarrow> tframes F (pg_tb s) k f \<subseteq> in_use (X he) t he (pg_bm s) \<Longrightarrow>
   reaches he t va k r level p f s"
proof (induction k arbitrary: level p f s)
  case 0
  then show ?case by (auto simp: reaches_def va_path_simps intro: pmaps.last)
next
  case (Suc k)
  let ?i = "va_index va level" and ?tb = "pg_tb s"
  obtain j js where path: "va_path va (Suc level) k = j # js" using va_path_Cons by blast
  have l3: "level < 3" "Suc level + k \<le> 3" using Suc.prems(6) by simp_all
  note blk = Suc.prems(7) [unfolded va_path_simps path blocked.simps]
  show ?case
  proof (cases "pf_valid F (?tb f ?i)")
    case True
    let ?c = "pf_next F (?tb f ?i)"
    have tab: "is_tab F (?tb f ?i)" and nb: "\<not> blocked F ?tb ?c (va_path va (Suc level) k)"
      using blk True by (auto simp: is_tab_def path)
    have c: "twf F ?tb k ?c" "f \<notin> tframes F ?tb k ?c" "tframes F ?tb k ?c \<subseteq> tframes F ?tb (Suc k) f"
      using Suc.prems(8) tab va_index_less [of va level] by auto
    have low: "tframes F ?tb k ?c - {?c} \<subseteq> low_frames he \<union> X he" "?c \<in> low_frames he \<union> X he"
      "tframes F ?tb k ?c \<subseteq> in_use (X he) t he (pg_bm s)"
    proof -
      have "tframes F ?tb k ?c \<subseteq> tframes F ?tb (Suc k) f - {f}" using c(2,3) by blast
      then have s: "tframes F ?tb k ?c \<subseteq> low_frames he \<union> X he" using Suc.prems(9) by (rule subset_trans)
      then show "tframes F ?tb k ?c - {?c} \<subseteq> low_frames he \<union> X he" by blast
      show "?c \<in> low_frames he \<union> X he" using s root_in_tframes by (rule subsetD)
      show "tframes F ?tb k ?c \<subseteq> in_use (X he) t he (pg_bm s)" using c(3) Suc.prems(10) by (rule subset_trans)
    qed
    obtain p' where p: "nxt he p level ?i s = Some (p', s)" "ptr he p' = Some ?c"
      using nxt_old [OF Suc.prems(1,3) l3(1) tab low(2)] by blast
    have room: "room (pg_bm s) (need F ?tb ?c (va_path va (Suc level) k) + r)" using Suc.prems(5) tab by (simp add: va_path_simps path)
    show ?thesis using Suc.IH [OF Suc.prems(1,2) p(2) Suc.prems(4) room l3(2) nb c(1) low(1,3)]
      by (rule reaches_old [OF p(1) tab])
  next
    case False
    have f: "f \<in> in_use (X he) t he (pg_bm s)" using Suc.prems(10) by auto
    have len: "length (j # js) = Suc k" unfolding path [symmetric] by (simp add: va_path_def)
    have room: "room (pg_bm s) (Suc (k + r))" using Suc.prems(5) False len by (simp add: va_path_simps path is_tab_def)
    obtain p' q bm' m where n: "nxt he p level ?i s = Some (p', \<lparr>pg_bm = bm', pg_tb = put f ?i m (clear_table (pool_frame he q) ?tb)\<rparr>)"
      "ptr he p' = Some (pool_frame he q)" "q < 2 ^ 18" "pages_ok bm'" "room bm' (k + r)"
      "pool_frame he q \<notin> frames_of he (pg_bm s)" "frames_of he bm' = insert (pool_frame he q) (frames_of he (pg_bm s))"
      "is_tab F m" "pf_next F m = pool_frame he q"
      using nxt_new [OF Suc.prems(1,3) l3(1) False Suc.prems(4) room f Suc.prems(2)] by blast
    let ?g = "pool_frame he q" and ?tb' = "put f ?i m (clear_table (pool_frame he q) ?tb)"
    have fresh: "?g \<notin> in_use (X he) t he (pg_bm s)" using fresh_not_in_use [OF Suc.prems(2) static [OF Suc.prems(1)] n(3,6)] .
    then have emp: "\<And>i. \<not> pf_valid F (?tb' ?g i)" using f zero_invalid by (cases "f = ?g") auto
    have g: "tframes F ?tb' k ?g = {?g}" "twf F ?tb' k ?g" "\<not> blocked F ?tb' ?g (va_path va (Suc level) k)"
      using emp empty_table [of ?tb' ?g k] empty_blocked [of ?tb' ?g, OF _ va_path_idx] by blast+
    have "root_ok t he bm'" "?g \<in> in_use (X he) t he bm'" using Suc.prems(2) n(7) by (auto simp: root_ok_def in_use_def)
    moreover have "room bm' (need F ?tb' ?g (va_path va (Suc level) k) + r)"
      using need_less [of F ?tb' ?g "va_path va (Suc level) k"] len unfolding path by (intro room_mono [OF n(5)]) simp
    ultimately have "reaches he t va k r (Suc level) p' ?g \<lparr>pg_bm = bm', pg_tb = ?tb'\<rparr>"
      using Suc.IH [of "\<lparr>pg_bm = bm', pg_tb = ?tb'\<rparr>" p' ?g "Suc level"] Suc.prems(1) n(2,4) l3(2) g by simp
    then show ?thesis by (rule reaches_new [OF n(1) refl False n(8,9,3) fresh n(7) _ f])
  qed
qed

lemma descend_entry:
  assumes "he_ok he" "ptr he root = Some t" "tables_in (X he) F he k t s" "level + k \<le> 3"
    "room (pg_bm s) (need F (pg_tb s) t (va_path va level k))" "\<not> blocked F (pg_tb s) t (va_path va level k)"
  shows "\<exists>p s' g. descend (nxt he) va k level root s = Some (p, s') \<and> ptr he p = Some g \<and>
    pg_tb s' g (va_index va (level + k)) = last_entry F (pg_tb s) t (va_path va level k)"
proof -
  have "reaches he t va k 0 level root t s"
    using assms(3,5) unfolding tables_in_def by (intro descend_reaches [OF assms(1) _ assms(2) _ _ assms(4,6)]) auto
  then show ?thesis unfolding reaches_def by blast
qed

lemma map_one_correct:
  assumes "he_ok he" "ptr he root = Some t" "tables_in (X he) F he k t s" "level + k \<le> 3"
    "room (pg_bm s) (need F (pg_tb s) t (va_path va level k) + r)" "\<not> blocked F (pg_tb s) t (va_path va level k)"
  shows "\<exists>s'. map_one (ptr he) (nxt he) level k root va e s = Some s' \<and> tables_in (X he) F he k t s' \<and> room (pg_bm s') r \<and>
    (\<forall>qs. length qs \<le> k \<and> (\<forall>q \<in> set qs. q < 512) \<and> leads F (pg_tb s) t qs \<longrightarrow> leads F (pg_tb s') t qs) \<and>
    mapped F k (in_use (X he) t he (pg_bm s)) (pg_tb s) t (va_path va level k) e (pg_tb s') (in_use (X he) t he (pg_bm s'))"
proof -
  note ok = assms(3) [unfolded tables_in_def]
  obtain p s' g where R: "descend (nxt he) va k level root s = Some (p, s')" "ptr he p = Some g" "pages_ok (pg_bm s')"
    "room (pg_bm s') r" "frames_of he (pg_bm s) \<subseteq> frames_of he (pg_bm s')"
    "frames_of he (pg_bm s') \<subseteq> frames_of he (pg_bm s) \<union> low_frames he"
    "pmaps F (in_use (X he) t he (pg_bm s)) (pg_tb s) t (va_path va level k) e
       (put g (va_index va (level + k)) e (pg_tb s')) (in_use (X he) t he (pg_bm s'))"
    using descend_reaches [OF assms(1) _ assms(2) _ assms(5,4,6)] ok unfolding reaches_def by blast
  let ?s = "s'\<lparr>pg_tb := put g (va_index va (level + k)) e (pg_tb s')\<rparr>"
  have M: "mapped F k (in_use (X he) t he (pg_bm s)) (pg_tb s) t (va_path va level k) e (pg_tb ?s) (in_use (X he) t he (pg_bm ?s))"
    using pmaps_correct [OF R(7) _ _ va_path_idx] ok by simp
  have "root_ok t he (pg_bm ?s)" using ok R(5) by (auto simp: root_ok_def)
  moreover have "tframes F (pg_tb ?s) k t \<subseteq> in_use (X he) t he (pg_bm ?s)" "tframes F (pg_tb ?s) k t - {t} \<subseteq> low_frames he \<union> X he"
    using M ok R(6) unfolding mapped_def in_use_def by auto
  ultimately have "tables_in (X he) F he k t ?s" using R(3) M by (simp add: tables_in_def mapped_def)
  moreover have "leads F (pg_tb ?s) t qs" if "length qs \<le> k \<and> (\<forall>q \<in> set qs. q < 512) \<and> leads F (pg_tb s) t qs" for qs
    using pmaps_leads [OF R(7) _ _ va_path_idx, of qs] ok that by simp
  moreover have "map_one (ptr he) (nxt he) level k root va e s = Some ?s" using R(1,2) by (simp add: map_one_def)
  ultimately show ?thesis using R(4) M by (intro exI [of _ ?s]) simp
qed

lemma missing_step:
  assumes "finite P" "\<And>qs. length qs \<le> k \<Longrightarrow> \<forall>q \<in> set qs. q < 512 \<Longrightarrow> leads F tb t qs \<Longrightarrow> leads F tb' t qs"
    "\<forall>js \<in> insert is P. idx_path k js" "\<And>l. l < length is \<Longrightarrow> leads F tb' t (take l is)"
  shows "need F tb t is + card (tables_missing F tb' t P) \<le> card (tables_missing F tb t (insert is P))"
proof -
  let ?N = "tables_missing F tb t {is}" and ?M = "tables_missing F tb' t P" and ?A = "tables_missing F tb t (insert is P)"
  have "\<not> leads F tb t (take l js)" if "js \<in> P" "l < length js" "\<not> leads F tb' t (take l js)" for l js
  proof -
    have "idx_path k js" using assms(3) that(1) by blast
    then have "length (take l js) \<le> k" "\<forall>q \<in> set (take l js). q < 512"
      using that(2) by (auto simp: idx_path_def dest: in_set_takeD)
    then show ?thesis using assms(2) that(3) by blast
  qed
  then have "?N \<union> ?M \<subseteq> ?A" unfolding tables_missing_def by blast
  moreover have "leads F tb' t qs" if "qs \<in> ?N" for qs using assms(4) that by (auto simp: tables_missing_def)
  moreover have "\<not> leads F tb' t qs" if "qs \<in> ?M" for qs using that by (auto simp: tables_missing_def)
  then have "?N \<inter> ?M = {}" using calculation(2) by blast
  moreover have "finite ?A" using assms(1) by (intro finite_tables_missing) simp
  ultimately have "card (?N \<union> ?M) \<le> card ?A" "card (?N \<union> ?M) = card ?N + card ?M"
    by (auto intro!: card_mono card_Un_disjoint intro: finite_subset)
  then show ?thesis by (simp add: need_missing)
qed

lemma map_range_correct:
  assumes "he_ok he" "ptr he root = Some t" "level + k \<le> 3"
  shows "\<forall>va \<in> set vas. pf_valid F (ent va) \<Longrightarrow> tables_in (X he) F he k t s \<Longrightarrow>
    room (pg_bm s) (card (tables_missing F (pg_tb s) t ((\<lambda>va. va_path va level k) ` set vas)) + r) \<Longrightarrow>
    \<forall>va \<in> set vas. \<not> blocked F (pg_tb s) t (va_path va level k) \<Longrightarrow> distinct (map (\<lambda>va. va_path va level k) vas) \<Longrightarrow>
    \<exists>s'. map_range (\<lambda>va. map_one (ptr he) (nxt he) level k root va (ent va)) vas s = Some s' \<and> tables_in (X he) F he k t s' \<and>
      room (pg_bm s') r \<and> (\<forall>va \<in> set vas. pwalk F (pg_tb s') t (va_path va level k) = Some (ent va)) \<and>
      (\<forall>js. idx_path k js \<and> js \<notin> (\<lambda>va. va_path va level k) ` set vas \<longrightarrow> pwalk F (pg_tb s') t js = pwalk F (pg_tb s) t js) \<and>
      (\<forall>js. idx_path k js \<and> blocked F (pg_tb s') t js \<longrightarrow> blocked F (pg_tb s) t js)"
proof (induction vas arbitrary: s)
  case Nil
  then show ?case by (auto elim: room_mono)
next
  case (Cons va vas)
  let ?P = "(\<lambda>va. va_path va level k) ` set vas" and ?is = "va_path va level k"
  let ?d = "card (tables_missing F (pg_tb s) t (insert ?is ?P)) - need F (pg_tb s) t ?is + r"
  have "need F (pg_tb s) t ?is \<le> card (tables_missing F (pg_tb s) t (insert ?is ?P))"
    unfolding need_missing by (intro card_mono finite_tables_missing) (auto simp: tables_missing_def)
  then have room: "room (pg_bm s) (need F (pg_tb s) t ?is + ?d)" using Cons.prems(3) by simp
  have nb: "\<not> blocked F (pg_tb s) t ?is" using Cons.prems(4) by simp
  from map_one_correct [OF assms(1,2) Cons.prems(2) assms(3) room nb] obtain s1 where s1:
    "map_one (ptr he) (nxt he) level k root va (ent va) s = Some s1" "tables_in (X he) F he k t s1" "room (pg_bm s1) ?d"
    "\<forall>qs. length qs \<le> k \<and> (\<forall>q \<in> set qs. q < 512) \<and> leads F (pg_tb s) t qs \<longrightarrow> leads F (pg_tb s1) t qs"
    "mapped F k (in_use (X he) t he (pg_bm s)) (pg_tb s) t ?is (ent va) (pg_tb s1) (in_use (X he) t he (pg_bm s1))" by blast
  have w: "pwalk F (pg_tb s1) t js = (if js = ?is then Some (ent va) else pwalk F (pg_tb s) t js)"
    and b: "blocked F (pg_tb s1) t js \<Longrightarrow> blocked F (pg_tb s) t js" if "idx_path k js" for js
    using s1(5) Cons.prems(1) that by (auto simp: mapped_def)
  have lead: "leads F (pg_tb s1) t (take l ?is)" if "l < length ?is" for l
    using pwalk_leads [of F "pg_tb s1" t ?is "ent va" l] w [OF va_path_idx] that by simp
  have "need F (pg_tb s) t ?is + card (tables_missing F (pg_tb s1) t ?P) \<le> card (tables_missing F (pg_tb s) t (insert ?is ?P))"
    using s1(4) va_path_idx lead by (intro missing_step [where k = k]) auto
  then have room1: "room (pg_bm s1) (card (tables_missing F (pg_tb s1) t ?P) + r)" using s1(3) by (elim room_mono) simp
  have "\<forall>va \<in> set vas. \<not> blocked F (pg_tb s1) t (va_path va level k)" using Cons.prems(4) b [OF va_path_idx] by auto
  from Cons.IH [OF _ s1(2) room1 this] Cons.prems(1,5) obtain s' where s':
    "map_range (\<lambda>va. map_one (ptr he) (nxt he) level k root va (ent va)) vas s1 = Some s'" "tables_in (X he) F he k t s'"
    "room (pg_bm s') r" "\<forall>va \<in> set vas. pwalk F (pg_tb s') t (va_path va level k) = Some (ent va)"
    "\<forall>js. idx_path k js \<and> js \<notin> ?P \<longrightarrow> pwalk F (pg_tb s') t js = pwalk F (pg_tb s1) t js"
    "\<forall>js. idx_path k js \<and> blocked F (pg_tb s') t js \<longrightarrow> blocked F (pg_tb s1) t js" by auto
  have "pwalk F (pg_tb s') t ?is = Some (ent va)" using s'(5) w va_path_idx Cons.prems(5) by auto
  then show ?case using s1(1) s' w b by auto
qed

text \<open>The same for the pages of a range.\<close>

lemma map_pages_correct:
  assumes "he_ok he" "ptr he root = Some t" "lv + k = 3" "tables_in (X he) F he k t s" "n \<le> 2 ^ (9 * (4 - lv))"
    "unat (drop_bit 12 v) + n \<le> 2 ^ 52" "room (pg_bm s) (tables_needed k n + r)"
    "\<forall>i < n. \<not> blocked F (pg_tb s) t (va_path (v + of_nat (i * 4096)) lv k)"
    "\<forall>i < n. pf_valid F (ent (v + of_nat (i * 4096)))"
  shows "\<exists>s'. map_range (\<lambda>va. map_one (ptr he) (nxt he) lv k root va (ent va)) (page_list v n) s = Some s' \<and> tables_in (X he) F he k t s' \<and>
    room (pg_bm s') r \<and> (\<forall>i < n. pwalk F (pg_tb s') t (va_path (v + of_nat (i * 4096)) lv k) = Some (ent (v + of_nat (i * 4096))) \<and>
      \<not> blocked F (pg_tb s') t (va_path (v + of_nat (i * 4096)) lv k)) \<and>
    (\<forall>js. idx_path k js \<and> (\<forall>i < n. js \<noteq> va_path (v + of_nat (i * 4096)) lv k) \<longrightarrow>
       pwalk F (pg_tb s') t js = pwalk F (pg_tb s) t js) \<and>
    (\<forall>js. idx_path k js \<and> blocked F (pg_tb s') t js \<longrightarrow> blocked F (pg_tb s) t js)"
proof -
  have mem: "x \<in> set (page_list v n) \<longleftrightarrow> (\<exists>i < n. x = v + of_nat (i * 4096))" for x
    by (auto simp: page_list_def simp del: of_nat_mult)
  have len: "room (pg_bm s) (card (tables_missing F (pg_tb s) t ((\<lambda>va. va_path va lv k) ` set (page_list v n))) + r)"
    using assms(7) tables_missing_bound [OF assms(3,6), of F "pg_tb s" t] by (elim room_mono) simp
  have k: "k = 3 - lv" "lv \<le> 3" "lv + k \<le> 3" using assms(3) by simp_all
  have dist: "distinct (map (\<lambda>va. va_path va lv k) (page_list v n))" unfolding k(1) by (rule page_list_distinct [OF assms(5) k(2)])
  have nb: "\<forall>va \<in> set (page_list v n). \<not> blocked F (pg_tb s) t (va_path va lv k)" using assms(8) by (auto simp: mem simp del: of_nat_mult)
  have val: "\<forall>va \<in> set (page_list v n). pf_valid F (ent va)" using assms(9) by (auto simp: mem simp del: of_nat_mult)
  obtain s' where s': "map_range (\<lambda>va. map_one (ptr he) (nxt he) lv k root va (ent va)) (page_list v n) s = Some s'"
    "tables_in (X he) F he k t s'" "\<forall>va \<in> set (page_list v n). pwalk F (pg_tb s') t (va_path va lv k) = Some (ent va)"
    "\<forall>js. idx_path k js \<and> js \<notin> (\<lambda>va. va_path va lv k) ` set (page_list v n) \<longrightarrow> pwalk F (pg_tb s') t js = pwalk F (pg_tb s) t js"
    "\<forall>js. idx_path k js \<and> blocked F (pg_tb s') t js \<longrightarrow> blocked F (pg_tb s) t js" "room (pg_bm s') r"
    using map_range_correct [OF assms(1,2) k(3) val assms(4) len nb dist] by blast
  have i: "v + of_nat (i * 4096) \<in> set (page_list v n)" if "i < n" for i using that by (auto simp: mem simp del: of_nat_mult)
  have out: "js \<notin> (\<lambda>va. va_path va lv k) ` set (page_list v n)" if "\<forall>i < n. js \<noteq> va_path (v + of_nat (i * 4096)) lv k" for js
    using that by (auto simp: mem simp del: of_nat_mult)
  have "pwalk F (pg_tb s') t (va_path (v + of_nat (i * 4096)) lv k) = Some (ent (v + of_nat (i * 4096))) \<and>
      \<not> blocked F (pg_tb s') t (va_path (v + of_nat (i * 4096)) lv k)" if "i < n" for i
    using bspec [OF s'(3) i [OF that]] bspec [OF nb i [OF that]] s'(5) va_path_idx by blast
  moreover have "pwalk F (pg_tb s') t js = pwalk F (pg_tb s) t js"
    if "idx_path k js \<and> (\<forall>i < n. js \<noteq> va_path (v + of_nat (i * 4096)) lv k)" for js
    using s'(4) that out by blast
  ultimately show ?thesis using s'(1,2,5,6) by (intro exI [of _ s'] conjI allI impI) blast+
qed

end

section \<open>Unmapping\<close>

text \<open>
  The unmap operations recurse to the last level, clear the entry there, and on the way back release
  every table in which no entry is valid any more. \<open>ok\<close> is the code's test that an entry can be
  followed, \<open>nextp\<close> the pointer it leads to, \<open>dead\<close> the test of the scan and \<open>rel\<close> the release of the
  table an entry leads to.
\<close>

primrec unmap_one :: "(u64 \<Rightarrow> u64 option) \<Rightarrow> (u64 \<Rightarrow> bool) \<Rightarrow> (u64 \<Rightarrow> u64) \<Rightarrow> (u64 \<Rightarrow> bool) \<Rightarrow>
    (bitmap \<Rightarrow> u64 \<Rightarrow> bitmap option) \<Rightarrow> u64 \<Rightarrow> nat \<Rightarrow> nat \<Rightarrow> u64 \<Rightarrow> pgt \<Rightarrow> pgt option" where
  "unmap_one ptr ok nextp dead rel va 0 level p s = do {
     f \<leftarrow> ptr p;
     (if ok (pg_tb s f (va_index va level)) then Some (s\<lparr>pg_tb := put f (va_index va level) 0 (pg_tb s)\<rparr>) else None) }"
| "unmap_one ptr ok nextp dead rel va (Suc k) level p s = do {
     f \<leftarrow> ptr p;
     let e = pg_tb s f (va_index va level);
     (if ok e
      then do {
        s1 \<leftarrow> unmap_one ptr ok nextp dead rel va k (Suc level) (nextp e) s;
        g \<leftarrow> ptr (nextp e);
        (if list_all (\<lambda>i. dead (pg_tb s1 g i)) [0..<512]
         then do {
           bm' \<leftarrow> rel (pg_bm s1) e;
           Some (s1\<lparr>pg_bm := bm', pg_tb := put f (va_index va level) 0 (pg_tb s1)\<rparr>) }
         else Some s1) }
      else None) }"

lemma free_table:
  assumes "pages_ok bm" "j < 2 ^ 18" "he_ok he"
  obtains bm' where "free_one_page bm (int j) = Some bm'" "pages_ok bm'" "frames_of he bm' = frames_of he bm - {pool_frame he j}"
proof -
  have "j + 1 \<le> TOTAL_PAGES" using assms(2) by (simp add: TOTAL_PAGES_def)
  from pages.free_ok [OF assms(1) this] obtain bm' where b: "page_free_op bm j 1 = Some bm'" "pages_ok bm'"
    "pages_owned bm' = pages_owned bm - {j..<j + 1}" by blast
  have "frames_of he bm' = pool_frame he ` (pages_owned bm - {j})"
    using b(3) by (simp add: frames_of_def pages_owned_def [symmetric] atLeastLessThan_singleton [of j, simplified])
  also have "\<dots> = frames_of he bm - {pool_frame he j}"
    using pool_frame_inj [OF assms(3)] assms(2) by (auto simp: frames_of_def pages_owned_def TOTAL_PAGES_def)
  finally show thesis using that b(1,2) by (simp add: page_free_op_def free_one_page_def)
qed

locale table_unmapper = radix_format F for F :: pt_format +
  fixes ptr :: "u64 \<Rightarrow> u64 \<Rightarrow> u64 option" and ok :: "u64 \<Rightarrow> bool" and nextp :: "u64 \<Rightarrow> u64 \<Rightarrow> u64"
    and dead :: "u64 \<Rightarrow> bool" and rel :: "u64 \<Rightarrow> bitmap \<Rightarrow> u64 \<Rightarrow> bitmap option"
  assumes ptr_next: "he_ok he \<Longrightarrow> pf_next F e \<in> low_frames he \<Longrightarrow> ptr he (nextp he e) = Some (pf_next F e)"
    and ok_tab: "he_ok he \<Longrightarrow> is_tab F e \<Longrightarrow> pf_next F e \<in> low_frames he \<Longrightarrow> ok e"
    and rel_next: "he_ok he \<Longrightarrow> j < 2 ^ 18 \<Longrightarrow> pf_next F e = pool_frame he j \<Longrightarrow> rel he bm e = free_one_page bm (int j)"
    and dead_invalid: "dead e \<Longrightarrow> \<not> pf_valid F e"
begin

lemma unmap_one_punmaps:
  "he_ok he \<Longrightarrow> ptr he p = Some f \<Longrightarrow> pages_ok (pg_bm s) \<Longrightarrow> twf F (pg_tb s) k f \<Longrightarrow>
   tframes F (pg_tb s) k f - {f} \<subseteq> low_frames he \<Longrightarrow> f = t \<or> t \<notin> tframes F (pg_tb s) k f \<Longrightarrow>
   pwalk F (pg_tb s) f (va_path va level k) = Some e0 \<Longrightarrow> ok e0 \<Longrightarrow>
   \<exists>s'. unmap_one (ptr he) ok (nextp he) dead (rel he) va k level p s = Some s' \<and> pages_ok (pg_bm s') \<and>
     (t \<in> frames_of he (pg_bm s) \<longrightarrow> t \<in> frames_of he (pg_bm s')) \<and>
     punmaps F (in_use {} t he (pg_bm s)) (pg_tb s) f (va_path va level k) (pg_tb s') (in_use {} t he (pg_bm s'))"
proof (induction k arbitrary: level p f)
  case 0
  then show ?case by (auto simp: va_path_simps intro: punmaps.last split: if_splits)
next
  case (Suc k)
  let ?e = "pg_tb s f (va_index va level)" and ?c = "pf_next F (pg_tb s f (va_index va level))"
  obtain j js where path: "va_path va (Suc level) k = j # js" using va_path_Cons by blast
  have tab: "is_tab F ?e" and w: "pwalk F (pg_tb s) ?c (va_path va (Suc level) k) = Some e0"
    using Suc.prems(7) by (auto simp: va_path_simps path split: if_splits)
  have c: "twf F (pg_tb s) k ?c" "f \<notin> tframes F (pg_tb s) k ?c" "tframes F (pg_tb s) k ?c \<subseteq> tframes F (pg_tb s) (Suc k) f"
    using Suc.prems(4) tab va_index_less [of va level] by auto
  have "tframes F (pg_tb s) k ?c \<subseteq> tframes F (pg_tb s) (Suc k) f - {f}" using c(2,3) by blast
  then have lowc: "tframes F (pg_tb s) k ?c \<subseteq> low_frames he" using Suc.prems(5) by (rule subset_trans)
  then have low: "?c \<in> low_frames he" "tframes F (pg_tb s) k ?c - {?c} \<subseteq> low_frames he" using root_in_tframes by blast+
  have tc: "t \<notin> tframes F (pg_tb s) k ?c" using Suc.prems(6) c(2,3) by blast
  note P = ptr_next [OF Suc.prems(1) low(1)]
  obtain s1 where s1: "unmap_one (ptr he) ok (nextp he) dead (rel he) va k (Suc level) (nextp he ?e) s = Some s1"
    "pages_ok (pg_bm s1)"
    "punmaps F (in_use {} t he (pg_bm s)) (pg_tb s) ?c (j # js) (pg_tb s1) (in_use {} t he (pg_bm s1))"
    "t \<in> frames_of he (pg_bm s) \<longrightarrow> t \<in> frames_of he (pg_bm s1)"
    using Suc.IH [OF Suc.prems(1) P Suc.prems(3) c(1) low(2) disjI2 [OF tc] w Suc.prems(8)] by (auto simp: path)
  have ok: "ok ?e" by (rule ok_tab [OF Suc.prems(1) tab low(1)])
  show ?case
  proof (cases "list_all (\<lambda>i. dead (pg_tb s1 ?c i)) [0..<512]")
    case True
    obtain q where q: "q < 2 ^ 18" "?c = pool_frame he q" using low(1) by (auto simp: low_frames_def)
    obtain bm' where b: "free_one_page (pg_bm s1) (int q) = Some bm'" "pages_ok bm'" "frames_of he bm' = frames_of he (pg_bm s1) - {?c}"
      using free_table [OF s1(2) q(1) Suc.prems(1)] q(2) by metis
    have "in_use {} t he bm' = in_use {} t he (pg_bm s1) - {?c}" using b(3) tc root_in_tframes [of ?c F "pg_tb s" k] by (auto simp: in_use_def)
    moreover have "\<And>i. i < 512 \<Longrightarrow> \<not> pf_valid F (pg_tb s1 ?c i)" using True dead_invalid by (auto simp: list_all_iff)
    ultimately have "punmaps F (in_use {} t he (pg_bm s)) (pg_tb s) f (va_path va level (Suc k))
        (put f (va_index va level) 0 (pg_tb s1)) (in_use {} t he bm')"
      using punmaps.release [where F = F and tb = "pg_tb s" and t = f and i = "va_index va level", OF tab s1(3)]
      by (simp add: va_path_simps path)
    moreover have "t \<in> frames_of he (pg_bm s) \<longrightarrow> t \<in> frames_of he bm'"
      using s1(4) b(3) tc root_in_tframes [of ?c F "pg_tb s" k] by auto
    ultimately show ?thesis using Suc.prems(2) ok s1(1) P True rel_next [OF Suc.prems(1) q] b(1,2) by simp
  next
    case False
    have "punmaps F (in_use {} t he (pg_bm s)) (pg_tb s) f (va_path va level (Suc k)) (pg_tb s1) (in_use {} t he (pg_bm s1))"
      using punmaps.keep [where F = F and tb = "pg_tb s" and t = f and i = "va_index va level", OF tab s1(3)]
      by (simp add: va_path_simps path)
    then show ?thesis using Suc.prems(2) ok s1(1,2,4) P False by simp
  qed
qed

lemma unmap_one_correct:
  assumes "he_ok he" "ptr he root = Some t" "tables_ok F he k t s"
    "pwalk F (pg_tb s) t (va_path va level k) = Some e0" "ok e0"
  shows "\<exists>s'. unmap_one (ptr he) ok (nextp he) dead (rel he) va k level root s = Some s' \<and> tables_ok F he k t s' \<and>
    unmapped F k (in_use {} t he (pg_bm s)) (pg_tb s) t (va_path va level k) (pg_tb s') (in_use {} t he (pg_bm s'))"
proof -
  note ok = assms(3) [unfolded tables_in_def]
  obtain s' where s': "unmap_one (ptr he) ok (nextp he) dead (rel he) va k level root s = Some s'" "pages_ok (pg_bm s')"
    "punmaps F (in_use {} t he (pg_bm s)) (pg_tb s) t (va_path va level k) (pg_tb s') (in_use {} t he (pg_bm s'))"
    "t \<in> frames_of he (pg_bm s) \<longrightarrow> t \<in> frames_of he (pg_bm s')"
    using unmap_one_punmaps [OF assms(1,2) _ _ _ disjI1 [OF refl] assms(4,5)] ok by blast
  have U: "unmapped F k (in_use {} t he (pg_bm s)) (pg_tb s) t (va_path va level k) (pg_tb s') (in_use {} t he (pg_bm s'))"
    using punmaps_correct [OF s'(3) _ _ va_path_idx] ok by blast
  have "tframes F (pg_tb s') k t \<subseteq> in_use {} t he (pg_bm s')" "tframes F (pg_tb s') k t - {t} \<subseteq> low_frames he"
    using U ok unfolding unmapped_def by blast+
  moreover have "root_ok t he (pg_bm s')" using ok s'(4) by (auto simp: root_ok_def)
  ultimately have "tables_ok F he k t s'" using s'(2) U by (simp add: tables_in_def unmapped_def)
  then show ?thesis using s'(1) U by blast
qed

lemma unmap_range_correct:
  assumes "he_ok he" "ptr he root = Some t"
  shows "tables_ok F he k t s \<Longrightarrow> \<forall>va \<in> set vas. \<exists>e. pwalk F (pg_tb s) t (va_path va level k) = Some e \<and> ok e \<Longrightarrow>
    distinct (map (\<lambda>va. va_path va level k) vas) \<Longrightarrow>
    \<exists>s'. map_range (\<lambda>va. unmap_one (ptr he) ok (nextp he) dead (rel he) va k level root) vas s = Some s' \<and> tables_ok F he k t s' \<and>
      in_use {} t he (pg_bm s') \<subseteq> in_use {} t he (pg_bm s) \<and>
      (\<forall>js. idx_path k js \<longrightarrow>
         pwalk F (pg_tb s') t js = (if js \<in> (\<lambda>va. va_path va level k) ` set vas then None else pwalk F (pg_tb s) t js))"
proof (induction vas arbitrary: s)
  case (Cons va vas)
  obtain e0 where e0: "pwalk F (pg_tb s) t (va_path va level k) = Some e0" "ok e0" using Cons.prems(2) by auto
  obtain s1 where s1: "unmap_one (ptr he) ok (nextp he) dead (rel he) va k level root s = Some s1" "tables_ok F he k t s1"
    "unmapped F k (in_use {} t he (pg_bm s)) (pg_tb s) t (va_path va level k) (pg_tb s1) (in_use {} t he (pg_bm s1))"
    using unmap_one_correct [OF assms Cons.prems(1) e0] by blast
  have w: "pwalk F (pg_tb s1) t js = (if js = va_path va level k then None else pwalk F (pg_tb s) t js)" if "idx_path k js" for js
    using s1(3) that by (simp add: unmapped_def)
  have "\<forall>x \<in> set vas. \<exists>e. pwalk F (pg_tb s1) t (va_path x level k) = Some e \<and> ok e"
    using Cons.prems(2,3) w [OF va_path_idx] by (auto simp: rev_image_eqI)
  from Cons.IH [OF s1(2) this] Cons.prems(3) obtain s' where s':
    "map_range (\<lambda>va. unmap_one (ptr he) ok (nextp he) dead (rel he) va k level root) vas s1 = Some s'" "tables_ok F he k t s'"
    "in_use {} t he (pg_bm s') \<subseteq> in_use {} t he (pg_bm s1)"
    "\<forall>js. idx_path k js \<longrightarrow> pwalk F (pg_tb s') t js = (if js \<in> (\<lambda>va. va_path va level k) ` set vas then None else pwalk F (pg_tb s1) t js)"
    by auto
  have "in_use {} t he (pg_bm s') \<subseteq> in_use {} t he (pg_bm s)" using s'(3) s1(3) by (auto simp: unmapped_def)
  moreover have "map_range (\<lambda>va. unmap_one (ptr he) ok (nextp he) dead (rel he) va k level root) (va # vas) s = Some s'"
    using s1(1) s'(1) by simp
  ultimately show ?case using s'(2,4) w by (intro exI [of _ s']) simp
qed simp

end

end
