(* ===== verification/Riscv_Mmu.thy ===== *)
theory Riscv_Mmu
  imports Table_Walk
begin

text \<open>
  The page tables of the RISC-V port (\<^verbatim>\<open>arch/riscv64/mmu.c\<close> and the set-up in \<^verbatim>\<open>arch/riscv64/mm.c\<close>),
  host tables and second-stage tables of guests alike.

  The state is the page allocator's bitmap and the memory that holds the tables, by page frame and
  index. A table pointer of the code is an address: without translation (\<open>without_mmu\<close>) it is physical,
  otherwise it is translated by the host's own tables, which \<open>init_mm\<close> sets up with an identity mapping
  of the image and a direct map of 1 GB (\<open>hyp_frame\<close>); an access outside both faults (\<open>None\<close>).
  \<open>hyper_fatal\<close> does not return and is \<open>None\<close> as well. \<open>he\<close> is the address of \<^verbatim>\<open>_hyper_end\<close>.
\<close>

section \<open>Model\<close>

subsection \<open>Entries\<close>

definition pte_offset :: "u64 \<Rightarrow> nat \<Rightarrow> nat" where
  "pte_offset addr level = unat (drop_bit (12 + 9 * (3 - level)) addr AND (512 - 1))"

definition walk_valid :: "u64 \<Rightarrow> bool" where
  "walk_valid e \<longleftrightarrow> bit e 0"

definition is_leaf :: "u64 \<Rightarrow> bool" where
  "is_leaf e \<longleftrightarrow> bit e 1 \<or> bit e 2 \<or> bit e 3"

definition walk_base :: "u64 \<Rightarrow> u64" where
  "walk_base e = take_bit 44 (drop_bit 10 e)"

definition make_pg_entry :: "u64 \<Rightarrow> u64" where
  "make_pg_entry phy_addr = push_bit 10 (take_bit 44 (drop_bit 12 phy_addr)) OR 1"

abbreviation (input) "PAGE_ATTR_READ \<equiv> 2 :: u32"
abbreviation (input) "PAGE_ATTR_WRITE \<equiv> 4 :: u32"
abbreviation (input) "PAGE_ATTR_EXEC \<equiv> 8 :: u32"
abbreviation (input) "PAGE_ATTR_USER \<equiv> 16 :: u32"

text \<open>The entry that \<open>write_pte\<close> stores: bits 1 to 7 are read, write, execute, user, global, accessed, dirty.\<close>

definition write_pte :: "u64 \<Rightarrow> u32 \<Rightarrow> u64" where
  "write_pte addr attr =
     make_pg_entry addr
       OR (if attr AND PAGE_ATTR_READ \<noteq> 0 then push_bit 1 1 else 0)
       OR (if attr AND PAGE_ATTR_WRITE \<noteq> 0 then push_bit 2 1 OR push_bit 1 1 else 0)
       OR (if attr AND PAGE_ATTR_EXEC \<noteq> 0 then push_bit 3 1 else 0)
       OR (if attr AND PAGE_ATTR_USER \<noteq> 0 then push_bit 4 1 else 0)
       OR push_bit 6 1 OR push_bit 7 1"

subsection \<open>Access to tables\<close>

definition hyp_frame :: "u64 \<Rightarrow> u64 \<Rightarrow> u64 option" where
  "hyp_frame he va = dm_frame 0x80000000 0x82000000 he va"

definition tbl_frame :: "u64 \<Rightarrow> bool \<Rightarrow> u64 \<Rightarrow> u64 option" where
  "tbl_frame he without_mmu p = (if without_mmu then Some (drop_bit 12 p) else hyp_frame he p)"

definition alloc_pg_page :: "bitmap \<Rightarrow> (int \<times> bitmap) option" where
  "alloc_pg_page bm = alloc_pages bm 0"

subsection \<open>Mapping\<close>

text \<open>
  A missing table is allocated, cleared and linked. The result is the status, the pointer to the next
  table and the new state.
\<close>

definition link_table :: "u64 \<Rightarrow> bool \<Rightarrow> u64 \<Rightarrow> nat \<Rightarrow> pgt \<Rightarrow> (int \<times> pgt) option" where
  "link_table he without_mmu f off s = do {
     (fn, bm') \<leftarrow> alloc_pg_page (pg_bm s);
     (if fn < 0 then Some (- 1, s\<lparr>pg_bm := bm'\<rparr>)
      else do {
        g \<leftarrow> tbl_frame he without_mmu (if without_mmu then PAGE_PHY he fn else PAGE_VIR fn);
        Some (0, s\<lparr>pg_bm := bm', pg_tb := put f off (make_pg_entry (PAGE_PHY he fn)) (clear_table g (pg_tb s))\<rparr>) }) }"

definition pg_next_level :: "u64 \<Rightarrow> bool \<Rightarrow> u64 \<Rightarrow> nat \<Rightarrow> nat \<Rightarrow> pgt \<Rightarrow> (int \<times> u64 \<times> pgt) option" where
  "pg_next_level he without_mmu vtable level off s = do {
     f \<leftarrow> tbl_frame he without_mmu vtable;
     (r, s1) \<leftarrow> (if walk_valid (pg_tb s f off) \<or> level = 3 then Some (0, s) else link_table he without_mmu f off s);
     (if r \<noteq> 0 then Some (- 1, vtable, s1)
      else let entry = pg_tb s1 f off in
        if is_leaf entry then Some (0, vtable, s1)
        else Some (0, if without_mmu then push_bit 12 (walk_base entry) else phy_to_vir he (push_bit 12 (walk_base entry)), s1)) }"

primrec pg_levels :: "u64 \<Rightarrow> bool \<Rightarrow> u64 \<Rightarrow> nat \<Rightarrow> nat \<Rightarrow> u64 \<Rightarrow> pgt \<Rightarrow> (int \<times> u64 \<times> pgt) option" where
  "pg_levels he nm vaddr 0 level table s = Some (0, table, s)"
| "pg_levels he nm vaddr (Suc k) level table s = do {
     (r, table', s') \<leftarrow> pg_next_level he nm table level (pte_offset vaddr level) s;
     (if r \<noteq> 0 then Some (- 1, table', s') else pg_levels he nm vaddr k (Suc level) table' s') }"

definition pg_map_level :: "u64 \<Rightarrow> bool \<Rightarrow> u64 \<Rightarrow> nat \<Rightarrow> nat \<Rightarrow> u64 \<Rightarrow> u64 \<Rightarrow> u32 \<Rightarrow> pgt \<Rightarrow> (int \<times> pgt) option" where
  "pg_map_level he nm root start_level end_level vaddr paddr attr s = do {
     (r, table, s') \<leftarrow> pg_levels he nm vaddr (end_level - start_level) start_level root s;
     (if r \<noteq> 0 then Some (- 1, s')
      else do {
        f \<leftarrow> tbl_frame he nm table;
        Some (0, s'\<lparr>pg_tb := put f (pte_offset vaddr (max start_level end_level)) (write_pte paddr attr) (pg_tb s')\<rparr>) }) }"

definition pg_map_4k :: "u64 \<Rightarrow> bool \<Rightarrow> u64 \<Rightarrow> nat \<Rightarrow> u64 \<Rightarrow> u64 \<Rightarrow> u32 \<Rightarrow> pgt \<Rightarrow> (int \<times> pgt) option" where
  "pg_map_4k he nm root start_level vaddr paddr attr s = pg_map_level he nm root start_level 3 vaddr paddr attr s"

definition pg_map_2MB :: "u64 \<Rightarrow> bool \<Rightarrow> u64 \<Rightarrow> nat \<Rightarrow> u64 \<Rightarrow> u64 \<Rightarrow> u32 \<Rightarrow> pgt \<Rightarrow> (int \<times> pgt) option" where
  "pg_map_2MB he nm root start_level vaddr paddr attr s = pg_map_level he nm root start_level 2 vaddr paddr attr s"

definition pg_map_1GB :: "u64 \<Rightarrow> bool \<Rightarrow> u64 \<Rightarrow> nat \<Rightarrow> u64 \<Rightarrow> u64 \<Rightarrow> u32 \<Rightarrow> pgt \<Rightarrow> (int \<times> pgt) option" where
  "pg_map_1GB he nm root start_level vaddr paddr attr s = pg_map_level he nm root start_level 1 vaddr paddr attr s"

definition pages_of :: "u64 \<Rightarrow> u64 \<Rightarrow> nat" where
  "pages_of sz unit = unat (((sz + unit - 1) AND NOT (unit - 1)) div unit)"

text \<open>The loops over a range ignore the status of the single mappings.\<close>

primrec pg_map_loop :: "u64 \<Rightarrow> bool \<Rightarrow> u64 \<Rightarrow> nat \<Rightarrow> nat \<Rightarrow> u64 \<Rightarrow> u32 \<Rightarrow> nat \<Rightarrow> u64 \<Rightarrow> u64 \<Rightarrow> pgt \<Rightarrow> pgt option" where
  "pg_map_loop he nm root start_level end_level unit attr 0 vaddr paddr s = Some s"
| "pg_map_loop he nm root start_level end_level unit attr (Suc n) vaddr paddr s = do {
     (r, s') \<leftarrow> pg_map_level he nm root start_level end_level vaddr paddr attr s;
     pg_map_loop he nm root start_level end_level unit attr n (vaddr + unit) (paddr + unit) s' }"

definition pg_map :: "u64 \<Rightarrow> bool \<Rightarrow> u64 \<Rightarrow> nat \<Rightarrow> u64 \<Rightarrow> u64 \<Rightarrow> u64 \<Rightarrow> u32 \<Rightarrow> pgt \<Rightarrow> pgt option" where
  "pg_map he nm root start_level vaddr paddr map_size attr s =
     pg_map_loop he nm root start_level 3 4096 attr (pages_of map_size 4096) vaddr paddr s"

abbreviation (input) "MB_2 \<equiv> 0x200000 :: u64"

definition pg_map_huge :: "u64 \<Rightarrow> bool \<Rightarrow> u64 \<Rightarrow> nat \<Rightarrow> u64 \<Rightarrow> u64 \<Rightarrow> u64 \<Rightarrow> u32 \<Rightarrow> pgt \<Rightarrow> pgt option" where
  "pg_map_huge he nm root start_level vaddr paddr map_size attr s =
     pg_map_loop he nm root start_level 2 MB_2 attr (pages_of map_size MB_2)
       (vaddr AND NOT (MB_2 - 1)) (paddr AND NOT (MB_2 - 1)) s"

definition host_map_one_page :: "u64 \<Rightarrow> u64 \<Rightarrow> u64 \<Rightarrow> u64 \<Rightarrow> u32 \<Rightarrow> pgt \<Rightarrow> pgt option" where
  "host_map_one_page he page_table_root vir phy attr s = pg_map he False page_table_root 0 vir phy 4096 attr s"

definition pg_map_stage2 :: "u64 \<Rightarrow> bool \<Rightarrow> u64 \<Rightarrow> u64 \<Rightarrow> u64 \<Rightarrow> u64 \<Rightarrow> u32 \<Rightarrow> pgt \<Rightarrow> pgt option" where
  "pg_map_stage2 he nm page_stage2_table_root vaddr paddr map_size attr s =
     pg_map he nm page_stage2_table_root 0 vaddr paddr map_size attr s"

text \<open>\<open>stage2_map\<close> passes the attribute as the size and the size as the attribute.\<close>

definition stage2_map :: "u64 \<Rightarrow> u64 \<Rightarrow> u64 \<Rightarrow> u64 \<Rightarrow> u64 \<Rightarrow> u32 \<Rightarrow> pgt \<Rightarrow> pgt option" where
  "stage2_map he root_table vaddr paddr map_size attr s =
     pg_map he False root_table 0 vaddr paddr (ucast attr) (ucast map_size) s"

subsection \<open>Unmapping\<close>

definition all_invalid :: "ptmem \<Rightarrow> u64 \<Rightarrow> bool" where
  "all_invalid tb f \<longleftrightarrow> list_all (\<lambda>i. \<not> walk_valid (tb f i)) [0..<512]"

function pg_unmap_4k :: "u64 \<Rightarrow> u64 \<Rightarrow> nat \<Rightarrow> u64 \<Rightarrow> pgt \<Rightarrow> pgt option" where
  "pg_unmap_4k he pre_tbl level vir_addr s =
     (if pre_tbl = 0 \<or> 3 < level then Some s
      else do {
        f \<leftarrow> hyp_frame he pre_tbl;
        let off = pte_offset vir_addr level;
        let entry = pg_tb s f off;
        (if \<not> walk_valid entry \<or> walk_base entry = 0 then None
         else if level = 3 then Some (s\<lparr>pg_tb := put f off 0 (pg_tb s)\<rparr>)
         else do {
           let next_tbl_phy = push_bit 12 (walk_base entry);
           let next_tbl_vir = phy_to_vir he next_tbl_phy;
           s1 \<leftarrow> pg_unmap_4k he next_tbl_vir (Suc level) vir_addr s;
           g \<leftarrow> hyp_frame he next_tbl_vir;
           (if all_invalid (pg_tb s1) g
            then do {
              bm' \<leftarrow> free_one_page (pg_bm s1) (PHY_TO_FN he next_tbl_phy);
              Some (s1\<lparr>pg_bm := bm', pg_tb := put f off 0 (pg_tb s1)\<rparr>) }
            else Some s1) }) })"
  by pat_completeness auto
termination
  by (relation "measure (\<lambda>(he, p, level, va, s). 4 - level)") auto

primrec pg_unmap_loop :: "u64 \<Rightarrow> u64 \<Rightarrow> nat \<Rightarrow> nat \<Rightarrow> u64 \<Rightarrow> pgt \<Rightarrow> pgt option" where
  "pg_unmap_loop he root start_level 0 vaddr s = Some s"
| "pg_unmap_loop he root start_level (Suc n) vaddr s = do {
     s' \<leftarrow> pg_unmap_4k he root start_level vaddr s;
     pg_unmap_loop he root start_level n (vaddr + 4096) s' }"

definition pg_unmap :: "u64 \<Rightarrow> u64 \<Rightarrow> nat \<Rightarrow> u64 \<Rightarrow> u64 \<Rightarrow> pgt \<Rightarrow> pgt option" where
  "pg_unmap he root start_level vaddr map_size s = pg_unmap_loop he root start_level (pages_of map_size 4096) vaddr s"

definition host_unmap_one_page :: "u64 \<Rightarrow> u64 \<Rightarrow> u64 \<Rightarrow> pgt \<Rightarrow> pgt option" where
  "host_unmap_one_page he page_table_root vir s = pg_unmap_4k he page_table_root 0 vir s"

definition stage2_unmap :: "u64 \<Rightarrow> u64 \<Rightarrow> u64 \<Rightarrow> u64 \<Rightarrow> pgt \<Rightarrow> pgt option" where
  "stage2_unmap he root_table vaddr map_size s = pg_unmap he root_table 0 vaddr map_size s"

subsection \<open>Walking\<close>

function ptw_walk :: "u64 \<Rightarrow> ptmem \<Rightarrow> u64 \<Rightarrow> u64 \<Rightarrow> nat \<Rightarrow> u64 option" where
  "ptw_walk he tb cur_tbl addr level =
     (if cur_tbl = 0 \<or> 3 < level then Some 0
      else do {
        f \<leftarrow> hyp_frame he cur_tbl;
        let next_pte = tb f (pte_offset addr level);
        let next_tbl_phy = push_bit 12 (walk_base next_pte);
        (if \<not> walk_valid next_pte then Some 0
         else if level = 3 then Some next_tbl_phy
         else ptw_walk he tb (phy_to_vir he next_tbl_phy) addr (Suc level)) })"
  by pat_completeness auto
termination
  by (relation "measure (\<lambda>(he, tb, p, addr, level). 4 - level)") auto

subsection \<open>Set-up\<close>

definition host_satp_value :: "u64 \<Rightarrow> u64" where
  "host_satp_value page_table_root = drop_bit 12 page_table_root OR push_bit 60 9"

definition guest_hgatp_value :: "u64 \<Rightarrow> u64" where
  "guest_hgatp_value page_stage2_table_root = drop_bit 12 page_stage2_table_root OR push_bit 60 9"

definition init_direct_mapping :: "u64 \<Rightarrow> bool \<Rightarrow> u64 \<Rightarrow> nat \<Rightarrow> u32 \<Rightarrow> pgt \<Rightarrow> pgt option" where
  "init_direct_mapping he nm root start_level attr s =
     pg_map_huge he nm root start_level PAGE_VIRT_OFFSET (PAGE_PHYS_OFFSET he) (push_bit 30 1) attr s"

definition init_guest_memory :: "u64 \<Rightarrow> u64 \<Rightarrow> u64 \<Rightarrow> u64 \<Rightarrow> pgt \<Rightarrow> (u64 \<times> pgt) option" where
  "init_guest_memory he root ram_base ram_size s = do {
     s' \<leftarrow> pg_map he False root 0 ram_base ram_base ram_size
       (PAGE_ATTR_EXEC OR PAGE_ATTR_READ OR PAGE_ATTR_WRITE OR PAGE_ATTR_USER) s;
     Some (guest_hgatp_value root, s') }"

definition host_tables :: "u64 \<Rightarrow> u64 \<Rightarrow> pgt \<Rightarrow> pgt option" where
  "host_tables he root s = do {
     bm \<leftarrow> init_page_allocator (pg_bm s);
     s1 \<leftarrow> pg_map he True root 0 0x80000000 0x80000000 0x2000000
       (PAGE_ATTR_READ OR PAGE_ATTR_EXEC OR PAGE_ATTR_WRITE) (s\<lparr>pg_bm := bm\<rparr>);
     s2 \<leftarrow> pg_map he True root 0 0x10000000 0x10000000 0x1000 (PAGE_ATTR_READ OR PAGE_ATTR_WRITE) s1;
     s3 \<leftarrow> pg_map he True root 0 0x0C000000 0x0C000000 0x400000 (PAGE_ATTR_READ OR PAGE_ATTR_WRITE) s2;
     init_direct_mapping he True root 0 (PAGE_ATTR_EXEC OR PAGE_ATTR_READ OR PAGE_ATTR_WRITE) s3 }"

section \<open>Entries and paths\<close>

definition rv_fmt :: pt_format where
  "rv_fmt = \<lparr>pf_valid = walk_valid, pf_table = (\<lambda>e. \<not> is_leaf e), pf_next = walk_base\<rparr>"

lemma rv_fmt_simps [simp]:
  "pf_valid rv_fmt = walk_valid" "pf_next rv_fmt = walk_base" "pf_table rv_fmt e \<longleftrightarrow> \<not> is_leaf e"
  by (simp_all add: rv_fmt_def)

interpretation rvt: radix_format rv_fmt
  by unfold_locales (simp add: walk_valid_def)

lemma pte_offset_va_index: "pte_offset = va_index"
  by (intro ext) (simp add: pte_offset_def va_index_def)

lemma make_pg_entry_simps [simp]:
  "walk_valid (make_pg_entry pa)" "\<not> is_leaf (make_pg_entry pa)" "walk_base (make_pg_entry pa) = take_bit 44 (drop_bit 12 pa)"
proof -
  have one: "bit (1::u64) n \<longleftrightarrow> n = 0" for n by (simp add: bit_1_iff)
  show "walk_valid (make_pg_entry pa)" "\<not> is_leaf (make_pg_entry pa)"
    by (simp_all add: walk_valid_def is_leaf_def make_pg_entry_def bit_simps one)
  show "walk_base (make_pg_entry pa) = take_bit 44 (drop_bit 12 pa)"
    by (rule bit_word_eqI) (auto simp: walk_base_def make_pg_entry_def bit_simps one)
qed

lemma write_pte_bits:
  "bit (write_pte pa a) n \<longleftrightarrow> bit (make_pg_entry pa) n \<or> n = 1 \<and> (a AND 2 \<noteq> 0 \<or> a AND 4 \<noteq> 0) \<or> n = 2 \<and> a AND 4 \<noteq> 0 \<or>
     n = 3 \<and> a AND 8 \<noteq> 0 \<or> n = 4 \<and> a AND 16 \<noteq> 0 \<or> n = 6 \<or> n = 7"
proof -
  have p: "bit (push_bit m 1 :: u64) n \<longleftrightarrow> n = m" if "m < 64" for m
    using that by (auto simp: bit_simps bit_1_iff)
  have c: "bit (if c then x else 0) n \<longleftrightarrow> c \<and> bit x n" for c and x :: u64 by simp
  have q: "bit (push_bit 1 1 :: u64) n \<longleftrightarrow> n = 1" "bit (push_bit 2 1 :: u64) n \<longleftrightarrow> n = 2" "bit (push_bit 3 1 :: u64) n \<longleftrightarrow> n = 3"
    "bit (push_bit 4 1 :: u64) n \<longleftrightarrow> n = 4" "bit (push_bit 6 1 :: u64) n \<longleftrightarrow> n = 6" "bit (push_bit 7 1 :: u64) n \<longleftrightarrow> n = 7"
    by (rule p, simp)+
  show ?thesis unfolding write_pte_def bit_or_iff c q by blast
qed

lemma write_pte_simps [simp]:
  "walk_valid (write_pte pa a)" "walk_base (write_pte pa a) = take_bit 44 (drop_bit 12 pa)"
proof -
  show "walk_valid (write_pte pa a)" using make_pg_entry_simps(1) [of pa] by (simp add: walk_valid_def write_pte_bits)
  show "walk_base (write_pte pa a) = take_bit 44 (drop_bit 12 pa)"
    unfolding make_pg_entry_simps(3) [symmetric]
    by (rule bit_word_eqI) (auto simp: walk_base_def bit_simps write_pte_bits)
qed

lemma hyp_frame_pool: "he_ok he \<Longrightarrow> j < 2 ^ 18 \<Longrightarrow> hyp_frame he (PAGE_VIR (int j)) = Some (pool_frame he j)"
  unfolding hyp_frame_def by (rule dm_frame_pool) (simp_all add: PAGE_VIRT_OFFSET_def)

lemma pool_frame_44: "he_ok he \<Longrightarrow> j < 2 ^ 18 \<Longrightarrow> take_bit 44 (pool_frame he j) = pool_frame he j"
  using pool_frame_bounds(1) [of he j]
  by (simp add: word_unat_eq_iff unsigned_take_bit_eq take_bit_nat_eq_self)

lemma low_frame_pointer: "he_ok he \<Longrightarrow> f \<in> low_frames he \<Longrightarrow> hyp_frame he (phy_to_vir he (push_bit 12 f)) = Some f"
  by (auto simp: low_frames_def pool_address hyp_frame_pool)

section \<open>Mapping enters a path\<close>

definition rv_next :: "u64 \<Rightarrow> u64 \<Rightarrow> nat \<Rightarrow> nat \<Rightarrow> pgt \<Rightarrow> (u64 \<times> pgt) option" where
  "rv_next he p level i s = (case pg_next_level he False p level i s of Some (r, p', s') \<Rightarrow> if r = 0 then Some (p', s') else None | None \<Rightarrow> None)"

interpretation rvw: table_walker rv_fmt hyp_frame rv_next "\<lambda>_. {}"
proof (unfold_locales, goal_cases)
  case (1 he)
  then show ?case by simp
next
  case (2 he p f level s i)
  then show ?case using low_frame_pointer [OF 2(1), of "walk_base (pg_tb s f i)"]
    by (auto simp: rv_next_def pg_next_level_def tbl_frame_def is_tab_def)
next
  case (3 he p f level s i k t)
  obtain j bm' where j: "alloc_pages_cnt (pg_bm s) 1 = Some (int j, bm')" "j < 2 ^ 18" "pages_ok bm'" "room bm' k"
    "pool_frame he j \<notin> frames_of he (pg_bm s)" "frames_of he bm' = insert (pool_frame he j) (frames_of he (pg_bm s))"
    using alloc_table [OF 3(5,6,1)] by blast
  let ?m = "make_pg_entry (PAGE_PHY he (int j))" and ?g = "pool_frame he j"
  have m: "is_tab rv_fmt ?m" "walk_base ?m = ?g" using j(2) by (simp_all add: is_tab_def pool_address(2) [OF 3(1)] pool_frame_44 [OF 3(1)])
  have "f \<noteq> ?g" using fresh_not_in_use [OF 3(8) _ j(2,5)] 3(7) by blast
  moreover have "link_table he False f i s = Some (0, \<lparr>pg_bm = bm', pg_tb = put f i ?m (clear_table ?g (pg_tb s))\<rparr>)"
    using j(1) hyp_frame_pool [OF 3(1) j(2)] by (simp add: link_table_def alloc_pg_page_def alloc_pages_def shift_count_def tbl_frame_def)
  ultimately have "rv_next he p level i s = Some (phy_to_vir he (push_bit 12 ?g), \<lparr>pg_bm = bm', pg_tb = put f i ?m (clear_table ?g (pg_tb s))\<rparr>)"
    using 3(2-4) m by (simp add: rv_next_def pg_next_level_def tbl_frame_def is_tab_def)
  moreover have "hyp_frame he (phy_to_vir he (push_bit 12 ?g)) = Some ?g"
    using j(2) by (intro low_frame_pointer [OF 3(1)]) (simp add: low_frames_def)
  ultimately show ?case using m j(2-6) by (auto intro!: exI [of _ j] exI [of _ bm'])
qed

lemma pg_levels_descend:
  "descend (rv_next he) va k level p s = Some (p', s') \<Longrightarrow> pg_levels he False va k level p s = Some (0, p', s')"
  by (induction k arbitrary: level p s)
    (auto simp: rv_next_def pte_offset_va_index split: Option.bind_splits option.splits if_splits)

lemma pg_map_level_map_one:
  "map_one (hyp_frame he) (rv_next he) level k root va (write_pte pa attr) s = Some s' \<Longrightarrow>
   pg_map_level he False root level (level + k) va pa attr s = Some (0, s')"
  by (auto simp: map_one_def pg_map_level_def tbl_frame_def pte_offset_va_index max_absorb2
      dest!: pg_levels_descend split: Option.bind_splits)

lemma pg_map_loop_range:
  "map_range (\<lambda>va. map_one (hyp_frame he) (rv_next he) level k root va (write_pte (va - v + p) attr)) (page_list v n) s = Some s' \<Longrightarrow>
   pg_map_loop he False root level (level + k) 4096 attr n v p s = Some s'"
proof (induction n arbitrary: v p s)
  case (Suc n)
  have e: "va - (v + 4096) + (p + 4096) = va - v + p" for va by simp
  from Suc.prems obtain s1 where s1: "map_one (hyp_frame he) (rv_next he) level k root v (write_pte p attr) s = Some s1"
    "map_range (\<lambda>va. map_one (hyp_frame he) (rv_next he) level k root va (write_pte (va - (v + 4096) + (p + 4096)) attr))
       (page_list (v + 4096) n) s1 = Some s'"
    by (auto simp: page_list_Suc e split: Option.bind_splits)
  show ?case using pg_map_level_map_one [OF s1(1)] Suc.IH [OF s1(2)] by simp
qed (simp add: page_list_def)

section \<open>Walking and unmapping\<close>

declare ptw_walk.simps [simp del] pg_unmap_4k.simps [simp del]

lemma hyp_frame_0: "hyp_frame he 0 = None"
  by (simp add: hyp_frame_def dm_frame_def PAGE_VIRT_OFFSET_def)

lemma ptw_walk_pwalk:
  "he_ok he \<Longrightarrow> hyp_frame he p = Some f \<Longrightarrow> level + k = 3 \<Longrightarrow> twf rv_fmt tb k f \<Longrightarrow>
   tframes rv_fmt tb k f - {f} \<subseteq> low_frames he \<Longrightarrow> \<not> blocked rv_fmt tb f (va_path va level k) \<Longrightarrow>
   ptw_walk he tb p va level =
     Some (case pwalk rv_fmt tb f (va_path va level k) of None \<Rightarrow> 0 | Some e \<Rightarrow> push_bit 12 (walk_base e))"
proof (induction k arbitrary: level p f)
  case 0
  then have "p \<noteq> 0" using hyp_frame_0 [of he] by auto
  then show ?case using 0 by (subst ptw_walk.simps) (simp add: va_path_simps pte_offset_va_index Let_def)
next
  case (Suc k)
  let ?e = "tb f (va_index va level)"
  have p: "p \<noteq> 0" using Suc.prems(2) hyp_frame_0 [of he] by auto
  obtain j js where path: "va_path va (Suc level) k = j # js" using va_path_Cons by blast
  show ?case
  proof (cases "walk_valid ?e")
    case True
    have tab: "is_tab rv_fmt ?e" and nb: "\<not> blocked rv_fmt tb (walk_base ?e) (va_path va (Suc level) k)"
      using Suc.prems(6) True by (auto simp: va_path_simps path is_tab_def)
    have c: "twf rv_fmt tb k (walk_base ?e)" "f \<notin> tframes rv_fmt tb k (walk_base ?e)"
      "tframes rv_fmt tb k (walk_base ?e) \<subseteq> tframes rv_fmt tb (Suc k) f"
      using Suc.prems(4) tab va_index_less [of va level] by auto
    then have "tframes rv_fmt tb k (walk_base ?e) \<subseteq> tframes rv_fmt tb (Suc k) f - {f}" by blast
    then have low: "tframes rv_fmt tb k (walk_base ?e) \<subseteq> low_frames he" using Suc.prems(5) by (rule subset_trans)
    have q: "hyp_frame he (phy_to_vir he (push_bit 12 (walk_base ?e))) = Some (walk_base ?e)"
      using low by (intro low_frame_pointer [OF Suc.prems(1)]) auto
    have "tframes rv_fmt tb k (walk_base ?e) - {walk_base ?e} \<subseteq> low_frames he" "Suc level + k = 3" using low Suc.prems(3) by auto
    from Suc.IH [OF Suc.prems(1) q this(2) c(1) this(1) nb] show ?thesis using p Suc.prems(2,3) True tab
      by (subst ptw_walk.simps) (simp add: va_path_simps path pte_offset_va_index Let_def)
  next
    case False
    then show ?thesis using p Suc.prems(2,3)
      by (subst ptw_walk.simps) (simp add: va_path_simps path pte_offset_va_index is_tab_def Let_def)
  qed
qed

definition unmap_ok :: "u64 \<Rightarrow> bool" where
  "unmap_ok e \<longleftrightarrow> walk_valid e \<and> walk_base e \<noteq> 0"

definition rv_nextp :: "u64 \<Rightarrow> u64 \<Rightarrow> u64" where
  "rv_nextp he e = phy_to_vir he (push_bit 12 (walk_base e))"

definition rv_release :: "u64 \<Rightarrow> bitmap \<Rightarrow> u64 \<Rightarrow> bitmap option" where
  "rv_release he bm e = free_one_page bm (PHY_TO_FN he (push_bit 12 (walk_base e)))"

interpretation rvu: table_unmapper rv_fmt hyp_frame unmap_ok rv_nextp "\<lambda>e. \<not> walk_valid e" rv_release
proof (unfold_locales, goal_cases)
  case (2 he e)
  then show ?case using pool_frame_bounds(2) [of he] by (auto simp: unmap_ok_def is_tab_def low_frames_def)
qed (auto simp: rv_nextp_def rv_release_def low_frame_pointer pool_address)

lemma pg_unmap_unmap_one:
  "unmap_one (hyp_frame he) unmap_ok (rv_nextp he) (\<lambda>e. \<not> walk_valid e) (rv_release he) va k level p s = Some s' \<Longrightarrow>
   level + k = 3 \<Longrightarrow> pg_unmap_4k he p level va s = Some s'"
proof (induction k arbitrary: level p s s')
  case 0
  then have "p \<noteq> 0" by (auto simp: hyp_frame_0)
  then show ?case using 0
    by (subst pg_unmap_4k.simps) (auto simp: pte_offset_va_index Let_def unmap_ok_def split: Option.bind_splits if_splits)
next
  case (Suc k)
  then have p: "p \<noteq> 0" "level < 3" "Suc level + k = 3" by (auto simp: hyp_frame_0)
  from Suc.prems(1) obtain f s1 g where f: "hyp_frame he p = Some f" "unmap_ok (pg_tb s f (va_index va level))"
    "unmap_one (hyp_frame he) unmap_ok (rv_nextp he) (\<lambda>e. \<not> walk_valid e) (rv_release he) va k (Suc level)
       (rv_nextp he (pg_tb s f (va_index va level))) s = Some s1"
    "hyp_frame he (rv_nextp he (pg_tb s f (va_index va level))) = Some g"
    by (auto simp: Let_def split: Option.bind_splits if_splits)
  note u = Suc.IH [OF f(3) p(3)]
  show ?case using Suc.prems(1) p f u unfolding unmap_one.simps
    by (subst pg_unmap_4k.simps)
      (auto simp: pte_offset_va_index Let_def unmap_ok_def rv_nextp_def rv_release_def all_invalid_def split: Option.bind_splits if_splits)
qed

lemma pg_map_range:
  assumes "he_ok he" "hyp_frame he root = Some t" "tables_ok rv_fmt he 3 t s" "pages_of map_size 4096 = n" "n \<le> 2 ^ 36"
    "unat (drop_bit 12 v) + n \<le> 2 ^ 52" "room (pg_bm s) (tables_needed 3 n)" "\<forall>i < n. \<not> blocked rv_fmt (pg_tb s) t (va_path (v + of_nat (i * 4096)) 0 3)"
  shows "\<exists>s'. pg_map he False root 0 v p map_size attr s = Some s' \<and> tables_ok rv_fmt he 3 t s' \<and>
    (\<forall>i < n. pwalk rv_fmt (pg_tb s') t (va_path (v + of_nat (i * 4096)) 0 3) = Some (write_pte (p + of_nat (i * 4096)) attr) \<and>
      \<not> blocked rv_fmt (pg_tb s') t (va_path (v + of_nat (i * 4096)) 0 3)) \<and>
    (\<forall>js. idx_path 3 js \<and> (\<forall>i < n. js \<noteq> va_path (v + of_nat (i * 4096)) 0 3) \<longrightarrow>
       pwalk rv_fmt (pg_tb s') t js = pwalk rv_fmt (pg_tb s) t js)"
proof -
  obtain s' where s': "map_range (\<lambda>va. map_one (hyp_frame he) (rv_next he) 0 3 root va (write_pte (va - v + p) attr)) (page_list v n) s = Some s'"
    "tables_ok rv_fmt he 3 t s'"
    "\<forall>i < n. pwalk rv_fmt (pg_tb s') t (va_path (v + of_nat (i * 4096)) 0 3) = Some (write_pte (v + of_nat (i * 4096) - v + p) attr) \<and>
      \<not> blocked rv_fmt (pg_tb s') t (va_path (v + of_nat (i * 4096)) 0 3)"
    "\<forall>js. idx_path 3 js \<and> (\<forall>i < n. js \<noteq> va_path (v + of_nat (i * 4096)) 0 3) \<longrightarrow> pwalk rv_fmt (pg_tb s') t js = pwalk rv_fmt (pg_tb s) t js"
    using rvw.map_pages_correct [where ent = "\<lambda>va. write_pte (va - v + p) attr" and lv = 0 and r = 0, OF assms(1,2) _ assms(3) _ assms(6) _ assms(8)] assms(5,7) by auto
  have "v + of_nat (i * 4096) - v + p = p + of_nat (i * 4096)" for i by (simp add: algebra_simps)
  then show ?thesis using s' pg_map_loop_range [where k = 3 and level = 0, OF s'(1)] by (simp add: pg_map_def assms(4) add.commute [of p] del: of_nat_mult)
qed

section \<open>Properties\<close>

text \<open>
  C25. Mapping a range of guest or host addresses: starting from well-formed tables with enough free pages, and
  with no larger page in the way, the call returns; afterwards the tables are well formed, the walk of the \<open>i\<close>-th
  page of the range finds an entry with the \<open>i\<close>-th physical page and the requested permissions (and the code's own
  walk returns that page's address), and the translation of every other page is unchanged.
\<close>

theorem rv_map_correct:
  assumes "he_ok he" "hyp_frame he root = Some t" "tables_ok rv_fmt he 3 t s" "pages_of map_size 4096 = n" "n \<le> 2 ^ 36"
    "unat (drop_bit 12 v) + n \<le> 2 ^ 52" "room (pg_bm s) (tables_needed 3 n)" "\<forall>i < n. \<not> blocked rv_fmt (pg_tb s) t (va_path (v + of_nat (i * 4096)) 0 3)"
  shows "\<exists>s'. pg_map he False root 0 v p map_size attr s = Some s' \<and> tables_ok rv_fmt he 3 t s' \<and>
    (\<forall>i < n. pwalk rv_fmt (pg_tb s') t (va_path (v + of_nat (i * 4096)) 0 3) = Some (write_pte (p + of_nat (i * 4096)) attr) \<and>
       ptw_walk he (pg_tb s') root (v + of_nat (i * 4096)) 0 = Some (push_bit 12 (take_bit 44 (drop_bit 12 (p + of_nat (i * 4096)))))) \<and>
    (\<forall>js. idx_path 3 js \<and> (\<forall>i < n. js \<noteq> va_path (v + of_nat (i * 4096)) 0 3) \<longrightarrow>
       pwalk rv_fmt (pg_tb s') t js = pwalk rv_fmt (pg_tb s) t js)"
proof -
  obtain s' where s': "pg_map he False root 0 v p map_size attr s = Some s'" "tables_ok rv_fmt he 3 t s'"
    "\<forall>i < n. pwalk rv_fmt (pg_tb s') t (va_path (v + of_nat (i * 4096)) 0 3) = Some (write_pte (p + of_nat (i * 4096)) attr) \<and>
      \<not> blocked rv_fmt (pg_tb s') t (va_path (v + of_nat (i * 4096)) 0 3)"
    "\<forall>js. idx_path 3 js \<and> (\<forall>i < n. js \<noteq> va_path (v + of_nat (i * 4096)) 0 3) \<longrightarrow>
       pwalk rv_fmt (pg_tb s') t js = pwalk rv_fmt (pg_tb s) t js"
    using pg_map_range [OF assms] by blast
  have "ptw_walk he (pg_tb s') root (v + of_nat (i * 4096)) 0 = Some (push_bit 12 (take_bit 44 (drop_bit 12 (p + of_nat (i * 4096)))))"
    if "i < n" for i
    using ptw_walk_pwalk [OF assms(1,2), of 0 3 "pg_tb s'" "v + of_nat (i * 4096)"] s'(2,3) that
    by (simp add: tables_in_def del: of_nat_mult)
  then show ?thesis using s' by blast
qed

text \<open>An empty table tree in front of an unused page pool.\<close>

definition fresh_tables :: pgt where
  "fresh_tables = \<lparr>pg_bm = replicate 16384 0, pg_tb = (\<lambda>_ _. 0)\<rparr>"

lemma fresh_tables_ok:
  "tables_ok rv_fmt 0x80400000 3 0x80200 fresh_tables" "room (pg_bm fresh_tables) 6"
  "\<not> blocked rv_fmt (pg_tb fresh_tables) 0x80200 (va_path va 0 3)"
  "pwalk rv_fmt (pg_tb fresh_tables) 0x80200 (va_path va 0 3) = None"
  "hyp_frame 0x80400000 0x80200000 = Some 0x80200" "he_ok 0x80400000"
proof -
  have emp: "\<not> pf_valid rv_fmt (pg_tb fresh_tables 0x80200 i)" for i by (simp add: fresh_tables_def walk_valid_def)
  have T: "tframes rv_fmt (pg_tb fresh_tables) 3 0x80200 = {0x80200}" "twf rv_fmt (pg_tb fresh_tables) 3 0x80200"
    using rvt.empty_table [of "pg_tb fresh_tables" "0x80200" 3] emp by blast+
  show he: "he_ok 0x80400000" by (simp add: he_ok_def)
  have "unat (pool_frame 0x80400000 j) \<noteq> 0x80200" if "j < 2 ^ 20" for j
    using unat_pool_frame [OF he that] by (simp add: PAGE_PHYS_OFFSET_def)
  then have "0x80200 \<notin> pool_frame 0x80400000 ` {..<2 ^ 20}" by force
  then show "tables_ok rv_fmt 0x80400000 3 0x80200 fresh_tables"
    using T by (simp add: tables_in_def root_ok_def in_use_def pages_ok_def fresh_tables_def)
  have "\<not> bm_test (replicate 16384 0) j" if "j < 2 ^ 18" for j
    using that by (simp add: bm_test_def less_mult_imp_div_less)
  then have "{0, 2, 4, 6, 8, 10} \<subseteq> free_low (replicate 16384 0)" by (auto simp: free_low_def)
  then have "card {0, 2, 4, 6, 8, 10 :: nat} \<le> card (free_low (replicate 16384 0))" by (intro card_mono free_low_finite)
  then show "room (pg_bm fresh_tables) 6" by (simp add: room_def fresh_tables_def)
  show "\<not> blocked rv_fmt (pg_tb fresh_tables) 0x80200 (va_path va 0 3)"
    using rvt.empty_blocked [of "pg_tb fresh_tables" "0x80200", OF _ va_path_idx] emp by blast
  show "pwalk rv_fmt (pg_tb fresh_tables) 0x80200 (va_path va 0 3) = None"
    using rvt.empty_walk [of "pg_tb fresh_tables" "0x80200", OF _ va_path_idx] emp by blast
  show "hyp_frame 0x80400000 0x80200000 = Some 0x80200" by (simp add: hyp_frame_def dm_frame_def)
qed

theorem rv_map_correct_witness:
  "\<exists>s'. pg_map 0x80400000 False 0x80200000 0 0x90000000 0xa0000000 0x2000 6 fresh_tables = Some s' \<and>
     ptw_walk 0x80400000 (pg_tb s') 0x80200000 0x90001000 0 = Some 0xa0001000"
proof -
  have n: "pages_of 0x2000 4096 = 2" by (simp add: pages_of_def)
  obtain s' where s': "pg_map 0x80400000 False 0x80200000 0 0x90000000 0xa0000000 0x2000 6 fresh_tables = Some s'"
    "\<forall>i < 2. ptw_walk 0x80400000 (pg_tb s') 0x80200000 (0x90000000 + of_nat (i * 4096)) 0 =
       Some (push_bit 12 (take_bit 44 (drop_bit 12 (0xa0000000 + of_nat (i * 4096)))))"
    using rv_map_correct [OF fresh_tables_ok(6,5,1) n, of "0x90000000" "0xa0000000" 6] fresh_tables_ok(2,3)
      room_per_page [of "pg_bm fresh_tables" 3 2] by auto
  from s'(2) [rule_format, of 1] s'(1) show ?thesis by (simp add: take_bit_eq_mask mask_eq_exp_minus_1)
qed



text \<open>
  The wrapper for guests swaps size and attribute: for every attribute between 1 and 4096 it maps a single page,
  whatever the size, with permissions taken from the size.
\<close>

lemma pages_of_4096: "pages_of sz 4096 = unat (sz + 4095) div 4096"
proof -
  have "(sz + 4096 - 1) AND NOT (4096 - 1) = (sz + 4095) AND NOT (mask 12)" by (simp add: mask_eq_exp_minus_1 add.commute)
  also have "\<dots> = push_bit 12 (drop_bit 12 (sz + 4095))" by (rule bit_word_eqI) (auto simp: bit_simps)
  moreover have lt: "unat (sz + 4095) < 2 ^ 64" using unsigned_less [of "sz + 4095"] by simp
  have "unat (push_bit 12 (drop_bit 12 (sz + 4095))) = unat (sz + 4095) div 4096 * 4096"
    using unat_push_bit_small [of "drop_bit 12 (sz + 4095)" 12] lt div_times_less_eq_dividend [of "unat (sz + 4095)" 4096]
    by (simp add: unat_drop_bit_div)
  ultimately show ?thesis by (simp add: pages_of_def unat_div)
qed

lemma stage2_map_swapped:
  assumes "0 < attr" "attr \<le> 4096"
  shows "stage2_map he root v p map_size attr s = pg_map he False root 0 v p 4096 (ucast map_size) s"
proof -
  have "unat (ucast attr + 4095 :: u64) = unat attr + 4095"
    using assms(2) by (simp add: unat_word_ariths unsigned_ucast_eq word_le_nat_alt take_bit_nat_eq_self)
  moreover have "(unat attr + 4095) div 4096 = 1" using assms by (auto simp: word_le_nat_alt word_less_nat_alt div_nat_eqI)
  ultimately have "pages_of (ucast attr) 4096 = 1" using pages_of_4096 [of "ucast attr"] by (simp add: add.commute)
  then show ?thesis using pages_of_4096 [of 4096] by (simp add: stage2_map_def pg_map_def)
qed

end
