(* ===== verification/Arm_Mmu.thy ===== *)
theory Arm_Mmu
  imports Table_Walk
begin

text \<open>
  Translation tables of the AArch64 port: the entry builders of \<^verbatim>\<open>arch/aarch64/lpae.c\<close>, the second-stage tables of
  guests (\<^verbatim>\<open>page_table_s2.c\<close>) and the page-wise operations on the hypervisor's own tables (\<^verbatim>\<open>page_table.c\<close>).

  As for the other port, the state is the page allocator's bitmap and the memory that holds the tables. A table
  pointer is a virtual address, translated by the hypervisor's own tables: an identity mapping of the image and the
  direct map of the page pool (\<open>arm_frame\<close>; theory \<open>Arm_Boot_Map\<close> shows that the boot code builds them). An access
  outside both, and \<open>hyper_fatal\<close>, are \<open>None\<close>. \<open>he\<close> is the address of \<^verbatim>\<open>_hyper_end\<close>.
\<close>

section \<open>Entries\<close>

text \<open>Assignment to the bit field of width \<open>n\<close> at bit \<open>lo\<close> of an entry.\<close>

definition set_field :: "nat \<Rightarrow> nat \<Rightarrow> u64 \<Rightarrow> u64 \<Rightarrow> u64" where
  "set_field lo n v e = (e AND NOT (push_bit lo (mask n))) OR push_bit lo (take_bit n v)"

text \<open>
  Fields common to first- and second-stage entries: \<open>valid\<close> is bit 0, \<open>table\<close> bit 1, \<open>sh\<close> bits 8 and 9, \<open>af\<close> bit 10,
  \<open>base\<close> bits 12 to 47, \<open>xn\<close> bit 54. First stage: \<open>ai\<close> bits 2 to 4, \<open>ns\<close> bit 5, \<open>up\<close> bit 6, \<open>ro\<close> bit 7, \<open>ng\<close> bit 11,
  \<open>avail\<close> bits 55 to 58. Second stage: \<open>mattr\<close> bits 2 to 5, \<open>read\<close> bit 6, \<open>write\<close> bit 7, \<open>type\<close> bits 55 to 58.
\<close>

definition lpae_valid :: "u64 \<Rightarrow> bool" where "lpae_valid e \<longleftrightarrow> bit e 0"
definition lpae_table :: "u64 \<Rightarrow> bool" where "lpae_table e \<longleftrightarrow> bit e 1"
definition lpae_base :: "u64 \<Rightarrow> u64" where "lpae_base e = take_bit 36 (drop_bit 12 e)"

definition lpae_set_mfn :: "u64 \<Rightarrow> u64 \<Rightarrow> u64" where
  "lpae_set_mfn e mfn = set_field 12 36 mfn e"

abbreviation (input) "LPAE_SH_OUTER \<equiv> 2 :: u64"
abbreviation (input) "LPAE_SH_INNER \<equiv> 3 :: u64"
abbreviation (input) "MT_DEVICE_nGnRnE \<equiv> 0 :: u32"
abbreviation (input) "MT_NORMAL_NC \<equiv> 1 :: u32"
abbreviation (input) "MT_DEVICE_nGnRE \<equiv> 4 :: u32"
abbreviation (input) "MT_NORMAL \<equiv> 7 :: u32"

definition make_stage1_entry :: "u64 \<Rightarrow> u32 \<Rightarrow> u64" where
  "make_stage1_entry pa attr_index =
     (let e = set_field 11 1 1 (set_field 10 1 1 (set_field 6 1 1 (set_field 5 1 1
                (set_field 2 3 (ucast attr_index) (set_field 1 1 1 (set_field 0 1 1 0))))));
          e1 = (if attr_index \<in> {MT_NORMAL_NC, MT_DEVICE_nGnRnE, MT_DEVICE_nGnRE}
                then set_field 8 2 LPAE_SH_OUTER e else set_field 8 2 LPAE_SH_INNER e)
      in lpae_set_mfn e1 (drop_bit 12 pa))"

abbreviation (input) "MEM_NORMAL_RW \<equiv> 0 :: u32"
abbreviation (input) "MEM_DEVICE_NC \<equiv> 1 :: u32"
abbreviation (input) "MEM_DEVICE \<equiv> 2 :: u32"
abbreviation (input) "MEM_ACCESS_RWX \<equiv> 0 :: u32"
abbreviation (input) "MEM_ACCESS_RW \<equiv> 1 :: u32"
abbreviation (input) "MEM_ACCESS_NONE \<equiv> 2 :: u32"
abbreviation (input) "MATTR_DEV \<equiv> 1 :: u64"
abbreviation (input) "MATTR_MEM_NC \<equiv> 5 :: u64"
abbreviation (input) "MATTR_MEM \<equiv> 0xf :: u64"

definition stage2_apply_type :: "u32 \<Rightarrow> u64 \<Rightarrow> u64" where
  "stage2_apply_type ty e =
     (if ty = MEM_DEVICE_NC then set_field 8 2 LPAE_SH_OUTER (set_field 2 4 MATTR_MEM_NC e)
      else if ty = MEM_DEVICE then set_field 8 2 LPAE_SH_OUTER (set_field 2 4 MATTR_DEV e)
      else set_field 8 2 LPAE_SH_INNER (set_field 2 4 MATTR_MEM e))"

definition stage2_apply_access :: "u32 \<Rightarrow> u64 \<Rightarrow> u64" where
  "stage2_apply_access ac e =
     (if ac = MEM_ACCESS_RW then set_field 54 1 1 e
      else if ac = MEM_ACCESS_NONE then set_field 10 1 0 e else e)"

definition make_stage2_entry :: "u64 \<Rightarrow> u32 \<Rightarrow> u32 \<Rightarrow> u64" where
  "make_stage2_entry pa ty ac =
     (let e = set_field 55 4 (ucast ty) (set_field 10 1 1 (set_field 7 1 1 (set_field 6 1 1
                (set_field 1 1 1 (set_field 0 1 1 0)))))
      in lpae_set_mfn (stage2_apply_access ac (stage2_apply_type ty e)) (drop_bit 12 pa))"

section \<open>Second-stage tables\<close>

definition arm_frame :: "u64 \<Rightarrow> u64 \<Rightarrow> u64 option" where
  "arm_frame he va = dm_frame 0x40080000 ((he + 4095) AND NOT 4095) he va"

definition lpae_index :: "u64 \<Rightarrow> nat \<Rightarrow> nat" where
  "lpae_index virt level = unat (drop_bit (12 + 9 * (3 - level)) virt AND (push_bit 9 1 - 1))"

definition s2_pte_is_valid :: "u64 \<Rightarrow> bool" where
  "s2_pte_is_valid e \<longleftrightarrow> lpae_valid e \<and> lpae_base e \<noteq> 0"

text \<open>The table \<open>pa_range_info\<close>: address width, order of the root, \<open>sl0\<close>.\<close>

definition pa_range_info :: "(nat \<times> nat \<times> nat) list" where
  "pa_range_info = [(32, 0, 1), (36, 0, 1), (40, 1, 1), (42, 3, 1), (44, 0, 2), (48, 0, 2), (52, 4, 2), (0, 0, 0)]"

record stage2_mm_info =
  pa_size :: nat
  root_page_order :: nat
  lookup_level :: nat
  root_table :: u64

text \<open>\<open>None\<close>: the value of the identification register is past the table.\<close>

definition s2_setup_info :: "nat \<Rightarrow> stage2_mm_info \<Rightarrow> stage2_mm_info option" where
  "s2_setup_info pa_regs info =
     (if pa_regs < length pa_range_info
      then (case pa_range_info ! pa_regs of (b, ro, sl) \<Rightarrow>
        Some (info\<lparr>pa_size := b, root_page_order := ro, lookup_level := 2 - sl\<rparr>))
      else None)"

primrec clear_tables :: "nat \<Rightarrow> u64 \<Rightarrow> ptmem \<Rightarrow> ptmem" where
  "clear_tables 0 f tb = tb"
| "clear_tables (Suc n) f tb = clear_tables n (f + 1) (clear_table f tb)"

definition s2_alloc_root_pages :: "u64 \<Rightarrow> stage2_mm_info \<Rightarrow> pgt \<Rightarrow> (stage2_mm_info \<times> pgt) option" where
  "s2_alloc_root_pages he info s =
     (if 4 < root_page_order info then None
      else do {
        (fn, bm') \<leftarrow> alloc_pages (pg_bm s) (int (root_page_order info));
        g \<leftarrow> arm_frame he (PAGE_VIR fn);
        Some (info\<lparr>root_table := PAGE_VIR fn\<rparr>,
          s\<lparr>pg_bm := bm', pg_tb := clear_tables (2 ^ root_page_order info) g (pg_tb s)\<rparr>) })"

definition s2_link_table :: "u64 \<Rightarrow> u64 \<Rightarrow> nat \<Rightarrow> pgt \<Rightarrow> pgt option" where
  "s2_link_table he f off s = do {
     (fn, bm') \<leftarrow> alloc_one_page (pg_bm s);
     (if fn < 0 then None
      else do {
        tb' \<leftarrow> (if PAGE_VIR fn = 0 then Some (pg_tb s)
                else arm_frame he (PAGE_VIR fn) \<bind> (\<lambda>g. Some (clear_table g (pg_tb s))));
        Some (s\<lparr>pg_bm := bm', pg_tb := put f off (make_stage2_entry (PAGE_PHY he fn) MEM_NORMAL_RW MEM_ACCESS_RWX) tb'\<rparr>) }) }"

definition s2_next_level_map :: "u64 \<Rightarrow> u64 \<Rightarrow> nat \<Rightarrow> nat \<Rightarrow> pgt \<Rightarrow> (u64 \<times> pgt) option" where
  "s2_next_level_map he vtable level off s = do {
     f \<leftarrow> arm_frame he vtable;
     (if level = 3 then None
      else do {
        s1 \<leftarrow> (if s2_pte_is_valid (pg_tb s f off) then Some s else s2_link_table he f off s);
        let entry = pg_tb s1 f off;
        (if \<not> lpae_table entry then Some (vtable, s1)
         else Some (phy_to_vir he (push_bit 12 (lpae_base entry)), s1)) }) }"

primrec s2_levels :: "u64 \<Rightarrow> u64 \<Rightarrow> nat \<Rightarrow> nat \<Rightarrow> u64 \<Rightarrow> pgt \<Rightarrow> (u64 \<times> pgt) option" where
  "s2_levels he vaddr 0 level table s = Some (table, s)"
| "s2_levels he vaddr (Suc k) level table s = do {
     (table', s') \<leftarrow> s2_next_level_map he table level (lpae_index vaddr level) s;
     s2_levels he vaddr k (Suc level) table' s' }"

definition stage2_map_4k :: "u64 \<Rightarrow> u64 \<Rightarrow> nat \<Rightarrow> u64 \<Rightarrow> u64 \<Rightarrow> u32 \<Rightarrow> u32 \<Rightarrow> pgt \<Rightarrow> pgt option" where
  "stage2_map_4k he root start_level vaddr paddr attr acc s = do {
     (table, s') \<leftarrow> s2_levels he vaddr (3 - start_level) start_level root s;
     f \<leftarrow> arm_frame he table;
     Some (s'\<lparr>pg_tb := put f (lpae_index vaddr (max start_level 3)) (make_stage2_entry paddr attr acc) (pg_tb s')\<rparr>) }"

primrec stage2_map_loop :: "u64 \<Rightarrow> u64 \<Rightarrow> nat \<Rightarrow> u32 \<Rightarrow> u32 \<Rightarrow> nat \<Rightarrow> u64 \<Rightarrow> u64 \<Rightarrow> pgt \<Rightarrow> pgt option" where
  "stage2_map_loop he root start_level attr acc 0 vaddr paddr s = Some s"
| "stage2_map_loop he root start_level attr acc (Suc n) vaddr paddr s = do {
     s' \<leftarrow> stage2_map_4k he root start_level vaddr paddr attr acc s;
     stage2_map_loop he root start_level attr acc n (vaddr + 4096) (paddr + 4096) s' }"

definition round_pages :: "u64 \<Rightarrow> u64" where
  "round_pages map_size = (map_size + 4096 - 1) AND NOT (4096 - 1)"

definition arm_stage2_map :: "u64 \<Rightarrow> stage2_mm_info \<Rightarrow> u64 \<Rightarrow> u64 \<Rightarrow> u64 \<Rightarrow> u32 \<Rightarrow> u32 \<Rightarrow> pgt \<Rightarrow> pgt option" where
  "arm_stage2_map he info vaddr paddr map_size attr acc s =
     stage2_map_loop he (root_table info) (lookup_level info) attr acc (unat (round_pages map_size div 4096)) vaddr paddr s"

definition lpae_all_invalid :: "ptmem \<Rightarrow> u64 \<Rightarrow> bool" where
  "lpae_all_invalid tb f \<longleftrightarrow> list_all (\<lambda>i. \<not> lpae_valid (tb f i)) [0..<512]"

function stage2_unmap_page :: "u64 \<Rightarrow> u64 \<Rightarrow> nat \<Rightarrow> u64 \<Rightarrow> pgt \<Rightarrow> pgt option" where
  "stage2_unmap_page he pre_tbl level vir_addr s =
     (if pre_tbl = 0 \<or> 3 < level then Some s
      else do {
        f \<leftarrow> arm_frame he pre_tbl;
        let off = lpae_index vir_addr level;
        let cur_pte = pg_tb s f off;
        (if \<not> lpae_valid cur_pte \<or> lpae_base cur_pte = 0 then None
         else if level = 3 then Some (s\<lparr>pg_tb := put f off 0 (pg_tb s)\<rparr>)
         else do {
           let next_tbl_phy = push_bit 12 (lpae_base cur_pte);
           let next_tbl_vir = phy_to_vir he next_tbl_phy;
           s1 \<leftarrow> stage2_unmap_page he next_tbl_vir (Suc level) vir_addr s;
           g \<leftarrow> arm_frame he next_tbl_vir;
           (if lpae_all_invalid (pg_tb s1) g
            then do {
              bm' \<leftarrow> free_one_page (pg_bm s1) (PHY_TO_FN he next_tbl_phy);
              Some (s1\<lparr>pg_bm := bm', pg_tb := put f off 0 (pg_tb s1)\<rparr>) }
            else Some s1) }) })"
  by pat_completeness auto
termination
  by (relation "measure (\<lambda>(he, p, level, va, s). 4 - level)") auto

primrec stage2_unmap_loop :: "u64 \<Rightarrow> u64 \<Rightarrow> nat \<Rightarrow> nat \<Rightarrow> u64 \<Rightarrow> pgt \<Rightarrow> pgt option" where
  "stage2_unmap_loop he root start_level 0 vaddr s = Some s"
| "stage2_unmap_loop he root start_level (Suc n) vaddr s = do {
     s' \<leftarrow> stage2_unmap_page he root start_level vaddr s;
     stage2_unmap_loop he root start_level n (vaddr + 4096) s' }"

text \<open>TLB maintenance that the unmap operation issues, in order.\<close>

datatype tlb_op = TlbInvGuestIpa u64 | TlbInvGuestAllIs | IpiTlbShootdown

definition s2_tlb_ops :: "nat \<Rightarrow> u64 \<Rightarrow> u64 \<Rightarrow> tlb_op list" where
  "s2_tlb_ops cpu_count start_vaddr map_size =
     (if map_size \<le> 32 * 4096
      then map (\<lambda>i. TlbInvGuestIpa (start_vaddr + of_nat (i * 4096))) [0..<unat (map_size div 4096)]
      else [TlbInvGuestAllIs]) @
     (if 1 < cpu_count then [IpiTlbShootdown] else [])"

definition arm_stage2_unmap :: "u64 \<Rightarrow> nat \<Rightarrow> stage2_mm_info \<Rightarrow> u64 \<Rightarrow> u64 \<Rightarrow> pgt \<Rightarrow> (tlb_op list \<times> pgt) option" where
  "arm_stage2_unmap he cpu_count info vaddr map_size s = do {
     s' \<leftarrow> stage2_unmap_loop he (root_table info) (lookup_level info) (unat (round_pages map_size div 4096)) vaddr s;
     Some (s2_tlb_ops cpu_count vaddr (round_pages map_size), s') }"

text \<open>\<open>enable_stage2_traslation\<close>: the mappings and the register values it installs.\<close>

definition enable_stage2_traslation ::
    "u64 \<Rightarrow> bool \<Rightarrow> nat \<Rightarrow> stage2_mm_info \<Rightarrow> pgt \<Rightarrow> (u64 \<times> u64 \<times> stage2_mm_info \<times> pgt) option" where
  "enable_stage2_traslation he uart_enabled pa_ps info s = do {
     info1 \<leftarrow> s2_setup_info pa_ps info;
     (info2, s1) \<leftarrow> s2_alloc_root_pages he info1 s;
     (if pa_size info2 = 42 then None
      else do {
        s2 \<leftarrow> arm_stage2_map he info2 0x40000000 0x40000000 (push_bit 20 10) MEM_NORMAL_RW MEM_ACCESS_RWX s1;
        s3 \<leftarrow> arm_stage2_map he info2 0x50200000 0x50200000 (push_bit 30 1) MEM_NORMAL_RW MEM_ACCESS_RWX s2;
        s4 \<leftarrow> arm_stage2_map he info2 0x50000000 0x50000000 4096 MEM_NORMAL_RW MEM_ACCESS_RWX s3;
        s5 \<leftarrow> (if \<not> uart_enabled
               then arm_stage2_map he info2 0x09000000 0x09000000 0x100 MEM_DEVICE_NC MEM_ACCESS_RWX s4 else Some s4);
        let vtcr = push_bit 31 1 OR push_bit 12 3 OR push_bit 10 1 OR push_bit 8 1 OR push_bit 16 (of_nat pa_ps)
                     OR of_nat (64 - pa_size info2) OR push_bit 6 (of_nat (2 - lookup_level info2));
        let vttbr = vir_to_phy he (root_table info2) AND NOT 0xFFF;
        Some (vtcr, vttbr, info2, s5) }) }"

section \<open>Entries and addresses\<close>

lemma bit_set_field [simp]:
  "lo + n \<le> 64 \<Longrightarrow> bit (set_field lo n v e) i \<longleftrightarrow> (if lo \<le> i \<and> i < lo + n then bit v (i - lo) else bit e i)"
  using bit_imp_le_length [of e i] by (auto simp: set_field_def bit_simps)

lemma base_set_mfn: "lpae_base (lpae_set_mfn e m) = take_bit 36 m"
  by (rule bit_word_eqI) (auto simp: lpae_base_def lpae_set_mfn_def bit_simps)

lemma low_set_mfn [simp]:
  "lpae_valid (lpae_set_mfn e m) \<longleftrightarrow> lpae_valid e" "lpae_table (lpae_set_mfn e m) \<longleftrightarrow> lpae_table e"
  by (simp_all add: lpae_valid_def lpae_table_def lpae_set_mfn_def)

lemma make_stage1_entry_simps [simp]:
  "lpae_valid (make_stage1_entry pa a)" "lpae_table (make_stage1_entry pa a)"
  "lpae_base (make_stage1_entry pa a) = take_bit 36 (drop_bit 12 pa)"
  by (auto simp: make_stage1_entry_def Let_def base_set_mfn) (auto simp: lpae_valid_def lpae_table_def)

lemma make_stage2_entry_simps [simp]:
  "lpae_valid (make_stage2_entry pa ty ac)" "lpae_table (make_stage2_entry pa ty ac)"
  "lpae_base (make_stage2_entry pa ty ac) = take_bit 36 (drop_bit 12 pa)"
  by (auto simp: make_stage2_entry_def Let_def base_set_mfn)
    (auto simp: lpae_valid_def lpae_table_def stage2_apply_access_def stage2_apply_type_def)

text \<open>The architectural meaning of a second-stage entry.\<close>

record s2_attr =
  s2_mattr :: u64
  s2_sh :: u64
  s2_read :: bool
  s2_write :: bool
  s2_exec :: bool
  s2_af :: bool

definition decode_s2 :: "u64 \<Rightarrow> s2_attr" where
  "decode_s2 e = \<lparr>s2_mattr = take_bit 4 (drop_bit 2 e), s2_sh = take_bit 2 (drop_bit 8 e), s2_read = bit e 6,
     s2_write = bit e 7, s2_exec = (\<not> bit e 54), s2_af = bit e 10\<rparr>"

lemma field_read:
  assumes "\<And>i. i < n \<Longrightarrow> bit e (lo + i) \<longleftrightarrow> bit (v::u64) i" "take_bit n v = v"
  shows "take_bit n (drop_bit lo e) = v"
proof -
  have "take_bit n (drop_bit lo e) = take_bit n v"
    by (rule bit_word_eqI) (use assms(1) in \<open>auto simp: bit_simps\<close>)
  with assms(2) show ?thesis by simp
qed

lemma lpae_index_va_index: "lpae_index = va_index"
  by (intro ext) (simp add: lpae_index_def va_index_def)

lemma he_page_align:
  assumes "he_ok he"
  shows "(he + 4095) AND NOT 4095 \<le> PAGE_VIRT_OFFSET"
proof -
  have "unat he < 2 ^ 39" using assms by (simp add: he_ok_def word_less_nat_alt)
  then have u: "unat (he + 4095) = unat he + 4095" by (subst unat_add_lem [THEN iffD1]) auto
  have "(he + 4095) AND NOT 4095 \<le> he + 4095" by (rule word_and_le2)
  also have "\<dots> \<le> PAGE_VIRT_OFFSET" using u \<open>unat he < 2 ^ 39\<close> by (simp add: word_le_nat_alt PAGE_VIRT_OFFSET_unat)
  finally show ?thesis .
qed

lemma arm_frame_pool: "he_ok he \<Longrightarrow> j < 2 ^ 18 \<Longrightarrow> arm_frame he (PAGE_VIR (int j)) = Some (pool_frame he j)"
  unfolding arm_frame_def by (rule dm_frame_pool [OF _ _ he_page_align])

lemma arm_frame_low: "he_ok he \<Longrightarrow> f \<in> low_frames he \<Longrightarrow> arm_frame he (phy_to_vir he (push_bit 12 f)) = Some f"
  by (auto simp: low_frames_def pool_address arm_frame_pool)

lemma arm_frame_0: "arm_frame he 0 = None"
  by (simp add: arm_frame_def dm_frame_def PAGE_VIRT_OFFSET_def)

lemma pool_frame_36: "he_ok he \<Longrightarrow> j < 2 ^ 18 \<Longrightarrow> take_bit 36 (pool_frame he j) = pool_frame he j"
  using pool_frame_bounds(1) [of he j]
  by (simp add: word_unat_eq_iff unsigned_take_bit_eq take_bit_nat_eq_self)

lemma PAGE_VIR_not_0: "he_ok he \<Longrightarrow> j < 2 ^ 18 \<Longrightarrow> PAGE_VIR (int j) \<noteq> 0"
  using arm_frame_pool [of he j] arm_frame_0 [of he] by fastforce

section \<open>Second-stage operations are table operations\<close>

definition s2_fmt :: pt_format where
  "s2_fmt = \<lparr>pf_valid = s2_pte_is_valid, pf_table = lpae_table, pf_next = lpae_base\<rparr>"

lemma s2_fmt_simps [simp]:
  "pf_valid s2_fmt = s2_pte_is_valid" "pf_next s2_fmt = lpae_base" "pf_table s2_fmt = lpae_table"
  by (simp_all add: s2_fmt_def)

interpretation s2t: radix_format s2_fmt
  by unfold_locales (simp add: s2_pte_is_valid_def lpae_valid_def)

interpretation s2w: table_walker s2_fmt arm_frame s2_next_level_map "\<lambda>_. {}"
proof (unfold_locales, goal_cases)
  case (1 he)
  then show ?case by simp
next
  case (2 he p f level s i)
  then show ?case using arm_frame_low [OF 2(1), of "lpae_base (pg_tb s f i)"]
    by (auto simp: s2_next_level_map_def is_tab_def Let_def)
next
  case (3 he p f level s i k t)
  obtain j bm' where j: "alloc_pages_cnt (pg_bm s) 1 = Some (int j, bm')" "j < 2 ^ 18" "pages_ok bm'" "room bm' k"
    "pool_frame he j \<notin> frames_of he (pg_bm s)" "frames_of he bm' = insert (pool_frame he j) (frames_of he (pg_bm s))"
    using alloc_table [OF 3(5,6,1)] by blast
  let ?m = "make_stage2_entry (PAGE_PHY he (int j)) 0 0" and ?g = "pool_frame he j"
  have b: "lpae_base ?m = ?g" using j(2) by (simp add: pool_address(2) [OF 3(1)] pool_frame_36 [OF 3(1)])
  have m: "is_tab s2_fmt ?m" unfolding is_tab_def s2_fmt_simps s2_pte_is_valid_def b
    using pool_frame_bounds(2) [OF 3(1), of j] j(2) by simp
  have "f \<noteq> ?g" using fresh_not_in_use [OF 3(8) _ j(2,5)] 3(7) by blast
  moreover have "s2_link_table he f i s = Some \<lparr>pg_bm = bm', pg_tb = put f i ?m (clear_table ?g (pg_tb s))\<rparr>"
    using j(1) arm_frame_pool [OF 3(1) j(2)] PAGE_VIR_not_0 [OF 3(1) j(2)] by (simp add: s2_link_table_def alloc_one_page_def)
  ultimately have "s2_next_level_map he p level i s =
      Some (phy_to_vir he (push_bit 12 ?g), \<lparr>pg_bm = bm', pg_tb = put f i ?m (clear_table ?g (pg_tb s))\<rparr>)"
    using 3(2-4) m b by (simp add: s2_next_level_map_def is_tab_def)
  moreover have "arm_frame he (phy_to_vir he (push_bit 12 ?g)) = Some ?g"
    using j(2) by (intro arm_frame_low [OF 3(1)]) (simp add: low_frames_def)
  ultimately show ?case using m b j(2-6) by (auto intro!: exI [of _ j] exI [of _ bm'])
qed

lemma s2_levels_descend: "s2_levels he va k level p s = descend (s2_next_level_map he) va k level p s"
  by (induction k arbitrary: level p s) (simp_all add: lpae_index_va_index)

lemma stage2_map_4k_map_one:
  "level \<le> 3 \<Longrightarrow> stage2_map_4k he root level va pa attr acc s =
     map_one (arm_frame he) (s2_next_level_map he) level (3 - level) root va (make_stage2_entry pa attr acc) s"
  by (simp add: map_one_def stage2_map_4k_def s2_levels_descend lpae_index_va_index max_absorb2)

lemma stage2_map_loop_range:
  "level \<le> 3 \<Longrightarrow> stage2_map_loop he root level attr acc n v p s =
     map_range (\<lambda>va. map_one (arm_frame he) (s2_next_level_map he) level (3 - level) root va (make_stage2_entry (va - v + p) attr acc))
       (page_list v n) s"
proof (induction n arbitrary: v p s)
  case (Suc n)
  have e: "va - (v + 4096) + (p + 4096) = va - v + p" for va :: u64 by simp
  show ?case using Suc.IH [OF Suc.prems, of "v + 4096" "p + 4096"] Suc.prems
    by (simp add: page_list_Suc e stage2_map_4k_map_one)
qed (simp add: page_list_def)

definition s2_nextp :: "u64 \<Rightarrow> u64 \<Rightarrow> u64" where
  "s2_nextp he e = phy_to_vir he (push_bit 12 (lpae_base e))"

definition s2_release :: "u64 \<Rightarrow> bitmap \<Rightarrow> u64 \<Rightarrow> bitmap option" where
  "s2_release he bm e = free_one_page bm (PHY_TO_FN he (push_bit 12 (lpae_base e)))"

interpretation s2u: table_unmapper s2_fmt arm_frame s2_pte_is_valid s2_nextp "\<lambda>e. \<not> lpae_valid e" s2_release
  by unfold_locales (auto simp: s2_nextp_def s2_release_def arm_frame_low pool_address is_tab_def s2_pte_is_valid_def)

declare stage2_unmap_page.simps [simp del]

lemma stage2_unmap_page_unmap_one:
  "arm_frame he p \<noteq> None \<Longrightarrow> level + k = 3 \<Longrightarrow> 
   unmap_one (arm_frame he) s2_pte_is_valid (s2_nextp he) (\<lambda>e. \<not> lpae_valid e) (s2_release he) va k level p s = Some s' \<Longrightarrow>
   stage2_unmap_page he p level va s = Some s'"
proof (induction k arbitrary: level p s s')
  case 0
  then have "p \<noteq> 0" by (auto simp: arm_frame_0)
  then show ?case using 0
    by (subst stage2_unmap_page.simps)
      (auto simp: lpae_index_va_index Let_def s2_pte_is_valid_def split: Option.bind_splits if_splits)
next
  case (Suc k)
  then have p: "p \<noteq> 0" "level < 3" "Suc level + k = 3" by (auto simp: arm_frame_0)
  from Suc.prems(3) obtain f s1 g where f: "arm_frame he p = Some f" "s2_pte_is_valid (pg_tb s f (va_index va level))"
    "unmap_one (arm_frame he) s2_pte_is_valid (s2_nextp he) (\<lambda>e. \<not> lpae_valid e) (s2_release he) va k (Suc level)
       (s2_nextp he (pg_tb s f (va_index va level))) s = Some s1"
    "arm_frame he (s2_nextp he (pg_tb s f (va_index va level))) = Some g"
    by (auto simp: Let_def split: Option.bind_splits if_splits)
  note u = Suc.IH [OF _ p(3) f(3)]
  show ?case using Suc.prems(3) p f u unfolding unmap_one.simps
    by (subst stage2_unmap_page.simps)
      (auto simp: lpae_index_va_index Let_def s2_pte_is_valid_def s2_nextp_def s2_release_def lpae_all_invalid_def
        split: Option.bind_splits if_splits)
qed

lemma stage2_unmap_loop_range:
  "arm_frame he root \<noteq> None \<Longrightarrow> level \<le> 3 \<Longrightarrow>
   map_range (\<lambda>va. unmap_one (arm_frame he) s2_pte_is_valid (s2_nextp he) (\<lambda>e. \<not> lpae_valid e) (s2_release he) va (3 - level) level root)
     (page_list v n) s = Some s' \<Longrightarrow>
   stage2_unmap_loop he root level n v s = Some s'"
proof (induction n arbitrary: v s)
  case (Suc n)
  from Suc.prems(3) obtain s1 where
    s1: "unmap_one (arm_frame he) s2_pte_is_valid (s2_nextp he) (\<lambda>e. \<not> lpae_valid e) (s2_release he) v (3 - level) level root s = Some s1"
    "map_range (\<lambda>va. unmap_one (arm_frame he) s2_pte_is_valid (s2_nextp he) (\<lambda>e. \<not> lpae_valid e) (s2_release he) va (3 - level) level root)
       (page_list (v + 4096) n) s1 = Some s'"
    by (auto simp: page_list_Suc split: Option.bind_splits)
  have "level + (3 - level) = 3" using Suc.prems(2) by simp
  from stage2_unmap_page_unmap_one [OF Suc.prems(1) this s1(1)] Suc.IH [OF Suc.prems(1,2) s1(2)] show ?case by simp
qed (simp add: page_list_def)

section \<open>Ranges\<close>

lemma s2_map_range:
  assumes "he_ok he" "arm_frame he (root_table info) = Some t" "lookup_level info = lv" "lv + k = 3" "tables_ok s2_fmt he k t s"
    "unat (round_pages map_size div 4096) = n" "n \<le> 2 ^ (9 * (4 - lv))" "unat (drop_bit 12 v) + n \<le> 2 ^ 52"
    "room (pg_bm s) (tables_needed k n + r)"
    "\<forall>i < n. \<not> blocked s2_fmt (pg_tb s) t (va_path (v + of_nat (i * 4096)) lv k)"
    "\<forall>i < n. take_bit 36 (drop_bit 12 (p + of_nat (i * 4096))) \<noteq> 0"
  shows "\<exists>s'. arm_stage2_map he info v p map_size ty ac s = Some s' \<and> tables_ok s2_fmt he k t s' \<and> room (pg_bm s') r \<and>
    (\<forall>i < n. pwalk s2_fmt (pg_tb s') t (va_path (v + of_nat (i * 4096)) lv k) = Some (make_stage2_entry (p + of_nat (i * 4096)) ty ac)) \<and>
    (\<forall>js. idx_path k js \<and> (\<forall>i < n. js \<noteq> va_path (v + of_nat (i * 4096)) lv k) \<longrightarrow>
       pwalk s2_fmt (pg_tb s') t js = pwalk s2_fmt (pg_tb s) t js) \<and>
    (\<forall>js. idx_path k js \<and> blocked s2_fmt (pg_tb s') t js \<longrightarrow> blocked s2_fmt (pg_tb s) t js)"
proof -
  have e: "v + x - v + p = p + x" for x by simp
  have "\<forall>i < n. pf_valid s2_fmt (make_stage2_entry (v + of_nat (i * 4096) - v + p) ty ac)"
    unfolding e using assms(11) by (simp add: s2_pte_is_valid_def del: of_nat_mult)
  from s2w.map_pages_correct [where ent = "\<lambda>va. make_stage2_entry (va - v + p) ty ac", OF assms(1,2,4,5,7-10) this]
  obtain s' where s': "map_range (\<lambda>va. map_one (arm_frame he) (s2_next_level_map he) lv k (root_table info) va
      (make_stage2_entry (va - v + p) ty ac)) (page_list v n) s = Some s'" "tables_ok s2_fmt he k t s'" "room (pg_bm s') r"
    "\<forall>i < n. pwalk s2_fmt (pg_tb s') t (va_path (v + of_nat (i * 4096)) lv k) =
       Some (make_stage2_entry (v + of_nat (i * 4096) - v + p) ty ac)"
    "\<forall>js. idx_path k js \<and> (\<forall>i < n. js \<noteq> va_path (v + of_nat (i * 4096)) lv k) \<longrightarrow>
       pwalk s2_fmt (pg_tb s') t js = pwalk s2_fmt (pg_tb s) t js"
    "\<forall>js. idx_path k js \<and> blocked s2_fmt (pg_tb s') t js \<longrightarrow> blocked s2_fmt (pg_tb s) t js" by blast
  have "k = 3 - lv" "lv \<le> 3" using assms(4) by simp_all
  then have "arm_stage2_map he info v p map_size ty ac s = Some s'"
    using s'(1) by (simp add: arm_stage2_map_def stage2_map_loop_range assms(3,6))
  then show ?thesis using s'(2-6) unfolding e by blast
qed

lemma s2_alloc_root:
  assumes "he_ok he" "pages_ok (pg_bm s)" "room (pg_bm s) (Suc r)" "root_page_order info = 0"
  obtains j s' where "s2_alloc_root_pages he info s = Some (info\<lparr>root_table := PAGE_VIR (int j)\<rparr>, s')" "j < 2 ^ 18"
    "arm_frame he (PAGE_VIR (int j)) = Some (pool_frame he j)" "tables_ok s2_fmt he k (pool_frame he j) s'" "room (pg_bm s') r"
    "\<forall>js. idx_path k js \<longrightarrow> pwalk s2_fmt (pg_tb s') (pool_frame he j) js = None \<and> \<not> blocked s2_fmt (pg_tb s') (pool_frame he j) js"
proof -
  obtain j bm' where j: "alloc_pages_cnt (pg_bm s) 1 = Some (int j, bm')" "j < 2 ^ 18" "pages_ok bm'" "room bm' r"
    "frames_of he bm' = insert (pool_frame he j) (frames_of he (pg_bm s))"
    using alloc_table [OF assms(2,3,1)] by blast
  let ?g = "pool_frame he j" and ?tb = "clear_table (pool_frame he j) (pg_tb s)"
  note f = arm_frame_pool [OF assms(1) j(2)]
  have a: "s2_alloc_root_pages he info s = Some (info\<lparr>root_table := PAGE_VIR (int j)\<rparr>, \<lparr>pg_bm = bm', pg_tb = ?tb\<rparr>)"
    using j(1) f by (simp add: s2_alloc_root_pages_def assms(4) alloc_pages_def shift_count_def)
  have emp: "\<And>i. \<not> pf_valid s2_fmt (?tb ?g i)" using s2t.zero_invalid by simp
  have "tables_ok s2_fmt he k ?g \<lparr>pg_bm = bm', pg_tb = ?tb\<rparr>"
    using s2t.empty_table [of ?tb ?g k] emp j(3,5) by (auto simp: tables_in_def root_ok_def in_use_def)
  moreover have "\<forall>js. idx_path k js \<longrightarrow> pwalk s2_fmt ?tb ?g js = None \<and> \<not> blocked s2_fmt ?tb ?g js"
    using s2t.empty_walk [of ?tb ?g k] s2t.empty_blocked [of ?tb ?g k] emp by blast
  ultimately show thesis using that [OF a j(2) f] j(4) by simp
qed

section \<open>Properties\<close>

text \<open>What the two parameters of a second-stage mapping ask for.\<close>

definition s2_spec :: "u32 \<Rightarrow> u32 \<Rightarrow> s2_attr" where
  "s2_spec ty ac = \<lparr>s2_mattr = (if ty = MEM_DEVICE_NC then MATTR_MEM_NC else if ty = MEM_DEVICE then MATTR_DEV else MATTR_MEM),
     s2_sh = (if ty = MEM_DEVICE_NC \<or> ty = MEM_DEVICE then LPAE_SH_OUTER else LPAE_SH_INNER),
     s2_read = True, s2_write = True, s2_exec = (ac \<noteq> MEM_ACCESS_RW), s2_af = (ac \<noteq> MEM_ACCESS_NONE)\<rparr>"

lemma decode_make_stage2_entry: "decode_s2 (make_stage2_entry pa ty ac) = s2_spec ty ac"
proof -
  let ?e = "make_stage2_entry pa ty ac"
  have b: "bit ?e i \<longleftrightarrow> (if 2 \<le> i \<and> i < 6 then bit (s2_mattr (s2_spec ty ac)) (i - 2)
      else if 8 \<le> i \<and> i < 10 then bit (s2_sh (s2_spec ty ac)) (i - 8)
      else if i = 6 \<or> i = 7 then True else if i = 10 then s2_af (s2_spec ty ac)
      else if i = 54 then \<not> s2_exec (s2_spec ty ac) else bit ?e i)" for i
    by (auto simp: make_stage2_entry_def lpae_set_mfn_def stage2_apply_access_def stage2_apply_type_def s2_spec_def Let_def)
  have "take_bit 4 (drop_bit 2 ?e) = s2_mattr (s2_spec ty ac)"
  proof (rule field_read)
    fix i :: nat assume "i < 4"
    then show "bit ?e (2 + i) \<longleftrightarrow> bit (s2_mattr (s2_spec ty ac)) i" by (subst b) simp
  qed (simp add: s2_spec_def)
  moreover have "take_bit 2 (drop_bit 8 ?e) = s2_sh (s2_spec ty ac)"
  proof (rule field_read)
    fix i :: nat assume "i < 2"
    then show "bit ?e (8 + i) \<longleftrightarrow> bit (s2_sh (s2_spec ty ac)) i" by (subst b) simp
  qed (simp add: s2_spec_def)
  moreover have "bit ?e 6" "bit ?e 7" "bit ?e 10 = s2_af (s2_spec ty ac)" "bit ?e 54 = (\<not> s2_exec (s2_spec ty ac))"
    by (subst b, simp)+
  ultimately show ?thesis by (simp add: decode_s2_def s2_spec_def)
qed

text \<open>
  C36. Mapping a range of guest-physical addresses (second stage, any of the lookup levels the processor may have):
  starting from well-formed tables with enough free pages and no block entry in the way, the call returns; afterwards
  the tables are well formed, the walk of the \<open>i\<close>-th page of the range ends at the \<open>i\<close>-th physical page with the memory
  type, shareability and permissions asked for, and the translation of every other page is unchanged. (An entry for
  physical page 0 counts as absent and is excluded.)
\<close>

theorem arm_s2_map_correct:
  assumes "he_ok he" "arm_frame he (root_table info) = Some t" "lookup_level info = lv" "lv + k = 3" "tables_ok s2_fmt he k t s"
    "unat (round_pages map_size div 4096) = n" "n \<le> 2 ^ (9 * (4 - lv))"
    "unat (drop_bit 12 v) + n \<le> 2 ^ 52" "room (pg_bm s) (tables_needed k n + r)"
    "\<forall>i < n. \<not> blocked s2_fmt (pg_tb s) t (va_path (v + of_nat (i * 4096)) lv k)"
    "\<forall>i < n. take_bit 36 (drop_bit 12 (p + of_nat (i * 4096))) \<noteq> 0"
  shows "\<exists>s'. arm_stage2_map he info v p map_size ty ac s = Some s' \<and> tables_ok s2_fmt he k t s' \<and> room (pg_bm s') r \<and>
    (\<forall>i < n. \<exists>e. pwalk s2_fmt (pg_tb s') t (va_path (v + of_nat (i * 4096)) lv k) = Some e \<and>
       lpae_base e = take_bit 36 (drop_bit 12 (p + of_nat (i * 4096))) \<and> decode_s2 e = s2_spec ty ac) \<and>
    (\<forall>js. idx_path k js \<and> (\<forall>i < n. js \<noteq> va_path (v + of_nat (i * 4096)) lv k) \<longrightarrow>
       pwalk s2_fmt (pg_tb s') t js = pwalk s2_fmt (pg_tb s) t js)"
  using s2_map_range [OF assms, of ty ac] by (fastforce simp: decode_make_stage2_entry simp del: of_nat_mult)

lemma pwalk_valid: "pwalk F tb t is = Some e \<Longrightarrow> pf_valid F e"
  by (induction F tb t "is" rule: pwalk.induct) (auto split: if_splits)

lemma tlb_ops_cover:
  assumes "unat (map_size div 4096) = n"
  shows "(\<forall>i < n. TlbInvGuestAllIs \<in> set (s2_tlb_ops cpus v map_size) \<or>
      TlbInvGuestIpa (v + of_nat (i * 4096)) \<in> set (s2_tlb_ops cpus v map_size)) \<and>
    (1 < cpus \<longrightarrow> last (s2_tlb_ops cpus v map_size) = IpiTlbShootdown)"
  using assms by (auto simp: s2_tlb_ops_def simp del: of_nat_mult)


section \<open>The guest's view after boot\<close>

text \<open>Tables at \<open>t\<close> that translate addresses of 39 bits as \<open>view\<close> says, with \<open>r\<close> pages left for further tables.\<close>

definition s2_view :: "u64 \<Rightarrow> u64 \<Rightarrow> nat \<Rightarrow> nat \<Rightarrow> nat \<Rightarrow> (u64 \<Rightarrow> u64 option) \<Rightarrow> pgt \<Rightarrow> bool" where
  "s2_view he t lv k r view s \<longleftrightarrow> tables_ok s2_fmt he k t s \<and> room (pg_bm s) r \<and>
     (\<forall>js. idx_path k js \<longrightarrow> \<not> blocked s2_fmt (pg_tb s) t js) \<and>
     (\<forall>ipa. unat ipa < 2 ^ 39 \<longrightarrow> pwalk s2_fmt (pg_tb s) t (va_path ipa lv k) = view ipa)"

lemma make_stage2_entry_page: "drop_bit 12 pa = drop_bit 12 pb \<Longrightarrow> make_stage2_entry pa = make_stage2_entry pb"
  by (intro ext) (simp add: make_stage2_entry_def)

lemma s2_view_map:
  assumes "he_ok he" "arm_frame he (root_table info) = Some t" "lookup_level info = lv" "lv + k = 3" "lv \<le> 1"
    "s2_view he t lv k (tables_needed k n + r) view s" "unat (round_pages sz div 4096) = n" "unat v + n * 4096 \<le> 2 ^ 39" "4096 \<le> unat v"
  shows "\<exists>s'. arm_stage2_map he info v v sz ty ac s = Some s' \<and> s2_view he t lv k r
    (\<lambda>ipa. if unat (drop_bit 12 ipa) \<in> {unat (drop_bit 12 v)..<unat (drop_bit 12 v) + n} then Some (make_stage2_entry ipa ty ac) else view ipa) s'"
proof -
  note S = assms(6) [unfolded s2_view_def]
  have n27: "n \<le> 2 ^ 27" using assms(8) by simp
  also have "(2::nat) ^ 27 \<le> 2 ^ (9 * (4 - lv))" using assms(5) by (intro power_increasing) auto
  finally have n: "n \<le> 2 ^ (9 * (4 - lv))" .
  have page: "unat (drop_bit 12 v) + n \<le> 2 ^ 27" "0 < unat (drop_bit 12 v)"
    using assms(8,9) div_le_mono [of "unat v + n * 4096" "2 ^ 39" 4096] by (auto simp: unat_drop_bit_div div_greater_zero_iff)
  then have nw: "unat (drop_bit 12 v) + n \<le> 2 ^ 52" by simp
  have pg: "unat (drop_bit 12 (v + of_nat (i * 4096))) = unat (drop_bit 12 v) + i" if "i < n" for i
    using page_number_add [of v i] page(1) that by simp
  have nz: "\<forall>i < n. take_bit 36 (drop_bit 12 (v + of_nat (i * 4096))) \<noteq> 0"
  proof (intro allI impI)
    fix i assume i: "i < n"
    have "unat (take_bit 36 (drop_bit 12 (v + of_nat (i * 4096)))) = take_bit 36 (unat (drop_bit 12 (v + of_nat (i * 4096))))"
      by (rule unsigned_take_bit_eq)
    also have "\<dots> = unat (drop_bit 12 v) + i"
      using page(1) i by (subst pg [OF i], intro take_bit_nat_eq_self) simp
    finally show "take_bit 36 (drop_bit 12 (v + of_nat (i * 4096))) \<noteq> 0" using page(2) by (metis add_is_0 less_nat_zero_code unat_0)
  qed
  have nb: "\<forall>i < n. \<not> blocked s2_fmt (pg_tb s) t (va_path (v + of_nat (i * 4096)) lv k)" using S va_path_idx by blast
  obtain s' where s': "arm_stage2_map he info v v sz ty ac s = Some s'" "tables_ok s2_fmt he k t s'" "room (pg_bm s') r"
    "\<forall>i < n. pwalk s2_fmt (pg_tb s') t (va_path (v + of_nat (i * 4096)) lv k) = Some (make_stage2_entry (v + of_nat (i * 4096)) ty ac)"
    "\<forall>js. idx_path k js \<and> (\<forall>i < n. js \<noteq> va_path (v + of_nat (i * 4096)) lv k) \<longrightarrow> pwalk s2_fmt (pg_tb s') t js = pwalk s2_fmt (pg_tb s) t js"
    "\<forall>js. idx_path k js \<and> blocked s2_fmt (pg_tb s') t js \<longrightarrow> blocked s2_fmt (pg_tb s) t js"
    using s2_map_range [OF assms(1-4) _ assms(7) n nw _ nb nz, where r = r] S by blast
  have "pwalk s2_fmt (pg_tb s') t (va_path ipa lv k) =
      (if unat (drop_bit 12 ipa) \<in> {unat (drop_bit 12 v)..<unat (drop_bit 12 v) + n} then Some (make_stage2_entry ipa ty ac) else view ipa)"
    if ipa: "unat ipa < 2 ^ 39" for ipa
  proof (cases "unat (drop_bit 12 ipa) \<in> {unat (drop_bit 12 v)..<unat (drop_bit 12 v) + n}")
    case True
    define i where "i = unat (drop_bit 12 ipa) - unat (drop_bit 12 v)"
    have i: "i < n" "unat (drop_bit 12 ipa) = unat (drop_bit 12 v) + i" using True by (auto simp: i_def)
    then have eq: "drop_bit 12 ipa = drop_bit 12 (v + of_nat (i * 4096))" using pg [OF i(1)] by (simp only: word_unat_eq_iff)
    show ?thesis using s'(4) i(1) True unfolding va_path_page_eq [OF eq assms(4)] make_stage2_entry_page [OF eq] by simp
  next
    case False
    then have "\<forall>i < n. va_path ipa lv k \<noteq> va_path (v + of_nat (i * 4096)) lv k"
      using page_range_path [OF ipa assms(8,5,4)] by blast
    then have "pwalk s2_fmt (pg_tb s') t (va_path ipa lv k) = pwalk s2_fmt (pg_tb s) t (va_path ipa lv k)"
      using s'(5) va_path_idx by blast
    then show ?thesis unfolding if_not_P [OF False] using S ipa by simp
  qed
  then show ?thesis using s'(1-3,6) S unfolding s2_view_def by blast
qed

lemma vttbr_root: "he_ok he \<Longrightarrow> j < 2 ^ 18 \<Longrightarrow> vir_to_phy he (PAGE_VIR (int j)) AND NOT 0xFFF = push_bit 12 (pool_frame he j)"
proof -
  assume a: "he_ok he" "j < 2 ^ 18"
  have j: "j < 2 ^ 19" using a(2) by simp
  have V: "unat (PAGE_VIRT_OFFSET + of_nat (j * 4096)) = 0xF000000000 + j * 4096"
    using of_nat_page(2) [of j] a(2) by (subst unat_add_lem [THEN iffD1]) (auto simp: PAGE_VIRT_OFFSET_unat simp del: of_nat_mult)
  then have "\<not> PAGE_VIRT_OFFSET + of_nat (j * 4096) < PAGE_VIRT_OFFSET" by (simp add: word_less_nat_alt PAGE_VIRT_OFFSET_unat)
  then have "vir_to_phy he (PAGE_VIR (int j)) = PAGE_PHY he (int j)"
    by (simp add: vir_to_phy_def PAGE_VIR_low [OF j] PAGE_PHY_low [OF j] del: of_nat_mult)
  moreover have "push_bit 12 x AND NOT 0xFFF = push_bit 12 x" for x :: u64
  proof -
    have "push_bit 12 x AND NOT (mask 12) = push_bit 12 x" by (rule bit_word_eqI) (auto simp: bit_simps)
    then show ?thesis by (simp add: mask_eq_exp_minus_1)
  qed
  ultimately show ?thesis using pool_address(1) [OF a] by simp
qed

definition guest_view :: "bool \<Rightarrow> u64 \<Rightarrow> u64 option" where
  "guest_view uart_enabled ipa =
     (let page = unat (drop_bit 12 ipa) in
      if \<not> uart_enabled \<and> page = 0x9000 then Some (make_stage2_entry ipa MEM_DEVICE_NC MEM_ACCESS_RWX)
      else if page \<in> {0x40000..<0x40a00} \<union> {0x50000} \<union> {0x50200..<0x90200} then Some (make_stage2_entry ipa MEM_NORMAL_RW MEM_ACCESS_RWX)
      else None)"

lemma needed_values:
  assumes "k = 2 \<or> k = 3"
  shows "tables_needed k 2560 + (tables_needed k 262144 + (tables_needed k 1 + (tables_needed k 1 + 0))) \<le> 539"
proof -
  have s: "{1..2::nat} = {1, 2}" "{1..3::nat} = {1, 2, 3}" by auto
  show ?thesis using assms unfolding tables_needed_def by (elim disjE) (simp_all only: s, simp_all)
qed

lemma s2_boot_maps:
  assumes "he_ok he" "arm_frame he (root_table info) = Some t" "lookup_level info = lv" "lv + k = 3" "lv \<le> 1"
    "s2_view he t lv k 539 (\<lambda>_. None) s"
  shows "\<exists>s2 s3 s4 s5. arm_stage2_map he info 0x40000000 0x40000000 (push_bit 20 10) MEM_NORMAL_RW MEM_ACCESS_RWX s = Some s2 \<and>
    arm_stage2_map he info 0x50200000 0x50200000 (push_bit 30 1) MEM_NORMAL_RW MEM_ACCESS_RWX s2 = Some s3 \<and>
    arm_stage2_map he info 0x50000000 0x50000000 4096 MEM_NORMAL_RW MEM_ACCESS_RWX s3 = Some s4 \<and>
    (if \<not> uart then arm_stage2_map he info 0x09000000 0x09000000 0x100 MEM_DEVICE_NC MEM_ACCESS_RWX s4 else Some s4) = Some s5 \<and>
    s2_view he t lv k 0 (guest_view uart) s5"
proof -
  have k: "k = 2 \<or> k = 3" using assms(4,5) by auto
  have n: "unat (round_pages (push_bit 20 10) div 4096) = 2560" "unat (round_pages (push_bit 30 1) div 4096) = 262144"
    "unat (round_pages 4096 div 4096) = 1" "unat (round_pages 0x100 div 4096) = 1" by (simp_all add: round_pages_def)
  note m = s2_view_map [OF assms(1-5)]
  have v0: "s2_view he t lv k (tables_needed k 2560 + (tables_needed k 262144 + (tables_needed k 1 + (tables_needed k 1 + 0)))) (\<lambda>_. None) s"
    using assms(6) room_mono [OF _ needed_values [OF k]] unfolding s2_view_def by blast
  obtain s2 v2 where s2: "arm_stage2_map he info 0x40000000 0x40000000 (push_bit 20 10) MEM_NORMAL_RW MEM_ACCESS_RWX s = Some s2"
    "s2_view he t lv k (tables_needed k 262144 + (tables_needed k 1 + (tables_needed k 1 + 0))) v2 s2"
    "v2 = (\<lambda>ipa. if unat (drop_bit 12 ipa) \<in> {0x40000..<0x40a00} then Some (make_stage2_entry ipa MEM_NORMAL_RW MEM_ACCESS_RWX) else None)"
    using m [OF v0 n(1), of "0x40000000" MEM_NORMAL_RW MEM_ACCESS_RWX] by auto
  obtain s3 v3 where s3: "arm_stage2_map he info 0x50200000 0x50200000 (push_bit 30 1) MEM_NORMAL_RW MEM_ACCESS_RWX s2 = Some s3"
    "s2_view he t lv k (tables_needed k 1 + (tables_needed k 1 + 0)) v3 s3"
    "v3 = (\<lambda>ipa. if unat (drop_bit 12 ipa) \<in> {0x50200..<0x90200} then Some (make_stage2_entry ipa MEM_NORMAL_RW MEM_ACCESS_RWX) else v2 ipa)"
    using m [OF s2(2) n(2), of "0x50200000" MEM_NORMAL_RW MEM_ACCESS_RWX] by auto
  obtain s4 v4 where s4: "arm_stage2_map he info 0x50000000 0x50000000 4096 MEM_NORMAL_RW MEM_ACCESS_RWX s3 = Some s4"
    "s2_view he t lv k (tables_needed k 1 + 0) v4 s4"
    "v4 = (\<lambda>ipa. if unat (drop_bit 12 ipa) \<in> {0x50000..<0x50001} then Some (make_stage2_entry ipa MEM_NORMAL_RW MEM_ACCESS_RWX) else v3 ipa)"
    using m [OF s3(2) n(3), of "0x50000000" MEM_NORMAL_RW MEM_ACCESS_RWX] by auto
  have v: "guest_view True = v4" by (rule ext) (auto simp: guest_view_def Let_def s2(3) s3(3) s4(3))
  show ?thesis
  proof (cases uart)
    case True
    have "s2_view he t lv k 0 v4 s4" using s4(2) room_mono unfolding s2_view_def by blast
    then show ?thesis using s2(1) s3(1) s4(1) True v by simp
  next
    case False
    obtain s5 v5 where s5: "arm_stage2_map he info 0x09000000 0x09000000 0x100 MEM_DEVICE_NC MEM_ACCESS_RWX s4 = Some s5"
      "s2_view he t lv k 0 v5 s5"
      "v5 = (\<lambda>ipa. if unat (drop_bit 12 ipa) \<in> {0x9000..<0x9001} then Some (make_stage2_entry ipa MEM_DEVICE_NC MEM_ACCESS_RWX) else v4 ipa)"
      using m [OF s4(2) n(4), of "0x09000000" MEM_DEVICE_NC MEM_ACCESS_RWX] by auto
    have "guest_view False = v5" by (rule ext) (auto simp: guest_view_def Let_def s2(3) s3(3) s4(3) s5(3))
    then show ?thesis using s2(1) s3(1) s4(1) s5(1,2) False by simp
  qed
qed


text \<open>An unused page pool.\<close>

definition empty_pool :: pgt where
  "empty_pool = \<lparr>pg_bm = replicate 16384 0, pg_tb = (\<lambda>_ _. 0)\<rparr>"

lemma empty_pool_room: "r \<le> 2 ^ 17 \<Longrightarrow> room (pg_bm empty_pool) r" "pages_ok (pg_bm empty_pool)"
proof -
  have "free_low (pg_bm empty_pool) = (\<lambda>i. 2 * i) ` {..<2 ^ 17}"
    by (auto simp: free_low_def empty_pool_def bm_test_def less_mult_imp_div_less elim!: evenE)
  then have "card (free_low (pg_bm empty_pool)) = 2 ^ 17" by (simp add: card_image inj_on_def)
  then show "r \<le> 2 ^ 17 \<Longrightarrow> room (pg_bm empty_pool) r" by (simp add: room_def)
  show "pages_ok (pg_bm empty_pool)" by (simp add: pages_ok_def empty_pool_def)
qed

definition sample_info :: stage2_mm_info where
  "sample_info = \<lparr>pa_size = 36, root_page_order = 0, lookup_level = 1, root_table = 0\<rparr>"

lemma sample_root:
  obtains j s where "s2_alloc_root_pages 0x40400000 sample_info empty_pool = Some (sample_info\<lparr>root_table := PAGE_VIR (int j)\<rparr>, s)"
    "arm_frame 0x40400000 (PAGE_VIR (int j)) = Some (pool_frame 0x40400000 j)"
    "tables_ok s2_fmt 0x40400000 2 (pool_frame 0x40400000 j) s" "room (pg_bm s) (tables_needed 2 2 + 0)"
    "\<forall>js. idx_path 2 js \<longrightarrow> \<not> blocked s2_fmt (pg_tb s) (pool_frame 0x40400000 j) js"
proof -
  have he: "he_ok 0x40400000" by (simp add: he_ok_def)
  have r: "room (pg_bm empty_pool) (Suc 4)" by (rule empty_pool_room) simp
  have m: "room bm 4 \<Longrightarrow> room bm (tables_needed 2 2 + 0)" for bm by (erule room_mono) (simp add: tables_needed_def)
  have o: "root_page_order sample_info = 0" by (simp add: sample_info_def)
  show thesis
  proof (rule s2_alloc_root [OF he empty_pool_room(2) r o, where k = 2], goal_cases)
    case (1 j s)
    then show ?case by (intro that [of j s] m) auto
  qed
qed

lemma sample_size: "unat (round_pages 0x2000 div 4096) = 2"
  by (simp add: round_pages_def)

theorem arm_s2_map_correct_witness:
  "\<exists>j s s' e. s2_alloc_root_pages 0x40400000 sample_info empty_pool = Some (sample_info\<lparr>root_table := PAGE_VIR (int j)\<rparr>, s) \<and>
     arm_stage2_map 0x40400000 (sample_info\<lparr>root_table := PAGE_VIR (int j)\<rparr>) 0x50200000 0x60000000 0x2000 MEM_DEVICE MEM_ACCESS_RW s = Some s' \<and>
     pwalk s2_fmt (pg_tb s') (pool_frame 0x40400000 j) (va_path 0x50201000 1 2) = Some e \<and> lpae_base e = 0x60001 \<and> \<not> s2_exec (decode_s2 e)"
proof -
  obtain j s where R: "s2_alloc_root_pages 0x40400000 sample_info empty_pool = Some (sample_info\<lparr>root_table := PAGE_VIR (int j)\<rparr>, s)"
    "arm_frame 0x40400000 (PAGE_VIR (int j)) = Some (pool_frame 0x40400000 j)"
    "tables_ok s2_fmt 0x40400000 2 (pool_frame 0x40400000 j) s" "room (pg_bm s) (tables_needed 2 2 + 0)"
    "\<forall>js. idx_path 2 js \<longrightarrow> \<not> blocked s2_fmt (pg_tb s) (pool_frame 0x40400000 j) js" by (rule sample_root)
  let ?i = "sample_info\<lparr>root_table := PAGE_VIR (int j)\<rparr>"
  have f: "arm_frame 0x40400000 (root_table ?i) = Some (pool_frame 0x40400000 j)" "lookup_level ?i = 1" "he_ok 0x40400000"
    using R(2) by (simp_all add: sample_info_def he_ok_def)
  have nz: "\<forall>i < 2. take_bit 36 (drop_bit 12 (0x60000000 + of_nat (i * 4096) :: u64)) \<noteq> 0" by (auto simp: less_2_cases_iff)
  have nb: "\<forall>i < 2. \<not> blocked s2_fmt (pg_tb s) (pool_frame 0x40400000 j) (va_path (0x50200000 + of_nat (i * 4096)) 1 2)"
    using R(5) va_path_idx by blast
  from arm_s2_map_correct [OF f(3,1,2) _ R(3) sample_size _ _ R(4) nb nz, of MEM_DEVICE MEM_ACCESS_RW]
  obtain s' where s': "arm_stage2_map 0x40400000 ?i 0x50200000 0x60000000 0x2000 MEM_DEVICE MEM_ACCESS_RW s = Some s'"
    "\<forall>i < 2. \<exists>e. pwalk s2_fmt (pg_tb s') (pool_frame 0x40400000 j) (va_path (0x50200000 + of_nat (i * 4096)) 1 2) = Some e \<and>
       lpae_base e = take_bit 36 (drop_bit 12 (0x60000000 + of_nat (i * 4096))) \<and> decode_s2 e = s2_spec MEM_DEVICE MEM_ACCESS_RW" by auto
  from s'(2) [rule_format, of 1] s'(1) R(1) show ?thesis by (auto simp: s2_spec_def)
qed



end
