(* ===== verification/Arm_Host_Map.thy ===== *)
theory Arm_Host_Map
  imports Arm_Mmu
begin

text \<open>
  Single pages of the hypervisor's own address space on AArch64: \<open>__ptw_map_4k_page\<close>, \<open>__ptw_unmap_4k_page\<close> and
  \<open>__walk_page_table\<close> of \<^verbatim>\<open>arch/aarch64/page_table.c\<close>.

  The map operation counts in the \<open>avail\<close> field of the first entry of each table how many entries it has added. The
  hardware ignores the field; the proofs compare tables up to it (\<open>core\<close>).
\<close>

section \<open>Model\<close>

abbreviation (input) "avail_get e \<equiv> take_bit 4 (drop_bit 55 e)"

text \<open>\<open>cur_tbl->pt.avail++\<close> on the first entry of a table; the field has four bits and wraps.\<close>

definition avail_incr :: "u64 \<Rightarrow> ptmem \<Rightarrow> ptmem" where
  "avail_incr f tb = put f 0 (set_field 55 4 (avail_get (tb f 0) + 1) (tb f 0)) tb"

definition s1_absent :: "u64 \<Rightarrow> bool" where
  "s1_absent e \<longleftrightarrow> \<not> lpae_valid e \<or> lpae_base e = 0"

definition s1_link_table :: "u64 \<Rightarrow> u64 \<Rightarrow> nat \<Rightarrow> u32 \<Rightarrow> pgt \<Rightarrow> pgt option" where
  "s1_link_table he f off attr s = do {
     (fn, bm') \<leftarrow> alloc_one_page (pg_bm s);
     (if fn < 0 then None
      else do {
        tb' \<leftarrow> (if PAGE_VIR fn = 0 then Some (pg_tb s)
                else arm_frame he (PAGE_VIR fn) \<bind> (\<lambda>g. Some (clear_table g (pg_tb s))));
        Some (s\<lparr>pg_bm := bm', pg_tb := put f off (make_stage1_entry (PAGE_PHY he fn) attr) tb'\<rparr>) }) }"

function ptw_map_4k_page :: "u64 \<Rightarrow> u64 \<Rightarrow> u64 \<Rightarrow> u64 \<Rightarrow> nat \<Rightarrow> u32 \<Rightarrow> pgt \<Rightarrow> pgt option" where
  "ptw_map_4k_page he vir_addr phy_addr cur_tbl level attr s =
     (if cur_tbl = 0 \<or> 3 < level then Some s
      else do {
        f \<leftarrow> arm_frame he cur_tbl;
        let off = lpae_index vir_addr level;
        let next_pte = pg_tb s f off;
        (if level = 3 \<and> (lpae_valid next_pte \<or> lpae_base next_pte \<noteq> 0) then None
         else do {
           s1 \<leftarrow> (if s1_absent next_pte
                  then do {
                    s' \<leftarrow> (if level \<noteq> 3 then s1_link_table he f off attr s
                           else Some (s\<lparr>pg_tb := put f off (make_stage1_entry phy_addr attr) (pg_tb s)\<rparr>));
                    Some (s'\<lparr>pg_tb := avail_incr f (pg_tb s')\<rparr>) }
                  else Some s);
           (if level = 3 then Some (s1\<lparr>pg_tb := put f off (set_field 55 4 1 (pg_tb s1 f off)) (pg_tb s1)\<rparr>)
            else ptw_map_4k_page he vir_addr phy_addr (phy_to_vir he (push_bit 12 (lpae_base (pg_tb s1 f off)))) (Suc level) attr s1) }) })"
  by pat_completeness auto
termination
  by (relation "measure (\<lambda>(he, va, pa, p, level, attr, s). 4 - level)") auto

function ptw_unmap_4k_page :: "u64 \<Rightarrow> u64 \<Rightarrow> u64 \<Rightarrow> nat \<Rightarrow> pgt \<Rightarrow> pgt option" where
  "ptw_unmap_4k_page he vir_addr pre_tbl level s =
     (if pre_tbl = 0 \<or> 3 < level then Some s
      else do {
        f \<leftarrow> arm_frame he pre_tbl;
        let off = lpae_index vir_addr level;
        let cur_pte = pg_tb s f off;
        (if \<not> lpae_valid cur_pte \<or> lpae_base cur_pte = 0 then None
         else if level = 3 then Some (s\<lparr>pg_tb := put f off 0 (pg_tb s)\<rparr>)
         else do {
           let next_tbl_phy = push_bit 12 (lpae_base cur_pte);
           let next_tbl_vir = phy_to_vir he next_tbl_phy;
           s1 \<leftarrow> ptw_unmap_4k_page he vir_addr next_tbl_vir (Suc level) s;
           g \<leftarrow> arm_frame he next_tbl_vir;
           (if lpae_all_invalid (pg_tb s1) g
            then do {
              bm' \<leftarrow> free_one_page (pg_bm s1) (PHY_TO_FN he next_tbl_phy);
              Some (s1\<lparr>pg_bm := bm', pg_tb := put f off 0 (pg_tb s1)\<rparr>) }
            else Some s1) }) })"
  by pat_completeness auto
termination
  by (relation "measure (\<lambda>(he, va, p, level, s). 4 - level)") auto

function walk_page_table :: "u64 \<Rightarrow> ptmem \<Rightarrow> u64 \<Rightarrow> u64 \<Rightarrow> nat \<Rightarrow> u64 option" where
  "walk_page_table he tb cur_tbl addr level =
     (if cur_tbl = 0 \<or> 3 < level then Some 0
      else do {
        f \<leftarrow> arm_frame he cur_tbl;
        let next_pte = tb f (lpae_index addr level);
        let next_tbl_phy = push_bit 12 (lpae_base next_pte);
        (if \<not> lpae_valid next_pte then Some 0
         else if level = 3 \<or> \<not> lpae_table next_pte then Some next_tbl_phy
         else walk_page_table he tb (phy_to_vir he next_tbl_phy) addr (Suc level)) })"
  by pat_completeness auto
termination
  by (relation "measure (\<lambda>(he, tb, p, addr, level). 4 - level)") auto

definition arm_host_map_one_page :: "u64 \<Rightarrow> u64 \<Rightarrow> u64 \<Rightarrow> u64 \<Rightarrow> u32 \<Rightarrow> pgt \<Rightarrow> pgt option" where
  "arm_host_map_one_page he boot_pgtable vir phy attr s = ptw_map_4k_page he vir phy boot_pgtable 0 attr s"

definition arm_host_unmap_one_page :: "u64 \<Rightarrow> u64 \<Rightarrow> u64 \<Rightarrow> pgt \<Rightarrow> pgt option" where
  "arm_host_unmap_one_page he boot_pgtable vir s = ptw_unmap_4k_page he vir boot_pgtable 0 s"

section \<open>Tables up to the counter\<close>

declare ptw_map_4k_page.simps [simp del] ptw_unmap_4k_page.simps [simp del] walk_page_table.simps [simp del]

definition core :: "u64 \<Rightarrow> u64" where
  "core e = set_field 55 4 0 e"

definition core_eq :: "ptmem \<Rightarrow> ptmem \<Rightarrow> bool" where
  "core_eq tb tb' \<longleftrightarrow> (\<forall>f i. core (tb f i) = core (tb' f i))"

lemma bit_core: "bit (core e) i \<longleftrightarrow> \<not> (55 \<le> i \<and> i < 59) \<and> bit e i"
  by (simp add: core_def)

lemma core_fields [simp]: "lpae_valid (core e) = lpae_valid e" "lpae_table (core e) = lpae_table e" "lpae_base (core e) = lpae_base e"
proof -
  show "lpae_valid (core e) = lpae_valid e" "lpae_table (core e) = lpae_table e" by (simp_all add: lpae_valid_def lpae_table_def bit_core)
  show "lpae_base (core e) = lpae_base e" by (rule bit_word_eqI) (auto simp: lpae_base_def bit_simps bit_core)
qed

lemma core_fields_eq:
  assumes "core e = core e'"
  shows "lpae_valid e = lpae_valid e'" "lpae_table e = lpae_table e'" "lpae_base e = lpae_base e'" "s2_pte_is_valid e = s2_pte_is_valid e'"
    "is_tab s2_fmt e = is_tab s2_fmt e'"
  using assms core_fields [of e] core_fields [of e'] by (simp_all add: is_tab_def s2_pte_is_valid_def)

lemma core_set_avail [simp]: "core (set_field 55 4 v e) = core e"
  by (rule bit_word_eqI) (auto simp: bit_core)

lemma core_eq_intros [intro]:
  "core_eq tb tb" "core_eq tb tb' \<Longrightarrow> core e = core e' \<Longrightarrow> core_eq (put f i e tb) (put f i e' tb')"
  "core_eq tb tb' \<Longrightarrow> core_eq (clear_table f tb) (clear_table f tb')" "core_eq tb tb' \<Longrightarrow> core_eq (avail_incr f tb) tb'"
  by (auto simp: core_eq_def put_def clear_table_def avail_incr_def)

lemma core_eq_entry: "core_eq tb tb' \<Longrightarrow> core (tb f i) = core (tb' f i)"
  by (simp add: core_eq_def)

lemma core_eq_tframes: "core_eq tb tb' \<Longrightarrow> tframes s2_fmt tb n t = tframes s2_fmt tb' n t"
  by (induction n arbitrary: t) (simp_all add: core_fields_eq [OF core_eq_entry])

lemma core_eq_twf: "core_eq tb tb' \<Longrightarrow> twf s2_fmt tb n t = twf s2_fmt tb' n t"
proof (induction n arbitrary: t)
  case (Suc n)
  then show ?case by (simp add: core_fields_eq [OF core_eq_entry [OF Suc.prems]] core_eq_tframes [OF Suc.prems])
qed simp

lemma core_eq_pwalk: "core_eq tb tb' \<Longrightarrow> map_option core (pwalk s2_fmt tb t is) = map_option core (pwalk s2_fmt tb' t is)"
proof (induction "is" arbitrary: t rule: induct_list012)
  case (2 i)
  then show ?case using core_eq_entry [OF 2, of t i] core_fields_eq(4) [OF core_eq_entry [OF 2, of t i]] by simp
next
  case (3 i j "is")
  then show ?case using core_fields_eq [OF core_eq_entry [OF 3(3), of t i]] by simp
qed simp

section \<open>Static tables of the image\<close>

definition image_frames :: "u64 \<Rightarrow> u64 set" where
  "image_frames he = {f. 0x40080 \<le> unat f \<and> unat f * 4096 < unat ((he + 4095) AND NOT 4095)}"

lemma image_end:
  assumes "he_ok he"
  shows "unat ((he + 4095) AND NOT 4095) < unat (PAGE_PHYS_OFFSET he)"
proof -
  have he: "unat he < 2 ^ 39" using assms by (simp add: he_ok_def word_less_nat_alt)
  have u: "unat (he + 4095) = unat he + 4095" using he by (subst unat_add_lem [THEN iffD1]) auto
  have "unat ((he + 4095) AND NOT 4095) \<le> unat he + 4095" unfolding u [symmetric] by (simp add: word_le_nat_alt [symmetric] word_and_le2)
  moreover have "unat he + 0x2fffff < unat (PAGE_PHYS_OFFSET he) + 2 ^ 21"
  proof -
    define x where "x = he + 0x2fffff"
    have x: "unat x = unat he + 0x2fffff" unfolding x_def using he by (subst unat_add_lem [THEN iffD1]) auto
    have "PAGE_PHYS_OFFSET he = x AND NOT (mask 21)" by (simp add: PAGE_PHYS_OFFSET_def x_def mask_eq_exp_minus_1 ac_simps)
    also have "\<dots> = push_bit 21 (drop_bit 21 x)" by (rule bit_word_eqI) (auto simp: bit_simps)
    finally have "unat (PAGE_PHYS_OFFSET he) = 2 ^ 21 * (unat x div 2 ^ 21)"
      using x he by (simp add: unat_push_bit_small unat_drop_bit_div)
    moreover have "unat x = 2 ^ 21 * (unat x div 2 ^ 21) + unat x mod 2 ^ 21" by (rule mult_div_mod_eq [symmetric])
    moreover have "unat x mod 2 ^ 21 < 2 ^ 21" by simp
    ultimately show ?thesis using x by linarith
  qed
  ultimately show ?thesis by simp
qed

lemma image_not_pool:
  assumes "he_ok he"
  shows "image_frames he \<inter> pool_frame he ` {..<2 ^ 20} = {}"
proof -
  have "unat f * 4096 < unat (PAGE_PHYS_OFFSET he)" if "f \<in> image_frames he" for f
    using that image_end [OF assms] by (simp add: image_frames_def)
  moreover have "unat (PAGE_PHYS_OFFSET he) \<le> unat (pool_frame he j) * 4096" if "j < 2 ^ 20" for j
    using unat_pool_frame [OF assms that] pool_base(3) [OF assms] by simp
  ultimately show ?thesis by fastforce
qed

lemma image_pointer:
  assumes "he_ok he" "f \<in> image_frames he"
  shows "phy_to_vir he (push_bit 12 f) = push_bit 12 f" "arm_frame he (push_bit 12 f) = Some f" "lpae_base (push_bit 12 f) = f"
proof -
  have b: "0x40080 \<le> unat f" "unat f * 4096 < unat ((he + 4095) AND NOT 4095)" using assms(2) by (simp_all add: image_frames_def)
  have "unat (PAGE_PHYS_OFFSET he) < 2 ^ 41" by (rule pool_base(1) [OF assms(1)])
  then have f: "unat f * 4096 < 2 ^ 41" using b(2) image_end [OF assms(1)] by simp
  then have u: "unat (push_bit 12 f) = unat f * 4096" by (subst unat_push_bit_small) auto
  show "phy_to_vir he (push_bit 12 f) = push_bit 12 f"
    using b(2) image_end [OF assms(1)] u by (simp add: phy_to_vir_def word_less_nat_alt)
  have d: "drop_bit 12 (push_bit 12 f) = f" using u by (simp add: word_unat_eq_iff unat_drop_bit_div)
  then show "arm_frame he (push_bit 12 f) = Some f" using b u by (simp add: arm_frame_def dm_frame_def word_le_nat_alt word_less_nat_alt)
  have "unat f < 2 ^ 36" using f by simp
  then show "lpae_base (push_bit 12 f) = f"
    unfolding lpae_base_def d by (simp add: word_unat_eq_iff unsigned_take_bit_eq take_bit_nat_eq_self)
qed

section \<open>Mapping enters a path\<close>

text \<open>One level of the descent, without the counter.\<close>

definition s1_next :: "u32 \<Rightarrow> u64 \<Rightarrow> u64 \<Rightarrow> nat \<Rightarrow> nat \<Rightarrow> pgt \<Rightarrow> (u64 \<times> pgt) option" where
  "s1_next attr he p level i s = do {
     f \<leftarrow> arm_frame he p;
     s1 \<leftarrow> (if s2_pte_is_valid (pg_tb s f i) then Some s else s1_link_table he f i attr s);
     Some (phy_to_vir he (push_bit 12 (lpae_base (pg_tb s1 f i))), s1) }"

interpretation s1w: table_walker s2_fmt arm_frame "s1_next attr" image_frames for attr
proof (unfold_locales, goal_cases)
  case (1 he)
  then show ?case by (rule image_not_pool)
next
  case (2 he p f level s i)
  have "arm_frame he (phy_to_vir he (push_bit 12 (lpae_base (pg_tb s f i)))) = Some (lpae_base (pg_tb s f i))"
    using 2(5) arm_frame_low [OF 2(1)] image_pointer [OF 2(1)] by auto
  then show ?case using 2(2,4) by (auto simp: s1_next_def is_tab_def)
next
  case (3 he p f level s i k t)
  obtain j bm' where j: "alloc_pages_cnt (pg_bm s) 1 = Some (int j, bm')" "j < 2 ^ 18" "pages_ok bm'" "room bm' k"
    "pool_frame he j \<notin> frames_of he (pg_bm s)" "frames_of he bm' = insert (pool_frame he j) (frames_of he (pg_bm s))"
    using alloc_table [OF 3(5,6,1)] by blast
  let ?m = "make_stage1_entry (PAGE_PHY he (int j)) attr" and ?g = "pool_frame he j"
  have b: "lpae_base ?m = ?g" using j(2) by (simp add: pool_address(2) [OF 3(1)] pool_frame_36 [OF 3(1)])
  have m: "is_tab s2_fmt ?m" unfolding is_tab_def s2_fmt_simps s2_pte_is_valid_def b
    using pool_frame_bounds(2) [OF 3(1), of j] j(2) by simp
  have "f \<noteq> ?g" using fresh_not_in_use [OF 3(8) image_not_pool [OF 3(1)] j(2,5)] 3(7) by blast
  moreover have "s1_link_table he f i attr s = Some \<lparr>pg_bm = bm', pg_tb = put f i ?m (clear_table ?g (pg_tb s))\<rparr>"
    using j(1) arm_frame_pool [OF 3(1) j(2)] PAGE_VIR_not_0 [OF 3(1) j(2)] by (simp add: s1_link_table_def alloc_one_page_def)
  ultimately have "s1_next attr he p level i s =
      Some (phy_to_vir he (push_bit 12 ?g), \<lparr>pg_bm = bm', pg_tb = put f i ?m (clear_table ?g (pg_tb s))\<rparr>)"
    using 3(2-4) b by (simp add: s1_next_def)
  moreover have "arm_frame he (phy_to_vir he (push_bit 12 ?g)) = Some ?g"
    using j(2) by (intro arm_frame_low [OF 3(1)]) (simp add: low_frames_def)
  ultimately show ?case using m b j(2-6) by (auto intro!: exI [of _ j] exI [of _ bm'])
qed

lemma core_make_stage1: "core (make_stage1_entry pa a) = make_stage1_entry pa a"
  by (rule bit_word_eqI) (auto simp: bit_core make_stage1_entry_def lpae_set_mfn_def Let_def)

text \<open>The code does what the descent does, up to the counters.\<close>

lemma ptw_map_sim:
  "descend (s1_next attr he) va k level p s2 = Some (q, s3) \<Longrightarrow> arm_frame he q = Some g \<Longrightarrow>
   \<not> lpae_valid (pg_tb s3 g (va_index va 3)) \<Longrightarrow> lpae_base (pg_tb s3 g (va_index va 3)) = 0 \<Longrightarrow>
   level + k = 3 \<Longrightarrow> core_eq (pg_tb s) (pg_tb s2) \<Longrightarrow> pg_bm s = pg_bm s2 \<Longrightarrow>
   \<exists>s'. ptw_map_4k_page he va pa p level attr s = Some s' \<and> pg_bm s' = pg_bm s3 \<and>
     core_eq (pg_tb s') (put g (va_index va 3) (make_stage1_entry pa attr) (pg_tb s3))"
proof (induction k arbitrary: level p s s2)
  case 0
  note e = core_fields_eq [OF core_eq_entry [OF 0(6), of g "va_index va 3"]]
  have p: "p = q" "s2 = s3" "p \<noteq> 0" "level = 3" using 0 by (auto simp: arm_frame_0)
  have a: "s1_absent (pg_tb s g (va_index va 3))" "\<not> lpae_valid (pg_tb s g (va_index va 3))" "lpae_base (pg_tb s g (va_index va 3)) = 0"
    using 0(3,4) e p by (simp_all add: s1_absent_def)
  let ?tb = "avail_incr g (put g (va_index va 3) (make_stage1_entry pa attr) (pg_tb s))"
  have "core_eq ?tb (put g (va_index va 3) (make_stage1_entry pa attr) (pg_tb s3))" using 0(6) p by blast
  then have "core_eq (put g (va_index va 3) (set_field 55 4 1 (?tb g (va_index va 3))) ?tb)
      (put g (va_index va 3) (make_stage1_entry pa attr) (pg_tb s3))"
    by (auto simp: core_eq_def put_def)
  then show ?case using p a 0(2,7) by (subst ptw_map_4k_page.simps) (simp add: lpae_index_va_index Let_def)
next
  case (Suc k)
  from Suc.prems(1) obtain p' s4 where d: "s1_next attr he p level (va_index va level) s2 = Some (p', s4)"
    "descend (s1_next attr he) va k (Suc level) p' s4 = Some (q, s3)" by (auto split: Option.bind_splits)
  from d(1) obtain f where f: "arm_frame he p = Some f" by (auto simp: s1_next_def split: Option.bind_splits)
  have p: "p \<noteq> 0" "level < 3" "Suc level + k = 3" using f Suc.prems(5) by (auto simp: arm_frame_0)
  let ?i = "va_index va level"
  note e = core_fields_eq [OF core_eq_entry [OF Suc.prems(6), of f ?i]]
  obtain s1 where s1: "(if s1_absent (pg_tb s f ?i) then do { s' \<leftarrow> s1_link_table he f ?i attr s;
      Some (s'\<lparr>pg_tb := avail_incr f (pg_tb s')\<rparr>) } else Some s) = Some s1" "core_eq (pg_tb s1) (pg_tb s4)" "pg_bm s1 = pg_bm s4"
  proof (cases "s2_pte_is_valid (pg_tb s2 f ?i)")
    case True
    then have "\<not> s1_absent (pg_tb s f ?i)" "s4 = s2" using e d(1) f by (auto simp: s1_absent_def s2_pte_is_valid_def s1_next_def)
    then show ?thesis using that [of s] Suc.prems(6,7) by simp
  next
    case False
    then have a: "s1_absent (pg_tb s f ?i)" and l: "s1_link_table he f ?i attr s2 = Some s4"
      using e d(1) f by (auto simp: s1_absent_def s2_pte_is_valid_def s1_next_def split: Option.bind_splits)
    from l obtain fn bm' tb' where b: "alloc_one_page (pg_bm s2) = Some (fn, bm')" "\<not> fn < 0"
      "(if PAGE_VIR fn = 0 then Some (pg_tb s2) else arm_frame he (PAGE_VIR fn) \<bind> (\<lambda>g. Some (clear_table g (pg_tb s2)))) = Some tb'"
      "s4 = s2\<lparr>pg_bm := bm', pg_tb := put f ?i (make_stage1_entry (PAGE_PHY he fn) attr) tb'\<rparr>"
      by (auto simp: s1_link_table_def split: Option.bind_splits if_splits)
    obtain tb where t: "(if PAGE_VIR fn = 0 then Some (pg_tb s) else arm_frame he (PAGE_VIR fn) \<bind> (\<lambda>g. Some (clear_table g (pg_tb s)))) = Some tb"
      "core_eq tb tb'"
      using b(3) Suc.prems(6) by (auto split: if_splits Option.bind_splits)
    let ?s = "s\<lparr>pg_bm := bm', pg_tb := put f ?i (make_stage1_entry (PAGE_PHY he fn) attr) tb\<rparr>"
    have "s1_link_table he f ?i attr s = Some ?s" using b(1,2) t(1) Suc.prems(7) by (simp add: s1_link_table_def)
    then show ?thesis using that [of "?s\<lparr>pg_tb := avail_incr f (pg_tb ?s)\<rparr>"] a b(4) t(2) by (simp add: core_eq_intros)
  qed
  have p': "p' = phy_to_vir he (push_bit 12 (lpae_base (pg_tb s1 f ?i)))"
    using d(1) f core_fields_eq(3) [OF core_eq_entry [OF s1(2), of f ?i]] by (auto simp: s1_next_def split: Option.bind_splits if_splits)
  obtain s' where s': "ptw_map_4k_page he va pa p' (Suc level) attr s1 = Some s'" "pg_bm s' = pg_bm s3"
    "core_eq (pg_tb s') (put g (va_index va 3) (make_stage1_entry pa attr) (pg_tb s3))"
    using Suc.IH [OF d(2) Suc.prems(2-4) p(3) s1(2,3)] by blast
  have "ptw_map_4k_page he va pa p level attr s = Some s'"
    using p f s1(1) s'(1) p' by (subst ptw_map_4k_page.simps) (auto simp: lpae_index_va_index Let_def split: if_splits Option.bind_splits)
  then show ?case using s'(2,3) by blast
qed

lemma core_eq_tables_in:
  "core_eq (pg_tb s) (pg_tb s') \<Longrightarrow> pg_bm s = pg_bm s' \<Longrightarrow> tables_in X s2_fmt he k t s = tables_in X s2_fmt he k t s'"
  by (simp add: tables_in_def core_eq_tframes [of "pg_tb s" "pg_tb s'"] core_eq_twf [of "pg_tb s" "pg_tb s'"])

section \<open>Walking\<close>

lemma walk_page_table_pwalk:
  "he_ok he \<Longrightarrow> arm_frame he p = Some f \<Longrightarrow> level + k = 3 \<Longrightarrow> twf s2_fmt tb k f \<Longrightarrow>
   tframes s2_fmt tb k f - {f} \<subseteq> low_frames he \<union> image_frames he \<Longrightarrow> pwalk s2_fmt tb f (va_path va level k) = Some e \<Longrightarrow>
   walk_page_table he tb p va level = Some (push_bit 12 (lpae_base e))"
proof (induction k arbitrary: level p f)
  case 0
  then have "p \<noteq> 0" using arm_frame_0 [of he] by auto
  then show ?case using 0
    by (subst walk_page_table.simps) (auto simp: va_path_simps lpae_index_va_index Let_def s2_pte_is_valid_def split: if_splits)
next
  case (Suc k)
  let ?e = "tb f (va_index va level)"
  have p: "p \<noteq> 0" using Suc.prems(2) arm_frame_0 [of he] by auto
  obtain j js where path: "va_path va (Suc level) k = j # js" using va_path_Cons by blast
  have tab: "is_tab s2_fmt ?e" and w: "pwalk s2_fmt tb (lpae_base ?e) (va_path va (Suc level) k) = Some e"
    using Suc.prems(6) by (auto simp: va_path_simps path split: if_splits)
  have c: "twf s2_fmt tb k (lpae_base ?e)" "f \<notin> tframes s2_fmt tb k (lpae_base ?e)"
    "tframes s2_fmt tb k (lpae_base ?e) \<subseteq> tframes s2_fmt tb (Suc k) f"
    using Suc.prems(4) tab va_index_less [of va level] by auto
  then have "tframes s2_fmt tb k (lpae_base ?e) \<subseteq> tframes s2_fmt tb (Suc k) f - {f}" by blast
  then have low: "tframes s2_fmt tb k (lpae_base ?e) \<subseteq> low_frames he \<union> image_frames he" using Suc.prems(5) by (rule subset_trans)
  then have "lpae_base ?e \<in> low_frames he \<union> image_frames he" using root_in_tframes by blast
  then have q: "arm_frame he (phy_to_vir he (push_bit 12 (lpae_base ?e))) = Some (lpae_base ?e)"
    using arm_frame_low [OF Suc.prems(1)] image_pointer [OF Suc.prems(1)] by auto
  have "tframes s2_fmt tb k (lpae_base ?e) - {lpae_base ?e} \<subseteq> low_frames he \<union> image_frames he" "Suc level + k = 3"
    using low Suc.prems(3) by auto
  from Suc.IH [OF Suc.prems(1) q this(2) c(1) this(1) w] show ?case using p Suc.prems(2,3) tab
    by (subst walk_page_table.simps) (simp add: lpae_index_va_index Let_def is_tab_def s2_pte_is_valid_def)
qed

text \<open>Unmapping a page is the same operation as in second-stage tables.\<close>

lemma ptw_unmap_eq: "ptw_unmap_4k_page he va p level s = stage2_unmap_page he p level va s"
proof (induction he va p level s rule: ptw_unmap_4k_page.induct)
  case (1 he va p level s)
  show ?case
    by (subst ptw_unmap_4k_page.simps, subst stage2_unmap_page.simps) (auto simp: 1 Let_def cong: Option.bind_cong if_cong)
qed

section \<open>Property\<close>

text \<open>
  C39. Mapping one page into the hypervisor's address space, with static tables of the image among the tables: given
  three free pages, no block in the way and a free entry, the call returns; afterwards the tables are well formed,
  the code's own walk of the address returns the physical page, the entry is the one asked for (up to the counter that
  the hardware ignores), and every other page is translated as before.
\<close>

theorem arm_host_map_correct:
  assumes "he_ok he" "arm_frame he root = Some t" "tables_in (image_frames he) s2_fmt he 3 t s" "room (pg_bm s) 3"
    "\<not> blocked s2_fmt (pg_tb s) t (va_path va 0 3)" "last_entry s2_fmt (pg_tb s) t (va_path va 0 3) = e0" "\<not> lpae_valid e0" "lpae_base e0 = 0"
    "take_bit 36 (drop_bit 12 pa) \<noteq> 0"
  shows "\<exists>s' e. arm_host_map_one_page he root va pa attr s = Some s' \<and> tables_in (image_frames he) s2_fmt he 3 t s' \<and>
    walk_page_table he (pg_tb s') root va 0 = Some (push_bit 12 (take_bit 36 (drop_bit 12 pa))) \<and>
    pwalk s2_fmt (pg_tb s') t (va_path va 0 3) = Some e \<and> core e = make_stage1_entry pa attr \<and>
    (\<forall>js. idx_path 3 js \<and> js \<noteq> va_path va 0 3 \<longrightarrow>
       map_option core (pwalk s2_fmt (pg_tb s') t js) = map_option core (pwalk s2_fmt (pg_tb s) t js))"
proof -
  have need: "room (pg_bm s) (need s2_fmt (pg_tb s) t (va_path va 0 3) + 0)"
    using need_less [of s2_fmt "pg_tb s" t "va_path va 0 3"] by (intro room_mono [OF assms(4)]) (simp add: va_path_def)
  have l: "0 + 3 \<le> (3::nat)" by simp
  obtain s1 where s1: "map_one (arm_frame he) (s1_next attr he) 0 3 root va (make_stage1_entry pa attr) s = Some s1"
    "tables_in (image_frames he) s2_fmt he 3 t s1"
    "mapped s2_fmt 3 (in_use (image_frames he) t he (pg_bm s)) (pg_tb s) t (va_path va 0 3) (make_stage1_entry pa attr) (pg_tb s1)
       (in_use (image_frames he) t he (pg_bm s1))"
    using s1w.map_one_correct [OF assms(1-3) l need assms(5)] by blast
  obtain q s3 g where d: "descend (s1_next attr he) va 3 0 root s = Some (q, s3)" "arm_frame he q = Some g"
    "pg_tb s3 g (va_index va 3) = e0"
    using s1w.descend_entry [OF assms(1-3) l _ assms(5), of attr] need assms(6) by (simp only: add_0_right add_0) blast
  have m: "s1 = s3\<lparr>pg_tb := put g (va_index va 3) (make_stage1_entry pa attr) (pg_tb s3)\<rparr>" using s1(1) d(1,2) by (simp add: map_one_def)
  obtain s' where s': "ptw_map_4k_page he va pa root 0 attr s = Some s'" "pg_bm s' = pg_bm s1" "core_eq (pg_tb s') (pg_tb s1)"
    using ptw_map_sim [OF d(1,2), of s pa] assms(7,8) d(3) by (auto simp: m)
  have ok: "tables_in (image_frames he) s2_fmt he 3 t s'" using s1(2) core_eq_tables_in [OF s'(3,2)] by simp
  have w: "pwalk s2_fmt (pg_tb s1) t js =
      (if js = va_path va 0 3 then Some (make_stage1_entry pa attr) else pwalk s2_fmt (pg_tb s) t js)" if "idx_path 3 js" for js
    using s1(3) that assms(9) by (simp add: mapped_def s2_pte_is_valid_def)
  note c = core_eq_pwalk [OF s'(3), of t]
  obtain e where e: "pwalk s2_fmt (pg_tb s') t (va_path va 0 3) = Some e" "core e = make_stage1_entry pa attr"
    using c [of "va_path va 0 3"] w [OF va_path_idx] by (auto simp: core_make_stage1)
  have "lpae_base e = take_bit 36 (drop_bit 12 pa)" using e(2) core_fields(3) [of e] by simp
  then have "walk_page_table he (pg_tb s') root va 0 = Some (push_bit 12 (take_bit 36 (drop_bit 12 pa)))"
    using walk_page_table_pwalk [OF assms(1,2) _ _ _ e(1)] ok by (simp add: tables_in_def)
  then show ?thesis using s'(1) ok e c w by (simp add: arm_host_map_one_page_def)
qed

text \<open>Tables as the boot code leaves them: entry 1 of the root leads to a static table.\<close>

definition boot_tables :: pgt where
  "boot_tables = empty_pool\<lparr>pg_tb := put 0x40100 1 (make_stage1_entry 0x40101000 7) (\<lambda>_ _. 0)\<rparr>"

lemma boot_tables_ok:
  "he_ok 0x40400000" "arm_frame 0x40400000 0x40100000 = Some 0x40100" "tables_in (image_frames 0x40400000) s2_fmt 0x40400000 3 0x40100 boot_tables"
  "room (pg_bm boot_tables) 3" "\<not> blocked s2_fmt (pg_tb boot_tables) 0x40100 (va_path 0xE100000000 0 3)"
  "last_entry s2_fmt (pg_tb boot_tables) 0x40100 (va_path 0xE100000000 0 3) = 0"
proof -
  show he: "he_ok 0x40400000" by (simp add: he_ok_def)
  show "arm_frame 0x40400000 0x40100000 = Some 0x40100" by (simp add: arm_frame_def dm_frame_def)
  let ?tb = "pg_tb boot_tables" and ?e = "make_stage1_entry 0x40101000 7"
  have z: "\<not> is_tab s2_fmt 0" by (rule s2t.zero_not_tab)
  have e: "is_tab s2_fmt ?e" "lpae_base ?e = 0x40101" by (simp_all add: is_tab_def s2_pte_is_valid_def)
  have tb: "?tb 0x40100 i = (if i = 1 then ?e else 0)" "?tb 0x40101 i = 0" for i by (simp_all add: boot_tables_def put_def)
  have emp: "\<And>i. \<not> pf_valid s2_fmt (?tb 0x40101 i)" using s2t.zero_invalid by (simp add: tb)
  have sub: "tframes s2_fmt ?tb 2 0x40101 = {0x40101}" "twf s2_fmt ?tb 2 0x40101"
    using s2t.empty_table [of ?tb "0x40101" 2] emp by blast+
  have fr: "tframes s2_fmt ?tb 3 0x40100 = {0x40100, 0x40101}"
    using sub(1) e z by (auto simp: numeral_3_eq_3 tb split: if_splits)
  have wf: "twf s2_fmt ?tb 3 0x40100"
    using sub e z by (auto simp: numeral_3_eq_3 tb split: if_splits)
  have im: "{0x40100, 0x40101} \<subseteq> image_frames 0x40400000" by (simp add: image_frames_def)
  have "root_ok 0x40100 0x40400000 (pg_bm boot_tables)"
    using im image_not_pool [OF he] by (auto simp: root_ok_def)
  then show "tables_in (image_frames 0x40400000) s2_fmt 0x40400000 3 0x40100 boot_tables"
    using fr wf im empty_pool_room(2) by (auto simp: tables_in_def in_use_def boot_tables_def)
  show "room (pg_bm boot_tables) 3" using empty_pool_room(1) [of 3] by (simp add: boot_tables_def)
  have path: "va_path 0xE100000000 0 3 = [1, 388, 0, 0]" by (simp add: va_path_def va_index_def upt_rec)
  show "\<not> blocked s2_fmt ?tb 0x40100 (va_path 0xE100000000 0 3)" "last_entry s2_fmt ?tb 0x40100 (va_path 0xE100000000 0 3) = 0"
    using e z s2t.zero_invalid by (simp_all add: path tb)
qed

theorem arm_host_map_correct_witness:
  "\<exists>s'. arm_host_map_one_page 0x40400000 0x40100000 0xE100000000 0x09000000 7 boot_tables = Some s' \<and>
     walk_page_table 0x40400000 (pg_tb s') 0x40100000 0xE100000000 0 = Some 0x09000000"
proof -
  have z: "\<not> lpae_valid 0" "lpae_base 0 = 0" by (simp_all add: lpae_valid_def lpae_base_def)
  have "take_bit 36 (drop_bit 12 (0x09000000 :: u64)) \<noteq> 0" by simp
  from arm_host_map_correct [OF boot_tables_ok z this, of 7] show ?thesis by auto
qed

end
