(* ===== verification/Arm_Boot_Map.thy ===== *)
theory Arm_Boot_Map
  imports Arm_Host_Map
begin

text \<open>
  The hypervisor's own address space on AArch64 as the boot code builds it in static tables: the builders of
  \<^verbatim>\<open>arch/aarch64/page_table.c\<close> and the mappings of \<^verbatim>\<open>arch/aarch64/mm.c\<close> (\<open>init_mm\<close>, \<open>fix_map\<close>, \<open>init_direct_mapping\<close>).

  A static table is given by its page frame (record \<open>boot_frames\<close>; the linker places them). The builders fill
  consecutive entries through a pointer that may run on into the next page of a table array, as \<open>put_at\<close> does. The
  loops are \<open>do\<close> loops over 64-bit addresses; \<open>None\<close> stands for a loop that does not end.
\<close>

section \<open>Model\<close>

record boot_frames =
  bf_pgtable :: u64
  bf_first :: u64
  bf_second :: u64
  bf_third :: u64
  bf_fix :: u64
  bf_direct_L1 :: u64
  bf_direct_L2 :: u64

definition put_at :: "u64 \<Rightarrow> nat \<Rightarrow> u64 \<Rightarrow> ptmem \<Rightarrow> ptmem" where
  "put_at f n e tb = put (f + of_nat (n div 512)) (n mod 512) e tb"

definition build_s2_table :: "u64 \<Rightarrow> u64 \<Rightarrow> u64 \<Rightarrow> u64 \<Rightarrow> nat \<Rightarrow> u32 \<Rightarrow> ptmem \<Rightarrow> ptmem" where
  "build_s2_table he cur_table next_table virt level attr tb =
     put_at cur_table (lpae_index virt level) (make_stage2_entry (vir_to_phy he next_table) attr MEM_ACCESS_RWX) tb"

definition build_hyper_table :: "u64 \<Rightarrow> u64 \<Rightarrow> u64 \<Rightarrow> u64 \<Rightarrow> nat \<Rightarrow> u32 \<Rightarrow> ptmem \<Rightarrow> ptmem" where
  "build_hyper_table he table_current_level next_tbl virt level attr tb =
     put_at table_current_level (lpae_index virt level) (make_stage1_entry (vir_to_phy he next_tbl) attr) tb"

text \<open>
  \<open>do { *entry = ...(val) } while (val += vstep, entry++, addr += astep, addr < stop)\<close>, from entry \<open>n\<close> of the array \<open>f\<close>.
\<close>

partial_function (option) fill_loop ::
    "(u64 \<Rightarrow> u64) \<Rightarrow> u64 \<Rightarrow> u64 \<Rightarrow> u64 \<Rightarrow> u64 \<Rightarrow> nat \<Rightarrow> u64 \<Rightarrow> u64 \<Rightarrow> ptmem \<Rightarrow> ptmem option" where
  "fill_loop ent vstep astep stop f n val addr tb =
     (let tb' = put_at f n (ent val) tb in
      if addr + astep < stop then fill_loop ent vstep astep stop f (Suc n) (val + vstep) (addr + astep) tb' else Some tb')"

definition build_hyp_two_level_page_table ::
    "u64 \<Rightarrow> u64 \<Rightarrow> u64 \<Rightarrow> u64 \<Rightarrow> u32 \<Rightarrow> u64 \<Rightarrow> u64 \<Rightarrow> u64 \<Rightarrow> ptmem \<Rightarrow> ptmem option" where
  "build_hyp_two_level_page_table he virt_start phys_start mem_size attr L0 L1 L2 tb =
     (let tb1 = build_hyper_table he L0 (push_bit 12 L1) virt_start 0 attr tb;
          tb2 = build_hyper_table he L1 (push_bit 12 L2) virt_start 1 attr tb1;
          phys_end = phys_start + mem_size;
          next_phy_addr = phys_start AND NOT (0x200000 - 1)
      in if next_phy_addr AND (0x200000 - 1) \<noteq> 0 then None
         else fill_loop (\<lambda>pa. set_field 54 1 0 (set_field 1 1 0 (make_stage1_entry pa MT_NORMAL))) 0x200000 0x200000 phys_end
                L2 (lpae_index virt_start 2) next_phy_addr next_phy_addr tb2)"

definition build_hyp_three_level_page_table ::
    "u64 \<Rightarrow> u64 \<Rightarrow> u64 \<Rightarrow> u64 \<Rightarrow> u32 \<Rightarrow> u64 \<Rightarrow> u64 \<Rightarrow> u64 \<Rightarrow> u64 \<Rightarrow> ptmem \<Rightarrow> ptmem option" where
  "build_hyp_three_level_page_table he virt_start phys_start mem_size attr L0 L1 L2 L3 tb =
     (let tb1 = build_hyper_table he L0 (push_bit 12 L1) virt_start 0 attr tb;
          tb2 = build_hyper_table he L1 (push_bit 12 L2) virt_start 1 attr tb1;
          virt_end = virt_start + mem_size;
          phys_end = phys_start + mem_size;
          ent = (\<lambda>pa. set_field 54 1 0 (make_stage1_entry pa MT_NORMAL))
      in do {
        tb3 \<leftarrow> fill_loop ent 4096 0x200000 virt_end L2 (lpae_index virt_start 2) (push_bit 12 L3)
                 (virt_start AND NOT (0x200000 - 1)) tb2;
        let addr = push_bit 12 (drop_bit 12 phys_start);
        fill_loop ent 4096 4096 phys_end L3 (lpae_index virt_start 3) addr addr tb3 })"

definition fix_map_slot :: "u64 \<Rightarrow> u64 \<Rightarrow> u64 \<Rightarrow> nat \<Rightarrow> u32 \<Rightarrow> u64 \<Rightarrow> u64 \<Rightarrow> u64 \<Rightarrow> ptmem \<Rightarrow> ptmem" where
  "fix_map_slot he virt phys slot attr L0 L1 fix_tbl tb =
     (let tb1 = build_s2_table he L0 (push_bit 12 L1) virt 0 attr tb;
          tb2 = build_s2_table he L1 (push_bit 12 fix_tbl + of_nat (8 * slot)) virt 1 attr tb1
      in put_at fix_tbl (slot + lpae_index virt 2) (set_field 1 1 0 (make_stage1_entry phys attr)) tb2)"

definition fix_map :: "u64 \<Rightarrow> boot_frames \<Rightarrow> u64 \<Rightarrow> u64 \<Rightarrow> nat \<Rightarrow> u32 \<Rightarrow> ptmem \<Rightarrow> ptmem" where
  "fix_map he B virt phys slot attr tb = fix_map_slot he virt phys slot attr (bf_pgtable B) (bf_first B) (bf_fix B) tb"

definition arm_init_direct_mapping :: "u64 \<Rightarrow> boot_frames \<Rightarrow> ptmem \<Rightarrow> ptmem option" where
  "arm_init_direct_mapping he B tb =
     build_hyp_two_level_page_table he PAGE_VIRT_OFFSET (PAGE_PHYS_OFFSET he) (push_bit 30 1) 7
       (bf_pgtable B) (bf_direct_L1 B) (bf_direct_L2 B) tb"

definition build_hyper_three_level_page_table :: "u64 \<Rightarrow> boot_frames \<Rightarrow> u64 \<Rightarrow> u64 \<Rightarrow> u64 \<Rightarrow> u32 \<Rightarrow> ptmem \<Rightarrow> ptmem option" where
  "build_hyper_three_level_page_table he B virt_start phys_start mem_size attr tb =
     build_hyp_three_level_page_table he virt_start phys_start mem_size attr
       (bf_pgtable B) (bf_first B) (bf_second B) (bf_third B) tb"

text \<open>The mappings that \<open>init_mm\<close> sets up (image mapped by pages, UART, direct map); \<open>hs\<close> is \<^verbatim>\<open>_hyper_start\<close>.\<close>

definition init_mm_tables :: "u64 \<Rightarrow> u64 \<Rightarrow> boot_frames \<Rightarrow> ptmem \<Rightarrow> ptmem option" where
  "init_mm_tables hs he B tb =
     (let map_size = (he - hs + 4096 - 1) AND NOT (4096 - 1)
      in do {
        tb1 \<leftarrow> build_hyper_three_level_page_table he B 0x40080000 0x40080000 map_size 7 tb;
        let tb2 = fix_map he B 0x09000000 0x09000000 0 MT_DEVICE_nGnRnE tb1;
        arm_init_direct_mapping he B tb2 })"

section \<open>The filling loop\<close>

primrec fill :: "(u64 \<Rightarrow> u64) \<Rightarrow> u64 \<Rightarrow> u64 \<Rightarrow> nat \<Rightarrow> nat \<Rightarrow> u64 \<Rightarrow> ptmem \<Rightarrow> ptmem" where
  "fill ent vstep f 0 n val tb = tb"
| "fill ent vstep f (Suc N) n val tb = fill ent vstep f N (Suc n) (val + vstep) (put_at f n (ent val) tb)"

text \<open>The loop runs \<open>N + 1\<close> times when the address reaches the end in the last round and not before.\<close>

lemma fill_loop_fill:
  "unat addr + Suc N * unat astep < 2 ^ 64 \<Longrightarrow> unat stop \<le> unat addr + Suc N * unat astep \<Longrightarrow>
   N = 0 \<or> unat addr + N * unat astep < unat stop \<Longrightarrow>
   fill_loop ent vstep astep stop f n val addr tb = Some (fill ent vstep f (Suc N) n val tb)"
proof (induction N arbitrary: n val addr tb)
  case 0
  have "unat (addr + astep) = unat addr + unat astep" using 0(1) by (subst unat_add_lem [THEN iffD1]) auto
  then have "\<not> addr + astep < stop" using 0(2) by (simp add: word_less_nat_alt)
  then show ?case by (subst fill_loop.simps) (simp add: Let_def)
next
  case (Suc N)
  have u: "unat (addr + astep) = unat addr + unat astep" using Suc.prems(1) by (subst unat_add_lem [THEN iffD1]) auto
  have "unat addr + unat astep \<le> unat addr + Suc N * unat astep" by simp
  also have "\<dots> < unat stop" using Suc.prems(3) by blast
  finally have "addr + astep < stop" by (simp add: word_less_nat_alt u)
  moreover have "fill_loop ent vstep astep stop f (Suc n) (val + vstep) (addr + astep) (put_at f n (ent val) tb) =
      Some (fill ent vstep f (Suc N) (Suc n) (val + vstep) (put_at f n (ent val) tb))"
    using Suc.prems by (intro Suc.IH) (simp_all add: u algebra_simps)
  ultimately show ?case by (subst fill_loop.simps) (simp add: Let_def)
qed

text \<open>What an array of tables contains.\<close>

definition cell :: "ptmem \<Rightarrow> u64 \<Rightarrow> nat \<Rightarrow> u64" where
  "cell tb f n = tb (f + of_nat (n div 512)) (n mod 512)"

lemma cell_put_same: "n < 2 ^ 40 \<Longrightarrow> m < 2 ^ 40 \<Longrightarrow> cell (put_at f n e tb) f m = (if m = n then e else cell tb f m)"
proof -
  assume a: "n < 2 ^ 40" "m < 2 ^ 40"
  have "f + of_nat (m div 512) = f + of_nat (n div 512) \<longleftrightarrow> m div 512 = n div 512"
  proof -
    have "m div 512 < 2 ^ 64" "n div 512 < 2 ^ 64" using a by (simp_all add: less_mult_imp_div_less)
    then show ?thesis by (simp add: word_of_nat_eq_iff take_bit_nat_eq_self)
  qed
  moreover have "m div 512 = n div 512 \<and> m mod 512 = n mod 512 \<longleftrightarrow> m = n" by (metis div_mult_mod_eq)
  ultimately show ?thesis by (auto simp: cell_def put_at_def put_def)
qed

lemma fill_same:
  "n + N \<le> 2 ^ 40 \<Longrightarrow> m < 2 ^ 40 \<Longrightarrow>
   cell (fill ent vstep f N n val tb) f m = (if n \<le> m \<and> m < n + N then ent (val + of_nat (m - n) * vstep) else cell tb f m)"
proof (induction N arbitrary: n val tb)
  case (Suc N)
  have "of_nat (m - n) = 1 + (of_nat (m - Suc n) :: u64)" if "Suc n \<le> m"
  proof -
    have "m - n = Suc (m - Suc n)" using that by simp
    then show ?thesis by (simp only: of_nat_Suc)
  qed
  then show ?case using Suc by (auto simp: cell_put_same algebra_simps)
qed auto

lemma fill_other: "\<forall>m. n \<le> m \<and> m < n + N \<longrightarrow> g \<noteq> f + of_nat (m div 512) \<Longrightarrow> fill ent vstep f N n val tb g = tb g"
proof (induction N arbitrary: n val tb)
  case (Suc N)
  have "g \<noteq> f + of_nat (n div 512)" using Suc.prems by simp
  then have "put_at f n (ent val) tb g = tb g" by (simp add: put_at_def put_def)
  moreover have "fill ent vstep f N (Suc n) (val + vstep) (put_at f n (ent val) tb) g = put_at f n (ent val) tb g"
    using Suc.prems by (intro Suc.IH) auto
  ultimately show ?case by simp
qed simp

text \<open>Arrays of one and of eight tables.\<close>

lemma put_at_row: "n < 512 \<Longrightarrow> put_at f n e tb = put f n e tb"
  by (simp add: put_at_def)

lemma fill_row:
  assumes "n + N \<le> 512"
  shows "g \<noteq> f \<Longrightarrow> fill ent vstep f N n val tb g = tb g"
    and "m < 512 \<Longrightarrow> fill ent vstep f N n val tb f m = (if n \<le> m \<and> m < n + N then ent (val + of_nat (m - n) * vstep) else tb f m)"
proof -
  show "g \<noteq> f \<Longrightarrow> fill ent vstep f N n val tb g = tb g" using assms by (intro fill_other) auto
  show "fill ent vstep f N n val tb f m = (if n \<le> m \<and> m < n + N then ent (val + of_nat (m - n) * vstep) else tb f m)" if "m < 512"
    using fill_same [of n N m ent vstep f val tb] that assms by (simp add: cell_def)
qed

lemma fill_rows:
  assumes "n + N \<le> 4096"
  shows "\<forall>q < 8. g \<noteq> f + of_nat q \<Longrightarrow> fill ent vstep f N n val tb g = tb g"
    and "q < 8 \<Longrightarrow> m < 512 \<Longrightarrow> fill ent vstep f N n val tb (f + of_nat q) m =
      (if n \<le> 512 * q + m \<and> 512 * q + m < n + N then ent (val + of_nat (512 * q + m - n) * vstep) else tb (f + of_nat q) m)"
proof -
  show "fill ent vstep f N n val tb g = tb g" if "\<forall>q < 8. g \<noteq> f + of_nat q"
  proof (rule fill_other, intro allI impI)
    fix m assume "n \<le> m \<and> m < n + N"
    then have "m div 512 < 8" using assms by auto
    then show "g \<noteq> f + of_nat (m div 512)" using that by blast
  qed
  show "fill ent vstep f N n val tb (f + of_nat q) m =
      (if n \<le> 512 * q + m \<and> 512 * q + m < n + N then ent (val + of_nat (512 * q + m - n) * vstep) else tb (f + of_nat q) m)"
    if "q < 8" "m < 512"
    using fill_same [of n N "512 * q + m" ent vstep f val tb] that assms by (simp add: cell_def)
qed

section \<open>The tables after boot\<close>

abbreviation (input) "img_entry pa \<equiv> set_field 54 1 0 (make_stage1_entry pa MT_NORMAL)"
abbreviation (input) "blk_entry pa \<equiv> set_field 54 1 0 (set_field 1 1 0 (make_stage1_entry pa MT_NORMAL))"

definition boot_ok :: "boot_frames \<Rightarrow> ptmem \<Rightarrow> bool" where
  "boot_ok B tb \<longleftrightarrow> distinct [bf_pgtable B, bf_first B, bf_second B, bf_fix B, bf_direct_L1 B, bf_direct_L2 B] \<and>
     (\<forall>q < 8. bf_third B + of_nat q \<notin> set [bf_pgtable B, bf_first B, bf_second B, bf_fix B, bf_direct_L1 B, bf_direct_L2 B]) \<and>
     (\<forall>f \<in> set [bf_pgtable B, bf_first B, bf_second B, bf_third B, bf_fix B, bf_direct_L1 B, bf_direct_L2 B]. unat f < 2 ^ 20) \<and>
     (\<forall>f i. f \<in> set [bf_pgtable B, bf_first B, bf_second B, bf_fix B, bf_direct_L1 B, bf_direct_L2 B] \<or> (\<exists>q < 8. f = bf_third B + of_nat q) \<longrightarrow>
        tb f i = 0)"

lemma vir_to_phy_static: "unat f < 2 ^ 20 \<Longrightarrow> vir_to_phy he (push_bit 12 f) = push_bit 12 f"
proof -
  assume a: "unat f < 2 ^ 20"
  have "unat (push_bit 12 f) = unat f * 2 ^ 12" by (rule unat_push_bit_small) (use a in simp)
  then show ?thesis using a by (simp add: vir_to_phy_def word_less_nat_alt PAGE_VIRT_OFFSET_unat)
qed

text \<open>What each table contains; \<open>n2\<close> and \<open>n3\<close> are the numbers of second- and third-level entries of the image.\<close>

definition boot_contents :: "u64 \<Rightarrow> boot_frames \<Rightarrow> nat \<Rightarrow> nat \<Rightarrow> ptmem \<Rightarrow> bool" where
  "boot_contents he B n2 n3 tb \<longleftrightarrow>
     tb (bf_pgtable B) = (\<lambda>_. 0)(0 := make_stage2_entry (push_bit 12 (bf_first B)) MT_DEVICE_nGnRnE MEM_ACCESS_RWX,
       1 := make_stage1_entry (push_bit 12 (bf_direct_L1 B)) 7) \<and>
     tb (bf_first B) = (\<lambda>_. 0)(0 := make_stage2_entry (push_bit 12 (bf_fix B)) MT_DEVICE_nGnRnE MEM_ACCESS_RWX,
       1 := make_stage1_entry (push_bit 12 (bf_second B)) 7) \<and>
     (\<forall>m < 512. tb (bf_second B) m = (if m < n2 then img_entry (push_bit 12 (bf_third B) + of_nat m * 4096) else 0)) \<and>
     (\<forall>q < 8. \<forall>m < 512. tb (bf_third B + of_nat q) m =
        (if 128 \<le> 512 * q + m \<and> 512 * q + m < 128 + n3 then img_entry (0x40080000 + of_nat (512 * q + m - 128) * 4096) else 0)) \<and>
     tb (bf_fix B) = (\<lambda>_. 0)(72 := set_field 1 1 0 (make_stage1_entry 0x09000000 MT_DEVICE_nGnRnE)) \<and>
     tb (bf_direct_L1 B) = (\<lambda>_. 0)(448 := make_stage1_entry (push_bit 12 (bf_direct_L2 B)) 7) \<and>
     (\<forall>m < 512. tb (bf_direct_L2 B) m = blk_entry (PAGE_PHYS_OFFSET he + of_nat m * 0x200000))"

lemma unat_push_bit_drop: "k \<le> LENGTH('a) \<Longrightarrow> unat (push_bit k (drop_bit k x)) = unat (drop_bit k x) * 2 ^ k" for x :: "'a::len word"
proof (rule unat_push_bit_small)
  have "unat x div 2 ^ k * 2 ^ k \<le> unat x" by simp
  also have "unat x < 2 ^ LENGTH('a)" by (rule unsigned_less)
  finally show "unat (drop_bit k x) * 2 ^ k < 2 ^ LENGTH('a)" by (simp add: unat_drop_bit_div)
qed

lemma unat_page_mask: "unat (x AND NOT 4095 :: u64) = unat x div 4096 * 4096"
proof -
  have "x AND NOT (mask 12) = push_bit 12 (drop_bit 12 x)" by (rule bit_word_eqI) (auto simp: bit_simps)
  moreover have "unat (push_bit 12 (drop_bit 12 x)) = unat (drop_bit 12 x) * 2 ^ 12"
    by (rule unat_push_bit_drop) simp
  ultimately show ?thesis by (simp add: mask_eq_exp_minus_1 unat_drop_bit_div)
qed

lemma image_size:
  fixes he :: u64
  assumes "0x40080000 < unat he" "unat he \<le> 0x41000000"
  obtains n3 where "0 < n3" "n3 \<le> 3968" "(he - 0x40080000 + 4096 - 1) AND NOT (4096 - 1) = of_nat (n3 * 4096)"
    "unat ((he + 4095) AND NOT 4095) = 0x40080000 + n3 * 4096"
proof -
  define n3 where "n3 = (unat he - 0x40080000 + 4095) div 4096"
  have d: "unat (he - 0x40080000) = unat he - 0x40080000" using assms by (subst unat_sub) (simp_all add: word_le_nat_alt)
  have u: "unat (he - 0x40080000 + 4095) = unat he - 0x40080000 + 4095" using assms d by (subst unat_add_lem [THEN iffD1]) auto
  have v: "unat (he + 4095) = unat he + 4095" using assms by (subst unat_add_lem [THEN iffD1]) auto
  have n: "0 < n3" "n3 \<le> 3968"
    using assms div_le_mono [of "unat he - 0x40080000 + 4095" "0xf80000 + 4095" 4096] by (auto simp: n3_def div_greater_zero_iff)
  have "unat ((he - 0x40080000 + 4095) AND NOT 4095) = n3 * 4096" by (simp only: unat_page_mask u n3_def)
  moreover have "unat (of_nat (n3 * 4096) :: u64) = n3 * 4096" using n(2) by (intro unat_of_nat_small) simp
  ultimately have "(he - 0x40080000 + 4095) AND NOT 4095 = of_nat (n3 * 4096)" by (simp only: word_unat_eq_iff)
  then have "(he - 0x40080000 + 4096 - 1) AND NOT (4096 - 1) = of_nat (n3 * 4096)" by (simp del: of_nat_mult)
  moreover have "unat ((he + 4095) AND NOT 4095) = 0x40080000 + n3 * 4096"
  proof -
    have "unat he + 4095 = 0x40080 * 4096 + (unat he - 0x40080000 + 4095)" using assms(1) by simp
    then have "(unat he + 4095) div 4096 = 0x40080 + n3" unfolding n3_def by (metis div_mult_self3 zero_neq_numeral)
    then show ?thesis by (simp only: unat_page_mask v) simp
  qed
  ultimately show thesis using that n by blast
qed

lemma phys_offset_block:
  assumes "he_ok he"
  shows "PAGE_PHYS_OFFSET he AND NOT (0x200000 - 1) = PAGE_PHYS_OFFSET he" "PAGE_PHYS_OFFSET he AND (0x200000 - 1) = 0"
    "2 ^ 21 dvd unat (PAGE_PHYS_OFFSET he)"
proof -
  define x where "x = he + 0x2fffff"
  have P: "PAGE_PHYS_OFFSET he = x AND NOT (mask 21)" by (simp add: PAGE_PHYS_OFFSET_def x_def mask_eq_exp_minus_1 ac_simps)
  have "(x AND NOT (mask 21)) AND NOT (mask 21) = x AND NOT (mask 21)" "(x AND NOT (mask 21)) AND mask 21 = 0"
    by (rule bit_word_eqI, auto simp: bit_simps)+
  moreover have "(0x200000 - 1 :: u64) = mask 21" by (simp add: mask_eq_exp_minus_1)
  ultimately show "PAGE_PHYS_OFFSET he AND NOT (0x200000 - 1) = PAGE_PHYS_OFFSET he" "PAGE_PHYS_OFFSET he AND (0x200000 - 1) = 0"
    unfolding P by (simp_all only:)
  have "x AND NOT (mask 21) = push_bit 21 (drop_bit 21 x)" by (rule bit_word_eqI) (auto simp: bit_simps)
  moreover have "unat (push_bit 21 (drop_bit 21 x)) = unat (drop_bit 21 x) * 2 ^ 21"
    by (rule unat_push_bit_drop) simp
  ultimately show "2 ^ 21 dvd unat (PAGE_PHYS_OFFSET he)" unfolding P by simp
qed

lemma three_level_loops:
  assumes "0 < n3" "n3 \<le> 3968" "(he - 0x40080000 + 4096 - 1) AND NOT (4096 - 1) = of_nat (n3 * 4096)" "n2 = (639 + n3) div 512"
  shows "fill_loop ent 4096 0x200000 (0x40080000 + of_nat (n3 * 4096)) f 0 v 0x40000000 tb = Some (fill ent 4096 f n2 0 v tb)"
    "fill_loop ent 4096 4096 (0x40080000 + of_nat (n3 * 4096)) g 128 0x40080000 0x40080000 tb = Some (fill ent 4096 g n3 128 0x40080000 tb)"
proof -
  have "unat (of_nat (n3 * 4096) :: u64) = n3 * 4096" using assms(2) by (intro unat_of_nat_small) simp
  then have u: "unat (0x40080000 + of_nat (n3 * 4096) :: u64) = 0x40080000 + n3 * 4096"
    using assms(2) by (subst unat_add_lem [THEN iffD1]) (auto simp del: of_nat_mult)
  have n2: "0 < n2" "n2 \<le> 8" "128 + n3 \<le> n2 * 512" "n2 * 512 < 640 + n3" using assms(1,2,4) by (auto simp: div_greater_zero_iff)
  show "fill_loop ent 4096 0x200000 (0x40080000 + of_nat (n3 * 4096)) f 0 v 0x40000000 tb = Some (fill ent 4096 f n2 0 v tb)"
    using fill_loop_fill [of "0x40000000" "n2 - 1" "0x200000" "0x40080000 + of_nat (n3 * 4096)" ent 4096 f 0 v tb] n2
    by (simp add: u diff_mult_distrib del: of_nat_mult)
  show "fill_loop ent 4096 4096 (0x40080000 + of_nat (n3 * 4096)) g 128 0x40080000 0x40080000 tb = Some (fill ent 4096 g n3 128 0x40080000 tb)"
    using fill_loop_fill [of "0x40080000" "n3 - 1" 4096 "0x40080000 + of_nat (n3 * 4096)" ent 4096 g 128 "0x40080000" tb] assms(1,2)
    by (simp add: u diff_mult_distrib del: of_nat_mult)
qed

lemma direct_loop:
  assumes "he_ok he"
  shows "fill_loop ent 0x200000 0x200000 (PAGE_PHYS_OFFSET he + push_bit 30 1) f 0 v (PAGE_PHYS_OFFSET he) tb = Some (fill ent 0x200000 f 512 0 v tb)"
proof -
  note b = pool_base(1) [OF assms]
  have u: "unat (PAGE_PHYS_OFFSET he + 0x40000000) = unat (PAGE_PHYS_OFFSET he) + 0x40000000"
    using b by (subst unat_add_lem [THEN iffD1]) auto
  show ?thesis using fill_loop_fill [of "PAGE_PHYS_OFFSET he" 511 "0x200000" "PAGE_PHYS_OFFSET he + push_bit 30 1" ent "0x200000" f 0 v tb] b
    by (simp add: u)
qed

lemma init_mm_tables_contents:
  assumes "he_ok he" "boot_ok B tb" "0 < n3" "n3 \<le> 3968" "(he - 0x40080000 + 4096 - 1) AND NOT (4096 - 1) = of_nat (n3 * 4096)"
    "n2 = (639 + n3) div 512"
  shows "\<exists>tb'. init_mm_tables 0x40080000 he B tb = Some tb' \<and> boot_contents he B n2 n3 tb'"
proof -
  let ?pg = "bf_pgtable B" and ?fi = "bf_first B" and ?se = "bf_second B" and ?th = "bf_third B" and ?fx = "bf_fix B"
    and ?d1 = "bf_direct_L1 B" and ?d2 = "bf_direct_L2 B"
  have dis: "distinct [?pg, ?fi, ?se, ?fx, ?d1, ?d2]" "\<forall>q < 8. ?th + of_nat q \<notin> set [?pg, ?fi, ?se, ?fx, ?d1, ?d2]"
    using assms(2) unfolding boot_ok_def by blast+
  have bd: "unat ?pg < 2 ^ 20" "unat ?fi < 2 ^ 20" "unat ?se < 2 ^ 20" "unat ?th < 2 ^ 20" "unat ?fx < 2 ^ 20" "unat ?d1 < 2 ^ 20" "unat ?d2 < 2 ^ 20"
    using assms(2) by (simp_all add: boot_ok_def)
  have z: "f \<in> set [?pg, ?fi, ?se, ?fx, ?d1, ?d2] \<or> (\<exists>q < 8. f = ?th + of_nat q) \<Longrightarrow> tb f i = 0" for f i
    using assms(2) unfolding boot_ok_def by blast
  have ix: "lpae_index 0x40080000 0 = 0" "lpae_index 0x40080000 1 = 1" "lpae_index 0x40080000 2 = 0" "lpae_index 0x40080000 3 = 128"
    "lpae_index 0x09000000 0 = 0" "lpae_index 0x09000000 1 = 0" "lpae_index 0x09000000 2 = 72"
    "lpae_index PAGE_VIRT_OFFSET 0 = 1" "lpae_index PAGE_VIRT_OFFSET 1 = 448" "lpae_index PAGE_VIRT_OFFSET 2 = 0"
    by (simp_all add: lpae_index_def PAGE_VIRT_OFFSET_def)
  have adr: "push_bit 12 (drop_bit 12 (0x40080000 :: u64)) = 0x40080000" by simp
  note vp = vir_to_phy_static [OF bd(2), of he] vir_to_phy_static [OF bd(3), of he] vir_to_phy_static [OF bd(5), of he]
    vir_to_phy_static [OF bd(6), of he] vir_to_phy_static [OF bd(7), of he]
  define t2 where "t2 = put ?fi 1 (make_stage1_entry (push_bit 12 ?se) 7) (put ?pg 0 (make_stage1_entry (push_bit 12 ?fi) 7) tb)"
  define t3 where "t3 = fill (\<lambda>pa. img_entry pa) 4096 ?se n2 0 (push_bit 12 ?th) t2"
  define t4 where "t4 = fill (\<lambda>pa. img_entry pa) 4096 ?th n3 128 0x40080000 t3"
  define t7 where "t7 = put ?fx 72 (set_field 1 1 0 (make_stage1_entry 0x09000000 MT_DEVICE_nGnRnE))
    (put ?fi 0 (make_stage2_entry (push_bit 12 ?fx) MT_DEVICE_nGnRnE MEM_ACCESS_RWX)
      (put ?pg 0 (make_stage2_entry (push_bit 12 ?fi) MT_DEVICE_nGnRnE MEM_ACCESS_RWX) t4))"
  define t9 where "t9 = put ?d1 448 (make_stage1_entry (push_bit 12 ?d2) 7) (put ?pg 1 (make_stage1_entry (push_bit 12 ?d1) 7) t7)"
  define t10 where "t10 = fill (\<lambda>pa. blk_entry pa) 0x200000 ?d2 512 0 (PAGE_PHYS_OFFSET he) t9"
  have three: "build_hyper_three_level_page_table he B 0x40080000 0x40080000 (of_nat (n3 * 4096)) 7 tb = Some t4"
    using three_level_loops [OF assms(3-6)]
    unfolding build_hyper_three_level_page_table_def build_hyp_three_level_page_table_def build_hyper_table_def ix put_at_row vp adr Let_def
    by (simp add: t2_def put_at_row t3_def t4_def del: of_nat_mult One_nat_def)
  have fixm: "fix_map he B 0x09000000 0x09000000 0 MT_DEVICE_nGnRnE t4 = t7"
    by (simp add: fix_map_def fix_map_slot_def build_s2_table_def ix put_at_row vp Let_def t7_def del: One_nat_def)
  have dir: "arm_init_direct_mapping he B t7 = Some t10"
    using direct_loop [OF assms(1)] phys_offset_block [OF assms(1)]
    by (simp add: arm_init_direct_mapping_def build_hyp_two_level_page_table_def build_hyper_table_def ix put_at_row vp Let_def
        t9_def [symmetric] t10_def del: One_nat_def)
  have "init_mm_tables 0x40080000 he B tb = Some t10"
    unfolding init_mm_tables_def assms(5) Let_def three by (simp add: fixm dir)
  moreover have "boot_contents he B n2 n3 t10"
  proof -
    have n2: "0 + n2 \<le> 512" "128 + n3 \<le> 4096" using assms(4,6) by auto
    have th: "?th + of_nat q \<noteq> ?pg" "?th + of_nat q \<noteq> ?fi" "?th + of_nat q \<noteq> ?se" "?th + of_nat q \<noteq> ?fx" "?th + of_nat q \<noteq> ?d1"
      "?th + of_nat q \<noteq> ?d2" if "q < 8" for q using dis(2) that by auto
    have d: "?pg \<noteq> ?fi" "?pg \<noteq> ?se" "?pg \<noteq> ?fx" "?pg \<noteq> ?d1" "?pg \<noteq> ?d2" "?fi \<noteq> ?se" "?fi \<noteq> ?fx" "?fi \<noteq> ?d1" "?fi \<noteq> ?d2"
      "?se \<noteq> ?fx" "?se \<noteq> ?d1" "?se \<noteq> ?d2" "?fx \<noteq> ?d1" "?fx \<noteq> ?d2" "?d1 \<noteq> ?d2" using dis(1) by simp_all
    note d = d d [symmetric]
    have z0: "tb ?pg = (\<lambda>_. 0)" "tb ?fi = (\<lambda>_. 0)" "tb ?se = (\<lambda>_. 0)" "tb ?fx = (\<lambda>_. 0)" "tb ?d1 = (\<lambda>_. 0)" "tb ?d2 = (\<lambda>_. 0)"
      "\<And>q. q < 8 \<Longrightarrow> tb (?th + of_nat q) = (\<lambda>_. 0)" using z by fastforce+
    have A: "t10 g = t9 g" if "g \<noteq> ?d2" for g unfolding t10_def using that by (intro fill_row) simp_all
    have C: "t4 g = t2 g" if "g \<noteq> ?se" "\<And>q. q < 8 \<Longrightarrow> ?th + of_nat q \<noteq> g" for g
      unfolding t4_def t3_def using that fill_rows(1) [OF n2(2), of g ?th] fill_row(1) [OF n2(1), of g ?se] by metis
    have S: "t4 ?se = t3 ?se" unfolding t4_def using th(3) by (intro fill_rows(1) [OF n2(2)]) metis
    have T: "t3 (?th + of_nat q) = t2 (?th + of_nat q)" if "q < 8" for q unfolding t3_def by (rule fill_row(1) [OF n2(1) th(3) [OF that]])
    have "t10 ?pg = (\<lambda>_. 0)(0 := make_stage2_entry (push_bit 12 ?fi) MT_DEVICE_nGnRnE MEM_ACCESS_RWX, 1 := make_stage1_entry (push_bit 12 ?d1) 7)"
      using C [OF d(2) th(1)] d z0(1) by (simp add: A t9_def t7_def t2_def put_def)
    moreover have "t10 ?fi = (\<lambda>_. 0)(0 := make_stage2_entry (push_bit 12 ?fx) MT_DEVICE_nGnRnE MEM_ACCESS_RWX, 1 := make_stage1_entry (push_bit 12 ?se) 7)"
      using C [OF d(6) th(2)] d z0(2) by (simp add: A t9_def t7_def t2_def put_def fun_upd_twist)
    moreover have "t10 ?fx = (\<lambda>_. 0)(72 := set_field 1 1 0 (make_stage1_entry 0x09000000 MT_DEVICE_nGnRnE))"
      using C [OF d(25) th(4)] d z0(4) by (simp add: A t9_def t7_def t2_def put_def)
    moreover have "t10 ?d1 = (\<lambda>_. 0)(448 := make_stage1_entry (push_bit 12 ?d2) 7)"
      using C [OF d(26) th(5)] d z0(5) by (simp add: A t9_def t7_def t2_def put_def)
    moreover have "t10 ?se m = (if m < n2 then img_entry (push_bit 12 ?th + of_nat m * 4096) else 0)" if "m < 512" for m
    proof -
      have "t10 ?se m = t3 ?se m" using d S by (simp add: A t9_def t7_def put_def)
      also have "\<dots> = (if m < n2 then img_entry (push_bit 12 ?th + of_nat m * 4096) else t2 ?se m)"
        unfolding t3_def using fill_row(2) [OF n2(1) that, of "\<lambda>pa. img_entry pa" 4096 ?se "push_bit 12 ?th" t2] by simp
      finally show ?thesis using d z0(3) by (simp add: t2_def put_def)
    qed
    moreover have "t10 (?th + of_nat q) m =
        (if 128 \<le> 512 * q + m \<and> 512 * q + m < 128 + n3 then img_entry (0x40080000 + of_nat (512 * q + m - 128) * 4096) else 0)"
      if "q < 8" "m < 512" for q m
    proof -
      have "t10 (?th + of_nat q) m = t4 (?th + of_nat q) m" using th [OF that(1)] by (simp add: A t9_def t7_def put_def)
      also have "\<dots> = (if 128 \<le> 512 * q + m \<and> 512 * q + m < 128 + n3 then img_entry (0x40080000 + of_nat (512 * q + m - 128) * 4096)
          else t3 (?th + of_nat q) m)"
        unfolding t4_def by (rule fill_rows(2) [OF n2(2) that])
      finally show ?thesis unfolding T [OF that(1)] using th [OF that(1)] z0(7) [OF that(1)] by (simp add: t2_def put_def)
    qed
    moreover have "t10 ?d2 m = blk_entry (PAGE_PHYS_OFFSET he + of_nat m * 0x200000)" if "m < 512" for m
      unfolding t10_def using fill_row(2) [of 0 512 m "\<lambda>pa. blk_entry pa" "0x200000" ?d2 "PAGE_PHYS_OFFSET he" t9] that by simp
    ultimately show ?thesis unfolding boot_contents_def by blast
  qed
  ultimately show ?thesis by blast
qed

section \<open>What the tables translate\<close>

text \<open>
  The hardware's walk (4 KB granule, 48-bit addresses, four levels): \<open>k\<close> levels are left below the table at frame \<open>f\<close>; blocks may
  stand one or two levels above the last one.
\<close>

definition hw_out :: "nat \<Rightarrow> u64 \<Rightarrow> u64 \<Rightarrow> u64" where
  "hw_out k e va = push_bit (12 + 9 * k) (drop_bit (9 * k) (lpae_base e)) + take_bit (12 + 9 * k) va"

primrec hw_walk :: "ptmem \<Rightarrow> u64 \<Rightarrow> nat \<Rightarrow> u64 \<Rightarrow> u64 option" where
  "hw_walk tb va 0 f =
     (let e = tb f (lpae_index va 3) in if lpae_valid e \<and> lpae_table e then Some (hw_out 0 e va) else None)"
| "hw_walk tb va (Suc k) f =
     (let e = tb f (lpae_index va (2 - k)) in
      if \<not> lpae_valid e then None
      else if lpae_table e then hw_walk tb va k (lpae_base e)
      else if k \<le> 1 then Some (hw_out (Suc k) e va) else None)"

lemma two_cases: "k \<le> 2 \<Longrightarrow> (k = 0 \<Longrightarrow> P) \<Longrightarrow> (k = 1 \<Longrightarrow> P) \<Longrightarrow> (k = 2 \<Longrightarrow> P) \<Longrightarrow> P" for k :: nat
  by (cases k rule: nat.exhaust; force)

lemma hw_out_unat:
  assumes "k \<le> 2"
  shows "unat (hw_out k e va) = unat (lpae_base e) div 2 ^ (9 * k) * 2 ^ (12 + 9 * k) + unat va mod 2 ^ (12 + 9 * k)"
proof -
  define m :: nat where "m = 2 ^ (12 + 9 * k)"
  have "lpae_base e = take_bit 36 (drop_bit 12 e)" by (simp add: lpae_base_def)
  then have b: "unat (lpae_base e) < 2 ^ 36" using take_bit_nat_less_exp [of 36] by (simp add: unsigned_take_bit_eq)
  have "unat (lpae_base e) div 2 ^ (9 * k) \<le> (2 ^ 36 - 1) div 2 ^ (9 * k)" using b by (intro div_le_mono) simp
  moreover have "(2 ^ 36 - 1) div 2 ^ (9 * k) * m + m \<le> (2 ^ 48 :: nat)" "m \<le> (2 ^ 48 :: nat)"
    using assms unfolding m_def by (elim two_cases, simp_all)+
  ultimately have s: "unat (lpae_base e) div 2 ^ (9 * k) * m + m \<le> 2 ^ 48"
    by (meson add_le_mono1 le_trans mult_le_mono1)
  have p: "unat (push_bit (12 + 9 * k) (drop_bit (9 * k) (lpae_base e))) = unat (lpae_base e) div 2 ^ (9 * k) * m"
    using s by (subst unat_push_bit_small) (simp_all add: unat_drop_bit_div m_def)
  have t: "unat (take_bit (12 + 9 * k) va) = unat va mod m" by (simp only: unsigned_take_bit_eq) (simp add: take_bit_eq_mod m_def)
  have "unat va mod m < m" by (simp add: m_def)
  then have "unat (lpae_base e) div 2 ^ (9 * k) * m + unat va mod m < unat (lpae_base e) div 2 ^ (9 * k) * m + m" by simp
  also note s
  finally have "unat (lpae_base e) div 2 ^ (9 * k) * m + unat va mod m < 2 ^ 64" by simp
  then show ?thesis unfolding hw_out_def m_def [symmetric] by (subst unat_add_lem [THEN iffD1]) (simp_all only: p t, simp)
qed

lemma boot_entry_simps:
  "lpae_base (img_entry pa) = take_bit 36 (drop_bit 12 pa)" "lpae_valid (img_entry pa)" "lpae_table (img_entry pa)"
  "lpae_base (blk_entry pa) = take_bit 36 (drop_bit 12 pa)" "lpae_valid (blk_entry pa)" "\<not> lpae_table (blk_entry pa)"
proof -
  have b: "lpae_base (set_field 54 1 0 e) = lpae_base e" "lpae_base (set_field 1 1 0 e) = lpae_base e" for e
    by (rule bit_word_eqI, auto simp: lpae_base_def bit_simps)+
  show "lpae_base (img_entry pa) = take_bit 36 (drop_bit 12 pa)" "lpae_base (blk_entry pa) = take_bit 36 (drop_bit 12 pa)"
    by (simp_all only: b make_stage1_entry_simps)
  show "lpae_valid (img_entry pa)" "lpae_table (img_entry pa)" "lpae_valid (blk_entry pa)" "\<not> lpae_table (blk_entry pa)"
    using make_stage1_entry_simps(1,2) [of pa MT_NORMAL] by (simp_all add: lpae_valid_def lpae_table_def)
qed

text \<open>The indices are the digits of the page number.\<close>

lemma va_digits:
  assumes "unat va < 2 ^ 48"
  obtains i0 i1 i2 i3 r where "lpae_index va 0 = i0" "lpae_index va 1 = i1" "lpae_index va 2 = i2" "lpae_index va 3 = i3"
    "i0 < 512" "i1 < 512" "i2 < 512" "i3 < 512" "r < 4096" "unat va = (((i0 * 512 + i1) * 512 + i2) * 512 + i3) * 4096 + r"
proof -
  define P where "P = unat va div 4096"
  have "unat (drop_bit 12 va) = P" by (simp add: unat_drop_bit_div P_def)
  then have ix: "lpae_index va 0 = P div 512 ^ 3 mod 512" "lpae_index va 1 = P div 512 ^ 2 mod 512"
    "lpae_index va 2 = P div 512 mod 512" "lpae_index va 3 = P mod 512"
    using va_index_page [of 0 va] va_index_page [of 1 va] va_index_page [of 2 va] va_index_page [of 3 va]
    by (simp_all add: lpae_index_va_index)
  have "P < 512 ^ 4" using assms by (simp add: P_def less_mult_imp_div_less)
  then have "P div 512 ^ 3 mod 512 = P div 512 ^ 3" by (simp add: less_mult_imp_div_less)
  moreover have "P div 512 ^ 2 = P div 512 div 512" "P div 512 ^ 3 = P div 512 div 512 div 512" by (simp_all add: div_mult2_eq [symmetric])
  ultimately have e: "((P div 512 ^ 3 mod 512 * 512 + P div 512 ^ 2 mod 512) * 512 + P div 512 mod 512) * 512 + P mod 512 = P"
    by (simp only: div_mult_mod_eq)
  show thesis by (rule that [OF ix, where r = "unat va mod 4096"]) (simp_all only: e, simp_all add: P_def)
qed

lemma hw_walk_levels:
  "hw_walk tb va 3 f = (let e = tb f (lpae_index va 0) in
     if \<not> lpae_valid e then None else if lpae_table e then hw_walk tb va 2 (lpae_base e) else None)"
  "hw_walk tb va 2 f = (let e = tb f (lpae_index va 1) in
     if \<not> lpae_valid e then None else if lpae_table e then hw_walk tb va 1 (lpae_base e) else Some (hw_out 2 e va))"
  "hw_walk tb va 1 f = (let e = tb f (lpae_index va 2) in
     if \<not> lpae_valid e then None else if lpae_table e then hw_walk tb va 0 (lpae_base e) else Some (hw_out 1 e va))"
proof -
  have n: "(3::nat) = Suc 2" "(2::nat) = Suc 1" "(1::nat) = Suc 0" by simp_all
  show "hw_walk tb va 3 f = (let e = tb f (lpae_index va 0) in
     if \<not> lpae_valid e then None else if lpae_table e then hw_walk tb va 2 (lpae_base e) else None)"
    by (subst n(1), subst hw_walk.simps(2)) (simp add: Let_def)
  show "hw_walk tb va 2 f = (let e = tb f (lpae_index va 1) in
     if \<not> lpae_valid e then None else if lpae_table e then hw_walk tb va 1 (lpae_base e) else Some (hw_out 2 e va))"
    by (subst n(2), subst hw_walk.simps(2)) (simp add: Let_def numeral_2_eq_2)
  show "hw_walk tb va 1 f = (let e = tb f (lpae_index va 2) in
     if \<not> lpae_valid e then None else if lpae_table e then hw_walk tb va 0 (lpae_base e) else Some (hw_out 1 e va))"
    by (subst n(3), subst hw_walk.simps(2)) (simp add: Let_def)
qed

text \<open>The translation the boot code intends.\<close>

definition boot_view :: "u64 \<Rightarrow> u64 \<Rightarrow> u64 option" where
  "boot_view he va =
     (if 0x40080000 \<le> va \<and> va < (he + 4095) AND NOT 4095 \<or> 0x09000000 \<le> va \<and> va < 0x09200000 then Some va
      else if PAGE_VIRT_OFFSET \<le> va \<and> va < PAGE_VIRT_OFFSET + push_bit 30 1 then Some (PAGE_PHYS_OFFSET he + (va - PAGE_VIRT_OFFSET))
      else None)"

lemma static_base: "unat f < 2 ^ 20 \<Longrightarrow> take_bit 36 (drop_bit 12 (push_bit 12 f)) = (f :: u64)"
proof -
  assume a: "unat f < 2 ^ 20"
  have "unat (push_bit 12 f) = unat f * 2 ^ 12" by (rule unat_push_bit_small) (use a in simp)
  then have "unat (drop_bit 12 (push_bit 12 f)) = unat f" by (simp add: unat_drop_bit_div)
  then show ?thesis using a by (simp only: word_unat_eq_iff unsigned_take_bit_eq) (simp add: take_bit_nat_eq_self)
qed

lemma entry_base:
  fixes x s :: u64
  assumes "unat x + n * unat s < 2 ^ 48" "n < 2 ^ 48"
  shows "unat (x + of_nat n * s) = unat x + n * unat s" "unat (take_bit 36 (drop_bit 12 (x + of_nat n * s))) = (unat x + n * unat s) div 4096"
proof -
  have n: "unat (of_nat n :: u64) = n" using assms(2) by (intro unat_of_nat_small) simp
  have m: "unat (of_nat n * s) = n * unat s" using assms(1) n by (subst unat_mult_lem [THEN iffD1]) auto
  show u: "unat (x + of_nat n * s) = unat x + n * unat s" using assms(1) m by (subst unat_add_lem [THEN iffD1]) auto
  have "(unat x + n * unat s) div 4096 < 2 ^ 36" using assms(1) by (simp add: less_mult_imp_div_less)
  then show "unat (take_bit 36 (drop_bit 12 (x + of_nat n * s))) = (unat x + n * unat s) div 4096"
    by (simp only: unsigned_take_bit_eq unat_drop_bit_div u) (simp add: take_bit_nat_eq_self)
qed

lemma device_block:
  "lpae_valid (set_field 1 1 0 (make_stage1_entry 0x09000000 a))" "\<not> lpae_table (set_field 1 1 0 (make_stage1_entry 0x09000000 a))"
  "lpae_base (set_field 1 1 0 (make_stage1_entry 0x09000000 a)) = 0x9000"
proof -
  have "lpae_base (set_field 1 1 0 e) = lpae_base e" for e by (rule bit_word_eqI) (auto simp: lpae_base_def bit_simps)
  then show "lpae_base (set_field 1 1 0 (make_stage1_entry 0x09000000 a)) = 0x9000" by (simp only: make_stage1_entry_simps) simp
  show "lpae_valid (set_field 1 1 0 (make_stage1_entry 0x09000000 a))" "\<not> lpae_table (set_field 1 1 0 (make_stage1_entry 0x09000000 a))"
    using make_stage1_entry_simps(1) [of "0x09000000" a] by (simp_all add: lpae_valid_def lpae_table_def)
qed

lemma hw_walk_boot:
  assumes "he_ok he" "boot_ok B tb0" "boot_contents he B n2 n3 tb" "0 < n3" "n3 \<le> 3968" "n2 = (639 + n3) div 512"
    "unat ((he + 4095) AND NOT 4095) = 0x40080000 + n3 * 4096" "unat va < 2 ^ 48"
  shows "hw_walk tb va 3 (bf_pgtable B) = boot_view he va"
proof -
  let ?pg = "bf_pgtable B" and ?fi = "bf_first B" and ?se = "bf_second B" and ?th = "bf_third B" and ?fx = "bf_fix B"
    and ?d1 = "bf_direct_L1 B" and ?d2 = "bf_direct_L2 B"
  have bd: "unat ?fi < 2 ^ 20" "unat ?se < 2 ^ 20" "unat ?th < 2 ^ 20" "unat ?fx < 2 ^ 20" "unat ?d1 < 2 ^ 20" "unat ?d2 < 2 ^ 20"
    using assms(2) by (simp_all add: boot_ok_def)
  note sb = bd [THEN static_base]
  note c = assms(3) [unfolded boot_contents_def]
  obtain i0 i1 i2 i3 r where ix: "lpae_index va 0 = i0" "lpae_index va 1 = i1" "lpae_index va 2 = i2" "lpae_index va 3 = i3"
    and b: "i0 < 512" "i1 < 512" "i2 < 512" "i3 < 512" "r < 4096"
    and v: "unat va = (((i0 * 512 + i1) * 512 + i2) * 512 + i3) * 4096 + r" by (rule va_digits [OF assms(8)])
  have z: "\<not> lpae_valid 0" by (simp add: lpae_valid_def)
  note lv = hw_walk_levels [of tb va, unfolded ix Let_def]
  have l0: "hw_walk tb va 3 ?pg = (if i0 = 0 then hw_walk tb va 2 ?fi else if i0 = 1 then hw_walk tb va 2 ?d1 else None)"
    using c z sb by (simp add: lv(1) del: One_nat_def)
  have l1: "hw_walk tb va 2 ?fi = (if i1 = 0 then hw_walk tb va 1 ?fx else if i1 = 1 then hw_walk tb va 1 ?se else None)"
    using c z sb by (simp add: lv(2) del: One_nat_def)
  have l1': "hw_walk tb va 2 ?d1 = (if i1 = 448 then hw_walk tb va 1 ?d2 else None)"
    using c z sb by (simp add: lv(2) del: One_nat_def)
  have n2: "n2 \<le> 8" using assms(5,6) by auto
  have out: "hw_out k e va = w" if "k \<le> 2" "unat (lpae_base e) div 2 ^ (9 * k) * 2 ^ (12 + 9 * k) + unat va mod 2 ^ (12 + 9 * k) = unat w" for k e w
    using hw_out_unat [OF that(1), of e va] that(2) by (simp only: word_unat_eq_iff)
  have "unat va = 2 ^ 21 * ((i0 * 512 + i1) * 512 + i2) + (i3 * 4096 + r)" using v by simp
  then have "unat va mod 2 ^ 21 = (i3 * 4096 + r) mod 2 ^ 21" by (simp only: mod_mult_self4)
  then have m21: "unat va mod 2 ^ 21 = i3 * 4096 + r" using b by simp
  have "unat va = 4096 * (((i0 * 512 + i1) * 512 + i2) * 512 + i3) + r" using v by simp
  then have "unat va mod 4096 = r mod 4096" by (simp only: mod_mult_self4)
  then have m12: "unat va mod 2 ^ 12 = r" using b by simp
  have out1: "hw_out 1 e va = w" if "unat (lpae_base e) div 512 * 2 ^ 21 + (i3 * 4096 + r) = unat w" for e w
    using that m21 by (intro out) simp_all
  have out0: "hw_out 0 e va = w" if "unat (lpae_base e) * 4096 + r = unat w" for e w
    using that m12 by (intro out) simp_all
  have lf: "hw_walk tb va 1 ?fx = (if i2 = 72 then Some va else None)" if "i0 = 0" "i1 = 0"
  proof -
    let ?e = "set_field 1 1 0 (make_stage1_entry 0x09000000 MT_DEVICE_nGnRnE)"
    note e = device_block
    have "hw_out 1 ?e va = va" if "i2 = 72" using v \<open>i0 = 0\<close> \<open>i1 = 0\<close> that by (intro out1) (simp add: e del: One_nat_def)
    then show ?thesis using c z e by (simp add: lv(3) del: One_nat_def)
  qed
  have ld: "hw_walk tb va 1 ?d2 = Some (PAGE_PHYS_OFFSET he + (va - PAGE_VIRT_OFFSET))" if "i0 = 1" "i1 = 448"
  proof -
    let ?e = "blk_entry (PAGE_PHYS_OFFSET he + of_nat i2 * 0x200000)"
    obtain q where q: "unat (PAGE_PHYS_OFFSET he) = 2 ^ 21 * q" using phys_offset_block(3) [OF assms(1)] by blast
    have lt: "unat (PAGE_PHYS_OFFSET he) + i2 * 0x200000 < 2 ^ 48" using pool_base(1) [OF assms(1)] b(3) by simp
    have "(2 ^ 21 * q + i2 * 0x200000) div 4096 div 512 = q + i2" by (simp add: div_mult2_eq [symmetric])
    then have "unat (lpae_base ?e) div 512 = q + i2"
      using entry_base(2) [of "PAGE_PHYS_OFFSET he" i2 "0x200000"] lt b(3) q by (simp add: boot_entry_simps del: One_nat_def)
    moreover have "unat (va - PAGE_VIRT_OFFSET) = i2 * 2 ^ 21 + (i3 * 4096 + r)"
      using v that by (subst unat_sub) (simp_all add: word_le_nat_alt PAGE_VIRT_OFFSET_unat)
    moreover have "unat (PAGE_PHYS_OFFSET he + (va - PAGE_VIRT_OFFSET)) = 2 ^ 21 * q + (i2 * 2 ^ 21 + (i3 * 4096 + r))"
      using calculation(2) q pool_base(1) [OF assms(1)] b by (subst unat_add_lem [THEN iffD1]) simp_all
    ultimately have "hw_out 1 ?e va = PAGE_PHYS_OFFSET he + (va - PAGE_VIRT_OFFSET)" by (intro out1) simp
    then show ?thesis using c z b(3) by (simp add: lv(3) boot_entry_simps del: One_nat_def)
  qed
  have ls: "hw_walk tb va 1 ?se = (if 128 \<le> 512 * i2 + i3 \<and> 512 * i2 + i3 < 128 + n3 then Some va else None)" if "i0 = 0" "i1 = 1"
  proof (cases "i2 < n2")
    case True
    then have "i2 < 8" using n2 by simp
    have "unat (take_bit 36 (drop_bit 12 (push_bit 12 ?th + of_nat i2 * 4096))) = unat (?th + of_nat i2)"
      using entry_base(2) [of "push_bit 12 ?th" i2 4096] entry_base(1) [of ?th i2 1] bd(3) \<open>i2 < 8\<close>
      by (simp add: unat_push_bit_small [of ?th 12])
    then have f: "take_bit 36 (drop_bit 12 (push_bit 12 ?th + of_nat i2 * 4096)) = ?th + of_nat i2" by (simp only: word_unat_eq_iff)
    have o: "hw_out 0 (img_entry (0x40080000 + of_nat (512 * i2 + i3 - 128) * 4096)) va = va" if "128 \<le> 512 * i2 + i3"
      using entry_base(2) [of "0x40080000" "512 * i2 + i3 - 128" 4096] that v \<open>i2 < 8\<close> b(4) \<open>i0 = 0\<close> \<open>i1 = 1\<close>
      by (intro out0) (simp add: boot_entry_simps del: One_nat_def)
    have "tb (?th + of_nat i2) i3 =
        (if 128 \<le> 512 * i2 + i3 \<and> 512 * i2 + i3 < 128 + n3 then img_entry (0x40080000 + of_nat (512 * i2 + i3 - 128) * 4096) else 0)"
      using c \<open>i2 < 8\<close> b(4) by blast
    moreover have "tb ?se i2 = img_entry (push_bit 12 ?th + of_nat i2 * 4096)" using c b(3) True by simp
    ultimately show ?thesis using o z by (simp add: lv(3) boot_entry_simps f Let_def ix del: One_nat_def)
  next
    case False
    then have "\<not> 512 * i2 + i3 < 128 + n3" using assms(6) by simp
    moreover have "tb ?se i2 = 0" using c b(3) False by simp
    ultimately show ?thesis using z by (simp add: lv(3) del: One_nat_def)
  qed
  have bv: "boot_view he va =
     (if 0x40080000 \<le> unat va \<and> unat va < 0x40080000 + n3 * 4096 \<or> 0x09000000 \<le> unat va \<and> unat va < 0x09200000 then Some va
      else if 0xF000000000 \<le> unat va \<and> unat va < 0xF040000000 then Some (PAGE_PHYS_OFFSET he + (va - PAGE_VIRT_OFFSET)) else None)"
    unfolding boot_view_def word_le_nat_alt word_less_nat_alt assms(7) by (simp add: PAGE_VIRT_OFFSET_def)
  consider "i0 = 0" "i1 = 0" | "i0 = 0" "i1 = 1" | "i0 = 0" "1 < i1" | "i0 = 1" "i1 = 448" | "i0 = 1" "i1 \<noteq> 448" | "1 < i0" by linarith
  then show ?thesis
  proof cases
    case 1
    have "i2 = 72 \<longleftrightarrow> 0x09000000 \<le> unat va \<and> unat va < 0x09200000" "unat va < 0x40000000" using v b 1 by auto
    then show ?thesis using 1 by (simp add: l0 l1 lf bv del: One_nat_def)
  next
    case 2
    have "128 \<le> 512 * i2 + i3 \<and> 512 * i2 + i3 < 128 + n3 \<longleftrightarrow> 0x40080000 \<le> unat va \<and> unat va < 0x40080000 + n3 * 4096"
      "0x40000000 \<le> unat va" "unat va < 0x80000000" using v b 2 by auto
    then show ?thesis using 2 by (simp add: l0 l1 ls bv del: One_nat_def)
  next
    case 3
    have "0x80000000 \<le> unat va" "unat va < 0x8000000000" using v b 3 by auto
    then show ?thesis using 3 assms(5) by (simp add: l0 l1 bv del: One_nat_def)
  next
    case 4
    have "0xF000000000 \<le> unat va" "unat va < 0xF040000000" using v b 4 by auto
    then show ?thesis using 4 assms(5) by (simp add: l0 l1' ld bv del: One_nat_def)
  next
    case 5
    have "0x8000000000 \<le> unat va" "\<not> (0xF000000000 \<le> unat va \<and> unat va < 0xF040000000)" using v b 5 by auto
    then show ?thesis using 5 assms(5) by (simp add: l0 l1' bv del: One_nat_def)
  next
    case 6
    have "0x10000000000 \<le> unat va" using v b 6 by auto
    then show ?thesis using 6 assms(5) by (simp add: l0 bv del: One_nat_def)
  qed
qed

section \<open>Property\<close>

text \<open>
  C40. The hypervisor's address space after \<open>init_mm\<close>: for an image that ends above its start and not above 0x41000000, and static
  tables that are zero, apart and in the first 4 GB, the builders return, and for every 48-bit address the hardware's walk of the
  tables gives exactly the image (rounded up to pages) and the 2 MB at the UART mapped to themselves, the 1 GB direct map onto the
  page pool, and nothing else.
\<close>

theorem arm_boot_translation:
  assumes "0x40080000 < he" "he \<le> 0x41000000" "boot_ok B tb"
  shows "\<exists>tb'. init_mm_tables 0x40080000 he B tb = Some tb' \<and>
    (\<forall>va. va < push_bit 48 1 \<longrightarrow> hw_walk tb' va 3 (bf_pgtable B) = boot_view he va)"
proof -
  have b: "0x40080000 < unat he" "unat he \<le> 0x41000000" using assms(1,2) by (simp_all add: word_less_nat_alt word_le_nat_alt)
  then have he: "he_ok he" by (simp add: he_ok_def word_less_nat_alt)
  obtain n3 where n3: "0 < n3" "n3 \<le> 3968" "(he - 0x40080000 + 4096 - 1) AND NOT (4096 - 1) = of_nat (n3 * 4096)"
    "unat ((he + 4095) AND NOT 4095) = 0x40080000 + n3 * 4096" by (rule image_size [OF b])
  obtain tb' where t: "init_mm_tables 0x40080000 he B tb = Some tb'" "boot_contents he B ((639 + n3) div 512) n3 tb'"
    using init_mm_tables_contents [OF he assms(3) n3(1-3) refl] by blast
  have "hw_walk tb' va 3 (bf_pgtable B) = boot_view he va" if "va < push_bit 48 1" for va
    using that by (intro hw_walk_boot [OF he assms(3) t(2) n3(1,2) refl n3(4)]) (simp add: word_less_nat_alt)
  then show ?thesis using t(1) by blast
qed

definition sample_frames :: boot_frames where
  "sample_frames = \<lparr>bf_pgtable = 0x40100, bf_first = 0x40101, bf_second = 0x40102, bf_third = 0x40110, bf_fix = 0x40103,
     bf_direct_L1 = 0x40104, bf_direct_L2 = 0x40105\<rparr>"

lemma sample_frames_ok: "boot_ok sample_frames (\<lambda>_ _. 0)"
proof -
  have "bf_third sample_frames + of_nat q \<notin>
      set [bf_pgtable sample_frames, bf_first sample_frames, bf_second sample_frames, bf_fix sample_frames,
        bf_direct_L1 sample_frames, bf_direct_L2 sample_frames]" if "q < 8" for q
  proof -
    have "unat (of_nat q :: u64) = q" using that by (intro unat_of_nat_small) simp
    then have "unat (0x40110 + of_nat q :: u64) = 0x40110 + q" using that by (subst unat_add_lem [THEN iffD1]) auto
    then show ?thesis by (auto simp: sample_frames_def word_unat_eq_iff)
  qed
  then show ?thesis by (simp add: boot_ok_def) (simp add: sample_frames_def)
qed

theorem arm_boot_translation_witness:
  "\<exists>tb'. init_mm_tables 0x40080000 0x40234567 sample_frames (\<lambda>_ _. 0) = Some tb' \<and>
     hw_walk tb' 0x40234FFF 3 0x40100 = Some 0x40234FFF \<and> hw_walk tb' 0x40235000 3 0x40100 = None \<and>
     hw_walk tb' 0xF000001234 3 0x40100 = Some 0x40401234"
proof -
  obtain tb' where t: "init_mm_tables 0x40080000 0x40234567 sample_frames (\<lambda>_ _. 0) = Some tb'"
    "\<And>va. va < push_bit 48 1 \<Longrightarrow> hw_walk tb' va 3 (bf_pgtable sample_frames) = boot_view 0x40234567 va"
    using arm_boot_translation [of "0x40234567", OF _ _ sample_frames_ok] by auto
  have "bf_pgtable sample_frames = 0x40100" by (simp add: sample_frames_def)
  then show ?thesis using t(1) t(2) [of "0x40234FFF"] t(2) [of "0x40235000"] t(2) [of "0xF000001234"]
    by (auto simp: boot_view_def PAGE_VIRT_OFFSET_def PAGE_PHYS_OFFSET_def)
qed

end
