(* ===== verification/Vgic.thy ===== *)
theory Vgic
  imports HC_Prelude
begin

text \<open>
  The virtual interrupt controller of the AArch64 port (\<^verbatim>\<open>src/core/emul_gic.c\<close>): the queue of pending virtual
  interrupts of each task, their delivery into the list registers of the CPU interface, saving and restoring
  the CPU interface on a context switch, and software-generated interrupts between guest CPUs.

  The registers of the CPU interface of a physical CPU are the record \<open>cpuif\<close>; a system register access
  with a number out of range reads 0 and writes nothing, as in the switches of the code. The array
  \<^verbatim>\<open>pending_virq\<close> of a task is a list of fixed length, of which the first \<open>pv_count\<close> entries are in use.
\<close>

section \<open>State\<close>

record cpuif =
  ich_hcr :: u64
  ich_vmcr :: u64
  ich_vtr :: u64
  ich_lr :: "nat \<Rightarrow> u64"
  ich_ap0r :: "nat \<Rightarrow> u64"
  ich_ap1r :: "nat \<Rightarrow> u64"

record vgic_ctx =
  x_hcr :: u64
  x_vmcr :: u64
  x_lr_count :: nat
  x_ap0r :: "nat \<Rightarrow> u64"
  x_ap1r :: "nat \<Rightarrow> u64"
  x_lr :: "nat \<Rightarrow> u64"
  x_initialized :: bool

record gtask =
  pv :: "int list"
  pv_count :: nat
  g_mpidr :: u64

record gsys =
  gtasks :: "nat \<Rightarrow> gtask"
  gs_running :: "nat \<Rightarrow> nat option"
  gs_ready :: "nat list"
  gs_current :: "nat option"

record gic_vcpu_sgi =
  sgi_intid :: u8
  sgi_irm :: bool
  sgi_aff3 :: u8
  sgi_aff2 :: u8
  sgi_aff1 :: u8
  sgi_rs :: u8
  sgi_target_list :: u32

abbreviation (input) "VCPU_MAX_PENDING_VIRQ \<equiv> 8 :: nat"
abbreviation (input) "VCPU_MAX_VGIC_LRS \<equiv> 16 :: nat"

section \<open>Register access\<close>

definition gic_emul_v3_read_lr :: "nat \<Rightarrow> cpuif \<Rightarrow> u64" where
  "gic_emul_v3_read_lr lr h = (if lr < 16 then ich_lr h lr else 0)"

definition gic_emul_v3_write_lr :: "nat \<Rightarrow> u64 \<Rightarrow> cpuif \<Rightarrow> cpuif" where
  "gic_emul_v3_write_lr lr v h = (if lr < 16 then h\<lparr>ich_lr := (ich_lr h)(lr := v)\<rparr> else h)"

definition gic_emul_v3_read_ap0r :: "nat \<Rightarrow> cpuif \<Rightarrow> u64" where
  "gic_emul_v3_read_ap0r n h = (if n < 4 then ich_ap0r h n else 0)"

definition gic_emul_v3_read_ap1r :: "nat \<Rightarrow> cpuif \<Rightarrow> u64" where
  "gic_emul_v3_read_ap1r n h = (if n < 4 then ich_ap1r h n else 0)"

definition gic_emul_v3_write_ap0r :: "nat \<Rightarrow> u64 \<Rightarrow> cpuif \<Rightarrow> cpuif" where
  "gic_emul_v3_write_ap0r n v h = (if n < 4 then h\<lparr>ich_ap0r := (ich_ap0r h)(n := v)\<rparr> else h)"

definition gic_emul_v3_write_ap1r :: "nat \<Rightarrow> u64 \<Rightarrow> cpuif \<Rightarrow> cpuif" where
  "gic_emul_v3_write_ap1r n v h = (if n < 4 then h\<lparr>ich_ap1r := (ich_ap1r h)(n := v)\<rparr> else h)"

text \<open>\<open>gic_emul_probe_cpuif_caps\<close>: the number of list registers in use; one active-priority register of each kind.\<close>

definition gic_emul_probe_cpuif_caps :: "cpuif \<Rightarrow> nat" where
  "gic_emul_probe_cpuif_caps h = min (unat (ich_vtr h AND 0x1f) + 1) VCPU_MAX_VGIC_LRS"

definition APR_COUNT :: nat where "APR_COUNT = 1"

definition gic_emul_default_vmcr :: u64 where
  "gic_emul_default_vmcr = push_bit 1 1 OR push_bit 9 1 OR push_bit 24 0xff"

section \<open>Context switch\<close>

definition save_apr :: "cpuif \<Rightarrow> nat \<Rightarrow> vgic_ctx \<Rightarrow> vgic_ctx" where
  "save_apr h i x = x\<lparr>x_ap0r := (x_ap0r x)(i := gic_emul_v3_read_ap0r i h), x_ap1r := (x_ap1r x)(i := gic_emul_v3_read_ap1r i h)\<rparr>"

definition gic_vcpu_save :: "nat \<Rightarrow> cpuif \<Rightarrow> vgic_ctx \<Rightarrow> vgic_ctx" where
  "gic_vcpu_save lrs h x =
     (let x1 = x\<lparr>x_hcr := ich_hcr h, x_vmcr := ich_vmcr h, x_lr_count := lrs\<rparr>;
          x2 = fold (save_apr h) [0..<APR_COUNT] x1;
          x3 = fold (\<lambda>i y. y\<lparr>x_lr := (x_lr y)(i := gic_emul_v3_read_lr i h)\<rparr>) [0..<x_lr_count x2] x2
      in x3\<lparr>x_initialized := True\<rparr>)"

definition write_apr :: "(nat \<Rightarrow> u64) \<Rightarrow> (nat \<Rightarrow> u64) \<Rightarrow> nat \<Rightarrow> cpuif \<Rightarrow> cpuif" where
  "write_apr f g i h = gic_emul_v3_write_ap1r i (g i) (gic_emul_v3_write_ap0r i (f i) h)"

definition gic_vcpu_restore :: "nat \<Rightarrow> vgic_ctx \<Rightarrow> cpuif \<Rightarrow> cpuif" where
  "gic_vcpu_restore lrs x h =
     (let h1 = fold (\<lambda>i. gic_emul_v3_write_lr i 0) [0..<lrs] (h\<lparr>ich_hcr := 0\<rparr>)
      in if x_initialized x
         then let h2 = fold (write_apr (x_ap0r x) (x_ap1r x)) [0..<APR_COUNT] (h1\<lparr>ich_vmcr := x_vmcr x\<rparr>);
                  h3 = fold (\<lambda>i. gic_emul_v3_write_lr i (x_lr x i)) [0..<(if x_lr_count x < lrs then x_lr_count x else lrs)] h2
              in h3\<lparr>ich_hcr := x_hcr x OR 1\<rparr>
         else let h2 = fold (write_apr (\<lambda>_. 0) (\<lambda>_. 0)) [0..<APR_COUNT] (h1\<lparr>ich_vmcr := gic_emul_default_vmcr\<rparr>)
              in h2\<lparr>ich_hcr := 1\<rparr>)"

definition gic_vcpu_init_pcpu :: "cpuif \<Rightarrow> nat \<times> cpuif" where
  "gic_vcpu_init_pcpu h =
     (let lrs = gic_emul_probe_cpuif_caps h;
          h1 = fold (write_apr (\<lambda>_. 0) (\<lambda>_. 0)) [0..<APR_COUNT] (h\<lparr>ich_vmcr := gic_emul_default_vmcr\<rparr>);
          h2 = fold (\<lambda>i. gic_emul_v3_write_lr i 0) [0..<lrs] h1
      in (lrs, h2\<lparr>ich_hcr := 1\<rparr>))"

section \<open>Pending interrupts\<close>

definition gic_vcpu_inject_virq :: "int \<Rightarrow> gtask \<Rightarrow> gtask" where
  "gic_vcpu_inject_virq virq t =
     (if VCPU_MAX_PENDING_VIRQ \<le> pv_count t then t
      else if \<exists>i \<in> set [0..<pv_count t]. pv t ! i = virq then t
      else t\<lparr>pv := (pv t)[pv_count t := virq], pv_count := pv_count t + 1\<rparr>)"

definition lr_busy :: "u64 \<Rightarrow> bool" where
  "lr_busy lr \<longleftrightarrow> lr AND (push_bit 62 1 OR push_bit 63 1) \<noteq> 0"

definition make_lr :: "int \<Rightarrow> u64" where
  "make_lr virq = (word_of_int virq AND 0xffffffff) OR push_bit 60 1 OR push_bit 62 1 OR push_bit 48 (0xa0 AND 0xff)"

definition free_lr :: "nat \<Rightarrow> cpuif \<Rightarrow> nat option" where
  "free_lr lrs h = List.find (\<lambda>i. \<not> lr_busy (gic_emul_v3_read_lr i h)) [0..<lrs]"

text \<open>The loop of \<open>gic_vcpu_flush_lr\<close> over \<open>is\<close>, the indices still to be looked at.\<close>

fun flush_lr_loop :: "nat \<Rightarrow> nat list \<Rightarrow> nat \<Rightarrow> int list \<Rightarrow> cpuif \<Rightarrow> nat \<times> int list \<times> cpuif" where
  "flush_lr_loop lrs [] keep a h = (keep, a, h)"
| "flush_lr_loop lrs (i # is) keep a h =
     (case free_lr lrs h of
        None \<Rightarrow> flush_lr_loop lrs is (keep + 1) (a[keep := a ! i]) h
      | Some slot \<Rightarrow> flush_lr_loop lrs is keep a (gic_emul_v3_write_lr slot (make_lr (a ! i)) h))"

definition gic_vcpu_flush_lr :: "nat \<Rightarrow> gtask \<Rightarrow> cpuif \<Rightarrow> gtask \<times> cpuif" where
  "gic_vcpu_flush_lr lrs t h =
     (case flush_lr_loop lrs [0..<pv_count t] 0 (pv t) h of
        (keep, a, h') \<Rightarrow> (t\<lparr>pv := a, pv_count := keep\<rparr>, h'))"

section \<open>Software-generated interrupts\<close>

definition gic_emul_mpidr_affinity :: "u64 \<Rightarrow> u64" where
  "gic_emul_mpidr_affinity m = m AND 0xff00ffffff"

definition gic_emul_sgi_target_mpidr :: "gic_vcpu_sgi \<Rightarrow> u32 \<Rightarrow> u64" where
  "gic_emul_sgi_target_mpidr sgi aff0 =
     push_bit 32 (ucast (sgi_aff3 sgi)) OR push_bit 16 (ucast (sgi_aff2 sgi)) OR push_bit 8 (ucast (sgi_aff1 sgi)) OR ucast aff0"

definition find_task_by_mpidr :: "u64 \<Rightarrow> gsys \<Rightarrow> nat option" where
  "find_task_by_mpidr m s =
     (let aff = gic_emul_mpidr_affinity m;
          is = (\<lambda>t. gic_emul_mpidr_affinity (g_mpidr (gtasks s t)) = aff)
      in case List.find (\<lambda>i. case gs_running s i of None \<Rightarrow> False | Some t \<Rightarrow> is t) [0, 1, 2, 3] of
           Some i \<Rightarrow> gs_running s i
         | None \<Rightarrow> List.find is (gs_ready s))"

definition inject :: "int \<Rightarrow> nat \<Rightarrow> gsys \<Rightarrow> gsys" where
  "inject virq t s = s\<lparr>gtasks := (gtasks s)(t := gic_vcpu_inject_virq virq (gtasks s t))\<rparr>"

definition gic_emul_send_sgi_to_task :: "nat option \<Rightarrow> nat option \<Rightarrow> int \<Rightarrow> gsys \<Rightarrow> nat \<times> gsys" where
  "gic_emul_send_sgi_to_task target source irq s =
     (case target of None \<Rightarrow> (0, s) | Some t \<Rightarrow> if target = source then (0, s) else (1, inject irq t s))"

definition send_to_ready :: "nat option \<Rightarrow> int \<Rightarrow> nat \<Rightarrow> nat \<times> gsys \<Rightarrow> nat \<times> gsys" where
  "send_to_ready source irq t ds =
     (case ds of (d, s) \<Rightarrow> case gic_emul_send_sgi_to_task (Some t) source irq s of (k, s') \<Rightarrow> (d + k, s'))"

definition send_to_bit :: "gic_vcpu_sgi \<Rightarrow> nat \<Rightarrow> nat \<times> gsys \<Rightarrow> nat \<times> gsys" where
  "send_to_bit sgi b ds =
     (case ds of (d, s) \<Rightarrow>
        if \<not> bit (sgi_target_list sgi) b then (d, s)
        else let aff0 = ucast (sgi_rs sgi) * 16 + of_nat b
             in case find_task_by_mpidr (gic_emul_sgi_target_mpidr sgi aff0) s of
                  None \<Rightarrow> (d, s)
                | Some t \<Rightarrow> (d + 1, inject (uint (sgi_intid sgi)) t s))"

definition gic_vcpu_send_sgi :: "gic_vcpu_sgi option \<Rightarrow> gsys \<Rightarrow> int \<times> nat \<times> gsys" where
  "gic_vcpu_send_sgi sgi_ptr s =
     (case sgi_ptr of
        None \<Rightarrow> (- 1, 0, s)
      | Some sgi \<Rightarrow>
          (let source = gs_current s
           in if sgi_irm sgi
              then let ds = gic_emul_send_sgi_to_task (gs_current s) source (uint (sgi_intid sgi)) s
                   in (0, fold (send_to_ready source (uint (sgi_intid sgi))) (gs_ready s) ds)
              else (0, fold (send_to_bit sgi) [0..<16] (0, s))))"

section \<open>The queue of a task\<close>

definition virq_queue :: "gtask \<Rightarrow> int list" where
  "virq_queue t = take (pv_count t) (pv t)"

definition gt_ok :: "gtask \<Rightarrow> bool" where
  "gt_ok t \<longleftrightarrow> length (pv t) = VCPU_MAX_PENDING_VIRQ \<and> pv_count t \<le> VCPU_MAX_PENDING_VIRQ"

lemma virq_queue_nth: "(\<exists>i \<in> set [0..<pv_count t]. pv t ! i = virq) \<longleftrightarrow> virq \<in> set (virq_queue t)" if "gt_ok t"
  using that by (auto simp: virq_queue_def gt_ok_def in_set_conv_nth)

lemma inject_queue:
  assumes "gt_ok t"
  shows "gt_ok (gic_vcpu_inject_virq virq t)"
    "virq_queue (gic_vcpu_inject_virq virq t) =
       (if VCPU_MAX_PENDING_VIRQ \<le> length (virq_queue t) \<or> virq \<in> set (virq_queue t) then virq_queue t
        else virq_queue t @ [virq])"
proof -
  have n: "length (virq_queue t) = pv_count t" using assms by (simp add: virq_queue_def gt_ok_def)
  show "gt_ok (gic_vcpu_inject_virq virq t)" using assms by (auto simp: gic_vcpu_inject_virq_def gt_ok_def)
  show "virq_queue (gic_vcpu_inject_virq virq t) =
       (if VCPU_MAX_PENDING_VIRQ \<le> length (virq_queue t) \<or> virq \<in> set (virq_queue t) then virq_queue t
        else virq_queue t @ [virq])"
    unfolding gic_vcpu_inject_virq_def virq_queue_nth [OF assms] n
    using assms by (auto simp: virq_queue_def gt_ok_def take_Suc_conv_app_nth)
qed

section \<open>Delivery into the list registers\<close>

definition free_lrs :: "nat \<Rightarrow> cpuif \<Rightarrow> nat list" where
  "free_lrs lrs h = filter (\<lambda>i. \<not> lr_busy (ich_lr h i)) [0..<lrs]"

definition place :: "nat \<times> int \<Rightarrow> cpuif \<Rightarrow> cpuif" where
  "place = (\<lambda>(i, v) h. h\<lparr>ich_lr := (ich_lr h)(i := make_lr v)\<rparr>)"

lemma find_filter_hd: "List.find P xs = (case filter P xs of [] \<Rightarrow> None | x # _ \<Rightarrow> Some x)"
  by (induction xs) simp_all

lemma free_lr_hd: "lrs \<le> 16 \<Longrightarrow> free_lr lrs h = (case free_lrs lrs h of [] \<Rightarrow> None | i # _ \<Rightarrow> Some i)"
proof -
  assume "lrs \<le> 16"
  then have "filter (\<lambda>i. \<not> lr_busy (gic_emul_v3_read_lr i h)) [0..<lrs] = free_lrs lrs h"
    unfolding free_lrs_def by (intro filter_cong) (auto simp: gic_emul_v3_read_lr_def)
  then show ?thesis by (simp add: free_lr_def find_filter_hd)
qed

lemma make_lr_busy: "lr_busy (make_lr v)"
proof -
  have "bit (make_lr v AND (push_bit 62 1 OR push_bit 63 1)) 62" by (simp add: make_lr_def bit_simps)
  then show ?thesis unfolding lr_busy_def by force
qed

lemma filter_drop_hd:
  assumes "distinct xs" "filter P xs = i # is"
  shows "filter (\<lambda>j. j \<noteq> i \<and> P j) xs = is"
proof -
  have "filter (\<lambda>j. j \<noteq> i \<and> P j) xs = filter (\<lambda>j. j \<noteq> i) (filter P xs)" by (simp add: filter_filter conj_commute)
  also have "\<dots> = is" using distinct_filter [OF assms(1), of P] unfolding assms(2) by (auto simp: filter_id_conv)
  finally show ?thesis .
qed

lemma free_lrs_place:
  assumes "free_lrs lrs h = i # is"
  shows "free_lrs lrs (place (i, v) h) = is"
proof -
  have "free_lrs lrs (place (i, v) h) = filter (\<lambda>j. j \<noteq> i \<and> \<not> lr_busy (ich_lr h j)) [0..<lrs]"
    unfolding free_lrs_def by (rule filter_cong) (auto simp: place_def make_lr_busy)
  also have "\<dots> = is" by (rule filter_drop_hd) (use assms in \<open>simp_all add: free_lrs_def\<close>)
  finally show ?thesis .
qed

text \<open>The queue \<open>q\<close> of the entries still to be looked at starts at position \<open>i\<close> of the array.\<close>

lemma flush_loop_full:
  assumes "lrs \<le> 16" "free_lrs lrs h = []" "keep \<le> i" "n \<le> length a"
  shows "flush_lr_loop lrs [i..<n] keep a h = (keep + (n - i), take keep a @ take (n - i) (drop i a) @ drop (keep + (n - i)) a, h)"
  using assms(3,4)
proof (induction "n - i" arbitrary: i keep a)
  case 0
  then show ?case by simp
next
  case (Suc k)
  then have i: "i < n" "i < length a" "keep < length a" by auto
  have "flush_lr_loop lrs [i..<n] keep a h = flush_lr_loop lrs [Suc i..<n] (keep + 1) (a[keep := a ! i]) h"
    using i assms(1,2) by (simp add: upt_conv_Cons free_lr_hd)
  also have "\<dots> = (keep + 1 + (n - Suc i), take (keep + 1) (a[keep := a ! i]) @ take (n - Suc i) (drop (Suc i) (a[keep := a ! i])) @
      drop (keep + 1 + (n - Suc i)) (a[keep := a ! i]), h)"
    using Suc by (intro Suc.hyps(1)) auto
  also have "take (keep + 1) (a[keep := a ! i]) = take keep a @ [a ! i]"
    using i by (simp add: take_Suc_conv_app_nth)
  also have "take (n - Suc i) (drop (Suc i) (a[keep := a ! i])) = take (n - Suc i) (drop (Suc i) a)"
    using Suc.prems i by simp
  also have e: "keep + 1 + (n - Suc i) = keep + (n - i)" using i by simp
  also have "drop (keep + (n - i)) (a[keep := a ! i]) = drop (keep + (n - i)) a" using i by simp
  finally have "flush_lr_loop lrs [i..<n] keep a h =
      (keep + (n - i), (take keep a @ [a ! i]) @ take (n - Suc i) (drop (Suc i) a) @ drop (keep + (n - i)) a, h)" .
  moreover have "take (n - i) (drop i a) = a ! i # take (n - Suc i) (drop (Suc i) a)"
    using i by (metis Cons_nth_drop_Suc Suc_diff_Suc take_Suc_Cons)
  ultimately show ?case by simp
qed

lemma flush_loop_spec:
  assumes "lrs \<le> 16" "i \<le> n" "n \<le> length a"
  shows "\<exists>k a'. flush_lr_loop lrs [i..<n] 0 a h = (k, a', fold place (zip (free_lrs lrs h) (take (n - i) (drop i a))) h) \<and>
    length a' = length a \<and> k \<le> n - i \<and> take k a' = drop (length (free_lrs lrs h)) (take (n - i) (drop i a))"
  using assms(2)
proof (induction "n - i" arbitrary: i h)
  case 0
  then show ?case using assms(2) by auto
next
  case (Suc m)
  show ?case
  proof (cases "free_lrs lrs h")
    case Nil
    have e: "flush_lr_loop lrs [i..<n] 0 a h = (n - i, take (n - i) (drop i a) @ drop (n - i) a, h)"
      using flush_loop_full [OF assms(1) Nil, of 0 i n a] assms(3) by simp
    show ?thesis unfolding e Nil using Suc assms(3)
      by (intro exI [of _ "n - i"] exI [of _ "take (n - i) (drop i a) @ drop (n - i) a"]) auto
  next
    case (Cons l ls)
    have i: "i < n" "i < length a" using Suc assms(3) by auto
    have "l \<in> set (free_lrs lrs h)" using Cons by simp
    then have l: "l < 16" using assms(1) by (simp add: free_lrs_def)
    have c: "take (n - i) (drop i a) = a ! i # take (n - Suc i) (drop (Suc i) a)"
      using i by (metis Cons_nth_drop_Suc Suc_diff_Suc take_Suc_Cons)
    have s: "flush_lr_loop lrs [i..<n] 0 a h = flush_lr_loop lrs [Suc i..<n] 0 a (place (l, a ! i) h)"
      using i l assms(1) Cons by (simp add: upt_conv_Cons free_lr_hd place_def gic_emul_v3_write_lr_def)
    have "m = n - Suc i" "Suc i \<le> n" using Suc i by auto
    from Suc.hyps(1) [OF this, of "place (l, a ! i) h"] free_lrs_place [OF Cons, of "a ! i"]
    obtain k a' where "flush_lr_loop lrs [Suc i..<n] 0 a (place (l, a ! i) h) =
        (k, a', fold place (zip ls (take (n - Suc i) (drop (Suc i) a))) (place (l, a ! i) h))"
      "length a' = length a" "k \<le> n - Suc i" "take k a' = drop (length ls) (take (n - Suc i) (drop (Suc i) a))" by auto
    then show ?thesis unfolding s c Cons by auto
  qed
qed

lemma place_fold_lr:
  assumes "distinct is"
  shows "ich_lr (fold place (zip is q) h) j =
    (case List.find (\<lambda>p. fst p = j) (zip is q) of None \<Rightarrow> ich_lr h j | Some p \<Rightarrow> make_lr (snd p))"
  using assms
proof (induction "is" arbitrary: q h)
  case (Cons i xs)
  show ?case
  proof (cases q)
    case q: (Cons v vs)
    have "List.find (\<lambda>p. fst p = i) (zip xs vs) = None" using Cons.prems by (auto simp: find_None_iff dest: set_zip_leftD)
    then show ?thesis using Cons q by (cases "i = j") (auto simp: place_def split: option.split)
  qed simp
qed simp

lemma vgic_flush_spec:
  assumes "gt_ok t" "lrs \<le> VCPU_MAX_VGIC_LRS"
  shows "case gic_vcpu_flush_lr lrs t h of (t', h') \<Rightarrow>
    gt_ok t' \<and> virq_queue t' = drop (length (free_lrs lrs h)) (virq_queue t) \<and>
    h' = fold place (zip (free_lrs lrs h) (virq_queue t)) h"
proof -
  let ?f = "free_lrs lrs h" and ?q = "virq_queue t"
  have t: "pv_count t \<le> length (pv t)" "length (pv t) = VCPU_MAX_PENDING_VIRQ" using assms(1) by (auto simp: gt_ok_def)
  obtain k a' where L: "flush_lr_loop lrs [0..<pv_count t] 0 (pv t) h = (k, a', fold place (zip ?f ?q) h)"
    "length a' = length (pv t)" "k \<le> pv_count t" "take k a' = drop (length ?f) ?q"
    using flush_loop_spec [OF assms(2) _ t(1), of 0 h] by (auto simp: virq_queue_def)
  show ?thesis unfolding gic_vcpu_flush_lr_def L prod.case using L(2-4) t by (auto simp: gt_ok_def virq_queue_def)
qed

section \<open>Properties\<close>

text \<open>
  Delivering pending interrupts: every list register that holds a pending or active interrupt keeps
  it; the free list registers, in increasing order, receive the queued interrupts in the order they were
  queued, as pending group-1 interrupts of that number; what does not fit stays queued, in order.
  Nothing is lost, and nothing else of the CPU interface changes.
\<close>

theorem vgic_flush_delivers:
  assumes "gt_ok t" "lrs \<le> VCPU_MAX_VGIC_LRS"
  shows "case gic_vcpu_flush_lr lrs t h of (t', h') \<Rightarrow>
    gt_ok t' \<and> virq_queue t' = drop (length (free_lrs lrs h)) (virq_queue t) \<and>
    h' = fold place (zip (free_lrs lrs h) (virq_queue t)) h \<and>
    (\<forall>j. lr_busy (ich_lr h j) \<longrightarrow> ich_lr h' j = ich_lr h j) \<and>
    (\<forall>j < length (zip (free_lrs lrs h) (virq_queue t)).
       ich_lr h' (free_lrs lrs h ! j) = make_lr (virq_queue t ! j))"
proof -
  let ?f = "free_lrs lrs h" and ?q = "virq_queue t"
  have d: "distinct ?f" "\<forall>i \<in> set ?f. \<not> lr_busy (ich_lr h i)" by (simp_all add: free_lrs_def)
  note lr = place_fold_lr [OF d(1), of ?q h]
  have busy: "ich_lr (fold place (zip ?f ?q) h) j = ich_lr h j" if "lr_busy (ich_lr h j)" for j
  proof -
    have "List.find (\<lambda>p. fst p = j) (zip ?f ?q) = None" using that d(2) by (auto simp: find_None_iff dest: set_zip_leftD)
    then show ?thesis by (simp add: lr)
  qed
  have new: "ich_lr (fold place (zip ?f ?q) h) (?f ! j) = make_lr (?q ! j)" if j: "j < length (zip ?f ?q)" for j
  proof -
    have "List.find (\<lambda>p. fst p = ?f ! j) (zip ?f ?q) = Some (?f ! j, ?q ! j)"
      unfolding find_Some_iff using j d(1) by (intro exI [of _ j]) (auto simp: nth_eq_iff_index_eq)
    then show ?thesis by (simp add: lr)
  qed
  show ?thesis using vgic_flush_spec [OF assms, of h] busy new by auto
qed

definition idle_cpuif :: cpuif where
  "idle_cpuif = \<lparr>ich_hcr = 1, ich_vmcr = 0, ich_vtr = 3, ich_lr = (\<lambda>_. 0), ich_ap0r = (\<lambda>_. 0), ich_ap1r = (\<lambda>_. 0)\<rparr>"

definition blank_gtask :: gtask where
  "blank_gtask = \<lparr>pv = replicate 8 0, pv_count = 0, g_mpidr = 0\<rparr>"

lemma blank_gtask_ok: "gt_ok blank_gtask" "virq_queue blank_gtask = []"
  by (simp_all add: gt_ok_def virq_queue_def blank_gtask_def)

lemma idle_free: "free_lrs 4 idle_cpuif = [0, 1, 2, 3]"
  by (simp add: free_lrs_def idle_cpuif_def lr_busy_def upt_rec)

theorem vgic_flush_delivers_witness:
  "let t = gic_vcpu_inject_virq 27 (gic_vcpu_inject_virq 33 blank_gtask)
   in case gic_vcpu_flush_lr 4 t idle_cpuif of (t', h') \<Rightarrow>
        virq_queue t' = [] \<and> ich_lr h' 0 = make_lr 33 \<and> ich_lr h' 1 = make_lr 27"
proof -
  let ?t = "gic_vcpu_inject_virq 27 (gic_vcpu_inject_virq 33 blank_gtask)"
  have q: "gt_ok ?t" "virq_queue ?t = [33, 27]" by (simp_all add: inject_queue blank_gtask_ok)
  obtain t' h' where f: "gic_vcpu_flush_lr 4 ?t idle_cpuif = (t', h')" by fastforce
  note V = vgic_flush_delivers [OF q(1), of 4 idle_cpuif, unfolded f prod.case q(2) idle_free]
  have "\<forall>j < 2. ich_lr h' ([0, 1, 2, 3] ! j) = make_lr ([33, 27] ! j)"
    using conjunct2 [OF conjunct2 [OF conjunct2 [OF conjunct2 [OF V]]]] by (simp add: numeral_2_eq_2)
  moreover have "virq_queue t' = []" using V by simp
  ultimately have "virq_queue t' = []" "\<forall>j < 2. ich_lr h' ([0, 1, 2, 3] ! j) = make_lr ([33, 27] ! j)"
    by blast+
  from this(1) this(2) [rule_format, of 0] this(2) [rule_format, of 1] show ?thesis by (simp add: f)
qed

text \<open>
  The queue does not look at the list registers: an interrupt that is raised again while it is still
  pending in a list register is delivered into a second one, which the architecture does not allow.
\<close>

lemma vgic_duplicate_intid:
  "\<exists>t' h'. gic_vcpu_flush_lr 4 (gic_vcpu_inject_virq 27 blank_gtask)
      (snd (gic_vcpu_flush_lr 4 (gic_vcpu_inject_virq 27 blank_gtask) idle_cpuif)) = (t', h') \<and>
     ich_lr h' 0 = make_lr 27 \<and> ich_lr h' 1 = make_lr 27"
proof -
  let ?t = "gic_vcpu_inject_virq 27 blank_gtask"
  have q: "gt_ok ?t" "virq_queue ?t = [27]" by (simp_all add: inject_queue blank_gtask_ok)
  obtain t1 h1 where f1: "gic_vcpu_flush_lr 4 ?t idle_cpuif = (t1, h1)" by fastforce
  have h1: "h1 = place (0, 27) idle_cpuif" using vgic_flush_spec [OF q(1), of 4 idle_cpuif] f1 by (simp add: q(2) idle_free)
  have fr: "free_lrs 4 h1 = [1, 2, 3]" unfolding h1 by (rule free_lrs_place [OF idle_free])
  obtain t2 h2 where f2: "gic_vcpu_flush_lr 4 ?t h1 = (t2, h2)" by fastforce
  have "h2 = place (1, 27) h1" using vgic_flush_spec [OF q(1), of 4 h1] f2 by (simp add: q(2) fr)
  then have "ich_lr h2 0 = make_lr 27" "ich_lr h2 1 = make_lr 27" by (simp_all add: h1 place_def)
  with f1 f2 show ?thesis by (intro exI [of _ t2] exI [of _ h2]) simp
qed

end
