(* ===== verification/Arm_Vcpu.thy ===== *)
theory Arm_Vcpu
  imports Vgic Guest_Mem Arm_Mmu
begin

text \<open>
  Virtual CPUs of the AArch64 port (\<^verbatim>\<open>src/arch/aarch64/vcpu.c\<close>, \<^verbatim>\<open>aarch64_arch_ops.c\<close>, the register accessors of
  \<^verbatim>\<open>emulate.c\<close>) and the timers (\<^verbatim>\<open>timer.c\<close>): the registers of a physical CPU, what a virtual CPU keeps of them, the
  transfer in both directions and the initial state.

  The EL1 registers that a guest owns are the record \<open>el1_regs\<close>; a physical CPU (\<open>arm_cpu\<close>) has these, the registers of
  the hypervisor that the code uses, and the virtual CPU interface of its interrupt controller. Registers are plain
  storage, except that a write to a timer value register sets the compare value. The status bit of a timer control
  register depends on the count and is not part of the stored value. What the code does to the outside (register
  windows of the interrupt controller, end of interrupt, TLB maintenance) is recorded in \<open>ph_events\<close>. The AArch32
  words of the saved frame are left out.
\<close>

section \<open>State\<close>

record arm_regs =
  gx :: "nat \<Rightarrow> u64"
  g_sp :: u64
  g_pc :: u64
  g_cpsr :: u64
  g_esr :: u64
  g_spsr_el1 :: u64
  g_sp_el0 :: u64
  g_sp_el1 :: u64
  g_elr_el1 :: u64

record el1_regs =
  r_csselr :: u64
  r_q :: "nat \<Rightarrow> u64 \<times> u64"
  r_fpsr :: u64
  r_fpcr :: u64
  r_cpacr :: u64
  r_contextidr :: u64
  r_tpidr_el0 :: u64
  r_tpidrro_el0 :: u64
  r_tpidr_el1 :: u64
  r_cntkctl :: u64
  r_cntv_ctl :: u64
  r_cntv_cval :: u64
  r_cntp_ctl :: u64
  r_cntp_cval :: u64
  r_par :: u64
  r_sctlr :: u64
  r_vbar :: u64
  r_tcr :: u64
  r_ttbr0 :: u64
  r_ttbr1 :: u64
  r_mair :: u64
  r_amair :: u64
  r_far :: u64
  r_esr :: u64
  r_afsr0 :: u64
  r_afsr1 :: u64
  r_spsr :: u64
  r_elr :: u64
  r_sp_el0 :: u64
  r_sp_el1 :: u64

record icc_regs =
  icc_pmr :: u64
  icc_ctlr :: u64
  icc_igrpen1 :: u64
  icc_bpr1 :: u64
  icc_sre :: u64

datatype arm_event =
    Clrex | TlbiVmalle1is | TlbiVmalls12e1is | TlbiIpa u64 | TlbiGuestAll
  | Mmio32 u64 u32 | WriteSgi1r u64 | WriteEoir int | WriteDir int | CallFunc u64 u64

record arm_cpu =
  ph_el1 :: el1_regs
  ph_icc :: icc_regs
  ph_ich :: cpuif
  ph_vmpidr_el2 :: u64
  ph_vpidr_el2 :: u64
  ph_midr :: u64
  ph_mpidr :: u64
  ph_cnthp_ctl :: u64
  ph_cnthp_cval :: u64
  ph_cntfrq :: u64
  ph_cntpct :: u64
  ph_esr_el2 :: u64
  ph_far_el2 :: u64
  ph_hpfar_el2 :: u64
  ph_events :: "arm_event list"

text \<open>
  \<open>vcpu_t\<close> with its member \<open>arch\<close>. Six fields have 32 bits in the code; \<open>va_gicc\<close> and \<open>va_vgic\<close> are the saved parts of
  the interrupt controller, the former with its flag.
\<close>

record arm_vcpu =
  va_vcpu_id :: int
  va_priority :: int
  va_stack :: u64
  va_far :: u64
  va_esr :: u32
  va_afsr0 :: u32
  va_afsr1 :: u32
  va_vbar :: u64
  va_ttbcr :: u64
  va_ttbr0 :: u64
  va_ttbr1 :: u64
  va_par :: u64
  va_mair :: u64
  va_amair :: u64
  va_sctlr_el1 :: u64
  va_cpacr :: u32
  va_contextidr :: u32
  va_spsr_el1 :: u64
  va_elr_el1 :: u64
  va_sp_el0 :: u64
  va_tpidr_el0 :: u64
  va_tpidr_el1 :: u64
  va_tpidrro_el0 :: u64
  va_csselr :: u32
  va_vmpidr :: u64
  va_q :: "nat \<Rightarrow> u64 \<times> u64"
  va_fpsr :: u64
  va_fpcr :: u64
  va_cntkctl :: u64
  va_phys_ctlr :: u64
  va_phys_cval :: u64
  va_virt_ctlr :: u64
  va_virt_cval :: u64
  va_gicc :: icc_regs
  va_gicc_initialized :: bool
  va_vgic :: vgic_ctx
  va_saved_sp :: u64
  va_regs :: arm_regs
  va_mem :: "mem_region list"
  va_mm_info :: stage2_mm_info

definition zero_arm_regs :: arm_regs where
  "zero_arm_regs = \<lparr>gx = (\<lambda>_. 0), g_sp = 0, g_pc = 0, g_cpsr = 0, g_esr = 0, g_spsr_el1 = 0, g_sp_el0 = 0, g_sp_el1 = 0, g_elr_el1 = 0\<rparr>"

definition zero_icc :: icc_regs where
  "zero_icc = \<lparr>icc_pmr = 0, icc_ctlr = 0, icc_igrpen1 = 0, icc_bpr1 = 0, icc_sre = 0\<rparr>"

definition zero_vgic_ctx :: vgic_ctx where
  "zero_vgic_ctx = \<lparr>x_hcr = 0, x_vmcr = 0, x_lr_count = 0, x_ap0r = (\<lambda>_. 0), x_ap1r = (\<lambda>_. 0), x_lr = (\<lambda>_. 0), x_initialized = False\<rparr>"

text \<open>The structure after \<open>memset\<close>, its fields that are pointers null; \<open>info\<close> stands for the cleared translation data.\<close>

definition zero_arm_vcpu :: "stage2_mm_info \<Rightarrow> arm_vcpu" where
  "zero_arm_vcpu info = \<lparr>va_vcpu_id = 0, va_priority = 0, va_stack = 0, va_far = 0, va_esr = 0, va_afsr0 = 0, va_afsr1 = 0, va_vbar = 0,
     va_ttbcr = 0, va_ttbr0 = 0, va_ttbr1 = 0, va_par = 0, va_mair = 0, va_amair = 0, va_sctlr_el1 = 0, va_cpacr = 0, va_contextidr = 0,
     va_spsr_el1 = 0, va_elr_el1 = 0, va_sp_el0 = 0, va_tpidr_el0 = 0, va_tpidr_el1 = 0, va_tpidrro_el0 = 0, va_csselr = 0, va_vmpidr = 0,
     va_q = (\<lambda>_. (0, 0)), va_fpsr = 0, va_fpcr = 0, va_cntkctl = 0, va_phys_ctlr = 0, va_phys_cval = 0, va_virt_ctlr = 0, va_virt_cval = 0,
     va_gicc = zero_icc, va_gicc_initialized = False, va_vgic = zero_vgic_ctx, va_saved_sp = 0, va_regs = zero_arm_regs, va_mem = [], va_mm_info = info\<rparr>"

definition ph_emit :: "arm_event \<Rightarrow> arm_cpu \<Rightarrow> arm_cpu" where
  "ph_emit e = ph_events_update (\<lambda>es. es @ [e])"

abbreviation upd_el1 :: "(el1_regs \<Rightarrow> el1_regs) \<Rightarrow> arm_cpu \<Rightarrow> arm_cpu" where
  "upd_el1 \<equiv> ph_el1_update"

section \<open>General registers\<close>

text \<open>\<open>ARM_REG_X\<close> indexes the frame from \<open>x0\<close>; \<open>fp\<close> and \<open>lr\<close> are its slots 29 and 30. Any other number reads 0.\<close>

definition arm_reg_read :: "arm_regs \<Rightarrow> int \<Rightarrow> u64" where
  "arm_reg_read regs i = (if 0 \<le> i \<and> i \<le> 30 then gx regs (nat i) else 0)"

definition arm_reg_write :: "int \<Rightarrow> u64 \<Rightarrow> arm_regs \<Rightarrow> arm_regs" where
  "arm_reg_write i v regs = (if 0 \<le> i \<and> i \<le> 30 then regs\<lparr>gx := (gx regs)(nat i := v)\<rparr> else regs)"

definition arch_set_return_addr :: "u64 \<Rightarrow> arm_regs \<Rightarrow> arm_regs" where
  "arch_set_return_addr v regs = regs\<lparr>gx := (gx regs)(30 := v)\<rparr>"

section \<open>Timers\<close>

text \<open>A timer value register holds a signed 32-bit offset from the count.\<close>

definition tval_deadline :: "u64 \<Rightarrow> u64 \<Rightarrow> u64" where
  "tval_deadline count v = count + (scast (ucast v :: u32) :: u64)"

definition arm_hyp_timer_rearm :: "arm_cpu \<Rightarrow> arm_cpu" where
  "arm_hyp_timer_rearm h = h\<lparr>ph_cnthp_cval := tval_deadline (ph_cntpct h) (ph_cntfrq h div 100), ph_cnthp_ctl := 1\<rparr>"

definition hyp_timer_stop :: "arm_cpu \<Rightarrow> arm_cpu" where
  "hyp_timer_stop h = h\<lparr>ph_cnthp_ctl := (ph_cnthp_ctl h OR 2) AND NOT 1\<rparr>"

definition phy_timer_stop :: "arm_cpu \<Rightarrow> arm_cpu" where
  "phy_timer_stop h = upd_el1 (\<lambda>r. r\<lparr>r_cntp_ctl := (r_cntp_ctl r OR 2) AND NOT 1\<rparr>) h"

definition hyp_timer_fire :: "u64 \<Rightarrow> arm_cpu \<Rightarrow> arm_cpu" where
  "hyp_timer_fire v h = h\<lparr>ph_cnthp_cval := tval_deadline (ph_cntpct h) v, ph_cnthp_ctl := (ph_cnthp_ctl h OR 1) AND NOT 2\<rparr>"

definition phy_timer_fire :: "u64 \<Rightarrow> arm_cpu \<Rightarrow> arm_cpu" where
  "phy_timer_fire v h = upd_el1 (\<lambda>r. r\<lparr>r_cntp_cval := tval_deadline (ph_cntpct h) v, r_cntp_ctl := (0 OR 1) AND NOT 2\<rparr>) h"

text \<open>When the timer of the hypervisor signals its interrupt.\<close>

definition hyp_timer_due :: "arm_cpu \<Rightarrow> bool" where
  "hyp_timer_due h \<longleftrightarrow> bit (ph_cnthp_ctl h) 0 \<and> \<not> bit (ph_cnthp_ctl h) 1 \<and> ph_cnthp_cval h \<le> ph_cntpct h"

section \<open>Context switch\<close>

definition vcpu_fpsimd_save :: "el1_regs \<Rightarrow> arm_vcpu \<Rightarrow> arm_vcpu" where
  "vcpu_fpsimd_save r c = c\<lparr>va_q := (\<lambda>i. if i < 32 then r_q r i else va_q c i), va_fpsr := r_fpsr r, va_fpcr := r_fpcr r\<rparr>"

definition vcpu_fpsimd_restore :: "arm_vcpu \<Rightarrow> el1_regs \<Rightarrow> el1_regs" where
  "vcpu_fpsimd_restore c r = r\<lparr>r_q := (\<lambda>i. if i < 32 then va_q c i else r_q r i), r_fpsr := va_fpsr c, r_fpcr := va_fpcr c\<rparr>"

definition arm_vcpu_context_save :: "arm_vcpu \<Rightarrow> arm_cpu \<Rightarrow> arm_vcpu \<times> arm_cpu" where
  "arm_vcpu_context_save c h =
     (let r = ph_el1 h;
          c1 = vcpu_fpsimd_save r (c\<lparr>va_csselr := ucast (r_csselr r)\<rparr>);
          c2 = c1\<lparr>va_cpacr := ucast (r_cpacr r), va_contextidr := ucast (r_contextidr r), va_tpidr_el0 := r_tpidr_el0 r,
                  va_tpidrro_el0 := r_tpidrro_el0 r, va_tpidr_el1 := r_tpidr_el1 r, va_cntkctl := r_cntkctl r, va_virt_ctlr := r_cntv_ctl r\<rparr>;
          h1 = upd_el1 (\<lambda>r. r\<lparr>r_cntv_ctl := va_virt_ctlr c2 AND NOT 1\<rparr>) h;
          c3 = c2\<lparr>va_virt_cval := r_cntv_cval r, va_phys_ctlr := r_cntp_ctl r, va_phys_cval := r_cntp_cval r, va_par := r_par r,
                  va_gicc := ph_icc h, va_gicc_initialized := True\<rparr>;
          c4 = c3\<lparr>va_sctlr_el1 := r_sctlr r, va_vbar := r_vbar r, va_ttbcr := r_tcr r, va_ttbr0 := r_ttbr0 r, va_ttbr1 := r_ttbr1 r,
                  va_mair := r_mair r, va_amair := r_amair r\<rparr>;
          c5 = c4\<lparr>va_far := r_far r, va_esr := ucast (r_esr r), va_afsr0 := ucast (r_afsr0 r), va_afsr1 := ucast (r_afsr1 r)\<rparr>;
          c6 = c5\<lparr>va_spsr_el1 := r_spsr r, va_elr_el1 := r_elr r, va_sp_el0 := r_sp_el0 r, va_stack := r_sp_el1 r\<rparr>
      in (c6, h1))"

definition arm_vcpu_context_restore :: "arm_vcpu \<Rightarrow> arm_cpu \<Rightarrow> arm_cpu" where
  "arm_vcpu_context_restore c h0 =
     (let h1 = ph_emit Clrex h0;
          h2 = upd_el1 (vcpu_fpsimd_restore c) h1;
          h3 = upd_el1 (\<lambda>r. r\<lparr>r_spsr := va_spsr_el1 c, r_elr := va_elr_el1 c, r_sp_el0 := va_sp_el0 c, r_sp_el1 := va_stack c,
                 r_cpacr := ucast (va_cpacr c), r_sctlr := va_sctlr_el1 c\<rparr>) h2;
          h4 = upd_el1 (\<lambda>r. r\<lparr>r_cntv_cval := va_virt_cval c, r_cntv_ctl := va_virt_ctlr c, r_cntp_cval := va_phys_cval c,
                 r_cntp_ctl := va_phys_ctlr c, r_par := va_par c\<rparr>) h3;
          h5 = h4\<lparr>ph_vmpidr_el2 := va_vmpidr c, ph_vpidr_el2 := ph_midr h4\<rparr>;
          h6 = upd_el1 (\<lambda>r. r\<lparr>r_ttbr0 := va_ttbr0 c, r_ttbr1 := va_ttbr1 c, r_tcr := va_ttbcr c\<rparr>) h5;
          h7 = ph_emit TlbiVmalls12e1is (ph_emit TlbiVmalle1is h6);
          h8 = upd_el1 (\<lambda>r. r\<lparr>r_mair := va_mair c, r_amair := va_amair c, r_vbar := va_vbar c, r_contextidr := ucast (va_contextidr c),
                 r_tpidr_el0 := va_tpidr_el0 c, r_tpidrro_el0 := va_tpidrro_el0 c, r_tpidr_el1 := va_tpidr_el1 c, r_cntkctl := va_cntkctl c\<rparr>) h7;
          h9 = upd_el1 (\<lambda>r. r\<lparr>r_far := va_far c, r_esr := ucast (va_esr c), r_afsr0 := ucast (va_afsr0 c), r_afsr1 := ucast (va_afsr1 c),
                 r_csselr := ucast (va_csselr c)\<rparr>) h8
      in if va_gicc_initialized c then h9\<lparr>ph_icc := va_gicc c\<rparr> else h9)"

section \<open>Initial state\<close>

definition SCTLR_VCPU_DEFAULT :: u64 where
  "SCTLR_VCPU_DEFAULT = push_bit 28 3 OR push_bit 22 3 OR push_bit 20 1 OR push_bit 11 1"

definition SPSR_EL2_VCPU_DEFAULT :: u64 where
  "SPSR_EL2_VCPU_DEFAULT = push_bit 9 1 OR push_bit 8 1 OR push_bit 7 1 OR push_bit 6 1 OR 0 OR 5"

definition arm_vcpu_reset :: "arm_vcpu \<Rightarrow> int \<times> arm_vcpu" where
  "arm_vcpu_reset c = (0, c\<lparr>va_sctlr_el1 := SCTLR_VCPU_DEFAULT, va_cpacr := push_bit 20 3\<rparr>)"

text \<open>
  What the code reads of \<open>hyper_config\<close>. \<open>new_mem_regon\<close> uses the memory it asked for without a test: \<open>mem\<close> says whether
  it got any, and \<open>None\<close> is the write through the null pointer. The match name has 32 bytes, the last the terminator.
\<close>

record arm_config =
  ac_gicd_base :: u64
  ac_gicr_base :: u64
  ac_gicr_size :: u64
  ac_gicr_stride :: u64
  ac_uart_base :: u64
  ac_uart_size :: u64
  ac_uart_guest_irq :: u32
  ac_mem_base :: u64
  ac_mem_size :: u64
  ac_dtb_addr :: u64
  ac_vcpu_count :: u32
  ac_vcpu_mpidr :: "u64 list"
  ac_hyp_timer_ppi :: u32
  ac_virt_timer_ppi :: u32
  ac_uart_enabled :: bool
  ac_uart_host_irq :: u32
  ac_host_gicr_virt :: u64
  ac_host_gicr_stride :: u64

definition arm_drivers :: "string list" where
  "arm_drivers = register_emul_driver ''pl011'' (register_emul_driver ''gic3'' [])"

definition new_mem_regon :: "bool \<Rightarrow> string option \<Rightarrow> u64 \<Rightarrow> u64 \<Rightarrow> u64 \<Rightarrow> u32 \<Rightarrow> mem_region option" where
  "new_mem_regon mem name gpa hpa sz attr =
     (if \<not> mem then None
      else Some (probe_emul_dev arm_drivers
        \<lparr>mr_gpa = gpa, mr_hpa = hpa, mr_size = sz, mr_attr = sint attr, mr_dev = None,
         mr_match_name = (case name of None \<Rightarrow> '''' | Some n \<Rightarrow> take 31 n)\<rparr>))"

definition arm_vcpu_init :: "arm_config \<Rightarrow> stage2_mm_info \<Rightarrow> (nat \<Rightarrow> bool) \<Rightarrow> u64 \<Rightarrow> u64 \<Rightarrow> arm_vcpu \<Rightarrow> (int \<times> arm_vcpu) option" where
  "arm_vcpu_init cfg info mem entry stack c =
     (let c1 = c\<lparr>va_regs := (va_regs c)\<lparr>g_pc := entry, g_sp := NOT 0, gx := (gx (va_regs c))(30 := entry), g_cpsr := SPSR_EL2_VCPU_DEFAULT\<rparr>,
                 va_stack := stack, va_mem := []\<rparr>;
          gic_emul_base = ac_gicd_base cfg;
          gic_emul_end = ac_gicr_base cfg + ac_gicr_size cfg
      in do {
        region \<leftarrow> new_mem_regon (mem 0) (Some ''gic3'') gic_emul_base gic_emul_base (gic_emul_end - gic_emul_base) MEM_ACCESS_NONE;
        region2 \<leftarrow> new_mem_regon (mem 1) (Some ''pl011'') (ac_uart_base cfg) (ac_uart_base cfg) (ac_uart_size cfg) MEM_ACCESS_NONE;
        region3 \<leftarrow> new_mem_regon (mem 2) None (ac_mem_base cfg) (ac_mem_base cfg) (ac_mem_size cfg) MEM_ACCESS_RWX;
        Some (0, c1\<lparr>va_mem := guest_mem_add_region region3 (guest_mem_add_region region2 (guest_mem_add_region region (va_mem c1))),
                    va_mm_info := info\<rparr>) })"

definition aarch64_vcpu_task_init :: "u64 \<Rightarrow> u64 \<Rightarrow> u64 \<Rightarrow> u64 \<Rightarrow> u64 \<Rightarrow> u64 \<Rightarrow> arm_vcpu \<Rightarrow> int \<times> arm_vcpu" where
  "aarch64_vcpu_task_init sink guest_cpu_id entry arg0 flags stack c =
     (let c1 = (if guest_cpu_id \<noteq> - 1 then c\<lparr>va_vmpidr := 0x80000000 OR guest_cpu_id\<rparr> else c);
          c2 = c1\<lparr>va_stack := stack\<rparr>;
          r1 = (arch_set_return_addr sink (va_regs c2))\<lparr>g_pc := entry\<rparr>;
          r2 = (if bit flags 0 then arm_reg_write 0 arg0 r1 else r1)
      in (0, c2\<lparr>va_regs := r2\<lparr>g_cpsr := 0x3c5\<rparr>\<rparr>))"

section \<open>What a switch transfers\<close>

text \<open>
  The registers a guest gets back: all that the code saves, six of them cut to 32 bits. The vector registers beyond
  the 32 that exist do not matter.
\<close>

definition narrow32 :: "u64 \<Rightarrow> u64" where
  "narrow32 x = take_bit 32 x"

definition switched :: "el1_regs \<Rightarrow> el1_regs" where
  "switched r = r\<lparr>r_csselr := narrow32 (r_csselr r), r_q := (\<lambda>i. if i < 32 then r_q r i else (0, 0)), r_cpacr := narrow32 (r_cpacr r),
     r_contextidr := narrow32 (r_contextidr r), r_esr := narrow32 (r_esr r), r_afsr0 := narrow32 (r_afsr0 r), r_afsr1 := narrow32 (r_afsr1 r)\<rparr>"

lemma ucast_ucast_narrow: "(ucast (ucast x :: u32) :: u64) = narrow32 x"
  unfolding narrow32_def by (rule bit_word_eqI) (auto simp: bit_simps)

lemma narrow32_twice [simp]: "narrow32 (narrow32 x) = narrow32 x"
  by (simp add: narrow32_def)

lemma arm_context_saved:
  assumes "arm_vcpu_context_save c h = (c', h')"
  shows "switched (ph_el1 (arm_vcpu_context_restore c' g)) = switched (ph_el1 h)"
    "ph_icc (arm_vcpu_context_restore c' g) = ph_icc h"
    "va_vmpidr c' = va_vmpidr c" "va_regs c' = va_regs c" "va_vgic c' = va_vgic c" "va_mem c' = va_mem c" "va_mm_info c' = va_mm_info c"
    "ph_ich h' = ph_ich h" "ph_events h' = ph_events h"
  using assms by (auto simp: arm_vcpu_context_save_def arm_vcpu_context_restore_def Let_def switched_def vcpu_fpsimd_save_def
      vcpu_fpsimd_restore_def ph_emit_def ucast_ucast_narrow fun_eq_iff)

lemma arm_restore_frame [simp]:
  "ph_ich (arm_vcpu_context_restore c h) = ph_ich h" "ph_vmpidr_el2 (arm_vcpu_context_restore c h) = va_vmpidr c"
  "ph_cntfrq (arm_vcpu_context_restore c h) = ph_cntfrq h" "ph_cntpct (arm_vcpu_context_restore c h) = ph_cntpct h"
  by (simp_all add: arm_vcpu_context_restore_def Let_def ph_emit_def)

end
