(* ===== verification/Arm_Smp.thy ===== *)
theory Arm_Smp
  imports Arm_Vcpu
begin

text \<open>
  The state of the AArch64 port as a whole, the numbering of the physical CPUs and their start
  (\<^verbatim>\<open>src/arch/aarch64/smp.c\<close>) and the interrupts between them (the second half of \<^verbatim>\<open>src/drivers/gic/gicv3.c\<close>).

  Tasks and virtual CPUs live in stores indexed by the pointer. \<open>me\<close> is the number \<open>cpu_id()\<close> of the executing CPU. The
  table \<^verbatim>\<open>host_cpus\<close> is the list of its entries in use. The nodes below \<^verbatim>\<open>/cpus\<close> of the device tree, as the library
  presents them, and the answers of the firmware are arguments.
\<close>

section \<open>State\<close>

record arm_task =
  at_id :: int
  at_priority :: int
  at_name :: string
  at_state :: task_state
  at_vcpu :: "nat option"
  at_virq :: gtask
  at_affinity :: int
  at_trap_count :: u64
  at_irq_count :: u64
  at_switch_count :: u64

datatype heap_event = ArmAlloc nat | ArmFree nat

datatype cpu_state = CPU_OFFLINE | CPU_ONLINE_PARKED | CPU_ONLINE_SCHED

record host_cpu_desc =
  hc_mpidr :: u64
  hc_cpu_id :: int
  hc_state :: cpu_state

record arm =
  am_cpus :: "int \<Rightarrow> arm_cpu"
  am_tasks :: "nat \<Rightarrow> arm_task"
  am_vcpus :: "nat \<Rightarrow> arm_vcpu"
  am_ready :: "nat list"
  am_wait :: "nat list"
  am_current :: "int \<Rightarrow> nat option"
  am_running :: "int \<Rightarrow> nat option"
  am_empty_regs :: arm_regs
  am_lr_count :: nat
  am_task_id :: int
  am_heap :: "heap_event list"
  host_cpus :: "host_cpu_desc list"
  g_ipi_call_desc :: "int \<Rightarrow> u64 \<times> u64"

abbreviation upd_cpu :: "int \<Rightarrow> (arm_cpu \<Rightarrow> arm_cpu) \<Rightarrow> arm \<Rightarrow> arm" where
  "upd_cpu me f \<equiv> am_cpus_update (\<lambda>cs. cs(me := f (cs me)))"

abbreviation upd_atask :: "nat \<Rightarrow> (arm_task \<Rightarrow> arm_task) \<Rightarrow> arm \<Rightarrow> arm" where
  "upd_atask t f \<equiv> am_tasks_update (\<lambda>ts. ts(t := f (ts t)))"

abbreviation upd_avcpu :: "nat \<Rightarrow> (arm_vcpu \<Rightarrow> arm_vcpu) \<Rightarrow> arm \<Rightarrow> arm" where
  "upd_avcpu v f \<equiv> am_vcpus_update (\<lambda>vs. vs(v := f (vs v)))"

abbreviation at_mpidr :: "arm_task \<Rightarrow> u64" where
  "at_mpidr t \<equiv> g_mpidr (at_virq t)"

section \<open>Numbering of the CPUs\<close>

definition smp_id :: "arm_cpu \<Rightarrow> u64" where
  "smp_id h = ph_mpidr h AND 0xff00ffffff"

fun mpidr_search :: "u64 \<Rightarrow> int \<Rightarrow> host_cpu_desc list \<Rightarrow> int" where
  "mpidr_search mpidr i [] = - 1"
| "mpidr_search mpidr i (d # ds) = (if hc_mpidr d = mpidr then i else mpidr_search mpidr (i + 1) ds)"

definition smp_mpidr_to_cpu :: "u64 \<Rightarrow> arm \<Rightarrow> int" where
  "smp_mpidr_to_cpu mpidr s = mpidr_search mpidr 0 (host_cpus s)"

definition smp_current_cpu_id :: "int \<Rightarrow> arm \<Rightarrow> int" where
  "smp_current_cpu_id me s = smp_mpidr_to_cpu (smp_id (am_cpus s me)) s"

definition smp_cpu_count :: "arm \<Rightarrow> int" where
  "smp_cpu_count s = int (length (host_cpus s))"

definition smp_cpu_to_mpidr :: "int \<Rightarrow> arm \<Rightarrow> u64" where
  "smp_cpu_to_mpidr cpu s = (if cpu < 0 \<or> smp_cpu_count s \<le> cpu then - 1 else hc_mpidr (host_cpus s ! nat cpu))"

text \<open>
  A node below \<^verbatim>\<open>/cpus\<close>: the property \<^verbatim>\<open>reg\<close> as words in host order with its length in bytes, \<^verbatim>\<open>#address-cells\<close> of the
  parent with its length, \<^verbatim>\<open>enable-method\<close>.
\<close>

record fdt_cpu =
  fc_reg :: "(u32 list \<times> int) option"
  fc_cells :: "(u32 \<times> int) option"
  fc_method :: "string option"

primrec read_cells :: "u32 list \<Rightarrow> nat \<Rightarrow> u64 option" where
  "read_cells reg 0 = Some 0"
| "read_cells reg (Suc i) = do { m \<leftarrow> read_cells reg i; w \<leftarrow> aread reg i; Some (push_bit 32 m OR ucast w) }"

text \<open>The affinity the loop body computes for a node it takes up; \<open>Some None\<close> for a node it skips, \<open>None\<close> for a read past \<^verbatim>\<open>reg\<close>.\<close>

definition cpu_node :: "fdt_cpu \<Rightarrow> u64 option option" where
  "cpu_node n =
     (case fc_reg n of
        None \<Rightarrow> Some None
      | Some (reg, len) \<Rightarrow>
          (let na = (case fc_cells n of Some (w, l) \<Rightarrow> if 4 \<le> l then sint w else 2 | None \<Rightarrow> 2)
           in if len < na * 4 then Some None
              else do {
                m \<leftarrow> read_cells reg (nat na);
                (case fc_method n of
                   Some method \<Rightarrow> if take 4 method = ''psci'' then Some (Some (m AND 0xff00ffffff)) else Some None
                 | None \<Rightarrow> Some None) }))"

fun parse_cpu_nodes :: "fdt_cpu list \<Rightarrow> host_cpu_desc list \<Rightarrow> host_cpu_desc list option" where
  "parse_cpu_nodes [] cpus = Some cpus"
| "parse_cpu_nodes (n # ns) cpus =
     (if CPU_NUM \<le> int (length cpus) then Some cpus
      else case cpu_node n of
             None \<Rightarrow> None
           | Some None \<Rightarrow> parse_cpu_nodes ns cpus
           | Some (Some m) \<Rightarrow> parse_cpu_nodes ns (cpus @ [\<lparr>hc_mpidr = m, hc_cpu_id = int (length cpus), hc_state = CPU_OFFLINE\<rparr>]))"

text \<open>\<open>None\<close> as the first argument: there is no node \<^verbatim>\<open>/cpus\<close>.\<close>

definition parse_host_cpus :: "fdt_cpu list option \<Rightarrow> arm \<Rightarrow> (int \<times> arm) option" where
  "parse_host_cpus nodes s =
     (case nodes of
        None \<Rightarrow> Some (- 1, s)
      | Some ns \<Rightarrow> do { cpus \<leftarrow> parse_cpu_nodes ns []; Some (int (length cpus), s\<lparr>host_cpus := cpus\<rparr>) })"

section \<open>Starting the other CPUs\<close>

text \<open>
  The wait of \<open>smp_boot_secondaries\<close> for a CPU: \<open>st k\<close> is what the \<open>k\<close>-th read of its state returns. The result is the
  remaining timeout (the loop decrements it in its condition, so a wait that timed out leaves -1).
\<close>

primrec wait_online :: "(nat \<Rightarrow> cpu_state) \<Rightarrow> nat \<Rightarrow> nat \<Rightarrow> int" where
  "wait_online st k 0 = (if st k = CPU_ONLINE_SCHED then 0 else - 1)"
| "wait_online st k (Suc timeout) = (if st k = CPU_ONLINE_SCHED then int (Suc timeout) else wait_online st (Suc k) timeout)"

datatype smp_event = PsciCpuOn u64 u64 | CpuOnFailed int | BootTimeout nat

definition boot_cpu :: "u64 \<Rightarrow> u64 \<Rightarrow> (nat \<Rightarrow> int) \<Rightarrow> (nat \<Rightarrow> nat \<Rightarrow> cpu_state) \<Rightarrow> nat \<times> host_cpu_desc \<Rightarrow> smp_event list" where
  "boot_cpu boot entry ret st = (\<lambda>(i, d).
     if hc_mpidr d = boot then []
     else PsciCpuOn (hc_mpidr d) entry #
       (if ret i \<noteq> 0 then [CpuOnFailed (ret i)] else if wait_online (st i) 0 100000 \<le> 0 then [BootTimeout i] else []))"

definition arm_smp_boot_secondaries ::
    "fdt_cpu list option \<Rightarrow> int \<Rightarrow> u64 \<Rightarrow> (nat \<Rightarrow> int) \<Rightarrow> (nat \<Rightarrow> nat \<Rightarrow> cpu_state) \<Rightarrow> arm \<Rightarrow> (smp_event list \<times> arm) option" where
  "arm_smp_boot_secondaries nodes me entry ret st s = do {
     (r, s1) \<leftarrow> parse_host_cpus nodes s;
     (if smp_cpu_count s1 \<le> 1 then Some ([], s1)
      else Some (concat (map (boot_cpu (smp_id (am_cpus s1 me)) entry ret st) (enumerate 0 (host_cpus s1))), s1)) }"

section \<open>Interrupts between CPUs\<close>

definition GICV3_SGIR_VALUE :: "u64 \<Rightarrow> u64 \<Rightarrow> u64 \<Rightarrow> u64 \<Rightarrow> u64 \<Rightarrow> u64 \<Rightarrow> u64" where
  "GICV3_SGIR_VALUE aff3 aff2 aff1 intid irm tgt =
     push_bit 48 (aff3 AND 0xff) OR push_bit 40 (irm AND 1) OR push_bit 32 (aff2 AND 0xff) OR push_bit 24 (intid AND 0xf) OR
     push_bit 16 (aff1 AND 0xff) OR (tgt AND 0xffff)"

definition ipi_send_sgi :: "int \<Rightarrow> u64 \<Rightarrow> u8 \<Rightarrow> arm \<Rightarrow> arm" where
  "ipi_send_sgi me target_mpidr sgi_id s =
     (let aff1 = drop_bit 8 target_mpidr AND 0xff;
          aff2 = drop_bit 16 target_mpidr AND 0xff;
          aff3 = drop_bit 32 target_mpidr AND 0xff
      in upd_cpu me (ph_emit (WriteSgi1r (GICV3_SGIR_VALUE aff3 aff2 aff1 (ucast sgi_id) 0 1))) s)"

definition ipi_broadcast_sgi :: "int \<Rightarrow> u8 \<Rightarrow> arm \<Rightarrow> arm" where
  "ipi_broadcast_sgi me sgi_id s = upd_cpu me (ph_emit (WriteSgi1r (GICV3_SGIR_VALUE 0 0 0 (ucast sgi_id) 1 0))) s"

definition arm_ipi_send_cpu :: "int \<Rightarrow> int \<Rightarrow> u8 \<Rightarrow> arm \<Rightarrow> arm" where
  "arm_ipi_send_cpu me target_cpu vec s =
     (let mpidr = smp_cpu_to_mpidr target_cpu s in if mpidr = - 1 then s else ipi_send_sgi me mpidr vec s)"

definition arm_ipi_broadcast_others :: "int \<Rightarrow> u8 \<Rightarrow> arm \<Rightarrow> arm" where
  "arm_ipi_broadcast_others me vec s = ipi_broadcast_sgi me vec s"

abbreviation (input) "ARM_IPI_RESCHEDULE \<equiv> 0 :: u8"
abbreviation (input) "ARM_IPI_TLB_SHOOTDOWN \<equiv> 1 :: u8"
abbreviation (input) "ARM_IPI_CALL_FUNC \<equiv> 2 :: u8"

definition arm_ipi_send_reschedule :: "int \<Rightarrow> int \<Rightarrow> arm \<Rightarrow> arm" where
  "arm_ipi_send_reschedule me target_cpu s = (if target_cpu \<noteq> me then arm_ipi_send_cpu me target_cpu ARM_IPI_RESCHEDULE s else s)"

definition arm_ipi_handle :: "int \<Rightarrow> u8 \<Rightarrow> arm \<Rightarrow> arm" where
  "arm_ipi_handle me vec s =
     (if vec = ARM_IPI_TLB_SHOOTDOWN then upd_cpu me (ph_emit TlbiGuestAll) s
      else if vec = ARM_IPI_CALL_FUNC then
        (case g_ipi_call_desc s me of (fn, arg) \<Rightarrow>
           (let s1 = s\<lparr>g_ipi_call_desc := (g_ipi_call_desc s)(me := (0, arg))\<rparr>
            in if fn \<noteq> 0 then upd_cpu me (ph_emit (CallFunc fn arg)) s1 else s1))
      else s)"

definition arm_ipi_tlb_shootdown :: "int \<Rightarrow> arm \<Rightarrow> arm" where
  "arm_ipi_tlb_shootdown me s = arm_ipi_broadcast_others me ARM_IPI_TLB_SHOOTDOWN s"

definition arm_ipi_call_func :: "int \<Rightarrow> int \<Rightarrow> u64 \<Rightarrow> u64 \<Rightarrow> arm \<Rightarrow> arm" where
  "arm_ipi_call_func me target_cpu fn arg s =
     (if target_cpu < 0 \<or> CPU_NUM \<le> target_cpu then s
      else arm_ipi_send_cpu me target_cpu ARM_IPI_CALL_FUNC (s\<lparr>g_ipi_call_desc := (g_ipi_call_desc s)(target_cpu := (fn, arg))\<rparr>))"

section \<open>The host interrupt controller\<close>

abbreviation (input) "GICR_ISENABLER0 \<equiv> 0x10100 :: u64"

definition gicv3_reenable_hyp_timer_ppi :: "arm_config \<Rightarrow> int \<Rightarrow> arm \<Rightarrow> arm" where
  "gicv3_reenable_hyp_timer_ppi cfg me s =
     (let gicr = ac_host_gicr_virt cfg + word_of_int me * ac_host_gicr_stride cfg
      in upd_cpu me (ph_emit (Mmio32 (gicr + GICR_ISENABLER0) (push_bit (unat (ac_hyp_timer_ppi cfg)) 1))) s)"

definition gicv3_eof_int :: "int \<Rightarrow> int \<Rightarrow> arm \<Rightarrow> arm" where
  "gicv3_eof_int me irq s = upd_cpu me (ph_emit (WriteDir irq) \<circ> ph_emit (WriteEoir irq)) s"

section \<open>Lemmas\<close>

text \<open>The CPUs a write to the register reaches: those of one cluster, by the bits of the target list, or all others.\<close>

definition sgir_target :: "u64 \<Rightarrow> u64 \<Rightarrow> bool" where
  "sgir_target v mpidr \<longleftrightarrow> \<not> bit v 40 \<and> drop_bit 48 v AND 0xff = drop_bit 32 mpidr AND 0xff \<and>
     drop_bit 32 v AND 0xff = drop_bit 16 mpidr AND 0xff \<and> drop_bit 16 v AND 0xff = drop_bit 8 mpidr AND 0xff \<and>
     drop_bit 44 v AND 0xf = drop_bit 4 mpidr AND 0xf \<and> bit v (unat (mpidr AND 0xf))"

lemma mpidr_search_spec:
  "distinct (map hc_mpidr ds) \<Longrightarrow> k < length ds \<Longrightarrow> mpidr_search (hc_mpidr (ds ! k)) i ds = i + int k"
proof (induction ds arbitrary: k i)
  case (Cons d ds)
  then show ?case
  proof (cases k)
    case (Suc j)
    then have "ds ! j \<in> set ds" using Cons.prems by simp
    then have "hc_mpidr (ds ! j) \<noteq> hc_mpidr d" using Cons.prems by (metis distinct.simps(2) image_eqI list.map(2) list.set_map)
    then show ?thesis using Cons Suc by simp
  qed simp
qed simp

lemma smp_ids_roundtrip:
  assumes "distinct (map hc_mpidr (host_cpus s))" "0 \<le> cpu" "cpu < smp_cpu_count s"
  shows "smp_mpidr_to_cpu (smp_cpu_to_mpidr cpu s) s = cpu"
  using assms mpidr_search_spec [of "host_cpus s" "nat cpu" 0] by (auto simp: smp_mpidr_to_cpu_def smp_cpu_to_mpidr_def smp_cpu_count_def)

lemma parse_cpu_nodes_inv:
  "parse_cpu_nodes ns cpus = Some cpus' \<Longrightarrow> int (length cpus) \<le> CPU_NUM \<Longrightarrow>
   int (length cpus') \<le> CPU_NUM \<and> (\<exists>ds. cpus' = cpus @ ds) \<and>
   ((\<forall>i < length cpus. hc_cpu_id (cpus ! i) = int i) \<longrightarrow> (\<forall>i < length cpus'. hc_cpu_id (cpus' ! i) = int i))"
proof (induction ns cpus rule: parse_cpu_nodes.induct)
  case (2 n ns cpus)
  show ?case
  proof (cases "CPU_NUM \<le> int (length cpus)")
    case False
    then show ?thesis using 2
      by (auto simp: nth_append less_Suc_eq split: option.splits)
  qed (use 2 in auto)
qed auto

lemma wait_online_spec:
  "0 < wait_online st k n \<longleftrightarrow> (\<exists>j < n. st (k + j) = CPU_ONLINE_SCHED)"
proof (induction n arbitrary: k)
  case (Suc n)
  have "(\<exists>j < Suc n. st (k + j) = CPU_ONLINE_SCHED) \<longleftrightarrow> st k = CPU_ONLINE_SCHED \<or> (\<exists>j < n. st (Suc k + j) = CPU_ONLINE_SCHED)"
    by (auto simp: less_Suc_eq_0_disj)
  then show ?case using Suc by simp
qed simp

lemma and_masks: "x AND 0xff = take_bit 8 x" "x AND 0xf = take_bit 4 x" "x AND 1 = take_bit 1 x" "x AND 0xffff = take_bit 16 x" for x :: u64
  by (simp_all add: take_bit_eq_mask mask_eq_exp_minus_1)

lemma sgir_fields:
  "drop_bit 48 (GICV3_SGIR_VALUE f3 f2 f1 i irm t) AND 0xff = f3 AND 0xff" "drop_bit 32 (GICV3_SGIR_VALUE f3 f2 f1 i irm t) AND 0xff = f2 AND 0xff"
  "drop_bit 16 (GICV3_SGIR_VALUE f3 f2 f1 i irm t) AND 0xff = f1 AND 0xff" "drop_bit 24 (GICV3_SGIR_VALUE f3 f2 f1 i irm t) AND 0xf = i AND 0xf"
  "drop_bit 44 (GICV3_SGIR_VALUE f3 f2 f1 i irm t) AND 0xf = 0" "GICV3_SGIR_VALUE f3 f2 f1 i irm t AND 0xffff = t AND 0xffff"
  "bit (GICV3_SGIR_VALUE f3 f2 f1 i irm t) 40 \<longleftrightarrow> bit irm 0"
  unfolding GICV3_SGIR_VALUE_def and_masks
  by (rule bit_word_eqI; auto simp: bit_simps)+ (auto simp: bit_simps bit_0)

lemma take_bit_0_iff: "take_bit k (x::u64) = 0 \<longleftrightarrow> (\<forall>n < k. \<not> bit x n)"
proof -
  have "n < 64" if "bit x n" for n using bit_imp_le_length [OF that] by simp
  then show ?thesis by (auto simp: bit_eq_iff bit_simps)
qed

text \<open>
  The target list always has bit 0 set and no other, and the range selector is 0: an interrupt sent to a CPU reaches the
  CPU with affinity 0 at the lowest level of the cluster, whichever of them was meant.
\<close>

lemma sgir_target_list_1:
  "sgir_target (GICV3_SGIR_VALUE f3 f2 f1 i 0 1) m \<longleftrightarrow>
     drop_bit 32 m AND 0xff = f3 AND 0xff \<and> drop_bit 16 m AND 0xff = f2 AND 0xff \<and> drop_bit 8 m AND 0xff = f1 AND 0xff \<and> m AND 0xff = 0"
proof -
  let ?v = "GICV3_SGIR_VALUE f3 f2 f1 i 0 1"
  have "m AND 0xff = 0 \<longleftrightarrow> drop_bit 4 m AND 0xf = 0 \<and> m AND 0xf = 0"
    unfolding and_masks take_bit_0_iff by (simp add: bit_drop_bit_eq eval_nat_numeral All_less_Suc)
  moreover have "bit ?v (unat (m AND 0xf)) \<longleftrightarrow> m AND 0xf = 0"
  proof -
    have "unat (m AND 0xf) < 16" using unat_and_mask [of m 4] by (simp add: mask_eq_exp_minus_1)
    then have "bit ?v (unat (m AND 0xf)) \<longleftrightarrow> bit (?v AND 0xffff) (unat (m AND 0xf))" unfolding and_masks by (simp add: bit_simps)
    also have "\<dots> \<longleftrightarrow> unat (m AND 0xf) = 0" unfolding sgir_fields by (simp add: bit_1_iff)
    finally show ?thesis by (simp add: unat_eq_0)
  qed
  ultimately show ?thesis unfolding sgir_target_def sgir_fields by auto
qed

text \<open>
  Interrupts between CPUs reach the wrong CPU unless its affinity at the lowest level is 0: what \<open>ipi_send_cpu\<close> writes
  addresses exactly the CPU of the same cluster with \<^verbatim>\<open>Aff0 = 0\<close>, so it addresses the CPU meant iff that is the one.
\<close>

lemma ipi_send_cpu_target:
  assumes "0 \<le> cpu" "cpu < smp_cpu_count s" "hc_mpidr (host_cpus s ! nat cpu) = m" "m AND 0xff00ffffff = m"
  shows "\<exists>v. ph_events (am_cpus (arm_ipi_send_cpu me cpu vec s) me) = ph_events (am_cpus s me) @ [WriteSgi1r v] \<and>
    drop_bit 24 v AND 0xf = ucast vec AND 0xf \<and>
    (\<forall>n. sgir_target v n \<longleftrightarrow> drop_bit 32 n AND 0xff = drop_bit 32 m AND 0xff \<and> drop_bit 16 n AND 0xff = drop_bit 16 m AND 0xff \<and>
       drop_bit 8 n AND 0xff = drop_bit 8 m AND 0xff \<and> n AND 0xff = 0) \<and>
    (sgir_target v m \<longleftrightarrow> m AND 0xff = 0)"
proof -
  have "m \<noteq> - 1" using assms(4) by auto
  then have "arm_ipi_send_cpu me cpu vec s = ipi_send_sgi me m vec s"
    using assms(1-3) by (simp add: arm_ipi_send_cpu_def smp_cpu_to_mpidr_def)
  then show ?thesis
    by (intro exI [of _ "GICV3_SGIR_VALUE (drop_bit 32 m AND 0xff) (drop_bit 16 m AND 0xff) (drop_bit 8 m AND 0xff) (ucast vec) 0 1"])
      (simp add: ipi_send_sgi_def ph_emit_def sgir_target_list_1 sgir_fields and.assoc)
qed

end
