(* ===== verification/Arm_Sched.thy ===== *)
theory Arm_Sched
  imports Arm_Smp Sched_List
begin

text \<open>
  Scheduling on AArch64 (\<^verbatim>\<open>src/core/sched.c\<close> with the queues of \<^verbatim>\<open>src/core/sched_simple.c\<close>): choosing the next task, putting
  the running one back, and the switch of a physical CPU from one virtual CPU to another, with its registers, its virtual
  interrupt controller interface and its pending interrupts. The queues are sequences, which \<^theory_text>\<open>Sched_List\<close> shows to be
  what the linked lists implement. \<open>None\<close> stands for the use of a null pointer.
\<close>

section \<open>Queues\<close>

abbreviation (input) "aprio s \<equiv> (\<lambda>t. at_priority (am_tasks s t))"
abbreviation (input) "aaff s \<equiv> (\<lambda>t. at_affinity (am_tasks s t))"

definition arm_set_current :: "int \<Rightarrow> nat option \<Rightarrow> arm \<Rightarrow> arm" where
  "arm_set_current me c s = s\<lparr>am_current := (am_current s)(me := c), am_running := (am_running s)(me := c)\<rparr>"

definition arm_next_no_publish :: "int \<Rightarrow> arm \<Rightarrow> nat option \<times> arm" where
  "arm_next_no_publish me s =
     (case next_task (aprio s) (aaff s) me (am_current s me) (am_ready s) of
        None \<Rightarrow> (None, s)
      | Some t \<Rightarrow> (Some t, s\<lparr>am_ready := remove1 t (am_ready s)\<rparr>))"

definition arm_scheduler_next :: "int \<Rightarrow> arm \<Rightarrow> nat option \<times> arm" where
  "arm_scheduler_next me s =
     (case arm_next_no_publish me s of
        (None, s1) \<Rightarrow> (None, s1)
      | (Some t, s1) \<Rightarrow> (Some t, arm_set_current me (Some t) s1))"

definition arm_scheduler_sched :: "int \<Rightarrow> nat \<Rightarrow> arm \<Rightarrow> arm" where
  "arm_scheduler_sched me t s =
     (let s1 = s\<lparr>am_ready := insert_prio (aprio s) t (am_ready s)\<rparr>;
          target = at_affinity (am_tasks s t)
      in if 0 \<le> target \<and> target \<noteq> me then arm_ipi_send_reschedule me target s1 else s1)"

section \<open>Context switch\<close>

definition arm_flush_lr :: "int \<Rightarrow> nat \<Rightarrow> arm \<Rightarrow> arm" where
  "arm_flush_lr me t s =
     (case gic_vcpu_flush_lr (am_lr_count s) (at_virq (am_tasks s t)) (ph_ich (am_cpus s me)) of
        (g, h) \<Rightarrow> upd_cpu me (\<lambda>c. c\<lparr>ph_ich := h\<rparr>) (upd_atask t (\<lambda>x. x\<lparr>at_virq := g\<rparr>) s))"

definition arm_regs_restore :: "arm_regs \<Rightarrow> arm_vcpu \<Rightarrow> arm_regs \<times> arm_vcpu" where
  "arm_regs_restore irq_regs c = (let c' = c\<lparr>va_regs := (va_regs c)\<lparr>g_sp := g_sp irq_regs\<rparr>\<rparr> in (va_regs c', c'))"

text \<open>The running virtual CPU \<open>v\<close> is taken off the CPU.\<close>

definition arm_switch_out :: "int \<Rightarrow> nat \<Rightarrow> arm_regs \<Rightarrow> arm \<Rightarrow> arm" where
  "arm_switch_out me v irq_regs s =
     (let s1 = upd_avcpu v (\<lambda>c. c\<lparr>va_regs := irq_regs\<rparr>) s;
          s2 = upd_avcpu v (\<lambda>c. c\<lparr>va_vgic := gic_vcpu_save (am_lr_count s1) (ph_ich (am_cpus s1 me)) (va_vgic c)\<rparr>) s1
      in case arm_vcpu_context_save (am_vcpus s2 v) (am_cpus s2 me) of
           (c, h) \<Rightarrow> upd_cpu me (\<lambda>_. h) (upd_avcpu v (\<lambda>_. c) s2))"

text \<open>The virtual CPU \<open>v\<close> of the task \<open>nxt\<close> is put on the CPU; \<open>had\<close> says whether one was taken off before.\<close>

definition arm_switch_in :: "arm_config \<Rightarrow> int \<Rightarrow> bool \<Rightarrow> nat \<Rightarrow> nat \<Rightarrow> arm_regs \<Rightarrow> arm \<Rightarrow> arm_regs \<times> arm" where
  "arm_switch_in cfg me had nxt v irq_regs s1 =
     (let s2 = upd_cpu me (arm_vcpu_context_restore (am_vcpus s1 v)) s1;
          s3 = upd_cpu me (\<lambda>h. h\<lparr>ph_ich := gic_vcpu_restore (am_lr_count s2) (va_vgic (am_vcpus s2 v)) (ph_ich h)\<rparr>) s2;
          s4 = (if had then gicv3_reenable_hyp_timer_ppi cfg me s3 else s3);
          (regs, c) = arm_regs_restore irq_regs (am_vcpus s4 v);
          s5 = gicv3_reenable_hyp_timer_ppi cfg me (upd_avcpu v (\<lambda>_. c) s4);
          s6 = upd_cpu me arm_hyp_timer_rearm s5
      in (regs, arm_flush_lr me nxt s6))"

definition el2_switch_to :: "arm_config \<Rightarrow> int \<Rightarrow> nat option \<Rightarrow> nat \<Rightarrow> arm_regs \<Rightarrow> arm \<Rightarrow> (arm_regs \<times> arm) option" where
  "el2_switch_to cfg me cur nxt irq_regs s =
     (let s0 = upd_atask nxt (\<lambda>t. t\<lparr>at_switch_count := at_switch_count t + 1\<rparr>) s
      in do {
        s1 \<leftarrow> (case cur of
                 None \<Rightarrow> Some s0
               | Some c \<Rightarrow> (case at_vcpu (am_tasks s0 c) of None \<Rightarrow> None | Some v \<Rightarrow> Some (arm_switch_out me v irq_regs s0)));
        v \<leftarrow> at_vcpu (am_tasks s1 nxt);
        Some (arm_switch_in cfg me (cur \<noteq> None) nxt v irq_regs s1) })"

definition note_empty_regs :: "arm_regs \<Rightarrow> arm \<Rightarrow> arm" where
  "note_empty_regs irq_reg s = (if g_pc (am_empty_regs s) = 0 then s\<lparr>am_empty_regs := irq_reg\<rparr> else s)"

definition arm_sched_yield :: "arm_config \<Rightarrow> int \<Rightarrow> arm_regs \<Rightarrow> arm \<Rightarrow> (arm_regs \<times> arm) option" where
  "arm_sched_yield cfg me irq_reg s =
     (let s0 = note_empty_regs irq_reg s;
          current = am_current s0 me
      in case arm_scheduler_next me s0 of
           (None, s1) \<Rightarrow>
             Some (irq_reg, case current of
                              Some c \<Rightarrow> if 0 < pv_count (at_virq (am_tasks s1 c)) then arm_flush_lr me c s1 else s1
                            | None \<Rightarrow> s1)
         | (Some t, s1) \<Rightarrow>
             (let s2 = (case current of
                          Some c \<Rightarrow> if at_state (am_tasks s1 c) \<noteq> TASK_EXIT then arm_scheduler_sched me c s1 else s1
                        | None \<Rightarrow> s1)
              in el2_switch_to cfg me current t irq_reg s2))"

text \<open>\<open>sched_yield2\<close> takes a task out of the queue but switches from the running task to itself; with none running it uses a null pointer.\<close>

definition arm_sched_yield2 :: "arm_config \<Rightarrow> int \<Rightarrow> arm_regs \<Rightarrow> arm \<Rightarrow> (arm_regs \<times> arm) option" where
  "arm_sched_yield2 cfg me irq_reg s =
     (let s0 = note_empty_regs irq_reg s;
          current = am_current s0 me
      in case arm_scheduler_next me s0 of
           (None, s1) \<Rightarrow> Some (irq_reg, s1)
         | (Some t, s1) \<Rightarrow> (case current of None \<Rightarrow> None | Some c \<Rightarrow> el2_switch_to cfg me current c irq_reg s1))"

text \<open>\<open>sink_task\<close> up to its final endless loop, and \<open>init_sched\<close>.\<close>

definition arm_sink_task :: "int \<Rightarrow> arm \<Rightarrow> arm option" where
  "arm_sink_task me s = am_current s me \<bind>
     (\<lambda>t. Some (arm_set_current me None ((upd_atask t (\<lambda>x. x\<lparr>at_state := TASK_EXIT\<rparr>) s)\<lparr>am_heap := am_heap s @ [ArmFree t]\<rparr>)))"

definition arm_init_sched :: "arm \<Rightarrow> int \<times> arm" where
  "arm_init_sched s = (0, s\<lparr>am_ready := [], am_wait := [], am_empty_regs := (am_empty_regs s)\<lparr>g_pc := 0\<rparr>\<rparr>)"

section \<open>The virtual interrupt controller interface across a switch\<close>

lemma write_lr_fold:
  "n \<le> 16 \<Longrightarrow> ich_lr (fold (\<lambda>i. gic_emul_v3_write_lr i (f i)) [0..<n] h) = (\<lambda>j. if j < n then f j else ich_lr h j)"
  "ich_vmcr (fold (\<lambda>i. gic_emul_v3_write_lr i (f i)) [0..<n] h) = ich_vmcr h"
  "ich_ap0r (fold (\<lambda>i. gic_emul_v3_write_lr i (f i)) [0..<n] h) = ich_ap0r h"
  "ich_ap1r (fold (\<lambda>i. gic_emul_v3_write_lr i (f i)) [0..<n] h) = ich_ap1r h"
  by (induction n) (auto simp: gic_emul_v3_write_lr_def fun_eq_iff)

lemma save_lr_fold:
  "x_lr (fold (\<lambda>i y. y\<lparr>x_lr := (x_lr y)(i := f i)\<rparr>) [0..<n] x) = (\<lambda>j. if j < n then f j else x_lr x j)"
  "x_vmcr (fold (\<lambda>i y. y\<lparr>x_lr := (x_lr y)(i := f i)\<rparr>) [0..<n] x) = x_vmcr x"
  "x_hcr (fold (\<lambda>i y. y\<lparr>x_lr := (x_lr y)(i := f i)\<rparr>) [0..<n] x) = x_hcr x"
  "x_lr_count (fold (\<lambda>i y. y\<lparr>x_lr := (x_lr y)(i := f i)\<rparr>) [0..<n] x) = x_lr_count x"
  "x_ap0r (fold (\<lambda>i y. y\<lparr>x_lr := (x_lr y)(i := f i)\<rparr>) [0..<n] x) = x_ap0r x"
  "x_ap1r (fold (\<lambda>i y. y\<lparr>x_lr := (x_lr y)(i := f i)\<rparr>) [0..<n] x) = x_ap1r x"
  by (induction n) (auto simp: fun_eq_iff)

lemma vgic_roundtrip:
  assumes "lrs \<le> 16"
  shows "j < lrs \<Longrightarrow> ich_lr (gic_vcpu_restore lrs (gic_vcpu_save lrs h x) g) j = ich_lr h j"
    "ich_vmcr (gic_vcpu_restore lrs (gic_vcpu_save lrs h x) g) = ich_vmcr h"
    "ich_hcr (gic_vcpu_restore lrs (gic_vcpu_save lrs h x) g) = ich_hcr h OR 1"
    "ich_ap0r (gic_vcpu_restore lrs (gic_vcpu_save lrs h x) g) 0 = ich_ap0r h 0"
    "ich_ap1r (gic_vcpu_restore lrs (gic_vcpu_save lrs h x) g) 0 = ich_ap1r h 0"
  using assms
  by (simp_all add: gic_vcpu_restore_def gic_vcpu_save_def Let_def APR_COUNT_def save_apr_def write_apr_def write_lr_fold save_lr_fold
      gic_emul_v3_read_lr_def gic_emul_v3_read_ap0r_def gic_emul_v3_read_ap1r_def gic_emul_v3_write_ap0r_def gic_emul_v3_write_ap1r_def)


section \<open>Effect of a switch\<close>

lemma flush_parts:
  "am_ready (arm_flush_lr me t s) = am_ready s" "am_wait (arm_flush_lr me t s) = am_wait s" "am_current (arm_flush_lr me t s) = am_current s"
  "am_running (arm_flush_lr me t s) = am_running s" "am_vcpus (arm_flush_lr me t s) = am_vcpus s" "am_lr_count (arm_flush_lr me t s) = am_lr_count s"
  "host_cpus (arm_flush_lr me t s) = host_cpus s"
  "am_tasks (arm_flush_lr me t s) = (am_tasks s)(t := (am_tasks s t)\<lparr>at_virq := fst (gic_vcpu_flush_lr (am_lr_count s) (at_virq (am_tasks s t)) (ph_ich (am_cpus s me)))\<rparr>)"
  "am_cpus (arm_flush_lr me t s) = (am_cpus s)(me := (am_cpus s me)\<lparr>ph_ich := snd (gic_vcpu_flush_lr (am_lr_count s) (at_virq (am_tasks s t)) (ph_ich (am_cpus s me)))\<rparr>)"
  by (simp_all add: arm_flush_lr_def split: prod.split)

lemma switch_in_spec:
  assumes "arm_switch_in cfg me had nxt v irq s1 = (regs, s')"
  defines "f \<equiv> gic_vcpu_flush_lr (am_lr_count s1) (at_virq (am_tasks s1 nxt))
      (gic_vcpu_restore (am_lr_count s1) (va_vgic (am_vcpus s1 v)) (ph_ich (am_cpus s1 me)))"
  shows "regs = (va_regs (am_vcpus s1 v))\<lparr>g_sp := g_sp irq\<rparr>"
    "ph_el1 (am_cpus s' me) = ph_el1 (arm_vcpu_context_restore (am_vcpus s1 v) (am_cpus s1 me))"
    "ph_vmpidr_el2 (am_cpus s' me) = va_vmpidr (am_vcpus s1 v)"
    "ph_ich (am_cpus s' me) = snd f" "am_tasks s' = (am_tasks s1)(nxt := (am_tasks s1 nxt)\<lparr>at_virq := fst f\<rparr>)"
    "am_vcpus s' = (am_vcpus s1)(v := (am_vcpus s1 v)\<lparr>va_regs := regs\<rparr>)" "i \<noteq> me \<Longrightarrow> am_cpus s' i = am_cpus s1 i"
    "am_ready s' = am_ready s1" "am_wait s' = am_wait s1" "am_current s' = am_current s1" "am_running s' = am_running s1"
    "am_lr_count s' = am_lr_count s1" "host_cpus s' = host_cpus s1"
  using assms
  by (auto simp: arm_switch_in_def Let_def flush_parts arm_regs_restore_def gicv3_reenable_hyp_timer_ppi_def arm_hyp_timer_rearm_def ph_emit_def
      split: if_splits)

lemma switch_out_spec:
  fixes me v irq s
  defines "s' \<equiv> arm_switch_out me v irq s"
  shows "u \<noteq> v \<Longrightarrow> am_vcpus s' u = am_vcpus s u" "i \<noteq> me \<Longrightarrow> am_cpus s' i = am_cpus s i"
    "am_ready s' = am_ready s" "am_wait s' = am_wait s" "am_current s' = am_current s" "am_running s' = am_running s" "am_tasks s' = am_tasks s"
    "am_lr_count s' = am_lr_count s" "host_cpus s' = host_cpus s" "ph_ich (am_cpus s' me) = ph_ich (am_cpus s me)"
    "va_regs (am_vcpus s' v) = irq" "va_vmpidr (am_vcpus s' v) = va_vmpidr (am_vcpus s v)" "va_mem (am_vcpus s' v) = va_mem (am_vcpus s v)"
    "va_vgic (am_vcpus s' v) = gic_vcpu_save (am_lr_count s) (ph_ich (am_cpus s me)) (va_vgic (am_vcpus s v))"
    "switched (ph_el1 (arm_vcpu_context_restore (am_vcpus s' v) g)) = switched (ph_el1 (am_cpus s me))"
proof -
  define c0 where "c0 = (am_vcpus s v)\<lparr>va_regs := irq, va_vgic := gic_vcpu_save (am_lr_count s) (ph_ich (am_cpus s me)) (va_vgic (am_vcpus s v))\<rparr>"
  obtain c h where ch: "arm_vcpu_context_save c0 (am_cpus s me) = (c, h)" by fastforce
  note k = arm_context_saved [OF ch]
  have e: "s' = s\<lparr>am_vcpus := (am_vcpus s)(v := c), am_cpus := (am_cpus s)(me := h)\<rparr>"
    using ch by (simp add: s'_def arm_switch_out_def c0_def Let_def fun_upd_def cong: if_cong)
  show "u \<noteq> v \<Longrightarrow> am_vcpus s' u = am_vcpus s u" "i \<noteq> me \<Longrightarrow> am_cpus s' i = am_cpus s i"
    "am_ready s' = am_ready s" "am_wait s' = am_wait s" "am_current s' = am_current s" "am_running s' = am_running s" "am_tasks s' = am_tasks s"
    "am_lr_count s' = am_lr_count s" "host_cpus s' = host_cpus s" "ph_ich (am_cpus s' me) = ph_ich (am_cpus s me)"
    "va_regs (am_vcpus s' v) = irq" "va_vmpidr (am_vcpus s' v) = va_vmpidr (am_vcpus s v)" "va_mem (am_vcpus s' v) = va_mem (am_vcpus s v)"
    "va_vgic (am_vcpus s' v) = gic_vcpu_save (am_lr_count s) (ph_ich (am_cpus s me)) (va_vgic (am_vcpus s v))"
    "switched (ph_el1 (arm_vcpu_context_restore (am_vcpus s' v) g)) = switched (ph_el1 (am_cpus s me))"
    unfolding e using k by (simp_all add: c0_def)
qed

text \<open>The two halves of a switch.\<close>

definition count_switch :: "nat \<Rightarrow> arm \<Rightarrow> arm" where
  "count_switch t = upd_atask t (\<lambda>x. x\<lparr>at_switch_count := at_switch_count x + 1\<rparr>)"

definition left_state :: "int \<Rightarrow> nat option \<Rightarrow> arm_regs \<Rightarrow> arm \<Rightarrow> arm" where
  "left_state me cur irq s = (case cur of None \<Rightarrow> s | Some c \<Rightarrow> arm_switch_out me (the (at_vcpu (am_tasks s c))) irq s)"

lemma count_switch_simps [simp]:
  "at_vcpu (am_tasks (count_switch t s) u) = at_vcpu (am_tasks s u)" "at_virq (am_tasks (count_switch t s) u) = at_virq (am_tasks s u)"
  "at_priority (am_tasks (count_switch t s) u) = at_priority (am_tasks s u)" "at_affinity (am_tasks (count_switch t s) u) = at_affinity (am_tasks s u)"
  "at_state (am_tasks (count_switch t s) u) = at_state (am_tasks s u)"
  "am_vcpus (count_switch t s) = am_vcpus s" "am_cpus (count_switch t s) = am_cpus s" "am_ready (count_switch t s) = am_ready s"
  "am_wait (count_switch t s) = am_wait s" "am_current (count_switch t s) = am_current s" "am_running (count_switch t s) = am_running s"
  "am_lr_count (count_switch t s) = am_lr_count s" "host_cpus (count_switch t s) = host_cpus s"
  by (auto simp: count_switch_def)

lemma left_state_simps [simp]:
  "am_tasks (left_state me cur irq s) = am_tasks s" "am_ready (left_state me cur irq s) = am_ready s" "am_wait (left_state me cur irq s) = am_wait s"
  "am_current (left_state me cur irq s) = am_current s" "am_running (left_state me cur irq s) = am_running s"
  "am_lr_count (left_state me cur irq s) = am_lr_count s" "host_cpus (left_state me cur irq s) = host_cpus s"
  "ph_ich (am_cpus (left_state me cur irq s) me) = ph_ich (am_cpus s me)"
  "i \<noteq> me \<Longrightarrow> am_cpus (left_state me cur irq s) i = am_cpus s i"
  by (auto simp: left_state_def switch_out_spec split: option.split)

lemma left_state_vcpus:
  "(\<And>c. cur = Some c \<Longrightarrow> at_vcpu (am_tasks s c) \<noteq> Some u \<and> at_vcpu (am_tasks s c) \<noteq> None) \<Longrightarrow> am_vcpus (left_state me cur irq s) u = am_vcpus s u"
  by (auto simp: left_state_def switch_out_spec(1) split: option.split)

lemma el2_switch_to_eq:
  "el2_switch_to cfg me cur nxt irq s =
     (if (\<exists>c. cur = Some c \<and> at_vcpu (am_tasks s c) = None) then None
      else case at_vcpu (am_tasks s nxt) of None \<Rightarrow> None
        | Some v \<Rightarrow> Some (arm_switch_in cfg me (cur \<noteq> None) nxt v irq (left_state me cur irq (count_switch nxt s))))"
  by (auto simp: el2_switch_to_def count_switch_def [symmetric] left_state_def switch_out_spec Let_def split: option.splits bind_splits)

text \<open>The interface \<open>h\<close> of a guest as the list registers and control fields make it up.\<close>

definition same_interface :: "nat \<Rightarrow> cpuif \<Rightarrow> cpuif \<Rightarrow> bool" where
  "same_interface lrs h g \<longleftrightarrow> (\<forall>j < lrs. ich_lr g j = ich_lr h j) \<and> ich_vmcr g = ich_vmcr h \<and> ich_hcr g = ich_hcr h OR 1 \<and>
     ich_ap0r g 0 = ich_ap0r h 0 \<and> ich_ap1r g 0 = ich_ap1r h 0"


section \<open>Yielding\<close>

lemma note_empty_simps [simp]:
  "am_tasks (note_empty_regs r s) = am_tasks s" "am_current (note_empty_regs r s) = am_current s" "am_ready (note_empty_regs r s) = am_ready s"
  "am_vcpus (note_empty_regs r s) = am_vcpus s" "am_cpus (note_empty_regs r s) = am_cpus s" "am_lr_count (note_empty_regs r s) = am_lr_count s"
  "am_running (note_empty_regs r s) = am_running s" "am_wait (note_empty_regs r s) = am_wait s"
  by (simp_all add: note_empty_regs_def)

lemma arm_sched_simps:
  "am_ready (arm_scheduler_sched me t s) = insert_prio (aprio s) t (am_ready s)" "am_tasks (arm_scheduler_sched me t s) = am_tasks s"
  "am_vcpus (arm_scheduler_sched me t s) = am_vcpus s" "am_current (arm_scheduler_sched me t s) = am_current s"
  "am_running (arm_scheduler_sched me t s) = am_running s" "am_lr_count (arm_scheduler_sched me t s) = am_lr_count s"
  by (simp_all add: arm_scheduler_sched_def arm_ipi_send_reschedule_def arm_ipi_send_cpu_def ipi_send_sgi_def Let_def)

lemma el2_switch_sched:
  assumes "el2_switch_to cfg me cur nxt irq s = Some (regs', s')"
  shows "am_ready s' = am_ready s" "am_wait s' = am_wait s" "am_current s' = am_current s" "am_running s' = am_running s"
proof -
  obtain v where "arm_switch_in cfg me (cur \<noteq> None) nxt v irq (left_state me cur irq (count_switch nxt s)) = (regs', s')"
    using assms by (auto simp: el2_switch_to_eq split: if_splits option.splits)
  from switch_in_spec [OF this] show "am_ready s' = am_ready s" "am_wait s' = am_wait s" "am_current s' = am_current s" "am_running s' = am_running s"
    by simp_all
qed

lemma el2_switch_regs:
  assumes sw: "el2_switch_to cfg me (Some c) t regs s = Some (regs', s')"
    and v: "at_vcpu (am_tasks s c) = Some vc" "at_vcpu (am_tasks s t) = Some vt" "vt \<noteq> vc"
  shows "va_regs (am_vcpus s' vc) = regs" "regs' = (va_regs (am_vcpus s vt))\<lparr>g_sp := g_sp regs\<rparr>"
proof -
  let ?b = "arm_switch_out me vc regs (count_switch t s)"
  have "arm_switch_in cfg me True t vt regs ?b = (regs', s')"
    using assms by (auto simp: el2_switch_to_eq left_state_def split: if_splits)
  note g = switch_in_spec [OF this]
  show "va_regs (am_vcpus s' vc) = regs" using g(6) v(3) switch_out_spec(11) by simp
  show "regs' = (va_regs (am_vcpus s vt))\<lparr>g_sp := g_sp regs\<rparr>" using g(1) switch_out_spec(1) [OF v(3)] by simp
qed

lemma arm_next_mem: "next_task p f me cur xs = Some t \<Longrightarrow> t \<in> set xs"
  by (auto simp: next_task_def find_Some_iff split: option.splits if_splits)

text \<open>
  C19. Yielding on AArch64 neither loses nor duplicates a task: on a CPU with a running task \<open>sched_yield\<close> returns; if the queue
  offers no task, the running one continues with its registers untouched and its pending interrupts are moved to the list
  registers; otherwise the offered task becomes current with the registers saved for it, the registers of the old one are
  saved, and the old one is back in the ready queue. The tasks of the queue and of the CPU together are the same as before.
\<close>

theorem arm_yield_conserves:
  assumes cur: "am_current s me = Some c" "at_state (am_tasks s c) \<noteq> TASK_EXIT" and vc: "at_vcpu (am_tasks s c) = Some vc"
    and vs: "\<forall>t \<in> set (am_ready s). at_vcpu (am_tasks s t) \<noteq> None \<and> at_vcpu (am_tasks s t) \<noteq> Some vc"
  shows "\<exists>regs' s' t. arm_sched_yield cfg me regs s = Some (regs', s') \<and> am_current s' me = Some t \<and>
    add_mset t (mset (am_ready s')) = add_mset c (mset (am_ready s)) \<and> (\<forall>i. i \<noteq> me \<longrightarrow> am_current s' i = am_current s i) \<and>
    (case next_task (aprio s) (aaff s) me (Some c) (am_ready s) of
       None \<Rightarrow> t = c \<and> regs' = regs \<and> (0 < pv_count (at_virq (am_tasks s c)) \<longrightarrow>
         (at_virq (am_tasks s' c), ph_ich (am_cpus s' me)) = gic_vcpu_flush_lr (am_lr_count s) (at_virq (am_tasks s c)) (ph_ich (am_cpus s me)))
     | Some u \<Rightarrow> t = u \<and> va_regs (am_vcpus s' vc) = regs \<and>
         (\<forall>vt. at_vcpu (am_tasks s u) = Some vt \<longrightarrow> regs' = (va_regs (am_vcpus s vt))\<lparr>g_sp := g_sp regs\<rparr>))"
proof (cases "next_task (aprio s) (aaff s) me (Some c) (am_ready s)")
  case None
  then show ?thesis using cur
    by (auto simp: arm_sched_yield_def Let_def arm_scheduler_next_def arm_next_no_publish_def flush_parts)
next
  case (Some u)
  have u: "u \<in> set (am_ready s)" by (rule arm_next_mem [OF Some])
  then obtain vt where vt: "at_vcpu (am_tasks s u) = Some vt" "vt \<noteq> vc" using vs by auto
  let ?s1 = "arm_set_current me (Some u) ((note_empty_regs regs s)\<lparr>am_ready := remove1 u (am_ready s)\<rparr>)"
  let ?s2 = "arm_scheduler_sched me c ?s1"
  have y: "arm_sched_yield cfg me regs s = el2_switch_to cfg me (Some c) u regs ?s2"
    using Some cur by (simp add: arm_sched_yield_def Let_def arm_scheduler_next_def arm_next_no_publish_def arm_set_current_def)
  have s2: "am_tasks ?s2 = am_tasks s" "am_vcpus ?s2 = am_vcpus s" "am_current ?s2 = (am_current s)(me := Some u)"
    "mset (am_ready ?s2) = add_mset c (mset (remove1 u (am_ready s)))"
    by (simp_all add: arm_sched_simps arm_set_current_def)
  have "el2_switch_to cfg me (Some c) u regs ?s2 \<noteq> None" using vt vc s2 by (auto simp: el2_switch_to_eq)
  then obtain regs' s' where sw: "el2_switch_to cfg me (Some c) u regs ?s2 = Some (regs', s')" by auto
  note r = el2_switch_regs [OF sw, of vc vt] and q = el2_switch_sched [OF sw]
  have "add_mset u (mset (am_ready s')) = add_mset c (mset (am_ready s))"
    using q(1) s2(4) u by simp
  then show ?thesis using y sw r q(3) s2 vt vc Some by auto
qed

section \<open>A concrete machine\<close>

definition blank_el1 :: el1_regs where
  "blank_el1 = \<lparr>r_csselr = 0, r_q = (\<lambda>_. (0, 0)), r_fpsr = 0, r_fpcr = 0, r_cpacr = 0, r_contextidr = 0, r_tpidr_el0 = 0, r_tpidrro_el0 = 0,
     r_tpidr_el1 = 0, r_cntkctl = 0, r_cntv_ctl = 0, r_cntv_cval = 0, r_cntp_ctl = 0, r_cntp_cval = 0, r_par = 0, r_sctlr = 0, r_vbar = 0, r_tcr = 0,
     r_ttbr0 = 0, r_ttbr1 = 0, r_mair = 0, r_amair = 0, r_far = 0, r_esr = 0, r_afsr0 = 0, r_afsr1 = 0, r_spsr = 0, r_elr = 0, r_sp_el0 = 0, r_sp_el1 = 0\<rparr>"

definition blank_cpu :: arm_cpu where
  "blank_cpu = \<lparr>ph_el1 = blank_el1, ph_icc = zero_icc, ph_ich = idle_cpuif, ph_vmpidr_el2 = 0, ph_vpidr_el2 = 0, ph_midr = 0, ph_mpidr = 0x80000000,
     ph_cnthp_ctl = 0, ph_cnthp_cval = 0, ph_cntfrq = 62500000, ph_cntpct = 0, ph_esr_el2 = 0, ph_far_el2 = 0, ph_hpfar_el2 = 0, ph_events = []\<rparr>"

definition blank_mm :: stage2_mm_info where
  "blank_mm = \<lparr>pa_size = 40, root_page_order = 1, lookup_level = 1, root_table = 0\<rparr>"

definition virt_config :: arm_config where
  "virt_config = \<lparr>ac_gicd_base = 0x8000000, ac_gicr_base = 0x80a0000, ac_gicr_size = 0x80000, ac_gicr_stride = 0x20000,
     ac_uart_base = 0x9000000, ac_uart_size = 0x1000, ac_uart_guest_irq = 33,
     ac_mem_base = 0x50000000, ac_mem_size = 0x40000000, ac_dtb_addr = 0x50000000, ac_vcpu_count = 2, ac_vcpu_mpidr = [0, 1, 0, 0],
     ac_hyp_timer_ppi = 26, ac_virt_timer_ppi = 27, ac_uart_enabled = True, ac_uart_host_irq = 33, ac_host_gicr_virt = 0xE000000000,
     ac_host_gicr_stride = 0x20000\<rparr>"

definition blank_task :: arm_task where
  "blank_task = \<lparr>at_id = 0, at_priority = 10, at_name = ''smp'', at_state = TASK_READY, at_vcpu = None, at_virq = blank_gtask, at_affinity = 0,
     at_trap_count = 0, at_irq_count = 0, at_switch_count = 0\<rparr>"

text \<open>Task 1 runs on CPU 0 and task 2 waits for it; their virtual CPUs have the same numbers.\<close>

definition two_guests :: arm where
  "two_guests = \<lparr>am_cpus = (\<lambda>_. blank_cpu), am_tasks = (\<lambda>t. blank_task\<lparr>at_vcpu := Some t\<rparr>), am_vcpus = (\<lambda>_. zero_arm_vcpu blank_mm),
     am_ready = [2], am_wait = [], am_current = (\<lambda>_. None)(0 := Some 1), am_running = (\<lambda>_. None)(0 := Some 1), am_empty_regs = zero_arm_regs,
     am_lr_count = 4, am_task_id = 3, am_heap = [], host_cpus = [], g_ipi_call_desc = (\<lambda>_. (0, 0))\<rparr>"

lemma two_guests_simps [simp]:
  "at_vcpu (am_tasks two_guests t) = Some t" "am_ready two_guests = [2]" "am_current two_guests 0 = Some 1" "am_lr_count two_guests = 4"
  "at_state (am_tasks two_guests t) = TASK_READY" "at_priority (am_tasks two_guests t) = 10" "at_affinity (am_tasks two_guests t) = 0"
  by (simp_all add: two_guests_def blank_task_def)

theorem arm_yield_conserves_witness:
  "\<exists>regs' s' t. arm_sched_yield virt_config 0 zero_arm_regs two_guests = Some (regs', s') \<and> am_current s' 0 = Some t \<and>
     add_mset t (mset (am_ready s')) = {#1, 2#}"
  using arm_yield_conserves [of two_guests 0 1 1 virt_config zero_arm_regs] by fastforce


end
