(* ===== verification/Arm_Psci.thy ===== *)
theory Arm_Psci
  imports Arm_Sched
begin

text \<open>
  Creation of tasks on AArch64 (\<^verbatim>\<open>src/core/vcpu.c\<close>, \<^verbatim>\<open>vcpu_task.c\<close> and \<^verbatim>\<open>sched.c\<close> over the operations of \<^verbatim>\<open>aarch64_arch_ops.c\<close>) and the
  power interface guests use to start their CPUs (\<^verbatim>\<open>include/emul_psci.h\<close>).

  The results of \<^verbatim>\<open>kmalloc\<close> are an argument: \<open>km i\<close> is the address the \<open>i\<close>-th call of a creation returns (task, virtual CPU,
  stack, then memory regions with their devices). The first three are recorded in \<open>am_heap\<close> together with their releases;
  regions and devices are never released. \<open>sink\<close> is the address of \<^verbatim>\<open>sink_task\<close> and \<open>info\<close> the guest's translation tables.
\<close>

section \<open>Virtual CPUs and tasks\<close>

definition heap_note :: "heap_event \<Rightarrow> arm \<Rightarrow> arm" where
  "heap_note e s = s\<lparr>am_heap := am_heap s @ [e]\<rparr>"

definition arm_create_vcpu :: "stage2_mm_info \<Rightarrow> nat option \<Rightarrow> int \<Rightarrow> int \<Rightarrow> arm \<Rightarrow> nat option \<times> arm" where
  "arm_create_vcpu info mem vid prio s =
     (case mem of
        None \<Rightarrow> (None, s)
      | Some v \<Rightarrow>
          (let s1 = upd_avcpu v (\<lambda>_. (zero_arm_vcpu info)\<lparr>va_vcpu_id := vid, va_priority := prio\<rparr>) (heap_note (ArmAlloc v) s)
           in case arm_vcpu_reset (am_vcpus s1 v) of
                (r, c) \<Rightarrow> (let s2 = upd_avcpu v (\<lambda>_. c) s1 in if r \<noteq> 0 then (None, heap_note (ArmFree v) s2) else (Some v, s2))))"

definition arm_destroy_vcpu :: "nat option \<Rightarrow> arm \<Rightarrow> arm" where
  "arm_destroy_vcpu vcpu s =
     (case vcpu of
        None \<Rightarrow> s
      | Some v \<Rightarrow> heap_note (ArmFree v)
          (if va_saved_sp (am_vcpus s v) \<noteq> 0 then heap_note (ArmFree (unat (va_saved_sp (am_vcpus s v)))) s else s))"

definition arm_copy_name :: "string option \<Rightarrow> arm_task \<Rightarrow> arm_task" where
  "arm_copy_name name task = (case name of None \<Rightarrow> task | Some n \<Rightarrow> task\<lparr>at_name := (if 8 \<le> length n then take 7 n else n)\<rparr>)"

definition new_arm_task :: "vm_vcpu_task_desc \<Rightarrow> int \<Rightarrow> arm_task" where
  "new_arm_task desc tid = arm_copy_name (d_name desc)
     \<lparr>at_id = tid, at_priority = d_priority desc, at_name = '''', at_state = TASK_READY, at_vcpu = None,
      at_virq = \<lparr>gtask.pv = replicate 8 0, pv_count = 0, g_mpidr = d_guest_cpu_id desc\<rparr>,
      at_affinity = d_pcpu_affinity desc, at_trap_count = 0, at_irq_count = 0, at_switch_count = 0\<rparr>"

text \<open>\<open>vm_create_vcpu_task\<close> from the allocation of the stack on, with the task and its virtual CPU in place.\<close>

definition arm_task_start ::
    "arm_config \<Rightarrow> stage2_mm_info \<Rightarrow> u64 \<Rightarrow> (nat \<Rightarrow> nat option) \<Rightarrow> int \<Rightarrow> nat \<Rightarrow> nat \<Rightarrow> vm_vcpu_task_desc \<Rightarrow> arm \<Rightarrow> (int \<times> arm) option" where
  "arm_task_start cfg info sink km me task v desc s =
     (case km 2 of
        None \<Rightarrow> Some (- 1, heap_note (ArmFree task) (arm_destroy_vcpu (Some v) s))
      | Some stack_base \<Rightarrow>
          (let s1 = heap_note (ArmAlloc stack_base) s;
               stack = of_nat stack_base + 4096;
               release = (\<lambda>x. heap_note (ArmFree task) (arm_destroy_vcpu (Some v) (heap_note (ArmFree stack_base) x)))
           in do {
             (r1, c1) \<leftarrow> arm_vcpu_init cfg info (\<lambda>i. km (3 + i) \<noteq> None) (d_entry desc) stack (am_vcpus s1 v);
             (let s2 = upd_avcpu v (\<lambda>_. c1) s1
              in if r1 \<noteq> 0 then Some (- 1, release s2)
                 else case aarch64_vcpu_task_init sink (d_guest_cpu_id desc) (d_entry desc) (d_arg0 desc) (d_flags desc) stack (am_vcpus s2 v) of
                   (r2, c2) \<Rightarrow>
                     (let s3 = upd_avcpu v (\<lambda>_. c2) s2
                      in if r2 \<noteq> 0 then Some (- 1, release s3) else Some (0, arm_scheduler_sched me task s3))) }))"

definition arm_vm_create_vcpu_task ::
    "arm_config \<Rightarrow> stage2_mm_info \<Rightarrow> u64 \<Rightarrow> (nat \<Rightarrow> nat option) \<Rightarrow> int \<Rightarrow> vm_vcpu_task_desc option \<Rightarrow> arm \<Rightarrow> (int \<times> arm) option" where
  "arm_vm_create_vcpu_task cfg info sink km me desc_ptr s =
     (case desc_ptr of
        None \<Rightarrow> Some (- 1, s)
      | Some desc \<Rightarrow>
          (case km 0 of
             None \<Rightarrow> Some (- 1, s)
           | Some task \<Rightarrow>
               (let s1 = upd_atask task (\<lambda>_. new_arm_task desc (am_task_id s)) ((heap_note (ArmAlloc task) s)\<lparr>am_task_id := am_task_id s + 1\<rparr>)
                in case arm_create_vcpu info (km 1) (d_vcpu_id desc) (d_vcpu_priority desc) s1 of
                     (None, s2) \<Rightarrow> Some (- 1, heap_note (ArmFree task) s2)
                   | (Some v, s2) \<Rightarrow> arm_task_start cfg info sink km me task v desc (upd_atask task (\<lambda>t. t\<lparr>at_vcpu := Some v\<rparr>) s2))))"

definition arm_create_task :: "arm_config \<Rightarrow> stage2_mm_info \<Rightarrow> u64 \<Rightarrow> (nat \<Rightarrow> nat option) \<Rightarrow> int \<Rightarrow> string option \<Rightarrow> u64 \<Rightarrow> int \<Rightarrow> arm \<Rightarrow> (int \<times> arm) option" where
  "arm_create_task cfg info sink km me name entry prio s =
     arm_vm_create_vcpu_task cfg info sink km me
       (Some \<lparr>d_name = name, d_vcpu_id = 1, d_priority = prio, d_vcpu_priority = 0, d_pcpu_affinity = 0, d_entry = entry,
          d_arg0 = ac_dtb_addr cfg, d_arg1 = 0, d_guest_cpu_id = ac_vcpu_mpidr cfg ! 0 AND 0xff00ffffff, d_flags = 1\<rparr>) s"

definition create_task2 :: "arm_config \<Rightarrow> stage2_mm_info \<Rightarrow> u64 \<Rightarrow> (nat \<Rightarrow> nat option) \<Rightarrow> int \<Rightarrow> string option \<Rightarrow> u64 \<Rightarrow> int \<Rightarrow> arm \<Rightarrow> (int \<times> arm) option" where
  "create_task2 cfg info sink km me name entry prio s =
     arm_vm_create_vcpu_task cfg info sink km me
       (Some \<lparr>d_name = name, d_vcpu_id = 1, d_priority = prio, d_vcpu_priority = 0, d_pcpu_affinity = 0, d_entry = entry,
          d_arg0 = 0, d_arg1 = 0, d_guest_cpu_id = - 1, d_flags = 0\<rparr>) s"

section \<open>Power interface\<close>

definition psci_mpidr_affinity :: "u64 \<Rightarrow> u64" where
  "psci_mpidr_affinity mpidr = mpidr AND 0xff00ffffff"

text \<open>The search of the loops over the configured CPUs: the index of the first with the affinity; \<open>None\<close> for a read past the array.\<close>

primrec configured_index :: "arm_config \<Rightarrow> u64 \<Rightarrow> nat \<Rightarrow> nat \<Rightarrow> nat option option" where
  "configured_index cfg target i 0 = Some None"
| "configured_index cfg target i (Suc n) = do {
     m \<leftarrow> aread (ac_vcpu_mpidr cfg) i;
     (if psci_mpidr_affinity m = target then Some (Some i) else configured_index cfg target (Suc i) n) }"

definition psci_configured_mpidr :: "arm_config \<Rightarrow> u64 \<Rightarrow> u64 option option" where
  "psci_configured_mpidr cfg cpu = do {
     r \<leftarrow> configured_index cfg (psci_mpidr_affinity cpu) 0 (unat (ac_vcpu_count cfg));
     Some (map_option (\<lambda>i. psci_mpidr_affinity (ac_vcpu_mpidr cfg ! i)) r) }"

definition psci_task_exists :: "u64 \<Rightarrow> arm \<Rightarrow> bool" where
  "psci_task_exists mpidr s \<longleftrightarrow>
     (let is = (\<lambda>t. psci_mpidr_affinity (at_mpidr (am_tasks s t)) = psci_mpidr_affinity mpidr)
      in list_ex (\<lambda>i. case am_running s i of None \<Rightarrow> False | Some t \<Rightarrow> is t) [0, 1, 2, 3] \<or> list_ex is (am_ready s))"

abbreviation (input) "PSCI_RET_SUCCESS \<equiv> 0 :: u64"
abbreviation (input) "PSCI_RET_INVALID_PARAMETERS \<equiv> - 2 :: u64"
abbreviation (input) "PSCI_RET_DENIED \<equiv> - 3 :: u64"
abbreviation (input) "PSCI_RET_ALREADY_ON \<equiv> - 4 :: u64"

text \<open>The new task \<open>t\<close> gets its identity: affinity, physical CPU, vector base of the caller, argument.\<close>

definition psci_bind :: "arm_config \<Rightarrow> int \<Rightarrow> nat \<Rightarrow> u64 \<Rightarrow> u64 \<Rightarrow> arm \<Rightarrow> arm option" where
  "psci_bind cfg me t target ctx s = do {
     r \<leftarrow> configured_index cfg target 0 (unat (ac_vcpu_count cfg));
     (let s1 = upd_atask t (\<lambda>x. x\<lparr>at_virq := (at_virq x)\<lparr>g_mpidr := target\<rparr>, at_affinity := (case r of None \<Rightarrow> - 1 | Some i \<Rightarrow> int i)\<rparr>) s
      in case at_vcpu (am_tasks s1 t) of
           None \<Rightarrow> None
         | Some v \<Rightarrow> Some (upd_avcpu v (\<lambda>c. c\<lparr>va_vmpidr := 0x80000000 OR target, va_vbar := r_vbar (ph_el1 (am_cpus s1 me)),
                         va_regs := arm_reg_write 0 ctx (va_regs c)\<rparr>) s1)) }"

definition psci_vcpu_on ::
    "arm_config \<Rightarrow> stage2_mm_info \<Rightarrow> u64 \<Rightarrow> (nat \<Rightarrow> nat option) \<Rightarrow> int \<Rightarrow> arm_regs \<Rightarrow> arm \<Rightarrow> (u64 \<times> arm) option" where
  "psci_vcpu_on cfg info sink km me regs s =
     (let cpu = arm_reg_read regs 1; target_pc = arm_reg_read regs 2; context_id = arm_reg_read regs 3
      in do {
        conf \<leftarrow> psci_configured_mpidr cfg cpu;
        (case conf of
           None \<Rightarrow> Some (PSCI_RET_INVALID_PARAMETERS, s)
         | Some target \<Rightarrow>
             if psci_task_exists target s then Some (PSCI_RET_ALREADY_ON, s)
             else do {
               (r, s1) \<leftarrow> create_task2 cfg info sink km me (Some ''smp'') target_pc 10 s;
               (if r \<noteq> 0 then Some (PSCI_RET_DENIED, s1)
                else case List.find (\<lambda>t. at_mpidr (am_tasks s1 t) = - 1) (am_ready s1) of
                       None \<Rightarrow> Some (PSCI_RET_DENIED, s1)
                     | Some t \<Rightarrow> map_option (\<lambda>s2. (PSCI_RET_SUCCESS, s2)) (psci_bind cfg me t target context_id s1)) }) })"

text \<open>The calls that leave the result variable unset return \<open>junk\<close>.\<close>

definition psci_vcpu_call ::
    "arm_config \<Rightarrow> stage2_mm_info \<Rightarrow> u64 \<Rightarrow> (nat \<Rightarrow> nat option) \<Rightarrow> u64 \<Rightarrow> int \<Rightarrow> arm_regs \<Rightarrow> arm \<Rightarrow> (int \<times> arm_regs \<times> arm) option" where
  "psci_vcpu_call cfg info sink km junk me regs s =
     (let fn = arm_reg_read regs 0
      in if fn = 0x84000000 then Some (0, arm_reg_write 0 2 regs, s)
         else if fn = 0x84000003 \<or> fn = 0xC4000003 then do {
           (val, s1) \<leftarrow> psci_vcpu_on cfg info sink km me regs s;
           Some (0, arm_reg_write 0 val regs, s1) }
         else if fn = 0x84000005 \<or> fn = 0xC4000005 \<or> fn = 0x84000006 then Some (0, arm_reg_write 0 2 regs, s)
         else if fn \<in> {0x84000001, 0xC4000001, 0x84000002, 0x84000004, 0xC4000004, 0x84000007, 0xC4000007, 0x84000008, 0x84000009}
           then Some (0, arm_reg_write 0 junk regs, s)
         else Some (- 5, regs, s))"

section \<open>Creation\<close>

lemma new_arm_task_simps [simp]:
  "at_vcpu (new_arm_task d i) = None" "at_priority (new_arm_task d i) = d_priority d" "at_affinity (new_arm_task d i) = d_pcpu_affinity d"
  "at_mpidr (new_arm_task d i) = d_guest_cpu_id d" "at_state (new_arm_task d i) = TASK_READY" "gt_ok (at_virq (new_arm_task d i))"
  by (simp_all add: new_arm_task_def arm_copy_name_def gt_ok_def split: option.split)

lemma arm_create_spec:
  assumes km: "km 0 = Some t" "km 1 = Some v" "km 2 = Some st" "km 3 \<noteq> None" "km 4 \<noteq> None" "km 5 \<noteq> None"
  obtains c s1 where "arm_vm_create_vcpu_task cfg info sink km me (Some desc) s = Some (0, arm_scheduler_sched me t s1)"
    "s1 = s\<lparr>am_tasks := (am_tasks s)(t := (new_arm_task desc (am_task_id s))\<lparr>at_vcpu := Some v\<rparr>), am_vcpus := (am_vcpus s)(v := c),
       am_heap := am_heap s @ [ArmAlloc t, ArmAlloc v, ArmAlloc st], am_task_id := am_task_id s + 1\<rparr>"
    "g_pc (va_regs c) = d_entry desc" "g_cpsr (va_regs c) = 0x3c5" "va_stack c = of_nat st + 4096" "va_sctlr_el1 c = SCTLR_VCPU_DEFAULT"
    "length (va_mem c) = 3"
proof -
  let ?c = "snd (aarch64_vcpu_task_init sink (d_guest_cpu_id desc) (d_entry desc) (d_arg0 desc) (d_flags desc) (of_nat st + 4096)
      (snd (the (arm_vcpu_init cfg info (\<lambda>_. True) (d_entry desc) (of_nat st + 4096)
        (snd (arm_vcpu_reset ((zero_arm_vcpu info)\<lparr>va_vcpu_id := d_vcpu_id desc, va_priority := d_vcpu_priority desc\<rparr>)))))))"
  let ?s1 = "s\<lparr>am_tasks := (am_tasks s)(t := (new_arm_task desc (am_task_id s))\<lparr>at_vcpu := Some v\<rparr>), am_vcpus := (am_vcpus s)(v := ?c),
       am_heap := am_heap s @ [ArmAlloc t, ArmAlloc v, ArmAlloc st], am_task_id := am_task_id s + 1\<rparr>"
  have "arm_vm_create_vcpu_task cfg info sink km me (Some desc) s = Some (0, arm_scheduler_sched me t ?s1)"
    using km by (cases s) (auto simp: arm_vm_create_vcpu_task_def arm_create_vcpu_def arm_task_start_def Let_def arm_vcpu_reset_def arm_vcpu_init_def
        new_mem_regon_def aarch64_vcpu_task_init_def heap_note_def)
  then show thesis
    by (rule that) (auto simp: arm_vcpu_reset_def arm_vcpu_init_def new_mem_regon_def aarch64_vcpu_task_init_def Let_def arch_set_return_addr_def
        arm_reg_write_def guest_mem_add_region_def zero_arm_vcpu_def)
qed

text \<open>
  A creation that cannot get one of its three blocks gives back those it got and leaves the queues alone.
\<close>

lemma arm_create_fails:
  assumes "km 0 = None \<or> km 1 = None \<or> km 2 = None"
  shows "\<exists>s'. arm_vm_create_vcpu_task cfg info sink km me (Some desc) s = Some (- 1, s') \<and>
    (\<exists>es. am_heap s' = am_heap s @ es \<and> mset [p. ArmAlloc p \<leftarrow> es] = mset [p. ArmFree p \<leftarrow> es]) \<and>
    am_ready s' = am_ready s \<and> am_current s' = am_current s \<and> am_running s' = am_running s"
  using assms
  by (auto simp: arm_vm_create_vcpu_task_def arm_create_vcpu_def arm_task_start_def arm_vcpu_reset_def heap_note_def arm_destroy_vcpu_def Let_def
      zero_arm_vcpu_def split: option.splits)

section \<open>Starting a CPU\<close>

lemma configured_index_spec:
  assumes "i + n \<le> length (ac_vcpu_mpidr cfg)"
  obtains (none) "configured_index cfg a i n = Some None" "\<And>k. i \<le> k \<Longrightarrow> k < i + n \<Longrightarrow> psci_mpidr_affinity (ac_vcpu_mpidr cfg ! k) \<noteq> a"
  | (at) k where "configured_index cfg a i n = Some (Some k)" "i \<le> k" "k < i + n" "psci_mpidr_affinity (ac_vcpu_mpidr cfg ! k) = a"
  using assms
proof (induction n arbitrary: i thesis)
  case 0
  then show ?case by simp
next
  case (Suc n)
  have r: "aread (ac_vcpu_mpidr cfg) i = Some (ac_vcpu_mpidr cfg ! i)" using Suc.prems(3) by (simp add: aread_def)
  show ?case
  proof (cases "psci_mpidr_affinity (ac_vcpu_mpidr cfg ! i) = a")
    case True
    then show ?thesis using Suc.prems(2) [of i] r by simp
  next
    case False
    have b: "Suc i + n \<le> length (ac_vcpu_mpidr cfg)" using Suc.prems(3) by simp
    show ?thesis
    proof (rule Suc.IH [OF _ _ b])
      assume n: "configured_index cfg a (Suc i) n = Some None" "\<And>k. Suc i \<le> k \<Longrightarrow> k < Suc i + n \<Longrightarrow> psci_mpidr_affinity (ac_vcpu_mpidr cfg ! k) \<noteq> a"
      have "psci_mpidr_affinity (ac_vcpu_mpidr cfg ! k) \<noteq> a" if "i \<le> k" "k < i + Suc n" for k
        using n(2) [of k] False that by (cases "k = i") auto
      then show ?thesis using Suc.prems(1) n(1) False r by simp
    next
      fix k assume "configured_index cfg a (Suc i) n = Some (Some k)" "Suc i \<le> k" "k < Suc i + n" "psci_mpidr_affinity (ac_vcpu_mpidr cfg ! k) = a"
      then show ?thesis using Suc.prems(2) [of k] False r by simp
    qed
  qed
qed

definition psci_config_ok :: "arm_config \<Rightarrow> bool" where
  "psci_config_ok cfg \<longleftrightarrow> length (ac_vcpu_mpidr cfg) = 4 \<and> unat (ac_vcpu_count cfg) \<le> 4"

text \<open>The tasks of the queue and of the CPUs, and the invariant that no two of them are the same CPU of the guest.\<close>

definition live :: "arm \<Rightarrow> nat set" where
  "live s = set (am_ready s) \<union> {t. \<exists>i \<in> {0, 1, 2, 3}. am_running s i = Some t}"

definition guest_cpus_unique :: "arm \<Rightarrow> bool" where
  "guest_cpus_unique s \<longleftrightarrow> (\<forall>t \<in> live s. \<forall>u \<in> live s. t \<noteq> u \<longrightarrow>
      psci_mpidr_affinity (at_mpidr (am_tasks s t)) \<noteq> psci_mpidr_affinity (at_mpidr (am_tasks s u))) \<and>
     (\<forall>t \<in> set (am_ready s). at_mpidr (am_tasks s t) \<noteq> - 1)"

lemma list_ex_option: "list_ex (\<lambda>i. case r i of None \<Rightarrow> False | Some t \<Rightarrow> P t) is \<longleftrightarrow> (\<exists>t. (\<exists>i \<in> set is. r i = Some t) \<and> P t)"
  by (induction "is") (auto split: option.split)

lemma psci_task_exists_iff:
  "psci_task_exists m s \<longleftrightarrow> (\<exists>t \<in> live s. psci_mpidr_affinity (at_mpidr (am_tasks s t)) = psci_mpidr_affinity m)"
  unfolding psci_task_exists_def Let_def live_def list_ex_option list_ex_iff [of _ "am_ready s"] list.set by blast

lemma affinity_idem [simp]: "psci_mpidr_affinity (psci_mpidr_affinity m) = psci_mpidr_affinity m"
  unfolding psci_mpidr_affinity_def by (simp only: and.right_idem)

lemma affinity_not_m1: "psci_mpidr_affinity m \<noteq> - 1"
proof
  assume "psci_mpidr_affinity m = - 1"
  then have "bit (psci_mpidr_affinity m) 63" by simp
  then show False by (simp add: psci_mpidr_affinity_def bit_and_iff)
qed

lemma find_unique:
  assumes "x \<in> set xs" "P x" "\<And>y. y \<in> set xs \<Longrightarrow> P y \<Longrightarrow> y = x"
  shows "List.find P xs = Some x"
proof (cases "List.find P xs")
  case None
  then show ?thesis using assms(1,2) by (auto simp: find_None_iff)
next
  case (Some y)
  then have "y \<in> set xs" "P y" by (auto simp: find_Some_iff)
  then show ?thesis using Some assms(3) by blast
qed

lemma psci_on_starts:
  fixes regs :: arm_regs and cfg :: arm_config
  defines "a \<equiv> psci_mpidr_affinity (arm_reg_read regs 1)"
  assumes inv: "guest_cpus_unique s" and off: "\<not> (\<exists>u \<in> live s. psci_mpidr_affinity (at_mpidr (am_tasks s u)) = a)"
    and at: "configured_index cfg a 0 (unat (ac_vcpu_count cfg)) = Some (Some k)" "k < unat (ac_vcpu_count cfg)" "psci_mpidr_affinity (ac_vcpu_mpidr cfg ! k) = a"
    and km: "km 0 = Some t" "km 1 = Some v" "km 2 = Some st" "\<forall>i \<in> {3, 4, 5}. km i \<noteq> None" "t \<notin> live s"
  shows "\<exists>s'. psci_vcpu_on cfg info sink km me regs s = Some (PSCI_RET_SUCCESS, s') \<and> guest_cpus_unique s' \<and>
          mset (am_ready s') = add_mset t (mset (am_ready s)) \<and> am_running s' = am_running s \<and> am_current s' = am_current s \<and>
          at_mpidr (am_tasks s' t) = a \<and> at_vcpu (am_tasks s' t) = Some v \<and>
          (\<exists>i < unat (ac_vcpu_count cfg). at_affinity (am_tasks s' t) = int i \<and> psci_mpidr_affinity (ac_vcpu_mpidr cfg ! i) = a) \<and>
          g_pc (va_regs (am_vcpus s' v)) = arm_reg_read regs 2 \<and> arm_reg_read (va_regs (am_vcpus s' v)) 0 = arm_reg_read regs 3 \<and>
          va_vmpidr (am_vcpus s' v) = 0x80000000 OR a \<and>
          (\<forall>u. u \<noteq> t \<longrightarrow> am_tasks s' u = am_tasks s u) \<and> (\<forall>w. w \<noteq> v \<longrightarrow> am_vcpus s' w = am_vcpus s w)"
proof -
  have aa: "psci_mpidr_affinity a = a" "a \<noteq> - 1" by (simp_all add: a_def affinity_not_m1)
  have c: "psci_configured_mpidr cfg (arm_reg_read regs 1) = Some (Some a)" using at by (simp add: psci_configured_mpidr_def a_def)
  have e: "\<not> psci_task_exists a s" using off by (simp add: psci_task_exists_iff a_def)
  let ?d = "\<lparr>d_name = Some ''smp'', d_vcpu_id = 1, d_priority = 10, d_vcpu_priority = 0, d_pcpu_affinity = 0, d_entry = arm_reg_read regs 2,
      d_arg0 = 0, d_arg1 = 0, d_guest_cpu_id = - 1, d_flags = 0\<rparr>"
  have km': "km 3 \<noteq> None" "km 4 \<noteq> None" "km 5 \<noteq> None" using km(4) by auto
  obtain c0 s1 where cr: "arm_vm_create_vcpu_task cfg info sink km me (Some ?d) s = Some (0, arm_scheduler_sched me t s1)"
    and s1: "s1 = s\<lparr>am_tasks := (am_tasks s)(t := (new_arm_task ?d (am_task_id s))\<lparr>at_vcpu := Some v\<rparr>), am_vcpus := (am_vcpus s)(v := c0),
      am_heap := am_heap s @ [ArmAlloc t, ArmAlloc v, ArmAlloc st], am_task_id := am_task_id s + 1\<rparr>"
    and pc: "g_pc (va_regs c0) = arm_reg_read regs 2"
    using arm_create_spec [OF km(1-3) km'] by (metis vm_vcpu_task_desc.select_convs(6))
  let ?s2 = "arm_scheduler_sched me t s1"
  have s2: "am_tasks ?s2 = (am_tasks s)(t := (new_arm_task ?d (am_task_id s))\<lparr>at_vcpu := Some v\<rparr>)" "am_vcpus ?s2 = (am_vcpus s)(v := c0)"
    "mset (am_ready ?s2) = add_mset t (mset (am_ready s))" "set (am_ready ?s2) = insert t (set (am_ready s))"
    "am_running ?s2 = am_running s" "am_current ?s2 = am_current s"
    by (simp_all add: arm_sched_simps s1)
  have f: "List.find (\<lambda>u. at_mpidr (am_tasks ?s2 u) = - 1) (am_ready ?s2) = Some t"
    by (rule find_unique) (use inv s2 in \<open>auto simp: guest_cpus_unique_def split: if_splits\<close>)
  obtain s3 where s3: "psci_bind cfg me t a (arm_reg_read regs 3) ?s2 = Some s3"
    "am_tasks s3 = (am_tasks ?s2)(t := (am_tasks ?s2 t)\<lparr>at_virq := (at_virq (am_tasks ?s2 t))\<lparr>g_mpidr := a\<rparr>, at_affinity := int k\<rparr>)"
    "am_vcpus s3 = (am_vcpus ?s2)(v := c0\<lparr>va_vmpidr := 0x80000000 OR a, va_vbar := r_vbar (ph_el1 (am_cpus ?s2 me)),
       va_regs := arm_reg_write 0 (arm_reg_read regs 3) (va_regs c0)\<rparr>)"
    "am_ready s3 = am_ready ?s2" "am_running s3 = am_running ?s2" "am_current s3 = am_current ?s2"
    using at(1) s2 by (simp add: psci_bind_def)
  have on: "psci_vcpu_on cfg info sink km me regs s = Some (PSCI_RET_SUCCESS, s3)"
    using c e cr f s3(1) by (simp add: psci_vcpu_on_def create_task2_def)
  have lv: "live s3 = insert t (live s)" using s2 s3 by (auto simp: live_def)
  have m: "at_mpidr (am_tasks s3 u) = (if u = t then a else at_mpidr (am_tasks s u))" for u using s2 s3 by simp
  have un: "guest_cpus_unique s3"
    using inv off aa km(5) unfolding guest_cpus_unique_def lv m s3(4) s2(4) by (auto split: if_splits)
  have "arm_reg_read (va_regs (am_vcpus s3 v)) 0 = arm_reg_read regs 3" "g_pc (va_regs (am_vcpus s3 v)) = arm_reg_read regs 2"
    using s3(3) pc by (simp_all add: arm_reg_read_def arm_reg_write_def)
  moreover have "\<exists>i < unat (ac_vcpu_count cfg). at_affinity (am_tasks s3 t) = int i \<and> psci_mpidr_affinity (ac_vcpu_mpidr cfg ! i) = a"
    using at s3(2) by auto
  ultimately show ?thesis using on un m s2 s3 by auto
qed


definition on_request :: arm_regs where
  "on_request = zero_arm_regs\<lparr>gx := (\<lambda>_. 0)(1 := 1, 2 := 0x50200000, 3 := 7)\<rparr>"


end
