(* ===== verification/Arm_Trap.thy ===== *)
theory Arm_Trap
  imports Arm_Psci Gicv3_Mmio Pl011
begin

text \<open>
  Exceptions and interrupts on AArch64: emulation of accesses to devices and system registers (\<^verbatim>\<open>src/arch/aarch64/emulate.c\<close>),
  the handling of guest exceptions (\<^verbatim>\<open>aarch64_guest_fault_manager.c\<close>) and the two entry points \<open>do_guest_exception\<close> and
  \<open>do_irq_mode\<close> of \<^verbatim>\<open>traps.c\<close>.

  The state joins that of the scheduler with the second-stage tables, the emulated interrupt controller and the emulated
  UART. The environment \<open>arm_env\<close> holds what is read from outside. The outcome of an exception is a return to the guest (possibly
  another one) or a halt in \<open>panic\<close>; \<open>None\<close> stands for a null pointer, an access outside the emulated structures, or
  \<open>hyper_fatal\<close> in the page-table code.
\<close>

section \<open>State\<close>

record arm_sys =
  sy :: arm
  sy_pgt :: pgt
  sy_vgic :: vmem
  sy_uart :: uart_emul_state

record arm_env =
  ae_cfg :: arm_config
  ae_he :: u64
  ae_info :: stage2_mm_info
  ae_sink :: u64
  ae_km :: "nat \<Rightarrow> nat option"
  ae_junk :: u64
  ae_host :: "u8 list"

definition vgic_of :: "arm_config \<Rightarrow> vgic_config" where
  "vgic_of cfg = \<lparr>gicd_base = ac_gicd_base cfg, gicr_base = ac_gicr_base cfg, gicr_size = ac_gicr_size cfg, gicr_stride = ac_gicr_stride cfg,
     vcpu_count = ac_vcpu_count cfg, vcpu_mpidr = ac_vcpu_mpidr cfg\<rparr>"

text \<open>The tasks as the interrupt controller sees them on CPU \<open>me\<close>, and back.\<close>

definition gsys_of :: "int \<Rightarrow> arm \<Rightarrow> gsys" where
  "gsys_of me s = \<lparr>gtasks = (\<lambda>t. at_virq (am_tasks s t)), gs_running = (\<lambda>i. am_running s (int i)), gs_ready = am_ready s, gs_current = am_current s me\<rparr>"

definition put_gsys :: "gsys \<Rightarrow> arm \<Rightarrow> arm" where
  "put_gsys g s = s\<lparr>am_tasks := (\<lambda>t. (am_tasks s t)\<lparr>at_virq := gtasks g t\<rparr>)\<rparr>"

section \<open>Syndrome\<close>

definition esr_ec :: "u32 \<Rightarrow> u32" where "esr_ec e = drop_bit 26 e"
definition esr_iss :: "u32 \<Rightarrow> u64" where "esr_iss e = ucast (e AND 0x1ffffff)"
definition esr_fsc :: "u32 \<Rightarrow> nat" where "esr_fsc e = unat (e AND 0x3f)"
definition dabt_write :: "u32 \<Rightarrow> bool" where "dabt_write e = bit e 6"
definition dabt_reg :: "u32 \<Rightarrow> int" where "dabt_reg e = uint (drop_bit 16 e AND 0x1f)"
definition dabt_size :: "u32 \<Rightarrow> nat" where "dabt_size e = unat (drop_bit 22 e AND 3)"
definition sysreg_read :: "u32 \<Rightarrow> bool" where "sysreg_read e = bit e 0"
definition sysreg_reg :: "u32 \<Rightarrow> int" where "sysreg_reg e = uint (drop_bit 5 e AND 0x1f)"

abbreviation (input) "HSR_EC_HVC64 \<equiv> 0x16 :: u32"
abbreviation (input) "HSR_EC_SYSREG \<equiv> 0x18 :: u32"
abbreviation (input) "HSR_EC_INSTR_ABORT_LOWER_EL \<equiv> 0x20 :: u32"
abbreviation (input) "HSR_EC_DATA_ABORT_LOWER_EL \<equiv> 0x24 :: u32"

definition is_translation_fault :: "nat \<Rightarrow> bool" where "is_translation_fault fsc \<longleftrightarrow> 4 \<le> fsc \<and> fsc \<le> 4 + 3"
definition is_access_fault :: "nat \<Rightarrow> bool" where "is_access_fault fsc \<longleftrightarrow> 8 \<le> fsc \<and> fsc \<le> 8 + 3"

definition fault_ipa :: "arm_cpu \<Rightarrow> u64" where
  "fault_ipa h = push_bit 8 (ph_hpfar_el2 h AND 0xfffffffff0) OR (ph_far_el2 h AND 0xfff)"

section \<open>Emulated devices\<close>

definition uart_target :: "arm_config \<Rightarrow> int \<Rightarrow> arm \<Rightarrow> nat option" where
  "uart_target cfg me s =
     (case find_task_by_mpidr (ac_vcpu_mpidr cfg ! 0) (gsys_of me s) of Some t \<Rightarrow> Some t | None \<Rightarrow> am_current s me)"

definition uart_env :: "arm_config \<Rightarrow> int \<Rightarrow> arm \<Rightarrow> pl_env" where
  "uart_env cfg me s = \<lparr>guest_base = ac_uart_base cfg, uart_enabled = ac_uart_enabled cfg, has_target = (uart_target cfg me s \<noteq> None),
     target_is_current = (uart_target cfg me s \<noteq> None \<and> uart_target cfg me s = am_current s me)\<rparr>"

text \<open>What an operation of the UART asked of the interrupt controller is carried out on the tasks.\<close>

definition uart_event :: "arm_config \<Rightarrow> int \<Rightarrow> nat option \<Rightarrow> uart_event \<Rightarrow> arm \<Rightarrow> arm" where
  "uart_event cfg me target e s =
     (case (e, target) of
        (InjectVirq, Some t) \<Rightarrow> upd_atask t (\<lambda>x. x\<lparr>at_virq := gic_vcpu_inject_virq (uint (ac_uart_guest_irq cfg)) (at_virq x)\<rparr>) s
      | (FlushLr, Some t) \<Rightarrow> arm_flush_lr me t s
      | _ \<Rightarrow> s)"

definition uart_done :: "arm_config \<Rightarrow> int \<Rightarrow> uart_emul_state \<Rightarrow> arm_sys \<Rightarrow> arm_sys" where
  "uart_done cfg me u x =
     x\<lparr>sy_uart := u, sy := fold (uart_event cfg me (uart_target cfg me (sy x))) (drop (length (pl_events (sy_uart x))) (pl_events u)) (sy x)\<rparr>"

text \<open>\<open>ops->read\<close> and \<open>ops->write\<close> of the driver bound to a region; both drivers return 0.\<close>

definition arm_dev_read :: "arm_config \<Rightarrow> int \<Rightarrow> string \<Rightarrow> u64 \<Rightarrow> nat \<Rightarrow> arm_sys \<Rightarrow> (u64 \<times> arm_sys) option" where
  "arm_dev_read cfg me dev ipa len x =
     (if dev = ''gic3'' then map_option (\<lambda>v. (v, x)) (gic3_read (vgic_of cfg) (sy_vgic x) ipa len)
      else if dev = ''pl011'' then (case uart_emul_read (uart_env cfg me (sy x)) ipa (sy_uart x) of (v, u) \<Rightarrow> Some (v, uart_done cfg me u x))
      else None)"

definition arm_dev_write :: "arm_config \<Rightarrow> int \<Rightarrow> string \<Rightarrow> u64 \<Rightarrow> nat \<Rightarrow> u64 \<Rightarrow> arm_sys \<Rightarrow> arm_sys option" where
  "arm_dev_write cfg me dev ipa len v x =
     (if dev = ''gic3'' then map_option (\<lambda>m. x\<lparr>sy_vgic := m\<rparr>) (gic3_write (vgic_of cfg) (sy_vgic x) ipa len v)
      else if dev = ''pl011'' then Some (uart_done cfg me (uart_emul_write (uart_env cfg me (sy x)) ipa v (sy_uart x)) x)
      else None)"

definition pl011_maybe_receive :: "arm_env \<Rightarrow> int \<Rightarrow> arm_sys \<Rightarrow> arm_sys" where
  "pl011_maybe_receive env me x = uart_done (ae_cfg env) me (snd (pl011_service_host (uart_env (ae_cfg env) me (sy x)) (ae_host env) (sy_uart x))) x"

text \<open>A region without a device is a null pointer here; the caller has tested it.\<close>

definition vcpu_emulate_read :: "arm_env \<Rightarrow> int \<Rightarrow> nat \<Rightarrow> arm_regs \<Rightarrow> u64 \<Rightarrow> int \<Rightarrow> nat \<Rightarrow> arm_sys \<Rightarrow> (int \<times> arm_regs \<times> arm_sys) option" where
  "vcpu_emulate_read env me v regs ipa reg_id len x = do {
     mem \<leftarrow> guest_mem_find_region (va_mem (am_vcpus (sy x) v)) ipa;
     dev \<leftarrow> mr_dev mem;
     (val, x1) \<leftarrow> arm_dev_read (ae_cfg env) me dev ipa len x;
     Some (0, arm_reg_write reg_id val regs, x1) }"

definition vcpu_emulate_write :: "arm_env \<Rightarrow> int \<Rightarrow> nat \<Rightarrow> arm_regs \<Rightarrow> u64 \<Rightarrow> int \<Rightarrow> nat \<Rightarrow> arm_sys \<Rightarrow> (int \<times> arm_regs \<times> arm_sys) option" where
  "vcpu_emulate_write env me v regs ipa reg_id len x = do {
     mem \<leftarrow> guest_mem_find_region (va_mem (am_vcpus (sy x) v)) ipa;
     dev \<leftarrow> mr_dev mem;
     x1 \<leftarrow> arm_dev_write (ae_cfg env) me dev ipa len (arm_reg_read regs reg_id) x;
     Some (0, regs, x1) }"

section \<open>System registers\<close>

definition ISS_SYSREG_ENC :: "u64 \<Rightarrow> u64 \<Rightarrow> u64 \<Rightarrow> u64 \<Rightarrow> u64 \<Rightarrow> u64" where
  "ISS_SYSREG_ENC op0 op2 op1 crn crm = push_bit 20 op0 OR push_bit 17 op2 OR push_bit 14 op1 OR push_bit 10 crn OR push_bit 1 crm"

definition ISS_ACTLR_EL1 :: u64 where "ISS_ACTLR_EL1 = ISS_SYSREG_ENC 3 1 0 1 0"
definition ISS_SRE_EL1 :: u64 where "ISS_SRE_EL1 = ISS_SYSREG_ENC 3 5 0 12 12"
definition ISS_SGI1R_EL1 :: u64 where "ISS_SGI1R_EL1 = ISS_SYSREG_ENC 3 5 0 12 11"

abbreviation (input) "ISS_SYSREG_MASK \<equiv> 0xfffffc1e :: u64"

definition vcpu_emulate_sysreg_read :: "u64 \<Rightarrow> u64 option" where
  "vcpu_emulate_sysreg_read iss =
     (let r = iss AND ISS_SYSREG_MASK in if r = ISS_ACTLR_EL1 then Some 0 else if r = ISS_SRE_EL1 then Some 0 else None)"

definition sgi_of :: "u64 \<Rightarrow> gic_vcpu_sgi" where
  "sgi_of v = \<lparr>sgi_intid = ucast (drop_bit 24 v AND 0xf), sgi_irm = (drop_bit 40 v AND 1 \<noteq> 0), sgi_aff3 = ucast (drop_bit 48 v AND 0xff),
     sgi_aff2 = ucast (drop_bit 32 v AND 0xff), sgi_aff1 = ucast (drop_bit 16 v AND 0xff), sgi_rs = ucast (drop_bit 44 v AND 0xf),
     sgi_target_list = ucast (v AND 0xffff)\<rparr>"

definition vcpu_emulate_sysreg_write :: "int \<Rightarrow> u64 \<Rightarrow> u64 \<Rightarrow> arm \<Rightarrow> int \<times> arm" where
  "vcpu_emulate_sysreg_write me iss v s =
     (if iss AND ISS_SYSREG_MASK = ISS_SGI1R_EL1 then (0, put_gsys (snd (snd (gic_vcpu_send_sgi (Some (sgi_of v)) (gsys_of me s)))) s)
      else (- 1, s))"

section \<open>Guest exceptions\<close>

datatype aarch64_guest_fault_error =
    NO_CURRENT_TASK | NO_CURRENT_VCPU | UNMAPPED_IPA | NON_MMIO_ACCESS_FAULT | EMULATE_FAILED | SYSREG_EMULATE_FAILED
  | UNSUPPORTED_INSTRUCTION_ABORT | UNSUPPORTED_DATA_ABORT | UNSUPPORTED_EXCEPTION_CLASS

datatype aarch64_guest_fault_result = Resume_Guest | Yield_Scheduler | Failure aarch64_guest_fault_error

type_synonym fault_out = "(aarch64_guest_fault_result \<times> arm_regs \<times> arm_sys) option"

definition arm_current_vcpu :: "int \<Rightarrow> arm \<Rightarrow> nat option" where
  "arm_current_vcpu me s = (case am_current s me of None \<Rightarrow> None | Some t \<Rightarrow> at_vcpu (am_tasks s t))"

definition map_stage2_page :: "arm_env \<Rightarrow> int \<Rightarrow> nat option \<Rightarrow> u64 \<Rightarrow> arm_regs \<Rightarrow> arm_sys \<Rightarrow> fault_out" where
  "map_stage2_page env me vcpu ipa regs x =
     (case vcpu of
        None \<Rightarrow> Some (Failure NO_CURRENT_VCPU, regs, x)
      | Some v \<Rightarrow>
          (case guest_mem_find_region (va_mem (am_vcpus (sy x) v)) ipa of
             None \<Rightarrow> Some (Failure UNMAPPED_IPA, regs, x)
           | Some mem \<Rightarrow>
               (let ipa_aligned = ipa AND NOT 4095;
                    hpa_aligned = mr_hpa mem + (ipa_aligned - mr_gpa mem)
                in do {
                  p \<leftarrow> arm_stage2_map (ae_he env) (va_mm_info (am_vcpus (sy x) v)) ipa_aligned hpa_aligned 4096 MEM_NORMAL_RW (word_of_int (mr_attr mem)) (sy_pgt x);
                  Some (Resume_Guest, regs, x\<lparr>sy_pgt := p, sy := upd_cpu me (ph_emit (TlbiIpa (drop_bit 12 ipa_aligned))) (sy x)\<rparr>) })))"

definition emulate_mmio_access :: "arm_env \<Rightarrow> int \<Rightarrow> nat option \<Rightarrow> arm_regs \<Rightarrow> u64 \<Rightarrow> u32 \<Rightarrow> arm_sys \<Rightarrow> fault_out" where
  "emulate_mmio_access env me vcpu regs ipa e x =
     (case vcpu of
        None \<Rightarrow> Some (Failure NO_CURRENT_VCPU, regs, x)
      | Some v \<Rightarrow>
          (case guest_mem_find_region (va_mem (am_vcpus (sy x) v)) ipa of
             None \<Rightarrow> Some (Failure UNMAPPED_IPA, regs, x)
           | Some mem \<Rightarrow>
               if mr_dev mem = None then Some (Failure NON_MMIO_ACCESS_FAULT, regs, x)
               else do {
                 (ret, regs1, x1) \<leftarrow> (if dabt_write e then vcpu_emulate_write env me v regs ipa (dabt_reg e) (dabt_size e) x
                                      else vcpu_emulate_read env me v regs ipa (dabt_reg e) (dabt_size e) x);
                 (if ret \<noteq> 0 then Some (Failure EMULATE_FAILED, regs1, x1)
                  else Some (Resume_Guest, regs1\<lparr>g_pc := g_pc regs1 + 4\<rparr>, x1)) }))"

definition handle_sysreg :: "arm_env \<Rightarrow> int \<Rightarrow> arm_regs \<Rightarrow> u32 \<Rightarrow> arm_sys \<Rightarrow> fault_out" where
  "handle_sysreg env me regs e x =
     (if am_current (sy x) me = None then Some (Failure NO_CURRENT_TASK, regs, x)
      else if arm_current_vcpu me (sy x) = None then Some (Failure NO_CURRENT_VCPU, regs, x)
      else
        let reg_id = sysreg_reg e;
            (ret, regs1, s1) =
              (if sysreg_read e then (case vcpu_emulate_sysreg_read (esr_iss e) of
                                        Some d \<Rightarrow> (0, arm_reg_write reg_id d regs, sy x)
                                      | None \<Rightarrow> (- 1, regs, sy x))
               else (case vcpu_emulate_sysreg_write me (esr_iss e) (arm_reg_read regs reg_id) (sy x) of (r, s) \<Rightarrow> (r, regs, s)))
        in if ret \<noteq> 0 then Some (Failure SYSREG_EMULATE_FAILED, regs1, x\<lparr>sy := s1\<rparr>)
           else Some (Resume_Guest, regs1\<lparr>g_pc := g_pc regs1 + 4\<rparr>,
                  x\<lparr>sy := upd_cpu me arm_hyp_timer_rearm (gicv3_reenable_hyp_timer_ppi (ae_cfg env) me s1)\<rparr>))"

definition handle_instruction_abort :: "arm_env \<Rightarrow> int \<Rightarrow> arm_regs \<Rightarrow> u32 \<Rightarrow> arm_sys \<Rightarrow> fault_out" where
  "handle_instruction_abort env me regs e x =
     (if is_translation_fault (esr_fsc e)
      then map_stage2_page env me (arm_current_vcpu me (sy x)) (fault_ipa (am_cpus (sy x) me)) regs x
      else Some (Failure UNSUPPORTED_INSTRUCTION_ABORT, regs, x))"

definition handle_data_abort :: "arm_env \<Rightarrow> int \<Rightarrow> arm_regs \<Rightarrow> u32 \<Rightarrow> arm_sys \<Rightarrow> fault_out" where
  "handle_data_abort env me regs e x =
     (let ipa = fault_ipa (am_cpus (sy x) me);
          vcpu = arm_current_vcpu me (sy x)
      in if is_translation_fault (esr_fsc e) then map_stage2_page env me vcpu ipa regs x
         else if is_access_fault (esr_fsc e) then emulate_mmio_access env me vcpu regs ipa e x
         else Some (Failure UNSUPPORTED_DATA_ABORT, regs, x))"

definition handle_hvc :: "arm_env \<Rightarrow> int \<Rightarrow> arm_regs \<Rightarrow> arm_sys \<Rightarrow> fault_out" where
  "handle_hvc env me regs x =
     (if am_current (sy x) me = None then Some (Failure NO_CURRENT_TASK, regs, x)
      else if arm_current_vcpu me (sy x) = None then Some (Failure NO_CURRENT_VCPU, regs, x)
      else do {
        (r, regs1, s1) \<leftarrow> psci_vcpu_call (ae_cfg env) (ae_info env) (ae_sink env) (ae_km env) (ae_junk env) me regs (sy x);
        Some (Yield_Scheduler, regs1, x\<lparr>sy := s1\<rparr>) })"

definition aarch64_guest_fault_handle_exception :: "arm_env \<Rightarrow> int \<Rightarrow> arm_regs \<Rightarrow> u32 \<Rightarrow> arm_sys \<Rightarrow> fault_out" where
  "aarch64_guest_fault_handle_exception env me regs e x =
     (if esr_ec e = HSR_EC_SYSREG then handle_sysreg env me regs e x
      else if esr_ec e = HSR_EC_INSTR_ABORT_LOWER_EL then handle_instruction_abort env me regs e x
      else if esr_ec e = HSR_EC_DATA_ABORT_LOWER_EL then handle_data_abort env me regs e x
      else if esr_ec e = HSR_EC_HVC64 then handle_hvc env me regs x
      else Some (Failure UNSUPPORTED_EXCEPTION_CLASS, regs, x))"

section \<open>Entry points\<close>

datatype arm_out = ArmResume arm_regs arm_sys | ArmPanic

definition yield_sys :: "arm_env \<Rightarrow> int \<Rightarrow> arm_regs \<Rightarrow> arm_sys \<Rightarrow> (arm_regs \<times> arm_sys) option" where
  "yield_sys env me regs x = map_option (\<lambda>(r, s). (r, x\<lparr>sy := s\<rparr>)) (arm_sched_yield (ae_cfg env) me regs (sy x))"

definition count_trap :: "int \<Rightarrow> arm \<Rightarrow> arm" where
  "count_trap me s = (case am_current s me of None \<Rightarrow> s | Some t \<Rightarrow> upd_atask t (\<lambda>k. k\<lparr>at_trap_count := at_trap_count k + 1\<rparr>) s)"

definition count_irq :: "int \<Rightarrow> arm \<Rightarrow> arm" where
  "count_irq me s = (case am_current s me of None \<Rightarrow> s | Some t \<Rightarrow> upd_atask t (\<lambda>k. k\<lparr>at_irq_count := at_irq_count k + 1\<rparr>) s)"

definition do_guest_exception :: "arm_env \<Rightarrow> int \<Rightarrow> arm_regs \<Rightarrow> int \<Rightarrow> arm_sys \<Rightarrow> arm_out option" where
  "do_guest_exception env me regs is_compat x =
     (if is_compat = 1 then Some ArmPanic
      else
        let e = ucast (ph_esr_el2 (am_cpus (sy x) me));
            x1 = x\<lparr>sy := count_trap me (sy x)\<rparr>
        in do {
          (r, regs1, x2) \<leftarrow> aarch64_guest_fault_handle_exception env me regs e x1;
          (case r of
             Failure err \<Rightarrow> Some ArmPanic
           | Yield_Scheduler \<Rightarrow> map_option (\<lambda>(q, y). ArmResume q y) (yield_sys env me regs1 x2)
           | Resume_Guest \<Rightarrow> Some (ArmResume regs1 x2)) })"

definition inject_ppi :: "arm_config \<Rightarrow> int \<Rightarrow> arm \<Rightarrow> arm" where
  "inject_ppi cfg me s = (case am_current s me of None \<Rightarrow> s
     | Some t \<Rightarrow> upd_atask t (\<lambda>k. k\<lparr>at_virq := gic_vcpu_inject_virq (uint (ac_virt_timer_ppi cfg)) (at_virq k)\<rparr>) s)"

text \<open>\<open>hirq\<close> is what the read of the acknowledge register returns.\<close>

definition do_irq_mode :: "arm_env \<Rightarrow> int \<Rightarrow> int \<Rightarrow> arm_regs \<Rightarrow> arm_sys \<Rightarrow> (arm_regs \<times> arm_sys) option" where
  "do_irq_mode env me hirq regs x =
     (let cfg = ae_cfg env;
          x0 = x\<lparr>sy := count_irq me (sy x)\<rparr>
      in if hirq < 16 then yield_sys env me regs (x0\<lparr>sy := gicv3_eof_int me hirq (arm_ipi_handle me (word_of_int hirq) (sy x0))\<rparr>)
         else if word_of_int hirq = ac_hyp_timer_ppi cfg then do {
           (regs1, x1) \<leftarrow> yield_sys env me regs (x0\<lparr>sy := upd_cpu me arm_hyp_timer_rearm (gicv3_reenable_hyp_timer_ppi cfg me (sy x0))\<rparr>);
           (let x2 = pl011_maybe_receive env me x1 in Some (regs1, x2\<lparr>sy := gicv3_eof_int me hirq (sy x2)\<rparr>)) }
         else if word_of_int hirq = ac_virt_timer_ppi cfg then
           (let s1 = upd_cpu me (upd_el1 (\<lambda>r. r\<lparr>r_cntv_ctl := r_cntv_ctl r OR 2\<rparr>)) (sy x0);
                cur = am_current s1 me;
                s2 = gicv3_eof_int me hirq (inject_ppi cfg me s1)
            in do {
              (regs1, x1) \<leftarrow> yield_sys env me regs (x0\<lparr>sy := s2\<rparr>);
              Some (regs1, case cur of None \<Rightarrow> x1
                | Some t \<Rightarrow> if am_current (sy x1) me = Some t then x1\<lparr>sy := arm_flush_lr me t (sy x1)\<rparr> else x1) })
         else if ac_uart_enabled cfg \<and> word_of_int hirq = ac_uart_host_irq cfg then
           (let x1 = pl011_maybe_receive env me x0 in Some (regs, x1\<lparr>sy := gicv3_eof_int me hirq (sy x1)\<rparr>))
         else Some (regs, x0\<lparr>sy := gicv3_eof_int me hirq (sy x0)\<rparr>))"

section \<open>Which exceptions a guest survives\<close>

lemma count_simps [simp]:
  "am_current (count_trap me s) = am_current s" "at_vcpu (am_tasks (count_trap me s) t) = at_vcpu (am_tasks s t)"
  "am_vcpus (count_trap me s) = am_vcpus s" "am_cpus (count_trap me s) = am_cpus s" "am_ready (count_trap me s) = am_ready s"
  "at_virq (am_tasks (count_trap me s) t) = at_virq (am_tasks s t)" "am_running (count_trap me s) = am_running s"
  "am_current (count_irq me s) = am_current s" "at_vcpu (am_tasks (count_irq me s) t) = at_vcpu (am_tasks s t)"
  "am_vcpus (count_irq me s) = am_vcpus s" "am_cpus (count_irq me s) = am_cpus s" "am_ready (count_irq me s) = am_ready s"
  "at_virq (am_tasks (count_irq me s) t) = at_virq (am_tasks s t)" "am_running (count_irq me s) = am_running s"
  "at_state (am_tasks (count_irq me s) t) = at_state (am_tasks s t)" "am_lr_count (count_irq me s) = am_lr_count s"
  "at_priority (am_tasks (count_irq me s) t) = at_priority (am_tasks s t)" "at_affinity (am_tasks (count_irq me s) t) = at_affinity (am_tasks s t)"
  by (auto simp: count_trap_def count_irq_def split: option.split)

text \<open>The exceptions the hypervisor has an answer to, for a guest with the memory regions \<open>rs\<close> that faulted at \<open>ipa\<close>.\<close>

definition exception_handled :: "mem_region list \<Rightarrow> u64 \<Rightarrow> u32 \<Rightarrow> bool" where
  "exception_handled rs ipa e \<longleftrightarrow>
     esr_ec e = HSR_EC_HVC64 \<or>
     esr_ec e = HSR_EC_SYSREG \<and> (if sysreg_read e then esr_iss e AND ISS_SYSREG_MASK \<in> {ISS_ACTLR_EL1, ISS_SRE_EL1}
                                 else esr_iss e AND ISS_SYSREG_MASK = ISS_SGI1R_EL1) \<or>
     esr_ec e \<in> {HSR_EC_INSTR_ABORT_LOWER_EL, HSR_EC_DATA_ABORT_LOWER_EL} \<and> is_translation_fault (esr_fsc e) \<and>
       (\<exists>r \<in> set rs. region_contains ipa r) \<or>
     esr_ec e = HSR_EC_DATA_ABORT_LOWER_EL \<and> is_access_fault (esr_fsc e) \<and>
       (\<exists>r. guest_mem_find_region rs ipa = Some r \<and> mr_dev r \<noteq> None)"

lemma find_region_None: "guest_mem_find_region rs ipa = None \<longleftrightarrow> \<not> (\<exists>r \<in> set rs. region_contains ipa r)"
  by (auto simp: guest_mem_find_region_def find_None_iff)

lemma fault_classes: "is_translation_fault f \<Longrightarrow> \<not> is_access_fault f"
  by (simp add: is_translation_fault_def is_access_fault_def)

lemma sysreg_read_iff: "vcpu_emulate_sysreg_read iss = None \<longleftrightarrow> iss AND ISS_SYSREG_MASK \<notin> {ISS_ACTLR_EL1, ISS_SRE_EL1}"
  by (simp add: vcpu_emulate_sysreg_read_def Let_def)

definition is_failure :: "aarch64_guest_fault_result \<Rightarrow> bool" where
  "is_failure r = (case r of Failure _ \<Rightarrow> True | _ \<Rightarrow> False)"

lemma is_failure_simps [simp]: "is_failure (Failure e)" "\<not> is_failure Resume_Guest" "\<not> is_failure Yield_Scheduler"
  by (simp_all add: is_failure_def)

lemma map_page_outcome:
  "guest_mem_find_region (va_mem (am_vcpus (sy x) v)) ipa = None \<Longrightarrow> map_stage2_page env me (Some v) ipa regs x = Some (Failure UNMAPPED_IPA, regs, x)"
  "guest_mem_find_region (va_mem (am_vcpus (sy x) v)) ipa \<noteq> None \<Longrightarrow> map_stage2_page env me (Some v) ipa regs x = Some (r, q) \<Longrightarrow> \<not> is_failure r"
  by (auto simp: map_stage2_page_def Let_def split: bind_splits)

lemma mmio_outcome:
  "\<not> (\<exists>r. guest_mem_find_region (va_mem (am_vcpus (sy x) v)) ipa = Some r \<and> mr_dev r \<noteq> None) \<Longrightarrow>
     \<exists>er. emulate_mmio_access env me (Some v) regs ipa e x = Some (Failure er, regs, x)"
  "\<exists>r. guest_mem_find_region (va_mem (am_vcpus (sy x) v)) ipa = Some r \<and> mr_dev r \<noteq> None \<Longrightarrow>
     emulate_mmio_access env me (Some v) regs ipa e x = Some (r', q) \<Longrightarrow> \<not> is_failure r'"
  by (auto simp: emulate_mmio_access_def vcpu_emulate_read_def vcpu_emulate_write_def split: option.splits bind_splits if_splits)

lemma handle_exception_outcome:
  fixes e :: u32
  assumes cur: "am_current (sy x) me = Some t" "at_vcpu (am_tasks (sy x) t) = Some v"
  defines "h \<equiv> exception_handled (va_mem (am_vcpus (sy x) v)) (fault_ipa (am_cpus (sy x) me)) e"
  shows "\<not> h \<Longrightarrow> \<exists>er regs' x'. aarch64_guest_fault_handle_exception env me regs e x = Some (Failure er, regs', x')"
    "h \<Longrightarrow> aarch64_guest_fault_handle_exception env me regs e x = Some (r, q) \<Longrightarrow> \<not> is_failure r"
proof -
  have v: "arm_current_vcpu me (sy x) = Some v" using cur by (simp add: arm_current_vcpu_def)
  let ?rs = "va_mem (am_vcpus (sy x) v)" and ?a = "fault_ipa (am_cpus (sy x) me)"
  note D = aarch64_guest_fault_handle_exception_def handle_instruction_abort_def handle_data_abort_def handle_hvc_def handle_sysreg_def v cur(1)
  consider (sys) "esr_ec e = HSR_EC_SYSREG" | (iabt) "esr_ec e = HSR_EC_INSTR_ABORT_LOWER_EL" | (dabt) "esr_ec e = HSR_EC_DATA_ABORT_LOWER_EL"
    | (hvc) "esr_ec e = HSR_EC_HVC64" | (other) "esr_ec e \<notin> {HSR_EC_SYSREG, HSR_EC_INSTR_ABORT_LOWER_EL, HSR_EC_DATA_ABORT_LOWER_EL, HSR_EC_HVC64}" by blast
  then have "(\<not> h \<longrightarrow> (\<exists>er regs' x'. aarch64_guest_fault_handle_exception env me regs e x = Some (Failure er, regs', x'))) \<and>
      (h \<longrightarrow> aarch64_guest_fault_handle_exception env me regs e x = Some (r, q) \<longrightarrow> \<not> is_failure r)"
  proof cases
    case sys
    then show ?thesis
      by (auto simp: D h_def exception_handled_def Let_def vcpu_emulate_sysreg_read_def vcpu_emulate_sysreg_write_def split: if_splits)
  next
    case iabt
    have "h \<longleftrightarrow> is_translation_fault (esr_fsc e) \<and> guest_mem_find_region ?rs ?a \<noteq> None"
      unfolding h_def exception_handled_def find_region_None using iabt by simp
    then show ?thesis using map_page_outcome(1) [of x v ?a env me regs] map_page_outcome(2) [of x v ?a env me regs r q] iabt
      by (cases "is_translation_fault (esr_fsc e)") (auto simp: D)
  next
    case dabt
    have h: "h \<longleftrightarrow> (if is_translation_fault (esr_fsc e) then guest_mem_find_region ?rs ?a \<noteq> None
        else is_access_fault (esr_fsc e) \<and> (\<exists>r. guest_mem_find_region ?rs ?a = Some r \<and> mr_dev r \<noteq> None))"
      unfolding h_def exception_handled_def find_region_None using dabt fault_classes by simp
    show ?thesis
    proof (cases "is_translation_fault (esr_fsc e)")
      case True
      then show ?thesis using map_page_outcome(1) [of x v ?a env me regs] map_page_outcome(2) [of x v ?a env me regs r q] dabt h
        by (auto simp: D)
    next
      case False
      then have eq: "aarch64_guest_fault_handle_exception env me regs e x =
          (if is_access_fault (esr_fsc e) then emulate_mmio_access env me (Some v) regs ?a e x else Some (Failure UNSUPPORTED_DATA_ABORT, regs, x))"
        using dabt by (simp add: D)
      show ?thesis unfolding eq h using False mmio_outcome(1) [of x v ?a env me regs e] mmio_outcome(2) [of x v ?a env me regs e r q]
        by (cases "is_access_fault (esr_fsc e)") (simp, blast, simp)
    qed
  next
    case hvc
    then show ?thesis by (auto simp: D h_def exception_handled_def split: bind_splits)
  next
    case other
    then show ?thesis by (auto simp: D h_def exception_handled_def)
  qed
  then show "\<not> h \<Longrightarrow> \<exists>er regs' x'. aarch64_guest_fault_handle_exception env me regs e x = Some (Failure er, regs', x')"
    "h \<Longrightarrow> aarch64_guest_fault_handle_exception env me regs e x = Some (r, q) \<Longrightarrow> \<not> is_failure r" by blast+
qed


text \<open>The machine \<^const>\<open>two_guests\<close> with one memory region per guest, and an exception syndrome \<open>e\<close> on CPU 0.\<close>

definition arm_ram_region :: mem_region where
  "arm_ram_region = \<lparr>mr_gpa = 0x50200000, mr_hpa = 0x60000000, mr_size = 0x100000, mr_attr = 7, mr_dev = None, mr_match_name = []\<rparr>"

definition trapped :: "u64 \<Rightarrow> stage2_mm_info \<Rightarrow> pgt \<Rightarrow> arm_sys" where
  "trapped e info p = \<lparr>sy = two_guests\<lparr>am_cpus := (\<lambda>_. blank_cpu\<lparr>ph_esr_el2 := e, ph_hpfar_el2 := 0x502010\<rparr>),
       am_vcpus := (\<lambda>_. (zero_arm_vcpu info)\<lparr>va_mem := [arm_ram_region]\<rparr>)\<rparr>,
     sy_pgt = p, sy_vgic = (\<lambda>_. 0), sy_uart = pl011_register_emul\<rparr>"

definition virt_env :: arm_env where
  "virt_env = \<lparr>ae_cfg = virt_config, ae_he = 0x40400000, ae_info = blank_mm, ae_sink = 0, ae_km = (\<lambda>_. None), ae_junk = 0, ae_host = []\<rparr>"


section \<open>Second-stage faults\<close>

text \<open>
  C15. A guest that touches a page of its memory which is not mapped yet gets it: for a translation fault (of an instruction or
  a data access) at \<open>ipa\<close> inside a memory region, with well-formed tables, a free page for each missing table and no block in the way, the
  hypervisor returns to the same instruction with the registers untouched; the walk of \<open>ipa\<close> then ends at the page of the
  region's memory that corresponds to it, as normal memory with the region's access rights, the stale entry
  is dropped from the TLB, the tables stay well formed and no other page is translated differently.
\<close>

theorem arm_stage2_fault_resolved:
  assumes cur: "am_current (sy x) me = Some c" "at_vcpu (am_tasks (sy x) c) = Some v"
    and esr: "e = ucast (ph_esr_el2 (am_cpus (sy x) me))" "esr_ec e \<in> {HSR_EC_INSTR_ABORT_LOWER_EL, HSR_EC_DATA_ABORT_LOWER_EL}"
      "is_translation_fault (esr_fsc e)"
    and reg: "ipa = fault_ipa (am_cpus (sy x) me)" "guest_mem_find_region (va_mem (am_vcpus (sy x) v)) ipa = Some r"
    and pa: "pa = mr_hpa r + ((ipa AND NOT 4095) - mr_gpa r)" "take_bit 36 (drop_bit 12 pa) \<noteq> 0"
    and tabs: "he_ok (ae_he env)" "arm_frame (ae_he env) (root_table (va_mm_info (am_vcpus (sy x) v))) = Some t"
      "lookup_level (va_mm_info (am_vcpus (sy x) v)) = lv" "lv + k = 3" "tables_ok s2_fmt (ae_he env) k t (sy_pgt x)"
      "room (pg_bm (sy_pgt x)) (k + n)" "\<not> blocked s2_fmt (pg_tb (sy_pgt x)) t (va_path ipa lv k)"
  shows "\<exists>x' en. do_guest_exception env me regs 0 x = Some (ArmResume regs x') \<and>
    pwalk s2_fmt (pg_tb (sy_pgt x')) t (va_path ipa lv k) = Some en \<and> lpae_base en = take_bit 36 (drop_bit 12 pa) \<and>
    decode_s2 en = s2_spec MEM_NORMAL_RW (word_of_int (mr_attr r)) \<and> last (ph_events (am_cpus (sy x') me)) = TlbiIpa (drop_bit 12 ipa) \<and>
    tables_ok s2_fmt (ae_he env) k t (sy_pgt x') \<and> room (pg_bm (sy_pgt x')) n \<and>
    (\<forall>js. idx_path k js \<and> js \<noteq> va_path ipa lv k \<longrightarrow> pwalk s2_fmt (pg_tb (sy_pgt x')) t js = pwalk s2_fmt (pg_tb (sy_pgt x)) t js)"
proof -
  let ?x = "x\<lparr>sy := count_trap me (sy x)\<rparr>"
  define a where "a = ipa AND NOT 4095"
  have mask: "(4095::u64) = mask 12" by (simp add: mask_eq_exp_minus_1)
  have pg: "drop_bit 12 a = drop_bit 12 ipa"
    unfolding mask a_def by (rule bit_word_eqI) (auto simp: bit_simps dest: bit_imp_le_length)
  have path: "va_path a lv k = va_path ipa lv k" by (rule va_path_page_eq [OF pg tabs(4)])
  have room: "room (pg_bm (sy_pgt x)) (tables_needed k 1 + n)"
    by (rule room_mono [OF tabs(6)]) (simp add: tables_needed_def)
  have one: "unat (round_pages 4096 div 4096) = 1" by (simp add: round_pages_def)
  obtain p where p: "arm_stage2_map (ae_he env) (va_mm_info (am_vcpus (sy x) v)) a pa 4096 MEM_NORMAL_RW (word_of_int (mr_attr r)) (sy_pgt x) = Some p"
    "tables_ok s2_fmt (ae_he env) k t p" "room (pg_bm p) n"
    "pwalk s2_fmt (pg_tb p) t (va_path ipa lv k) = Some (make_stage2_entry pa MEM_NORMAL_RW (word_of_int (mr_attr r)))"
    "\<forall>js. idx_path k js \<and> js \<noteq> va_path ipa lv k \<longrightarrow> pwalk s2_fmt (pg_tb p) t js = pwalk s2_fmt (pg_tb (sy_pgt x)) t js"
    using s2_map_range [OF tabs(1-5) one, of a n pa MEM_NORMAL_RW "word_of_int (mr_attr r)"] room tabs(7) pa(2) page_number_less [of a]
    by (auto simp: path)
  let ?x' = "?x\<lparr>sy_pgt := p, sy := upd_cpu me (ph_emit (TlbiIpa (drop_bit 12 a))) (sy ?x)\<rparr>"
  have "arm_current_vcpu me (sy ?x) = Some v" using cur by (simp add: arm_current_vcpu_def)
  then have "aarch64_guest_fault_handle_exception env me regs e ?x = map_stage2_page env me (Some v) ipa regs ?x"
    using esr(2,3) reg(1) by (auto simp: aarch64_guest_fault_handle_exception_def handle_instruction_abort_def handle_data_abort_def Let_def)
  also have "\<dots> = Some (Resume_Guest, regs, ?x')" using reg(2) p(1) pa(1) by (simp add: map_stage2_page_def Let_def a_def)
  finally have "do_guest_exception env me regs 0 x = Some (ArmResume regs ?x')"
    using esr(1) by (simp add: do_guest_exception_def Let_def)
  moreover have "last (ph_events (am_cpus (sy ?x') me)) = TlbiIpa (drop_bit 12 ipa)" by (simp add: ph_emit_def pg)
  ultimately show ?thesis using p(2-5)
    by (intro exI [of _ ?x'] exI [of _ "make_stage2_entry pa MEM_NORMAL_RW (word_of_int (mr_attr r))"])
      (simp add: decode_make_stage2_entry)
qed

theorem arm_stage2_fault_resolved_witness:
  "\<exists>info p x' t en. do_guest_exception virt_env 0 zero_arm_regs 0 (trapped 0x90000005 info p) = Some (ArmResume zero_arm_regs x') \<and>
     pwalk s2_fmt (pg_tb (sy_pgt x')) t (va_path 0x50201000 1 2) = Some en \<and> lpae_base en = 0x60001"
proof -
  obtain j s where R: "arm_frame 0x40400000 (PAGE_VIR (int j)) = Some (pool_frame 0x40400000 j)"
    "tables_ok s2_fmt 0x40400000 2 (pool_frame 0x40400000 j) s" "room (pg_bm s) (tables_needed 2 2 + 0)"
    "\<forall>js. idx_path 2 js \<longrightarrow> \<not> blocked s2_fmt (pg_tb s) (pool_frame 0x40400000 j) js" by (rule sample_root)
  let ?i = "sample_info\<lparr>root_table := PAGE_VIR (int j)\<rparr>" and ?t = "pool_frame 0x40400000 j"
  let ?x = "trapped 0x90000005 ?i s"
  have "room (pg_bm s) (2 + 0)" by (rule room_mono [OF R(3)]) (simp add: tables_needed_def numeral_2_eq_2)
  moreover have "fault_ipa (am_cpus (sy ?x) 0) = 0x50201000" by (simp add: fault_ipa_def trapped_def blank_cpu_def)
  moreover have "idx_path 2 (va_path 0x50201000 1 2)" by (rule va_path_idx)
  moreover have "guest_mem_find_region (va_mem (am_vcpus (sy ?x) 1)) 0x50201000 = Some arm_ram_region"
    by (simp add: trapped_def guest_mem_find_region_def region_contains_def arm_ram_region_def)
  ultimately show ?thesis
    using arm_stage2_fault_resolved [of ?x 0 1 1 "0x90000005" "0x50201000" arm_ram_region "0x60001000" virt_env ?t 1 2 0 zero_arm_regs] R(1,2,4)
    by (simp add: trapped_def esr_ec_def esr_fsc_def is_translation_fault_def arm_ram_region_def virt_env_def he_ok_def sample_info_def zero_arm_vcpu_def) blast
qed

section \<open>The virtual timer\<close>

lemma flush_keeps_irq:
  assumes "gt_ok g" "lrs \<le> VCPU_MAX_VGIC_LRS" "gic_vcpu_flush_lr lrs g h = (g', h')"
    and "q \<in> set (virq_queue g) \<or> (\<exists>i < lrs. ich_lr h i = make_lr q)"
  shows "gt_ok g'" "q \<in> set (virq_queue g') \<or> (\<exists>i < lrs. ich_lr h' i = make_lr q)"
proof -
  let ?f = "free_lrs lrs h" and ?q = "virq_queue g"
  have d: "distinct ?f" "set ?f \<subseteq> {..<lrs}" by (auto simp: free_lrs_def)
  have r: "gt_ok g'" "virq_queue g' = drop (length ?f) ?q" "h' = fold place (zip ?f ?q) h"
    using vgic_flush_spec [OF assms(1,2), of h] assms(3) by auto
  note lr = place_fold_lr [OF d(1), of ?q h]
  show "gt_ok g'" by (rule r(1))
  from assms(4) show "q \<in> set (virq_queue g') \<or> (\<exists>i < lrs. ich_lr h' i = make_lr q)"
  proof
    assume "q \<in> set ?q"
    then obtain k where k: "k < length ?q" "?q ! k = q" by (auto simp: in_set_conv_nth)
    show ?thesis
    proof (cases "k < length ?f")
      case True
      have "List.find (\<lambda>p. fst p = ?f ! k) (zip ?f ?q) = Some (?f ! k, q)"
        unfolding find_Some_iff using True k d(1) by (intro exI [of _ k]) (auto simp: nth_eq_iff_index_eq)
      then have "ich_lr h' (?f ! k) = make_lr q" by (simp add: r(3) lr)
      moreover have "?f ! k < lrs" using True d(2) nth_mem by blast
      ultimately show ?thesis by blast
    next
      case False
      then have "?q ! k \<in> set (drop (length ?f) ?q)" using k by (auto simp: in_set_conv_nth intro!: exI [of _ "k - length ?f"])
      then show ?thesis using k(2) r(2) by simp
    qed
  next
    assume "\<exists>i < lrs. ich_lr h i = make_lr q"
    then obtain i where i: "i < lrs" "ich_lr h i = make_lr q" by blast
    have "List.find (\<lambda>p. fst p = i) (zip ?f ?q) = None"
      using i make_lr_busy by (auto simp: find_None_iff free_lrs_def dest!: set_zip_leftD)
    then have "ich_lr h' i = make_lr q" by (simp add: r(3) lr i(2))
    then show ?thesis using i(1) by blast
  qed
qed

text \<open>The interrupt \<open>q\<close> of task \<open>c\<close> waits in its queue, or in a list register of CPU \<open>me\<close> while the task is current there.\<close>

definition irq_waits :: "int \<Rightarrow> nat \<Rightarrow> int \<Rightarrow> arm \<Rightarrow> bool" where
  "irq_waits me c q s \<longleftrightarrow> gt_ok (at_virq (am_tasks s c)) \<and> (q \<in> set (virq_queue (at_virq (am_tasks s c))) \<or>
     am_current s me = Some c \<and> (\<exists>i < am_lr_count s. ich_lr (ph_ich (am_cpus s me)) i = make_lr q))"

lemma irq_waits_flush:
  assumes "irq_waits me c q s" "am_current s me = Some c" "am_lr_count s \<le> VCPU_MAX_VGIC_LRS"
  shows "irq_waits me c q (arm_flush_lr me c s)"
proof -
  obtain g h where f: "gic_vcpu_flush_lr (am_lr_count s) (at_virq (am_tasks s c)) (ph_ich (am_cpus s me)) = (g, h)" by fastforce
  show ?thesis using flush_keeps_irq [OF _ assms(3) f, of q] assms(1,2) by (auto simp: irq_waits_def flush_parts f)
qed

lemma yield_keeps_irq:
  assumes cur: "am_current s me = Some c" "at_vcpu (am_tasks s c) = Some vc" "at_state (am_tasks s c) \<noteq> TASK_EXIT"
    and vs: "\<forall>t \<in> set (am_ready s). at_vcpu (am_tasks s t) \<noteq> None \<and> at_vcpu (am_tasks s t) \<noteq> Some vc"
    and w: "gt_ok (at_virq (am_tasks s c))" "q \<in> set (virq_queue (at_virq (am_tasks s c)))" "am_lr_count s \<le> VCPU_MAX_VGIC_LRS"
  shows "\<exists>regs' s'. arm_sched_yield cfg me regs s = Some (regs', s') \<and> irq_waits me c q s' \<and> am_lr_count s' = am_lr_count s"
proof (cases "next_task (aprio s) (aaff s) me (Some c) (am_ready s)")
  case None
  let ?s = "note_empty_regs regs s"
  have i: "irq_waits me c q ?s" using w by (simp add: irq_waits_def)
  have "arm_sched_yield cfg me regs s = Some (regs, if 0 < pv_count (at_virq (am_tasks s c)) then arm_flush_lr me c ?s else ?s)"
    using None cur by (simp add: arm_sched_yield_def Let_def arm_scheduler_next_def arm_next_no_publish_def)
  then show ?thesis using i irq_waits_flush [OF i] cur w by (auto simp: flush_parts)
next
  case (Some u)
  have "u \<in> set (am_ready s)" by (rule arm_next_mem [OF Some])
  then obtain vt where vt: "at_vcpu (am_tasks s u) = Some vt" "u \<noteq> c" using vs cur(2) by fastforce
  let ?s1 = "arm_set_current me (Some u) ((note_empty_regs regs s)\<lparr>am_ready := remove1 u (am_ready s)\<rparr>)"
  let ?s2 = "arm_scheduler_sched me c ?s1"
  have s2: "am_tasks ?s2 = am_tasks s" "am_lr_count ?s2 = am_lr_count s" by (simp_all add: arm_sched_simps arm_set_current_def)
  obtain regs' s' where sw: "arm_switch_in cfg me True u vt regs (left_state me (Some c) regs (count_switch u ?s2)) = (regs', s')" by fastforce
  have "arm_sched_yield cfg me regs s = el2_switch_to cfg me (Some c) u regs ?s2"
    using Some cur by (simp add: arm_sched_yield_def Let_def arm_scheduler_next_def arm_next_no_publish_def arm_set_current_def)
  also have "\<dots> = Some (regs', s')" using vt cur s2 sw by (simp add: el2_switch_to_eq)
  finally show ?thesis using switch_in_spec(5,12) [OF sw] vt(2) w s2 by (auto simp: irq_waits_def)
qed

text \<open>
  C20. The virtual timer interrupt of a guest is not lost: when it fires on the CPU where task \<open>c\<close> runs, and the queue of the task has
  room or the interrupt already waits in it, the handler returns, and afterwards the interrupt waits in the queue
  of \<open>c\<close> or is pending in a list register of the CPU on which \<open>c\<close> still runs, whichever task the scheduler chose meanwhile.
\<close>

theorem arm_virtual_timer_delivered:
  assumes cur: "am_current (sy x) me = Some c" "at_vcpu (am_tasks (sy x) c) = Some vc" "at_state (am_tasks (sy x) c) \<noteq> TASK_EXIT"
    and vs: "\<forall>t \<in> set (am_ready (sy x)). at_vcpu (am_tasks (sy x) t) \<noteq> None \<and> at_vcpu (am_tasks (sy x) t) \<noteq> Some vc"
    and q: "gt_ok (at_virq (am_tasks (sy x) c))" "length (virq_queue (at_virq (am_tasks (sy x) c))) < VCPU_MAX_PENDING_VIRQ \<or>
      irq \<in> set (virq_queue (at_virq (am_tasks (sy x) c)))" "am_lr_count (sy x) \<le> VCPU_MAX_VGIC_LRS"
    and ppi: "irq = uint (ac_virt_timer_ppi (ae_cfg env))" "16 \<le> irq" "ac_virt_timer_ppi (ae_cfg env) \<noteq> ac_hyp_timer_ppi (ae_cfg env)"
  shows "\<exists>regs' x'. do_irq_mode env me irq regs x = Some (regs', x') \<and> irq_waits me c irq (sy x')"
proof -
  let ?cfg = "ae_cfg env"
  define s0 where "s0 = count_irq me (sy x)"
  define s1 where "s1 = upd_cpu me (upd_el1 (\<lambda>r. r\<lparr>r_cntv_ctl := r_cntv_ctl r OR 2\<rparr>)) s0"
  define s2 where "s2 = gicv3_eof_int me irq (inject_ppi ?cfg me s1)"
  have i: "gt_ok (gic_vcpu_inject_virq irq (at_virq (am_tasks (sy x) c)))"
    "irq \<in> set (virq_queue (gic_vcpu_inject_virq irq (at_virq (am_tasks (sy x) c))))"
    using q(2) by (auto simp: inject_queue [OF q(1)])
  have s2: "am_current s2 me = Some c" "\<And>t. at_vcpu (am_tasks s2 t) = at_vcpu (am_tasks (sy x) t)" "am_ready s2 = am_ready (sy x)"
    "at_state (am_tasks s2 c) = at_state (am_tasks (sy x) c)" "am_lr_count s2 = am_lr_count (sy x)"
    "at_virq (am_tasks s2 c) = gic_vcpu_inject_virq irq (at_virq (am_tasks (sy x) c))"
    using cur(1) ppi(1) by (simp_all add: s2_def s1_def s0_def gicv3_eof_int_def inject_ppi_def)
  obtain regs' s3 where y: "arm_sched_yield ?cfg me regs s2 = Some (regs', s3)" "irq_waits me c irq s3" "am_lr_count s3 = am_lr_count (sy x)"
    using yield_keeps_irq [of s2 me c vc irq ?cfg regs] s2 cur vs i q(3) by auto
  have w: "irq_waits me c irq (arm_flush_lr me c s3)" if "am_current s3 me = Some c"
    using irq_waits_flush [OF y(2) that] y(3) q(3) by simp
  have "am_current s1 me = Some c" using cur(1) by (simp add: s1_def s0_def)
  then have "do_irq_mode env me irq regs x = Some (regs', if am_current s3 me = Some c
      then x\<lparr>sy := arm_flush_lr me c s3\<rparr> else x\<lparr>sy := s3\<rparr>)"
    using y(1) ppi by (simp add: do_irq_mode_def yield_sys_def Let_def s2_def s1_def s0_def)
  then show ?thesis using w y(2) by auto
qed

theorem arm_virtual_timer_delivered_witness:
  "\<exists>regs' x'. do_irq_mode virt_env 0 27 zero_arm_regs (trapped 0 blank_mm empty_pool) = Some (regs', x') \<and> irq_waits 0 1 27 (sy x')"
  by (rule arm_virtual_timer_delivered [where vc = 1])
    (simp_all add: trapped_def virt_env_def virt_config_def two_guests_def blank_task_def blank_gtask_ok)

end
