(* ===== verification/Arm_Machine.thy ===== *)
theory Arm_Machine
  imports Arm_Trap
begin

text \<open>
  The AArch64 hypervisor as a machine: its steps are the exceptions and interrupts of the physical CPUs, in any order. A step is the whole
  handler of one CPU; that handlers of two CPUs overlap is not considered here. The invariant of the tasks, their queues and
  CPUs is kept by every step, and with it no interrupt handler meets a null pointer.
\<close>

section \<open>The invariant\<close>

definition tasks_of :: "arm \<Rightarrow> nat set" where
  "tasks_of s = set (am_ready s) \<union> {t. \<exists>i. am_current s i = Some t}"

text \<open>
  Every task is in one place: once in the ready queue or on one CPU. It has a virtual CPU of its own and a well-formed queue of
  pending interrupts, and has not ended. What other CPUs see of a CPU is its current task.
\<close>

definition arm_wf :: "arm \<Rightarrow> bool" where
  "arm_wf s \<longleftrightarrow> distinct (am_ready s) \<and>
     (\<forall>i t. am_current s i = Some t \<longrightarrow> t \<notin> set (am_ready s) \<and> (\<forall>j. am_current s j = Some t \<longrightarrow> j = i)) \<and>
     am_running s = am_current s \<and> am_lr_count s \<le> VCPU_MAX_VGIC_LRS \<and>
     (\<forall>t \<in> tasks_of s. at_vcpu (am_tasks s t) \<noteq> None \<and> at_state (am_tasks s t) \<noteq> TASK_EXIT \<and> gt_ok (at_virq (am_tasks s t)) \<and>
        (\<forall>u \<in> tasks_of s. at_vcpu (am_tasks s u) = at_vcpu (am_tasks s t) \<longrightarrow> u = t))"

text \<open>What the parts of a handler that do not schedule leave alone.\<close>

definition tasks_kept :: "arm \<Rightarrow> arm \<Rightarrow> bool" where
  "tasks_kept s s' \<longleftrightarrow> am_ready s' = am_ready s \<and> am_current s' = am_current s \<and> am_running s' = am_running s \<and> am_lr_count s' = am_lr_count s \<and>
     (\<forall>t \<in> tasks_of s. at_vcpu (am_tasks s' t) = at_vcpu (am_tasks s t) \<and> at_state (am_tasks s' t) = at_state (am_tasks s t) \<and>
        (gt_ok (at_virq (am_tasks s t)) \<longrightarrow> gt_ok (at_virq (am_tasks s' t))))"

lemma kept_refl [simp]: "tasks_kept s s"
  by (simp add: tasks_kept_def)

lemma kept_tasks: "tasks_kept s s' \<Longrightarrow> tasks_of s' = tasks_of s"
  by (simp add: tasks_kept_def tasks_of_def)

lemma kept_trans: "tasks_kept s s1 \<Longrightarrow> tasks_kept s1 s2 \<Longrightarrow> tasks_kept s s2"
  using kept_tasks [of s s1] by (simp add: tasks_kept_def)

lemma kept_wf: "arm_wf s \<Longrightarrow> tasks_kept s s' \<Longrightarrow> arm_wf s'"
  using kept_tasks [of s s'] by (simp add: arm_wf_def tasks_kept_def)

lemma wf_lr_count: "arm_wf s \<Longrightarrow> am_lr_count s \<le> VCPU_MAX_VGIC_LRS"
  by (simp add: arm_wf_def)

lemma kept_fold: "(\<And>x s. x \<in> set xs \<Longrightarrow> am_lr_count s \<le> n \<Longrightarrow> tasks_kept s (f x s)) \<Longrightarrow> am_lr_count s \<le> n \<Longrightarrow> tasks_kept s (fold f xs s)"
proof (induction xs arbitrary: s)
  case (Cons x xs)
  have k: "tasks_kept s (f x s)" using Cons.prems by simp
  then have "tasks_kept (f x s) (fold f xs (f x s))" using Cons by (simp add: tasks_kept_def)
  with k show ?case by (auto intro: kept_trans)
qed simp

section \<open>Handlers that do not schedule\<close>

lemma kept_cpu: "tasks_kept s (upd_cpu me f s)"
  by (simp add: tasks_kept_def)

lemma kept_flush: "am_lr_count s \<le> VCPU_MAX_VGIC_LRS \<Longrightarrow> tasks_kept s (arm_flush_lr me t s)"
  using vgic_flush_spec [of "at_virq (am_tasks s t)" "am_lr_count s" "ph_ich (am_cpus s me)"]
  by (auto simp: tasks_kept_def flush_parts split: prod.splits)

lemma kept_inject: "tasks_kept s (upd_atask t (\<lambda>k. k\<lparr>at_virq := gic_vcpu_inject_virq q (at_virq k)\<rparr>) s)"
  by (simp add: tasks_kept_def inject_queue(1))

lemma kept_counts: "tasks_kept s (count_trap me s)" "tasks_kept s (count_irq me s)"
  by (auto simp: tasks_kept_def count_trap_def count_irq_def split: option.split)

lemma kept_gic: "tasks_kept s (gicv3_eof_int me irq s)" "tasks_kept s (gicv3_reenable_hyp_timer_ppi cfg me s)" "tasks_kept s (inject_ppi cfg me s)"
  "tasks_kept s (arm_ipi_handle me vec s)"
proof -
  show "tasks_kept s (gicv3_eof_int me irq s)" "tasks_kept s (gicv3_reenable_hyp_timer_ppi cfg me s)"
    by (simp_all add: gicv3_eof_int_def gicv3_reenable_hyp_timer_ppi_def Let_def tasks_kept_def)
  show "tasks_kept s (inject_ppi cfg me s)" by (simp add: inject_ppi_def kept_inject split: option.split)
  show "tasks_kept s (arm_ipi_handle me vec s)" by (simp add: arm_ipi_handle_def tasks_kept_def Let_def split: prod.split)
qed

lemma send_sgi_gt_ok:
  "gt_ok (gtasks g t) \<Longrightarrow> gt_ok (gtasks (snd (snd (gic_vcpu_send_sgi p g))) t)"
proof -
  define P where "P = (\<lambda>ds::nat \<times> gsys. gt_ok (gtasks (snd ds) t))"
  have inj: "P (d, inject q u g)" if "P (e, g)" for d e q u g using that by (auto simp: P_def inject_def inject_queue(1))
  have 1: "P (send_to_ready src q u ds)" if "P ds" for src q u ds
    using that inj [of "fst ds" "snd ds"] by (auto simp: P_def send_to_ready_def gic_emul_send_sgi_to_task_def split: prod.splits option.splits if_splits)
  have 2: "P (send_to_bit sgi b ds)" if "P ds" for sgi b ds
    using that inj [of "fst ds" "snd ds"] by (auto simp: P_def send_to_bit_def Let_def split: prod.splits option.splits if_splits)
  have f1: "P (fold (send_to_ready src q) us ds)" if "P ds" for src q us ds using that by (induction us arbitrary: ds) (simp_all add: 1)
  have f2: "P (fold (send_to_bit sgi) bs ds)" if "P ds" for sgi bs ds using that by (induction bs arbitrary: ds) (simp_all add: 2)
  assume "gt_ok (gtasks g t)"
  then have g: "P (d, g)" for d by (simp add: P_def)
  have "P (gic_emul_send_sgi_to_task tg src q g)" for tg src q
    using g inj [OF g] by (auto simp: gic_emul_send_sgi_to_task_def split: option.split)
  then show ?thesis using f1 f2 g by (auto simp: gic_vcpu_send_sgi_def P_def Let_def split: option.split)
qed

lemma kept_sysreg_write: "vcpu_emulate_sysreg_write me iss v s = (r, s') \<Longrightarrow> tasks_kept s s'"
  using send_sgi_gt_ok [of "gsys_of me s"] by (auto simp: vcpu_emulate_sysreg_write_def tasks_kept_def put_gsys_def gsys_of_def split: if_splits)

lemma kept_uart: "am_lr_count (sy x) \<le> VCPU_MAX_VGIC_LRS \<Longrightarrow> tasks_kept (sy x) (sy (uart_done cfg me u x))"
proof -
  assume l: "am_lr_count (sy x) \<le> VCPU_MAX_VGIC_LRS"
  have "tasks_kept s (uart_event cfg me t e s)" if "am_lr_count s \<le> VCPU_MAX_VGIC_LRS" for s t e
    using that by (auto simp: uart_event_def kept_flush kept_inject split: uart_event.split option.split)
  then have "tasks_kept (sy x) (fold (uart_event cfg me (uart_target cfg me (sy x))) (drop (length (pl_events (sy_uart x))) (pl_events u)) (sy x))"
    by (rule kept_fold [OF _ l])
  then show ?thesis by (simp add: uart_done_def)
qed

section \<open>Scheduling\<close>

lemma kept_switch:
  assumes "el2_switch_to cfg me cur nxt irq s = Some (regs', s')" "am_lr_count s \<le> VCPU_MAX_VGIC_LRS"
  shows "tasks_kept s s'"
proof -
  let ?t = "left_state me cur irq (count_switch nxt s)"
  obtain v where "arm_switch_in cfg me (cur \<noteq> None) nxt v irq ?t = (regs', s')"
    using assms(1) by (auto simp: el2_switch_to_eq split: if_splits option.splits)
  note i = switch_in_spec [OF this]
  obtain g h where f: "gic_vcpu_flush_lr (am_lr_count ?t) (at_virq (am_tasks ?t nxt)) (gic_vcpu_restore (am_lr_count ?t) (va_vgic (am_vcpus ?t v)) (ph_ich (am_cpus ?t me))) = (g, h)"
    by fastforce
  have "gt_ok g" if "gt_ok (at_virq (am_tasks s nxt))"
    using vgic_flush_spec [OF _ assms(2), of "at_virq (am_tasks s nxt)"] that f by (fastforce split: prod.splits)
  then show ?thesis using i f by (auto simp: tasks_kept_def)
qed

lemma choose_wf:
  assumes wf: "arm_wf s" and u: "u \<in> set (am_ready s)"
    and r: "mset ready = mset (case am_current s me of None \<Rightarrow> remove1 u (am_ready s) | Some c \<Rightarrow> c # remove1 u (am_ready s))"
    and s': "am_ready s' = ready" "am_current s' = (am_current s)(me := Some u)" "am_running s' = (am_running s)(me := Some u)" "am_tasks s' = am_tasks s"
      "am_lr_count s' = am_lr_count s"
  shows "arm_wf s'" "tasks_of s' = tasks_of s"
proof -
  note W = wf [unfolded arm_wf_def]
  have d: "distinct (am_ready s)" using W by blast
  have st: "set ready = (case am_current s me of None \<Rightarrow> {} | Some c \<Rightarrow> {c}) \<union> (set (am_ready s) - {u})"
    using mset_eq_setD [OF r] d by (auto split: option.splits)
  have dr: "distinct ready" using mset_eq_imp_distinct_iff [OF r] d W by (auto split: option.splits dest: notin_set_remove1)
  have e: "{t. \<exists>i. ((am_current s)(me := Some u)) i = Some t} = insert u {t. \<exists>i. i \<noteq> me \<and> am_current s i = Some t}" by auto
  have f: "{t. \<exists>i. am_current s i = Some t} = (case am_current s me of None \<Rightarrow> {} | Some c \<Rightarrow> {c}) \<union> {t. \<exists>i. i \<noteq> me \<and> am_current s i = Some t}"
  proof (cases "am_current s me")
    case None
    then have "(\<exists>i. am_current s i = Some t) \<longleftrightarrow> (\<exists>i. i \<noteq> me \<and> am_current s i = Some t)" for t by (metis option.distinct(1))
    then show ?thesis using None by simp
  next
    case (Some c)
    then have "(\<exists>i. am_current s i = Some t) \<longleftrightarrow> t = c \<or> (\<exists>i. i \<noteq> me \<and> am_current s i = Some t)" for t by (metis option.inject)
    then show ?thesis using Some by auto
  qed
  show t: "tasks_of s' = tasks_of s" unfolding tasks_of_def s'(1,2) st e f using u by auto
  have W1: "am_current s i = Some t \<Longrightarrow> t \<notin> set (am_ready s)" "am_current s i = Some t \<Longrightarrow> am_current s j = Some t \<Longrightarrow> j = i" for i j t
    using W by blast+
  have c: "t \<notin> set (am_ready s') \<and> (\<forall>j. am_current s' j = Some t \<longrightarrow> j = i)" if a: "am_current s' i = Some t" for i t
  proof (cases "i = me")
    case True
    then have "t = u" using a s'(2) by simp
    then show ?thesis using True u W1(1) unfolding s'(1,2) st by (auto split: option.splits if_splits)
  next
    case False
    then have t: "am_current s i = Some t" using a s'(2) by simp
    then have "t \<noteq> u" "t \<notin> set (am_ready s)" "am_current s me \<noteq> Some t" using u W1(1) [OF t] W1(2) [OF t, of me] False by auto
    then show ?thesis using W1(2) [OF t] unfolding s'(1,2) st by (auto split: option.splits if_splits)
  qed
  have r: "am_running s' = am_current s'" "am_lr_count s' \<le> VCPU_MAX_VGIC_LRS" using W s'(2,3,5) by simp_all
  have k: "\<forall>t \<in> tasks_of s. at_vcpu (am_tasks s t) \<noteq> None \<and> at_state (am_tasks s t) \<noteq> TASK_EXIT \<and> gt_ok (at_virq (am_tasks s t)) \<and>
      (\<forall>u \<in> tasks_of s. at_vcpu (am_tasks s u) = at_vcpu (am_tasks s t) \<longrightarrow> u = t)" using W by blast
  show "arm_wf s'" unfolding arm_wf_def t s'(4) using c dr r k s'(1) by blast
qed

lemma yield_wf:
  assumes wf: "arm_wf s"
  shows "\<exists>regs' s'. arm_sched_yield cfg me regs s = Some (regs', s') \<and> arm_wf s' \<and> tasks_of s' = tasks_of s"
proof -
  note W = wf [unfolded arm_wf_def]
  let ?s0 = "note_empty_regs regs s"
  have k0: "tasks_kept s ?s0" by (simp add: tasks_kept_def)
  have lr: "am_lr_count s \<le> VCPU_MAX_VGIC_LRS" using W by blast
  show ?thesis
  proof (cases "next_task (aprio s) (aaff s) me (am_current s me) (am_ready s)")
    case None
    let ?s' = "case am_current s me of Some c \<Rightarrow> if 0 < pv_count (at_virq (am_tasks s c)) then arm_flush_lr me c ?s0 else ?s0 | None \<Rightarrow> ?s0"
    have "arm_sched_yield cfg me regs s = Some (regs, ?s')"
      using None by (simp add: arm_sched_yield_def Let_def arm_scheduler_next_def arm_next_no_publish_def split: option.split)
    moreover have "tasks_kept s ?s'" using k0 kept_flush [of ?s0] lr by (auto intro: kept_trans split: option.split)
    ultimately show ?thesis using kept_wf [OF wf] kept_tasks by blast
  next
    case (Some u)
    have u: "u \<in> set (am_ready s)" by (rule arm_next_mem [OF Some])
    let ?s1 = "arm_set_current me (Some u) (?s0\<lparr>am_ready := remove1 u (am_ready s)\<rparr>)"
    define s2 where "s2 = (case am_current s me of Some c \<Rightarrow> arm_scheduler_sched me c ?s1 | None \<Rightarrow> ?s1)"
    have ex: "at_state (am_tasks s c) \<noteq> TASK_EXIT" if "am_current s me = Some c" for c using W that by (auto simp: tasks_of_def)
    have y: "arm_sched_yield cfg me regs s = el2_switch_to cfg me (am_current s me) u regs s2"
      using Some ex by (auto simp: arm_sched_yield_def Let_def arm_scheduler_next_def arm_next_no_publish_def arm_set_current_def s2_def split: option.split)
    have s2: "am_tasks s2 = am_tasks s" "am_current s2 = (am_current s)(me := Some u)" "am_running s2 = (am_running s)(me := Some u)"
      "am_lr_count s2 = am_lr_count s" "mset (am_ready s2) = mset (case am_current s me of None \<Rightarrow> remove1 u (am_ready s) | Some c \<Rightarrow> c # remove1 u (am_ready s))"
      by (simp_all add: s2_def arm_sched_simps arm_set_current_def split: option.split)
    note w2 = choose_wf [OF wf u s2(5) refl s2(2,3,1,4)]
    have vc: "\<And>t. t \<in> tasks_of s \<Longrightarrow> at_vcpu (am_tasks s t) \<noteq> None" using W by blast
    then obtain v where "at_vcpu (am_tasks s u) = Some v" using u by (fastforce simp: tasks_of_def)
    moreover have "\<not> (\<exists>c. am_current s me = Some c \<and> at_vcpu (am_tasks s c) = None)" using vc by (auto simp: tasks_of_def)
    ultimately have "el2_switch_to cfg me (am_current s me) u regs s2 \<noteq> None" using s2(1) by (simp add: el2_switch_to_eq)
    then obtain regs' s' where sw: "el2_switch_to cfg me (am_current s me) u regs s2 = Some (regs', s')" by auto
    have "tasks_kept s2 s'" using kept_switch [OF sw] s2(4) lr by simp
    then show ?thesis using y sw kept_wf [OF w2(1)] kept_tasks w2(2) by (metis (no_types))
  qed
qed

section \<open>Starting a CPU\<close>

text \<open>The allocator hands out memory that no task or virtual CPU in use occupies.\<close>

definition fresh :: "(nat \<Rightarrow> nat option) \<Rightarrow> arm \<Rightarrow> bool" where
  "fresh km s \<longleftrightarrow> (\<forall>t. km 0 = Some t \<longrightarrow> t \<notin> tasks_of s) \<and> (\<forall>v. km 1 = Some v \<longrightarrow> (\<forall>t \<in> tasks_of s. at_vcpu (am_tasks s t) \<noteq> Some v))"

lemma create_fails_kept:
  assumes "km 0 = None \<or> km 1 = None \<or> km 2 = None" "fresh km s" "arm_vm_create_vcpu_task cfg info sink km me (Some desc) s = Some (r, s')"
  shows "tasks_kept s s'"
proof -
  have "am_ready s' = am_ready s \<and> am_current s' = am_current s \<and> am_running s' = am_running s \<and> am_lr_count s' = am_lr_count s \<and>
      (\<forall>u. km 0 \<noteq> Some u \<longrightarrow> am_tasks s' u = am_tasks s u)"
    using assms(1,3)
    by (auto simp: arm_vm_create_vcpu_task_def arm_create_vcpu_def arm_task_start_def arm_vcpu_reset_def heap_note_def arm_destroy_vcpu_def Let_def
        zero_arm_vcpu_def split: option.splits)
  then show ?thesis using assms(2) by (auto simp: tasks_kept_def fresh_def)
qed

lemma add_task_wf:
  assumes wf: "arm_wf s" and f: "t \<notin> tasks_of s" "\<forall>u \<in> tasks_of s. at_vcpu (am_tasks s u) \<noteq> Some v"
    and k: "at_vcpu k = Some v" "at_state k \<noteq> TASK_EXIT" "gt_ok (at_virq k)"
    and s': "mset (am_ready s') = add_mset t (mset (am_ready s))" "am_current s' = am_current s" "am_running s' = am_running s"
      "am_lr_count s' = am_lr_count s" "am_tasks s' = (am_tasks s)(t := k)"
  shows "arm_wf s'"
proof -
  note W = wf [unfolded arm_wf_def]
  have m: "mset (am_ready s') = mset (t # am_ready s)" using s'(1) by simp
  have st: "set (am_ready s') = insert t (set (am_ready s))" using mset_eq_setD [OF m] by simp
  have d: "distinct (am_ready s')" using mset_eq_imp_distinct_iff [OF m] W f(1) by (simp add: tasks_of_def)
  have t: "tasks_of s' = insert t (tasks_of s)" by (simp add: tasks_of_def st s'(2))
  have c: "\<forall>i u. am_current s' i = Some u \<longrightarrow> u \<notin> set (am_ready s') \<and> (\<forall>j. am_current s' j = Some u \<longrightarrow> j = i)"
    unfolding s'(2) st using W f(1) by (auto simp: tasks_of_def)
  have "\<forall>u \<in> tasks_of s'. at_vcpu (am_tasks s' u) \<noteq> None \<and> at_state (am_tasks s' u) \<noteq> TASK_EXIT \<and> gt_ok (at_virq (am_tasks s' u)) \<and>
      (\<forall>w \<in> tasks_of s'. at_vcpu (am_tasks s' w) = at_vcpu (am_tasks s' u) \<longrightarrow> w = u)"
    unfolding t s'(5) using W f k by auto
  then show ?thesis unfolding arm_wf_def using c d W s'(2-4) by simp
qed

lemma create_wf:
  assumes wf: "arm_wf s" and f: "fresh km s" and c: "arm_vm_create_vcpu_task cfg info sink km me (Some desc) s = Some (r, s')"
  shows "arm_wf s'"
proof (cases "km 0 = None \<or> km 1 = None \<or> km 2 = None")
  case True
  then show ?thesis using create_fails_kept [OF True f c] kept_wf [OF wf] by blast
next
  case False
  then obtain t v st where km: "km 0 = Some t" "km 1 = Some v" "km 2 = Some st" by auto
  have mem: "km 3 \<noteq> None" "km 4 \<noteq> None" "km 5 \<noteq> None"
    using c km by (auto simp: arm_vm_create_vcpu_task_def arm_create_vcpu_def arm_task_start_def Let_def arm_vcpu_reset_def arm_vcpu_init_def
        new_mem_regon_def split: if_splits bind_splits)
  obtain c0 s1 where "arm_vm_create_vcpu_task cfg info sink km me (Some desc) s = Some (0, arm_scheduler_sched me t s1)"
    "s1 = s\<lparr>am_tasks := (am_tasks s)(t := (new_arm_task desc (am_task_id s))\<lparr>at_vcpu := Some v\<rparr>), am_vcpus := (am_vcpus s)(v := c0),
       am_heap := am_heap s @ [ArmAlloc t, ArmAlloc v, ArmAlloc st], am_task_id := am_task_id s + 1\<rparr>"
    using arm_create_spec [OF km mem] by metis
  then have s': "s' = arm_scheduler_sched me t s1" "s1 = s\<lparr>am_tasks := (am_tasks s)(t := (new_arm_task desc (am_task_id s))\<lparr>at_vcpu := Some v\<rparr>),
      am_vcpus := (am_vcpus s)(v := c0), am_heap := am_heap s @ [ArmAlloc t, ArmAlloc v, ArmAlloc st], am_task_id := am_task_id s + 1\<rparr>"
    using c by simp_all
  show ?thesis
    by (rule add_task_wf [OF wf, of t v "(new_arm_task desc (am_task_id s))\<lparr>at_vcpu := Some v\<rparr>"])
      (use f km in \<open>simp_all add: fresh_def s' arm_sched_simps\<close>)
qed

lemma psci_on_wf:
  assumes wf: "arm_wf s" and f: "fresh km s" and c: "psci_vcpu_on cfg info sink km me regs s = Some (r, s')"
  shows "arm_wf s'"
proof -
  have bind: "tasks_kept a b" if "psci_bind cfg me t target ctx a = Some b" for t target ctx a b
    using that by (auto simp: psci_bind_def tasks_kept_def gt_ok_def Let_def split: bind_splits option.splits)
  have new: "arm_wf s1" if "create_task2 cfg info sink km me n e p s = Some (q, s1)" for q s1 n e p
    using create_wf [OF wf f] that by (auto simp: create_task2_def)
  show ?thesis using c wf new bind kept_wf
    by (auto simp: psci_vcpu_on_def Let_def split: bind_splits option.splits if_splits) blast+
qed

section \<open>Whole handlers\<close>

lemma mmio_kept:
  assumes "emulate_mmio_access env me vcpu regs ipa e x = Some (r, regs', x')" "am_lr_count (sy x) \<le> VCPU_MAX_VGIC_LRS"
  shows "tasks_kept (sy x) (sy x')"
proof -
  have rd: "tasks_kept (sy x) (sy y)" if "arm_dev_read cfg me dev a n x = Some (w, y)" for cfg dev a n w y
    using that kept_uart [OF assms(2)] by (auto simp: arm_dev_read_def split: if_splits prod.splits)
  have wr: "tasks_kept (sy x) (sy y)" if "arm_dev_write cfg me dev a n w x = Some y" for cfg dev a n w y
    using that kept_uart [OF assms(2)] by (auto simp: arm_dev_write_def split: if_splits)
  show ?thesis using assms(1)
    by (auto simp: emulate_mmio_access_def vcpu_emulate_read_def vcpu_emulate_write_def split: option.splits if_splits bind_splits dest: rd wr)
qed

lemma map_page_kept: "map_stage2_page env me vcpu ipa regs x = Some (r, regs', x') \<Longrightarrow> tasks_kept (sy x) (sy x')"
  by (auto simp: map_stage2_page_def Let_def kept_cpu split: option.splits bind_splits)

lemma sysreg_kept:
  assumes "handle_sysreg env me regs e x = Some (r, regs', x')"
  shows "tasks_kept (sy x) (sy x')"
proof -
  obtain q s1 where w: "vcpu_emulate_sysreg_write me (esr_iss e) (arm_reg_read regs (sysreg_reg e)) (sy x) = (q, s1)" by fastforce
  have "tasks_kept s (upd_cpu me arm_hyp_timer_rearm (gicv3_reenable_hyp_timer_ppi (ae_cfg env) me s))" for s
    using kept_trans [OF kept_gic(2) kept_cpu] by blast
  then show ?thesis using assms kept_sysreg_write [OF w] kept_trans [OF kept_sysreg_write [OF w]]
    by (auto simp: handle_sysreg_def Let_def w split: if_splits option.splits)
qed

lemma exception_wf:
  assumes wf: "arm_wf (sy x)" and f: "fresh (ae_km env) (sy x)"
    and h: "aarch64_guest_fault_handle_exception env me regs e x = Some (r, regs', x')"
  shows "arm_wf (sy x')"
proof -
  have lr: "am_lr_count (sy x) \<le> VCPU_MAX_VGIC_LRS" by (rule wf_lr_count [OF wf])
  have hvc: "arm_wf (sy x')" if "handle_hvc env me regs x = Some (r, regs', x')"
    using that wf psci_on_wf [OF wf f]
    by (auto simp: handle_hvc_def psci_vcpu_call_def Let_def split: if_splits bind_splits)
  have "tasks_kept (sy x) (sy x')" if "handle_instruction_abort env me regs e x = Some (r, regs', x') \<or> handle_data_abort env me regs e x = Some (r, regs', x')"
    using that lr by (auto simp: handle_instruction_abort_def handle_data_abort_def Let_def split: if_splits dest: map_page_kept mmio_kept)
  then show ?thesis using h hvc sysreg_kept kept_wf [OF wf] wf
    by (auto simp: aarch64_guest_fault_handle_exception_def split: if_splits)
qed

lemma yield_sys_wf: "arm_wf (sy x) \<Longrightarrow> \<exists>regs' x'. yield_sys env me regs x = Some (regs', x') \<and> arm_wf (sy x')"
  using yield_wf [of "sy x" "ae_cfg env" me regs] by (auto simp: yield_sys_def)

lemma guest_exception_wf:
  assumes wf: "arm_wf (sy x)" and f: "fresh (ae_km env) (sy x)" and h: "do_guest_exception env me regs is_compat x = Some (ArmResume regs' x')"
  shows "arm_wf (sy x')"
proof -
  let ?x = "x\<lparr>sy := count_trap me (sy x)\<rparr>"
  have wf': "arm_wf (sy ?x)" using kept_wf [OF wf kept_counts(1)] by simp
  have f': "fresh (ae_km env) (sy ?x)" using f kept_tasks [OF kept_counts(1)] by (simp add: fresh_def)
  obtain r q y where e: "aarch64_guest_fault_handle_exception env me regs (ucast (ph_esr_el2 (am_cpus (sy x) me))) ?x = Some (r, q, y)"
    and r: "r = Resume_Guest \<and> y = x' \<or> r = Yield_Scheduler \<and> yield_sys env me q y = Some (regs', x')"
    using h by (auto simp: do_guest_exception_def Let_def split: if_splits bind_splits aarch64_guest_fault_result.splits)
  have "arm_wf (sy y)" by (rule exception_wf [OF wf' f' e])
  then show ?thesis using r yield_sys_wf [of y env me q] by auto
qed

lemma receive_wf: "arm_wf (sy x) \<Longrightarrow> arm_wf (sy (pl011_maybe_receive env me x))"
  unfolding pl011_maybe_receive_def by (rule kept_wf [OF _ kept_uart [OF wf_lr_count]])

lemma irq_wf:
  assumes wf: "arm_wf (sy x)"
  shows "\<exists>regs' x'. do_irq_mode env me irq regs x = Some (regs', x') \<and> arm_wf (sy x')"
proof -
  have k: "arm_wf s'" if "arm_wf s" "tasks_kept s s'" for s s' using kept_wf that by blast
  note g = k [OF _ kept_gic(1)] k [OF _ kept_gic(2)] k [OF _ kept_gic(3)] k [OF _ kept_gic(4)] k [OF _ kept_cpu]
  have w0: "arm_wf (count_irq me (sy x))" by (rule k [OF wf kept_counts(2)])
  have fl: "arm_wf (arm_flush_lr me t s)" if "arm_wf s" for t s by (rule k [OF that kept_flush [OF wf_lr_count [OF that]]])
  note y = yield_sys_wf [of _ env me regs]
  obtain r1 x1 where 1: "yield_sys env me regs (x\<lparr>sy := gicv3_eof_int me irq (arm_ipi_handle me (word_of_int irq) (count_irq me (sy x)))\<rparr>) = Some (r1, x1)" "arm_wf (sy x1)"
    using y [of "x\<lparr>sy := gicv3_eof_int me irq (arm_ipi_handle me (word_of_int irq) (count_irq me (sy x)))\<rparr>"] g(1,4) w0 by auto
  obtain r2 x2 where 2: "yield_sys env me regs (x\<lparr>sy := upd_cpu me arm_hyp_timer_rearm (gicv3_reenable_hyp_timer_ppi (ae_cfg env) me (count_irq me (sy x)))\<rparr>) = Some (r2, x2)" "arm_wf (sy x2)"
    using y [of "x\<lparr>sy := upd_cpu me arm_hyp_timer_rearm (gicv3_reenable_hyp_timer_ppi (ae_cfg env) me (count_irq me (sy x)))\<rparr>"] g(2,5) w0 by auto
  let ?s3 = "gicv3_eof_int me irq (inject_ppi (ae_cfg env) me (upd_cpu me (upd_el1 (\<lambda>r. r\<lparr>r_cntv_ctl := r_cntv_ctl r OR 2\<rparr>)) (count_irq me (sy x))))"
  have w3: "arm_wf ?s3" using g(1,3,5) w0 by blast
  obtain r3 x3 where 3: "yield_sys env me regs (x\<lparr>sy := ?s3\<rparr>) = Some (r3, x3)" "arm_wf (sy x3)"
    using y [of "x\<lparr>sy := ?s3\<rparr>"] w3 by auto
  have 4: "arm_wf (sy (pl011_maybe_receive env me (x\<lparr>sy := count_irq me (sy x)\<rparr>)))" using receive_wf w0 by simp
  show ?thesis using 1 2 3 4 w0 g(1) receive_wf [OF 2(2)] fl [OF 3(2)]
    by (auto simp: do_irq_mode_def Let_def split: option.split)
qed

section \<open>Steps of the machine\<close>

inductive arm_step :: "arm_sys \<Rightarrow> arm_sys \<Rightarrow> bool" where
  guest_exception: "do_guest_exception env me regs is_compat x = Some (ArmResume regs' x') \<Longrightarrow> fresh (ae_km env) (sy x) \<Longrightarrow> arm_step x x'"
| interrupt: "do_irq_mode env me irq regs x = Some (regs', x') \<Longrightarrow> arm_step x x'"

inductive_cases arm_stepE: "arm_step x x'"

lemma arm_step_wf: "arm_step x x' \<Longrightarrow> arm_wf (sy x) \<Longrightarrow> arm_wf (sy x')"
  by (erule arm_stepE) (metis guest_exception_wf, metis irq_wf option.inject prod.inject)

lemma arm_steps_wf: "arm_step\<^sup>*\<^sup>* x y \<Longrightarrow> arm_wf (sy x) \<Longrightarrow> arm_wf (sy y)"
  by (induction rule: rtranclp_induct) (auto dest: arm_step_wf)

text \<open>
  C5. The machine stays well formed: starting from a well-formed state, after any sequence of guest exceptions (of any kind, also those that
  start CPUs) and interrupts on any of the CPUs, every task is in the ready queue once or current on exactly one CPU, has a virtual CPU that
  no other task has, and its interrupt queue is in bounds; and the next interrupt, whatever it is, is handled without the use of a
  null pointer. (The allocator is assumed to hand out memory that is not in use.)
\<close>

theorem arm_machine_wf:
  assumes "arm_wf (sy x)" "arm_step\<^sup>*\<^sup>* x y"
  shows "arm_wf (sy y) \<and> (\<exists>regs' z. do_irq_mode env me irq regs y = Some (regs', z))"
  using arm_steps_wf [OF assms(2,1)] irq_wf [of y env me irq regs] by blast

theorem arm_machine_wf_witness:
  "\<exists>x y. sy x = two_guests \<and> arm_step x y \<and> arm_wf (sy y) \<and> (\<exists>regs' z. do_irq_mode virt_env 0 27 zero_arm_regs y = Some (regs', z))"
proof -
  let ?x = "\<lparr>sy = two_guests, sy_pgt = empty_pool, sy_vgic = (\<lambda>_. 0), sy_uart = pl011_register_emul\<rparr>"
  have "tasks_of two_guests = {1, 2}" by (auto simp: tasks_of_def two_guests_def)
  then have wf: "arm_wf (sy ?x)" by (simp add: arm_wf_def two_guests_def blank_task_def blank_gtask_ok)
  obtain r y where y: "do_irq_mode virt_env 0 26 zero_arm_regs ?x = Some (r, y)" using irq_wf [OF wf] by blast
  then have "arm_step ?x y" by (rule interrupt)
  then show ?thesis using arm_machine_wf [OF wf, of y virt_env 0 27 zero_arm_regs] by (intro exI [of _ ?x] exI [of _ y]) auto
qed

end
