(* ===== verification/Printf.thy ===== *)
theory Printf
  imports Log_Ring
begin

text \<open>
  \<^verbatim>\<open>src/utils/printf.c\<close>: formatted output. Integers, characters, strings and pointers are modelled with all flags; a floating-point
  conversion is \<open>None\<close>, as are the cases without a defined result: an argument of another type than the conversion asks for, a null
  string, the negation of the least integer, and a format that ends inside a conversion, after which the code
  reads past the end of the format.

  An output function gets a character, its index and the buffer; its fourth parameter \<^verbatim>\<open>maxlen\<close> is fixed when it is chosen. A write
  outside the memory of the buffer is \<open>None\<close>. Strings are without their terminator, whose read is the empty list. \<open>char\<close> is
  unsigned on both architectures, \<open>long\<close>, \<open>long long\<close>, \<open>size_t\<close> and pointers have 64 bits.
\<close>

section \<open>Output functions\<close>

type_synonym 'b out_fct_type = "char \<Rightarrow> u64 \<Rightarrow> 'b \<Rightarrow> 'b option"

abbreviation (input) "NUL \<equiv> CHR 0x00"

definition out_buffer :: "u64 \<Rightarrow> char list out_fct_type" where
  "out_buffer maxlen c idx b = (if idx < maxlen then awrite b (unat idx) c else Some b)"

definition out_null :: "'b out_fct_type" where
  "out_null c idx b = Some b"

definition out_char :: "log_state out_fct_type" where
  "out_char c idx s = Some (if c \<noteq> NUL then log_putchar (of_char c) s else s)"

definition out_fct :: "(char \<Rightarrow> 'b \<Rightarrow> 'b) \<Rightarrow> 'b out_fct_type" where
  "out_fct fct c idx s = Some (if c \<noteq> NUL then fct c s else s)"

text \<open>\<open>out(c, buffer, idx++, maxlen)\<close>, once, for the characters of a loop, and \<open>n\<close> times.\<close>

definition putc :: "'b out_fct_type \<Rightarrow> char \<Rightarrow> u64 \<times> 'b \<Rightarrow> (u64 \<times> 'b) option" where
  "putc out c st = map_option (\<lambda>b. (fst st + 1, b)) (out c (fst st) (snd st))"

primrec put_list :: "'b out_fct_type \<Rightarrow> char list \<Rightarrow> u64 \<times> 'b \<Rightarrow> (u64 \<times> 'b) option" where
  "put_list out [] st = Some st"
| "put_list out (c # cs) st = putc out c st \<bind> put_list out cs"

primrec put_n :: "'b out_fct_type \<Rightarrow> char \<Rightarrow> nat \<Rightarrow> u64 \<times> 'b \<Rightarrow> (u64 \<times> 'b) option" where
  "put_n out c 0 st = Some st"
| "put_n out c (Suc n) st = putc out c st \<bind> put_n out c n"

section \<open>Helpers\<close>

definition strnlen_s :: "string \<Rightarrow> u64 \<Rightarrow> u32" where
  "strnlen_s str maxsize = of_nat (min (length str) (unat maxsize))"

definition is_digit :: "char \<Rightarrow> bool" where
  "is_digit ch \<longleftrightarrow> (48::nat) \<le> of_char ch \<and> of_char ch \<le> (57::nat)"

fun atoi_loop :: "u32 \<Rightarrow> string \<Rightarrow> u32 \<times> string" where
  "atoi_loop i [] = (i, [])"
| "atoi_loop i (c # str) = (if is_digit c then atoi_loop (i * 10 + of_nat (of_char c - 48)) str else (i, c # str))"

definition atoi :: "string \<Rightarrow> u32 \<times> string" where
  "atoi str = atoi_loop 0 str"

text \<open>Flags, by their bit.\<close>

abbreviation (input) "FLAGS_ZEROPAD \<equiv> 0 :: nat"
abbreviation (input) "FLAGS_LEFT \<equiv> 1 :: nat"
abbreviation (input) "FLAGS_PLUS \<equiv> 2 :: nat"
abbreviation (input) "FLAGS_SPACE \<equiv> 3 :: nat"
abbreviation (input) "FLAGS_HASH \<equiv> 4 :: nat"
abbreviation (input) "FLAGS_UPPERCASE \<equiv> 5 :: nat"
abbreviation (input) "FLAGS_CHAR \<equiv> 6 :: nat"
abbreviation (input) "FLAGS_SHORT \<equiv> 7 :: nat"
abbreviation (input) "FLAGS_LONG \<equiv> 8 :: nat"
abbreviation (input) "FLAGS_LONG_LONG \<equiv> 9 :: nat"
abbreviation (input) "FLAGS_PRECISION \<equiv> 10 :: nat"

abbreviation (input) "PRINTF_NTOA_BUFFER_SIZE \<equiv> 32 :: nat"

section \<open>Numbers\<close>

text \<open>\<open>while (len) out(buf[--len], ...)\<close> and \<open>while (idx - start_idx < width) out(' ', ...)\<close>.\<close>

primrec out_back :: "'b out_fct_type \<Rightarrow> char list \<Rightarrow> nat \<Rightarrow> u64 \<times> 'b \<Rightarrow> (u64 \<times> 'b) option" where
  "out_back out buf 0 st = Some st"
| "out_back out buf (Suc len) st = putc out (buf ! len) st \<bind> out_back out buf len"

function pad_to :: "'b out_fct_type \<Rightarrow> u64 \<Rightarrow> u32 \<Rightarrow> u64 \<times> 'b \<Rightarrow> (u64 \<times> 'b) option" where
  "pad_to out start width st =
     (if fst st - start < ucast width
      then (case out CHR '' '' (fst st) (snd st) of None \<Rightarrow> None | Some b \<Rightarrow> pad_to out start width (fst st + 1, b))
      else Some st)"
  by auto
termination
proof (relation "measure (\<lambda>(out, start, width, st). unat (ucast width - (fst st - start) :: u64))", goal_cases)
  case (2 out start width st b)
  then have "ucast width - (fst st - start) \<noteq> (0::u64)" by auto
  then have lt: "unat (ucast width - (fst st - start) - 1 :: u64) < unat (ucast width - (fst st - start) :: u64)" by (rule measure_unat)
  have eq: "ucast width - (fst st + 1 - start) = ucast width - (fst st - start) - (1::u64)" by (simp add: algebra_simps)
  show ?case by (simp only: in_measure prod.case fst_conv eq lt)
qed simp

declare pad_to.simps [simp del]

definition out_rev :: "'b out_fct_type \<Rightarrow> char list \<Rightarrow> u32 \<Rightarrow> u32 \<Rightarrow> u64 \<times> 'b \<Rightarrow> (u64 \<times> 'b) option" where
  "out_rev out buf width flags st = do {
     st1 \<leftarrow> (if \<not> bit flags FLAGS_LEFT \<and> \<not> bit flags FLAGS_ZEROPAD then put_n out CHR '' '' (unat width - length buf) st else Some st);
     st2 \<leftarrow> out_back out buf (length buf) st1;
     (if bit flags FLAGS_LEFT then pad_to out (fst st) width st2 else Some st2) }"

text \<open>The buffer of a conversion is the list of its first \<open>len\<close> characters; \<open>buf[len++] = c\<close> fails past its 32.\<close>

definition buf_put :: "char \<Rightarrow> char list \<Rightarrow> char list option" where
  "buf_put c buf = (if length buf < PRINTF_NTOA_BUFFER_SIZE then Some (buf @ [c]) else None)"

function zeros_upto :: "nat \<Rightarrow> char list \<Rightarrow> char list option" where
  "zeros_upto n buf =
     (if length buf < n \<and> length buf < PRINTF_NTOA_BUFFER_SIZE then (case buf_put CHR ''0'' buf of None \<Rightarrow> None | Some b \<Rightarrow> zeros_upto n b) else Some buf)"
  by auto
termination by (relation "measure (\<lambda>(n, buf). 32 - length buf)") (auto simp: buf_put_def split: if_splits)

declare zeros_upto.simps [simp del]

text \<open>The parts of \<open>_ntoa_format\<close>: leading zeros, the prefix of a base, the sign.\<close>

definition leading_zeros :: "u32 \<Rightarrow> u32 \<Rightarrow> u32 \<Rightarrow> char list \<Rightarrow> char list option" where
  "leading_zeros prec width flags buf =
     (if \<not> bit flags FLAGS_LEFT then do {
        b \<leftarrow> zeros_upto (unat prec) buf;
        (if bit flags FLAGS_ZEROPAD then zeros_upto (unat width) b else Some b) }
      else Some buf)"

definition hash_trim :: "u32 \<Rightarrow> u32 \<Rightarrow> u32 \<Rightarrow> u32 \<Rightarrow> char list \<Rightarrow> char list" where
  "hash_trim base prec width flags buf =
     (if \<not> bit flags FLAGS_PRECISION \<and> buf \<noteq> [] \<and> (length buf = unat prec \<or> length buf = unat width)
      then (let b = butlast buf in if b \<noteq> [] \<and> base = 16 then butlast b else b)
      else buf)"

definition hash_prefix :: "u32 \<Rightarrow> u32 \<Rightarrow> u32 \<Rightarrow> u32 \<Rightarrow> char list \<Rightarrow> char list option" where
  "hash_prefix base prec width flags buf =
     (if bit flags FLAGS_HASH then
        (let b1 = hash_trim base prec width flags buf
         in do {
           b2 \<leftarrow> (if base = 16 \<and> \<not> bit flags FLAGS_UPPERCASE \<and> length b1 < PRINTF_NTOA_BUFFER_SIZE then buf_put CHR ''x'' b1
                  else if base = 16 \<and> bit flags FLAGS_UPPERCASE \<and> length b1 < PRINTF_NTOA_BUFFER_SIZE then buf_put CHR ''X'' b1
                  else if base = 2 \<and> length b1 < PRINTF_NTOA_BUFFER_SIZE then buf_put CHR ''b'' b1
                  else Some b1);
           (if length b2 < PRINTF_NTOA_BUFFER_SIZE then buf_put CHR ''0'' b2 else Some b2) })
      else Some buf)"

definition put_sign :: "bool \<Rightarrow> u32 \<Rightarrow> char list \<Rightarrow> char list option" where
  "put_sign negative flags buf =
     (if length buf < PRINTF_NTOA_BUFFER_SIZE
      then if negative then buf_put CHR ''-'' buf
           else if bit flags FLAGS_PLUS then buf_put CHR ''+'' buf
           else if bit flags FLAGS_SPACE then buf_put CHR '' '' buf
           else Some buf
      else Some buf)"

text \<open>\<open>_ntoa_format\<close> up to its last line: the buffer it fills and the width it passes on.\<close>

definition format_buf :: "char list \<Rightarrow> bool \<Rightarrow> u32 \<Rightarrow> u32 \<Rightarrow> u32 \<Rightarrow> u32 \<Rightarrow> (char list \<times> u32) option" where
  "format_buf buf negative base prec width0 flags =
     (let width = (if \<not> bit flags FLAGS_LEFT \<and> width0 \<noteq> 0 \<and> bit flags FLAGS_ZEROPAD \<and> (negative \<or> bit flags FLAGS_PLUS \<or> bit flags FLAGS_SPACE)
                   then width0 - 1 else width0)
      in do {
        b1 \<leftarrow> leading_zeros prec width flags buf;
        b2 \<leftarrow> hash_prefix base prec width flags b1;
        b3 \<leftarrow> put_sign negative flags b2;
        Some (b3, width) })"

definition ntoa_format :: "'b out_fct_type \<Rightarrow> char list \<Rightarrow> bool \<Rightarrow> u32 \<Rightarrow> u32 \<Rightarrow> u32 \<Rightarrow> u32 \<Rightarrow> u64 \<times> 'b \<Rightarrow> (u64 \<times> 'b) option" where
  "ntoa_format out buf negative base prec width flags st = do {
     (b, w) \<leftarrow> format_buf buf negative base prec width flags;
     out_rev out b w flags st }"

definition digit_char :: "u32 \<Rightarrow> nat \<Rightarrow> char" where
  "digit_char flags d = char_of (if d < 10 then 48 + d else (if bit flags FLAGS_UPPERCASE then 65 else 97) + d - 10)"

function digit_loop :: "u32 \<Rightarrow> u64 \<Rightarrow> u64 \<Rightarrow> char list \<Rightarrow> char list option" where
  "digit_loop flags base v buf =
     (case buf_put (digit_char flags (unat (v mod base))) buf of
        None \<Rightarrow> None
      | Some b \<Rightarrow> (if v div base \<noteq> 0 \<and> length b < PRINTF_NTOA_BUFFER_SIZE then digit_loop flags base (v div base) b else Some b))"
  by auto
termination by (relation "measure (\<lambda>(flags, base, v, buf). 32 - length buf)") (auto simp: buf_put_def split: if_splits)

declare digit_loop.simps [simp del]

text \<open>The part that \<open>_ntoa_long\<close> and \<open>_ntoa_long_long\<close> share: the flags without \<open>FLAGS_HASH\<close> for zero, and the digits, last first.\<close>

definition ntoa_digits :: "u64 \<Rightarrow> u64 \<Rightarrow> u32 \<Rightarrow> (char list \<times> u32) option" where
  "ntoa_digits v base flags0 =
     (let flags = (if v = 0 then unset_bit FLAGS_HASH flags0 else flags0)
      in do {
        buf \<leftarrow> (if \<not> bit flags FLAGS_PRECISION \<or> v \<noteq> 0 then digit_loop flags base v [] else Some []);
        Some (buf, flags) })"

definition ntoa_long :: "'b out_fct_type \<Rightarrow> u64 \<Rightarrow> bool \<Rightarrow> u64 \<Rightarrow> u32 \<Rightarrow> u32 \<Rightarrow> u32 \<Rightarrow> u64 \<times> 'b \<Rightarrow> (u64 \<times> 'b) option" where
  "ntoa_long out v negative base prec width flags0 st = do {
     (buf, flags) \<leftarrow> ntoa_digits v base flags0;
     ntoa_format out buf negative (ucast base) prec width flags st }"

definition ntoa_long_long :: "'b out_fct_type \<Rightarrow> u64 \<Rightarrow> bool \<Rightarrow> u64 \<Rightarrow> u32 \<Rightarrow> u32 \<Rightarrow> u32 \<Rightarrow> u64 \<times> 'b \<Rightarrow> (u64 \<times> 'b) option" where
  "ntoa_long_long out v negative base prec width flags0 st = do {
     (buf, flags) \<leftarrow> ntoa_digits v base flags0;
     ntoa_format out buf negative (ucast base) prec width flags st }"

section \<open>Conversions\<close>

datatype va_arg = VInt u32 | VLong u64 | VStr "string option" | VPtr u64

fun parse_flags :: "string \<Rightarrow> u32 \<Rightarrow> string \<times> u32" where
  "parse_flags [] flags = ([], flags)"
| "parse_flags (c # f) flags =
     (if c = CHR ''0'' then parse_flags f (set_bit FLAGS_ZEROPAD flags)
      else if c = CHR ''-'' then parse_flags f (set_bit FLAGS_LEFT flags)
      else if c = CHR ''+'' then parse_flags f (set_bit FLAGS_PLUS flags)
      else if c = CHR '' '' then parse_flags f (set_bit FLAGS_SPACE flags)
      else if c = CHR ''#'' then parse_flags f (set_bit FLAGS_HASH flags)
      else (c # f, flags))"

definition starts :: "(char \<Rightarrow> bool) \<Rightarrow> string \<Rightarrow> bool" where
  "starts P f = (case f of [] \<Rightarrow> False | c # _ \<Rightarrow> P c)"

definition parse_width :: "string \<Rightarrow> u32 \<Rightarrow> va_arg list \<Rightarrow> (u32 \<times> string \<times> u32 \<times> va_arg list) option" where
  "parse_width f flags va =
     (if starts is_digit f then (case atoi f of (w, f') \<Rightarrow> Some (w, f', flags, va))
      else if starts (\<lambda>c. c = CHR ''*'') f then
        (case va of
           VInt w # va' \<Rightarrow>
             if sint w < 0 then if sint w = - (2 ^ 31) then None else Some (word_of_int (- sint w), tl f, set_bit FLAGS_LEFT flags, va')
             else Some (w, tl f, flags, va')
         | _ \<Rightarrow> None)
      else Some (0, f, flags, va))"

definition parse_precision :: "string \<Rightarrow> u32 \<Rightarrow> va_arg list \<Rightarrow> (u32 \<times> string \<times> u32 \<times> va_arg list) option" where
  "parse_precision f flags va =
     (if starts (\<lambda>c. c = CHR ''.'') f then
        (let flags' = set_bit FLAGS_PRECISION flags; f1 = tl f
         in if starts is_digit f1 then (case atoi f1 of (n, f') \<Rightarrow> Some (n, f', flags', va))
            else if starts (\<lambda>c. c = CHR ''*'') f1 then
              (case va of VInt n # va' \<Rightarrow> Some (if 0 < sint n then n else 0, tl f1, flags', va') | _ \<Rightarrow> None)
            else Some (0, f1, flags', va))
      else Some (0, f, flags, va))"

definition parse_length :: "string \<Rightarrow> u32 \<Rightarrow> string \<times> u32" where
  "parse_length f flags =
     (if starts (\<lambda>c. c = CHR ''l'') f then
        (let flags' = set_bit FLAGS_LONG flags
         in if starts (\<lambda>c. c = CHR ''l'') (tl f) then (tl (tl f), set_bit FLAGS_LONG_LONG flags') else (tl f, flags'))
      else if starts (\<lambda>c. c = CHR ''h'') f then
        (let flags' = set_bit FLAGS_SHORT flags
         in if starts (\<lambda>c. c = CHR ''h'') (tl f) then (tl (tl f), set_bit FLAGS_CHAR flags') else (tl f, flags'))
      else if starts (\<lambda>c. c = CHR ''t'' \<or> c = CHR ''j'' \<or> c = CHR ''z'') f then (tl f, set_bit FLAGS_LONG flags)
      else (f, flags))"

text \<open>Everything between \<open>%\<close> and the letter of the conversion: flags, width, precision, the rest of the format, the arguments left.\<close>

definition parse_spec :: "string \<Rightarrow> va_arg list \<Rightarrow> (u32 \<times> u32 \<times> u32 \<times> string \<times> va_arg list) option" where
  "parse_spec f va =
     (case parse_flags f 0 of (f1, flags1) \<Rightarrow> do {
        (width, f2, flags2, va2) \<leftarrow> parse_width f1 flags1 va;
        (precision, f3, flags3, va3) \<leftarrow> parse_precision f2 flags2 va2;
        (case parse_length f3 flags3 of (f4, flags4) \<Rightarrow> Some (flags4, width, precision, f4, va3)) })"

definition int_base :: "char \<Rightarrow> u64" where
  "int_base c = (if c = CHR ''x'' \<or> c = CHR ''X'' then 16 else if c = CHR ''o'' then 8 else if c = CHR ''b'' then 2 else 10)"

definition int_flags :: "char \<Rightarrow> u32 \<Rightarrow> u32" where
  "int_flags c flags =
     (let f1 = (if int_base c = 10 then unset_bit FLAGS_HASH flags else flags);
          f2 = (if c = CHR ''X'' then set_bit FLAGS_UPPERCASE f1 else f1);
          f3 = (if c \<noteq> CHR ''i'' \<and> c \<noteq> CHR ''d'' then unset_bit FLAGS_SPACE (unset_bit FLAGS_PLUS f2) else f2)
      in if bit f3 FLAGS_PRECISION then unset_bit FLAGS_ZEROPAD f3 else f3)"

text \<open>The magnitude and sign of the next argument.\<close>

definition int_arg :: "char \<Rightarrow> u32 \<Rightarrow> va_arg list \<Rightarrow> (u64 \<times> bool \<times> va_arg list) option" where
  "int_arg c flags va =
     (if bit flags FLAGS_LONG_LONG \<or> bit flags FLAGS_LONG then
        (case va of
           VLong v # va' \<Rightarrow>
             if c = CHR ''i'' \<or> c = CHR ''d''
             then if sint v = - (2 ^ 63) then None else Some (if 0 < sint v then v else 0 - v, sint v < 0, va')
             else Some (v, False, va')
         | _ \<Rightarrow> None)
      else
        (case va of
           VInt w # va' \<Rightarrow>
             if c = CHR ''i'' \<or> c = CHR ''d''
             then (let v = (if bit flags FLAGS_CHAR then uint (ucast w :: u8) else if bit flags FLAGS_SHORT then sint (ucast w :: u16) else sint w)
                   in if v = - (2 ^ 31) then None else Some (word_of_int (if 0 < v then v else 0 - v), v < 0, va'))
             else Some (if bit flags FLAGS_CHAR then ucast (ucast w :: u8) else if bit flags FLAGS_SHORT then ucast (ucast w :: u16) else ucast w, False, va')
         | _ \<Rightarrow> None))"

definition conv_int :: "'b out_fct_type \<Rightarrow> char \<Rightarrow> u32 \<Rightarrow> u32 \<Rightarrow> u32 \<Rightarrow> va_arg list \<Rightarrow> u64 \<times> 'b \<Rightarrow> (va_arg list \<times> u64 \<times> 'b) option" where
  "conv_int out c flags0 width prec va st =
     (let flags = int_flags c flags0 in do {
        (v, negative, va') \<leftarrow> int_arg c flags va;
        st' \<leftarrow> (if bit flags FLAGS_LONG_LONG then ntoa_long_long out v negative (int_base c) prec width flags st
                else ntoa_long out v negative (int_base c) prec width flags st);
        Some (va', st') })"

definition conv_char :: "'b out_fct_type \<Rightarrow> u32 \<Rightarrow> u32 \<Rightarrow> va_arg list \<Rightarrow> u64 \<times> 'b \<Rightarrow> (va_arg list \<times> u64 \<times> 'b) option" where
  "conv_char out flags width va st =
     (case va of
        VInt w # va' \<Rightarrow> do {
          st1 \<leftarrow> (if \<not> bit flags FLAGS_LEFT then put_n out CHR '' '' (unat width - 1) st else Some st);
          st2 \<leftarrow> putc out (char_of (unat (ucast w :: u8))) st1;
          st3 \<leftarrow> (if bit flags FLAGS_LEFT then put_n out CHR '' '' (unat width - 1) st2 else Some st2);
          Some (va', st3) }
      | _ \<Rightarrow> None)"

definition conv_str :: "'b out_fct_type \<Rightarrow> u32 \<Rightarrow> u32 \<Rightarrow> u32 \<Rightarrow> va_arg list \<Rightarrow> u64 \<times> 'b \<Rightarrow> (va_arg list \<times> u64 \<times> 'b) option" where
  "conv_str out flags width precision va st =
     (case va of
        VStr (Some p) # va' \<Rightarrow>
          (let l0 = strnlen_s p (if precision \<noteq> 0 then ucast precision else - 1);
               l = (if bit flags FLAGS_PRECISION then min l0 precision else l0)
           in do {
             st1 \<leftarrow> (if \<not> bit flags FLAGS_LEFT then put_n out CHR '' '' (unat width - unat l) st else Some st);
             st2 \<leftarrow> put_list out (if bit flags FLAGS_PRECISION then take (unat precision) p else p) st1;
             st3 \<leftarrow> (if bit flags FLAGS_LEFT then put_n out CHR '' '' (unat width - unat l) st2 else Some st2);
             Some (va', st3) })
      | _ \<Rightarrow> None)"

definition conv_ptr :: "'b out_fct_type \<Rightarrow> u32 \<Rightarrow> u32 \<Rightarrow> va_arg list \<Rightarrow> u64 \<times> 'b \<Rightarrow> (va_arg list \<times> u64 \<times> 'b) option" where
  "conv_ptr out flags prec va st =
     (case va of
        VPtr v # va' \<Rightarrow> map_option (\<lambda>st'. (va', st'))
          (ntoa_long_long out v False 16 prec (8 * 2) (set_bit FLAGS_UPPERCASE (set_bit FLAGS_ZEROPAD flags)) st)
      | _ \<Rightarrow> None)"

definition is_int_conv :: "char \<Rightarrow> bool" where
  "is_int_conv c \<longleftrightarrow> c \<in> {CHR ''d'', CHR ''i'', CHR ''u'', CHR ''x'', CHR ''X'', CHR ''o'', CHR ''b''}"

definition is_float_conv :: "char \<Rightarrow> bool" where
  "is_float_conv c \<longleftrightarrow> c \<in> {CHR ''f'', CHR ''F'', CHR ''e'', CHR ''E'', CHR ''g'', CHR ''G''}"

definition conv :: "'b out_fct_type \<Rightarrow> char \<Rightarrow> u32 \<Rightarrow> u32 \<Rightarrow> u32 \<Rightarrow> va_arg list \<Rightarrow> u64 \<times> 'b \<Rightarrow> (va_arg list \<times> u64 \<times> 'b) option" where
  "conv out c flags width prec va st =
     (if is_int_conv c then conv_int out c flags width prec va st
      else if is_float_conv c then None
      else if c = CHR ''c'' then conv_char out flags width va st
      else if c = CHR ''s'' then conv_str out flags width prec va st
      else if c = CHR ''p'' then conv_ptr out flags prec va st
      else map_option (\<lambda>st'. (va, st')) (putc out c st))"

section \<open>Formats\<close>

lemma parse_flags_length: "parse_flags f flags = (f', flags') \<Longrightarrow> length f' \<le> length f"
  by (induction f arbitrary: flags) (auto split: if_splits intro: le_SucI)

lemma atoi_loop_length: "atoi_loop i f = (w, f') \<Longrightarrow> length f' \<le> length f"
  by (induction i f rule: atoi_loop.induct) (auto split: if_splits)

lemma parse_width_length: "parse_width f flags va = Some (w, f', flags', va') \<Longrightarrow> length f' \<le> length f"
  by (auto simp: parse_width_def atoi_def split: prod.splits if_splits list.splits va_arg.splits dest: atoi_loop_length)

lemma parse_precision_length: "parse_precision f flags va = Some (w, f', flags', va') \<Longrightarrow> length f' \<le> length f"
  by (auto simp: parse_precision_def atoi_def Let_def split: prod.splits if_splits list.splits va_arg.splits dest!: atoi_loop_length)

lemma parse_length_length: "parse_length f flags = (f', flags') \<Longrightarrow> length f' \<le> length f"
  by (auto simp: parse_length_def Let_def split: if_splits)

lemma parse_spec_length:
  assumes "parse_spec f va = Some (flags, width, prec, f', va')"
  shows "length f' \<le> length f"
proof -
  obtain f1 g1 where 1: "parse_flags f 0 = (f1, g1)" by fastforce
  with assms obtain g2 f2 va2 g3 f3 where 2: "parse_width f1 g1 va = Some (width, f2, g2, va2)" "parse_precision f2 g2 va2 = Some (prec, f3, g3, va')"
    "parse_length f3 g3 = (f', flags)"
    by (cases "parse_width f1 g1 va") (auto simp: parse_spec_def split: prod.splits bind_splits)
  show ?thesis using parse_flags_length [OF 1] parse_width_length [OF 2(1)] parse_precision_length [OF 2(2)] parse_length_length [OF 2(3)] by simp
qed

function vsnprintf_loop :: "'b out_fct_type \<Rightarrow> string \<Rightarrow> va_arg list \<Rightarrow> u64 \<times> 'b \<Rightarrow> (u64 \<times> 'b) option" where
  "vsnprintf_loop out [] va st = Some st"
| "vsnprintf_loop out (c # f) va st =
     (if c \<noteq> CHR ''%'' then (case putc out c st of None \<Rightarrow> None | Some st1 \<Rightarrow> vsnprintf_loop out f va st1)
      else (case parse_spec f va of
              Some (flags, width, precision, d # f1, va1) \<Rightarrow>
                (case conv out d flags width precision va1 st of
                   None \<Rightarrow> None
                 | Some (va2, st1) \<Rightarrow> vsnprintf_loop out f1 va2 st1)
            | _ \<Rightarrow> None))"
  by pat_completeness auto
termination
  by (relation "measure (\<lambda>(out, f, va, st). length f)") (auto dest: parse_spec_length)

definition vsnprintf_run :: "'b out_fct_type \<Rightarrow> u64 \<Rightarrow> string \<Rightarrow> va_arg list \<Rightarrow> 'b \<Rightarrow> (int \<times> 'b) option" where
  "vsnprintf_run out maxlen format va b = do {
     (idx, b1) \<leftarrow> vsnprintf_loop out format va (0, b);
     b2 \<leftarrow> out NUL (if idx < maxlen then idx else maxlen - 1) b1;
     Some (sint (ucast idx :: u32), b2) }"

definition vsnprintf :: "'b out_fct_type \<Rightarrow> u64 \<Rightarrow> string \<Rightarrow> va_arg list \<Rightarrow> 'b option \<Rightarrow> (int \<times> 'b option) option" where
  "vsnprintf out maxlen format va buffer =
     (case buffer of
        None \<Rightarrow> map_option (\<lambda>(r, _). (r, None)) (vsnprintf_run out_null maxlen format va ())
      | Some b \<Rightarrow> map_option (\<lambda>(r, b'). (r, Some b')) (vsnprintf_run out maxlen format va b))"

definition tiny_printf :: "string \<Rightarrow> va_arg list \<Rightarrow> log_state \<Rightarrow> (int \<times> log_state option) option" where
  "tiny_printf format va s = vsnprintf out_char (- 1) format va (Some s)"

definition tiny_sprintf :: "char list option \<Rightarrow> string \<Rightarrow> va_arg list \<Rightarrow> (int \<times> char list option) option" where
  "tiny_sprintf buffer format va = vsnprintf (out_buffer (- 1)) (- 1) format va buffer"

definition tiny_snprintf :: "char list option \<Rightarrow> u64 \<Rightarrow> string \<Rightarrow> va_arg list \<Rightarrow> (int \<times> char list option) option" where
  "tiny_snprintf buffer count format va = vsnprintf (out_buffer count) count format va buffer"

definition fctprintf :: "(char \<Rightarrow> 'b \<Rightarrow> 'b) \<Rightarrow> string \<Rightarrow> va_arg list \<Rightarrow> 'b \<Rightarrow> (int \<times> 'b option) option" where
  "fctprintf fct format va arg = vsnprintf (out_fct fct) (- 1) format va (Some arg)"

section \<open>What is printed\<close>

text \<open>The characters of a conversion, of a format, independent of where they go.\<close>

definition rev_text :: "char list \<Rightarrow> u32 \<Rightarrow> u32 \<Rightarrow> string" where
  "rev_text buf width flags =
     (let pad = replicate (unat width - length buf) CHR '' ''
      in (if \<not> bit flags FLAGS_LEFT \<and> \<not> bit flags FLAGS_ZEROPAD then pad else []) @ rev buf @ (if bit flags FLAGS_LEFT then pad else []))"

definition ntoa_text :: "u64 \<Rightarrow> bool \<Rightarrow> u64 \<Rightarrow> u32 \<Rightarrow> u32 \<Rightarrow> u32 \<Rightarrow> string option" where
  "ntoa_text v negative base prec width flags0 = do {
     (buf, flags) \<leftarrow> ntoa_digits v base flags0;
     (b, w) \<leftarrow> format_buf buf negative (ucast base) prec width flags;
     Some (rev_text b w flags) }"

definition padded :: "u32 \<Rightarrow> nat \<Rightarrow> string \<Rightarrow> string" where
  "padded flags n cs = (if bit flags FLAGS_LEFT then cs @ replicate n CHR '' '' else replicate n CHR '' '' @ cs)"

definition conv_text :: "char \<Rightarrow> u32 \<Rightarrow> u32 \<Rightarrow> u32 \<Rightarrow> va_arg list \<Rightarrow> (va_arg list \<times> string) option" where
  "conv_text c flags width prec va =
     (if is_int_conv c then do {
        (v, negative, va') \<leftarrow> int_arg c (int_flags c flags) va;
        cs \<leftarrow> ntoa_text v negative (int_base c) prec width (int_flags c flags);
        Some (va', cs) }
      else if is_float_conv c then None
      else if c = CHR ''c'' then
        (case va of VInt w # va' \<Rightarrow> Some (va', padded flags (unat width - 1) [char_of (unat (ucast w :: u8))]) | _ \<Rightarrow> None)
      else if c = CHR ''s'' then
        (case va of
           VStr (Some p) # va' \<Rightarrow>
             (let l0 = strnlen_s p (if prec \<noteq> 0 then ucast prec else - 1);
                  l = (if bit flags FLAGS_PRECISION then min l0 prec else l0)
              in Some (va', padded flags (unat width - unat l) (if bit flags FLAGS_PRECISION then take (unat prec) p else p)))
         | _ \<Rightarrow> None)
      else if c = CHR ''p'' then
        (case va of VPtr v # va' \<Rightarrow> map_option (Pair va') (ntoa_text v False 16 prec (8 * 2) (set_bit FLAGS_UPPERCASE (set_bit FLAGS_ZEROPAD flags)))
         | _ \<Rightarrow> None)
      else Some (va, [c]))"

function format_text :: "string \<Rightarrow> va_arg list \<Rightarrow> string option" where
  "format_text [] va = Some []"
| "format_text (c # f) va =
     (if c \<noteq> CHR ''%'' then map_option (Cons c) (format_text f va)
      else (case parse_spec f va of
              Some (flags, width, precision, d # f1, va1) \<Rightarrow>
                (case conv_text d flags width precision va1 of
                   None \<Rightarrow> None
                 | Some (va2, cs) \<Rightarrow> map_option ((@) cs) (format_text f1 va2))
            | _ \<Rightarrow> None))"
  by pat_completeness auto
termination
  by (relation "measure (\<lambda>(f, va). length f)") (auto dest: parse_spec_length)

section \<open>The code prints that\<close>

lemma put_list_append: "put_list out (xs @ ys) st = put_list out xs st \<bind> put_list out ys"
  by (induction xs arbitrary: st) (auto split: bind_splits)

lemma put_n_list: "put_n out c n st = put_list out (replicate n c) st"
  by (induction n arbitrary: st) (auto split: bind_splits)

lemma put_list_index: "put_list out cs st = Some st' \<Longrightarrow> fst st' = fst st + of_nat (length cs)"
  by (induction cs arbitrary: st) (auto simp: putc_def bind_eq_Some_conv)

lemma out_back_list: "len \<le> length buf \<Longrightarrow> out_back out buf len st = put_list out (rev (take len buf)) st"
  by (induction len arbitrary: st) (auto simp: take_Suc_conv_app_nth split: bind_splits)

lemma unat_ucast_up: "unat (ucast (w::u32) :: u64) = unat w"
  by transfer (simp add: take_bit_nat_eq_self_iff take_bit_eq_mod mod_less nat_less_iff flip: take_bit_eq_mod)

lemma unat_less_32: "unat (w::u32) < 2 ^ 32"
  using unsigned_less [of w, where 'a = nat] by simp

lemma pad_to_list: "pad_to out start width st = put_list out (replicate (unat width - unat (fst st - start)) CHR '' '') st"
proof (induction out start width st rule: pad_to.induct)
  case (1 out start width st)
  have w: "unat (ucast width :: u64) = unat width" by (rule unat_ucast_up)
  show ?case
  proof (cases "fst st - start < ucast width")
    case True
    then have lt: "unat (fst st - start) < unat width" using w by (simp add: word_less_nat_alt)
    have "unat (fst st - start + 1) = unat (fst st - start) + 1"
      using lt unat_less_32 [of width] unat_add_lem [of "fst st - start" 1] by simp
    then have n: "unat width - unat (fst st - start) = Suc (unat width - unat (fst st + 1 - start))"
      using lt by (simp add: algebra_simps)
    show ?thesis using 1 True unfolding n
      by (subst pad_to.simps) (auto simp: putc_def split: option.split)
  next
    case False
    then have "unat width - unat (fst st - start) = 0" using w by (simp add: word_less_nat_alt)
    then show ?thesis using False by (subst pad_to.simps) simp
  qed
qed

lemma out_rev_text:
  assumes "length buf \<le> 32"
  shows "out_rev out buf width flags st = put_list out (rev_text buf width flags) st"
proof -
  have "pad_to out (fst st) width st' = put_list out (replicate (unat width - length buf) CHR '' '') st'"
    if "put_list out (rev buf) st = Some st'" for st'
  proof -
    have "fst st' - fst st = of_nat (length buf)" using put_list_index [OF that] by simp
    moreover have "unat (of_nat (length buf) :: u64) = length buf" using assms by (simp add: unat_of_nat take_bit_nat_eq_self)
    ultimately show ?thesis by (simp add: pad_to_list)
  qed
  then show ?thesis
    by (cases "bit flags FLAGS_LEFT")
      (auto simp: out_rev_def rev_text_def Let_def put_n_list out_back_list put_list_append split: bind_splits)
qed

lemma buf_put_length: "buf_put c buf = Some b \<Longrightarrow> length b \<le> 32"
  by (auto simp: buf_put_def split: if_splits)

lemma buf_put_room [simp]: "length buf < 32 \<Longrightarrow> buf_put c buf = Some (buf @ [c])"
  by (simp add: buf_put_def)

lemma zeros_upto_eq: "zeros_upto n buf = Some (buf @ replicate (min n 32 - length buf) CHR ''0'')"
proof (induction n buf rule: zeros_upto.induct)
  case (1 n buf)
  show ?case
  proof (cases "length buf < n \<and> length buf < 32")
    case True
    then have "min n 32 - length buf = Suc (min n 32 - Suc (length buf))" by auto
    then show ?thesis using 1 True by (subst zeros_upto.simps) simp
  next
    case False
    then show ?thesis by (subst zeros_upto.simps) (auto simp: min_def)
  qed
qed

lemma digit_loop_ok:
  assumes "length buf < 32"
  shows "\<exists>b. digit_loop flags base v buf = Some b \<and> length buf < length b \<and> length b \<le> 32"
  using assms
proof (induction flags base v buf rule: digit_loop.induct)
  case (1 flags base v buf)
  show ?case
  proof (cases "v div base \<noteq> 0 \<and> length buf < 31")
    case True
    then obtain b where "digit_loop flags base (v div base) (buf @ [digit_char flags (unat (v mod base))]) = Some b"
      "length buf + 1 < length b" "length b \<le> 32"
      using 1 by force
    then show ?thesis using 1 True by (subst digit_loop.simps) auto
  next
    case False
    then show ?thesis using 1 by (subst digit_loop.simps) auto
  qed
qed

lemma ntoa_digits_ok: "\<exists>b f. ntoa_digits v base flags = Some (b, f) \<and> length b \<le> 32"
proof -
  obtain b where "digit_loop (if v = 0 then unset_bit FLAGS_HASH flags else flags) base v [] = Some b" "length b \<le> 32"
    using digit_loop_ok [of "[]"] by fastforce
  then show ?thesis by (simp add: ntoa_digits_def Let_def)
qed

lemma leading_zeros_ok: "length buf \<le> 32 \<Longrightarrow> \<exists>b. leading_zeros prec width flags buf = Some b \<and> length b \<le> 32"
  by (auto simp: leading_zeros_def zeros_upto_eq)

lemma hash_prefix_ok:
  assumes "length buf \<le> 32"
  shows "\<exists>b. hash_prefix base prec width flags buf = Some b \<and> length b \<le> 32"
proof -
  define b1 where "b1 = hash_trim base prec width flags buf"
  have "length b1 \<le> 32" using assms by (auto simp: b1_def hash_trim_def Let_def)
  then show ?thesis using assms unfolding hash_prefix_def b1_def [symmetric] Let_def
    by (auto simp: buf_put_def)
qed

lemma put_sign_ok: "length buf \<le> 32 \<Longrightarrow> \<exists>b. put_sign negative flags buf = Some b \<and> length b \<le> 32"
  by (simp add: put_sign_def buf_put_def)

lemma format_buf_ok:
  assumes "length buf \<le> 32"
  shows "\<exists>b w. format_buf buf negative base prec width flags = Some (b, w) \<and> length b \<le> 32"
proof -
  define w where "w = (if \<not> bit flags FLAGS_LEFT \<and> width \<noteq> 0 \<and> bit flags FLAGS_ZEROPAD \<and> (negative \<or> bit flags FLAGS_PLUS \<or> bit flags FLAGS_SPACE)
    then width - 1 else width)"
  obtain b1 where b1: "leading_zeros prec w flags buf = Some b1" "length b1 \<le> 32" using leading_zeros_ok [OF assms] by blast
  obtain b2 where b2: "hash_prefix base prec w flags b1 = Some b2" "length b2 \<le> 32" using hash_prefix_ok [OF b1(2)] by blast
  obtain b3 where "put_sign negative flags b2 = Some b3" "length b3 \<le> 32" using put_sign_ok [OF b2(2)] by blast
  then show ?thesis unfolding format_buf_def w_def [symmetric] Let_def by (simp add: b1(1) b2(1))
qed

lemma ntoa_emits:
  "\<exists>cs. ntoa_text v negative base prec width flags = Some cs \<and> ntoa_long out v negative base prec width flags st = put_list out cs st"
proof -
  obtain b f where d: "ntoa_digits v base flags = Some (b, f)" "length b \<le> 32" using ntoa_digits_ok by blast
  obtain c w where c: "format_buf b negative (ucast base) prec width f = Some (c, w)" "length c \<le> 32" using format_buf_ok [OF d(2)] by blast
  show ?thesis using out_rev_text [OF c(2)] by (simp add: ntoa_text_def ntoa_long_def ntoa_format_def d(1) c(1))
qed

lemma ntoa_long_long_eq: "ntoa_long_long = ntoa_long"
  by (intro ext) (simp add: ntoa_long_long_def ntoa_long_def)

lemma ntoa_long_text: "ntoa_long out v negative base prec width flags st = ntoa_text v negative base prec width flags \<bind> (\<lambda>cs. put_list out cs st)"
  using ntoa_emits [of v negative base prec width flags out st] by auto

lemma conv_int_emits:
  assumes "is_int_conv c"
  shows "conv out c flags width prec va st = conv_text c flags width prec va \<bind> (\<lambda>(va', cs). map_option (Pair va') (put_list out cs st))"
proof (cases "int_arg c (int_flags c flags) va")
  case (Some p)
  obtain v neg va' where p: "p = (v, neg, va')" by (cases p)
  obtain cs where "ntoa_text v neg (int_base c) prec width (int_flags c flags) = Some cs"
    "ntoa_long out v neg (int_base c) prec width (int_flags c flags) st = put_list out cs st" using ntoa_emits by blast
  then show ?thesis using assms Some p
    by (cases "put_list out cs st") (simp_all add: conv_def conv_text_def conv_int_def Let_def ntoa_long_long_eq)
qed (use assms in \<open>simp add: conv_def conv_text_def conv_int_def Let_def\<close>)

lemma bind_pair_simps:
  "(x \<bind> (\<lambda>y. Some (a, y))) = map_option (Pair a) x" "map_option f (x \<bind> g) = x \<bind> (\<lambda>y. map_option f (g y))"
  by (cases x; simp)+

lemma put_one: "put_list out [c] = putc out c"
proof
  fix st
  show "put_list out [c] st = putc out c st" by (cases "putc out c st") simp_all
qed

lemma conv_char_emits:
  "conv_char out flags width (VInt w # va) st = map_option (Pair va) (put_list out (padded flags (unat width - 1) [char_of (unat (ucast w :: u8))]) st)"
  by (cases "bit flags FLAGS_LEFT")
    (simp_all add: conv_char_def padded_def put_n_list put_list_append bind_pair_simps put_one)

lemma conv_emits:
  "conv out c flags width prec va st = conv_text c flags width prec va \<bind> (\<lambda>(va', cs). map_option (Pair va') (put_list out cs st))"
proof -
  consider (int) "is_int_conv c" | (float) "\<not> is_int_conv c" "is_float_conv c" | (ch) "c = CHR ''c''" | (str) "c = CHR ''s''" | (ptr) "c = CHR ''p''"
    | (other) "\<not> is_int_conv c" "\<not> is_float_conv c" "c \<notin> {CHR ''c'', CHR ''s'', CHR ''p''}" by blast
  then show ?thesis
  proof cases
    case int
    then show ?thesis by (rule conv_int_emits)
  next
    case float
    then show ?thesis by (simp add: conv_def conv_text_def)
  next
    case ch
    then show ?thesis using conv_char_def [of out flags width va st]
      by (auto simp: conv_def conv_text_def is_int_conv_def is_float_conv_def conv_char_emits split: list.split va_arg.split)
  next
    case str
    then show ?thesis
      by (auto simp: conv_def conv_text_def is_int_conv_def is_float_conv_def conv_str_def padded_def Let_def put_n_list put_list_append
          bind_pair_simps split: list.split va_arg.split option.split)
  next
    case ptr
    have "ntoa_long out v False 16 prec 16 f st = ntoa_text v False 16 prec 16 f \<bind> (\<lambda>cs. put_list out cs st)" for v f
      by (rule ntoa_long_text)
    then show ?thesis using ptr ntoa_emits [of _ False 16 prec 16 _ out st]
      by (auto simp: conv_def conv_text_def is_int_conv_def is_float_conv_def conv_ptr_def ntoa_long_long_eq map_option_case
          split: list.split va_arg.split option.split bind_splits)
  next
    case other
    then show ?thesis by (simp add: conv_def conv_text_def map_option_case split: option.split)
  qed
qed

lemma loop_emits: "vsnprintf_loop out f va st = format_text f va \<bind> (\<lambda>cs. put_list out cs st)"
proof (induction out f va st rule: vsnprintf_loop.induct)
  case (2 out c f va st)
  show ?case
  proof (cases "c = CHR ''%''")
    case True
    show ?thesis
    proof (cases "parse_spec f va")
      case (Some p)
      obtain flags width precision rest va1 where p: "p = (flags, width, precision, rest, va1)" by (cases p)
      show ?thesis using 2(2) True Some p
        by (cases rest)
          (auto simp: conv_emits put_list_append map_option_case bind_eq_None_conv split: bind_splits option.splits prod.splits)
    qed (use True in simp)
  next
    case False
    then show ?thesis using 2(1) by (auto simp: map_option_case split: option.splits bind_splits)
  qed
qed simp

section \<open>Printing into a buffer\<close>

text \<open>The buffer \<open>b\<close> with the characters \<open>cs\<close> written from position \<open>i\<close> on, as far as they are below \<open>m\<close>.\<close>

definition overlay :: "nat \<Rightarrow> nat \<Rightarrow> char list \<Rightarrow> char list \<Rightarrow> char list" where
  "overlay i m cs b = map (\<lambda>j. if i \<le> j \<and> j < i + length cs \<and> j < m then cs ! (j - i) else b ! j) [0..<length b]"

lemma overlay_Nil: "overlay i m [] b = b"
  by (rule nth_equalityI) (auto simp: overlay_def)

lemma overlay_Cons: "overlay (Suc i) m cs (if i < m then b[i := c] else b) = overlay i m (c # cs) b"
  by (rule nth_equalityI) (auto simp: overlay_def nth_Cons' nth_list_update not_less_eq_eq le_eq_less_or_eq)

lemma put_list_buffer:
  assumes "unat m \<le> length b" "i + length cs < 2 ^ 64"
  shows "put_list (out_buffer m) cs (of_nat i, b) = Some (of_nat (i + length cs), overlay i (unat m) cs b)"
  using assms
proof (induction cs arbitrary: i b)
  case (Cons c cs)
  have u: "unat (of_nat i :: u64) = i" using Cons.prems(2) by (simp add: unat_of_nat take_bit_nat_eq_self)
  have lt: "(of_nat i :: u64) < m \<longleftrightarrow> i < unat m" by (simp add: word_less_nat_alt u)
  let ?b = "if i < unat m then b[i := c] else b"
  have "putc (out_buffer m) c (of_nat i, b) = Some (of_nat (Suc i), ?b)"
    using Cons.prems(1) by (auto simp: putc_def out_buffer_def lt u awrite_def add.commute)
  then have "put_list (out_buffer m) (c # cs) (of_nat i, b) = put_list (out_buffer m) cs (of_nat (Suc i), ?b)" by simp
  also have "\<dots> = Some (of_nat (Suc i + length cs), overlay (Suc i) (unat m) cs ?b)"
    using Cons.prems by (intro Cons.IH) auto
  finally show ?case by (simp add: overlay_Cons)
qed (simp add: overlay_Nil)

lemma overlay_terminated:
  assumes "0 < m" "m \<le> length b"
  shows "(overlay 0 m cs b)[min (length cs) (m - 1) := c] = take (m - 1) cs @ c # drop (Suc (min (length cs) (m - 1))) b"
proof (rule nth_equalityI)
  let ?n = "min (length cs) (m - 1)"
  show "length ((overlay 0 m cs b)[?n := c]) = length (take (m - 1) cs @ c # drop (Suc ?n) b)" using assms by (auto simp: overlay_def)
  fix j assume "j < length ((overlay 0 m cs b)[?n := c])"
  then have j: "j < length b" by (simp add: overlay_def)
  consider "j < ?n" | "j = ?n" | "?n < j" by linarith
  then show "(overlay 0 m cs b)[?n := c] ! j = (take (m - 1) cs @ c # drop (Suc ?n) b) ! j"
    using assms j by cases (auto simp: overlay_def nth_append nth_Cons')
qed

text \<open>
  C34. Printing into a buffer never writes outside it and cuts the text where it ends: for a format whose text is \<open>cs\<close> (below
  \<open>2 ^ 31\<close> characters) and a buffer of at least \<open>count\<close> bytes, \<open>snprintf\<close> returns the length of the whole text; the
  buffer holds its first \<open>count - 1\<close> characters at most, a terminating zero behind them, and what it held before after
  that; for \<open>count = 0\<close> it is untouched, and without a buffer only the length is computed.
\<close>

theorem snprintf_bounded:
  assumes "format_text format va = Some cs" "length cs < 2 ^ 31" "unat count \<le> length b"
  shows "tiny_snprintf (Some b) count format va = Some (int (length cs), Some (if count = 0 then b
      else take (unat count - 1) cs @ NUL # drop (Suc (min (length cs) (unat count - 1))) b)) \<and>
    tiny_snprintf None count format va = Some (int (length cs), None)"
proof -
  let ?n = "of_nat (length cs) :: u64" and ?b = "overlay 0 (unat count) cs b"
  have u: "unat ?n = length cs" using assms(2) by (simp add: unat_of_nat take_bit_nat_eq_self)
  have "ucast ?n = (of_nat (length cs) :: u32)" using assms(2) by (simp add: unsigned_of_nat take_bit_nat_eq_self)
  then have r: "sint (ucast ?n :: u32) = int (length cs)" using assms(2)
    by (simp add: sint_of_nat_small)
  have l: "vsnprintf_loop (out_buffer count) format va (0, b) = Some (?n, ?b)"
    using put_list_buffer [OF assms(3), of 0 cs] assms(1,2) by (simp add: loop_emits)
  have "out_buffer count NUL (if ?n < count then ?n else count - 1) ?b =
      Some (if count = 0 then b else take (unat count - 1) cs @ NUL # drop (Suc (min (length cs) (unat count - 1))) b)"
  proof (cases "count = 0")
    case True
    have "overlay 0 0 cs b = b" by (rule nth_equalityI) (simp_all add: overlay_def)
    then show ?thesis using True by (simp add: out_buffer_def)
  next
    case False
    then have c: "0 < unat count" "unat (count - 1) = unat count - 1" "count - 1 < count"
      by (simp_all add: unat_gt_0 unat_minus_one word_less_nat_alt)
    let ?i = "if ?n < count then ?n else count - 1"
    have i: "unat ?i = min (length cs) (unat count - 1)" "?i < count" using c by (auto simp: word_less_nat_alt u)
    have "length ?b = length b" by (simp add: overlay_def)
    then show ?thesis using False c(1) assms(3) overlay_terminated [OF c(1) assms(3), of cs NUL]
      by (simp add: out_buffer_def i awrite_def)
  qed
  then have 1: "tiny_snprintf (Some b) count format va = Some (int (length cs), Some (if count = 0 then b
      else take (unat count - 1) cs @ NUL # drop (Suc (min (length cs) (unat count - 1))) b))"
    using l r by (simp add: tiny_snprintf_def vsnprintf_def vsnprintf_run_def)
  have "put_list out_null xs (i, ()) = Some (i + of_nat (length xs), ())" for xs i
    by (induction xs arbitrary: i) (simp_all add: putc_def out_null_def add.assoc)
  then have "tiny_snprintf None count format va = Some (int (length cs), None)"
    using assms(1) r by (simp add: tiny_snprintf_def vsnprintf_def vsnprintf_run_def loop_emits out_null_def)
  with 1 show ?thesis by blast
qed

section \<open>Numbers as a reference prints them\<close>

fun show_base :: "u32 \<Rightarrow> nat \<Rightarrow> nat \<Rightarrow> string" where
  "show_base flags b n = (if b < 2 \<or> n < b then [digit_char flags n] else show_base flags b (n div b) @ [digit_char flags (n mod b)])"

declare show_base.simps [simp del]

lemma show_base_length: "2 \<le> b \<Longrightarrow> n < b ^ Suc k \<Longrightarrow> length (show_base flags b n) \<le> Suc k"
proof (induction k arbitrary: n)
  case 0
  then show ?case by (subst show_base.simps) simp
next
  case (Suc k)
  have "n div b < b ^ Suc k" using Suc.prems by (simp add: less_mult_imp_div_less mult.commute)
  then show ?case using Suc by (subst show_base.simps) auto
qed

lemma digit_loop_show:
  assumes "2 \<le> base" "length buf + length (show_base flags (unat base) (unat v)) \<le> 32"
  shows "digit_loop flags base v buf = Some (buf @ rev (show_base flags (unat base) (unat v)))"
  using assms
proof (induction flags base v buf rule: digit_loop.induct)
  case (1 flags base v buf)
  have b: "2 \<le> unat base" using 1(2) by (simp add: word_le_nat_alt)
  have dm: "unat (v div base) = unat v div unat base" "unat (v mod base) = unat v mod unat base" by (simp_all add: unat_div unat_mod)
  let ?d = "digit_char flags (unat (v mod base))"
  show ?case
  proof (cases "unat v < unat base")
    case True
    then have s: "show_base flags (unat base) (unat v) = [?d]" using b by (subst show_base.simps) (simp add: dm)
    have "v div base = 0" using True by (simp add: word_unat_eq_iff dm)
    then show ?thesis using 1(3) unfolding s by (subst digit_loop.simps) simp
  next
    case False
    then have s: "show_base flags (unat base) (unat v) = show_base flags (unat base) (unat (v div base)) @ [?d]"
      using b by (subst show_base.simps) (simp add: dm)
    have nz: "v div base \<noteq> 0" using False b by (simp add: word_unat_eq_iff dm div_eq_0_iff)
    have ne: "0 < length (show_base flags (unat base) (unat (v div base)))" by (subst show_base.simps) simp
    then have l: "length buf < 31" using 1(3) unfolding s by (simp del: length_greater_0_conv)
    have "digit_loop flags base (v div base) (buf @ [?d]) = Some ((buf @ [?d]) @ rev (show_base flags (unat base) (unat (v div base))))"
      using 1(1) [of "buf @ [?d]"] 1(2,3) l nz unfolding s by simp
    then show ?thesis using l nz unfolding s by (subst digit_loop.simps) simp
  qed
qed

text \<open>
  Sign, precision and padding of a number with the digits \<open>digits\<close>, as the C standard has them.
\<close>

definition std_int :: "u32 \<Rightarrow> nat \<Rightarrow> nat \<Rightarrow> bool \<Rightarrow> string \<Rightarrow> string" where
  "std_int flags prec width negative digits =
     (let sign = (if negative then ''-'' else if bit flags FLAGS_PLUS then ''+'' else if bit flags FLAGS_SPACE then '' '' else '''');
          ds = replicate (prec - length digits) CHR ''0'' @ digits;
          fill = width - (length sign + length ds)
      in if bit flags FLAGS_LEFT then sign @ ds @ replicate fill CHR '' ''
         else if bit flags FLAGS_ZEROPAD then sign @ replicate fill CHR ''0'' @ ds
         else replicate fill CHR '' '' @ sign @ ds)"

lemma format_buf_std:
  assumes "\<not> bit flags FLAGS_HASH" "bit flags FLAGS_ZEROPAD \<Longrightarrow> unat prec = 0" "bit flags FLAGS_LEFT \<Longrightarrow> unat prec \<le> length buf"
    "unat prec \<le> 31" "bit flags FLAGS_ZEROPAD \<Longrightarrow> unat width \<le> 32" "length buf \<le> 31"
  shows "\<exists>b w. format_buf buf negative base prec width flags = Some (b, w) \<and> rev_text b w flags = std_int flags (unat prec) (unat width) negative (rev buf)"
proof -
  let ?s = "negative \<or> bit flags FLAGS_PLUS \<or> bit flags FLAGS_SPACE"
  define sign where "sign = (if negative then ''-'' else if bit flags FLAGS_PLUS then ''+'' else if bit flags FLAGS_SPACE then '' '' else '''')"
  have sign: "length sign = (if ?s then 1 else 0)" "rev sign = sign" by (simp_all add: sign_def)
  define w where "w = (if \<not> bit flags FLAGS_LEFT \<and> width \<noteq> 0 \<and> bit flags FLAGS_ZEROPAD \<and> ?s then width - 1 else width)"
  have uw: "unat w = (if \<not> bit flags FLAGS_LEFT \<and> bit flags FLAGS_ZEROPAD \<and> ?s then unat width - 1 else unat width)"
    by (auto simp: w_def unat_minus_one)
  define b1 where "b1 = (if bit flags FLAGS_LEFT then buf else if bit flags FLAGS_ZEROPAD then buf @ replicate (unat w - length buf) CHR ''0''
    else buf @ replicate (unat prec - length buf) CHR ''0'')"
  have "leading_zeros prec w flags buf = Some b1"
    using assms(2,4,5) uw by (auto simp: leading_zeros_def zeros_upto_eq b1_def min_def)
  moreover have "hash_prefix base prec w flags b1 = Some b1" using assms(1) by (simp add: hash_prefix_def)
  moreover have l: "length b1 \<le> 32 \<and> (?s \<longrightarrow> length b1 \<le> 31)" using assms(4-6) uw by (auto simp: b1_def)
  then have "put_sign negative flags b1 = Some (b1 @ sign)"
    by (auto simp: put_sign_def buf_put_def sign_def)
  ultimately have "format_buf buf negative base prec width flags = Some (b1 @ sign, w)"
    unfolding format_buf_def w_def [symmetric] Let_def by simp
  moreover have "rev_text (b1 @ sign) w flags = std_int flags (unat prec) (unat width) negative (rev buf)"
  proof -
    have "std_int flags (unat prec) (unat width) negative (rev buf) =
        (let ds = replicate (unat prec - length buf) CHR ''0'' @ rev buf; fill = unat width - (length sign + length ds)
         in if bit flags FLAGS_LEFT then sign @ ds @ replicate fill CHR '' ''
            else if bit flags FLAGS_ZEROPAD then sign @ replicate fill CHR ''0'' @ ds else replicate fill CHR '' '' @ sign @ ds)"
      by (simp add: std_int_def sign_def Let_def)
    then show ?thesis using assms(2,3) uw by (auto simp: rev_text_def b1_def sign Let_def add.commute)
  qed
  ultimately show ?thesis by blast
qed

lemma unset_hash: "\<not> bit (f::u32) 4 \<Longrightarrow> unset_bit 4 f = f"
  by (rule bit_word_eqI) (auto simp: bit_unset_bit_iff)

lemma ntoa_text_std:
  assumes "base \<in> {8, 10, 16}" "\<not> bit flags FLAGS_HASH" "bit flags FLAGS_PRECISION \<or> prec = 0" "\<not> (bit flags FLAGS_PRECISION \<and> bit flags FLAGS_ZEROPAD)"
    "digits = (if bit flags FLAGS_PRECISION \<and> v = 0 then '''' else show_base flags (unat base) (unat v))"
    "bit flags FLAGS_LEFT \<Longrightarrow> unat prec \<le> length digits" "unat prec \<le> 31" "bit flags FLAGS_ZEROPAD \<Longrightarrow> unat width \<le> 32"
  shows "ntoa_text v negative base prec width flags = Some (std_int flags (unat prec) (unat width) negative digits)"
proof -
  have b: "2 \<le> base" "2 \<le> unat base" using assms(1) by auto
  have v: "unat v < 2 ^ 64" using unsigned_less [of v, where 'a = nat] by simp
  also have "(2::nat) ^ 64 \<le> 8 ^ Suc 21" by simp
  also have "\<dots> \<le> unat base ^ Suc 21" using assms(1) by (intro power_mono) auto
  finally have l: "length (show_base flags (unat base) (unat v)) \<le> 22" using show_base_length [OF b(2), of "unat v" 21 flags] by simp
  have "ntoa_digits v base flags = Some (rev digits, flags)"
    using digit_loop_show [OF b(1), of "[]" flags v] l assms(2,5) by (auto simp: ntoa_digits_def Let_def unset_hash)
  moreover have "length (rev digits) \<le> 31" using l assms(5) by simp
  then obtain c w where c: "format_buf (rev digits) negative (ucast base) prec width flags = Some (c, w)"
    "rev_text c w flags = std_int flags (unat prec) (unat width) negative digits"
    using format_buf_std [of flags prec "rev digits" width negative "ucast base"] assms(2-4,6-8) by auto
  ultimately show ?thesis by (simp add: ntoa_text_def)
qed


text \<open>A number that is printed in decimal is read back by the parser of widths.\<close>

lemma atoi_loop_append:
  "\<forall>c \<in> set ds. is_digit c \<Longrightarrow> atoi_loop i (ds @ rest) = atoi_loop (foldl (\<lambda>i c. i * 10 + of_nat (of_char c - 48)) i ds) rest"
  by (induction ds arbitrary: i) simp_all

lemma digit_char_decimal: "d < 10 \<Longrightarrow> is_digit (digit_char flags d)" "d < 10 \<Longrightarrow> of_char (digit_char flags d) - 48 = d"
  by (simp_all add: digit_char_def is_digit_def)

lemma show_decimal:
  "(\<forall>c \<in> set (show_base flags 10 n). is_digit c) \<and> foldl (\<lambda>i c. i * 10 + of_nat (of_char c - 48)) 0 (show_base flags 10 n) = (of_nat n :: u32)"
proof (induction n rule: less_induct)
  case (less n)
  show ?case
  proof (cases "n < 10")
    case True
    then show ?thesis by (subst (1 2) show_base.simps) (simp add: digit_char_decimal)
  next
    case False
    have "of_nat n = (of_nat (n div 10) * 10 + of_nat (n mod 10) :: u32)" by (metis div_mult_mod_eq of_nat_add of_nat_mult of_nat_numeral)
    then show ?thesis using False less [of "n div 10"] by (subst (1 2) show_base.simps) (auto simp: digit_char_decimal)
  qed
qed

lemma atoi_show: "(rest = [] \<or> \<not> is_digit (hd rest)) \<Longrightarrow> atoi (show_base flags 10 (unat v) @ rest) = (v, rest)" for v :: u32
  using show_decimal [of flags "unat v"] atoi_loop_append [of "show_base flags 10 (unat v)" 0 rest] by (cases rest) (simp_all add: atoi_def)

text \<open>The buffer of a conversion is too small for binary: of a number with more than 32 binary digits only the lowest 32 are printed.\<close>

lemma binary_cut: "ntoa_text (push_bit 40 1) False 2 0 0 0 = Some (replicate 32 CHR ''0'')"
  by code_simp

text \<open>A precision is ignored with left adjustment, and a format that ends in \<open>%\<close> leads the code past its end.\<close>

lemma left_ignores_precision: "format_text ''%-5.3d'' [VInt 7] = Some ''7    ''"
  by code_simp

lemma trailing_percent: "format_text ''100%'' va = None"
  by (simp add: parse_spec_def parse_width_def parse_precision_def parse_length_def starts_def)

section \<open>Printing to the log\<close>

lemma put_list_out_char:
  "put_list out_char cs (i, s) = Some (i + of_nat (length cs), fold log_putchar (map of_char (filter (\<lambda>c. c \<noteq> NUL) cs)) s)"
  by (induction cs arbitrary: i s) (simp_all add: putc_def out_char_def add.assoc)

lemma printf_logs:
  assumes "format_text format va = Some cs" "length cs < 2 ^ 31"
  shows "tiny_printf format va s = Some (int (length cs), Some (fold log_putchar (map of_char (filter (\<lambda>c. c \<noteq> NUL) cs)) s))"
proof -
  have "ucast (of_nat (length cs) :: u64) = (of_nat (length cs) :: u32)" using assms(2) by (simp add: unsigned_of_nat take_bit_nat_eq_self)
  then show ?thesis using assms
    by (simp add: tiny_printf_def vsnprintf_def vsnprintf_run_def loop_emits put_list_out_char out_char_def sint_of_nat_small)
qed

text \<open>
  What a line of the log becomes: with both outputs on, the text is printed on the console and kept in the ring, the oldest
  characters of which give way.
\<close>

lemma printf_to_console_and_ring:
  assumes "format_text format va = Some cs" "length cs < 2 ^ 31" "NUL \<notin> set cs" "log_wf s" "g_log_output s = 3" "length (log_contents s) < LOG_BUF_SIZE"
  shows "\<exists>s'. tiny_printf format va s = Some (int (length cs), Some s') \<and> uart_out s' = uart_out s @ map of_char cs \<and>
    log_contents s' = keep_last (LOG_BUF_SIZE - 1) (log_contents s @ map of_char cs)"
proof -
  have "filter (\<lambda>c. c \<noteq> NUL) cs = cs" using assms(3) by (auto simp: filter_id_conv)
  then show ?thesis using printf_logs [OF assms(1,2), of s] log_puts_both [OF assms(4-6), of "map of_char cs"] by auto
qed

text \<open>The line that \<open>log_flush\<close> prints for \<open>n\<close> dropped characters; it is the parameter \<open>report\<close> of \<^const>\<open>log_flush\<close>.\<close>

definition drop_report :: "u32 \<Rightarrow> u8 list" where
  "drop_report n = map of_char (CHR 0x0A # ''--- '' @ show_base 0 10 (unat n) @ '' log chars dropped ---'' @ [CHR 0x0A])"

lemma show_base_flags: "bit f FLAGS_UPPERCASE = bit g FLAGS_UPPERCASE \<Longrightarrow> show_base f b n = show_base g b n"
proof (induction n rule: less_induct)
  case (less n)
  then show ?case by (subst (1 2) show_base.simps) (simp add: digit_char_def)
qed

lemma drop_report_text:
  "map_option (map of_char) (format_text (CHR 0x0A # ''--- %lu log chars dropped ---'' @ [CHR 0x0A]) [VLong (ucast n)]) = Some (drop_report n)"
proof -
  let ?v = "ucast n :: u64" and ?f = "256 :: u32"
  have "conv_text CHR ''u'' ?f 0 0 [VLong ?v] = Some ([], std_int ?f 0 0 False (show_base ?f 10 (unat ?v)))"
  proof -
    have c: "int_flags CHR ''u'' ?f = ?f" "int_base CHR ''u'' = 10" "is_int_conv CHR ''u''" by code_simp+
    have "ntoa_text ?v False 10 0 0 ?f = Some (std_int ?f 0 0 False (show_base ?f 10 (unat ?v)))"
      using ntoa_text_std [of 10 ?f 0 "show_base ?f 10 (unat ?v)" ?v 0 False] by simp
    then show ?thesis by (simp add: conv_text_def c int_arg_def)
  qed
  moreover have "std_int ?f 0 0 False ds = ds" for ds by (simp add: std_int_def Let_def)
  moreover have "show_base ?f 10 (unat ?v) = show_base 0 10 (unat n)"
    by (simp add: unat_ucast_up show_base_flags [of ?f 0])
  ultimately show ?thesis
    by (simp add: drop_report_def parse_spec_def parse_width_def parse_precision_def parse_length_def starts_def is_digit_def Let_def)
qed

section \<open>Witnesses\<close>

lemma show_4711: "format_text ''n=%d'' [VInt 4711] = Some ''n=4711''"
  by code_simp

theorem snprintf_bounded_witness:
  "tiny_snprintf (Some ''zzzzzzzz'') 4 ''n=%d'' [VInt 4711] = Some (6, Some (''n=4'' @ NUL # ''zzzz''))"
  using snprintf_bounded [OF show_4711, of 4 "''zzzzzzzz''"] by simp


end
