(* ===== verification/Fdt_Format.thy ===== *)
theory Fdt_Format
  imports HC_Prelude
begin

text \<open>
  The flattened device tree format that \<^verbatim>\<open>src/arch/riscv64/guest_dtb.c\<close> and \<^verbatim>\<open>riscv_features.c\<close> read and write
  without a library: raw memory with the byte order conversions and string functions both files use, a reference reader of
  the format, and the interface of a loop over the structure block.

  Memory is a total function from addresses to bytes: the code runs on the bare machine, where every address of RAM can be
  read. The functions of \<^verbatim>\<open>string.h\<close> that stop only at a terminator are partial: \<open>None\<close> means that there is none.
  The reference reader follows the devicetree specification (header, structure block of tokens, strings block) and knows
  nothing of the code; it works on offsets from the start of the blob.
\<close>

section \<open>Memory\<close>

type_synonym mem = "nat \<Rightarrow> u8"

abbreviation bytes :: "string \<Rightarrow> u8 list" where
  "bytes s \<equiv> map of_char s"

definition mload32 :: "mem \<Rightarrow> nat \<Rightarrow> u32" where
  "mload32 m p = ucast (m p) OR push_bit 8 (ucast (m (p + 1))) OR push_bit 16 (ucast (m (p + 2))) OR push_bit 24 (ucast (m (p + 3)))"

definition mwrite :: "mem \<Rightarrow> nat \<Rightarrow> u8 list \<Rightarrow> mem" where
  "mwrite m p bs = (\<lambda>a. if p \<le> a \<and> a < p + length bs then bs ! (a - p) else m a)"

definition mbytes :: "mem \<Rightarrow> nat \<Rightarrow> nat \<Rightarrow> u8 list" where
  "mbytes m p n = map m [p..<p + n]"

definition le_bytes32 :: "u32 \<Rightarrow> u8 list" where
  "le_bytes32 v = [ucast v, ucast (drop_bit 8 v), ucast (drop_bit 16 v), ucast (drop_bit 24 v)]"

definition le_bytes64 :: "u64 \<Rightarrow> u8 list" where
  "le_bytes64 v = le_bytes32 (ucast v) @ le_bytes32 (ucast (drop_bit 32 v))"

definition mstore32 :: "mem \<Rightarrow> nat \<Rightarrow> u32 \<Rightarrow> mem" where
  "mstore32 m p v = mwrite m p (le_bytes32 v)"

definition bswap32 :: "u32 \<Rightarrow> u32" where
  "bswap32 v = drop_bit 24 (v AND 0xff000000) OR drop_bit 8 (v AND 0x00ff0000) OR push_bit 8 (v AND 0x0000ff00) OR push_bit 24 (v AND 0x000000ff)"

definition bswap64 :: "u64 \<Rightarrow> u64" where
  "bswap64 v = push_bit 32 (ucast (bswap32 (ucast v))) OR ucast (bswap32 (ucast (drop_bit 32 v)))"

definition fdt32_to_cpu :: "mem \<Rightarrow> nat \<Rightarrow> u32" where
  "fdt32_to_cpu m p = bswap32 (mload32 m p)"

definition be32 :: "mem \<Rightarrow> nat \<Rightarrow> u32" where
  "be32 m p = push_bit 24 (ucast (m p)) OR push_bit 16 (ucast (m (p + 1))) OR push_bit 8 (ucast (m (p + 2))) OR ucast (m (p + 3))"

definition put_be32 :: "mem \<Rightarrow> nat \<Rightarrow> u32 \<Rightarrow> mem" where
  "put_be32 m p v = mstore32 m p (bswap32 v)"

definition align4 :: "nat \<Rightarrow> nat" where
  "align4 p = (p + 3) div 4 * 4"

text \<open>The bytes of a word, the most significant one first.\<close>

definition be_bytes32 :: "u32 \<Rightarrow> u8 list" where
  "be_bytes32 v = [ucast (drop_bit 24 v), ucast (drop_bit 16 v), ucast (drop_bit 8 v), ucast v]"

definition be_bytes64 :: "u64 \<Rightarrow> u8 list" where
  "be_bytes64 v = be_bytes32 (ucast (drop_bit 32 v)) @ be_bytes32 (ucast v)"

lemma be_bytes32_length [simp]: "length (be_bytes32 v) = 4"
  by (simp add: be_bytes32_def)

lemma be_bytes64_length [simp]: "length (be_bytes64 v) = 8"
  by (simp add: be_bytes64_def)

lemma mbytes_length [simp]: "length (mbytes m p n) = n"
  by (simp add: mbytes_def)

lemma mbytes_nth [simp]: "i < n \<Longrightarrow> mbytes m p n ! i = m (p + i)"
  by (simp add: mbytes_def)

lemma mbytes_eq_iff: "mbytes m p n = bs \<longleftrightarrow> length bs = n \<and> (\<forall>i < n. m (p + i) = bs ! i)"
  by (auto simp: list_eq_iff_nth_eq)

lemma mbytes_append: "mbytes m p (a + b) = mbytes m p a @ mbytes m (p + a) b"
  unfolding mbytes_eq_iff by (auto simp: nth_append)

lemma mbytes_split: "mbytes m p (length (xs @ ys)) = xs @ ys \<longleftrightarrow> mbytes m p (length xs) = xs \<and> mbytes m (p + length xs) (length ys) = ys"
  by (simp add: mbytes_append)

lemma drop_mbytes: "drop k (mbytes m p n) = mbytes m (p + k) (n - k)"
  by (cases "k \<le> n") (simp_all add: mbytes_def drop_map)

lemma take_mbytes: "k \<le> n \<Longrightarrow> take k (mbytes m p n) = mbytes m p k"
  by (simp add: mbytes_def take_map)

lemma mwrite_Nil [simp]: "mwrite m p [] = m"
  by (rule ext) (auto simp: mwrite_def)

lemma mwrite_append: "mwrite (mwrite m p xs) (p + length xs) ys = mwrite m p (xs @ ys)"
  by (rule ext) (auto simp: mwrite_def nth_append)

lemma mwrite_same [simp]: "length bs = n \<Longrightarrow> mbytes (mwrite m p bs) p n = bs"
  unfolding mbytes_eq_iff by (auto simp: mwrite_def)

lemma mbytes_mwrite_other: "p + length bs \<le> q \<or> q + n \<le> p \<Longrightarrow> mbytes (mwrite m p bs) q n = mbytes m q n"
  unfolding mbytes_eq_iff by (auto simp: mwrite_def)

lemma mbytes_shift: "mbytes (\<lambda>o'. m (b + o')) p n = mbytes m (b + p) n"
  unfolding mbytes_eq_iff by (simp add: add.assoc)

lemma be32_shift [simp]: "be32 (\<lambda>o'. m (b + o')) p = be32 m (b + p)"
  by (simp add: be32_def add.assoc)

text \<open>Two words are equal when their four bytes are.\<close>

lemma word32_bytes_eqI:
  fixes x y :: u32
  assumes "\<And>k. k < 8 \<Longrightarrow> bit x k = bit y k" "\<And>k. k < 8 \<Longrightarrow> bit x (8 + k) = bit y (8 + k)"
    "\<And>k. k < 8 \<Longrightarrow> bit x (16 + k) = bit y (16 + k)" "\<And>k. k < 8 \<Longrightarrow> bit x (24 + k) = bit y (24 + k)"
  shows "x = y"
proof (rule bit_word_eqI)
  fix n :: nat assume n: "n < LENGTH(32)"
  consider "n < 8" | k where "k < 8" "n = 8 + k" | k where "k < 8" "n = 16 + k" | k where "k < 8" "n = 24 + k"
  proof -
    have "n < 8 \<or> n = 8 + (n - 8) \<and> n - 8 < 8 \<or> n = 16 + (n - 16) \<and> n - 16 < 8 \<or> n = 24 + (n - 24) \<and> n - 24 < 8" using n by simp arith
    then show thesis using that by blast
  qed
  then show "bit x n = bit y n" by cases (simp_all add: assms)
qed

lemma bswap32_masks: "(0xff000000::u32) = push_bit 24 (mask 8)" "(0x00ff0000::u32) = push_bit 16 (mask 8)"
  "(0x0000ff00::u32) = push_bit 8 (mask 8)" "(0x000000ff::u32) = mask 8"
  by (simp_all add: mask_eq_exp_minus_1 push_bit_eq_mult)

lemma bswap32_bits:
  assumes "k < 8"
  shows "bit (bswap32 v) k = bit v (24 + k)" "bit (bswap32 v) (8 + k) = bit v (16 + k)"
    "bit (bswap32 v) (16 + k) = bit v (8 + k)" "bit (bswap32 v) (24 + k) = bit v k"
  using assms unfolding bswap32_def bswap32_masks by (auto simp: bit_simps dest: bit_imp_le_length)

lemma byte_bit_bound: "\<not> bit (x :: u8) k" if "8 \<le> k"
  using that by (auto dest: bit_imp_le_length)

lemma mload32_bits:
  assumes "k < 8"
  shows "bit (mload32 m p) k = bit (m p) k" "bit (mload32 m p) (8 + k) = bit (m (p + 1)) k"
    "bit (mload32 m p) (16 + k) = bit (m (p + 2)) k" "bit (mload32 m p) (24 + k) = bit (m (p + 3)) k"
  using assms unfolding mload32_def by (simp_all add: bit_simps byte_bit_bound)

lemma be32_bits:
  assumes "k < 8"
  shows "bit (be32 m p) k = bit (m (p + 3)) k" "bit (be32 m p) (8 + k) = bit (m (p + 2)) k"
    "bit (be32 m p) (16 + k) = bit (m (p + 1)) k" "bit (be32 m p) (24 + k) = bit (m p) k"
  using assms unfolding be32_def by (simp_all add: bit_simps byte_bit_bound)

lemma fdt32_to_cpu_be32: "fdt32_to_cpu m p = be32 m p"
  by (rule word32_bytes_eqI) (simp_all add: fdt32_to_cpu_def bswap32_bits mload32_bits be32_bits)

lemma le_bytes32_bswap32: "le_bytes32 (bswap32 v) = be_bytes32 v"
proof -
  have "ucast (bswap32 v) = (ucast (drop_bit 24 v) :: u8)" "ucast (drop_bit 8 (bswap32 v)) = (ucast (drop_bit 16 v) :: u8)"
    "ucast (drop_bit 16 (bswap32 v)) = (ucast (drop_bit 8 v) :: u8)" "ucast (drop_bit 24 (bswap32 v)) = (ucast v :: u8)"
    by (rule bit_word_eqI; simp add: bit_simps bswap32_bits)+
  then show ?thesis by (simp add: le_bytes32_def be_bytes32_def)
qed

lemma put_be32_eq: "put_be32 m p v = mwrite m p (be_bytes32 v)"
  by (simp add: put_be32_def mstore32_def le_bytes32_bswap32)

lemma le_bytes64_bswap64: "le_bytes64 (bswap64 v) = be_bytes64 v"
proof -
  have z: "\<not> bit (x :: u32) (32 + n)" for x n by (auto dest: bit_imp_le_length)
  have "ucast (bswap64 v) = bswap32 (ucast (drop_bit 32 v))" "ucast (drop_bit 32 (bswap64 v)) = bswap32 (ucast v)"
    unfolding bswap64_def by (rule bit_word_eqI; simp add: bit_simps z)+
  then show ?thesis by (simp add: le_bytes64_def be_bytes64_def le_bytes32_bswap32)
qed

lemma mbytes_4: "mbytes m p 4 = [m p, m (p + 1), m (p + 2), m (p + 3)]"
  by (simp add: mbytes_def upt_rec numeral_eq_Suc)

lemma be32_mbytes: "mbytes m p 4 = be_bytes32 v \<longleftrightarrow> be32 m p = v"
proof
  assume "mbytes m p 4 = be_bytes32 v"
  then have b: "m p = ucast (drop_bit 24 v)" "m (p + 1) = ucast (drop_bit 16 v)" "m (p + 2) = ucast (drop_bit 8 v)" "m (p + 3) = ucast v"
    by (simp_all add: mbytes_4 be_bytes32_def)
  show "be32 m p = v" by (rule word32_bytes_eqI) (simp_all add: be32_bits b [simplified] bit_simps)
next
  assume v: "be32 m p = v"
  have "be_bytes32 (be32 m p) = [m p, m (p + 1), m (p + 2), m (p + 3)]"
    unfolding be_bytes32_def by (simp, intro conjI; rule bit_word_eqI; simp add: bit_simps be32_bits)
  then show "mbytes m p 4 = be_bytes32 v" using v by (simp add: mbytes_4)
qed

lemma align4_mult [simp]: "4 dvd align4 p"
  by (simp add: align4_def)

lemma align4_ge: "p \<le> align4 p"
  unfolding align4_def by presburger

lemma align4_progress: "p < q \<Longrightarrow> p < e \<Longrightarrow> e - align4 q < e - p"
  using align4_ge [of q] by linarith

lemma align4_add: "4 dvd b \<Longrightarrow> align4 (b + p) = b + align4 p"
  unfolding align4_def by presburger

lemma align4_self: "4 dvd p \<Longrightarrow> align4 p = p"
  unfolding align4_def by presburger

lemma of_char_less_256: "(of_char c :: nat) < 256"
proof -
  have "(of_char c :: nat) mod 256 < 256" by (rule mod_less_divisor) simp
  then show ?thesis by (simp only: of_char_mod_256)
qed

lemma unat_of_char8: "unat (of_char c :: u8) = of_char c"
proof -
  have "unat (of_nat (of_char c) :: u8) = of_char c" by (rule unat_of_nat_small) (simp add: of_char_less_256 del: of_nat_of_char)
  then show ?thesis by (simp only: of_nat_of_char)
qed

lemma of_char_eq_iff8 [simp]: "(of_char c :: u8) = of_char d \<longleftrightarrow> c = d"
  using unat_of_char8 [of c] unat_of_char8 [of d] by (metis of_char_eqI)

lemma of_char_zero [simp]: "(of_char c :: u8) = 0 \<longleftrightarrow> c = CHR 0x00"
  using of_char_eq_iff8 [of c "CHR 0x00"] by (simp del: of_char_eq_iff8)

section \<open>Strings in memory\<close>

text \<open>\<open>strncmp(p, s, strlen(s)) == 0\<close> and \<open>strcmp(p, s) == 0\<close> for a string \<open>s\<close> without terminator inside.\<close>

definition strncmp_eq :: "mem \<Rightarrow> nat \<Rightarrow> u8 list \<Rightarrow> bool" where
  "strncmp_eq m p s \<longleftrightarrow> mbytes m p (length s) = s"

definition strcmp_eq :: "mem \<Rightarrow> nat \<Rightarrow> u8 list \<Rightarrow> bool" where
  "strcmp_eq m p s \<longleftrightarrow> strncmp_eq m p s \<and> m (p + length s) = 0"

primrec strnlen :: "mem \<Rightarrow> nat \<Rightarrow> nat \<Rightarrow> nat" where
  "strnlen m p 0 = 0"
| "strnlen m p (Suc n) = (if m p = 0 then 0 else Suc (strnlen m (Suc p) n))"

partial_function (option) strchr :: "mem \<Rightarrow> nat \<Rightarrow> u8 \<Rightarrow> nat option option" where
  "strchr m p c = (if m p = c then Some (Some p) else if m p = 0 then Some None else strchr m (Suc p) c)"

text \<open>The memory holds a terminated string, and the string at an address with at most \<open>n\<close> bytes.\<close>

definition cstring :: "mem \<Rightarrow> nat \<Rightarrow> u8 list \<Rightarrow> bool" where
  "cstring m p s \<longleftrightarrow> mbytes m p (length s) = s \<and> m (p + length s) = 0 \<and> 0 \<notin> set s"

primrec mem_str :: "mem \<Rightarrow> nat \<Rightarrow> nat \<Rightarrow> u8 list option" where
  "mem_str m p 0 = None"
| "mem_str m p (Suc n) = (if m p = 0 then Some [] else map_option (Cons (m p)) (mem_str m (Suc p) n))"

lemma mbytes_0 [simp]: "mbytes m p 0 = []"
  by (simp add: mbytes_def)

lemma mbytes_Cons: "mbytes m p (Suc n) = m p # mbytes m (Suc p) n"
  using mbytes_append [of m p 1 n] by (simp add: mbytes_def)

lemma cstring_Nil [simp]: "cstring m p [] \<longleftrightarrow> m p = 0"
  by (simp add: cstring_def mbytes_def)

lemma cstring_Cons [simp]: "cstring m p (c # s) \<longleftrightarrow> m p = c \<and> c \<noteq> 0 \<and> cstring m (Suc p) s"
  by (auto simp: cstring_def mbytes_Cons)

lemma cstring_drop: "cstring m p s \<Longrightarrow> n \<le> length s \<Longrightarrow> cstring m (p + n) (drop n s)"
proof (induction n arbitrary: p s)
  case (Suc n) then show ?case using Suc.IH [of "Suc p" "tl s"] by (cases s) auto
qed simp

lemma cstring_takeWhile: "mbytes m p (length v) = v \<Longrightarrow> 0 \<in> set v \<Longrightarrow> cstring m p (takeWhile (\<lambda>c. c \<noteq> 0) v)"
proof (induction v arbitrary: p)
  case (Cons x v) then show ?case by (auto simp: mbytes_Cons)
qed simp

lemma mem_str_Some: "mem_str m p n = Some s \<longleftrightarrow> cstring m p s \<and> length s < n"
proof (induction n arbitrary: p s)
  case (Suc n) then show ?case by (cases s) auto
qed simp

lemma strcmp_eq_cstring: "cstring m p t \<Longrightarrow> 0 \<notin> set s \<Longrightarrow> strcmp_eq m p s \<longleftrightarrow> t = s"
proof (induction t arbitrary: p s)
  case Nil then show ?case by (cases s) (auto simp: strcmp_eq_def strncmp_eq_def mbytes_Cons)
next
  case (Cons c t)
  then show ?case using Cons.IH [of "Suc p" "tl s"] by (cases s) (auto simp: strcmp_eq_def strncmp_eq_def mbytes_Cons)
qed

lemma strnlen_cstring: "cstring m p s \<Longrightarrow> length s < n \<Longrightarrow> strnlen m p n = length s"
proof (induction n arbitrary: p s)
  case (Suc n) then show ?case by (cases s) auto
qed simp

lemma cstring_shift [simp]: "cstring (\<lambda>o'. m (b + o')) p s \<longleftrightarrow> cstring m (b + p) s"
  by (simp add: cstring_def mbytes_shift add.assoc)

text \<open>The fields of a list between separators.\<close>

primrec sep_fields :: "'a \<Rightarrow> 'a list \<Rightarrow> 'a list list" where
  "sep_fields sep [] = [[]]"
| "sep_fields sep (x # xs) = (if x = sep then [] # sep_fields sep xs else (case sep_fields sep xs of [] \<Rightarrow> [[x]] | w # ws \<Rightarrow> (x # w) # ws))"

lemma sep_fields_not_Nil [simp]: "sep_fields sep xs \<noteq> []"
  by (cases xs) (auto split: list.split)

lemma sep_fields_Cons: "sep_fields sep (x # xs) = (if x = sep then [] # sep_fields sep xs else (x # hd (sep_fields sep xs)) # tl (sep_fields sep xs))"
  by (cases "sep_fields sep xs") auto

lemma hd_sep_fields [simp]: "hd (sep_fields sep xs) = takeWhile (\<lambda>c. c \<noteq> sep) xs"
  by (induction xs) (simp_all add: sep_fields_Cons del: sep_fields.simps(2))

lemma sep_fields_eq: "sep_fields sep xs = takeWhile (\<lambda>c. c \<noteq> sep) xs # tl (sep_fields sep xs)"
  using list.collapse [OF sep_fields_not_Nil] hd_sep_fields by metis

lemma tl_sep_fields:
  "tl (sep_fields sep xs) = (case drop (length (takeWhile (\<lambda>c. c \<noteq> sep) xs)) xs of [] \<Rightarrow> [] | _ # ys \<Rightarrow> sep_fields sep ys)"
  by (induction xs) (simp_all add: sep_fields_Cons del: sep_fields.simps(2))

lemma sep_fields_append: "sep_fields sep (xs @ sep # ys) = sep_fields sep xs @ sep_fields sep ys"
  by (induction xs) (simp_all add: sep_fields_Cons del: sep_fields.simps(2))

lemma sep_fields_single: "sep \<notin> set xs \<Longrightarrow> sep_fields sep xs = [xs]"
  by (induction xs) auto

text \<open>A comparison at the start of a field followed by a test for its end.\<close>

lemma cstring_field:
  assumes "cstring m p s" "0 \<notin> set w" "sep \<notin> set w" "sep \<noteq> 0"
  shows "strncmp_eq m p w \<and> (m (p + length w) = 0 \<or> m (p + length w) = sep) \<longleftrightarrow> takeWhile (\<lambda>c. c \<noteq> sep) s = w"
  using assms
proof (induction w arbitrary: p s)
  case Nil then show ?case by (cases s) (auto simp: strncmp_eq_def)
next
  case (Cons c w)
  then show ?case using Cons.IH [of "Suc p" "tl s"] by (cases s) (auto simp: strncmp_eq_def mbytes_Cons)
qed

lemma strnlen_takeWhile: "strnlen m p n = length (takeWhile (\<lambda>c. c \<noteq> 0) (mbytes m p n))"
  by (induction n arbitrary: p) (simp_all add: mbytes_Cons)

section \<open>Reference reader\<close>

abbreviation (input) "FDT_MAGIC \<equiv> 0xd00dfeed::u32"
abbreviation (input) "FDT_BEGIN_NODE \<equiv> 1::u32"
abbreviation (input) "FDT_END_NODE \<equiv> 2::u32"
abbreviation (input) "FDT_PROP \<equiv> 3::u32"
abbreviation (input) "FDT_NOP \<equiv> 4::u32"
abbreviation (input) "FDT_END \<equiv> 9::u32"

text \<open>Tokens of the structure block: a property with its length, the offset of its name and the offset of its value.\<close>

datatype fdt_token = Tok_begin "u8 list" | Tok_prop nat nat nat | Tok_end

function fdt_tokens :: "mem \<Rightarrow> nat \<Rightarrow> nat \<Rightarrow> fdt_token list option" where
  "fdt_tokens b e p =
     (if e < p + 4 then None
      else if be32 b p = FDT_BEGIN_NODE then
        (case mem_str b (p + 4) (e - (p + 4)) of None \<Rightarrow> None
         | Some name \<Rightarrow> map_option (Cons (Tok_begin name)) (fdt_tokens b e (align4 (p + 4 + length name + 1))))
      else if be32 b p = FDT_END_NODE then map_option (Cons Tok_end) (fdt_tokens b e (p + 4))
      else if be32 b p = FDT_PROP then
        (let len = unat (be32 b (p + 4)); nameoff = unat (be32 b (p + 8)) in
         if e < p + 12 + len then None
         else map_option (Cons (Tok_prop len nameoff (p + 12))) (fdt_tokens b e (align4 (p + 12 + len))))
      else if be32 b p = FDT_NOP then fdt_tokens b e (p + 4)
      else if be32 b p = FDT_END then Some []
      else None)"
  by pat_completeness auto
termination
  by (relation "measure (\<lambda>(b, e, p). e - p)") (auto intro!: align4_progress)

declare fdt_tokens.simps [simp del]

text \<open>Names and values of the tokens; the tree they describe.\<close>

datatype fdt_event = Begin_ev "u8 list" | Prop_ev "u8 list" "u8 list" | End_ev

definition fdt_event_of :: "mem \<Rightarrow> nat \<Rightarrow> nat \<Rightarrow> fdt_token \<Rightarrow> fdt_event option" where
  "fdt_event_of b strings ssize t = (case t of
     Tok_begin name \<Rightarrow> Some (Begin_ev name)
   | Tok_end \<Rightarrow> Some End_ev
   | Tok_prop len nameoff pos \<Rightarrow>
       map_option (\<lambda>name. Prop_ev name (mbytes b pos len)) (mem_str b (strings + nameoff) (ssize - nameoff)))"

primrec option_list :: "'a option list \<Rightarrow> 'a list option" where
  "option_list [] = Some []"
| "option_list (x # xs) = (case x of None \<Rightarrow> None | Some y \<Rightarrow> map_option (Cons y) (option_list xs))"

definition fdt_events :: "mem \<Rightarrow> fdt_event list option" where
  "fdt_events b =
     (if be32 b 0 \<noteq> FDT_MAGIC then None
      else let off_struct = unat (be32 b 8); off_strings = unat (be32 b 12); ssize = unat (be32 b 32); size = unat (be32 b 36) in
        case fdt_tokens b (off_struct + size) off_struct of None \<Rightarrow> None
        | Some ts \<Rightarrow> option_list (map (fdt_event_of b off_strings ssize) ts))"

datatype fdt_node = Node (node_name: "u8 list") (node_props: "(u8 list \<times> u8 list) list") (node_kids: "fdt_node list")

fun close_node :: "fdt_node list \<Rightarrow> fdt_node list option" where
  "close_node (n # p # st) = Some (Node (node_name p) (node_props p) (node_kids p @ [n]) # st)"
| "close_node _ = None"

fun fdt_build :: "fdt_event list \<Rightarrow> fdt_node list \<Rightarrow> fdt_node option" where
  "fdt_build [End_ev] [n] = Some n"
| "fdt_build (End_ev # es) st = (case close_node st of None \<Rightarrow> None | Some st' \<Rightarrow> fdt_build es st')"
| "fdt_build (Begin_ev name # es) st = fdt_build es (Node name [] [] # st)"
| "fdt_build (Prop_ev name v # es) (Node n ps [] # st) = fdt_build es (Node n (ps @ [(name, v)]) [] # st)"
| "fdt_build _ _ = None"

definition fdt_read :: "mem \<Rightarrow> fdt_node option" where
  "fdt_read b = (case fdt_events b of None \<Rightarrow> None | Some es \<Rightarrow> fdt_build es [])"

primrec fdt_flatten :: "fdt_node \<Rightarrow> fdt_event list" where
  "fdt_flatten (Node name ps ks) = Begin_ev name # map (\<lambda>(n, v). Prop_ev n v) ps @ concat (map fdt_flatten ks) @ [End_ev]"

lemma build_props: "fdt_build (map (\<lambda>(n, v). Prop_ev n v) ps @ es) (Node name qs [] # st) = fdt_build es (Node name (qs @ ps) [] # st)"
  by (induction ps arbitrary: qs) auto

lemma build_flatten_append:
  "fdt_build (fdt_flatten t @ es) (p # st) = fdt_build es (Node (node_name p) (node_props p) (node_kids p @ [t]) # st)"
proof (induction t arbitrary: es p st)
  case (Node name ps ks)
  have "fdt_build (concat (map fdt_flatten ls) @ es') (q # st') = fdt_build es' (Node (node_name q) (node_props q) (node_kids q @ ls) # st')"
    if "set ls \<subseteq> set ks" for ls es' q st'
    using that by (induction ls arbitrary: q) (simp_all add: Node)
  from this [of ks] show ?case by (simp add: build_props)
qed

lemma build_flatten: "fdt_build (fdt_flatten t) [] = Some t"
proof (cases t)
  case (Node name ps ks)
  have "fdt_build (concat (map fdt_flatten ls) @ es') (q # st') = fdt_build es' (Node (node_name q) (node_props q) (node_kids q @ ls) # st')" for ls es' q st'
    by (induction ls arbitrary: q) (simp_all add: build_flatten_append)
  then show ?thesis using Node by (simp add: build_props)
qed

section \<open>Encoding\<close>

text \<open>
  The bytes of an event, where \<open>f\<close> gives the offset of a name in the strings block. A block of such bytes, ended by
  \<^verbatim>\<open>FDT_END\<close>, is read back as the events it encodes.
\<close>

definition pad4 :: "nat \<Rightarrow> u8 list" where
  "pad4 n = replicate ((4 - n mod 4) mod 4) 0"

definition event_bytes :: "(u8 list \<Rightarrow> nat) \<Rightarrow> fdt_event \<Rightarrow> u8 list" where
  "event_bytes f ev = (case ev of
     Begin_ev name \<Rightarrow> be_bytes32 FDT_BEGIN_NODE @ (name @ [0]) @ pad4 (length name + 1)
   | Prop_ev name v \<Rightarrow> be_bytes32 FDT_PROP @ be_bytes32 (of_nat (length v)) @ be_bytes32 (of_nat (f name)) @ v @ pad4 (length v)
   | End_ev \<Rightarrow> be_bytes32 FDT_END_NODE)"

definition event_ok :: "mem \<Rightarrow> nat \<Rightarrow> nat \<Rightarrow> (u8 list \<Rightarrow> nat) \<Rightarrow> fdt_event \<Rightarrow> bool" where
  "event_ok b strings ssize f ev = (case ev of
     Begin_ev name \<Rightarrow> 0 \<notin> set name
   | Prop_ev name v \<Rightarrow> length v < 2 ^ 32 \<and> f name < 2 ^ 32 \<and> mem_str b (strings + f name) (ssize - f name) = Some name
   | End_ev \<Rightarrow> True)"

lemma pad4_align: "4 dvd p \<Longrightarrow> p + (n + length (pad4 n)) = align4 (p + n)"
proof -
  assume "4 dvd p"
  then obtain k where k: "p = 4 * k" by blast
  obtain r where r: "n = 4 * (n div 4) + r" "r < 4" using that [of "n mod 4"] by simp
  then have "n mod 4 = r" by presburger
  moreover have "r = 0 \<or> r = 1 \<or> r = 2 \<or> r = 3" using r(2) by auto
  ultimately show ?thesis unfolding pad4_def align4_def k by (elim disjE; simp; presburger)
qed

lemma event_bytes_length: "4 dvd length (event_bytes f ev)"
proof -
  have "4 dvd n + length (pad4 n)" for n using pad4_align [of 0 n] by simp
  then have d: "4 dvd 4 * k + (n + length (pad4 n))" for k n by (meson dvd_add dvd_triv_left)
  show ?thesis
  proof (cases ev)
    case (Begin_ev name) then show ?thesis using d [of 1 "length name + 1"] by (simp add: event_bytes_def)
  next
    case (Prop_ev name v) then show ?thesis using d [of 3 "length v"] by (simp add: event_bytes_def)
  qed (simp add: event_bytes_def)
qed

lemma tokens_of_bytes:
  assumes "mbytes b p (length bs) = bs" "bs = concat (map (event_bytes f) es) @ be_bytes32 FDT_END" "p + length bs \<le> e" "4 dvd p"
    "\<forall>ev \<in> set es. event_ok b strings ssize f ev"
  shows "\<exists>ts. fdt_tokens b e p = Some ts \<and> option_list (map (fdt_event_of b strings ssize) ts) = Some es"
  using assms
proof (induction es arbitrary: p bs)
  case Nil
  then show ?case by (subst fdt_tokens.simps) (simp add: be32_mbytes)
next
  case (Cons ev es)
  define q where "q = p + length (event_bytes f ev)"
  define rest where "rest = concat (map (event_bytes f) es) @ be_bytes32 FDT_END"
  have bs: "bs = event_bytes f ev @ rest" using Cons.prems(2) by (simp add: rest_def)
  have m: "mbytes b p (length (event_bytes f ev)) = event_bytes f ev" "mbytes b q (length rest) = rest"
    using Cons.prems(1) unfolding bs mbytes_split q_def by auto
  have "4 dvd q" using Cons.prems(4) event_bytes_length by (simp add: q_def)
  moreover have e: "q + length rest \<le> e" using Cons.prems(3) by (simp add: bs q_def)
  ultimately obtain ts where ts: "fdt_tokens b e q = Some ts" "option_list (map (fdt_event_of b strings ssize) ts) = Some es"
    using Cons.IH [OF m(2) rest_def] Cons.prems(5) by auto
  show ?case
  proof (cases ev)
    case (Begin_ev name)
    have n: "cstring b (p + 4) name" "be32 b p = FDT_BEGIN_NODE"
      using m(1) Cons.prems(5) unfolding Begin_ev event_bytes_def fdt_event.case mbytes_split
      by (auto simp: be32_mbytes cstring_def event_ok_def mbytes_append mbytes_Cons)
    have q: "align4 (p + 4 + length name + 1) = q"
      using pad4_align [of "p + 4" "length name + 1"] Cons.prems(4) by (simp add: q_def Begin_ev event_bytes_def add.assoc)
    have l: "p + 4 + length name < q" using q align4_ge [of "p + 4 + length name + 1"] by linarith
    then have "mem_str b (p + 4) (e - (p + 4)) = Some name" using n e by (simp add: mem_str_Some)
    then show ?thesis using l e n(2) q ts by (subst fdt_tokens.simps) (simp add: fdt_event_of_def Begin_ev)
  next
    case (Prop_ev name v)
    have n: "be32 b p = FDT_PROP" "be32 b (p + 4) = of_nat (length v)" "be32 b (p + 8) = of_nat (f name)" "mbytes b (p + 12) (length v) = v"
      using m(1) unfolding Prop_ev event_bytes_def fdt_event.case mbytes_split by (simp_all add: be32_mbytes add.commute)
    have s: "length v < 2 ^ 32" "f name < 2 ^ 32" "mem_str b (strings + f name) (ssize - f name) = Some name"
      using Cons.prems(5) by (simp_all add: event_ok_def Prop_ev)
    then have u: "unat (be32 b (p + 4)) = length v" "unat (be32 b (p + 8)) = f name"
      unfolding n(2,3) by (simp_all add: unat_of_nat_small)
    have q: "align4 (p + 12 + length v) = q"
      using pad4_align [of "p + 12" "length v"] Cons.prems(4) by (simp add: q_def Prop_ev event_bytes_def add.assoc)
    have l: "p + 12 + length v \<le> q" using q align4_ge [of "p + 12 + length v"] by linarith
    then show ?thesis using l e n(1,4) u s(3) q ts by (subst fdt_tokens.simps) (simp add: fdt_event_of_def Prop_ev Let_def)
  next
    case End_ev
    have n: "be32 b p = FDT_END_NODE" "q = p + 4" using m(1) by (simp_all add: End_ev event_bytes_def be32_mbytes q_def)
    then show ?thesis using e ts by (subst fdt_tokens.simps) (simp add: fdt_event_of_def End_ev)
  qed
qed

section \<open>Loops over the structure block\<close>

text \<open>
  What a loop over the structure block has to do at each token (\<open>fdt_walker\<close>), and what follows: on a block that the
  reference reader accepts it visits exactly the properties of the block, in order, until a visit ends it.
\<close>

primrec fdt_walk :: "(nat \<Rightarrow> nat \<Rightarrow> nat \<Rightarrow> 's \<Rightarrow> ('r + 's) option) \<Rightarrow> nat \<Rightarrow> nat \<Rightarrow> fdt_token list \<Rightarrow> 's \<Rightarrow> ('r + 's) option" where
  "fdt_walk visit ssize base [] s = Some (Inr s)"
| "fdt_walk visit ssize base (t # ts) s = (case t of
     Tok_prop len nameoff pos \<Rightarrow>
       if ssize \<le> nameoff then fdt_walk visit ssize base ts s
       else (case visit len nameoff (base + pos) s of
           None \<Rightarrow> None
         | Some (Inl r) \<Rightarrow> Some (Inl r)
         | Some (Inr s') \<Rightarrow> fdt_walk visit ssize base ts s')
   | _ \<Rightarrow> fdt_walk visit ssize base ts s)"

locale fdt_walker =
  fixes m :: mem and ssize :: nat and e :: nat
    and visit :: "nat \<Rightarrow> nat \<Rightarrow> nat \<Rightarrow> 's \<Rightarrow> ('r + 's) option"
    and loop :: "nat \<Rightarrow> 's \<Rightarrow> ('r + 's) option"
  assumes at_end: "p + 4 \<le> e \<Longrightarrow> be32 m p = FDT_END \<Longrightarrow> loop p s = Some (Inr s)"
    and at_begin: "p + 4 \<le> e \<Longrightarrow> be32 m p = FDT_BEGIN_NODE \<Longrightarrow> loop p s = loop (align4 (p + 4 + strnlen m (p + 4) (e - (p + 4)) + 1)) s"
    and at_skip: "p + 4 \<le> e \<Longrightarrow> be32 m p = FDT_END_NODE \<or> be32 m p = FDT_NOP \<Longrightarrow> loop p s = loop (p + 4) s"
    and at_prop: "p + 12 \<le> e \<Longrightarrow> be32 m p = FDT_PROP \<Longrightarrow> len = unat (be32 m (p + 4)) \<Longrightarrow> off = unat (be32 m (p + 8)) \<Longrightarrow>
      loop p s = (if ssize \<le> off then loop (align4 (p + 12 + len)) s
        else case visit len off (p + 12) s of None \<Rightarrow> None | Some (Inl r) \<Rightarrow> Some (Inl r) | Some (Inr s') \<Rightarrow> loop (align4 (p + 12 + len)) s')"
begin

lemma loop_walks:
  assumes "fdt_tokens (\<lambda>o'. m (base + o')) eo po = Some ts" "4 dvd base" "e = base + eo"
  shows "loop (base + po) s = fdt_walk visit ssize base ts s"
  using assms
proof (induction "eo - po" arbitrary: po ts s rule: less_induct)
  case less
  let ?p = "base + po"
  note c = less.prems(1) [unfolded fdt_tokens.simps [of _ eo po] be32_shift]
  have e: "?p + 4 \<le> e" "po < eo" using c less.prems(3) by (auto split: if_splits)
  have al: "align4 (base + q) = base + align4 q" for q using less.prems(2) by (rule align4_add)
  consider "be32 m ?p = FDT_BEGIN_NODE" | "be32 m ?p = FDT_END_NODE" | "be32 m ?p = FDT_PROP"
    | "be32 m ?p = FDT_NOP" | "be32 m ?p = FDT_END" using c by (auto split: if_splits)
  then show ?case
  proof cases
    case 1
    then obtain name ts' where n: "mem_str (\<lambda>o'. m (base + o')) (po + 4) (eo - (po + 4)) = Some name" "ts = Tok_begin name # ts'"
      and t: "fdt_tokens (\<lambda>o'. m (base + o')) eo (align4 (po + 4 + length name + 1)) = Some ts'"
      using c by (auto split: if_splits option.splits)
    have "strnlen m (?p + 4) (e - (?p + 4)) = length name"
      using n(1) less.prems(3) by (intro strnlen_cstring) (simp_all add: mem_str_Some add.assoc)
    then have "loop ?p s = loop (base + align4 (po + 4 + length name + 1)) s"
      using at_begin [OF e(1) 1] al [of "po + 4 + length name + 1"] by (simp add: ac_simps)
    then show ?thesis using less.hyps [OF _ t less.prems(2,3)] align4_progress [of po "po + 4 + length name + 1" eo] e(2) n(2) by simp
  next
    case 3
    define len off where "len = unat (be32 m (?p + 4))" and "off = unat (be32 m (?p + 8))"
    then obtain ts' where n: "ts = Tok_prop len off (po + 12) # ts'" "po + 12 + len \<le> eo"
      and t: "fdt_tokens (\<lambda>o'. m (base + o')) eo (align4 (po + 12 + len)) = Some ts'"
      using c 3 by (auto simp: Let_def add.assoc split: if_splits)
    have "loop (base + align4 (po + 12 + len)) s' = fdt_walk visit ssize base ts' s'" for s'
      using less.hyps [OF _ t less.prems(2,3)] align4_progress [of po "po + 12 + len" eo] e(2) by simp
    then show ?thesis
      using at_prop [of ?p len off s] 3 al [of "po + 12 + len"] n less.prems(3) len_def off_def by (simp add: add.assoc split: option.split sum.split)
  next
    case 5
    then show ?thesis using c e at_end by (auto split: if_splits)
  next
    case 2
    then obtain ts' where n: "ts = Tok_end # ts'" and t: "fdt_tokens (\<lambda>o'. m (base + o')) eo (po + 4) = Some ts'"
      using c by (auto split: if_splits)
    then show ?thesis using less.hyps [OF _ t less.prems(2,3)] at_skip [OF e(1)] 2 e(2) by (simp add: add.assoc)
  next
    case 4
    then have t: "fdt_tokens (\<lambda>o'. m (base + o')) eo (po + 4) = Some ts" using c by (auto split: if_splits)
    then show ?thesis using less.hyps [OF _ t less.prems(2,3)] at_skip [OF e(1)] 4 e(2) by (simp add: add.assoc)
  qed
qed

end

end
