(* ===== verification/Riscv_Features.thy ===== *)
theory Riscv_Features
  imports Fdt_Format
begin

text \<open>
  \<^verbatim>\<open>src/arch/riscv64/riscv_features.c\<close>: the processor features and the timebase frequency that the hypervisor takes
  from the device tree of the host. The loops that stop only at the terminator of a string are partial functions; the theorem
  at the end says that on a tree the reference reader accepts all of them return, and what is detected.
\<close>

section \<open>Strings\<close>

function stringlist_loop :: "mem \<Rightarrow> nat \<Rightarrow> nat \<Rightarrow> u8 list \<Rightarrow> nat \<Rightarrow> bool" where
  "stringlist_loop m list len needle off =
     (if off < len then
        let s = list + off; slen = strnlen m s (len - off) in
        if slen = length needle \<and> mbytes m s (length needle) = needle then True
        else stringlist_loop m list len needle (off + slen + 1)
      else False)"
  by pat_completeness auto
termination by (relation "measure (\<lambda>(m, list, len, needle, off). len - off)") auto

declare stringlist_loop.simps [simp del]

definition stringlist_contains :: "mem \<Rightarrow> nat \<Rightarrow> nat \<Rightarrow> u8 list \<Rightarrow> bool" where
  "stringlist_contains m list len needle = stringlist_loop m list len needle 0"

partial_function (option) isa_letter_loop :: "mem \<Rightarrow> nat \<Rightarrow> u8 \<Rightarrow> bool option" where
  "isa_letter_loop m p ext =
     (if m p \<noteq> 0 \<and> m p \<noteq> of_char (CHR ''_'') then (if m p = ext then Some True else isa_letter_loop m (Suc p) ext)
      else Some False)"

definition isa_single_letter_has :: "mem \<Rightarrow> nat \<Rightarrow> u8 \<Rightarrow> bool option" where
  "isa_single_letter_has m isa ext =
     isa_letter_loop m (if strncmp_eq m isa (bytes ''rv32'') \<or> strncmp_eq m isa (bytes ''rv64'') then isa + 4 else isa) ext"

partial_function (option) isa_word_loop :: "mem \<Rightarrow> nat \<Rightarrow> u8 list \<Rightarrow> nat \<Rightarrow> bool option" where
  "isa_word_loop m isa word p =
     (if m p = 0 then Some False
      else if (p = isa \<or> m (p - 1) = of_char (CHR ''_'')) \<and> strncmp_eq m p word \<and>
              (m (p + length word) = 0 \<or> m (p + length word) = of_char (CHR ''_''))
      then Some True
      else isa_word_loop m isa word (Suc p))"

definition isa_has_word :: "mem \<Rightarrow> nat \<Rightarrow> u8 list \<Rightarrow> bool option" where
  "isa_has_word m isa word = isa_word_loop m isa word isa"

section \<open>Features\<close>

record riscv_features =
  g_has_svvptc :: bool
  g_has_fpu :: bool
  g_has_vector :: bool
  g_timebase_frequency :: u32

definition no_features :: riscv_features where
  "no_features = \<lparr>g_has_svvptc = False, g_has_fpu = False, g_has_vector = False, g_timebase_frequency = 10000000\<rparr>"

definition parse_isa_string :: "mem \<Rightarrow> nat \<Rightarrow> riscv_features \<Rightarrow> riscv_features option" where
  "parse_isa_string m isa s = do {
     w \<leftarrow> isa_has_word m isa (bytes ''svvptc'');
     let s1 = (if w then s\<lparr>g_has_svvptc := True\<rparr> else s);
     f \<leftarrow> isa_single_letter_has m isa (of_char (CHR ''f''));
     fd \<leftarrow> (if f then Some True else isa_single_letter_has m isa (of_char (CHR ''d'')));
     let s2 = (if fd then s1\<lparr>g_has_fpu := True\<rparr> else s1);
     v \<leftarrow> isa_single_letter_has m isa (of_char (CHR ''v''));
     Some (if v then s2\<lparr>g_has_vector := True\<rparr> else s2) }"

definition parse_isa_extensions :: "mem \<Rightarrow> nat \<Rightarrow> u32 \<Rightarrow> riscv_features \<Rightarrow> riscv_features" where
  "parse_isa_extensions m exts len s =
     (if exts = 0 \<or> sint len \<le> 0 then s
      else
        let has = (\<lambda>w. stringlist_contains m exts (unat len) (bytes w));
            s1 = (if has ''svvptc'' then s\<lparr>g_has_svvptc := True\<rparr> else s);
            s2 = (if has ''f'' \<or> has ''d'' then s1\<lparr>g_has_fpu := True\<rparr> else s1)
        in if has ''v'' \<or> has ''zve64d'' \<or> has ''zve64f'' \<or> has ''zve64x'' then s2\<lparr>g_has_vector := True\<rparr> else s2)"

definition features_prop :: "mem \<Rightarrow> nat \<Rightarrow> u32 \<Rightarrow> nat \<Rightarrow> riscv_features \<Rightarrow> riscv_features option" where
  "features_prop m name len value s =
     (if strcmp_eq m name (bytes ''timebase-frequency'') \<and> 4 \<le> len then Some (s\<lparr>g_timebase_frequency := be32 m value\<rparr>)
      else if strcmp_eq m name (bytes ''riscv,isa'') then parse_isa_string m value s
      else if strcmp_eq m name (bytes ''riscv,isa-extensions'') then Some (parse_isa_extensions m value len s)
      else Some s)"

function features_loop :: "mem \<Rightarrow> nat \<Rightarrow> u32 \<Rightarrow> nat \<Rightarrow> nat \<Rightarrow> riscv_features \<Rightarrow> riscv_features option" where
  "features_loop m strings strings_size struct_end p s =
     (if struct_end < p + 4 then Some s
      else let token = be32 m p; structp = p + 4 in
        if token = FDT_BEGIN_NODE then
          features_loop m strings strings_size struct_end (align4 (structp + strnlen m structp (struct_end - structp) + 1)) s
        else if token = FDT_PROP then
          (if struct_end < structp + 8 then Some s
           else let len = be32 m structp; nameoff = be32 m (structp + 4); value = structp + 8; nxt = align4 (value + unat len) in
             if strings_size \<le> nameoff then features_loop m strings strings_size struct_end nxt s
             else (case features_prop m (strings + unat nameoff) len value s of
                 None \<Rightarrow> None
               | Some s' \<Rightarrow> features_loop m strings strings_size struct_end nxt s'))
        else if token = FDT_END then Some s
        else if token = FDT_END_NODE \<or> token = FDT_NOP then features_loop m strings strings_size struct_end structp s
        else Some s)"
  by pat_completeness auto
termination
  by (relation "measure (\<lambda>(m, strings, ssize, e, p, s). e - p)") (auto intro!: align4_progress)

declare features_loop.simps [simp del]

definition riscv_features_init :: "mem \<Rightarrow> nat \<Rightarrow> riscv_features \<Rightarrow> riscv_features option" where
  "riscv_features_init m fdt s =
     (if fdt = 0 \<or> be32 m fdt \<noteq> FDT_MAGIC then Some s
      else let structp = fdt + unat (be32 m (fdt + 8)); struct_end = structp + unat (be32 m (fdt + 36));
               strings = fdt + unat (be32 m (fdt + 12)); strings_size = be32 m (fdt + 32)
        in features_loop m strings strings_size struct_end structp s)"

interpretation features: fdt_walker m "unat strings_size" struct_end
  "\<lambda>len off pos s. map_option Inr (features_prop m (strings + off) (of_nat len) pos s) :: (unit + riscv_features) option"
  "\<lambda>p s. map_option Inr (features_loop m strings strings_size struct_end p s)"
  for m strings strings_size struct_end
proof (unfold_locales, goal_cases)
  case (4 p len off s)
  then show ?case
    by (subst features_loop.simps) (simp add: Let_def word_le_nat_alt add.assoc split: option.split)
qed (subst features_loop.simps, auto simp: Let_def)+

section \<open>What is detected\<close>

text \<open>The extensions named by an ISA string and by a list of extensions, as sets of words.\<close>

definition isa_letters :: "u8 list \<Rightarrow> u8 list" where
  "isa_letters s = takeWhile (\<lambda>c. c \<noteq> of_char (CHR ''_''))
     (if take 4 s = bytes ''rv32'' \<or> take 4 s = bytes ''rv64'' then drop 4 s else s)"

lemma isa_letter_loop_spec:
  "cstring m p s \<Longrightarrow> isa_letter_loop m p c = Some (c \<in> set (takeWhile (\<lambda>c. c \<noteq> of_char (CHR ''_'')) s))"
proof (induction s arbitrary: p)
  case Nil then show ?case by (subst isa_letter_loop.simps) simp
next
  case (Cons x s) then show ?case by (subst isa_letter_loop.simps) auto
qed

lemma strncmp_take: "cstring m p s \<Longrightarrow> 0 \<notin> set w \<Longrightarrow> strncmp_eq m p w \<longleftrightarrow> take (length w) s = w"
proof (induction w arbitrary: p s)
  case (Cons c w) then show ?case using Cons.IH [of "Suc p" "tl s"] by (cases s) (auto simp: strncmp_eq_def mbytes_Cons)
qed (simp add: strncmp_eq_def)

lemma isa_single_letter_spec:
  assumes "cstring m isa s"
  shows "isa_single_letter_has m isa c = Some (c \<in> set (isa_letters s))"
proof -
  have t: "strncmp_eq m isa w \<longleftrightarrow> take 4 s = w" if "length w = 4" "0 \<notin> set w" for w
    using strncmp_take [OF assms that(2)] that(1) by simp
  have r: "strncmp_eq m isa (bytes ''rv32'') \<longleftrightarrow> take 4 s = bytes ''rv32''" "strncmp_eq m isa (bytes ''rv64'') \<longleftrightarrow> take 4 s = bytes ''rv64''"
    by (rule t; simp)+
  have "cstring m (isa + 4) (drop 4 s)" if "take 4 s = w" "length w = 4" for w
    using that by (intro cstring_drop [OF assms]) auto
  from this [of "bytes ''rv32''"] this [of "bytes ''rv64''"] show ?thesis
    unfolding isa_single_letter_has_def isa_letters_def r
    by (cases "take 4 s = bytes ''rv32'' \<or> take 4 s = bytes ''rv64''") (auto simp only: length_map list.size simp_thms if_True if_False
        isa_letter_loop_spec [OF assms] isa_letter_loop_spec [of m "isa + 4"])
qed

lemma isa_word_loop_spec:
  assumes w: "w \<noteq> []" "0 \<notin> set w" "of_char (CHR ''_'') \<notin> set w"
  shows "cstring m p s \<Longrightarrow> isa \<le> p \<Longrightarrow>
    isa_word_loop m isa w p = Some (w \<in> set ((if p = isa \<or> m (p - 1) = of_char (CHR ''_'') then id else tl) (sep_fields (of_char (CHR ''_'')) s)))"
proof (induction s arbitrary: p)
  case Nil then show ?case using w by (subst isa_word_loop.simps) simp
next
  case (Cons x s)
  have f: "strncmp_eq m p w \<and> (m (p + length w) = 0 \<or> m (p + length w) = of_char (CHR ''_'')) \<longleftrightarrow>
      takeWhile (\<lambda>c. c \<noteq> of_char (CHR ''_'')) (x # s) = w"
    by (rule cstring_field) (use Cons.prems w in simp_all)
  have "isa_word_loop m isa w (Suc p) = Some (w \<in> set ((if x = of_char (CHR ''_'') then id else tl) (sep_fields (of_char (CHR ''_'')) s)))"
    using Cons by simp
  then show ?case using Cons.prems w(1) f by (subst isa_word_loop.simps) (auto simp: sep_fields_Cons simp del: sep_fields.simps(2) split: if_splits)
qed

lemma isa_has_word_spec:
  assumes "cstring m isa s"
  shows "isa_has_word m isa (bytes ''svvptc'') = Some (bytes ''svvptc'' \<in> set (sep_fields (of_char (CHR ''_'')) s))"
  unfolding isa_has_word_def by (subst isa_word_loop_spec [OF _ _ _ assms]) simp_all

lemma stringlist_loop_spec:
  assumes "needle \<noteq> []" "0 \<notin> set needle"
  shows "stringlist_loop m list len needle off \<longleftrightarrow> needle \<in> set (sep_fields 0 (mbytes m (list + off) (len - off)))"
proof (induction "len - off" arbitrary: off rule: less_induct)
  case less
  show ?case
  proof (cases "off < len")
    case False then show ?thesis using assms by (subst stringlist_loop.simps) simp
  next
    case True
    let ?v = "mbytes m (list + off) (len - off)" and ?w = "takeWhile (\<lambda>c. c \<noteq> 0) (mbytes m (list + off) (len - off))"
    have l: "strnlen m (list + off) (len - off) = length ?w" by (rule strnlen_takeWhile)
    have wl: "length ?w \<le> len - off" using length_takeWhile_le [of _ ?v] by (simp only: mbytes_length)
    then have "mbytes m (list + off) (length ?w) = ?w" by (metis takeWhile_eq_take take_mbytes)
    then have here: "length ?w = length needle \<and> mbytes m (list + off) (length needle) = needle \<longleftrightarrow> ?w = needle" by metis
    have rest: "needle \<in> set (tl (sep_fields 0 ?v)) \<longleftrightarrow> stringlist_loop m list len needle (off + length ?w + 1)"
    proof (cases "length ?w < len - off")
      case lt: True
      then have "drop (length ?w) ?v = m (list + off + length ?w) # mbytes m (list + (off + length ?w + 1)) (len - (off + length ?w + 1))"
        using mbytes_Cons [of m "list + off + length ?w" "len - off - length ?w - 1"] by (simp add: drop_mbytes add.assoc Suc_diff_Suc)
      then show ?thesis using less [of "off + length ?w + 1"] lt by (simp add: tl_sep_fields)
    next
      case False
      then show ?thesis using wl True by (subst stringlist_loop.simps) (simp add: tl_sep_fields)
    qed
    have "needle \<in> set (sep_fields 0 ?v) \<longleftrightarrow> needle = ?w \<or> needle \<in> set (tl (sep_fields 0 ?v))" by (subst sep_fields_eq) auto
    then show ?thesis using True here rest by (subst stringlist_loop.simps) (auto simp: Let_def l)
  qed
qed

definition isa_words :: "u8 list \<Rightarrow> u8 list list" where
  "isa_words s = sep_fields (of_char (CHR ''_'')) s"

text \<open>What one property of the tree contributes. The ISA string is the value up to its terminator.\<close>

definition isa_string :: "u8 list \<Rightarrow> u8 list" where
  "isa_string v = takeWhile (\<lambda>c. c \<noteq> 0) v"

definition prop_svvptc :: "fdt_event \<Rightarrow> bool" where
  "prop_svvptc ev = (case ev of Prop_ev name v \<Rightarrow>
     name = bytes ''riscv,isa'' \<and> bytes ''svvptc'' \<in> set (isa_words (isa_string v)) \<or>
     name = bytes ''riscv,isa-extensions'' \<and> bytes ''svvptc'' \<in> set (sep_fields 0 v) | _ \<Rightarrow> False)"

definition prop_fpu :: "fdt_event \<Rightarrow> bool" where
  "prop_fpu ev = (case ev of Prop_ev name v \<Rightarrow>
     name = bytes ''riscv,isa'' \<and> (\<exists>c \<in> set ''fd''. of_char c \<in> set (isa_letters (isa_string v))) \<or>
     name = bytes ''riscv,isa-extensions'' \<and> (\<exists>w \<in> {''f'', ''d''}. bytes w \<in> set (sep_fields 0 v)) | _ \<Rightarrow> False)"

definition prop_vector :: "fdt_event \<Rightarrow> bool" where
  "prop_vector ev = (case ev of Prop_ev name v \<Rightarrow>
     name = bytes ''riscv,isa'' \<and> of_char (CHR ''v'') \<in> set (isa_letters (isa_string v)) \<or>
     name = bytes ''riscv,isa-extensions'' \<and> (\<exists>w \<in> {''v'', ''zve64d'', ''zve64f'', ''zve64x''}. bytes w \<in> set (sep_fields 0 v)) | _ \<Rightarrow> False)"

definition be_value :: "u8 list \<Rightarrow> u32" where
  "be_value v = be32 (\<lambda>i. v ! i) 0"

definition prop_timebase :: "fdt_event \<Rightarrow> u32 \<Rightarrow> u32" where
  "prop_timebase ev t = (case ev of Prop_ev name v \<Rightarrow> if name = bytes ''timebase-frequency'' \<and> 4 \<le> length v then be_value v else t | _ \<Rightarrow> t)"

definition event_features :: "fdt_event \<Rightarrow> riscv_features \<Rightarrow> riscv_features" where
  "event_features ev s = \<lparr>g_has_svvptc = g_has_svvptc s \<or> prop_svvptc ev, g_has_fpu = g_has_fpu s \<or> prop_fpu ev,
     g_has_vector = g_has_vector s \<or> prop_vector ev, g_timebase_frequency = prop_timebase ev (g_timebase_frequency s)\<rparr>"

lemma event_features_node [simp]: "event_features (Begin_ev name) s = s" "event_features End_ev s = s"
  by (simp_all add: event_features_def prop_svvptc_def prop_fpu_def prop_vector_def prop_timebase_def)

text \<open>ISA strings have a terminator, values are shorter than 2 GiB.\<close>

definition isa_props_ok :: "fdt_event list \<Rightarrow> bool" where
  "isa_props_ok es = list_all (\<lambda>ev. case ev of
     Prop_ev name v \<Rightarrow> length v < 2 ^ 31 \<and> (name = bytes ''riscv,isa'' \<longrightarrow> 0 \<in> set v) | _ \<Rightarrow> True) es"

lemma parse_isa_string_spec:
  assumes "cstring m isa s"
  shows "parse_isa_string m isa f = Some (f\<lparr>g_has_svvptc := g_has_svvptc f \<or> bytes ''svvptc'' \<in> set (isa_words s),
     g_has_fpu := g_has_fpu f \<or> (\<exists>c \<in> set ''fd''. of_char c \<in> set (isa_letters s)),
     g_has_vector := g_has_vector f \<or> of_char (CHR ''v'') \<in> set (isa_letters s)\<rparr>)"
  unfolding parse_isa_string_def isa_has_word_spec [OF assms] isa_single_letter_spec [OF assms]
  by (simp add: isa_words_def Let_def)

lemma parse_isa_extensions_spec:
  assumes "mbytes m p (length v) = v" "length v < 2 ^ 31" "p \<noteq> 0"
  shows "parse_isa_extensions m p (of_nat (length v)) f = f\<lparr>g_has_svvptc := g_has_svvptc f \<or> bytes ''svvptc'' \<in> set (sep_fields 0 v),
     g_has_fpu := g_has_fpu f \<or> (\<exists>w \<in> {''f'', ''d''}. bytes w \<in> set (sep_fields 0 v)),
     g_has_vector := g_has_vector f \<or> (\<exists>w \<in> {''v'', ''zve64d'', ''zve64f'', ''zve64x''}. bytes w \<in> set (sep_fields 0 v))\<rparr>"
proof -
  have u: "unat (of_nat (length v) :: u32) = length v" using assms(2) by (simp add: unat_of_nat_small)
  have s: "sint (of_nat (length v) :: u32) = int (length v)" using assms(2) by (rule sint_of_nat_small)
  have c: "stringlist_contains m p (length v) (bytes w) \<longleftrightarrow> bytes w \<in> set (sep_fields 0 v)" if "w \<noteq> []" "CHR 0x00 \<notin> set w" for w
    unfolding stringlist_contains_def using that assms(1) by (subst stringlist_loop_spec) auto
  have cs: "\<forall>w \<in> set [''svvptc'', ''f'', ''d'', ''v'', ''zve64d'', ''zve64f'', ''zve64x''].
      stringlist_contains m p (length v) (bytes w) \<longleftrightarrow> bytes w \<in> set (sep_fields 0 v)"
    by (intro ballI c) auto
  show ?thesis
  proof (cases "v = []")
    case True then show ?thesis by (simp add: parse_isa_extensions_def s)
  next
    case False
    then show ?thesis using assms(3) cs unfolding parse_isa_extensions_def s u Let_def by simp
  qed
qed

lemma features_prop_spec:
  assumes "cstring m name nm" "mbytes m p (length v) = v" "length v < 2 ^ 31" "nm = bytes ''riscv,isa'' \<longrightarrow> 0 \<in> set v" "p \<noteq> 0"
  shows "features_prop m name (of_nat (length v)) p s = Some (event_features (Prop_ev nm v) s)"
proof -
  note n = strcmp_eq_cstring [OF assms(1), of "bytes ''timebase-frequency''"] strcmp_eq_cstring [OF assms(1), of "bytes ''riscv,isa''"]
    strcmp_eq_cstring [OF assms(1), of "bytes ''riscv,isa-extensions''"]
  have four: "4 \<le> (of_nat (length v) :: u32) \<longleftrightarrow> 4 \<le> length v"
    using assms(3) by (simp add: word_le_nat_alt unat_of_nat_small)
  have be: "be32 m p = be_value v" if "4 \<le> length v"
  proof -
    have "m (p + i) = v ! i" if "i < length v" for i using assms(2) that by (simp add: mbytes_eq_iff)
    from this [of 0] this [of 1] this [of 2] this [of 3] show ?thesis using that by (cases "v = []") (simp_all add: be_value_def be32_def numeral_2_eq_2)
  qed
  consider "nm = bytes ''timebase-frequency''" | "nm = bytes ''riscv,isa''" | "nm = bytes ''riscv,isa-extensions''"
    | "nm \<notin> {bytes ''timebase-frequency'', bytes ''riscv,isa'', bytes ''riscv,isa-extensions''}" by blast
  then show ?thesis
  proof cases
    case 1
    then show ?thesis using n be
      by (simp add: features_prop_def four event_features_def prop_svvptc_def prop_fpu_def prop_vector_def prop_timebase_def)
  next
    case 2
    then have "cstring m p (isa_string v)" unfolding isa_string_def using assms(2,4) by (auto intro: cstring_takeWhile)
    then show ?thesis using n 2
      by (simp add: features_prop_def parse_isa_string_spec event_features_def prop_svvptc_def prop_fpu_def prop_vector_def prop_timebase_def)
  next
    case 3
    then show ?thesis using n parse_isa_extensions_spec [OF assms(2,3,5)]
      by (simp add: features_prop_def event_features_def prop_svvptc_def prop_fpu_def prop_vector_def prop_timebase_def)
  next
    case 4
    then show ?thesis using n
      by (simp add: features_prop_def event_features_def prop_svvptc_def prop_fpu_def prop_vector_def prop_timebase_def)
  qed
qed

lemma features_walk:
  assumes "option_list (map (fdt_event_of (\<lambda>o'. m (base + o')) strings ssize) ts) = Some es" "isa_props_ok es" "base \<noteq> 0"
  shows "fdt_walk (\<lambda>len off pos s. map_option Inr (features_prop m (base + strings + off) (of_nat len) pos s)) ssize base ts s =
    (Some (Inr (fold event_features es s)) :: (unit + riscv_features) option)"
  using assms
proof (induction ts arbitrary: es s)
  case (Cons t ts)
  then obtain ev es' where e: "fdt_event_of (\<lambda>o'. m (base + o')) strings ssize t = Some ev" "es = ev # es'"
    "option_list (map (fdt_event_of (\<lambda>o'. m (base + o')) strings ssize) ts) = Some es'"
    by (auto split: option.splits)
  have ok: "isa_props_ok es'" using Cons.prems(2) e(2) by (simp add: isa_props_ok_def)
  show ?case
  proof (cases t)
    case (Tok_prop len off pos)
    then obtain nm where nm: "cstring m (base + strings + off) nm" "off < ssize" "ev = Prop_ev nm (mbytes m (base + pos) len)"
      using e(1) by (auto simp: fdt_event_of_def mem_str_Some mbytes_shift add.assoc)
    have "features_prop m (base + strings + off) (of_nat len) (base + pos) s = Some (event_features ev s)"
      using features_prop_spec [OF nm(1), of "base + pos" "mbytes m (base + pos) len"] Cons.prems(2,3) nm(3) e(2)
      by (simp add: isa_props_ok_def)
    then show ?thesis using Cons.IH [OF e(3) ok Cons.prems(3)] nm(2) e(2) Tok_prop by simp
  qed (use Cons.IH [OF e(3) ok Cons.prems(3)] e in \<open>auto simp: fdt_event_of_def\<close>)
qed simp

lemma fold_event_features:
  "fold event_features es s = \<lparr>g_has_svvptc = g_has_svvptc s \<or> (\<exists>ev \<in> set es. prop_svvptc ev),
     g_has_fpu = g_has_fpu s \<or> (\<exists>ev \<in> set es. prop_fpu ev), g_has_vector = g_has_vector s \<or> (\<exists>ev \<in> set es. prop_vector ev),
     g_timebase_frequency = fold prop_timebase es (g_timebase_frequency s)\<rparr>"
  by (induction es arbitrary: s) (auto simp: event_features_def)

text \<open>
  C0. Detection of the features of the processor: on a host device tree that the reference reader reads as the events \<open>es\<close>,
  the hypervisor's own loop over the blob returns and reports exactly what the tree says. An extension is present when some
  \<^verbatim>\<open>riscv,isa\<close> string names it (floating point and vectors as a letter before the first underscore, behind \<^verbatim>\<open>rv32\<close> or
  \<^verbatim>\<open>rv64\<close>; \<^verbatim>\<open>svvptc\<close> as a word between underscores) or some \<^verbatim>\<open>riscv,isa-extensions\<close> list contains it, and the
  timebase frequency is that of the last \<^verbatim>\<open>timebase-frequency\<close> property of four bytes or more.
\<close>

theorem riscv_features_detected:
  assumes "fdt_events (\<lambda>o'. m (fdt + o')) = Some es" "4 dvd fdt" "fdt \<noteq> 0" "isa_props_ok es"
  shows "riscv_features_init m fdt s = Some \<lparr>g_has_svvptc = g_has_svvptc s \<or> (\<exists>ev \<in> set es. prop_svvptc ev),
     g_has_fpu = g_has_fpu s \<or> (\<exists>ev \<in> set es. prop_fpu ev), g_has_vector = g_has_vector s \<or> (\<exists>ev \<in> set es. prop_vector ev),
     g_timebase_frequency = fold prop_timebase es (g_timebase_frequency s)\<rparr>"
proof -
  let ?st = "unat (be32 m (fdt + 8))" and ?sz = "unat (be32 m (fdt + 36))" and ?str = "unat (be32 m (fdt + 12))" and ?ss = "be32 m (fdt + 32)"
  obtain ts where t: "fdt_tokens (\<lambda>o'. m (fdt + o')) (?st + ?sz) ?st = Some ts"
      "option_list (map (fdt_event_of (\<lambda>o'. m (fdt + o')) ?str (unat ?ss)) ts) = Some es" "be32 m fdt = FDT_MAGIC"
    using assms(1) by (auto simp: fdt_events_def Let_def split: if_splits option.splits)
  have "map_option Inr (features_loop m (fdt + ?str) ?ss (fdt + ?st + ?sz) (fdt + ?st) s) = (Some (Inr (fold event_features es s)) :: (unit + riscv_features) option)"
    using features.loop_walks [OF t(1) assms(2) refl, where strings = "fdt + ?str" and strings_size = ?ss and s = s] features_walk [OF t(2) assms(4,3)]
    by (simp add: add.assoc)
  then show ?thesis using assms(3) t(3) by (simp add: riscv_features_init_def Let_def fold_event_features)
qed

text \<open>A tree with one ISA string, placed at address 64.\<close>

definition isa_blob :: mem where
  "isa_blob = (let prop = be_bytes32 3 @ be_bytes32 18 @ be_bytes32 0 @ bytes ''rv64imafdc_svvptc'' @ [0, 0, 0];
      block = be_bytes32 1 @ [0, 0, 0, 0] @ prop @ be_bytes32 2 @ be_bytes32 9;
      header = concat (map be_bytes32 [0xd00dfeed, 98, 40, 88, 40, 17, 16, 0, 10, 48])
    in mwrite (\<lambda>_. 0) 64 (header @ block @ bytes ''riscv,isa'' @ [0]))"

lemma isa_blob_events:
  "fdt_events (\<lambda>o'. isa_blob (64 + o')) = Some [Begin_ev [], Prop_ev (bytes ''riscv,isa'') (bytes ''rv64imafdc_svvptc'' @ [0]), End_ev]"
  by code_simp

theorem riscv_features_detected_witness:
  "riscv_features_init isa_blob 64 no_features = Some \<lparr>g_has_svvptc = True, g_has_fpu = True, g_has_vector = False, g_timebase_frequency = 10000000\<rparr>"
proof -
  let ?isa = "Prop_ev (bytes ''riscv,isa'') (bytes ''rv64imafdc_svvptc'' @ [0])"
  have "isa_props_ok [Begin_ev [], ?isa, End_ev]" by (simp add: isa_props_ok_def)
  moreover have "prop_svvptc ?isa" "prop_fpu ?isa" "\<not> prop_vector ?isa" "prop_timebase ?isa 10000000 = 10000000"
    by code_simp+
  ultimately show ?thesis
    using riscv_features_detected [OF isa_blob_events, of no_features]
    by (simp add: no_features_def prop_svvptc_def [of "Begin_ev _"] prop_svvptc_def [of End_ev] prop_fpu_def [of "Begin_ev _"] prop_fpu_def [of End_ev]
      prop_vector_def [of "Begin_ev _"] prop_vector_def [of End_ev] prop_timebase_def [of "Begin_ev _"] prop_timebase_def [of End_ev])
qed

end
