(* ===== verification/Riscv_Guest_Cfg.thy ===== *)
theory Riscv_Guest_Cfg
  imports Fdt_Format
begin

text \<open>
  The configuration of the guest from the boot arguments of the host (\<^verbatim>\<open>src/arch/riscv64/guest_dtb.c\<close>, first half):
  \<^verbatim>\<open>find_bootargs\<close> looks for the arguments in the host's device tree, \<^verbatim>\<open>parse_bootarg_u64\<close> for a key in them, and
  \<^verbatim>\<open>riscv_guest_config_init\<close> sets the seven values of the configuration. The loops over the argument string are partial
  functions, \<open>None\<close> when the string has no terminator.
\<close>

section \<open>Numbers and arguments\<close>

definition num_digit :: "u64 \<Rightarrow> u8 \<Rightarrow> u64 option" where
  "num_digit base c =
     (if of_char (CHR ''0'') \<le> c \<and> c \<le> of_char (CHR ''9'') then Some (ucast c - 48)
      else if base = 16 \<and> of_char (CHR ''a'') \<le> c \<and> c \<le> of_char (CHR ''f'') then Some (ucast c - 97 + 10)
      else if base = 16 \<and> of_char (CHR ''A'') \<le> c \<and> c \<le> of_char (CHR ''F'') then Some (ucast c - 65 + 10)
      else None)"

partial_function (option) num_loop :: "mem \<Rightarrow> u64 \<Rightarrow> nat \<Rightarrow> u64 \<Rightarrow> u64 option option" where
  "num_loop m base s v =
     (if m s \<noteq> 0 \<and> m s \<noteq> of_char (CHR '' '') then
        (case num_digit base (m s) of
           None \<Rightarrow> Some None
         | Some digit \<Rightarrow> if base \<le> digit then Some None else num_loop m base (Suc s) (v * base + digit))
      else Some (Some v))"

definition parse_num :: "mem \<Rightarrow> nat \<Rightarrow> u64 option option" where
  "parse_num m s =
     (let hex = m s = of_char (CHR ''0'') \<and> (m (s + 1) = of_char (CHR ''x'') \<or> m (s + 1) = of_char (CHR ''X''));
          base = (if hex then 16 else 10);
          s' = (if hex then s + 2 else s)
      in if m s' = 0 then Some None else num_loop m base s' 0)"

partial_function (option) skip_spaces :: "mem \<Rightarrow> nat \<Rightarrow> nat option" where
  "skip_spaces m p = (if m p = of_char (CHR '' '') then skip_spaces m (Suc p) else Some p)"

partial_function (option) bootarg_loop :: "mem \<Rightarrow> u8 list \<Rightarrow> nat \<Rightarrow> u64 option option" where
  "bootarg_loop m key p =
     (if m p = 0 then Some None
      else Option.bind (skip_spaces m p) (\<lambda>q.
        if strncmp_eq m q key \<and> m (q + length key) = of_char (CHR ''='') then parse_num m (q + length key + 1)
        else Option.bind (strchr m q (of_char (CHR '' ''))) (\<lambda>r.
          case r of None \<Rightarrow> Some None | Some p' \<Rightarrow> bootarg_loop m key p')))"

definition parse_bootarg_u64 :: "mem \<Rightarrow> nat \<Rightarrow> string \<Rightarrow> u64 option option" where
  "parse_bootarg_u64 m bootargs key = bootarg_loop m (bytes key) bootargs"

section \<open>Search for the boot arguments\<close>

function bootargs_loop :: "mem \<Rightarrow> nat \<Rightarrow> u32 \<Rightarrow> nat \<Rightarrow> nat \<Rightarrow> nat option" where
  "bootargs_loop m strings strings_size struct_end p =
     (if struct_end < p + 4 then None
      else let token = fdt32_to_cpu m p; structp = p + 4 in
        if token = FDT_BEGIN_NODE then
          bootargs_loop m strings strings_size struct_end (align4 (structp + strnlen m structp (struct_end - structp) + 1))
        else if token = FDT_PROP then
          (if struct_end < structp + 8 then None
           else let len = fdt32_to_cpu m structp; nameoff = fdt32_to_cpu m (structp + 4); value = structp + 8; nxt = align4 (value + unat len) in
             if strings_size \<le> nameoff then bootargs_loop m strings strings_size struct_end nxt
             else if strcmp_eq m (strings + unat nameoff) (bytes ''bootargs'') \<and> 0 < len then Some value
             else bootargs_loop m strings strings_size struct_end nxt)
        else if token = FDT_END then None
        else if token = FDT_END_NODE \<or> token = FDT_NOP then bootargs_loop m strings strings_size struct_end structp
        else None)"
  by pat_completeness auto
termination
  by (relation "measure (\<lambda>(m, strings, ssize, e, p). e - p)") (auto intro!: align4_progress)

declare bootargs_loop.simps [simp del]

definition find_bootargs :: "mem \<Rightarrow> nat \<Rightarrow> nat option" where
  "find_bootargs m fdt =
     (if fdt = 0 \<or> fdt32_to_cpu m fdt \<noteq> FDT_MAGIC then None
      else let structp = fdt + unat (fdt32_to_cpu m (fdt + 8)); struct_end = structp + unat (fdt32_to_cpu m (fdt + 36));
               strings = fdt + unat (fdt32_to_cpu m (fdt + 12)); strings_size = fdt32_to_cpu m (fdt + 32)
        in bootargs_loop m strings strings_size struct_end structp)"

interpretation bootargs: fdt_walker m "unat strings_size" struct_end
  "\<lambda>len off pos s. Some (if strcmp_eq m (strings + off) (bytes ''bootargs'') \<and> 0 < len then Inl pos else Inr s)"
  "\<lambda>p s. Some (case bootargs_loop m strings strings_size struct_end p of Some v \<Rightarrow> Inl v | None \<Rightarrow> Inr s)"
  for m strings strings_size struct_end
proof (unfold_locales, goal_cases)
  case (4 p len off s)
  then show ?case
    by (subst bootargs_loop.simps) (simp add: Let_def word_le_nat_alt fdt32_to_cpu_be32 unat_gt_0 add.assoc word_gt_0)
qed (subst bootargs_loop.simps, auto simp: Let_def fdt32_to_cpu_be32)+

section \<open>Configuration\<close>

record guest_config =
  g_guest_entry :: u64
  g_guest_dtb_addr :: u64
  g_guest_ram_base :: u64
  g_guest_ram_size :: u64
  g_guest_initrd_start :: u64
  g_guest_initrd_end :: u64
  g_guest_vcpus :: u32

definition default_guest_config :: guest_config where
  "default_guest_config = \<lparr>g_guest_entry = 0x90080000, g_guest_dtb_addr = 0x90f00000, g_guest_ram_base = 0x90000000,
     g_guest_ram_size = 0x01000000, g_guest_initrd_start = 0, g_guest_initrd_end = 0, g_guest_vcpus = 1\<rparr>"

abbreviation (input) "CONFIG_SMP_CPU_NUM \<equiv> 4"

definition clamp_vcpus :: "u64 \<Rightarrow> u32" where
  "clamp_vcpus tmp = (let t1 = (if tmp < 1 then 1 else tmp) in ucast (if CONFIG_SMP_CPU_NUM < t1 then CONFIG_SMP_CPU_NUM else t1))"

text \<open>\<^verbatim>\<open>if (parse_bootarg_u64(bootargs, key, &tmp)) x = tmp;\<close> for a variable \<open>x\<close> set by \<open>upd\<close>.\<close>

definition bootarg_set :: "mem \<Rightarrow> nat \<Rightarrow> string \<Rightarrow> (u64 \<Rightarrow> guest_config \<Rightarrow> guest_config) \<Rightarrow> guest_config \<Rightarrow> guest_config option" where
  "bootarg_set m bootargs key upd c =
     Option.bind (parse_bootarg_u64 m bootargs key) (\<lambda>r. Some (case r of None \<Rightarrow> c | Some tmp \<Rightarrow> upd tmp c))"

definition riscv_guest_config_init :: "mem \<Rightarrow> nat \<Rightarrow> guest_config option" where
  "riscv_guest_config_init m host_fdt = (case find_bootargs m host_fdt of
     None \<Rightarrow> Some default_guest_config
   | Some bootargs \<Rightarrow> do {
       c \<leftarrow> bootarg_set m bootargs ''guest_entry'' (\<lambda>tmp c. c\<lparr>g_guest_entry := tmp\<rparr>) default_guest_config;
       c \<leftarrow> bootarg_set m bootargs ''guest_dtb'' (\<lambda>tmp c. c\<lparr>g_guest_dtb_addr := tmp\<rparr>) c;
       c \<leftarrow> bootarg_set m bootargs ''guest_ram_base'' (\<lambda>tmp c. c\<lparr>g_guest_ram_base := tmp\<rparr>) c;
       c \<leftarrow> bootarg_set m bootargs ''guest_ram_size'' (\<lambda>tmp c. c\<lparr>g_guest_ram_size := tmp\<rparr>) c;
       c \<leftarrow> bootarg_set m bootargs ''guest_initrd_start'' (\<lambda>tmp c. c\<lparr>g_guest_initrd_start := tmp\<rparr>) c;
       c \<leftarrow> bootarg_set m bootargs ''guest_initrd_end'' (\<lambda>tmp c. c\<lparr>g_guest_initrd_end := tmp\<rparr>) c;
       c \<leftarrow> Some (if g_guest_initrd_end c \<le> g_guest_initrd_start c then c\<lparr>g_guest_initrd_start := 0, g_guest_initrd_end := 0\<rparr> else c);
       bootarg_set m bootargs ''guest_vcpus'' (\<lambda>tmp c. c\<lparr>g_guest_vcpus := clamp_vcpus tmp\<rparr>) c })"

definition riscv_guest_entry :: "guest_config \<Rightarrow> u64" where
  "riscv_guest_entry c = g_guest_entry c"

definition riscv_guest_dtb_addr :: "guest_config \<Rightarrow> u64" where
  "riscv_guest_dtb_addr c = g_guest_dtb_addr c"

definition riscv_guest_ram_base :: "guest_config \<Rightarrow> u64" where
  "riscv_guest_ram_base c = g_guest_ram_base c"

definition riscv_guest_ram_size :: "guest_config \<Rightarrow> u64" where
  "riscv_guest_ram_size c = g_guest_ram_size c"

definition riscv_guest_vcpu_count :: "guest_config \<Rightarrow> u32" where
  "riscv_guest_vcpu_count c = g_guest_vcpus c"

section \<open>Reference\<close>

text \<open>
  The arguments as words between spaces. The first word \<open>key=...\<close> decides; its value is decimal, or hexadecimal behind
  \<^verbatim>\<open>0x\<close>, and not a number when another character follows. An empty value is refused at the end of the arguments only:
  before a space it is 0.
\<close>

primrec num_of :: "u64 \<Rightarrow> u8 list \<Rightarrow> u64 \<Rightarrow> u64 option" where
  "num_of base [] v = Some v"
| "num_of base (c # w) v = (case num_digit base c of None \<Rightarrow> None | Some d \<Rightarrow> if base \<le> d then None else num_of base w (v * base + d))"

definition word_num :: "bool \<Rightarrow> u8 list \<Rightarrow> u64 option" where
  "word_num followed w =
     (let hex = take 2 w \<in> {bytes ''0x'', bytes ''0X''}; ds = (if hex then drop 2 w else w)
      in if ds = [] \<and> \<not> followed then None else num_of (if hex then 16 else 10) ds 0)"

primrec boot_lookup :: "u8 list \<Rightarrow> u8 list list \<Rightarrow> u64 option" where
  "boot_lookup key [] = None"
| "boot_lookup key (w # ws) =
     (if take (length key + 1) w = key @ bytes ''='' then word_num (ws \<noteq> []) (drop (length key + 1) w) else boot_lookup key ws)"

abbreviation (input) "SP \<equiv> (of_char (CHR '' '') :: u8)"

definition configured :: "(string \<Rightarrow> u64 option) \<Rightarrow> guest_config" where
  "configured f =
     (let val = (\<lambda>key def. case f key of None \<Rightarrow> def | Some v \<Rightarrow> v);
          start = val ''guest_initrd_start'' 0; stop = val ''guest_initrd_end'' 0
      in \<lparr>g_guest_entry = val ''guest_entry'' 0x90080000, g_guest_dtb_addr = val ''guest_dtb'' 0x90f00000,
          g_guest_ram_base = val ''guest_ram_base'' 0x90000000, g_guest_ram_size = val ''guest_ram_size'' 0x01000000,
          g_guest_initrd_start = (if start < stop then start else 0), g_guest_initrd_end = (if start < stop then stop else 0),
          g_guest_vcpus = of_nat (max 1 (min 4 (unat (val ''guest_vcpus'' 1))))\<rparr>)"

definition guest_config_of :: "u8 list option \<Rightarrow> guest_config" where
  "guest_config_of args = (case args of None \<Rightarrow> default_guest_config
     | Some s \<Rightarrow> configured (\<lambda>key. boot_lookup (bytes key) (sep_fields SP s)))"

text \<open>The arguments of a tree: the first property \<^verbatim>\<open>bootargs\<close> with a value, up to its terminator.\<close>

fun tree_bootargs :: "fdt_event list \<Rightarrow> u8 list option" where
  "tree_bootargs [] = None"
| "tree_bootargs (Prop_ev name v # es) = (if name = bytes ''bootargs'' \<and> v \<noteq> [] then Some v else tree_bootargs es)"
| "tree_bootargs (_ # es) = tree_bootargs es"

section \<open>Correctness of the parser\<close>

lemma num_loop_spec:
  assumes "cstring m p s" "w = takeWhile (\<lambda>c. c \<noteq> SP) s"
  shows "num_loop m base p v = Some (num_of base w v)"
  using assms
proof (induction s arbitrary: p v w)
  case Nil then show ?case by (subst num_loop.simps) simp
next
  case (Cons c s) then show ?case by (subst num_loop.simps) (auto split: option.split)
qed

lemma skip_spaces_spec: "cstring m p s \<Longrightarrow> skip_spaces m p = Some (p + length (takeWhile (\<lambda>c. c = SP) s))"
proof (induction s arbitrary: p)
  case Nil then show ?case by (subst skip_spaces.simps) simp
next
  case (Cons c s) then show ?case by (subst skip_spaces.simps) auto
qed

lemma strchr_spec:
  "cstring m p s \<Longrightarrow> c \<noteq> 0 \<Longrightarrow> strchr m p c =
    Some (if c \<in> set s then Some (p + length (takeWhile (\<lambda>x. x \<noteq> c) s)) else None)"
proof (induction s arbitrary: p)
  case Nil then show ?case by (subst strchr.simps) simp
next
  case (Cons x s) then show ?case by (subst strchr.simps) auto
qed

lemma cstring_end: "cstring m p s \<Longrightarrow> m p = 0 \<longleftrightarrow> s = []"
  by (cases s) auto

lemma takeWhile_drop: "n \<le> length (takeWhile P s) \<Longrightarrow> takeWhile P (drop n s) = drop n (takeWhile P s)"
proof (induction s arbitrary: n)
  case (Cons x s) then show ?case by (cases n) (auto split: if_splits)
qed simp

lemma no_word: "takeWhile (\<lambda>c. c \<noteq> sep) r = [] \<and> sep \<notin> set r \<longleftrightarrow> r = []"
  by (cases r) auto

lemma parse_num_spec:
  assumes "cstring m p s"
  shows "parse_num m p = Some (word_num (SP \<in> set s) (takeWhile (\<lambda>c. c \<noteq> SP) s))"
proof -
  let ?hex = "m p = of_char (CHR ''0'') \<and> (m (p + 1) = of_char (CHR ''x'') \<or> m (p + 1) = of_char (CHR ''X''))"
  show ?thesis
  proof (cases ?hex)
    case True
    then obtain x r where s: "s = of_char (CHR ''0'') # x # r" "x = of_char (CHR ''x'') \<or> x = of_char (CHR ''X'')" "cstring m (p + 2) r"
      using assms by (cases s; cases "tl s") auto
    have "num_loop m 16 (p + 2) 0 = Some (num_of 16 (takeWhile (\<lambda>c. c \<noteq> SP) r) 0)" by (rule num_loop_spec [OF s(3) refl])
    then show ?thesis using True s(2) cstring_end [OF s(3)] no_word [of SP r] unfolding s(1) parse_num_def word_num_def by (auto simp: Let_def)
  next
    case False
    then have "take 2 (takeWhile (\<lambda>c. c \<noteq> SP) s) \<notin> {bytes ''0x'', bytes ''0X''}"
      using assms by (cases s; cases "tl s") auto
    moreover have "num_loop m 10 p 0 = Some (num_of 10 (takeWhile (\<lambda>c. c \<noteq> SP) s) 0)" by (rule num_loop_spec [OF assms refl])
    ultimately show ?thesis using False cstring_end [OF assms] no_word [of SP s] unfolding parse_num_def word_num_def Let_def by auto
  qed
qed

lemma strncmp_key:
  assumes "cstring m p s" "0 \<notin> set key" "SP \<notin> set key"
  shows "strncmp_eq m p key \<and> m (p + length key) = of_char (CHR ''='') \<longleftrightarrow>
    take (length key + 1) (takeWhile (\<lambda>c. c \<noteq> SP) s) = key @ bytes ''=''"
  using assms
proof (induction key arbitrary: p s)
  case Nil then show ?case by (cases s) (auto simp: strncmp_eq_def)
next
  case (Cons c key) then show ?case using Cons.IH [of "Suc p" "tl s"] by (cases s) (auto simp: strncmp_eq_def mbytes_Cons)
qed

lemma boot_lookup_spaces:
  "boot_lookup key (sep_fields SP s) = boot_lookup key (sep_fields SP (dropWhile (\<lambda>c. c = SP) s))"
  by (induction s) auto

lemma tl_fields_Nil: "tl (sep_fields sep s) = [] \<longleftrightarrow> sep \<notin> set s"
  by (induction s) (simp_all add: sep_fields_Cons del: sep_fields.simps(2))

lemma in_set_drop_prefix: "n \<le> length (takeWhile (\<lambda>c. c \<noteq> x) s) \<Longrightarrow> x \<in> set (drop n s) \<longleftrightarrow> x \<in> set s"
proof (induction s arbitrary: n)
  case (Cons y s) then show ?case by (cases n) (auto split: if_splits)
qed simp

lemma bootarg_loop_spec:
  assumes k: "0 \<notin> set key" "SP \<notin> set key"
  shows "cstring m p s \<Longrightarrow> bootarg_loop m key p = Some (boot_lookup key (sep_fields SP s))"
proof (induction "length s" arbitrary: p s rule: less_induct)
  case less
  define t where "t = dropWhile (\<lambda>c. c = SP) s"
  define n where "n = length (takeWhile (\<lambda>c. c = SP) s)"
  define w where "w = takeWhile (\<lambda>c. c \<noteq> SP) t"
  define q where "q = p + n"
  have t: "t = drop n s" by (simp add: t_def n_def dropWhile_eq_drop)
  have n: "n \<le> length s" unfolding n_def by (rule length_takeWhile_le)
  have q: "cstring m q t" unfolding q_def t by (rule cstring_drop [OF less.prems n])
  have wt: "length w \<le> length t" unfolding w_def by (rule length_takeWhile_le)
  have sk: "skip_spaces m p = Some q" using skip_spaces_spec [OF less.prems] by (simp add: q_def n_def)
  have bl: "boot_lookup key (sep_fields SP s) = boot_lookup key (sep_fields SP t)" unfolding t_def by (rule boot_lookup_spaces)
  have c: "strncmp_eq m q key \<and> m (q + length key) = of_char (CHR ''='') \<longleftrightarrow> take (length key + 1) w = key @ bytes ''=''"
    unfolding w_def by (rule strncmp_key [OF q k])
  have f: "sep_fields SP t = w # tl (sep_fields SP t)" unfolding w_def by (rule sep_fields_eq)
  show ?case
  proof (cases "s = []")
    case True then show ?thesis using less.prems by (subst bootarg_loop.simps) simp
  next
    case s: False
    then have mp: "m p \<noteq> 0" using cstring_end [OF less.prems] by simp
    show ?thesis
    proof (cases "take (length key + 1) w = key @ bytes ''=''")
      case hit: True
      have "length (take (length key + 1) w) = length key + 1" unfolding hit by simp
      then have kl: "length key + 1 \<le> length w" by (simp only: length_take)
      have "cstring m (q + (length key + 1)) (drop (length key + 1) t)" using kl wt by (intro cstring_drop [OF q]) simp
      then have "parse_num m (q + length key + 1) = Some (word_num (SP \<in> set (drop (length key + 1) t)) (drop (length key + 1) w))"
        using parse_num_spec takeWhile_drop [of "length key + 1" _ t] kl unfolding w_def by (simp add: add.assoc)
      moreover have "SP \<in> set (drop (length key + 1) t) \<longleftrightarrow> tl (sep_fields SP t) \<noteq> []"
        unfolding tl_fields_Nil using in_set_drop_prefix [of "length key + 1" SP t] kl by (simp add: w_def)
      ultimately show ?thesis
        using hit mp sk c unfolding bl by (subst f, subst bootarg_loop.simps) simp
    next
      case miss: False
      have l: "bootarg_loop m key p = Option.bind (strchr m q SP) (\<lambda>r. case r of None \<Rightarrow> Some None | Some p' \<Rightarrow> bootarg_loop m key p')"
        using miss mp sk c by (subst bootarg_loop.simps) auto
      have r: "boot_lookup key (sep_fields SP s) = boot_lookup key (tl (sep_fields SP t))"
        unfolding bl using miss by (subst f) simp
      show ?thesis
      proof (cases "SP \<in> set t")
        case False
        then show ?thesis using l r strchr_spec [OF q, of SP] tl_fields_Nil [of SP t] by simp
      next
        case True
        then obtain u where u: "drop (length w) t = SP # u"
          unfolding w_def using dropWhile_eq_drop [of "\<lambda>c. c \<noteq> SP" t] by (cases "dropWhile (\<lambda>c. c \<noteq> SP) t") (auto dest: dropWhile_eq_Cons_conv [THEN iffD1])
        have "t \<noteq> []" using True by auto
        moreover from this have "hd t \<noteq> SP" unfolding t_def by (rule hd_dropWhile)
        ultimately have "w \<noteq> []" by (cases t) (auto simp: w_def)
        then have "length (drop (length w) t) < length s" using wt n by (cases s) (auto simp: t)
        moreover have "cstring m (q + length w) (drop (length w) t)" by (rule cstring_drop [OF q wt])
        ultimately have "bootarg_loop m key (q + length w) = Some (boot_lookup key (sep_fields SP u))"
          using less.hyps [of "SP # u"] u by simp
        moreover have "tl (sep_fields SP t) = sep_fields SP u" using tl_sep_fields [of SP t] u by (simp add: w_def)
        ultimately show ?thesis using l r strchr_spec [OF q, of SP] True by (simp add: w_def)
      qed
    qed
  qed
qed

text \<open>A key without value counts as 0 unless it is the last argument.\<close>

lemma empty_argument:
  "boot_lookup (bytes ''guest_entry'') (sep_fields SP (bytes ''guest_entry= quiet'')) = Some 0"
  "boot_lookup (bytes ''guest_entry'') (sep_fields SP (bytes ''quiet guest_entry='')) = None"
  by code_simp+

section \<open>Correctness of the configuration\<close>

lemma bootargs_walk:
  assumes "option_list (map (fdt_event_of (\<lambda>o'. m (base + o')) strings ssize) ts) = Some es"
  shows "case tree_bootargs es of
      None \<Rightarrow> fdt_walk (\<lambda>len off pos s. Some (if strcmp_eq m (base + strings + off) (bytes ''bootargs'') \<and> 0 < len then Inl pos else Inr s)) ssize base ts s = Some (Inr s)
    | Some v \<Rightarrow> \<exists>p. fdt_walk (\<lambda>len off pos s. Some (if strcmp_eq m (base + strings + off) (bytes ''bootargs'') \<and> 0 < len then Inl pos else Inr s)) ssize base ts s = Some (Inl p) \<and>
        mbytes m p (length v) = v"
  using assms
proof (induction ts arbitrary: es)
  case (Cons t ts)
  then obtain ev es' where e: "fdt_event_of (\<lambda>o'. m (base + o')) strings ssize t = Some ev" "es = ev # es'"
    "option_list (map (fdt_event_of (\<lambda>o'. m (base + o')) strings ssize) ts) = Some es'"
    by (auto split: option.splits)
  show ?case
  proof (cases t)
    case (Tok_prop len off pos)
    then obtain nm where nm: "cstring m (base + strings + off) nm" "off < ssize" "ev = Prop_ev nm (mbytes m (base + pos) len)"
      using e(1) by (auto simp: fdt_event_of_def mem_str_Some mbytes_shift add.assoc)
    have "strcmp_eq m (base + strings + off) (bytes ''bootargs'') \<longleftrightarrow> nm = bytes ''bootargs''"
      by (rule strcmp_eq_cstring [OF nm(1)]) simp
    moreover have "mbytes m (base + pos) len \<noteq> [] \<longleftrightarrow> 0 < len" by (metis mbytes_length length_greater_0_conv)
    ultimately show ?thesis using Cons.IH [OF e(3)] nm(2,3) e(2) Tok_prop by (auto split: option.splits)
  qed (use Cons.IH [OF e(3)] e in \<open>auto simp: fdt_event_of_def split: option.splits\<close>)
qed simp

lemma find_bootargs_spec:
  assumes "fdt_events (\<lambda>o'. m (fdt + o')) = Some es" "4 dvd fdt" "fdt \<noteq> 0"
  shows "case tree_bootargs es of None \<Rightarrow> find_bootargs m fdt = None | Some v \<Rightarrow> \<exists>p. find_bootargs m fdt = Some p \<and> mbytes m p (length v) = v"
proof -
  let ?st = "unat (be32 m (fdt + 8))" and ?sz = "unat (be32 m (fdt + 36))" and ?str = "unat (be32 m (fdt + 12))" and ?ss = "be32 m (fdt + 32)"
  obtain ts where t: "fdt_tokens (\<lambda>o'. m (fdt + o')) (?st + ?sz) ?st = Some ts"
      "option_list (map (fdt_event_of (\<lambda>o'. m (fdt + o')) ?str (unat ?ss)) ts) = Some es" "be32 m fdt = FDT_MAGIC"
    using assms(1) by (auto simp: fdt_events_def Let_def split: if_splits option.splits)
  show ?thesis
    using bootargs.loop_walks [OF t(1) assms(2) refl, where strings = "fdt + ?str" and strings_size = ?ss and s = "()"]
      bootargs_walk [OF t(2), of "()"] assms(3) t(3)
    by (auto simp: find_bootargs_def fdt32_to_cpu_be32 Let_def add.assoc split: option.splits)
qed

lemma clamp_vcpus_eq: "clamp_vcpus v = of_nat (max 1 (min 4 (unat v)))"
proof (rule word_unat_eq_iff [THEN iffD2])
  have "v < 1 \<longleftrightarrow> unat v < 1" "4 < v \<longleftrightarrow> 4 < unat v" by (simp_all add: word_less_nat_alt)
  moreover have "unat (ucast v :: u32) = unat v" if "unat v \<le> 4"
    using that by (simp add: unsigned_ucast_eq take_bit_nat_eq_self)
  ultimately show "unat (clamp_vcpus v) = unat (of_nat (max 1 (min 4 (unat v))) :: u32)"
    by (simp add: clamp_vcpus_def Let_def unat_of_nat_small max_def min_def)
qed

lemma vcpus_bounds: "1 \<le> g_guest_vcpus (guest_config_of a) \<and> g_guest_vcpus (guest_config_of a) \<le> 4"
proof -
  have "1 \<le> (of_nat (max 1 (min 4 n)) :: u32) \<and> (of_nat (max 1 (min 4 n)) :: u32) \<le> 4" for n
    by (simp add: word_le_nat_alt unat_of_nat_small max_def min_def)
  then show ?thesis by (simp add: guest_config_of_def configured_def default_guest_config_def Let_def split: option.split)
qed

lemma parse_bootarg_spec:
  assumes "cstring m p s" "CHR 0x00 \<notin> set key" "CHR '' '' \<notin> set key"
  shows "parse_bootarg_u64 m p key = Some (boot_lookup (bytes key) (sep_fields SP s))"
proof -
  have "SP \<in> set (bytes key) \<longleftrightarrow> CHR '' '' \<in> set key" unfolding set_map image_iff of_char_eq_iff8 by blast
  moreover have "0 \<notin> set (bytes key)" using assms(2) by auto
  ultimately show ?thesis unfolding parse_bootarg_u64_def using bootarg_loop_spec [OF _ _ assms(1), of "bytes key"] assms(3) by blast
qed

lemma bootarg_set_Some:
  assumes "parse_bootarg_u64 m p key = Some x"
  shows "bootarg_set m p key (\<lambda>t c. c\<lparr>g_guest_entry := t\<rparr>) c = Some (c\<lparr>g_guest_entry := (case x of None \<Rightarrow> g_guest_entry c | Some t \<Rightarrow> t)\<rparr>)"
    "bootarg_set m p key (\<lambda>t c. c\<lparr>g_guest_dtb_addr := t\<rparr>) c = Some (c\<lparr>g_guest_dtb_addr := (case x of None \<Rightarrow> g_guest_dtb_addr c | Some t \<Rightarrow> t)\<rparr>)"
    "bootarg_set m p key (\<lambda>t c. c\<lparr>g_guest_ram_base := t\<rparr>) c = Some (c\<lparr>g_guest_ram_base := (case x of None \<Rightarrow> g_guest_ram_base c | Some t \<Rightarrow> t)\<rparr>)"
    "bootarg_set m p key (\<lambda>t c. c\<lparr>g_guest_ram_size := t\<rparr>) c = Some (c\<lparr>g_guest_ram_size := (case x of None \<Rightarrow> g_guest_ram_size c | Some t \<Rightarrow> t)\<rparr>)"
    "bootarg_set m p key (\<lambda>t c. c\<lparr>g_guest_initrd_start := t\<rparr>) c = Some (c\<lparr>g_guest_initrd_start := (case x of None \<Rightarrow> g_guest_initrd_start c | Some t \<Rightarrow> t)\<rparr>)"
    "bootarg_set m p key (\<lambda>t c. c\<lparr>g_guest_initrd_end := t\<rparr>) c = Some (c\<lparr>g_guest_initrd_end := (case x of None \<Rightarrow> g_guest_initrd_end c | Some t \<Rightarrow> t)\<rparr>)"
    "bootarg_set m p key (\<lambda>t c. c\<lparr>g_guest_vcpus := clamp_vcpus t\<rparr>) c =
      Some (c\<lparr>g_guest_vcpus := (case x of None \<Rightarrow> g_guest_vcpus c | Some t \<Rightarrow> of_nat (max 1 (min 4 (unat t))))\<rparr>)"
  by (cases x; simp add: bootarg_set_def assms clamp_vcpus_eq)+

lemma initrd_ok: "g_guest_initrd_start (guest_config_of a) = 0 \<and> g_guest_initrd_end (guest_config_of a) = 0 \<or>
    g_guest_initrd_start (guest_config_of a) < g_guest_initrd_end (guest_config_of a)"
  by (simp add: guest_config_of_def configured_def default_guest_config_def Let_def split: option.split)

text \<open>
  C0. Configuration of the guest: on a host device tree that the reference reader reads as the events \<open>es\<close>, and in
  which the boot arguments have a terminator, \<^verbatim>\<open>riscv_guest_config_init\<close> returns the configuration that the arguments
  spell: for each key the value of the first word \<open>key=...\<close> if it is a number, else the default. In any case between one
  and four virtual CPUs result, and an initial ramdisk is either absent (0, 0) or not empty.
\<close>

theorem riscv_guest_config_correct:
  assumes "fdt_events (\<lambda>o'. m (fdt + o')) = Some es" "4 dvd fdt" "fdt \<noteq> 0" "case tree_bootargs es of None \<Rightarrow> True | Some v \<Rightarrow> 0 \<in> set v"
  shows "\<exists>c. riscv_guest_config_init m fdt = Some c \<and> c = guest_config_of (map_option (takeWhile (\<lambda>b. b \<noteq> 0)) (tree_bootargs es)) \<and>
    1 \<le> riscv_guest_vcpu_count c \<and> riscv_guest_vcpu_count c \<le> 4 \<and>
    (g_guest_initrd_start c = 0 \<and> g_guest_initrd_end c = 0 \<or> g_guest_initrd_start c < g_guest_initrd_end c)"
proof -
  have "riscv_guest_config_init m fdt = Some (guest_config_of (map_option (takeWhile (\<lambda>b. b \<noteq> 0)) (tree_bootargs es)))"
  proof (cases "tree_bootargs es")
    case None
    then show ?thesis using find_bootargs_spec [OF assms(1-3)] by (simp add: riscv_guest_config_init_def guest_config_of_def)
  next
    case (Some v)
    then obtain p where p: "find_bootargs m fdt = Some p" "mbytes m p (length v) = v" using find_bootargs_spec [OF assms(1-3)] by auto
    have s: "cstring m p (takeWhile (\<lambda>b. b \<noteq> 0) v)" using p(2) assms(4) Some by (auto intro: cstring_takeWhile)
    obtain f where f: "\<And>key. boot_lookup (bytes key) (sep_fields SP (takeWhile (\<lambda>b. b \<noteq> 0) v)) = f key" by simp
    have l: "parse_bootarg_u64 m p ''guest_entry'' = Some (f ''guest_entry'')" "parse_bootarg_u64 m p ''guest_dtb'' = Some (f ''guest_dtb'')"
      "parse_bootarg_u64 m p ''guest_ram_base'' = Some (f ''guest_ram_base'')" "parse_bootarg_u64 m p ''guest_ram_size'' = Some (f ''guest_ram_size'')"
      "parse_bootarg_u64 m p ''guest_initrd_start'' = Some (f ''guest_initrd_start'')" "parse_bootarg_u64 m p ''guest_initrd_end'' = Some (f ''guest_initrd_end'')"
      "parse_bootarg_u64 m p ''guest_vcpus'' = Some (f ''guest_vcpus'')"
      unfolding f [symmetric] by (rule parse_bootarg_spec [OF s]; simp)+
    define c1 where "c1 = default_guest_config\<lparr>g_guest_entry := (case f ''guest_entry'' of None \<Rightarrow> g_guest_entry default_guest_config | Some t \<Rightarrow> t)\<rparr>"
    define c2 where "c2 = c1\<lparr>g_guest_dtb_addr := (case f ''guest_dtb'' of None \<Rightarrow> g_guest_dtb_addr c1 | Some t \<Rightarrow> t)\<rparr>"
    define c3 where "c3 = c2\<lparr>g_guest_ram_base := (case f ''guest_ram_base'' of None \<Rightarrow> g_guest_ram_base c2 | Some t \<Rightarrow> t)\<rparr>"
    define c4 where "c4 = c3\<lparr>g_guest_ram_size := (case f ''guest_ram_size'' of None \<Rightarrow> g_guest_ram_size c3 | Some t \<Rightarrow> t)\<rparr>"
    define c5 where "c5 = c4\<lparr>g_guest_initrd_start := (case f ''guest_initrd_start'' of None \<Rightarrow> g_guest_initrd_start c4 | Some t \<Rightarrow> t)\<rparr>"
    define c6 where "c6 = c5\<lparr>g_guest_initrd_end := (case f ''guest_initrd_end'' of None \<Rightarrow> g_guest_initrd_end c5 | Some t \<Rightarrow> t)\<rparr>"
    define c7 where "c7 = (if g_guest_initrd_end c6 \<le> g_guest_initrd_start c6 then c6\<lparr>g_guest_initrd_start := 0, g_guest_initrd_end := 0\<rparr> else c6)"
    define c8 where "c8 = c7\<lparr>g_guest_vcpus := (case f ''guest_vcpus'' of None \<Rightarrow> g_guest_vcpus c7 | Some t \<Rightarrow> of_nat (max 1 (min 4 (unat t))))\<rparr>"
    note c = c1_def c2_def c3_def c4_def c5_def c6_def
    have "riscv_guest_config_init m fdt = Some c8"
      by (simp add: riscv_guest_config_init_def p(1) bootarg_set_Some(1) [OF l(1), of default_guest_config, folded c1_def]
          bootarg_set_Some(2) [OF l(2), of c1, folded c2_def] bootarg_set_Some(3) [OF l(3), of c2, folded c3_def]
          bootarg_set_Some(4) [OF l(4), of c3, folded c4_def] bootarg_set_Some(5) [OF l(5), of c4, folded c5_def]
          bootarg_set_Some(6) [OF l(6), of c5, folded c6_def] c7_def [symmetric] bootarg_set_Some(7) [OF l(7), of c7, folded c8_def])
    moreover have "c8 = configured f"
    proof (rule guest_config.equality, simp_all add: c8_def c7_def c configured_def default_guest_config_def Let_def not_less cong: option.case_cong)
    qed (auto split: option.split)
    ultimately have "riscv_guest_config_init m fdt = Some (configured f)" by simp
    then show ?thesis unfolding Some guest_config_of_def option.map option.case f .
  qed
  then show ?thesis using vcpus_bounds initrd_ok by (simp only: riscv_guest_vcpu_count_def) blast
qed

text \<open>A tree with boot arguments that ask for nine virtual CPUs, placed at address 64.\<close>

definition args_blob :: mem where
  "args_blob = (let prop = be_bytes32 3 @ be_bytes32 29 @ be_bytes32 0 @ bytes ''guest_vcpus=9 guest_dtb=0x2a'' @ [0, 0, 0, 0];
      block = be_bytes32 1 @ [0, 0, 0, 0] @ prop @ be_bytes32 2 @ be_bytes32 9;
      header = concat (map be_bytes32 [0xd00dfeed, 105, 40, 100, 40, 17, 16, 0, 9, 60])
    in mwrite (\<lambda>_. 0) 64 (header @ block @ bytes ''bootargs'' @ [0]))"

lemma args_blob_events: "fdt_events (\<lambda>o'. args_blob (64 + o')) = Some [Begin_ev [], Prop_ev (bytes ''bootargs'') (bytes ''guest_vcpus=9 guest_dtb=0x2a'' @ [0]), End_ev]"
  by code_simp

theorem riscv_guest_config_correct_witness:
  "riscv_guest_config_init args_blob 64 = Some (default_guest_config\<lparr>g_guest_dtb_addr := 42, g_guest_vcpus := 4\<rparr>)"
proof -
  have "guest_config_of (Some (bytes ''guest_vcpus=9 guest_dtb=0x2a'')) = default_guest_config\<lparr>g_guest_dtb_addr := 42, g_guest_vcpus := 4\<rparr>"
    by code_simp
  then show ?thesis using riscv_guest_config_correct [OF args_blob_events] by simp
qed

end
