(* ===== verification/Spec2Isabelle.thy ===== *)
theory Spec2Isabelle
  imports Kheap Log_Ring Riscv_Boot Riscv_Trap Pl011 Gicv3_Mmio Riscv_Mmu Arm_Boot_Map Arm_Machine Printf Riscv_Features Riscv_Guest_Cfg
begin

text \<open>
  HyperCoreRT is a small hypervisor for AArch64 and RISC-V. It boots on the host CPUs, builds its own address space and a
  second-stage address space for the guest, creates one task per virtual CPU of the guest, and from then on runs only when a guest
  traps or an interrupt arrives: it emulates devices and calls, maps memory on demand, delivers virtual interrupts and
  switches tasks. This development models the C code of these parts and proves what makes each of them correct. All paths below
  are relative to the directory that holds \<^verbatim>\<open>include\<close> and \<^verbatim>\<open>src\<close>.

  \<^bold>\<open>How the code is modelled.\<close> Structures are records, enumerations datatypes, functions of the code definitions with the same
  name (with a prefix such as \<open>arm_\<close> or \<open>rv_\<close> where both ports have one). Integers keep their width: \<open>u8\<close>, \<open>u32\<close>, \<open>u64\<close> are words and
  wrap; C \<^verbatim>\<open>int\<close> is \<open>int\<close>, with the range written out where it can be left. A function that can use a null pointer, access an array
  out of range, fail an assertion or overflow an \<^verbatim>\<open>int\<close> has an \<open>option\<close> result and is \<open>None\<close> there, so that a theorem which gives \<open>Some\<close>
  also says that none of this happens. State is passed explicitly; device and system registers that the code only
  writes are a trace of events. Locks are not modelled: a definition that runs under a lock is one step, and where the code gives a
  lock up between two steps (the scheduler of the RISC-V port) the steps are separate and their interleavings are the subject.

  \<^bold>\<open>Foundations.\<close>
  \<^item> \<^theory_text>\<open>HC_Prelude\<close>: integer types, checked array access, bit operations of \<^verbatim>\<open>include/compiler.h\<close>, the collections of simplification
    rules.
  \<^item> \<^theory_text>\<open>Bitmap\<close> (\<^verbatim>\<open>src/core/bitmap.c\<close>): setting and clearing of bits and ranges, search for the next bit and for an aligned free area.
    The locale \<open>bit_store\<close> is the contract of a bit array; the search terminates and finds the first fit.
  \<^item> \<^theory_text>\<open>Page_Alloc\<close> (\<^verbatim>\<open>src/core/page_alloc.c\<close>, \<^verbatim>\<open>ioremap.c\<close>, \<^verbatim>\<open>include/arch_page.h\<close>): the page pool, the range allocator and the conversions
    of addresses; no sequence of calls hands out a page twice.
  \<^item> \<^theory_text>\<open>Tlsf\<close>, \<^theory_text>\<open>Tlsf_Lists\<close>, \<^theory_text>\<open>Tlsf_Phys\<close>, \<^theory_text>\<open>Tlsf_Heap\<close> (\<^verbatim>\<open>src/core/tlsf.c\<close>): the heap allocator on a memory of 64-bit words. The size classes,
    the segregated lists with their two bitmaps as a set of blocks, the tiling of the pool as a layout, and on top the specifications of
    \<open>tlsf_malloc\<close>, \<open>tlsf_free\<close> and the creation of a pool. Every assertion of the code is part of the model and proved.
  \<^item> \<^theory_text>\<open>Kheap\<close> (\<^verbatim>\<open>src/core/kmalloc.c\<close>): the kernel heap from its creation on as a client sees it: live blocks are aligned,
    disjoint, inside the area, and keep their contents; after all have been released the heap is whole again.
  \<^item> \<^theory_text>\<open>Byte_Fifo\<close>, \<^theory_text>\<open>Log_Ring\<close> (\<^verbatim>\<open>src/core/log.c\<close>): rings of bytes. The locale \<open>byte_fifo\<close> is the contract of a ring; it is interpreted for
    the two emulated UARTs. The log ring drops its oldest characters and is drained by a flush.
  \<^item> \<^theory_text>\<open>Printf\<close> (\<^verbatim>\<open>src/utils/printf.c\<close>): formats, conversions and output functions. The text of a format is defined apart from where it
    goes; the code emits exactly that, a buffer is never overrun, and integers agree with a reference definition.

  \<^bold>\<open>Scheduling.\<close>
  \<^item> \<^theory_text>\<open>Sched_List\<close> (\<^verbatim>\<open>src/core/sched_simple.c\<close>, \<^verbatim>\<open>include/list.h\<close>): the ready and blocked queues as linked lists in an explicit heap, refined to
    sequences ordered by priority; traversals are partial functions that are shown to return.
  \<^item> \<^theory_text>\<open>Riscv_Sched\<close> (\<^verbatim>\<open>src/arch/riscv64/sched_riscv.c\<close>): choice of a task, yield and switch, and a step relation in which all CPUs interleave: a
    task is never current on two of them.
  \<^item> \<^theory_text>\<open>Arm_Sched\<close> (\<^verbatim>\<open>src/core/sched.c\<close>): the same operations on AArch64, where a yield is one step: nothing is lost, and a guest gets
    back its registers, timers and list registers.

  \<^bold>\<open>The RISC-V port\<close> (\<^verbatim>\<open>src/arch/riscv64\<close>).
  \<^item> \<^theory_text>\<open>Riscv_State\<close>: the state of the port: harts, virtual CPUs, tasks and queues.
  \<^item> \<^theory_text>\<open>Riscv_Irq\<close>: interrupt lines and timers of virtual CPUs (\<^verbatim>\<open>riscv_virt_irq_manager.c\<close>, \<^verbatim>\<open>riscv_timer_manager.c\<close>); locale \<open>virt_lines\<close>.
  \<^item> \<^theory_text>\<open>Riscv_Ipi\<close>: interrupts between CPUs and remote fences (\<^verbatim>\<open>ipi.c\<close>, \<^verbatim>\<open>riscv_fence_manager.c\<close>).
  \<^item> \<^theory_text>\<open>Vplic\<close>, \<^theory_text>\<open>Ns16550a\<close>: the emulated interrupt controller and UART (\<^verbatim>\<open>plic.c\<close>, \<^verbatim>\<open>emul_uart.c\<close>).
  \<^item> \<^theory_text>\<open>Guest_Mem\<close>, \<^theory_text>\<open>Riscv_Emulate\<close>: memory regions, binding of devices, decoding and emulation of loads and stores
    (\<^verbatim>\<open>src/core/guest_memory.c\<close>, \<^verbatim>\<open>emul_dev.c\<close>, \<^verbatim>\<open>emulate.c\<close>).
  \<^item> \<^theory_text>\<open>Riscv_Vcpu\<close>, \<^theory_text>\<open>Riscv_Boot\<close>: register context with floating-point and vector state, creation of virtual CPUs and tasks
    (\<^verbatim>\<open>vcpu.c\<close>, \<^verbatim>\<open>src/core/vcpu.c\<close>, \<^verbatim>\<open>vcpu_task.c\<close>).
  \<^item> \<^theory_text>\<open>Riscv_Sbi\<close>, \<^theory_text>\<open>Riscv_Trap\<close>: calls of the guest, the walk of its page tables, and the dispatch of traps (\<^verbatim>\<open>riscv_sbi_manager.c\<close>, \<^verbatim>\<open>exception.c\<close>,
    \<^verbatim>\<open>riscv_guest_fault_manager.c\<close>): no synchronous trap of a guest halts the hypervisor.

  \<^bold>\<open>The AArch64 port\<close> (\<^verbatim>\<open>src/arch/aarch64\<close>).
  \<^item> \<^theory_text>\<open>Vgic\<close>, \<^theory_text>\<open>Gicv3_Mmio\<close>, \<^theory_text>\<open>Pl011\<close>: queue and list registers of virtual interrupts, the register windows of distributor and
    redistributors over the memory of their state structure, and the emulated UART (\<^verbatim>\<open>src/core/emul_gic.c\<close>, \<^verbatim>\<open>emul_gicv3.c\<close>, \<^verbatim>\<open>emul_uart.c\<close>).
  \<^item> \<^theory_text>\<open>Arm_Vcpu\<close>: registers, timers, creation and context of a virtual CPU (\<^verbatim>\<open>vcpu.c\<close>, \<^verbatim>\<open>timer.c\<close>, \<^verbatim>\<open>aarch64_arch_ops.c\<close>).
  \<^item> \<^theory_text>\<open>Arm_Smp\<close>: the state of the machine, host CPUs and interrupts between them (\<^verbatim>\<open>smp.c\<close>, \<^verbatim>\<open>src/drivers/gic/gicv3.c\<close>).
  \<^item> \<^theory_text>\<open>Arm_Psci\<close>: creation of tasks and the power interface of the guest (\<^verbatim>\<open>include/emul_psci.h\<close>): each CPU is started at most once.
  \<^item> \<^theory_text>\<open>Arm_Trap\<close>: guest exceptions and interrupts (\<^verbatim>\<open>traps.c\<close>, \<^verbatim>\<open>aarch64_guest_fault_manager.c\<close>, \<^verbatim>\<open>emulate.c\<close>), which join all of the above:
    which exceptions halt the machine, that a missing page is mapped, that a timer interrupt is not lost.
  \<^item> \<^theory_text>\<open>Arm_Machine\<close>: the invariant of tasks, queues and CPUs under every sequence of exceptions and interrupts.

  \<^bold>\<open>Translation tables.\<close>
  \<^item> \<^theory_text>\<open>Radix_Table\<close>, \<^theory_text>\<open>Pool_Frames\<close>, \<^theory_text>\<open>Table_Walk\<close>: trees of tables in frames of the page pool, independent of the format of an entry. The
    locales \<open>radix_format\<close>, \<open>table_walker\<close> and \<open>table_unmapper\<close> state what a port has to provide (finding or allocating the next table, releasing an
    empty one); mapping and unmapping of ranges are proved correct in them once.
  \<^item> \<^theory_text>\<open>Riscv_Mmu\<close>, \<^theory_text>\<open>Arm_Mmu\<close>, \<^theory_text>\<open>Arm_Host_Map\<close>: their interpretations for \<^verbatim>\<open>src/arch/riscv64/mmu.c\<close>, \<^verbatim>\<open>src/arch/aarch64/page_table_s2.c\<close> and
    \<^verbatim>\<open>page_table.c\<close>, with the meaning of the entries; \<^theory_text>\<open>Arm_Boot_Map\<close>: the static tables built at boot (\<^verbatim>\<open>mm.c\<close>).

  \<^bold>\<open>Parameters and bounds.\<close> What is not C code of the repository is an argument: contents of guest memory, bytes
  waiting in the host UART, results of firmware calls, the device tree as the list of nodes the parser visits, the sequence of values a
  polled location returns (\<open>wait_online\<close>, the acknowledgement of a synchronous call), and in \<open>Riscv_Boot\<close> and \<open>Arm_Psci\<close> the results of the
  successive allocations, so that every failure is covered; \<open>Kheap\<close> shows what the allocator itself promises.
  The wait for a started CPU has the 100000 rounds of the code; the wait for the acknowledgement of a synchronous call
  ends with the first reading past its timeout, and is shown to return when there is one. \<open>flush_loop\<close> and the traversals of lists are shown to return
  for all well-formed states; all other recursions are total functions. The page
  pool has \<open>2 ^ 20\<close> bits, of which allocation only uses the even half; the heap area has 16 MB.

  \<^bold>\<open>Not modelled.\<close> Assembly (entry and exit of traps, start-up code), spin locks and barriers; \<^verbatim>\<open>src/arch/aarch64/init.c\<close> (a sequence of calls,
  system register writes and self tests); the initialisation of the host interrupt controller and of the secondary CPUs (register writes in a fixed
  order); \<^verbatim>\<open>libfdt\<close> (a vendored library) and the code that edits the guest's device tree through it; the floating-point conversions of
  \<^verbatim>\<open>src/utils/printf.c\<close>; register dumps and everything else that only prints. Each theory says at its beginning what it leaves out of its files.
\<close>

end
